(* ===== verification/Recode_Prelude.thy ===== *)
theory Recode_Prelude
  imports Main "HOL-Library.Finite_Map" "HOL-Library.Multiset"
begin

text \<open>
  Shared material of the development.

  \<^item> \<open>js_map\<close>: JavaScript's \<^verbatim>\<open>Map\<close>. Iteration follows insertion order and \<^verbatim>\<open>set\<close>
    on an existing key keeps its position, so a \<^verbatim>\<open>Map\<close> is an association list with
    distinct keys; the lemmas relate it to the partial function it represents.
  \<^item> \<open>json\<close>: values of TypeScript type \<^verbatim>\<open>unknown\<close> or \<^verbatim>\<open>JsonValue\<close> in durable payloads. An
    object is a finite map, so two values are equal exactly when they are structurally
    equal whatever the order of their keys.
  \<^item> \<open>js_num\<close>: a number argument of a query, split by \<^verbatim>\<open>Number.isInteger\<close>.
  \<^item> sums \<open>'e + 'a\<close> as the result of code that throws, with \<open>Inl\<close> for the exception.
  \<^item> stable sorting, lookups in a list of keyed values, and prefixes of a list.
\<close>

section \<open>Collections of rewrite rules\<close>

named_theorems js_map_simps \<open>lookups in a map after an update\<close>

section \<open>Results of code that can throw\<close>

definition bind_result :: "'e + 'a \<Rightarrow> ('a \<Rightarrow> 'e + 'b) \<Rightarrow> 'e + 'b" where
  "bind_result r f = (case r of Inl e \<Rightarrow> Inl e | Inr a \<Rightarrow> f a)"

lemma bind_result_simps [simp]:
  "bind_result (Inl e) f = Inl e"
  "bind_result (Inr a) f = f a"
  by (simp_all add: bind_result_def)

lemma bind_result_Inr_iff:
  "bind_result r f = Inr b \<longleftrightarrow> (\<exists>a. r = Inr a \<and> f a = Inr b)"
  by (cases r) auto

lemma bind_result_Inl_iff:
  "bind_result r f = Inl e \<longleftrightarrow> r = Inl e \<or> (\<exists>a. r = Inr a \<and> f a = Inl e)"
  by (cases r) auto

definition guard_result :: "bool \<Rightarrow> 'e \<Rightarrow> 'e + unit" where
  "guard_result ok e = (if ok then Inr () else Inl e)"

lemma guard_result_simps [simp]:
  "guard_result True e = Inr ()"
  "guard_result False e = Inl e"
  "guard_result ok e = Inr u \<longleftrightarrow> ok"
  "guard_result ok e = Inl e' \<longleftrightarrow> \<not> ok \<and> e' = e"
  by (auto simp: guard_result_def)

text \<open>A loop that applies a throwing step to each element and stops at the first exception.\<close>

fun fold_result :: "('s \<Rightarrow> 'x \<Rightarrow> 'e + 's) \<Rightarrow> 's \<Rightarrow> 'x list \<Rightarrow> 'e + 's" where
  "fold_result f s [] = Inr s"
| "fold_result f s (x # xs) = bind_result (f s x) (\<lambda>s'. fold_result f s' xs)"

lemma fold_result_append:
  "fold_result f s (xs @ ys) = bind_result (fold_result f s xs) (\<lambda>s'. fold_result f s' ys)"
proof (induction xs arbitrary: s)
  case (Cons x xs)
  then show ?case by (cases "f s x") auto
qed simp

text \<open>
  What a loop establishes: if its state after a prefix is described by \<open>g\<close>, the loop
  succeeds exactly when every element passes the test made after the prefix before it.
\<close>

lemma fold_result_prefix_iff:
  assumes step: "\<And>pre x. f (g pre) x = Inr (g (pre @ [x])) \<or> (\<exists>e. f (g pre) x = Inl e)"
  shows "(\<exists>s. fold_result f (g pre0) xs = Inr s) \<longleftrightarrow>
         (\<forall>i < length xs. \<exists>s. f (g (pre0 @ take i xs)) (xs ! i) = Inr s)"
proof (induction xs arbitrary: pre0)
  case (Cons x xs)
  show ?case
  proof (cases "f (g pre0) x")
    case (Inl e)
    then show ?thesis by (auto intro!: exI [of _ "0::nat"])
  next
    case (Inr s)
    with step [of pre0 x] have s: "f (g pre0) x = Inr (g (pre0 @ [x]))" by auto
    then show ?thesis
      using Cons.IH [of "pre0 @ [x]"]
      by (simp add: All_less_Suc2)
  qed
qed simp

lemma fold_result_prefix_state:
  assumes step: "\<And>pre x. f (g pre) x = Inr (g (pre @ [x])) \<or> (\<exists>e. f (g pre) x = Inl e)"
    and ok: "fold_result f (g pre0) xs = Inr s"
  shows "s = g (pre0 @ xs)"
  using ok
proof (induction xs arbitrary: pre0)
  case (Cons x xs)
  from Cons.prems obtain s1 where "f (g pre0) x = Inr s1" "fold_result f s1 xs = Inr s"
    by (auto simp: bind_result_Inr_iff)
  moreover from this step [of pre0 x] have "s1 = g (pre0 @ [x])" by auto
  ultimately show ?case using Cons.IH [of "pre0 @ [x]"] by simp
qed simp

lemma fold_result_invariant:
  assumes "fold_result f s xs = Inr s'" and "P s"
    and "\<And>s x s'. x \<in> set xs \<Longrightarrow> P s \<Longrightarrow> f s x = Inr s' \<Longrightarrow> P s'"
  shows "P s'"
  using assms
proof (induction xs arbitrary: s)
  case (Cons x xs)
  from Cons.prems(1) obtain s1 where s1: "f s x = Inr s1" "fold_result f s1 xs = Inr s'"
    by (auto simp: bind_result_Inr_iff)
  from Cons.prems(2,3) s1(1) have "P s1" by auto
  with s1(2) show ?case by (rule Cons.IH) (use Cons.prems(3) in auto)
qed simp

section \<open>JavaScript's Map\<close>

type_synonym ('k, 'v) js_map = "('k \<times> 'v) list"

definition js_get :: "('k, 'v) js_map \<Rightarrow> 'k \<Rightarrow> 'v option" where
  "js_get m k = map_of m k"

definition js_has :: "('k, 'v) js_map \<Rightarrow> 'k \<Rightarrow> bool" where
  "js_has m k \<longleftrightarrow> k \<in> fst ` set m"

fun js_set :: "('k, 'v) js_map \<Rightarrow> 'k \<Rightarrow> 'v \<Rightarrow> ('k, 'v) js_map" where
  "js_set [] k v = [(k, v)]"
| "js_set ((k', v') # m) k v = (if k' = k then (k, v) # m else (k', v') # js_set m k v)"

fun js_delete :: "('k, 'v) js_map \<Rightarrow> 'k \<Rightarrow> ('k, 'v) js_map" where
  "js_delete [] k = []"
| "js_delete ((k', v') # m) k = (if k' = k then m else (k', v') # js_delete m k)"

definition js_map_of :: "('k \<times> 'v) list \<Rightarrow> ('k, 'v) js_map" where
  "js_map_of kvs = foldl (\<lambda>m (k, v). js_set m k v) [] kvs"

definition js_map_ok :: "('k, 'v) js_map \<Rightarrow> bool" where
  "js_map_ok m \<longleftrightarrow> distinct (map fst m)"

lemma js_get_Nil [simp]: "js_get [] k = None"
  by (simp add: js_get_def)

lemma js_get_Cons [simp]: "js_get ((a, b) # m) k = (if a = k then Some b else js_get m k)"
  by (simp add: js_get_def)

lemma js_has_Nil [simp]: "\<not> js_has [] k"
  by (simp add: js_has_def)

lemma js_has_Cons [simp]: "js_has ((a, b) # m) k \<longleftrightarrow> a = k \<or> js_has m k"
  by (auto simp: js_has_def)

lemma js_has_iff_get: "js_has m k \<longleftrightarrow> js_get m k \<noteq> None"
  by (induction m) auto

lemma js_get_None_iff: "js_get m k = None \<longleftrightarrow> \<not> js_has m k"
  by (simp add: js_has_iff_get)

lemma js_get_set [simp, js_map_simps]:
  "js_get (js_set m k v) k' = (if k' = k then Some v else js_get m k')"
  by (induction m k v rule: js_set.induct) auto

lemma js_has_set [simp, js_map_simps]: "js_has (js_set m k v) k' \<longleftrightarrow> k' = k \<or> js_has m k'"
  by (simp add: js_has_iff_get)

lemma keys_js_set: "fst ` set (js_set m k v) = insert k (fst ` set m)"
  by (induction m k v rule: js_set.induct) auto

lemma js_map_ok_Nil [simp]: "js_map_ok []"
  by (simp add: js_map_ok_def)

lemma js_map_ok_set [simp]: "js_map_ok m \<Longrightarrow> js_map_ok (js_set m k v)"
proof (induction m k v rule: js_set.induct)
  case (2 k' v' m k v)
  then show ?case using keys_js_set [of m k v] by (auto simp: js_map_ok_def)
qed (simp add: js_map_ok_def)

lemma keys_js_delete_subset: "fst ` set (js_delete m k) \<subseteq> fst ` set m"
  by (induction m k rule: js_delete.induct) auto

lemma js_map_ok_delete [simp]: "js_map_ok m \<Longrightarrow> js_map_ok (js_delete m k)"
proof (induction m k rule: js_delete.induct)
  case (2 k' v' m k)
  then show ?case using keys_js_delete_subset [of m k] by (auto simp: js_map_ok_def)
qed simp

lemma js_get_delete [js_map_simps]:
  "js_map_ok m \<Longrightarrow> js_get (js_delete m k) k' = (if k' = k then None else js_get m k')"
proof (induction m k rule: js_delete.induct)
  case (2 a b m k)
  then have "js_map_ok m" and "\<not> js_has m a"
    by (auto simp: js_map_ok_def js_has_def)
  with "2.IH" show ?case by (auto simp: js_has_iff_get)
qed simp

lemma set_js_delete: "set (js_delete m k) \<subseteq> set m"
  by (induction m k rule: js_delete.induct) auto

lemma length_js_delete_le: "length (js_delete m k) \<le> length m"
  by (induction m k rule: js_delete.induct) auto

lemma js_set_new: "\<not> js_has m k \<Longrightarrow> js_set m k v = m @ [(k, v)]"
  by (induction m k v rule: js_set.induct) auto

lemma js_get_in_set: "js_get m k = Some v \<Longrightarrow> (k, v) \<in> set m"
  by (simp add: js_get_def map_of_SomeD)

lemma js_get_of_set: "js_map_ok m \<Longrightarrow> (k, v) \<in> set m \<Longrightarrow> js_get m k = Some v"
  by (simp add: js_get_def js_map_ok_def)

lemma js_map_of_snoc: "js_map_of (kvs @ [(k, v)]) = js_set (js_map_of kvs) k v"
  by (simp add: js_map_of_def)

lemma js_map_of_Nil [simp]: "js_map_of [] = []"
  by (simp add: js_map_of_def)

lemma js_map_ok_of [simp]: "js_map_ok (js_map_of kvs)"
  by (induction kvs rule: rev_induct) (auto simp: js_map_of_snoc split: prod.splits)

text \<open>Building a map from a list of pairs: the last pair of a key wins.\<close>

lemma js_get_map_of: "js_get (js_map_of kvs) k = map_of (rev kvs) k"
  by (induction kvs rule: rev_induct) (auto simp: js_map_of_snoc)

lemma js_has_map_of [simp]: "js_has (js_map_of kvs) k \<longleftrightarrow> k \<in> fst ` set kvs"
  by (induction kvs rule: rev_induct) (auto simp: js_map_of_snoc)

lemma set_js_map_of: "set (js_map_of kvs) \<subseteq> set kvs"
proof (induction kvs rule: rev_induct)
  case (snoc kv kvs)
  have "set (js_set m k v) \<subseteq> insert (k, v) (set m)" for m :: "('a, 'b) js_map" and k v
    by (induction m k v rule: js_set.induct) auto
  with snoc show ?case by (cases kv) (fastforce simp: js_map_of_snoc)
qed simp

section \<open>Opaque values and query arguments\<close>

text \<open>
  A finite double, as its shortest decimal \<open>m * 10 ^ e\<close> with no trailing zero in \<open>m\<close>; there is
  one zero. Additions of such numbers round, so a running total is kept as the sequence of
  additions that the code performs and not as an exact sum.
\<close>

function canonical_dec :: "int \<Rightarrow> int \<Rightarrow> int \<times> int" where
  "canonical_dec m e = (if m = 0 then (0, 0) else if m mod 10 = 0 then canonical_dec (m div 10) (e + 1) else (m, e))"
  by pat_completeness auto

termination
  by (relation "measure (\<lambda>(m, e). nat \<bar>m\<bar>)") auto

declare canonical_dec.simps [simp del]

definition canonical :: "int \<times> int \<Rightarrow> bool" where
  "canonical p \<longleftrightarrow> (case p of (m, e) \<Rightarrow> if m = 0 then e = 0 else m mod 10 \<noteq> 0)"

lemma canonical_canonical_dec: "canonical (canonical_dec m e)"
  by (induction m e rule: canonical_dec.induct) (simp add: canonical_dec.simps canonical_def)

lemma canonical_dec_id: "canonical (m, e) \<Longrightarrow> canonical_dec m e = (m, e)"
  by (auto simp: canonical_dec.simps canonical_def split: if_splits)

typedef js_double = "{p. canonical p}"
  by (rule exI [of _ "(0, 0)"]) (simp add: canonical_def)

setup_lifting type_definition_js_double

lift_definition Dec :: "int \<Rightarrow> int \<Rightarrow> js_double" is canonical_dec
  by (rule canonical_canonical_dec)

lift_definition mantissa :: "js_double \<Rightarrow> int" is fst .

lift_definition exponent :: "js_double \<Rightarrow> int" is snd .

instantiation js_double :: equal
begin

definition equal_js_double :: "js_double \<Rightarrow> js_double \<Rightarrow> bool" where
  "equal_js_double a b \<longleftrightarrow> mantissa a = mantissa b \<and> exponent a = exponent b"

instance
  by standard (simp add: equal_js_double_def, transfer, auto)

end

lemma Dec_parts [simp]: "Dec (mantissa d) (exponent d) = d"
  by transfer (metis canonical_dec_id mem_Collect_eq prod.collapse)

lemma canonical_parts: "canonical (mantissa d, exponent d)"
  by transfer simp

lemma mantissa_Dec: "canonical (m, e) \<Longrightarrow> mantissa (Dec m e) = m"
  by transfer (simp add: canonical_dec_id)

lemma exponent_Dec: "canonical (m, e) \<Longrightarrow> exponent (Dec m e) = e"
  by transfer (simp add: canonical_dec_id)

lemma mantissa_zero [simp]: "mantissa (Dec 0 e) = 0"
  by transfer (simp add: canonical_dec.simps)

lemma canonical_dec_sign: "0 \<le> fst (canonical_dec m e) \<longleftrightarrow> 0 \<le> m"
  by (induction m e rule: canonical_dec.induct) (subst canonical_dec.simps, auto)

lemma mantissa_sign [simp]: "0 \<le> mantissa (Dec m e) \<longleftrightarrow> 0 \<le> m" "mantissa (Dec m e) < 0 \<longleftrightarrow> m < 0"
  by (transfer, simp add: canonical_dec_sign flip: not_le)+

text \<open>Trailing zeros of the mantissa do not matter.\<close>

lemma Dec_shift: "Dec (m * 10 ^ k) e = Dec m (e + int k)"
proof (induction k arbitrary: e)
  case (Suc k)
  have "canonical_dec (m * 10 ^ Suc k) e = canonical_dec (m * 10 ^ k) (e + 1)"
    by (cases "m = 0") (subst canonical_dec.simps, simp add: canonical_dec.simps mult.left_commute [of 10])+
  then have "Dec (m * 10 ^ Suc k) e = Dec (m * 10 ^ k) (e + 1)" by transfer
  then show ?case using Suc.IH [of "e + 1"] by (simp add: algebra_simps)
qed simp

datatype js_sum = Total js_double | Plus js_sum js_double

datatype json =
    JNull
  | JBool bool
  | JNum js_double
  | JStr string
  | JArr "json list"
  | JObj "(string, json) fmap"

text \<open>
  A number the caller passes as a limit or a cursor: one that \<^verbatim>\<open>Number.isInteger\<close>
  accepts, or any other one (a fraction, NaN, an infinity).
\<close>

datatype js_num = JsInt int | JsNonInt

section \<open>Lists\<close>

text \<open>\<^verbatim>\<open>Array.prototype.sort\<close> with a comparison of keys is stable, as \<open>sort_key\<close> is.\<close>

lemma set_sort_key [simp]: "set (sort_key f xs) = set xs"
  by (metis mset_sort set_mset_mset)

definition last_opt :: "'a list \<Rightarrow> 'a option" where
  "last_opt xs = (if xs = [] then None else Some (last xs))"

lemma last_opt_simps [simp]:
  "last_opt [] = None"
  "last_opt (xs @ [x]) = Some x"
  "last_opt [x] = Some x"
  by (simp_all add: last_opt_def)

lemma last_opt_Some_iff: "last_opt xs = Some x \<longleftrightarrow> xs \<noteq> [] \<and> last xs = x"
  by (auto simp: last_opt_def)

lemma last_opt_append: "last_opt (xs @ ys) = (if ys = [] then last_opt xs else last_opt ys)"
  by (simp add: last_opt_def)

lemma last_opt_filter_None: "last_opt (filter p xs) = None \<longleftrightarrow> \<not> (\<exists>x \<in> set xs. p x)"
  by (auto simp: last_opt_def filter_empty_conv)

lemma last_opt_filter_Some: "last_opt (filter p xs) = Some x \<Longrightarrow> x \<in> set xs \<and> p x"
  using last_in_set [of "filter p xs"] by (auto simp: last_opt_Some_iff)

lemma map_filter_snoc:
  "List.map_filter f (xs @ [x]) = List.map_filter f xs @ (case f x of None \<Rightarrow> [] | Some y \<Rightarrow> [y])"
  by (simp add: List.map_filter_def split: option.splits)

text \<open>\<^verbatim>\<open>xs[i]\<close> on an array: \<^verbatim>\<open>undefined\<close> outside its range, a negative index included.\<close>

definition index_opt :: "'a list \<Rightarrow> int \<Rightarrow> 'a option" where
  "index_opt xs i = (if 0 \<le> i \<and> nat i < length xs then Some (xs ! nat i) else None)"

lemma index_opt_Some: "index_opt xs i = Some x \<Longrightarrow> x \<in> set xs"
  by (auto simp: index_opt_def split: if_splits)

text \<open>An update that leaves a field alone.\<close>

lemma nth_update_field: "f x = f (xs ! a) \<Longrightarrow> f (xs[a := x] ! b) = f (xs ! b)"
  by (cases "a < length xs"; cases "a = b") (simp_all add: list_update_beyond)

lemma sort_key_mset_eq:
  fixes f :: "'a \<Rightarrow> 'b::linorder"
  assumes "mset xs = mset ys" "distinct (map f xs)"
  shows "sort_key f xs = sort_key f ys"
proof (rule sort_key_inj_key_eq)
  show "inj_on f (set xs)" using assms(2) by (simp add: distinct_map)
qed (simp_all add: assms(1))

section \<open>Strings\<close>

abbreviation newline :: string where
  "newline \<equiv> [CHR 0x0A]"

fun dec_of_nat :: "nat \<Rightarrow> string" where
  "dec_of_nat n = (if n < 10 then [char_of (48 + n)] else dec_of_nat (n div 10) @ [char_of (48 + n mod 10)])"

declare dec_of_nat.simps [simp del]

text \<open>The text of an integer in a template string.\<close>

definition dec_of_int :: "int \<Rightarrow> string" where
  "dec_of_int i = (if i < 0 then ''-'' @ dec_of_nat (nat (- i)) else dec_of_nat (nat i))"

text \<open>\<^verbatim>\<open>trim\<close>: white space and line ends among the characters of the model.\<close>

definition is_js_space :: "char \<Rightarrow> bool" where
  "is_js_space c \<longleftrightarrow> of_char c \<in> {9, 10, 11, 12, 13, 32, 160 :: nat}"

definition js_trim :: "string \<Rightarrow> string" where
  "js_trim s = rev (dropWhile is_js_space (rev (dropWhile is_js_space s)))"

text \<open>An optional string that is truthy: present and not empty.\<close>

definition truthy :: "string option \<Rightarrow> bool" where
  "truthy s \<longleftrightarrow> s \<noteq> None \<and> s \<noteq> Some ''''"

end
