(* ===== verification/Session_Types.thy ===== *)
theory Session_Types
  imports Recode_Prelude
begin

text \<open>
  The data model of durable sessions: messages (\<^verbatim>\<open>packages/ai/src/types.ts\<close>,
  \<^verbatim>\<open>packages/agent/src/harness/messages.ts\<close>) and the entries, records, queries and errors of
  \<^verbatim>\<open>packages/agent/src/harness/session-v4/types.ts\<close>. A union of interfaces that share a base
  is a record of the base fields with a datatype for the variant part; an optional field
  is an option. Text that only ends up in an error message is not kept.
\<close>

section \<open>Messages\<close>

datatype stop_reason =
  PendingStop | Stop | LengthStop | ToolUseStop | ErrorStop | AbortedStop | DeferredStop

record cost =
  c_input :: js_double
  c_output :: js_double
  c_cacheRead :: js_double
  c_cacheWrite :: js_double
  c_total :: js_double

record usage =
  u_input :: int
  u_output :: int
  u_cacheRead :: int
  u_cacheWrite :: int
  u_cacheWrite1h :: "int option"
  u_reasoning :: "int option"
  u_totalTokens :: int
  u_cost :: cost

datatype content_block =
    TextContent string "string option"
  | ImageContent string string

record tool_call =
  tc_id :: string
  tc_name :: string
  tc_arguments :: json
  tc_thoughtSignature :: "string option"
  tc_namespace :: "string option"

datatype assistant_block =
    AssistantText string "string option"
  | ThinkingContent string "string option" "bool option"
  | ToolCallContent tool_call

record deferred_handle =
  dh_provider :: string
  dh_modelId :: string
  dh_api :: string
  dh_id :: string
  dh_expiresAt :: "int option"
  dh_pollAfterMs :: "int option"
  dh_data :: "json option"

datatype message_content = PlainContent string | BlockContent "content_block list"

record assistant_message =
  am_content :: "assistant_block list"
  am_api :: string
  am_provider :: string
  am_model :: string
  am_responseModel :: "string option"
  am_responseId :: "string option"
  am_diagnostics :: "json option"
  am_usage :: usage
  am_stopReason :: stop_reason
  am_deferred :: "deferred_handle option"
  am_errorMessage :: "string option"
  am_rawStopReason :: "string option"
  am_endTurn :: "bool option"
  am_timestamp :: int

record tool_result_message =
  tr_toolCallId :: string
  tr_toolName :: string
  tr_content :: "content_block list"
  tr_details :: "json option"
  tr_usage :: "usage option"
  tr_addedToolNames :: "string list option"
  tr_isError :: bool
  tr_timestamp :: int

record bash_execution_message =
  be_command :: string
  be_output :: string
  be_exitCode :: "int option"
  be_cancelled :: bool
  be_truncated :: bool
  be_fullOutputPath :: "string option"
  be_timestamp :: int
  be_excludeFromContext :: bool

record custom_message =
  cm_customType :: string
  cm_content :: message_content
  cm_display :: bool
  cm_details :: "json option"
  cm_timestamp :: int

datatype agent_message =
    UserMessage message_content int
  | AssistantMessage assistant_message
  | ToolResultMessage tool_result_message
  | BashExecutionMessage bash_execution_message
  | CustomMessage custom_message
  | BranchSummaryMessage string string int
  | CompactionSummaryMessage string int int

datatype role =
  UserRole | AssistantRole | ToolResultRole | BashExecutionRole | CustomRole |
  BranchSummaryRole | CompactionSummaryRole

fun role_of :: "agent_message \<Rightarrow> role" where
  "role_of (UserMessage _ _) = UserRole"
| "role_of (AssistantMessage _) = AssistantRole"
| "role_of (ToolResultMessage _) = ToolResultRole"
| "role_of (BashExecutionMessage _) = BashExecutionRole"
| "role_of (CustomMessage _) = CustomRole"
| "role_of (BranchSummaryMessage _ _ _) = BranchSummaryRole"
| "role_of (CompactionSummaryMessage _ _ _) = CompactionSummaryRole"

text \<open>\<^verbatim>\<open>message.content.filter((content) => content.type === "toolCall")\<close>\<close>

fun tool_calls_of :: "assistant_block list \<Rightarrow> tool_call list" where
  "tool_calls_of [] = []"
| "tool_calls_of (ToolCallContent c # bs) = c # tool_calls_of bs"
| "tool_calls_of (_ # bs) = tool_calls_of bs"

section \<open>Entries\<close>

datatype entry_type =
  MessageT | ModelChangeT | ThinkingLevelChangeT | ActiveToolsChangeT | CompactionT |
  BranchSummaryT | CustomT

datatype entry_body =
    MessageEntry agent_message bool \<comment> \<open>the message and whether \<^verbatim>\<open>terminate\<close> is set\<close>
  | ModelChangeEntry string string
  | ThinkingLevelEntry string
  | ActiveToolsEntry "string list"
  | CompactionEntry string "agent_message list" int "json option" "usage option"
  | BranchSummaryEntry string string "json option" "usage option"
  | CustomEntry string "json option"

record entry =
  e_id :: string
  e_seq :: int
  e_parentId :: "string option"
  e_timestamp :: int
  e_body :: entry_body

text \<open>\<^verbatim>\<open>ProvisionedEntry\<close>: an entry without \<^verbatim>\<open>parentId\<close>, \<^verbatim>\<open>seq\<close> and \<^verbatim>\<open>timestamp\<close>.\<close>

record provisioned_entry =
  p_id :: string
  p_body :: entry_body

fun body_type :: "entry_body \<Rightarrow> entry_type" where
  "body_type (MessageEntry _ _) = MessageT"
| "body_type (ModelChangeEntry _ _) = ModelChangeT"
| "body_type (ThinkingLevelEntry _) = ThinkingLevelChangeT"
| "body_type (ActiveToolsEntry _) = ActiveToolsChangeT"
| "body_type (CompactionEntry _ _ _ _ _) = CompactionT"
| "body_type (BranchSummaryEntry _ _ _ _) = BranchSummaryT"
| "body_type (CustomEntry _ _) = CustomT"

definition e_type :: "entry \<Rightarrow> entry_type" where
  "e_type e = body_type (e_body e)"

fun body_message :: "entry_body \<Rightarrow> agent_message option" where
  "body_message (MessageEntry m _) = Some m"
| "body_message _ = None"

definition e_message :: "entry \<Rightarrow> agent_message option" where
  "e_message e = body_message (e_body e)"

text \<open>\<^verbatim>\<open>entry.type === "message" && entry.message.role === "assistant"\<close>, with the message.\<close>

definition e_assistant :: "entry \<Rightarrow> assistant_message option" where
  "e_assistant e = (case e_body e of MessageEntry (AssistantMessage m) _ \<Rightarrow> Some m | _ \<Rightarrow> None)"

definition e_tool_result :: "entry \<Rightarrow> tool_result_message option" where
  "e_tool_result e = (case e_body e of MessageEntry (ToolResultMessage m) _ \<Rightarrow> Some m | _ \<Rightarrow> None)"

lemma e_assistant_type: "e_assistant e = Some m \<Longrightarrow> e_type e = MessageT"
  by (auto simp: e_assistant_def e_type_def split: entry_body.splits agent_message.splits)

lemma e_tool_result_type: "e_tool_result e = Some m \<Longrightarrow> e_type e = MessageT"
  by (auto simp: e_tool_result_def e_type_def split: entry_body.splits agent_message.splits)

lemma e_message_type: "e_type e = MessageT \<longleftrightarrow> (\<exists>m. e_message e = Some m)"
  by (cases "e_body e") (simp_all add: e_type_def e_message_def)

section \<open>Lane records\<close>

datatype operation_kind = RunKind | CompactionKind | NavigationKind

datatype intent =
    RunIntent "agent_message list" "provisioned_entry list" "string option" "json option"
      \<comment> \<open>\<^verbatim>\<open>originalPrompt\<close>, \<^verbatim>\<open>initialMessages\<close>, \<^verbatim>\<open>systemPromptOverride\<close>, \<^verbatim>\<open>resumeData\<close>\<close>
  | CompactionIntent "string option" string
      \<comment> \<open>\<^verbatim>\<open>customInstructions\<close>, \<^verbatim>\<open>resultEntryId\<close>\<close>
  | NavigationIntent "string option" bool "string option" "string option" "string option"
      \<comment> \<open>\<^verbatim>\<open>targetId\<close>, \<^verbatim>\<open>summarize\<close>, \<^verbatim>\<open>customInstructions\<close>, \<^verbatim>\<open>label\<close>, \<^verbatim>\<open>summaryEntryId\<close>\<close>

fun intent_kind :: "intent \<Rightarrow> operation_kind" where
  "intent_kind (RunIntent _ _ _ _) = RunKind"
| "intent_kind (CompactionIntent _ _) = CompactionKind"
| "intent_kind (NavigationIntent _ _ _ _ _) = NavigationKind"

datatype outcome = CompletedOutcome | AbortedOutcome | FailedOutcome | DeclinedOutcome

datatype step_kind = AssistantStep | CompactionStep | BranchSummaryStep

text \<open>
  The value found in \<^verbatim>\<open>compactionReason\<close>. A durable record may hold anything there, which
  the reducer checks, so a fourth constructor stands for every other value.
\<close>

datatype reason_value = ManualReason | ThresholdReason | OverflowReason | OtherReason json

datatype replay = ReplayNever | ReplaySafe

datatype queue = SteerQueue | FollowUpQueue | NextRunQueue

datatype generation_cause =
  AssistantCause | CompactionCause | BranchSummaryCause | DeferredFetchCause

datatype usage_cause =
    GenerationUsage generation_cause string string int stop_reason
      \<comment> \<open>\<^verbatim>\<open>cause\<close>, \<^verbatim>\<open>runId\<close>, \<^verbatim>\<open>entryId\<close>, \<^verbatim>\<open>attempt\<close>, \<^verbatim>\<open>stopReason\<close>\<close>
  | ToolUsage string string string \<comment> \<open>\<^verbatim>\<open>runId\<close>, \<^verbatim>\<open>entryId\<close>, \<^verbatim>\<open>toolCallId\<close>\<close>
  | HookUsage string string \<comment> \<open>\<^verbatim>\<open>runId\<close>, \<^verbatim>\<open>entryId\<close>\<close>
  | AdjustmentUsage "string option" "string option" "json option"
      \<comment> \<open>\<^verbatim>\<open>runId\<close>, \<^verbatim>\<open>entryId\<close>, \<^verbatim>\<open>details\<close>\<close>

datatype record_body =
    OperationStarted "string option" intent \<comment> \<open>\<^verbatim>\<open>sourceLeafId\<close>, \<^verbatim>\<open>intent\<close>\<close>
  | AbortRequested string
  | OperationFinished string outcome "(string \<times> string) option"
  | StepAttempt string step_kind int string "reason_value option"
      \<comment> \<open>\<^verbatim>\<open>runId\<close>, \<^verbatim>\<open>step\<close>, \<^verbatim>\<open>attempt\<close>, \<^verbatim>\<open>resultEntryId\<close>, \<^verbatim>\<open>compactionReason\<close>\<close>
  | ToolStarted string string int string string json string replay
      \<comment> \<open>\<^verbatim>\<open>runId\<close>, \<^verbatim>\<open>assistantEntryId\<close>, \<^verbatim>\<open>toolIndex\<close>, \<^verbatim>\<open>toolCallId\<close>, \<^verbatim>\<open>toolName\<close>,
          \<^verbatim>\<open>effectiveArgs\<close>, \<^verbatim>\<open>resultEntryId\<close>, \<^verbatim>\<open>replay\<close>\<close>
  | QueueEnqueued queue "string option" provisioned_entry
  | QueueCancelled "string option" string
  | WriteDeferred string provisioned_entry
  | UsageRecord usage usage_cause

record lane_record =
  r_id :: string
  r_seq :: int
  r_lane :: string
  r_timestamp :: int
  r_body :: record_body

text \<open>\<^verbatim>\<open>NewRecord\<close>: a record without \<^verbatim>\<open>seq\<close> and \<^verbatim>\<open>timestamp\<close>.\<close>

record new_record =
  n_id :: string
  n_lane :: string
  n_body :: record_body

datatype record_type =
  OperationStartedT | AbortRequestedT | OperationFinishedT | StepAttemptT | ToolStartedT |
  QueueEnqueuedT | QueueCancelledT | WriteDeferredT | UsageT

fun record_body_type :: "record_body \<Rightarrow> record_type" where
  "record_body_type (OperationStarted _ _) = OperationStartedT"
| "record_body_type (AbortRequested _) = AbortRequestedT"
| "record_body_type (OperationFinished _ _ _) = OperationFinishedT"
| "record_body_type (StepAttempt _ _ _ _ _) = StepAttemptT"
| "record_body_type (ToolStarted _ _ _ _ _ _ _ _) = ToolStartedT"
| "record_body_type (QueueEnqueued _ _ _) = QueueEnqueuedT"
| "record_body_type (QueueCancelled _ _) = QueueCancelledT"
| "record_body_type (WriteDeferred _ _) = WriteDeferredT"
| "record_body_type (UsageRecord _ _) = UsageT"

definition r_type :: "lane_record \<Rightarrow> record_type" where
  "r_type r = record_body_type (r_body r)"

fun usage_run_id :: "usage_cause \<Rightarrow> string option" where
  "usage_run_id (GenerationUsage _ run _ _ _) = Some run"
| "usage_run_id (ToolUsage run _ _) = Some run"
| "usage_run_id (HookUsage run _) = Some run"
| "usage_run_id (AdjustmentUsage run _ _) = run"

text \<open>\<^verbatim>\<open>record.runId\<close>, absent from operation starts and from \<^verbatim>\<open>nextRun\<close> queue items.\<close>

fun body_run_id :: "record_body \<Rightarrow> string option" where
  "body_run_id (OperationStarted _ _) = None"
| "body_run_id (AbortRequested run) = Some run"
| "body_run_id (OperationFinished run _ _) = Some run"
| "body_run_id (StepAttempt run _ _ _ _) = Some run"
| "body_run_id (ToolStarted run _ _ _ _ _ _ _) = Some run"
| "body_run_id (QueueEnqueued _ run _) = run"
| "body_run_id (QueueCancelled run _) = run"
| "body_run_id (WriteDeferred run _) = Some run"
| "body_run_id (UsageRecord _ c) = usage_run_id c"

definition r_runId :: "lane_record \<Rightarrow> string option" where
  "r_runId r = body_run_id (r_body r)"

fun body_intent :: "record_body \<Rightarrow> intent option" where
  "body_intent (OperationStarted _ i) = Some i"
| "body_intent _ = None"

definition r_intent :: "lane_record \<Rightarrow> intent option" where
  "r_intent r = body_intent (r_body r)"

text \<open>\<^verbatim>\<open>OperationStartedRecord\<close>, the type of the records that are operation starts.\<close>

record operation_started =
  o_id :: string
  o_seq :: int
  o_lane :: string
  o_timestamp :: int
  o_sourceLeafId :: "string option"
  o_intent :: intent

definition started_of :: "lane_record \<Rightarrow> operation_started option" where
  "started_of r = (case r_body r of
      OperationStarted leaf i \<Rightarrow> Some \<lparr>o_id = r_id r, o_seq = r_seq r, o_lane = r_lane r,
        o_timestamp = r_timestamp r, o_sourceLeafId = leaf, o_intent = i\<rparr>
    | _ \<Rightarrow> None)"

lemma r_type_started: "r_type r = OperationStartedT \<longleftrightarrow> (\<exists>i. r_intent r = Some i)"
  by (cases "r_body r") (simp_all add: r_type_def r_intent_def)

section \<open>Queries, log items and errors\<close>

datatype entry_order = NewestFirst | OldestFirst

record entry_query =
  q_type :: "entry_type option"
  q_customType :: "string option"
  q_order :: "entry_order option"
  q_limit :: "js_num option"
  q_cursor :: "js_num option" \<comment> \<open>\<^verbatim>\<open>cursor.afterSeq\<close>\<close>

record branch_bounds =
  b_start :: "string option"
  b_stopAtType :: "entry_type option"
  b_stopAtId :: "string option"

record record_query =
  rq_lane :: "string option"
  rq_type :: "record_type option"
  rq_runId :: "string option"
  rq_operationKind :: "operation_kind option"
  rq_afterSeq :: "js_num option"
  rq_order :: "entry_order option"
  rq_limit :: "js_num option"

record session_metadata =
  sm_id :: string
  sm_createdAt :: int
  sm_parentSessionId :: "string option"

record session_stats =
  messageCount :: int
  cachedTokens :: int
  uncachedTokens :: int
  totalTokens :: int
  costTotal :: js_sum

datatype log_item =
    LogEntry int entry
  | LogRecord int lane_record
  | LogLane int string "string option"
  | LogName int string
  | LogLabel int string "string option"

fun log_seq :: "log_item \<Rightarrow> int" where
  "log_seq (LogEntry s _) = s"
| "log_seq (LogRecord s _) = s"
| "log_seq (LogLane s _ _) = s"
| "log_seq (LogName s _) = s"
| "log_seq (LogLabel s _ _) = s"

record log_options =
  lo_afterSeq :: "js_num option"
  lo_limit :: "js_num option"

datatype fork_position = BeforeEntry | AtEntry

datatype fork_options =
    BranchFork "string option" "fork_position option" \<comment> \<open>\<^verbatim>\<open>entryId\<close>, \<^verbatim>\<open>position\<close>\<close>
  | TreeFork

datatype session_error =
  NotFound | AlreadyExists | InvalidEntry | InvalidPayload | InvalidLane | InvalidQuery |
  InvalidForkTarget | StorageError

end
