(* ===== verification/Session_State.thy ===== *)
theory Session_State
  imports Session_Types
begin

text \<open>
  \<^verbatim>\<open>SessionState\<close> of \<^verbatim>\<open>packages/agent/src/harness/session-v4/state.ts\<close>: the materialised view of
  a session's mutations, its queries, and the mutations that fork it. The record
  \<open>session_state\<close> has the class's private fields, every method is a function of the state,
  and a thrown \<^verbatim>\<open>SessionError\<close> is its code on the left of a sum.

  A method that throws before its first assignment leaves the object as it was, and
  \<^verbatim>\<open>applyMutation\<close> makes all its checks first, so an error result carries no state.
\<close>

section \<open>State and mutations\<close>

record session_state =
  sequence :: int
  usedIds :: "string set"
  entries :: "entry list"
  entriesById :: "(string, entry) js_map"
  records :: "lane_record list"
  openOperationsByLane :: "(string, (string, lane_record) js_map) js_map"
  lanes :: "(string, string option) js_map"
  log :: "log_item list"
  stats :: session_stats
  name :: "string option"
  labels :: "(string, string) js_map"

definition init_stats :: session_stats where
  "init_stats = \<lparr>messageCount = 0, cachedTokens = 0, uncachedTokens = 0, totalTokens = 0,
                 costTotal = Total (Dec 0 0)\<rparr>"

definition init_state :: session_state where
  "init_state = \<lparr>sequence = 0, usedIds = {}, entries = [], entriesById = [], records = [],
     openOperationsByLane = [], lanes = [(''main'', None)], log = [], stats = init_stats,
     name = None, labels = []\<rparr>"

datatype session_mutation =
    EntryMutation "string option" entry
  | RecordMutation lane_record
  | LaneMutation int string "string option"
  | NameMutation int string
  | LabelMutation int string "string option"

fun mutation_seq :: "session_mutation \<Rightarrow> int" where
  "mutation_seq (EntryMutation _ e) = e_seq e"
| "mutation_seq (RecordMutation r) = r_seq r"
| "mutation_seq (LaneMutation s _ _) = s"
| "mutation_seq (NameMutation s _) = s"
| "mutation_seq (LabelMutation s _ _) = s"

section \<open>Argument checks and guards\<close>

definition assertValidLimit :: "js_num option \<Rightarrow> session_error + unit" where
  "assertValidLimit limit = (case limit of
      None \<Rightarrow> Inr ()
    | Some JsNonInt \<Rightarrow> Inl InvalidQuery
    | Some (JsInt n) \<Rightarrow> guard_result (0 < n) InvalidQuery)"

definition assertValidCursor :: "js_num option \<Rightarrow> session_error + unit" where
  "assertValidCursor afterSeq = (case afterSeq of
      None \<Rightarrow> Inr ()
    | Some JsNonInt \<Rightarrow> Inl InvalidQuery
    | Some (JsInt n) \<Rightarrow> guard_result (0 \<le> n) InvalidQuery)"

definition nextSequence :: "session_state \<Rightarrow> int" where
  "nextSequence st = sequence st + 1"

definition getLanes :: "session_state \<Rightarrow> (string \<times> string option) list" where
  "getLanes st = lanes st"

definition requireLane :: "session_state \<Rightarrow> string \<Rightarrow> session_error + string option" where
  "requireLane st lane = (case js_get (lanes st) lane of None \<Rightarrow> Inl InvalidLane | Some leaf \<Rightarrow> Inr leaf)"

definition validateNewLane :: "session_state \<Rightarrow> string \<Rightarrow> session_error + unit" where
  "validateNewLane st lane = guard_result (\<not> js_has (lanes st) lane) AlreadyExists"

definition validateTarget :: "session_state \<Rightarrow> string option \<Rightarrow> session_error + unit" where
  "validateTarget st target = (case target of
      None \<Rightarrow> Inr ()
    | Some t \<Rightarrow> guard_result (js_has (entriesById st) t) NotFound)"

definition validateUnusedId :: "session_state \<Rightarrow> string \<Rightarrow> session_error + unit" where
  "validateUnusedId st i = guard_result (i \<notin> usedIds st) AlreadyExists"

section \<open>Applying a mutation\<close>

definition add_open_operation :: "session_state \<Rightarrow> lane_record \<Rightarrow> (string, (string, lane_record) js_map) js_map" where
  "add_open_operation st r =
     js_set (openOperationsByLane st) (r_lane r)
       (js_set (case js_get (openOperationsByLane st) (r_lane r) of None \<Rightarrow> [] | Some m \<Rightarrow> m) (r_id r) r)"

definition drop_open_operation :: "session_state \<Rightarrow> string \<Rightarrow> string \<Rightarrow> (string, (string, lane_record) js_map) js_map" where
  "drop_open_operation st lane run = (case js_get (openOperationsByLane st) lane of
      None \<Rightarrow> openOperationsByLane st
    | Some m \<Rightarrow> js_set (openOperationsByLane st) lane (js_delete m run))"

definition track_operations :: "session_state \<Rightarrow> lane_record \<Rightarrow> (string, (string, lane_record) js_map) js_map" where
  "track_operations st r = (case r_body r of
      OperationStarted _ _ \<Rightarrow> add_open_operation st r
    | OperationFinished run _ _ \<Rightarrow> drop_open_operation st (r_lane r) run
    | _ \<Rightarrow> openOperationsByLane st)"

definition add_usage :: "session_stats \<Rightarrow> usage \<Rightarrow> session_stats" where
  "add_usage s u = s\<lparr>cachedTokens := cachedTokens s + u_cacheRead u,
     uncachedTokens := uncachedTokens s + (u_input u + u_cacheWrite u),
     totalTokens := totalTokens s + u_totalTokens u,
     costTotal := Plus (costTotal s) (c_total (u_cost u))\<rparr>"

definition record_stats :: "session_stats \<Rightarrow> lane_record \<Rightarrow> session_stats" where
  "record_stats s r = (case r_body r of UsageRecord u _ \<Rightarrow> add_usage s u | _ \<Rightarrow> s)"

definition entry_stats :: "session_stats \<Rightarrow> entry \<Rightarrow> session_stats" where
  "entry_stats s e = (if e_type e = MessageT then s\<lparr>messageCount := messageCount s + 1\<rparr> else s)"

definition lane_accepts :: "session_state \<Rightarrow> string option \<Rightarrow> entry \<Rightarrow> bool" where
  "lane_accepts st lane e = (case lane of
      None \<Rightarrow> True
    | Some l \<Rightarrow> js_get (lanes st) l = Some (e_parentId e))"

definition parent_exists :: "session_state \<Rightarrow> string option \<Rightarrow> bool" where
  "parent_exists st parent = (case parent of None \<Rightarrow> True | Some p \<Rightarrow> js_has (entriesById st) p)"

fun applyMutation :: "session_state \<Rightarrow> session_mutation \<Rightarrow> session_error + session_state" where
  "applyMutation st (EntryMutation lane e) =
     (if e_seq e \<noteq> sequence st + 1 then Inl InvalidEntry
      else if e_id e \<in> usedIds st then Inl InvalidEntry
      else if \<not> lane_accepts st lane e then Inl InvalidEntry
      else if \<not> parent_exists st (e_parentId e) then Inl InvalidEntry
      else Inr (st\<lparr>sequence := e_seq e,
             usedIds := insert (e_id e) (usedIds st),
             entries := entries st @ [e],
             entriesById := js_set (entriesById st) (e_id e) e,
             lanes := (case lane of None \<Rightarrow> lanes st | Some l \<Rightarrow> js_set (lanes st) l (Some (e_id e))),
             log := log st @ [LogEntry (e_seq e) e],
             stats := entry_stats (stats st) e\<rparr>))"
| "applyMutation st (RecordMutation r) =
     (if r_seq r \<noteq> sequence st + 1 then Inl InvalidEntry
      else if \<not> js_has (lanes st) (r_lane r) then Inl InvalidEntry
      else if r_id r \<in> usedIds st then Inl InvalidEntry
      else Inr (st\<lparr>sequence := r_seq r,
             usedIds := insert (r_id r) (usedIds st),
             records := records st @ [r],
             openOperationsByLane := track_operations st r,
             log := log st @ [LogRecord (r_seq r) r],
             stats := record_stats (stats st) r\<rparr>))"
| "applyMutation st (LaneMutation s lane leaf) =
     (if s \<noteq> sequence st + 1 then Inl InvalidEntry
      else if \<not> parent_exists st leaf then Inl InvalidEntry
      else Inr (st\<lparr>sequence := s,
             lanes := js_set (lanes st) lane leaf,
             log := log st @ [LogLane s lane leaf]\<rparr>))"
| "applyMutation st (NameMutation s n) =
     (if s \<noteq> sequence st + 1 then Inl InvalidEntry
      else Inr (st\<lparr>sequence := s, name := Some n, log := log st @ [LogName s n]\<rparr>))"
| "applyMutation st (LabelMutation s target label) =
     (if s \<noteq> sequence st + 1 then Inl InvalidEntry
      else if \<not> js_has (entriesById st) target then Inl InvalidEntry
      else Inr (st\<lparr>sequence := s,
             labels := (case label of None \<Rightarrow> js_delete (labels st) target
                                    | Some l \<Rightarrow> js_set (labels st) target l),
             log := log st @ [LogLabel s target label]\<rparr>))"

definition applyMutations :: "session_state \<Rightarrow> session_mutation list \<Rightarrow> session_error + session_state" where
  "applyMutations = fold_result applyMutation"

section \<open>Queries\<close>

definition getEntry :: "session_state \<Rightarrow> string \<Rightarrow> entry option" where
  "getEntry st i = js_get (entriesById st) i"

definition in_order :: "'a list \<Rightarrow> entry_order option \<Rightarrow> 'a list" where
  "in_order items order = (if order = Some OldestFirst then items else rev items)"

text \<open>\<^verbatim>\<open>results.length === query.limit\<close>\<close>

definition reached :: "'a list \<Rightarrow> js_num option \<Rightarrow> bool" where
  "reached results limit \<longleftrightarrow> limit = Some (JsInt (int (length results)))"

definition matchesEntryQuery :: "entry \<Rightarrow> entry_query \<Rightarrow> bool" where
  "matchesEntryQuery e q \<longleftrightarrow>
     (case q_type q of None \<Rightarrow> True | Some t \<Rightarrow> e_type e = t) \<and>
     (case q_customType q of None \<Rightarrow> True
        | Some c \<Rightarrow> (case e_body e of CustomEntry c' _ \<Rightarrow> c' = c | _ \<Rightarrow> False)) \<and>
     (case q_cursor q of None \<Rightarrow> True
        | Some JsNonInt \<Rightarrow> False
        | Some (JsInt n) \<Rightarrow> (if q_order q = Some OldestFirst then e_seq e > n else e_seq e < n))"

definition matchesRecordQuery :: "lane_record \<Rightarrow> record_query \<Rightarrow> bool" where
  "matchesRecordQuery r q \<longleftrightarrow>
     (case rq_lane q of None \<Rightarrow> True | Some l \<Rightarrow> r_lane r = l) \<and>
     (case rq_type q of None \<Rightarrow> True | Some t \<Rightarrow> r_type r = t) \<and>
     (case rq_runId q of None \<Rightarrow> True
        | Some run \<Rightarrow> (if r_type r = OperationStartedT then r_id r = run else r_runId r = Some run)) \<and>
     (case rq_operationKind q of None \<Rightarrow> True
        | Some k \<Rightarrow> (case r_intent r of None \<Rightarrow> False | Some i \<Rightarrow> intent_kind i = k)) \<and>
     (case rq_afterSeq q of None \<Rightarrow> True | Some JsNonInt \<Rightarrow> False | Some (JsInt n) \<Rightarrow> r_seq r > n)"

text \<open>The collecting loop of \<^verbatim>\<open>findEntries\<close>, \<^verbatim>\<open>findRecords\<close> and \<^verbatim>\<open>getLog\<close>.\<close>

fun collect :: "('a \<Rightarrow> bool) \<Rightarrow> js_num option \<Rightarrow> 'a list \<Rightarrow> 'a list \<Rightarrow> 'a list" where
  "collect p limit results [] = results"
| "collect p limit results (x # xs) =
     (if \<not> p x then collect p limit results xs
      else let results' = results @ [x]
           in if reached results' limit then results' else collect p limit results' xs)"

definition findEntries :: "session_state \<Rightarrow> entry_query \<Rightarrow> session_error + entry list" where
  "findEntries st q =
     bind_result (assertValidLimit (q_limit q)) (\<lambda>_.
     bind_result (assertValidCursor (q_cursor q)) (\<lambda>_.
     Inr (collect (\<lambda>e. matchesEntryQuery e q) (q_limit q) [] (in_order (entries st) (q_order q)))))"

text \<open>
  The generator \<^verbatim>\<open>walkToRoot\<close>: the entries it yields, and the error it throws when its
  consumer asks for more after the last of them. The consumer stops asking when it
  breaks out of its loop, so an error after that point is never thrown.
\<close>

definition bound_hit :: "branch_bounds \<Rightarrow> entry \<Rightarrow> bool" where
  "bound_hit b e \<longleftrightarrow> b_stopAtId b = Some (e_id e) \<or> b_stopAtType b = Some (e_type e)"

function walk_from :: "(string, entry) js_map \<Rightarrow> branch_bounds \<Rightarrow> string set \<Rightarrow> session_error \<Rightarrow> string
    \<Rightarrow> entry list \<times> session_error option" where
  "walk_from byId b visited missing key =
     (case js_get byId key of
        None \<Rightarrow> ([], Some missing)
      | Some current \<Rightarrow>
          if e_id current \<in> visited then ([], Some InvalidEntry)
          else if bound_hit b current then ([current], None)
          else (case e_parentId current of
                  None \<Rightarrow> ([current], None)
                | Some parent \<Rightarrow>
                    let (rest, err) = walk_from byId b (insert (e_id current) visited) InvalidEntry parent
                    in (current # rest, err)))"
  by pat_completeness auto

termination
proof (relation "measure (\<lambda>(byId, b, visited, missing, key). card (e_id ` snd ` set byId - visited))", goal_cases)
  case (2 byId b visited missing key current parent)
  then have "(key, current) \<in> set byId" by (simp add: js_get_in_set)
  then have "e_id current \<in> e_id ` snd ` set byId" by force
  with 2 have "e_id ` snd ` set byId - insert (e_id current) visited \<subset> e_id ` snd ` set byId - visited"
    by blast
  then show ?case by (simp add: psubset_card_mono)
qed simp

declare walk_from.simps [simp del]

definition no_bounds :: branch_bounds where
  "no_bounds = \<lparr>b_start = None, b_stopAtType = None, b_stopAtId = None\<rparr>"

definition walkToRoot :: "session_state \<Rightarrow> branch_bounds \<Rightarrow> string option \<Rightarrow> entry list \<times> session_error option" where
  "walkToRoot st b start = (case start of
      None \<Rightarrow> ([], None)
    | Some i \<Rightarrow> walk_from (entriesById st) b {} NotFound i)"

text \<open>
  The two loops of \<^verbatim>\<open>findEntriesOnBranch\<close>. Newest first the generator is consumed lazily;
  oldest first it is drained before the loop, so its error always surfaces.
\<close>

fun branch_newest :: "entry_query \<Rightarrow> session_error option \<Rightarrow> entry list \<Rightarrow> entry list \<Rightarrow> session_error + entry list" where
  "branch_newest q err results [] = (case err of None \<Rightarrow> Inr results | Some e \<Rightarrow> Inl e)"
| "branch_newest q err results (x # xs) =
     (let results' = (if matchesEntryQuery x q then results @ [x] else results)
      in if reached results' (q_limit q) then Inr results' else branch_newest q err results' xs)"

fun branch_oldest :: "entry_query \<Rightarrow> branch_bounds \<Rightarrow> entry list \<Rightarrow> entry list \<Rightarrow> entry list" where
  "branch_oldest q b results [] = results"
| "branch_oldest q b results (x # xs) =
     (let results' = (if matchesEntryQuery x q then results @ [x] else results)
      in if bound_hit b x \<or> reached results' (q_limit q) then results' else branch_oldest q b results' xs)"

definition findEntriesOnBranch :: "session_state \<Rightarrow> entry_query \<Rightarrow> branch_bounds \<Rightarrow> string \<Rightarrow> session_error + entry list" where
  "findEntriesOnBranch st q b start =
     bind_result (assertValidLimit (q_limit q)) (\<lambda>_.
     bind_result (assertValidCursor (q_cursor q)) (\<lambda>_.
     if q_order q = Some OldestFirst
     then (case walkToRoot st no_bounds (Some start) of
             (path, Some err) \<Rightarrow> Inl err
           | (path, None) \<Rightarrow> Inr (branch_oldest q b [] (rev path)))
     else (case walkToRoot st b (Some start) of
             (path, err) \<Rightarrow> branch_newest q err [] path)))"

definition findRecords :: "session_state \<Rightarrow> record_query \<Rightarrow> session_error + lane_record list" where
  "findRecords st q =
     bind_result (assertValidLimit (rq_limit q)) (\<lambda>_.
     bind_result (assertValidCursor (rq_afterSeq q)) (\<lambda>_.
     Inr (collect (\<lambda>r. matchesRecordQuery r q) (rq_limit q) [] (in_order (records st) (rq_order q)))))"

definition open_operations :: "session_state \<Rightarrow> string \<Rightarrow> lane_record list" where
  "open_operations st lane = (case js_get (openOperationsByLane st) lane of
      None \<Rightarrow> []
    | Some m \<Rightarrow> rev (map snd m))"

definition findOpenOperations :: "session_state \<Rightarrow> string \<Rightarrow> js_num option \<Rightarrow> session_error + lane_record list" where
  "findOpenOperations st lane limit =
     bind_result (assertValidLimit limit) (\<lambda>_.
     Inr (case limit of
            Some (JsInt n) \<Rightarrow> take (nat n) (open_operations st lane)
          | _ \<Rightarrow> open_operations st lane))"

definition getLog :: "session_state \<Rightarrow> log_options \<Rightarrow> session_error + log_item list" where
  "getLog st opts =
     bind_result (assertValidLimit (lo_limit opts)) (\<lambda>_.
     bind_result (assertValidCursor (lo_afterSeq opts)) (\<lambda>_.
     Inr (collect (\<lambda>item. case lo_afterSeq opts of Some (JsInt n) \<Rightarrow> log_seq item > n | _ \<Rightarrow> True)
            (lo_limit opts) [] (log st))))"

definition getName :: "session_state \<Rightarrow> string option" where
  "getName st = name st"

definition getLabel :: "session_state \<Rightarrow> string \<Rightarrow> string option" where
  "getLabel st i = js_get (labels st) i"

definition getStats :: "session_state \<Rightarrow> session_stats" where
  "getStats st = stats st"

section \<open>Forks\<close>

definition all_oldest :: entry_query where
  "all_oldest = \<lparr>q_type = None, q_customType = None, q_order = Some OldestFirst, q_limit = None, q_cursor = None\<rparr>"

definition fork_point :: "session_state \<Rightarrow> bool \<Rightarrow> fork_position option \<Rightarrow> string option \<Rightarrow> session_error + string option" where
  "fork_point st given position selected = (case selected of
       None \<Rightarrow> Inr None
     | Some i \<Rightarrow>
         (case getEntry st i of
            None \<Rightarrow> Inl InvalidForkTarget
          | Some e \<Rightarrow>
              if e_type e \<noteq> MessageT then Inl InvalidForkTarget
              else Inr (case (case position of Some p \<Rightarrow> p | None \<Rightarrow> if given then BeforeEntry else AtEntry) of
                          AtEntry \<Rightarrow> Some (e_id e)
                        | BeforeEntry \<Rightarrow> e_parentId e)))"

definition fork_target :: "session_state \<Rightarrow> string option \<Rightarrow> fork_position option \<Rightarrow> session_error + string option" where
  "fork_target st entryId position =
     bind_result (case entryId of Some i \<Rightarrow> Inr (Some i) | None \<Rightarrow> requireLane st ''main'')
       (fork_point st (entryId \<noteq> None) position)"

definition fork_selection :: "session_state \<Rightarrow> fork_options
    \<Rightarrow> session_error + entry list \<times> (string \<times> string option) list" where
  "fork_selection st opts = (case opts of
      TreeFork \<Rightarrow> bind_result (findEntries st all_oldest) (\<lambda>es. Inr (es, getLanes st))
    | BranchFork entryId position \<Rightarrow>
        bind_result (fork_target st entryId position) (\<lambda>target.
        bind_result (case target of None \<Rightarrow> Inr []
                       | Some t \<Rightarrow> findEntriesOnBranch st all_oldest no_bounds t) (\<lambda>es.
        Inr (es, [(''main'', target)]))))"

fun fork_entries :: "int \<Rightarrow> entry list \<Rightarrow> session_mutation list" where
  "fork_entries s [] = []"
| "fork_entries s (e # es) = EntryMutation None (e\<lparr>e_seq := s\<rparr>) # fork_entries (s + 1) es"

fun fork_lanes :: "int \<Rightarrow> (string \<times> string option) list \<Rightarrow> session_mutation list" where
  "fork_lanes s [] = []"
| "fork_lanes s ((l, leaf) # ls) = LaneMutation s l leaf # fork_lanes (s + 1) ls"

fun fork_labels :: "(string, string) js_map \<Rightarrow> int \<Rightarrow> entry list \<Rightarrow> session_mutation list" where
  "fork_labels lbls s [] = []"
| "fork_labels lbls s (e # es) = (case js_get lbls (e_id e) of
      None \<Rightarrow> fork_labels lbls s es
    | Some l \<Rightarrow> LabelMutation s (e_id e) (Some l) # fork_labels lbls (s + 1) es)"

definition createForkMutations :: "session_state \<Rightarrow> fork_options \<Rightarrow> session_error + session_mutation list" where
  "createForkMutations st opts =
     bind_result (fork_selection st opts) (\<lambda>(es, ls).
       let s1 = 1; s2 = s1 + int (length es); s3 = s2 + int (length ls);
           s4 = (if name st = None then s3 else s3 + 1)
       in Inr (fork_entries s1 es @ fork_lanes s2 ls @
               (case name st of None \<Rightarrow> [] | Some n \<Rightarrow> [NameMutation s3 n]) @
               fork_labels (labels st) s4 es))"

end
