(* ===== verification/Session_State_Inv.thy ===== *)
theory Session_State_Inv
  imports Session_State
begin

text \<open>
  The invariant of \<^verbatim>\<open>SessionState\<close>, that every mutation keeps it, and what it gives the
  queries: walking to the root of a branch never fails and visits each ancestor once,
  queries return exactly the matching items, and forking a session always succeeds.
\<close>

section \<open>The invariant\<close>

definition entry_ids :: "session_state \<Rightarrow> string set" where
  "entry_ids st = e_id ` set (entries st)"

text \<open>The log holds one item per sequence number, and the entries and records are read off it.\<close>

fun log_entry :: "log_item \<Rightarrow> entry list" where
  "log_entry (LogEntry _ e) = [e]"
| "log_entry _ = []"

fun log_record :: "log_item \<Rightarrow> lane_record list" where
  "log_record (LogRecord _ r) = [r]"
| "log_record _ = []"

definition wf_log :: "session_state \<Rightarrow> bool" where
  "wf_log st \<longleftrightarrow> sequence st = int (length (log st)) \<and>
     map log_seq (log st) = map int [1..<Suc (length (log st))] \<and>
     entries st = concat (map log_entry (log st)) \<and>
     records st = concat (map log_record (log st)) \<and>
     (\<forall>e \<in> set (entries st). e_seq e \<le> sequence st) \<and>
     sorted_wrt (<) (map e_seq (entries st))"

text \<open>Ids are unique over entries and records, and the index by id is the entry list.\<close>

definition wf_ids :: "session_state \<Rightarrow> bool" where
  "wf_ids st \<longleftrightarrow> entriesById st = map (\<lambda>e. (e_id e, e)) (entries st) \<and>
     distinct (map e_id (entries st) @ map r_id (records st)) \<and>
     usedIds st = entry_ids st \<union> r_id ` set (records st)"

text \<open>References point at entries: parents to earlier ones, lanes and labels to any.\<close>

fun parents_before :: "string set \<Rightarrow> entry list \<Rightarrow> bool" where
  "parents_before known [] = True"
| "parents_before known (e # es) \<longleftrightarrow>
     (case e_parentId e of None \<Rightarrow> True | Some p \<Rightarrow> p \<in> known) \<and>
     parents_before (insert (e_id e) known) es"

definition wf_refs :: "session_state \<Rightarrow> bool" where
  "wf_refs st \<longleftrightarrow> parents_before {} (entries st) \<and>
     js_map_ok (lanes st) \<and> js_has (lanes st) ''main'' \<and>
     (\<forall>l leaf. js_get (lanes st) l = Some (Some leaf) \<longrightarrow> leaf \<in> entry_ids st) \<and>
     js_map_ok (labels st) \<and> (\<forall>i. js_has (labels st) i \<longrightarrow> i \<in> entry_ids st)"

text \<open>
  The open operations of a lane, from the records alone: starts in that lane with no
  later finish of the same id in that lane.
\<close>

definition open_step :: "string \<Rightarrow> lane_record list \<Rightarrow> lane_record \<Rightarrow> lane_record list" where
  "open_step lane ops r = (case r_body r of
      OperationStarted _ _ \<Rightarrow> if r_lane r = lane then ops @ [r] else ops
    | OperationFinished run _ _ \<Rightarrow> if r_lane r = lane then filter (\<lambda>s. r_id s \<noteq> run) ops else ops
    | _ \<Rightarrow> ops)"

definition open_spec :: "lane_record list \<Rightarrow> string \<Rightarrow> lane_record list" where
  "open_spec rs lane = foldl (open_step lane) [] rs"

definition lane_ops :: "session_state \<Rightarrow> string \<Rightarrow> (string, lane_record) js_map" where
  "lane_ops st lane = (case js_get (openOperationsByLane st) lane of None \<Rightarrow> [] | Some m \<Rightarrow> m)"

definition wf_ops :: "session_state \<Rightarrow> bool" where
  "wf_ops st \<longleftrightarrow> (\<forall>lane. lane_ops st lane = map (\<lambda>r. (r_id r, r)) (open_spec (records st) lane))"

text \<open>The statistics are the totals over the entries and the usage records, in log order.\<close>

fun usage_of :: "record_body \<Rightarrow> usage list" where
  "usage_of (UsageRecord u _) = [u]"
| "usage_of _ = []"

definition usages :: "session_state \<Rightarrow> usage list" where
  "usages st = concat (map (\<lambda>r. usage_of (r_body r)) (records st))"

definition stats_spec :: "entry list \<Rightarrow> usage list \<Rightarrow> session_stats" where
  "stats_spec es us = \<lparr>
     messageCount = int (length (filter (\<lambda>e. e_type e = MessageT) es)),
     cachedTokens = sum_list (map u_cacheRead us),
     uncachedTokens = sum_list (map (\<lambda>u. u_input u + u_cacheWrite u) us),
     totalTokens = sum_list (map u_totalTokens us),
     costTotal = foldl Plus (Total (Dec 0 0)) (map (\<lambda>u. c_total (u_cost u)) us)\<rparr>"

definition wf_stats :: "session_state \<Rightarrow> bool" where
  "wf_stats st \<longleftrightarrow> stats st = stats_spec (entries st) (usages st)"

definition session_wf :: "session_state \<Rightarrow> bool" where
  "session_wf st \<longleftrightarrow> wf_log st \<and> wf_ids st \<and> wf_refs st \<and> wf_ops st \<and> wf_stats st"

inductive reachable_state :: "session_state \<Rightarrow> bool" where
  reachable_init: "reachable_state init_state"
| reachable_apply: "reachable_state st \<Longrightarrow> applyMutation st m = Inr st' \<Longrightarrow> reachable_state st'"

section \<open>Facts shared by the preservation proofs\<close>

lemma js_has_keyed_entries [simp]: "js_has (map (\<lambda>e. (e_id e, e)) es) i \<longleftrightarrow> i \<in> e_id ` set es"
  by (force simp: js_has_def)

lemma entry_index_has: "wf_ids st \<Longrightarrow> js_has (entriesById st) i \<longleftrightarrow> i \<in> entry_ids st"
  by (simp add: wf_ids_def entry_ids_def)

lemma parents_before_snoc:
  "parents_before known (es @ [e]) \<longleftrightarrow> parents_before known es \<and>
     (case e_parentId e of None \<Rightarrow> True | Some p \<Rightarrow> p \<in> known \<union> e_id ` set es)"
  by (induction es arbitrary: known) (auto split: option.splits)

lemma open_spec_snoc: "open_spec (rs @ [r]) lane = open_step lane (open_spec rs lane) r"
  by (simp add: open_spec_def)

lemma open_step_subset: "set (open_step lane ops r) \<subseteq> insert r (set ops)"
  by (auto simp: open_step_def split: record_body.splits)

lemma open_spec_subset: "set (open_spec rs lane) \<subseteq> set rs"
proof (induction rs rule: rev_induct)
  case (snoc r rs)
  then show ?case using open_step_subset [of lane "open_spec rs lane" r]
    by (auto simp: open_spec_snoc)
qed (simp add: open_spec_def)

lemma open_spec_started:
  "r \<in> set (open_spec rs lane) \<Longrightarrow> r_type r = OperationStartedT \<and> r_lane r = lane"
proof (induction rs rule: rev_induct)
  case (snoc r' rs)
  then show ?case
    by (auto simp: open_spec_snoc open_step_def r_type_def split: record_body.splits if_splits)
qed (simp add: open_spec_def)

lemma open_spec_distinct: "distinct (map r_id rs) \<Longrightarrow> distinct (map r_id (open_spec rs lane))"
proof (induction rs rule: rev_induct)
  case (snoc r rs)
  moreover have "r_id ` set (open_spec rs lane) \<subseteq> r_id ` set rs"
    using open_spec_subset by blast
  ultimately show ?case
    by (auto simp: open_spec_snoc open_step_def distinct_map_filter split: record_body.splits)
qed (simp add: open_spec_def)

lemma js_delete_keyed:
  "distinct (map r_id rs) \<Longrightarrow>
   js_delete (map (\<lambda>r. (r_id r, r)) rs) k = map (\<lambda>r. (r_id r, r)) (filter (\<lambda>r. r_id r \<noteq> k) rs)"
proof (induction rs)
  case (Cons r rs)
  moreover have "r_id r \<notin> r_id ` set rs \<Longrightarrow> filter (\<lambda>s. r_id s \<noteq> r_id r) rs = rs"
    by (induction rs) auto
  ultimately show ?case by auto
qed simp

lemma js_set_keyed:
  "k \<notin> r_id ` set rs \<Longrightarrow> js_set (map (\<lambda>r. (r_id r, r)) rs) k v = map (\<lambda>r. (r_id r, r)) rs @ [(k, v)]"
  by (rule js_set_new) (force simp: js_has_def)

section \<open>Every mutation keeps the invariant\<close>

lemma lane_ops_track:
  "lane_ops (st\<lparr>records := rs, openOperationsByLane := track_operations st r\<rparr>) lane =
     (case r_body r of
        OperationStarted _ _ \<Rightarrow> if r_lane r = lane then js_set (lane_ops st lane) (r_id r) r else lane_ops st lane
      | OperationFinished run _ _ \<Rightarrow> if r_lane r = lane then js_delete (lane_ops st lane) run else lane_ops st lane
      | _ \<Rightarrow> lane_ops st lane)"
  by (simp add: lane_ops_def track_operations_def add_open_operation_def drop_open_operation_def
      split: record_body.splits option.splits)

lemma wf_ops_track:
  assumes ops: "\<And>lane. lane_ops st lane = map (\<lambda>r. (r_id r, r)) (open_spec (records st) lane)"
    and "distinct (map r_id (records st))" "r_id r \<notin> r_id ` set (records st)"
  shows "wf_ops (st\<lparr>records := records st @ [r], openOperationsByLane := track_operations st r\<rparr>)"
proof -
  have fresh: "r_id r \<notin> r_id ` set (open_spec (records st) lane)" for lane
    using assms(3) open_spec_subset by blast
  have dist: "distinct (map r_id (open_spec (records st) lane))" for lane
    using assms(2) by (rule open_spec_distinct)
  show ?thesis
    by (simp add: wf_ops_def lane_ops_track ops open_spec_snoc open_step_def js_set_keyed [OF fresh]
        js_delete_keyed [OF dist] split: record_body.splits)
qed

text \<open>The parts of the invariant that a mutation can disturb, one lemma for each mutation.\<close>

lemma log_snoc_seqs:
  assumes "map log_seq lg = map int [1..<Suc (length lg)]" "log_seq item = int (length lg) + 1"
  shows "map log_seq (lg @ [item]) = map int [1..<Suc (length (lg @ [item]))]"
  using assms by simp

lemma wf_apply_entry:
  assumes wf: "session_wf st" and ok: "applyMutation st (EntryMutation lane e) = Inr st'"
  shows "session_wf st'"
proof -
  let ?st' = "st\<lparr>sequence := e_seq e, usedIds := insert (e_id e) (usedIds st),
    entries := entries st @ [e], entriesById := js_set (entriesById st) (e_id e) e,
    lanes := (case lane of None \<Rightarrow> lanes st | Some l \<Rightarrow> js_set (lanes st) l (Some (e_id e))),
    log := log st @ [LogEntry (e_seq e) e], stats := entry_stats (stats st) e\<rparr>"
  from ok have st': "st' = ?st'" and seq: "e_seq e = sequence st + 1"
    and fresh: "e_id e \<notin> usedIds st" and parent: "parent_exists st (e_parentId e)"
    by (auto split: if_splits)
  from wf have L: "wf_log st" and I: "wf_ids st" and R: "wf_refs st" and O: "wf_ops st" and S: "wf_stats st"
    by (auto simp: session_wf_def)
  have new: "\<not> js_has (entriesById st) (e_id e)"
    using I fresh by (simp add: entry_index_has) (simp add: wf_ids_def)
  have "wf_log ?st'"
    using L seq by (fastforce simp: wf_log_def sorted_wrt_append)
  moreover have "wf_ids ?st'"
    using I fresh new by (auto simp: wf_ids_def js_set_new entry_ids_def)
  moreover have "wf_refs ?st'"
  proof -
    have "case e_parentId e of None \<Rightarrow> True | Some p \<Rightarrow> p \<in> e_id ` set (entries st)"
      using parent I by (auto simp: parent_exists_def wf_ids_def split: option.splits)
    then show ?thesis
      using R by (auto simp: wf_refs_def parents_before_snoc entry_ids_def split: option.splits if_splits)
  qed
  moreover have "wf_ops ?st'" using O by (simp add: wf_ops_def lane_ops_def)
  moreover have "wf_stats ?st'"
    using S by (simp add: wf_stats_def stats_spec_def entry_stats_def usages_def)
  ultimately show ?thesis by (simp add: session_wf_def st')
qed

lemma wf_apply_record:
  assumes wf: "session_wf st" and ok: "applyMutation st (RecordMutation r) = Inr st'"
  shows "session_wf st'"
proof -
  let ?st' = "st\<lparr>sequence := r_seq r, usedIds := insert (r_id r) (usedIds st),
    records := records st @ [r], openOperationsByLane := track_operations st r,
    log := log st @ [LogRecord (r_seq r) r], stats := record_stats (stats st) r\<rparr>"
  from ok have st': "st' = ?st'" and seq: "r_seq r = sequence st + 1" and fresh: "r_id r \<notin> usedIds st"
    by (auto split: if_splits)
  from wf have L: "wf_log st" and I: "wf_ids st" and R: "wf_refs st" and O: "wf_ops st" and S: "wf_stats st"
    by (auto simp: session_wf_def)
  have "wf_log ?st'"
    using L seq by (fastforce simp: wf_log_def)
  moreover have "wf_ids ?st'"
    using I fresh by (auto simp: wf_ids_def entry_ids_def)
  moreover have "wf_refs ?st'" using R by (simp add: wf_refs_def entry_ids_def)
  moreover have "wf_ops ?st'"
  proof -
    have "wf_ops (st\<lparr>records := records st @ [r], openOperationsByLane := track_operations st r\<rparr>)"
      using O I fresh by (intro wf_ops_track) (auto simp: wf_ops_def wf_ids_def)
    then show ?thesis by (simp add: wf_ops_def lane_ops_def)
  qed
  moreover have "wf_stats ?st'"
    using S by (cases "r_body r")
      (simp_all add: wf_stats_def stats_spec_def record_stats_def add_usage_def usages_def)
  ultimately show ?thesis by (simp add: session_wf_def st')
qed

text \<open>A mutation that touches neither entries nor records: only the references can change.\<close>

lemma wf_apply_frame:
  assumes wf: "session_wf st" and refs: "wf_refs st'" and item: "log_seq item = sequence st + 1"
    and "log_entry item = []" "log_record item = []"
    and "log st' = log st @ [item]" "sequence st' = sequence st + 1" "entries st' = entries st"
    and "entriesById st' = entriesById st" "records st' = records st" "usedIds st' = usedIds st"
    and "openOperationsByLane st' = openOperationsByLane st" "stats st' = stats st"
  shows "session_wf st'"
proof -
  from wf have L: "wf_log st" and I: "wf_ids st" and O: "wf_ops st" and S: "wf_stats st"
    by (auto simp: session_wf_def)
  have "wf_log st'" using L assms by (fastforce simp: wf_log_def)
  moreover have "wf_ids st'" using I assms by (simp add: wf_ids_def entry_ids_def)
  moreover have "wf_ops st'" using O assms by (simp add: wf_ops_def lane_ops_def)
  moreover have "wf_stats st'" using S assms by (simp add: wf_stats_def usages_def)
  ultimately show ?thesis using refs by (simp add: session_wf_def)
qed

lemma wf_apply_lane:
  assumes wf: "session_wf st" and ok: "applyMutation st (LaneMutation s l leaf) = Inr st'"
  shows "session_wf st'"
proof (rule wf_apply_frame [OF wf, where item = "LogLane s l leaf"])
  have "wf_ids st" "wf_refs st" using wf by (auto simp: session_wf_def)
  moreover from this(1) ok have "\<forall>x. leaf = Some x \<longrightarrow> x \<in> entry_ids st"
    by (auto simp: parent_exists_def entry_index_has split: if_splits option.splits)
  ultimately show "wf_refs st'"
    using ok by (auto simp: wf_refs_def entry_ids_def split: if_splits)
qed (use ok in \<open>auto split: if_splits\<close>)

lemma wf_apply_name:
  assumes wf: "session_wf st" and ok: "applyMutation st (NameMutation s n) = Inr st'"
  shows "session_wf st'"
proof (rule wf_apply_frame [OF wf, where item = "LogName s n"])
  show "wf_refs st'" using wf ok by (auto simp: session_wf_def wf_refs_def entry_ids_def split: if_splits)
qed (use ok in \<open>auto split: if_splits\<close>)

lemma wf_apply_label:
  assumes wf: "session_wf st" and ok: "applyMutation st (LabelMutation s t l) = Inr st'"
  shows "session_wf st'"
proof (rule wf_apply_frame [OF wf, where item = "LogLabel s t l"])
  have R: "wf_refs st" and "wf_ids st" using wf by (auto simp: session_wf_def)
  with ok have t: "t \<in> entry_ids st" by (auto simp: entry_index_has split: if_splits)
  have m: "js_map_ok (labels st)" using R by (simp add: wf_refs_def)
  show "wf_refs st'"
    using R t ok by (cases l) (auto simp: wf_refs_def entry_ids_def js_has_iff_get js_get_delete [OF m] split: if_splits)
qed (use ok in \<open>auto split: if_splits\<close>)

lemma applyMutation_wf: "session_wf st \<Longrightarrow> applyMutation st m = Inr st' \<Longrightarrow> session_wf st'"
  by (cases m) (auto simp del: applyMutation.simps
      intro: wf_apply_entry wf_apply_record wf_apply_lane wf_apply_name wf_apply_label)

lemma init_state_wf: "session_wf init_state"
  by (simp add: session_wf_def wf_log_def wf_ids_def wf_refs_def wf_ops_def wf_stats_def init_state_def
      entry_ids_def open_spec_def lane_ops_def usages_def stats_spec_def init_stats_def js_map_ok_def
      js_has_def js_get_def)

lemma applyMutations_wf:
  "session_wf st \<Longrightarrow> applyMutations st ms = Inr st' \<Longrightarrow> session_wf st'"
  unfolding applyMutations_def by (erule fold_result_invariant) (auto intro: applyMutation_wf)

section \<open>What the queries return\<close>

definition valid_limit :: "js_num option \<Rightarrow> bool" where
  "valid_limit limit \<longleftrightarrow> (case limit of None \<Rightarrow> True | Some JsNonInt \<Rightarrow> False | Some (JsInt n) \<Rightarrow> 0 < n)"

definition valid_cursor :: "js_num option \<Rightarrow> bool" where
  "valid_cursor c \<longleftrightarrow> (case c of None \<Rightarrow> True | Some JsNonInt \<Rightarrow> False | Some (JsInt n) \<Rightarrow> 0 \<le> n)"

definition limited :: "js_num option \<Rightarrow> 'a list \<Rightarrow> 'a list" where
  "limited limit xs = (case limit of Some (JsInt n) \<Rightarrow> take (nat n) xs | _ \<Rightarrow> xs)"

lemma assertValidLimit_eq: "assertValidLimit l = guard_result (valid_limit l) InvalidQuery"
  by (simp add: assertValidLimit_def valid_limit_def guard_result_def split: option.splits js_num.splits)

lemma assertValidCursor_eq: "assertValidCursor c = guard_result (valid_cursor c) InvalidQuery"
  by (simp add: assertValidCursor_def valid_cursor_def guard_result_def split: option.splits js_num.splits)

definition room :: "js_num option \<Rightarrow> 'a list \<Rightarrow> bool" where
  "room limit results \<longleftrightarrow> (case limit of Some (JsInt n) \<Rightarrow> int (length results) < n | _ \<Rightarrow> True)"

lemma room_Nil [simp]: "valid_limit limit \<Longrightarrow> room limit []"
  by (simp add: valid_limit_def room_def split: option.splits js_num.splits)

lemma room_limited: "room limit results \<Longrightarrow> limited limit results = results"
  by (auto simp: room_def limited_def split: option.splits js_num.splits)

lemma room_step:
  "room limit results \<Longrightarrow> \<not> reached (results @ [x]) limit \<Longrightarrow> room limit (results @ [x])"
  by (auto simp: room_def reached_def split: option.splits js_num.splits)

lemma reached_limited:
  "room limit results \<Longrightarrow> reached (results @ [x]) limit \<Longrightarrow> limited limit (results @ x # ys) = results @ [x]"
  by (auto simp: room_def reached_def limited_def nat_add_distrib split: option.splits js_num.splits)

lemma room_not_reached: "room limit results \<Longrightarrow> \<not> reached results limit"
  by (auto simp: room_def reached_def)

lemma collect_eq: "room limit results \<Longrightarrow> collect p limit results xs = limited limit (results @ filter p xs)"
proof (induction xs arbitrary: results)
  case (Cons x xs)
  show ?case
  proof (cases "p x \<and> reached (results @ [x]) limit")
    case True
    with Cons.prems show ?thesis by (simp add: Let_def reached_limited)
  next
    case False
    with Cons.prems Cons.IH [of "results @ [x]"] Cons.IH [of results] show ?thesis
      by (auto simp: Let_def room_step)
  qed
qed (simp add: room_limited)

lemma branch_newest_eq:
  "room (q_limit q) results \<Longrightarrow>
   branch_newest q None results xs = Inr (limited (q_limit q) (results @ filter (\<lambda>e. matchesEntryQuery e q) xs))"
proof (induction xs arbitrary: results)
  case (Cons x xs)
  show ?case
  proof (cases "matchesEntryQuery x q \<and> reached (results @ [x]) (q_limit q)")
    case True
    with Cons.prems show ?thesis by (simp add: Let_def reached_limited)
  next
    case False
    with Cons.prems Cons.IH [of "results @ [x]"] Cons.IH [of results] show ?thesis
      by (auto simp: Let_def room_step room_not_reached)
  qed
qed (simp add: room_limited)

text \<open>The elements of a list up to and including the first one that satisfies a test.\<close>

fun take_upto :: "('a \<Rightarrow> bool) \<Rightarrow> 'a list \<Rightarrow> 'a list" where
  "take_upto p [] = []"
| "take_upto p (x # xs) = (if p x then [x] else x # take_upto p xs)"

lemma take_upto_never: "(\<And>x. x \<in> set xs \<Longrightarrow> \<not> p x) \<Longrightarrow> take_upto p xs = xs"
  by (induction xs) auto

lemma take_upto_prefix: "\<exists>ys. xs = take_upto p xs @ ys"
  by (induction xs) auto

lemma branch_oldest_eq:
  "room (q_limit q) results \<Longrightarrow>
   branch_oldest q b results xs =
     limited (q_limit q) (results @ filter (\<lambda>e. matchesEntryQuery e q) (take_upto (bound_hit b) xs))"
proof (induction xs arbitrary: results)
  case (Cons x xs)
  show ?case
  proof (cases "matchesEntryQuery x q \<and> reached (results @ [x]) (q_limit q)")
    case True
    with Cons.prems show ?thesis by (simp add: Let_def reached_limited)
  next
    case False
    with Cons.prems Cons.IH [of "results @ [x]"] Cons.IH [of results] show ?thesis
      by (auto simp: Let_def room_step room_not_reached room_limited)
  qed
qed (simp add: room_limited)

section \<open>Branches\<close>

text \<open>The entries from one entry up to its root, each followed by its parent.\<close>

fun branch_path :: "entry list \<Rightarrow> string \<Rightarrow> entry list \<Rightarrow> bool" where
  "branch_path es i [] = False"
| "branch_path es i (e # path) \<longleftrightarrow> e \<in> set es \<and> e_id e = i \<and>
     (case e_parentId e of None \<Rightarrow> path = [] | Some parent \<Rightarrow> branch_path es parent path)"

lemma parents_before_parent:
  assumes "parents_before known es" "sorted_wrt (<) (map e_seq es)"
    and "e \<in> set es" "e_parentId e = Some p" "p \<notin> known"
  shows "\<exists>q \<in> set es. e_id q = p \<and> e_seq q < e_seq e"
  using assms
proof (induction es arbitrary: known)
  case (Cons x xs)
  show ?case
  proof (cases "e = x \<or> p = e_id x")
    case True
    with Cons.prems show ?thesis by auto
  next
    case False
    with Cons.prems have "\<exists>q \<in> set xs. e_id q = p \<and> e_seq q < e_seq e"
      by (intro Cons.IH [of "insert (e_id x) known"]) auto
    then show ?thesis by auto
  qed
qed simp

lemma branch_path_unique:
  assumes "distinct (map e_id es)"
  shows "branch_path es i p \<Longrightarrow> branch_path es i p' \<Longrightarrow> p = p'"
proof (induction p arbitrary: i p')
  case (Cons e p)
  from Cons.prems(2) obtain e' q where p': "p' = e' # q" by (cases p') auto
  with Cons.prems have "e \<in> set es" "e' \<in> set es" "e_id e = e_id e'" by auto
  with assms have "e' = e" by (metis distinct_map inj_onD)
  with Cons p' show ?case by (auto split: option.splits)
qed simp

text \<open>The facts about a state's entries that a walk needs, collected from the invariant.\<close>

definition tree_ok :: "entry list \<Rightarrow> bool" where
  "tree_ok es \<longleftrightarrow> distinct (map e_id es) \<and> parents_before {} es \<and> sorted_wrt (<) (map e_seq es)"

lemma session_wf_tree: "session_wf st \<Longrightarrow> tree_ok (entries st) \<and> entriesById st = map (\<lambda>e. (e_id e, e)) (entries st)"
  by (auto simp only: session_wf_def wf_ids_def wf_refs_def wf_log_def tree_ok_def distinct_append)

lemma js_get_keyed_entries:
  "distinct (map e_id es) \<Longrightarrow> e \<in> set es \<Longrightarrow> js_get (map (\<lambda>e. (e_id e, e)) es) (e_id e) = Some e"
  by (rule js_get_of_set) (auto simp: js_map_ok_def comp_def)

lemma walk_from_ok:
  assumes tree: "tree_ok es" and e: "e \<in> set es"
    and fresh: "\<And>x. x \<in> set es \<Longrightarrow> e_seq x \<le> e_seq e \<Longrightarrow> e_id x \<notin> visited"
  shows "\<exists>path. branch_path es (e_id e) path \<and> sorted_wrt (>) (map e_seq path) \<and>
           (\<forall>x \<in> set path. e_seq x \<le> e_seq e) \<and>
           walk_from (map (\<lambda>e. (e_id e, e)) es) b visited missing (e_id e) = (take_upto (bound_hit b) path, None)"
  using e fresh
proof (induction "card {x \<in> set es. e_seq x < e_seq e}" arbitrary: e visited missing rule: less_induct)
  case less
  let ?walk = "walk_from (map (\<lambda>e. (e_id e, e)) es) b"
  have get: "js_get (map (\<lambda>e. (e_id e, e)) es) (e_id e) = Some e"
    using tree less.prems(1) by (simp add: tree_ok_def js_get_keyed_entries)
  have new: "e_id e \<notin> visited" using less.prems by auto
  show ?case
  proof (cases "e_parentId e")
    case None
    then show ?thesis
      using less.prems(1) get new
      by (intro exI [of _ "[e]"]) (auto simp: walk_from.simps [of _ _ _ _ "e_id e"])
  next
    case (Some p)
    then obtain q where q: "q \<in> set es" "e_id q = p" "e_seq q < e_seq e"
      using tree less.prems(1) parents_before_parent [of "{}" es e p] by (auto simp: tree_ok_def)
    have "{x \<in> set es. e_seq x < e_seq q} \<subset> {x \<in> set es. e_seq x < e_seq e}" using q by auto
    then have smaller: "card {x \<in> set es. e_seq x < e_seq q} < card {x \<in> set es. e_seq x < e_seq e}"
      by (intro psubset_card_mono) auto
    have vis: "x \<in> set es \<Longrightarrow> e_seq x \<le> e_seq q \<Longrightarrow> e_id x \<notin> insert (e_id e) visited" for x
      using less.prems q tree by (force simp: tree_ok_def distinct_map dest: inj_onD)
    obtain path where path: "branch_path es p path" "sorted_wrt (>) (map e_seq path)"
      "\<forall>x \<in> set path. e_seq x \<le> e_seq q"
      "?walk (insert (e_id e) visited) InvalidEntry p = (take_upto (bound_hit b) path, None)"
      using less.hyps [OF smaller q(1) vis, of InvalidEntry] unfolding q(2) by blast
    have "?walk visited missing (e_id e) = (take_upto (bound_hit b) (e # path), None)"
      using get new Some path(4) by (simp add: walk_from.simps [of _ _ _ _ "e_id e"])
    moreover have "\<forall>x \<in> set path. e_seq x < e_seq e" using path(3) q(3) by force
    ultimately show ?thesis
      using path(1,2) less.prems(1) Some by (intro exI [of _ "e # path"]) (auto simp: less_imp_le)
  qed
qed

definition branch_of :: "session_state \<Rightarrow> string \<Rightarrow> entry list" where
  "branch_of st i = fst (walkToRoot st no_bounds (Some i))"

lemma bound_hit_no_bounds [simp]: "\<not> bound_hit no_bounds e"
  by (simp add: bound_hit_def no_bounds_def)

lemma walkToRoot_ok:
  assumes wf: "session_wf st" and i: "i \<in> entry_ids st"
  shows "branch_path (entries st) i (branch_of st i)" (is ?path)
    and "sorted_wrt (>) (map e_seq (branch_of st i))" (is ?sorted)
    and "walkToRoot st b (Some i) = (take_upto (bound_hit b) (branch_of st i), None)" (is ?walk)
proof -
  from i obtain e where e: "e \<in> set (entries st)" "e_id e = i" by (auto simp: entry_ids_def)
  note tree = session_wf_tree [OF wf]
  have walk: "\<exists>path. branch_path (entries st) i path \<and> sorted_wrt (>) (map e_seq path) \<and>
      walkToRoot st b (Some i) = (take_upto (bound_hit b) path, None)" for b
    using walk_from_ok [of "entries st" e "{}" b NotFound] tree e by (auto simp: walkToRoot_def)
  obtain path where path: "branch_path (entries st) i path" "sorted_wrt (>) (map e_seq path)"
    "walkToRoot st no_bounds (Some i) = (take_upto (bound_hit no_bounds) path, None)"
    using walk by blast
  then have "branch_of st i = path" by (simp add: branch_of_def take_upto_never)
  with path show ?path ?sorted by simp_all
  show ?walk
    using walk [of b] tree branch_path_unique [OF _ path(1)] \<open>branch_of st i = path\<close>
    by (auto simp: tree_ok_def)
qed

lemma branch_path_subset: "branch_path es i p \<Longrightarrow> set p \<subseteq> set es"
  by (induction p arbitrary: i) (auto split: option.splits)

lemma branch_path_hd: "branch_path es i p \<Longrightarrow> p \<noteq> [] \<and> e_id (hd p) = i"
  by (cases p) auto

lemma walkToRoot_missing:
  assumes "session_wf st" "i \<notin> entry_ids st"
  shows "walkToRoot st b (Some i) = ([], Some NotFound)"
proof -
  have "js_get (entriesById st) i = None"
    using assms by (simp add: js_get_None_iff entry_index_has session_wf_def)
  then show ?thesis by (simp add: walkToRoot_def walk_from.simps [of _ _ _ _ i])
qed

lemma findEntriesOnBranch_eq:
  assumes "session_wf st" "i \<in> entry_ids st" "valid_limit (q_limit q)" "valid_cursor (q_cursor q)"
  shows "findEntriesOnBranch st q b i = Inr (limited (q_limit q)
           (filter (\<lambda>e. matchesEntryQuery e q) (take_upto (bound_hit b)
              (in_order (rev (branch_of st i)) (q_order q)))))"
proof -
  have "take_upto (bound_hit no_bounds) (branch_of st i) = branch_of st i"
    by (simp add: take_upto_never)
  then show ?thesis
    using assms
    by (simp add: findEntriesOnBranch_def assertValidLimit_eq assertValidCursor_eq walkToRoot_ok
        branch_newest_eq branch_oldest_eq in_order_def)
qed

end
