(* ===== verification/Session_Fork.thy ===== *)
theory Session_Fork
  imports Session_State_Inv
begin

text \<open>
  Forking: the mutations that \<^verbatim>\<open>createForkMutations\<close> builds from a well-formed session are
  accepted one after the other by a fresh \<^verbatim>\<open>SessionState\<close>, and rebuild the selected entries,
  lane pointers, name and labels in it.
\<close>

section \<open>Replaying the copied entries\<close>

fun renumber :: "int \<Rightarrow> entry list \<Rightarrow> entry list" where
  "renumber s [] = []"
| "renumber s (e # es) = e\<lparr>e_seq := s\<rparr> # renumber (s + 1) es"

lemma renumber_ids [simp]: "map e_id (renumber s es) = map e_id es"
  by (induction es arbitrary: s) auto

lemma renumber_id_set [simp]: "e_id ` set (renumber s es) = e_id ` set es"
  by (metis image_set renumber_ids)

lemma length_renumber [simp]: "length (renumber s es) = length es"
  by (induction es arbitrary: s) auto

lemma renumber_nth: "i < length es \<Longrightarrow> renumber s es ! i = (es ! i)\<lparr>e_seq := s + int i\<rparr>"
  by (induction es arbitrary: s i) (auto simp: nth_Cons split: nat.splits)

definition copyable :: "session_state \<Rightarrow> entry list \<Rightarrow> bool" where
  "copyable st es \<longleftrightarrow> parents_before (entry_ids st) es \<and> distinct (map e_id es) \<and>
     usedIds st \<inter> e_id ` set es = {}"

lemma apply_fork_entries:
  assumes "session_wf st" "copyable st es"
  shows "\<exists>st'. applyMutations st (fork_entries (sequence st + 1) es) = Inr st' \<and>
     entries st' = entries st @ renumber (sequence st + 1) es \<and>
     sequence st' = sequence st + int (length es) \<and> records st' = records st \<and>
     lanes st' = lanes st \<and> labels st' = labels st \<and> name st' = name st"
  using assms
proof (induction es arbitrary: st)
  case (Cons e es)
  let ?e = "e\<lparr>e_seq := sequence st + 1\<rparr>"
  have ids: "wf_ids st" using Cons.prems(1) by (simp add: session_wf_def)
  have parent: "parent_exists st (e_parentId e)"
    using Cons.prems(2) ids by (auto simp: parent_exists_def copyable_def entry_index_has split: option.splits)
  have fresh: "e_id e \<notin> usedIds st" using Cons.prems(2) by (auto simp: copyable_def)
  obtain st1 where st1: "applyMutation st (EntryMutation None ?e) = Inr st1"
      and st1_eq: "entries st1 = entries st @ [?e]" "sequence st1 = sequence st + 1" "records st1 = records st"
        "lanes st1 = lanes st" "labels st1 = labels st" "name st1 = name st"
        "usedIds st1 = insert (e_id e) (usedIds st)"
    using parent fresh by (auto simp: lane_accepts_def)
  have wf1: "session_wf st1" using Cons.prems(1) st1 by (rule applyMutation_wf)
  have "copyable st1 es"
    using Cons.prems(2) st1_eq(1,7) by (auto simp: copyable_def entry_ids_def)
  with Cons.IH [OF wf1] st1 st1_eq show ?case
    by (auto simp: applyMutations_def add.assoc simp del: applyMutation.simps)
qed (simp add: applyMutations_def)

section \<open>Replaying lanes, name and labels\<close>

lemma apply_fork_lanes:
  assumes "session_wf st" "\<And>l x. (l, Some x) \<in> set ls \<Longrightarrow> x \<in> entry_ids st"
  shows "\<exists>st'. applyMutations st (fork_lanes (sequence st + 1) ls) = Inr st' \<and>
     entries st' = entries st \<and> sequence st' = sequence st + int (length ls) \<and> records st' = records st \<and>
     lanes st' = foldl (\<lambda>m (l, leaf). js_set m l leaf) (lanes st) ls \<and>
     labels st' = labels st \<and> name st' = name st"
  using assms
proof (induction ls arbitrary: st)
  case (Cons p ls)
  obtain l leaf where p: "p = (l, leaf)" by (cases p)
  have "parent_exists st leaf"
    using Cons.prems by (auto simp: parent_exists_def p entry_index_has session_wf_def split: option.splits)
  then obtain st1 where st1: "applyMutation st (LaneMutation (sequence st + 1) l leaf) = Inr st1"
      and st1_eq: "entries st1 = entries st" "sequence st1 = sequence st + 1" "records st1 = records st"
        "lanes st1 = js_set (lanes st) l leaf" "labels st1 = labels st" "name st1 = name st"
    by simp
  have "session_wf st1" using Cons.prems(1) st1 by (rule applyMutation_wf)
  moreover have "entry_ids st1 = entry_ids st" using st1_eq by (simp add: entry_ids_def)
  ultimately show ?case
    using Cons.IH [of st1] Cons.prems(2) st1 st1_eq
    by (auto simp: p applyMutations_def add.assoc simp del: applyMutation.simps)
qed (simp add: applyMutations_def)

lemma apply_fork_labels:
  assumes "session_wf st" "e_id ` set es \<subseteq> entry_ids st"
  shows "\<exists>st'. applyMutations st (fork_labels lbls (sequence st + 1) es) = Inr st' \<and>
     entries st' = entries st \<and> records st' = records st \<and>
     lanes st' = lanes st \<and> name st' = name st \<and>
     (\<forall>i. js_get (labels st') i = (if i \<in> e_id ` set es \<and> js_has lbls i then js_get lbls i else js_get (labels st) i))"
  using assms
proof (induction es arbitrary: st)
  case (Cons e es)
  show ?case
  proof (cases "js_get lbls (e_id e)")
    case None
    with Cons.IH [of st] Cons.prems show ?thesis by (auto simp: js_has_iff_get)
  next
    case (Some l)
    have "js_has (entriesById st) (e_id e)"
      using Cons.prems by (auto simp: entry_index_has session_wf_def)
    then obtain st1 where st1: "applyMutation st (LabelMutation (sequence st + 1) (e_id e) (Some l)) = Inr st1"
        and st1_eq: "entries st1 = entries st" "sequence st1 = sequence st + 1" "records st1 = records st"
          "lanes st1 = lanes st" "labels st1 = js_set (labels st) (e_id e) l" "name st1 = name st"
      by simp
    have "session_wf st1" using Cons.prems(1) st1 by (rule applyMutation_wf)
    moreover have "entry_ids st1 = entry_ids st" using st1_eq by (simp add: entry_ids_def)
    ultimately obtain st' where "applyMutations st1 (fork_labels lbls (sequence st1 + 1) es) = Inr st'"
        "entries st' = entries st1" "records st' = records st1" "lanes st' = lanes st1" "name st' = name st1"
        "\<forall>i. js_get (labels st') i =
          (if i \<in> e_id ` set es \<and> js_has lbls i then js_get lbls i else js_get (labels st1) i)"
      using Cons.IH [of st1] Cons.prems(2) by auto
    with st1 st1_eq Some show ?thesis
      by (auto simp: applyMutations_def add.assoc js_has_iff_get simp del: applyMutation.simps)
  qed
qed (simp add: applyMutations_def)

section \<open>The selected entries can be copied\<close>

lemma branch_path_parents:
  assumes "branch_path es i p"
  shows "parents_before {} (rev p)"
  using assms
proof (induction p arbitrary: i)
  case (Cons e p)
  show ?case
  proof (cases "e_parentId e")
    case (Some q)
    with Cons.prems have "branch_path es q p" by simp
    moreover from this have "q \<in> e_id ` set p"
      using branch_path_hd [of es q p] by (metis hd_in_set imageI)
    ultimately show ?thesis using Cons.IH Some by (simp add: parents_before_snoc)
  qed (use Cons in \<open>simp add: parents_before_snoc\<close>)
qed simp

lemma strictly_sorted_distinct: "sorted_wrt (>) (map e_seq p) \<Longrightarrow> distinct p"
proof (induction p)
  case (Cons e p)
  then show ?case by (auto dest: bspec [of _ _ e])
qed simp

lemma branch_copyable:
  assumes "session_wf st" "i \<in> entry_ids st"
  shows "copyable init_state (rev (branch_of st i))"
proof -
  note path = walkToRoot_ok [OF assms]
  have "inj_on e_id (set (entries st))"
    using session_wf_tree [OF assms(1)] by (simp add: tree_ok_def distinct_map)
  then have "inj_on e_id (set (branch_of st i))"
    using branch_path_subset [OF path(1)] by (rule inj_on_subset)
  then have "distinct (map e_id (rev (branch_of st i)))"
    using strictly_sorted_distinct [OF path(2)] by (simp add: distinct_map)
  then show ?thesis
    using branch_path_parents [OF path(1)]
    by (simp add: copyable_def init_state_def entry_ids_def)
qed

definition fork_selected :: "session_state \<Rightarrow> fork_options \<Rightarrow> entry list \<Rightarrow> (string \<times> string option) list \<Rightarrow> bool" where
  "fork_selected st opts es ls \<longleftrightarrow> (case opts of
      TreeFork \<Rightarrow> es = entries st \<and> ls = lanes st
    | BranchFork entryId position \<Rightarrow> (\<exists>target. fork_target st entryId position = Inr target \<and>
        es = (case target of None \<Rightarrow> [] | Some t \<Rightarrow> rev (branch_of st t)) \<and> ls = [(''main'', target)]))"

lemma fork_target_known:
  assumes wf: "session_wf st" and "fork_target st entryId position = Inr (Some t)"
  shows "t \<in> entry_ids st"
proof -
  obtain e where e: "getEntry st (e_id e) = Some e" "t = e_id e \<or> e_parentId e = Some t"
  proof -
    from assms(2) obtain sel where "fork_point st (entryId \<noteq> None) position sel = Inr (Some t)"
      by (auto simp: fork_target_def bind_result_Inr_iff)
    then obtain i e where "getEntry st i = Some e" "t = e_id e \<or> e_parentId e = Some t"
      unfolding fork_point_def
      by (auto split: option.split_asm fork_position.split_asm if_split_asm)
    moreover from this(1) have "e_id e = i"
      using session_wf_tree [OF wf] by (auto simp: getEntry_def dest: js_get_in_set)
    ultimately show ?thesis using that by blast
  qed
  then have "e \<in> set (entries st)"
    using session_wf_tree [OF wf] by (auto simp: getEntry_def dest: js_get_in_set)
  moreover have "e_parentId e = Some t \<Longrightarrow> t \<in> entry_ids st"
    using session_wf_tree [OF wf] parents_before_parent [of "{}" "entries st" e t] \<open>e \<in> set (entries st)\<close>
    by (auto simp: tree_ok_def entry_ids_def)
  ultimately show ?thesis using e(2) by (auto simp: entry_ids_def)
qed

lemma all_oldest_matches [simp]: "matchesEntryQuery e all_oldest"
  by (simp add: matchesEntryQuery_def all_oldest_def)

lemma all_oldest_fields [simp]:
  "q_limit all_oldest = None" "q_cursor all_oldest = None" "q_order all_oldest = Some OldestFirst"
  by (simp_all add: all_oldest_def)

lemma limited_None [simp]: "limited None xs = xs"
  by (simp add: limited_def)

lemma findEntries_all: "findEntries st all_oldest = Inr (entries st)"
  by (simp add: findEntries_def assertValidLimit_def assertValidCursor_def collect_eq room_def in_order_def)

lemma fork_selection_eq:
  assumes wf: "session_wf st" and "fork_selection st opts = Inr (es, ls)"
  shows "fork_selected st opts es ls"
proof (cases opts)
  case TreeFork
  then show ?thesis using assms by (simp add: fork_selection_def findEntries_all fork_selected_def getLanes_def)
next
  case (BranchFork entryId position)
  with assms(2) obtain target where target: "fork_target st entryId position = Inr target"
    and es: "(case target of None \<Rightarrow> Inr [] | Some t \<Rightarrow> findEntriesOnBranch st all_oldest no_bounds t) = Inr es"
    and ls: "ls = [(''main'', target)]"
    by (auto simp: fork_selection_def bind_result_Inr_iff)
  show ?thesis
  proof (cases target)
    case None
    then show ?thesis using target es ls BranchFork by (simp add: fork_selected_def)
  next
    case (Some t)
    with target have "t \<in> entry_ids st" by (auto intro: fork_target_known [OF wf])
    then show ?thesis
      using target es ls BranchFork Some wf
      by (simp add: fork_selected_def findEntriesOnBranch_eq valid_limit_def valid_cursor_def in_order_def
          take_upto_never)
  qed
qed

lemma fork_selected_copyable:
  assumes wf: "session_wf st" and sel: "fork_selected st opts es ls"
  shows "copyable init_state es"
    and "(l, Some x) \<in> set ls \<Longrightarrow> x \<in> e_id ` set es"
proof -
  have tree: "copyable init_state (entries st)"
    using session_wf_tree [OF wf] by (simp add: copyable_def tree_ok_def init_state_def entry_ids_def)
  have lanes: "(l, Some x) \<in> set (lanes st) \<Longrightarrow> x \<in> entry_ids st" for l x
    using wf js_get_of_set [of "lanes st" l "Some x"] by (auto simp: session_wf_def wf_refs_def)
  have leaf: "t \<in> e_id ` set (branch_of st t)" if "t \<in> entry_ids st" for t
    using branch_path_hd [OF walkToRoot_ok(1) [OF wf that]] by (metis hd_in_set imageI)
  have none: "copyable init_state []" by (simp add: copyable_def)
  show "copyable init_state es"
    using sel tree none branch_copyable [OF wf] fork_target_known [OF wf]
    by (auto simp: fork_selected_def split: fork_options.split_asm option.split_asm)
  show "x \<in> e_id ` set es" if "(l, Some x) \<in> set ls"
    using sel that lanes leaf fork_target_known [OF wf]
    by (auto simp: fork_selected_def entry_ids_def split: fork_options.split_asm)
qed

lemma get_foldl_js_set:
  "js_map_ok ls \<Longrightarrow> js_get (foldl (\<lambda>m (l, leaf). js_set m l leaf) m0 ls) l =
     (case js_get ls l of None \<Rightarrow> js_get m0 l | Some v \<Rightarrow> Some v)"
proof (induction ls arbitrary: m0)
  case (Cons p ls)
  obtain a b where p: "p = (a, b)" by (cases p)
  from Cons.prems p have "js_map_ok ls" "js_get ls a = None"
    by (auto simp: js_map_ok_def js_get_def map_of_eq_None_iff)
  with Cons.IH [of "js_set m0 a b"] p show ?case by (auto split: option.splits)
qed simp

lemma fork_selected_lanes:
  assumes "session_wf st" "fork_selected st opts es ls"
  shows "js_map_ok ls \<and> js_has ls ''main''"
  using assms by (auto simp: fork_selected_def session_wf_def wf_refs_def js_map_ok_def split: fork_options.split_asm)

lemma applyMutations_append:
  "applyMutations st (ms @ ms') = bind_result (applyMutations st ms) (\<lambda>st'. applyMutations st' ms')"
  by (simp add: applyMutations_def fold_result_append)

lemma fork_replays_wf:
  assumes wf: "session_wf st" and ms: "createForkMutations st opts = Inr ms"
  shows "\<exists>es ls st'. fork_selected st opts es ls \<and> applyMutations init_state ms = Inr st' \<and>
     entries st' = renumber 1 es \<and> records st' = [] \<and> name st' = name st \<and>
     (\<forall>l. js_get (lanes st') l = js_get ls l) \<and>
     (\<forall>i. getLabel st' i = (if i \<in> e_id ` set es then getLabel st i else None))"
proof -
  obtain es ls where sel: "fork_selection st opts = Inr (es, ls)"
    using ms by (auto simp: createForkMutations_def bind_result_Inr_iff)
  note sel' = fork_selection_eq [OF wf sel]
  note copy = fork_selected_copyable [OF wf sel']
  define s2 where "s2 = 1 + int (length es)"
  define s3 where "s3 = s2 + int (length ls)"
  have ms_eq: "ms = fork_entries 1 es @ fork_lanes s2 ls @
      (case name st of None \<Rightarrow> [] | Some n \<Rightarrow> [NameMutation s3 n]) @
      fork_labels (labels st) (if name st = None then s3 else s3 + 1) es"
    using ms unfolding createForkMutations_def sel s2_def s3_def Let_def
    by (simp only: bind_result_simps prod.case sum.inject)
  have init: "session_wf init_state" "sequence init_state = 0" "entries init_state = []"
      "records init_state = []" "name init_state = None" "labels init_state = []"
      "lanes init_state = [(''main'', None)]"
    using init_state_wf by (simp_all add: init_state_def)
  obtain st1 where st1: "applyMutations init_state (fork_entries 1 es) = Inr st1"
      "entries st1 = renumber 1 es" "sequence st1 = int (length es)" "records st1 = []"
      "lanes st1 = [(''main'', None)]" "labels st1 = []" "name st1 = None"
    using apply_fork_entries [OF init(1) copy(1)] init by auto
  have wf1: "session_wf st1" using init(1) st1(1) by (rule applyMutations_wf)
  have ids1: "entry_ids st1 = e_id ` set es" using st1(2) by (simp add: entry_ids_def)
  obtain st2 where st2: "applyMutations st1 (fork_lanes s2 ls) = Inr st2"
      "entries st2 = renumber 1 es" "sequence st2 = s3 - 1" "records st2 = []"
      "lanes st2 = foldl (\<lambda>m (l, leaf). js_set m l leaf) [(''main'', None)] ls" "labels st2 = []" "name st2 = None"
    using apply_fork_lanes [OF wf1, of ls] copy(2) ids1 st1 by (auto simp: s2_def s3_def add.commute)
  have wf2: "session_wf st2" using wf1 st2(1) by (rule applyMutations_wf)
  obtain st3 where st3: "applyMutations st2 (case name st of None \<Rightarrow> [] | Some n \<Rightarrow> [NameMutation s3 n]) = Inr st3"
      "entries st3 = renumber 1 es" "sequence st3 + 1 = (if name st = None then s3 else s3 + 1)"
      "records st3 = []" "lanes st3 = lanes st2" "labels st3 = []" "name st3 = name st"
    using st2 by (cases "name st") (auto simp: applyMutations_def)
  have wf3: "session_wf st3" using wf2 st3(1) by (rule applyMutations_wf)
  obtain st4 where st4: "applyMutations st3 (fork_labels (labels st) (sequence st3 + 1) es) = Inr st4"
      "entries st4 = renumber 1 es" "records st4 = []" "lanes st4 = lanes st3" "name st4 = name st"
      "\<forall>i. js_get (labels st4) i = (if i \<in> e_id ` set es \<and> js_has (labels st) i then js_get (labels st) i else None)"
    using apply_fork_labels [OF wf3, of es "labels st"] st3 by (auto simp: entry_ids_def)
  have "applyMutations init_state ms = Inr st4"
    using st1(1) st2(1) st3(1) st4(1) unfolding ms_eq st3(3) applyMutations_append by simp
  moreover have "\<forall>l. js_get (lanes st4) l = js_get ls l"
    using fork_selected_lanes [OF wf sel'] st4(4) st3(5) st2(5)
    by (auto simp: get_foldl_js_set js_has_iff_get split: option.splits)
  moreover have "\<forall>i. getLabel st4 i = (if i \<in> e_id ` set es then getLabel st i else None)"
    using st4(6) by (auto simp: getLabel_def js_has_iff_get)
  ultimately show ?thesis using sel' st4 by blast
qed

lemma reachable_wf: "reachable_state st \<Longrightarrow> session_wf st"
  by (induction rule: reachable_state.induct) (auto intro: init_state_wf applyMutation_wf)

end
