(* ===== verification/Session_Storage.thy ===== *)
theory Session_Storage
  imports Session_Types
begin

text \<open>
  The \<^verbatim>\<open>SessionStorage\<close> interface of \<^verbatim>\<open>packages/agent/src/harness/session-v4/types.ts\<close> and the
  contract its clients rely on. An implementation is a record of operations on its state
  type; \<^verbatim>\<open>Date.now()\<close> is an argument of the two operations that stamp what they append.

  The locale \<open>session_storage\<close> states the contract: what an accepted append does to lanes,
  entries and existing branches, when an append is accepted, and what every operation
  keeps of the implementation's invariant.
\<close>

record 's storage_ops =
  so_getMetadata :: "'s \<Rightarrow> session_metadata"
  so_getLanes :: "'s \<Rightarrow> (string, string option) js_map"
  so_createLane :: "'s \<Rightarrow> string \<Rightarrow> string option \<Rightarrow> session_error + 's"
  so_moveLane :: "'s \<Rightarrow> string \<Rightarrow> string option \<Rightarrow> session_error + 's"
  so_appendEntry :: "'s \<Rightarrow> int \<Rightarrow> provisioned_entry \<Rightarrow> string \<Rightarrow> session_error + 's \<times> entry"
  so_appendRecord :: "'s \<Rightarrow> int \<Rightarrow> new_record \<Rightarrow> session_error + 's \<times> lane_record"
  so_getEntry :: "'s \<Rightarrow> string \<Rightarrow> entry option"
  so_findEntries :: "'s \<Rightarrow> entry_query \<Rightarrow> session_error + entry list"
  so_findEntriesOnBranch :: "'s \<Rightarrow> entry_query \<Rightarrow> branch_bounds \<Rightarrow> string \<Rightarrow> session_error + entry list"
  so_findRecords :: "'s \<Rightarrow> record_query \<Rightarrow> session_error + lane_record list"
  so_findOpenOperations :: "'s \<Rightarrow> string \<Rightarrow> js_num option \<Rightarrow> session_error + lane_record list"
  so_getLog :: "'s \<Rightarrow> log_options \<Rightarrow> session_error + log_item list"
  so_getName :: "'s \<Rightarrow> string option"
  so_setName :: "'s \<Rightarrow> string \<Rightarrow> session_error + 's"
  so_getLabel :: "'s \<Rightarrow> string \<Rightarrow> string option"
  so_setLabel :: "'s \<Rightarrow> string \<Rightarrow> string option \<Rightarrow> session_error + 's"
  so_getStats :: "'s \<Rightarrow> session_stats"

definition newest_first :: entry_query where
  "newest_first = \<lparr>q_type = None, q_customType = None, q_order = None, q_limit = None, q_cursor = None\<rparr>"

definition whole_branch :: "string option \<Rightarrow> branch_bounds" where
  "whole_branch start = \<lparr>b_start = start, b_stopAtType = None, b_stopAtId = None\<rparr>"

locale session_storage =
  fixes ops :: "'s storage_ops"
    and inv :: "'s \<Rightarrow> bool"
    and used :: "'s \<Rightarrow> string set"
  assumes append_entry_accepts:
      "inv s \<Longrightarrow> (\<exists>r. so_appendEntry ops s now p lane = Inr r) \<longleftrightarrow>
         js_has (so_getLanes ops s) lane \<and> p_id p \<notin> used s"
    and append_entry_effect:
      "inv s \<Longrightarrow> so_appendEntry ops s now p lane = Inr (s', e) \<Longrightarrow>
         inv s' \<and> e_id e = p_id p \<and> e_body e = p_body p \<and> e_timestamp e = now \<and>
         js_get (so_getLanes ops s) lane = Some (e_parentId e) \<and>
         so_getLanes ops s' = js_set (so_getLanes ops s) lane (Some (e_id e)) \<and>
         so_getEntry ops s' = (so_getEntry ops s)(p_id p \<mapsto> e) \<and>
         used s' = insert (p_id p) (used s)"
    and append_entry_branch:
      "inv s \<Longrightarrow> so_appendEntry ops s now p lane = Inr (s', e) \<Longrightarrow>
         so_findEntriesOnBranch ops s' newest_first (whole_branch (Some (e_id e))) (e_id e) =
           (case e_parentId e of
              None \<Rightarrow> Inr [e]
            | Some parent \<Rightarrow> map_sum id (\<lambda>es. e # es)
                (so_findEntriesOnBranch ops s newest_first (whole_branch (Some parent)) parent))"
    and append_entry_keeps_branches:
      "inv s \<Longrightarrow> so_appendEntry ops s now p lane = Inr (s', e) \<Longrightarrow> so_getEntry ops s i \<noteq> None \<Longrightarrow>
         so_findEntriesOnBranch ops s' q b i = so_findEntriesOnBranch ops s q b i"
    and lanes_point_at_entries:
      "inv s \<Longrightarrow> js_get (so_getLanes ops s) lane = Some (Some i) \<Longrightarrow> so_getEntry ops s i \<noteq> None"
    and entry_key: "inv s \<Longrightarrow> so_getEntry ops s i = Some e \<Longrightarrow> e_id e = i \<and> i \<in> used s"
    and append_record_inv: "inv s \<Longrightarrow> so_appendRecord ops s now r = Inr (s', rec) \<Longrightarrow> inv s'"
    and create_lane_inv: "inv s \<Longrightarrow> so_createLane ops s lane at = Inr s' \<Longrightarrow> inv s'"
    and move_lane_inv: "inv s \<Longrightarrow> so_moveLane ops s lane to = Inr s' \<Longrightarrow> inv s'"
    and set_name_inv: "inv s \<Longrightarrow> so_setName ops s n = Inr s' \<Longrightarrow> inv s'"
    and set_label_inv: "inv s \<Longrightarrow> so_setLabel ops s i l = Inr s' \<Longrightarrow> inv s'"

end
