(* ===== verification/Session_Memory.thy ===== *)
theory Session_Memory
  imports Session_Fork Session_Storage
begin

text \<open>
  \<^verbatim>\<open>InMemorySessionStorage\<close> and \<^verbatim>\<open>InMemorySessionRepo\<close> of
  \<^verbatim>\<open>packages/agent/src/harness/session-v4/memory.ts\<close>. The storage is its metadata and a
  \<^verbatim>\<open>SessionState\<close>; \<^verbatim>\<open>structuredClone\<close> returns equal values. The repository keeps references
  to storage objects, which sessions opened earlier share, so it is a map from session ids
  to addresses of an explicit store.
\<close>

section \<open>The storage\<close>

record memory_storage =
  ms_metadata :: session_metadata
  ms_state :: session_state

definition memory_new :: "session_metadata \<Rightarrow> memory_storage" where
  "memory_new metadata = \<lparr>ms_metadata = metadata, ms_state = init_state\<rparr>"

definition memory_fork :: "memory_storage \<Rightarrow> session_metadata \<Rightarrow> fork_options \<Rightarrow> session_error + memory_storage" where
  "memory_fork s metadata opts =
     bind_result (createForkMutations (ms_state s) opts) (\<lambda>ms.
     bind_result (applyMutations init_state ms) (\<lambda>st.
     Inr \<lparr>ms_metadata = metadata, ms_state = st\<rparr>))"

definition memory_apply :: "memory_storage \<Rightarrow> session_mutation \<Rightarrow> session_error + memory_storage" where
  "memory_apply s m = bind_result (applyMutation (ms_state s) m) (\<lambda>st. Inr (s\<lparr>ms_state := st\<rparr>))"

definition memory_createLane :: "memory_storage \<Rightarrow> string \<Rightarrow> string option \<Rightarrow> session_error + memory_storage" where
  "memory_createLane s lane at =
     bind_result (validateNewLane (ms_state s) lane) (\<lambda>_.
     bind_result (validateTarget (ms_state s) at) (\<lambda>_.
     memory_apply s (LaneMutation (nextSequence (ms_state s)) lane at)))"

definition memory_moveLane :: "memory_storage \<Rightarrow> string \<Rightarrow> string option \<Rightarrow> session_error + memory_storage" where
  "memory_moveLane s lane to =
     bind_result (requireLane (ms_state s) lane) (\<lambda>_.
     bind_result (validateTarget (ms_state s) to) (\<lambda>_.
     memory_apply s (LaneMutation (nextSequence (ms_state s)) lane to)))"

definition memory_appendEntry :: "memory_storage \<Rightarrow> int \<Rightarrow> provisioned_entry \<Rightarrow> string
    \<Rightarrow> session_error + memory_storage \<times> entry" where
  "memory_appendEntry s now p lane =
     bind_result (requireLane (ms_state s) lane) (\<lambda>parentId.
     bind_result (validateUnusedId (ms_state s) (p_id p)) (\<lambda>_.
     let e = \<lparr>e_id = p_id p, e_seq = nextSequence (ms_state s), e_parentId = parentId,
              e_timestamp = now, e_body = p_body p\<rparr>
     in bind_result (memory_apply s (EntryMutation (Some lane) e)) (\<lambda>s'. Inr (s', e))))"

definition memory_appendRecord :: "memory_storage \<Rightarrow> int \<Rightarrow> new_record \<Rightarrow> session_error + memory_storage \<times> lane_record" where
  "memory_appendRecord s now n =
     bind_result (requireLane (ms_state s) (n_lane n)) (\<lambda>_.
     bind_result (validateUnusedId (ms_state s) (n_id n)) (\<lambda>_.
     bind_result (findOpenOperations (ms_state s) (n_lane n) (Some (JsInt 1))) (\<lambda>open_ops.
     bind_result (guard_result (\<not> (record_body_type (n_body n) = OperationStartedT \<and> open_ops \<noteq> [])) StorageError) (\<lambda>_.
     let r = \<lparr>r_id = n_id n, r_seq = nextSequence (ms_state s), r_lane = n_lane n,
              r_timestamp = now, r_body = n_body n\<rparr>
     in bind_result (memory_apply s (RecordMutation r)) (\<lambda>s'. Inr (s', r))))))"

definition memory_setName :: "memory_storage \<Rightarrow> string \<Rightarrow> session_error + memory_storage" where
  "memory_setName s n = memory_apply s (NameMutation (nextSequence (ms_state s)) n)"

definition memory_setLabel :: "memory_storage \<Rightarrow> string \<Rightarrow> string option \<Rightarrow> session_error + memory_storage" where
  "memory_setLabel s i label =
     bind_result (validateTarget (ms_state s) (Some i)) (\<lambda>_.
     memory_apply s (LabelMutation (nextSequence (ms_state s)) i label))"

definition memory_ops :: "memory_storage storage_ops" where
  "memory_ops = \<lparr>
     so_getMetadata = ms_metadata,
     so_getLanes = (\<lambda>s. getLanes (ms_state s)),
     so_createLane = memory_createLane,
     so_moveLane = memory_moveLane,
     so_appendEntry = memory_appendEntry,
     so_appendRecord = memory_appendRecord,
     so_getEntry = (\<lambda>s. getEntry (ms_state s)),
     so_findEntries = (\<lambda>s. findEntries (ms_state s)),
     so_findEntriesOnBranch = (\<lambda>s. findEntriesOnBranch (ms_state s)),
     so_findRecords = (\<lambda>s. findRecords (ms_state s)),
     so_findOpenOperations = (\<lambda>s. findOpenOperations (ms_state s)),
     so_getLog = (\<lambda>s. getLog (ms_state s)),
     so_getName = (\<lambda>s. getName (ms_state s)),
     so_setName = memory_setName,
     so_getLabel = (\<lambda>s. getLabel (ms_state s)),
     so_setLabel = memory_setLabel,
     so_getStats = (\<lambda>s. getStats (ms_state s))\<rparr>"

section \<open>The repository\<close>

record memory_repo =
  repo_sessions :: "(string, nat) js_map"
  repo_store :: "memory_storage list"

record session_create_options =
  sco_id :: "string option"
  sco_parentSessionId :: "string option"

definition repo_init :: memory_repo where
  "repo_init = \<lparr>repo_sessions = [], repo_store = []\<rparr>"

definition repo_add :: "memory_repo \<Rightarrow> string \<Rightarrow> memory_storage \<Rightarrow> memory_repo \<times> nat" where
  "repo_add repo i s = (repo\<lparr>repo_sessions := js_set (repo_sessions repo) i (length (repo_store repo)),
     repo_store := repo_store repo @ [s]\<rparr>, length (repo_store repo))"

text \<open>\<open>uuid\<close> is what \<^verbatim>\<open>uuidv7()\<close> returns, \<open>now\<close> what \<^verbatim>\<open>Date.now()\<close> returns.\<close>

definition repo_create :: "memory_repo \<Rightarrow> string \<Rightarrow> int \<Rightarrow> session_create_options \<Rightarrow> session_error + memory_repo \<times> nat" where
  "repo_create repo uuid now opts =
     (let i = (case sco_id opts of Some i \<Rightarrow> i | None \<Rightarrow> uuid) in
      bind_result (guard_result (\<not> js_has (repo_sessions repo) i) AlreadyExists) (\<lambda>_.
      Inr (repo_add repo i (memory_new \<lparr>sm_id = i, sm_createdAt = now,
        sm_parentSessionId = sco_parentSessionId opts\<rparr>))))"

definition requireStorage :: "memory_repo \<Rightarrow> string \<Rightarrow> session_error + nat" where
  "requireStorage repo i = (case js_get (repo_sessions repo) i of None \<Rightarrow> Inl NotFound | Some a \<Rightarrow> Inr a)"

definition repo_open :: "memory_repo \<Rightarrow> session_metadata \<Rightarrow> session_error + nat" where
  "repo_open repo metadata = requireStorage repo (sm_id metadata)"

definition repo_list :: "memory_repo \<Rightarrow> session_metadata list" where
  "repo_list repo = map (\<lambda>(_, a). ms_metadata (repo_store repo ! a)) (repo_sessions repo)"

definition repo_delete :: "memory_repo \<Rightarrow> session_metadata \<Rightarrow> memory_repo" where
  "repo_delete repo metadata = repo\<lparr>repo_sessions := js_delete (repo_sessions repo) (sm_id metadata)\<rparr>"

definition repo_fork :: "memory_repo \<Rightarrow> string \<Rightarrow> int \<Rightarrow> session_metadata \<Rightarrow> fork_options \<Rightarrow> session_create_options
    \<Rightarrow> session_error + memory_repo \<times> nat" where
  "repo_fork repo uuid now source fopts opts =
     bind_result (requireStorage repo (sm_id source)) (\<lambda>a.
     let i = (case sco_id opts of Some i \<Rightarrow> i | None \<Rightarrow> uuid);
         parent = (case sco_parentSessionId opts of Some p \<Rightarrow> p | None \<Rightarrow> sm_id source)
     in bind_result (guard_result (\<not> js_has (repo_sessions repo) i) AlreadyExists) (\<lambda>_.
        bind_result (memory_fork (repo_store repo ! a)
          \<lparr>sm_id = i, sm_createdAt = now, sm_parentSessionId = Some parent\<rparr> fopts) (\<lambda>s.
        Inr (repo_add repo i s))))"

text \<open>What a session obtained from the repository does to its storage object.\<close>

definition repo_update :: "memory_repo \<Rightarrow> nat \<Rightarrow> memory_storage \<Rightarrow> memory_repo" where
  "repo_update repo a s = repo\<lparr>repo_store := (repo_store repo)[a := s]\<rparr>"

section \<open>Every operation keeps the invariant\<close>

definition storage_wf :: "memory_storage \<Rightarrow> bool" where
  "storage_wf s \<longleftrightarrow> session_wf (ms_state s) \<and> (\<forall>lane. length (open_operations (ms_state s) lane) \<le> 1)"

definition storage_used :: "memory_storage \<Rightarrow> string set" where
  "storage_used s = usedIds (ms_state s)"

lemma lane_ops_open: "open_operations st lane = rev (map snd (lane_ops st lane))"
  by (simp add: open_operations_def lane_ops_def split: option.splits)

lemma open_operations_spec:
  "session_wf st \<Longrightarrow> open_operations st lane = rev (open_spec (records st) lane)"
  by (simp add: lane_ops_open session_wf_def wf_ops_def comp_def)

lemma non_record_open_operations:
  assumes "applyMutation st m = Inr st'" "\<And>r. m \<noteq> RecordMutation r"
  shows "open_operations st' lane = open_operations st lane"
  using assms by (cases m) (auto simp: open_operations_def split: if_splits)

lemma memory_apply_wf:
  assumes "storage_wf s" "memory_apply s m = Inr s'" "\<And>r. m \<noteq> RecordMutation r"
  shows "storage_wf s' \<and> ms_metadata s' = ms_metadata s"
proof -
  from assms(2) obtain st where st: "applyMutation (ms_state s) m = Inr st" "s' = s\<lparr>ms_state := st\<rparr>"
    by (auto simp: memory_apply_def bind_result_Inr_iff)
  then show ?thesis
    using assms(1,3) applyMutation_wf [of "ms_state s" m st] non_record_open_operations [of "ms_state s" m st]
    by (simp add: storage_wf_def)
qed

lemma memory_createLane_wf: "storage_wf s \<Longrightarrow> memory_createLane s lane at = Inr s' \<Longrightarrow> storage_wf s'"
  by (auto simp: memory_createLane_def bind_result_Inr_iff dest: memory_apply_wf)

lemma memory_moveLane_wf: "storage_wf s \<Longrightarrow> memory_moveLane s lane to = Inr s' \<Longrightarrow> storage_wf s'"
  by (auto simp: memory_moveLane_def bind_result_Inr_iff dest: memory_apply_wf)

lemma memory_setName_wf: "storage_wf s \<Longrightarrow> memory_setName s n = Inr s' \<Longrightarrow> storage_wf s'"
  by (auto simp: memory_setName_def dest: memory_apply_wf)

lemma memory_setLabel_wf: "storage_wf s \<Longrightarrow> memory_setLabel s i l = Inr s' \<Longrightarrow> storage_wf s'"
  by (auto simp: memory_setLabel_def bind_result_Inr_iff dest: memory_apply_wf)

lemma memory_appendEntry_wf: "storage_wf s \<Longrightarrow> memory_appendEntry s now p lane = Inr (s', e) \<Longrightarrow> storage_wf s'"
  by (auto simp: memory_appendEntry_def bind_result_Inr_iff Let_def dest: memory_apply_wf)

text \<open>Appending a record: the guard on open operations is what keeps a lane at one.\<close>

lemma open_step_length:
  assumes "length ops \<le> 1" "r_lane r = lane \<Longrightarrow> r_type r = OperationStartedT \<Longrightarrow> ops = []"
  shows "length (open_step lane ops r) \<le> 1"
  using assms by (auto simp: open_step_def r_type_def split: record_body.splits intro: le_trans [OF length_filter_le])

lemma memory_appendRecord_wf:
  assumes wf: "storage_wf s" and ok: "memory_appendRecord s now n = Inr (s', r)"
  shows "storage_wf s'"
proof -
  from ok obtain st where st: "applyMutation (ms_state s) (RecordMutation r) = Inr st" "s' = s\<lparr>ms_state := st\<rparr>"
    and guard: "r_type r = OperationStartedT \<Longrightarrow> open_operations (ms_state s) (r_lane r) = []"
    by (auto simp: memory_appendRecord_def bind_result_Inr_iff Let_def memory_apply_def findOpenOperations_def
        assertValidLimit_def r_type_def)
  from wf have wf0: "session_wf (ms_state s)" by (simp add: storage_wf_def)
  have wf1: "session_wf st" using wf0 st(1) by (rule applyMutation_wf)
  have recs: "records st = records (ms_state s) @ [r]" using st(1) by (auto split: if_splits)
  have "length (open_operations st lane) \<le> 1" for lane
    unfolding open_operations_spec [OF wf1] recs open_spec_snoc length_rev
    using wf guard
    by (intro open_step_length) (auto simp: open_operations_spec [OF wf0] storage_wf_def)
  then show ?thesis using st(2) wf1 by (simp add: storage_wf_def)
qed

lemma memory_new_wf: "storage_wf (memory_new metadata)"
proof -
  have "open_operations init_state lane = []" for lane by (simp add: open_operations_def init_state_def)
  then show ?thesis by (simp add: storage_wf_def memory_new_def init_state_wf)
qed

lemma memory_fork_wf:
  assumes "storage_wf s" "memory_fork s metadata opts = Inr s'"
  shows "storage_wf s'"
proof -
  from assms obtain ms where ms: "createForkMutations (ms_state s) opts = Inr ms"
    "applyMutations init_state ms = Inr (ms_state s')"
    by (auto simp: memory_fork_def bind_result_Inr_iff)
  moreover have "session_wf (ms_state s')" using init_state_wf ms(2) by (rule applyMutations_wf)
  moreover have "records (ms_state s') = []"
    using fork_replays_wf [of "ms_state s" opts ms] assms(1) ms by (auto simp: storage_wf_def)
  ultimately show ?thesis by (simp add: storage_wf_def open_operations_spec open_spec_def)
qed

section \<open>The storage contract\<close>

lemma branch_path_mono: "branch_path es i p \<Longrightarrow> set es \<subseteq> set es' \<Longrightarrow> branch_path es' i p"
  by (induction p arbitrary: i) (auto split: option.splits)

text \<open>An appended entry heads its parent's branch and leaves every other branch as it was.\<close>

lemma branch_of_kept:
  assumes "session_wf st" "session_wf st'" "entries st' = entries st @ [e]" "i \<in> entry_ids st"
  shows "branch_of st' i = branch_of st i"
proof (rule branch_path_unique)
  show "distinct (map e_id (entries st'))" using session_wf_tree [OF assms(2)] by (simp add: tree_ok_def)
  have "i \<in> entry_ids st'" using assms(3,4) by (auto simp: entry_ids_def)
  then show "branch_path (entries st') i (branch_of st' i)" by (rule walkToRoot_ok(1) [OF assms(2)])
  show "branch_path (entries st') i (branch_of st i)"
    using walkToRoot_ok(1) [OF assms(1,4)] by (rule branch_path_mono) (auto simp: assms(3))
qed

lemma branch_of_appended:
  assumes "session_wf st" "session_wf st'" "entries st' = entries st @ [e]"
    and parent: "\<And>p. e_parentId e = Some p \<Longrightarrow> p \<in> entry_ids st"
  shows "branch_of st' (e_id e) = e # (case e_parentId e of None \<Rightarrow> [] | Some p \<Rightarrow> branch_of st p)"
proof (rule branch_path_unique)
  show "distinct (map e_id (entries st'))" using session_wf_tree [OF assms(2)] by (simp add: tree_ok_def)
  have "e_id e \<in> entry_ids st'" using assms(3) by (simp add: entry_ids_def)
  then show "branch_path (entries st') (e_id e) (branch_of st' (e_id e))" by (rule walkToRoot_ok(1) [OF assms(2)])
  show "branch_path (entries st') (e_id e) (e # (case e_parentId e of None \<Rightarrow> [] | Some p \<Rightarrow> branch_of st p))"
    using walkToRoot_ok(1) [OF assms(1) parent]
    by (auto simp: assms(3) split: option.splits intro: branch_path_mono)
qed

lemma findEntriesOnBranch_invalid:
  "\<not> (valid_limit (q_limit q) \<and> valid_cursor (q_cursor q)) \<Longrightarrow> findEntriesOnBranch st q b i = Inl InvalidQuery"
  by (auto simp: findEntriesOnBranch_def assertValidLimit_eq assertValidCursor_eq guard_result_def)

lemma bound_hit_whole_branch [simp]: "\<not> bound_hit (whole_branch start) e"
  by (simp add: bound_hit_def whole_branch_def)

lemma findEntriesOnBranch_whole:
  assumes "session_wf st" "i \<in> entry_ids st"
  shows "findEntriesOnBranch st newest_first (whole_branch start) i = Inr (branch_of st i)"
proof -
  have "matchesEntryQuery e newest_first" for e by (simp add: matchesEntryQuery_def newest_first_def)
  then show ?thesis
    using findEntriesOnBranch_eq [OF assms, of newest_first "whole_branch start"]
    by (simp add: take_upto_never) (simp add: newest_first_def valid_limit_def valid_cursor_def limited_def in_order_def)
qed

text \<open>What a successful append does to the state, in the terms of the contract.\<close>

lemma memory_appendEntry_effect:
  assumes wf: "storage_wf s" and ok: "memory_appendEntry s now p lane = Inr (s', e)"
  shows "e_id e = p_id p" "e_body e = p_body p" "e_timestamp e = now"
    and "js_get (lanes (ms_state s)) lane = Some (e_parentId e)"
    and "lanes (ms_state s') = js_set (lanes (ms_state s)) lane (Some (e_id e))"
    and "entriesById (ms_state s') = js_set (entriesById (ms_state s)) (e_id e) e"
    and "usedIds (ms_state s') = insert (p_id p) (usedIds (ms_state s))"
    and "entries (ms_state s') = entries (ms_state s) @ [e]"
    and "e_parentId e = Some q \<Longrightarrow> q \<in> entry_ids (ms_state s)"
  using assms
  by (auto simp: memory_appendEntry_def bind_result_Inr_iff Let_def memory_apply_def requireLane_def
      storage_wf_def session_wf_def parent_exists_def entry_index_has split: option.splits if_splits)

lemma memory_appendEntry_accepts:
  assumes "storage_wf s"
  shows "(\<exists>r. memory_appendEntry s now p lane = Inr r) \<longleftrightarrow>
    js_has (lanes (ms_state s)) lane \<and> p_id p \<notin> usedIds (ms_state s)"
proof -
  have "parent_exists (ms_state s) leaf" if "js_get (lanes (ms_state s)) lane = Some leaf" for leaf
    using assms that by (auto simp: parent_exists_def storage_wf_def session_wf_def wf_refs_def entry_index_has
        split: option.splits)
  then show ?thesis
    by (cases "js_get (lanes (ms_state s)) lane")
      (auto simp: memory_appendEntry_def requireLane_def validateUnusedId_def js_has_iff_get Let_def memory_apply_def
        guard_result_def nextSequence_def lane_accepts_def)
qed

interpretation memory: session_storage memory_ops storage_wf storage_used
proof (unfold_locales, goal_cases)
  case (1 s now p lane)
  then show ?case
    using memory_appendEntry_accepts [OF 1] by (simp add: memory_ops_def getLanes_def storage_used_def)
next
  case (2 s now p lane s' e)
  then have ok: "memory_appendEntry s now p lane = Inr (s', e)" by (simp add: memory_ops_def)
  show ?case
    using memory_appendEntry_effect(1-7) [OF 2(1) ok] memory_appendEntry_wf [OF 2(1) ok]
    by (auto simp: memory_ops_def getLanes_def getEntry_def storage_used_def)
next
  case (3 s now p lane s' e)
  then have ok: "memory_appendEntry s now p lane = Inr (s', e)" by (simp add: memory_ops_def)
  note effect = memory_appendEntry_effect [OF 3(1) ok]
  have wf: "session_wf (ms_state s)" "session_wf (ms_state s')"
    using 3(1) memory_appendEntry_wf [OF 3(1) ok] by (auto simp: storage_wf_def)
  have "e_id e \<in> entry_ids (ms_state s')" using effect(8) by (simp add: entry_ids_def)
  then show ?case
    using branch_of_appended [OF wf effect(8,9)] effect(9)
    by (simp add: memory_ops_def findEntriesOnBranch_whole wf split: option.splits)
next
  case (4 s now p lane s' e i q b)
  then have ok: "memory_appendEntry s now p lane = Inr (s', e)" by (simp add: memory_ops_def)
  note effect = memory_appendEntry_effect [OF 4(1) ok]
  have wf: "session_wf (ms_state s)" "session_wf (ms_state s')"
    using 4(1) memory_appendEntry_wf [OF 4(1) ok] by (auto simp: storage_wf_def)
  have i: "i \<in> entry_ids (ms_state s)" "i \<in> entry_ids (ms_state s')"
    using 4(3) wf effect(8) entry_index_has [of "ms_state s" i]
    by (auto simp: memory_ops_def getEntry_def session_wf_def js_has_iff_get entry_ids_def)
  show ?case
    using findEntriesOnBranch_eq [OF wf(1) i(1)] findEntriesOnBranch_eq [OF wf(2) i(2)]
      branch_of_kept [OF wf effect(8) i(1)] findEntriesOnBranch_invalid [of q]
    by (cases "valid_limit (q_limit q) \<and> valid_cursor (q_cursor q)") (simp_all add: memory_ops_def)
next
  case (5 s lane i)
  then show ?case
    by (auto simp: memory_ops_def getLanes_def getEntry_def storage_wf_def session_wf_def wf_refs_def
        entry_index_has [symmetric] js_has_iff_get)
next
  case (6 s i e)
  then show ?case
    by (auto simp: memory_ops_def getEntry_def storage_wf_def storage_used_def session_wf_def wf_ids_def
        entry_ids_def dest!: js_get_in_set)
next
  case (7 s now r s' rec)
  then show ?case by (simp add: memory_ops_def memory_appendRecord_wf)
next
  case (8 s lane at s')
  then show ?case by (simp add: memory_ops_def memory_createLane_wf)
next
  case (9 s lane to s')
  then show ?case by (simp add: memory_ops_def memory_moveLane_wf)
next
  case (10 s n s')
  then show ?case by (simp add: memory_ops_def memory_setName_wf)
next
  case (11 s i l s')
  then show ?case by (simp add: memory_ops_def memory_setLabel_wf)
qed

end
