(* ===== verification/Session_Json.thy ===== *)
theory Session_Json
  imports Recode_Prelude
begin

text \<open>
  \<^verbatim>\<open>assertJsonSerializable\<close> of \<^verbatim>\<open>packages/agent/src/harness/session-v4/session.ts\<close>, which decides
  whether a payload may be stored. It walks an object graph of the JavaScript heap, so the
  heap is explicit: objects are addressed cells, an array has its prototype, symbol keys,
  extra names and slots, another object its prototype, symbol keys and own properties.
  The walk keeps its own stack and the set of objects it is inside of.

  The heap may be cyclic and may share objects, so the loop is a \<open>partial_function\<close>; it is
  proved to end on every heap, and to accept a value exactly when the value unfolds to a
  finite tree of plain data.
\<close>

section \<open>The JavaScript heap\<close>

datatype js_value =
    VNull
  | VString string
  | VBool bool
  | VNumber "js_double option" \<comment> \<open>\<open>None\<close> for NaN and the infinities\<close>
  | VOther \<comment> \<open>undefined, a function, a symbol or a bigint\<close>
  | VRef nat

datatype js_property = DataProperty js_value | AccessorProperty

datatype js_prototype = ObjectPrototype | ArrayPrototype | NullPrototype | OtherPrototype

datatype js_object =
    ArrayObject js_prototype nat nat "js_property option list"
      \<comment> \<open>prototype, number of symbol keys, number of own names that are neither an index nor
          \<^verbatim>\<open>length\<close>, and the slots up to \<^verbatim>\<open>length\<close>, \<open>None\<close> for a hole\<close>
  | PlainObject js_prototype nat "(string \<times> bool \<times> js_property) list"
      \<comment> \<open>prototype, number of symbol keys, and the own named properties with enumerability\<close>

text \<open>
  An address outside the heap cannot be dereferenced; a value of the program has none, and
  the walk treats it as a value it does not support.
\<close>

type_synonym js_heap = "js_object list"

definition js_alloc :: "js_heap \<Rightarrow> js_object \<Rightarrow> js_heap \<times> js_value" where
  "js_alloc heap obj = (heap @ [obj], VRef (length heap))"

datatype payload_reason =
  NonFiniteNumber | UnsupportedType | PayloadCycle | NonStandardArray | ArrayProperties | SparseArray |
  ArrayAccessor | NonPlainObject | SymbolKey | NonEnumerableProperty | ObjectAccessor

datatype json_validation_frame = ValueFrame js_value | ExitFrame nat

section \<open>The walk\<close>

text \<open>The two loops that push the children, from the last to the first.\<close>

fun push_slots :: "js_property option list \<Rightarrow> json_validation_frame list \<Rightarrow> payload_reason + json_validation_frame list" where
  "push_slots [] stack = Inr stack"
| "push_slots (slot # slots) stack = (case slot of
      None \<Rightarrow> Inl SparseArray
    | Some AccessorProperty \<Rightarrow> Inl ArrayAccessor
    | Some (DataProperty v) \<Rightarrow> push_slots slots (ValueFrame v # stack))"

fun push_keys :: "(string \<times> bool \<times> js_property) list \<Rightarrow> json_validation_frame list \<Rightarrow> payload_reason + json_validation_frame list" where
  "push_keys [] stack = Inr stack"
| "push_keys ((_, _, d) # ps) stack = (case d of
      AccessorProperty \<Rightarrow> Inl ObjectAccessor
    | DataProperty v \<Rightarrow> push_keys ps (ValueFrame v # stack))"

definition own_names :: "nat \<Rightarrow> js_property option list \<Rightarrow> nat" where
  "own_names extra slots = length (filter (\<lambda>s. s \<noteq> None) slots) + extra + 1"

definition enter_object :: "js_object \<Rightarrow> json_validation_frame list \<Rightarrow> payload_reason + json_validation_frame list" where
  "enter_object obj stack = (case obj of
      ArrayObject proto symbols extra slots \<Rightarrow>
        if proto \<noteq> ArrayPrototype then Inl NonStandardArray
        else if symbols > 0 \<or> own_names extra slots \<noteq> length slots + 1 then Inl ArrayProperties
        else push_slots (rev slots) stack
    | PlainObject proto symbols props \<Rightarrow>
        if proto \<noteq> ObjectPrototype \<and> proto \<noteq> NullPrototype then Inl NonPlainObject
        else if symbols > 0 then Inl SymbolKey
        else let keys = filter (\<lambda>(_, enumerable, _). enumerable) props
             in if length props \<noteq> length keys then Inl NonEnumerableProperty
                else push_keys (rev keys) stack)"

text \<open>One round of the loop, on the popped frame and the rest of the stack.\<close>

definition json_step :: "js_heap \<Rightarrow> nat set \<Rightarrow> json_validation_frame \<Rightarrow> json_validation_frame list
    \<Rightarrow> payload_reason + nat set \<times> json_validation_frame list" where
  "json_step heap active frame stack = (case frame of
      ExitFrame a \<Rightarrow> Inr (active - {a}, stack)
    | ValueFrame v \<Rightarrow>
        (case v of
           VNull \<Rightarrow> Inr (active, stack)
         | VString _ \<Rightarrow> Inr (active, stack)
         | VBool _ \<Rightarrow> Inr (active, stack)
         | VNumber n \<Rightarrow> if n = None then Inl NonFiniteNumber else Inr (active, stack)
         | VOther \<Rightarrow> Inl UnsupportedType
         | VRef a \<Rightarrow>
             if \<not> a < length heap then Inl UnsupportedType
             else if a \<in> active then Inl PayloadCycle
             else bind_result (enter_object (heap ! a) (ExitFrame a # stack)) (\<lambda>stack'.
                  Inr (insert a active, stack'))))"

partial_function (option) json_loop :: "js_heap \<Rightarrow> nat set \<Rightarrow> json_validation_frame list \<Rightarrow> (payload_reason + unit) option" where
  "json_loop heap active stack = (case stack of
      [] \<Rightarrow> Some (Inr ())
    | frame # rest \<Rightarrow>
        (case json_step heap active frame rest of
           Inl reason \<Rightarrow> Some (Inl reason)
         | Inr (active', stack') \<Rightarrow> json_loop heap active' stack'))"

definition assertJsonSerializable :: "js_heap \<Rightarrow> js_value \<Rightarrow> (payload_reason + unit) option" where
  "assertJsonSerializable heap v = json_loop heap {} [ValueFrame v]"

section \<open>The recursive reading\<close>

text \<open>The failure of the first bad child from the end, or the values of all children.\<close>

definition children :: "js_object \<Rightarrow> payload_reason + js_value list" where
  "children obj = bind_result (enter_object obj []) (\<lambda>fs. Inr (map (\<lambda>f. case f of ValueFrame v \<Rightarrow> v | ExitFrame _ \<Rightarrow> VNull) fs))"

lemma push_slots_frames:
  "push_slots slots stack = (case push_slots slots [] of Inl r \<Rightarrow> Inl r | Inr fs \<Rightarrow> Inr (fs @ stack))"
proof (induction slots arbitrary: stack)
  case (Cons s slots)
  show ?case
  proof (cases s)
    case (Some d)
    show ?thesis
    proof (cases d)
      case (DataProperty v)
      then show ?thesis
        using Some Cons.IH [of "ValueFrame v # stack"] Cons.IH [of "[ValueFrame v]"] by (simp split: sum.splits)
    qed (simp add: Some)
  qed simp
qed simp

lemma push_keys_frames:
  "push_keys ps stack = (case push_keys ps [] of Inl r \<Rightarrow> Inl r | Inr fs \<Rightarrow> Inr (fs @ stack))"
proof (induction ps arbitrary: stack)
  case (Cons p ps)
  obtain k en d where p: "p = (k, en, d)" by (cases p)
  show ?case
  proof (cases d)
    case (DataProperty v)
    then show ?thesis
      using p Cons.IH [of "ValueFrame v # stack"] Cons.IH [of "[ValueFrame v]"] by (simp split: sum.splits)
  qed (simp add: p)
qed simp

lemma push_values:
  "push_slots slots [] = Inr fs \<Longrightarrow> \<exists>vs. fs = map ValueFrame vs"
  "push_keys ps [] = Inr fs \<Longrightarrow> \<exists>vs. fs = map ValueFrame vs"
proof -
  show "push_slots slots [] = Inr fs \<Longrightarrow> \<exists>vs. fs = map ValueFrame vs"
  proof (induction slots arbitrary: fs)
    case (Cons s slots)
    from Cons.prems obtain v where s: "s = Some (DataProperty v)" and ok: "push_slots slots [ValueFrame v] = Inr fs"
      by (auto split: option.splits js_property.splits)
    from ok push_slots_frames [of slots "[ValueFrame v]"] obtain gs where "push_slots slots [] = Inr gs" "fs = gs @ [ValueFrame v]"
      by (auto split: sum.splits)
    with Cons.IH obtain vs where "fs = map ValueFrame (vs @ [v])" by auto
    then show ?case by blast
  qed simp
  show "push_keys ps [] = Inr fs \<Longrightarrow> \<exists>vs. fs = map ValueFrame vs"
  proof (induction ps arbitrary: fs)
    case (Cons p ps)
    from Cons.prems obtain v where ok: "push_keys ps [ValueFrame v] = Inr fs"
      by (cases p) (auto split: js_property.splits)
    from ok push_keys_frames [of ps "[ValueFrame v]"] obtain gs where "push_keys ps [] = Inr gs" "fs = gs @ [ValueFrame v]"
      by (auto split: sum.splits)
    with Cons.IH obtain vs where "fs = map ValueFrame (vs @ [v])" by auto
    then show ?case by blast
  qed simp
qed

lemma enter_object_children:
  "enter_object obj stack = (case children obj of Inl r \<Rightarrow> Inl r | Inr vs \<Rightarrow> Inr (map ValueFrame vs @ stack))"
proof -
  have "enter_object obj stack = (case enter_object obj [] of Inl r \<Rightarrow> Inl r | Inr fs \<Rightarrow> Inr (fs @ stack))"
    by (cases obj) (auto simp: enter_object_def Let_def push_slots_frames [of _ stack] push_keys_frames [of _ stack])
  moreover have "\<exists>vs. fs = map ValueFrame vs" if "enter_object obj [] = Inr fs" for fs
    using that by (cases obj) (auto simp: enter_object_def Let_def split: if_splits dest: push_values)
  ultimately show ?thesis by (auto simp: children_def comp_def split: sum.splits)
qed

text \<open>The same check as a depth-first recursion over the values still to visit.\<close>

function check_values :: "js_heap \<Rightarrow> nat set \<Rightarrow> js_value list \<Rightarrow> payload_reason + unit" where
  "check_values heap active [] = Inr ()"
| "check_values heap active (v # vs) =
     bind_result (case v of
         VRef a \<Rightarrow>
           if \<not> a < length heap then Inl UnsupportedType
           else if a \<in> active then Inl PayloadCycle
           else (case children (heap ! a) of Inl r \<Rightarrow> Inl r | Inr cs \<Rightarrow> check_values heap (insert a active) cs)
       | VNumber None \<Rightarrow> Inl NonFiniteNumber
       | VOther \<Rightarrow> Inl UnsupportedType
       | _ \<Rightarrow> Inr ()) (\<lambda>_. check_values heap active vs)"
  by pat_completeness auto

termination
proof (relation "measures [\<lambda>(heap, active, vs). card ({..<length heap} - active), \<lambda>(heap, active, vs). length vs]", goal_cases)
  case (2 heap active v vs a cs)
  then have "{..<length heap} - insert a active \<subset> {..<length heap} - active" by auto
  then have "card ({..<length heap} - insert a active) < card ({..<length heap} - active)"
    by (intro psubset_card_mono) auto
  then show ?case by simp
qed auto

lemma json_loop_values:
  "json_loop heap active (map ValueFrame vs @ rest) =
     (case check_values heap active vs of Inl r \<Rightarrow> Some (Inl r) | Inr _ \<Rightarrow> json_loop heap active rest)"
proof (induction heap active vs arbitrary: rest rule: check_values.induct)
  case (2 heap active v vs)
  show ?case
  proof (cases "\<exists>a cs. v = VRef a \<and> a < length heap \<and> a \<notin> active \<and> children (heap ! a) = Inr cs")
    case True
    then obtain a cs where v: "v = VRef a" "a < length heap" "a \<notin> active" "children (heap ! a) = Inr cs" by blast
    have exit: "json_loop heap (insert a active) (ExitFrame a # xs) = json_loop heap active xs" for xs
      using v(3) by (subst json_loop.simps) (simp add: json_step_def)
    have "json_loop heap active (map ValueFrame (v # vs) @ rest) =
        json_loop heap (insert a active) (map ValueFrame cs @ ExitFrame a # map ValueFrame vs @ rest)"
      using v by (subst json_loop.simps) (simp add: json_step_def enter_object_children)
    also have "\<dots> = (case check_values heap (insert a active) cs of Inl r \<Rightarrow> Some (Inl r)
        | Inr _ \<Rightarrow> json_loop heap active (map ValueFrame vs @ rest))"
      using "2.IH"(1) [OF v(1) _ v(3) v(4)] v(2) by (simp add: exit split: sum.splits)
    finally show ?thesis using v "2.IH"(2) by (auto split: sum.splits)
  next
    case False
    then show ?thesis
      using "2.IH"(2)
      by (subst json_loop.simps)
        (auto simp: json_step_def enter_object_children split: js_value.splits sum.splits option.splits)
  qed
qed simp

text \<open>The walk ends on every heap, with the verdict of the recursion.\<close>

lemma assertJsonSerializable_eq: "assertJsonSerializable heap v = Some (check_values heap {} [v])"
proof -
  have "json_loop heap {} [] = Some (Inr ())" by (subst json_loop.simps) simp
  then show ?thesis
    using json_loop_values [of heap "{}" "[v]" "[]"] by (auto simp: assertJsonSerializable_def split: sum.splits)
qed

section \<open>Plain data\<close>

text \<open>
  What JSON data is, apart from the walk. The properties of a plain object or array are data properties that are enumerated, and
  there is nothing else in it: no symbol key, no hole, no name beside the indices of an array, no inherited behaviour.
\<close>

fun plain_object :: "js_object \<Rightarrow> js_value list \<Rightarrow> bool" where
  "plain_object (ArrayObject proto symbols extra slots) cs \<longleftrightarrow>
     proto = ArrayPrototype \<and> symbols = 0 \<and> extra = 0 \<and> slots = map (\<lambda>c. Some (DataProperty c)) cs"
| "plain_object (PlainObject proto symbols props) cs \<longleftrightarrow>
     (proto = ObjectPrototype \<or> proto = NullPrototype) \<and> symbols = 0 \<and> map snd props = map (\<lambda>c. (True, DataProperty c)) cs"

lemma push_slots_iff:
  "push_slots slots stack = Inr fs \<longleftrightarrow> (\<exists>cs. slots = map (\<lambda>c. Some (DataProperty c)) cs \<and> fs = rev (map ValueFrame cs) @ stack)"
proof (induction slots arbitrary: stack)
  case (Cons slot slots)
  then show ?case by (auto simp: map_eq_Cons_conv Cons_eq_map_conv split: option.splits js_property.splits)
qed auto

lemma push_keys_iff:
  "push_keys ps stack = Inr fs \<longleftrightarrow> (\<exists>cs. map (snd \<circ> snd) ps = map DataProperty cs \<and> fs = rev (map ValueFrame cs) @ stack)"
proof (induction ps arbitrary: stack)
  case (Cons p ps)
  then show ?case by (cases p) (auto simp: map_eq_Cons_conv Cons_eq_map_conv split: js_property.splits)
qed auto

lemma filter_all_length: "length xs = length (filter P xs) \<longleftrightarrow> (\<forall>x \<in> set xs. P x)"
  by (metis filter_id_conv length_filter_less less_irrefl)

lemma frame_values:
  "(\<exists>fs. (\<exists>ds. P ds \<and> fs = map ValueFrame ds) \<and> cs = map (\<lambda>f. case f of ValueFrame v \<Rightarrow> v | ExitFrame _ \<Rightarrow> VNull) fs) \<longleftrightarrow> P cs"
  by (auto simp: comp_def)

lemma children_iff: "children obj = Inr cs \<longleftrightarrow> plain_object obj cs"
proof (cases obj)
  case (ArrayObject proto symbols extra slots)
  have "length (filter (\<lambda>s. s \<noteq> None) (map (\<lambda>c. Some (DataProperty c)) cs)) = length cs" by (simp add: filter_map comp_def)
  then show ?thesis
    by (auto simp: ArrayObject children_def enter_object_def bind_result_Inr_iff push_slots_iff own_names_def rev_swap rev_map comp_def
        split: if_splits intro!: exI [of _ "map ValueFrame cs"] exI [of _ "rev cs"])
next
  case (PlainObject proto symbols props)
  have all: "map snd props = map (\<lambda>c. (True, DataProperty c)) ds \<longleftrightarrow>
      (\<forall>p \<in> set props. fst (snd p)) \<and> map (snd \<circ> snd) props = map DataProperty ds" for ds
    by (induction props arbitrary: ds) (auto simp: Cons_eq_map_conv map_eq_Cons_conv)
  have enumerated: "length props = length (filter (\<lambda>(_, enumerable, _). enumerable) props) \<longleftrightarrow> (\<forall>p \<in> set props. fst (snd p))"
    unfolding filter_all_length by auto
  have pushed: "push_keys (rev props) [] = Inr fs \<longleftrightarrow> (\<exists>ds. map (snd \<circ> snd) props = map DataProperty ds \<and> fs = map ValueFrame ds)" for fs
  proof -
    have "map (snd \<circ> snd) (rev props) = map DataProperty ds \<longleftrightarrow> map (snd \<circ> snd) props = map DataProperty (rev ds)" for ds
      unfolding rev_map [symmetric] by (metis rev_swap)
    then show ?thesis by (simp add: push_keys_iff) (metis rev_map rev_rev_ident)
  qed
  have every: "filter (\<lambda>(_, enumerable, _). enumerable) props = props" if "\<forall>p \<in> set props. fst (snd p)"
    using that by (intro filter_True) auto
  have "children obj = Inr cs \<longleftrightarrow> (proto = ObjectPrototype \<or> proto = NullPrototype) \<and> symbols = 0 \<and> (\<forall>p \<in> set props. fst (snd p)) \<and>
      (\<exists>fs. push_keys (rev props) [] = Inr fs \<and> cs = map (\<lambda>f. case f of ValueFrame v \<Rightarrow> v | ExitFrame _ \<Rightarrow> VNull) fs)"
    unfolding PlainObject children_def enter_object_def Let_def js_object.case enumerated
    by (auto simp: bind_result_Inr_iff every)
  then show ?thesis unfolding pushed frame_values by (simp only: PlainObject plain_object.simps all)
qed

text \<open>A value that unfolds to a finite tree of plain data.\<close>

inductive serializable :: "js_heap \<Rightarrow> js_value \<Rightarrow> bool" for heap where
  "serializable heap VNull"
| "serializable heap (VString s)"
| "serializable heap (VBool b)"
| "serializable heap (VNumber (Some n))"
| "a < length heap \<Longrightarrow> plain_object (heap ! a) cs \<Longrightarrow> (\<And>c. c \<in> set cs \<Longrightarrow> serializable heap c) \<Longrightarrow>
   serializable heap (VRef a)"

inductive_cases serializable_refE: "serializable heap (VRef a)"

definition child_of :: "js_heap \<Rightarrow> (js_value \<times> js_value) set" where
  "child_of heap = {(v, c). \<exists>a cs. v = VRef a \<and> a < length heap \<and> children (heap ! a) = Inr cs \<and> c \<in> set cs}"

lemma serializable_acyclic: "serializable heap v \<Longrightarrow> (v, v) \<notin> (child_of heap)\<^sup>+"
proof (induction rule: serializable.induct)
  case (5 a cs)
  show ?case
  proof
    assume "(VRef a, VRef a) \<in> (child_of heap)\<^sup>+"
    then obtain c where c: "(VRef a, c) \<in> child_of heap" "(c, VRef a) \<in> (child_of heap)\<^sup>*"
      by (metis tranclD)
    then have "(c, c) \<in> (child_of heap)\<^sup>+" by (metis rtrancl_into_trancl1)
    moreover have "c \<in> set cs" using c(1) 5(2) by (auto simp: child_of_def children_iff [symmetric])
    ultimately show False using 5 by blast
  qed
qed (auto simp: child_of_def elim: tranclE dest: tranclD)

lemma check_values_serializable: "check_values heap active vs = Inr u \<Longrightarrow> \<forall>v \<in> set vs. serializable heap v"
proof (induction heap active vs rule: check_values.induct)
  case (2 heap active v vs)
  have "serializable heap v"
  proof (cases v)
    case (VRef a)
    with "2.prems" obtain cs where "a < length heap" "a \<notin> active" "children (heap ! a) = Inr cs"
        "check_values heap (insert a active) cs = Inr ()"
      by (auto simp: bind_result_Inr_iff split: if_splits sum.splits)
    with "2.IH"(1) [OF VRef] show ?thesis by (auto simp: VRef children_iff [symmetric] intro: serializable.intros)
  qed (use "2.prems" in \<open>auto simp: bind_result_Inr_iff intro: serializable.intros split: option.splits\<close>)
  with "2" show ?case by (auto simp: bind_result_Inr_iff)
qed simp

lemma serializable_check_values:
  assumes "\<And>v. v \<in> set vs \<Longrightarrow> serializable heap v"
    and "\<And>v a. v \<in> set vs \<Longrightarrow> a \<in> active \<Longrightarrow> (v, VRef a) \<notin> (child_of heap)\<^sup>*"
  shows "check_values heap active vs = Inr ()"
  using assms
proof (induction heap active vs rule: check_values.induct)
  case (2 heap active v vs)
  have "(case v of
         VRef a \<Rightarrow>
           if \<not> a < length heap then Inl UnsupportedType
           else if a \<in> active then Inl PayloadCycle
           else (case children (heap ! a) of Inl r \<Rightarrow> Inl r | Inr cs \<Rightarrow> check_values heap (insert a active) cs)
       | VNumber None \<Rightarrow> Inl NonFiniteNumber
       | VOther \<Rightarrow> Inl UnsupportedType
       | _ \<Rightarrow> Inr ()) = Inr ()"
  proof (cases v)
    case (VRef a)
    then have ser: "serializable heap (VRef a)" using "2.prems"(1) by simp
    then obtain cs where a: "a < length heap" "children (heap ! a) = Inr cs" "\<And>c. c \<in> set cs \<Longrightarrow> serializable heap c"
      by (auto simp: children_iff elim: serializable_refE)
    have act: "a \<notin> active" using "2.prems"(2) [of v a] VRef by auto
    have step: "c \<in> set cs \<Longrightarrow> (VRef a, c) \<in> child_of heap" for c using a by (auto simp: child_of_def)
    have "(c, VRef b) \<notin> (child_of heap)\<^sup>*" if c: "c \<in> set cs" and b: "b \<in> insert a active" for c b
    proof
      assume path: "(c, VRef b) \<in> (child_of heap)\<^sup>*"
      show False
      proof (cases "b = a")
        case True
        with path step [OF c] have "(VRef a, VRef a) \<in> (child_of heap)\<^sup>+" by (metis rtrancl_into_trancl2)
        then show False using serializable_acyclic [OF ser] by blast
      next
        case False
        with b have "b \<in> active" by simp
        with "2.prems"(2) [of v b] path step [OF c] VRef show False by (metis converse_rtrancl_into_rtrancl list.set_intros(1))
      qed
    qed
    then have "check_values heap (insert a active) cs = Inr ()"
      using "2.IH"(1) [OF VRef _ act a(2)] a by blast
    then show ?thesis using VRef a act by simp
  qed (use "2.prems"(1) [of v] in \<open>auto elim: serializable.cases split: option.splits\<close>)
  then show ?case using "2.IH"(2) "2.prems" by simp
qed simp

lemma check_values_iff: "check_values heap {} [v] = Inr () \<longleftrightarrow> serializable heap v"
  using check_values_serializable [of heap "{}" "[v]" "()"] serializable_check_values [of "[v]" heap "{}"] by auto

end
