(* ===== verification/Session_Facade.thy ===== *)
theory Session_Facade
  imports Session_Memory Session_Json
begin

text \<open>
  The \<^verbatim>\<open>Session\<close> class of \<^verbatim>\<open>packages/agent/src/harness/session-v4/session.ts\<close>: a facade over a
  storage that validates queries and payloads and offers one view for each lane. Its methods are
  functions of a storage's operations (\<open>storage_ops\<close>) and its state; ids from the
  \<^verbatim>\<open>idGenerator\<close> and times are arguments. A payload comes twice, as the heap value that
  \<^verbatim>\<open>assertJsonSerializable\<close> walks and as the typed data that the storage keeps.

  The lemmas about views are proved from the storage contract alone, inside the locale
  \<open>session_storage\<close>, and hold for every storage that meets it.
\<close>

section \<open>Reading\<close>

definition facade_limit :: "js_num option \<Rightarrow> session_error + unit" where
  "facade_limit limit = (case limit of
      None \<Rightarrow> Inr ()
    | Some JsNonInt \<Rightarrow> Inl InvalidQuery
    | Some (JsInt n) \<Rightarrow> guard_result (0 < n) InvalidQuery)"

definition facade_cursor :: "js_num option \<Rightarrow> session_error + unit" where
  "facade_cursor afterSeq = (case afterSeq of
      None \<Rightarrow> Inr ()
    | Some JsNonInt \<Rightarrow> Inl InvalidQuery
    | Some (JsInt n) \<Rightarrow> guard_result (0 \<le> n) InvalidQuery)"

definition getLeafIdForLane :: "'s storage_ops \<Rightarrow> 's \<Rightarrow> string \<Rightarrow> session_error + string option" where
  "getLeafIdForLane ops s lane = (case find (\<lambda>(l, _). l = lane) (so_getLanes ops s) of
      None \<Rightarrow> Inl InvalidLane
    | Some (_, leafId) \<Rightarrow> Inr leafId)"

text \<open>\<open>resultLimit\<close> is \<open>None\<close> when the caller passes no second argument.\<close>

definition with_limit :: "entry_query \<Rightarrow> js_num option \<Rightarrow> entry_query" where
  "with_limit q resultLimit = (case resultLimit of None \<Rightarrow> q | Some n \<Rightarrow> q\<lparr>q_limit := Some n\<rparr>)"

definition queryEntries :: "'s storage_ops \<Rightarrow> 's \<Rightarrow> entry_query \<Rightarrow> js_num option \<Rightarrow> session_error + entry list" where
  "queryEntries ops s q resultLimit =
     bind_result (facade_limit (q_limit q)) (\<lambda>_.
     bind_result (facade_cursor (q_cursor q)) (\<lambda>_.
     so_findEntries ops s (with_limit q resultLimit)))"

definition queryBranchEntries :: "'s storage_ops \<Rightarrow> 's \<Rightarrow> string \<Rightarrow> entry_query \<Rightarrow> branch_bounds \<Rightarrow> js_num option
    \<Rightarrow> session_error + entry list" where
  "queryBranchEntries ops s lane q b resultLimit =
     bind_result (facade_limit (q_limit q)) (\<lambda>_.
     bind_result (facade_cursor (q_cursor q)) (\<lambda>_.
     bind_result (case b_start b of Some i \<Rightarrow> Inr (Some i) | None \<Rightarrow> getLeafIdForLane ops s lane) (\<lambda>start.
     case start of
       None \<Rightarrow> Inr []
     | Some i \<Rightarrow> so_findEntriesOnBranch ops s (with_limit q resultLimit) (b\<lparr>b_start := Some i\<rparr>) i)))"

definition queryRecords :: "'s storage_ops \<Rightarrow> 's \<Rightarrow> record_query \<Rightarrow> session_error + lane_record list" where
  "queryRecords ops s q =
     bind_result (facade_limit (rq_limit q)) (\<lambda>_.
     bind_result (facade_cursor (rq_afterSeq q)) (\<lambda>_.
     bind_result (guard_result (\<not> (rq_operationKind q \<noteq> None \<and> rq_type q \<noteq> Some OperationStartedT)) InvalidQuery) (\<lambda>_.
     so_findRecords ops s q)))"

definition queryLog :: "'s storage_ops \<Rightarrow> 's \<Rightarrow> log_options \<Rightarrow> session_error + log_item list" where
  "queryLog ops s opts =
     bind_result (facade_limit (lo_limit opts)) (\<lambda>_.
     bind_result (facade_cursor (lo_afterSeq opts)) (\<lambda>_.
     so_getLog ops s opts))"

definition facade_findOpenOperations :: "'s storage_ops \<Rightarrow> 's \<Rightarrow> string \<Rightarrow> js_num option \<Rightarrow> session_error + lane_record list" where
  "facade_findOpenOperations ops s lane limit =
     bind_result (facade_limit limit) (\<lambda>_. so_findOpenOperations ops s lane limit)"

text \<open>\<^verbatim>\<open>findEntry\<close> and \<^verbatim>\<open>findEntryOnBranch\<close>: the first result of a query limited to one.\<close>

definition first_result :: "session_error + 'a list \<Rightarrow> session_error + 'a option" where
  "first_result r = map_sum id (\<lambda>xs. case xs of [] \<Rightarrow> None | x # _ \<Rightarrow> Some x) r"

section \<open>Writing\<close>

definition check_payload :: "js_heap \<Rightarrow> js_value \<Rightarrow> session_error + unit" where
  "check_payload heap v = (case assertJsonSerializable heap v of Some (Inr _) \<Rightarrow> Inr () | _ \<Rightarrow> Inl InvalidPayload)"

definition commitEntry :: "'s storage_ops \<Rightarrow> 's \<Rightarrow> int \<Rightarrow> js_heap \<Rightarrow> js_value \<Rightarrow> provisioned_entry \<Rightarrow> string
    \<Rightarrow> session_error + 's \<times> entry" where
  "commitEntry ops s now heap raw p lane =
     bind_result (check_payload heap raw) (\<lambda>_. so_appendEntry ops s now p lane)"

definition commitRecord :: "'s storage_ops \<Rightarrow> 's \<Rightarrow> int \<Rightarrow> js_heap \<Rightarrow> js_value \<Rightarrow> new_record
    \<Rightarrow> session_error + 's \<times> lane_record" where
  "commitRecord ops s now heap raw n =
     bind_result (check_payload heap raw) (\<lambda>_. so_appendRecord ops s now n)"

text \<open>An object literal.\<close>

definition js_literal :: "js_heap \<Rightarrow> (string \<times> js_value) list \<Rightarrow> js_heap \<times> js_value" where
  "js_literal heap props = js_alloc heap (PlainObject ObjectPrototype 0 (map (\<lambda>(k, v). (k, True, DataProperty v)) props))"

definition appendMessageToLane :: "'s storage_ops \<Rightarrow> 's \<Rightarrow> int \<Rightarrow> string \<Rightarrow> js_heap \<Rightarrow> string \<Rightarrow> js_value \<times> agent_message
    \<Rightarrow> session_error + 's \<times> string" where
  "appendMessageToLane ops s now nextId heap lane message =
     (let (heap', raw) = js_literal heap
            [(''type'', VString ''message''), (''id'', VString nextId), (''message'', fst message)]
      in bind_result (commitEntry ops s now heap' raw \<lparr>p_id = nextId, p_body = MessageEntry (snd message) False\<rparr> lane)
           (\<lambda>(s', e). Inr (s', e_id e)))"

definition appendCustomEntryToLane :: "'s storage_ops \<Rightarrow> 's \<Rightarrow> int \<Rightarrow> string \<Rightarrow> js_heap \<Rightarrow> string \<Rightarrow> string
    \<Rightarrow> (js_value \<times> json) option \<Rightarrow> session_error + 's \<times> string" where
  "appendCustomEntryToLane ops s now nextId heap lane customType data =
     (let (heap', raw) = js_literal heap
            ([(''type'', VString ''custom''), (''id'', VString nextId), (''customType'', VString customType)] @
             (case data of None \<Rightarrow> [] | Some (v, _) \<Rightarrow> [(''data'', v)]))
      in bind_result (commitEntry ops s now heap' raw
             \<lparr>p_id = nextId, p_body = CustomEntry customType (map_option snd data)\<rparr> lane)
           (\<lambda>(s', e). Inr (s', e_id e)))"

section \<open>Views\<close>

text \<open>
  The methods of a \<^verbatim>\<open>SessionTree\<close> whose result depends on the lane; \<^verbatim>\<open>view("main")\<close> is the
  session itself, whose methods name the lane \<^verbatim>\<open>main\<close>.
\<close>

record 's session_view =
  sv_getLeafId :: "'s \<Rightarrow> session_error + string option"
  sv_findEntriesOnBranch :: "'s \<Rightarrow> entry_query \<Rightarrow> branch_bounds \<Rightarrow> session_error + entry list"
  sv_findEntryOnBranch :: "'s \<Rightarrow> entry_query \<Rightarrow> branch_bounds \<Rightarrow> session_error + entry option"
  sv_findEntries :: "'s \<Rightarrow> entry_query \<Rightarrow> session_error + entry list"
  sv_findEntry :: "'s \<Rightarrow> entry_query \<Rightarrow> session_error + entry option"
  sv_appendMessage :: "'s \<Rightarrow> int \<Rightarrow> string \<Rightarrow> js_heap \<Rightarrow> js_value \<times> agent_message \<Rightarrow> session_error + 's \<times> string"
  sv_appendCustomEntry :: "'s \<Rightarrow> int \<Rightarrow> string \<Rightarrow> js_heap \<Rightarrow> string \<Rightarrow> (js_value \<times> json) option \<Rightarrow> session_error + 's \<times> string"

definition lane_view :: "'s storage_ops \<Rightarrow> string \<Rightarrow> 's session_view" where
  "lane_view ops lane = \<lparr>
     sv_getLeafId = (\<lambda>s. getLeafIdForLane ops s lane),
     sv_findEntriesOnBranch = (\<lambda>s q b. queryBranchEntries ops s lane q b None),
     sv_findEntryOnBranch = (\<lambda>s q b. first_result (queryBranchEntries ops s lane q b (Some (JsInt 1)))),
     sv_findEntries = (\<lambda>s q. queryEntries ops s q None),
     sv_findEntry = (\<lambda>s q. first_result (queryEntries ops s q (Some (JsInt 1)))),
     sv_appendMessage = (\<lambda>s now i heap m. appendMessageToLane ops s now i heap lane m),
     sv_appendCustomEntry = (\<lambda>s now i heap c d. appendCustomEntryToLane ops s now i heap lane c d)\<rparr>"

section \<open>Payloads\<close>

lemma check_payload_iff: "check_payload heap v = Inr u \<longleftrightarrow> serializable heap v"
proof -
  have "check_payload heap v = Inr () \<longleftrightarrow> check_values heap {} [v] = Inr ()"
    by (simp add: check_payload_def assertJsonSerializable_eq del: check_values.simps split: sum.splits)
  then show ?thesis by (simp add: check_values_iff del: check_values.simps)
qed

lemma check_payload_cases: "check_payload heap v = (if serializable heap v then Inr () else Inl InvalidPayload)"
proof (cases "check_payload heap v")
  case (Inl e)
  moreover from Inl have "e = InvalidPayload"
    by (auto simp: check_payload_def split: option.splits sum.splits)
  ultimately show ?thesis using check_payload_iff [of heap v "()"] by auto
next
  case (Inr u)
  then show ?thesis using check_payload_iff [of heap v u] by simp
qed

lemma getLeafIdForLane_eq:
  "getLeafIdForLane ops s lane = (case js_get (so_getLanes ops s) lane of None \<Rightarrow> Inl InvalidLane | Some leaf \<Rightarrow> Inr leaf)"
proof -
  have "find (\<lambda>(l, _). l = lane) m = map_option (\<lambda>leaf. (lane, leaf)) (js_get m lane)"
    for m :: "(string, string option) js_map"
    by (induction m) auto
  then show ?thesis by (simp add: getLeafIdForLane_def split: option.splits)
qed

section \<open>What a view promises\<close>

context session_storage
begin

lemma append_message_cases:
  assumes "appendMessageToLane ops s now i heap lane m = Inr (s', r)"
  obtains e where "so_appendEntry ops s now \<lparr>p_id = i, p_body = MessageEntry (snd m) False\<rparr> lane = Inr (s', e)" "r = e_id e"
  using assms by (auto simp: appendMessageToLane_def js_literal_def js_alloc_def commitEntry_def bind_result_Inr_iff)

lemma append_message_leaf:
  assumes "inv s" "appendMessageToLane ops s now i heap lane m = Inr (s', r)"
  shows "inv s' \<and> r = i \<and> getLeafIdForLane ops s' lane = Inr (Some i)"
proof -
  obtain e where e: "so_appendEntry ops s now \<lparr>p_id = i, p_body = MessageEntry (snd m) False\<rparr> lane = Inr (s', e)" "r = e_id e"
    using assms(2) by (rule append_message_cases)
  then show ?thesis using append_entry_effect [OF assms(1) e(1)] by (simp add: getLeafIdForLane_eq)
qed

lemma append_message_accepts:
  assumes "inv s"
  shows "(\<exists>r. appendMessageToLane ops s now i heap lane m = Inr r) \<longleftrightarrow>
     js_has (so_getLanes ops s) lane \<and> i \<notin> used s \<and>
     (let (heap', raw) = js_literal heap
        [(''type'', VString ''message''), (''id'', VString i), (''message'', fst m)] in serializable heap' raw)"
proof -
  obtain heap' raw where raw: "js_literal heap
      [(''type'', VString ''message''), (''id'', VString i), (''message'', fst m)] = (heap', raw)" by fastforce
  have "(\<exists>r. appendMessageToLane ops s now i heap lane m = Inr r) \<longleftrightarrow> serializable heap' raw \<and>
      (\<exists>r. so_appendEntry ops s now \<lparr>p_id = i, p_body = MessageEntry (snd m) False\<rparr> lane = Inr r)"
    by (auto simp: appendMessageToLane_def raw commitEntry_def check_payload_iff bind_result_Inr_iff)
  then show ?thesis using append_entry_accepts [OF assms] by (auto simp: raw)
qed

text \<open>Reading a lane's branch after an append: the new message first, then what was there.\<close>

lemma append_message_branch:
  assumes "inv s" "appendMessageToLane ops s now i heap lane m = Inr (s', r)"
  shows "\<exists>e. e_id e = i \<and> e_body e = MessageEntry (snd m) False \<and>
     map_sum id (\<lambda>es. e # es) (queryBranchEntries ops s lane newest_first (whole_branch None) None) =
     queryBranchEntries ops s' lane newest_first (whole_branch None) None"
proof -
  obtain e where e: "so_appendEntry ops s now \<lparr>p_id = i, p_body = MessageEntry (snd m) False\<rparr> lane = Inr (s', e)"
    using assms(2) by (rule append_message_cases)
  have query: "queryBranchEntries ops t lane newest_first (whole_branch None) None =
      (case js_get (so_getLanes ops t) lane of
         None \<Rightarrow> Inl InvalidLane
       | Some None \<Rightarrow> Inr []
       | Some (Some j) \<Rightarrow> so_findEntriesOnBranch ops t newest_first (whole_branch (Some j)) j)" for t
    by (simp add: queryBranchEntries_def newest_first_def facade_limit_def facade_cursor_def whole_branch_def
        with_limit_def getLeafIdForLane_eq split: option.splits)
  note effect = append_entry_effect [OF assms(1) e]
  show ?thesis
    using effect append_entry_branch [OF assms(1) e]
    by (intro exI [of _ e]) (auto simp: query split: option.splits)
qed

text \<open>Other lanes do not see the append.\<close>

lemma append_message_isolated:
  assumes "inv s" "appendMessageToLane ops s now i heap lane m = Inr (s', r)" "lane' \<noteq> lane"
    and start: "\<And>j. b_start b = Some j \<Longrightarrow> so_getEntry ops s j \<noteq> None"
  shows "getLeafIdForLane ops s' lane' = getLeafIdForLane ops s lane' \<and>
    queryBranchEntries ops s' lane' q b limit = queryBranchEntries ops s lane' q b limit"
proof -
  obtain e where e: "so_appendEntry ops s now \<lparr>p_id = i, p_body = MessageEntry (snd m) False\<rparr> lane = Inr (s', e)"
    using assms(2) by (rule append_message_cases)
  have leaf: "getLeafIdForLane ops s' lane' = getLeafIdForLane ops s lane'"
    using append_entry_effect [OF assms(1) e] assms(3) by (simp add: getLeafIdForLane_eq)
  have keep: "so_getEntry ops s j \<noteq> None \<Longrightarrow>
      so_findEntriesOnBranch ops s' q' b' j = so_findEntriesOnBranch ops s q' b' j" for j q' b'
    by (rule append_entry_keeps_branches [OF assms(1) e])
  have "so_getEntry ops s j \<noteq> None" if "getLeafIdForLane ops s lane' = Inr (Some j)" for j
    using that lanes_point_at_entries [OF assms(1), of lane' j] by (auto simp: getLeafIdForLane_eq split: option.splits)
  then have "bind_result (getLeafIdForLane ops s lane') (\<lambda>start. case start of None \<Rightarrow> Inr []
      | Some j \<Rightarrow> so_findEntriesOnBranch ops s' q' (b\<lparr>b_start := Some j\<rparr>) j) =
    bind_result (getLeafIdForLane ops s lane') (\<lambda>start. case start of None \<Rightarrow> Inr []
      | Some j \<Rightarrow> so_findEntriesOnBranch ops s q' (b\<lparr>b_start := Some j\<rparr>) j)" for q'
    by (cases "getLeafIdForLane ops s lane'") (auto simp: keep split: option.splits)
  then show ?thesis
    using leaf start by (cases "b_start b") (auto simp: queryBranchEntries_def keep)
qed

end

end
