(* ===== verification/Session_Reducer.thy ===== *)
theory Session_Reducer
  imports Session_Types
begin

text \<open>
  \<^verbatim>\<open>packages/agent/src/harness/session-v4/reducer.ts\<close>: validation of a lane's durable record
  log and the pure reconstruction of the lane's orchestration state from it. A thrown
  \<^verbatim>\<open>RecordLogCorruption\<close> is its reason on the left of a sum.

  \<^verbatim>\<open>structuredClone\<close> and array copies return equal values and are not written out. The
  invocation key \<^verbatim>\<open>`${assistantEntryId}\u0000${toolIndex}`\<close> is the pair it spells:
  the decimal after the last NUL determines it.
\<close>

section \<open>Inputs, outputs and errors\<close>

datatype corruption_reason =
    MultipleOpenOperations
  | UnknownOperation
  | RecordAfterFinish
  | NonConsecutiveAttempt
  | InvalidCompactionReason
  | QueueAfterAbort
  | InvalidQueueCancellation
  | InconsistentStep
  | ToolCallMismatch
  | DuplicateToolInvocation
  | ProvisionedEntryMismatch
  | InvalidDeferredHandle

record log_slice =
  ls_lane :: string
  ls_openOperations :: "operation_started list"
  ls_records :: "lane_record list"
  ls_entries :: "entry list"

record lane_configuration =
  lc_model :: "string \<times> string" \<comment> \<open>\<^verbatim>\<open>provider\<close>, \<^verbatim>\<open>modelId\<close>\<close>
  lc_thinkingLevel :: string
  lc_activeToolNames :: "string list"

datatype failure_source = StepFailure | DeferredFetchFailure

record terminal_failure =
  tf_entryId :: string
  tf_source :: failure_source
  tf_message :: assistant_message

record tool_call_state =
  cs_toolIndex :: nat
  cs_toolCall :: tool_call
  cs_started :: "lane_record option"
  cs_resultExists :: bool
  cs_terminate :: bool

record tool_batch_state =
  tb_assistantEntryId :: string
  tb_calls :: "tool_call_state list"
  tb_truncated :: bool
  tb_unresolved :: bool

record step_state =
  ss_kind :: step_kind
  ss_attempts :: int
  ss_resultEntryId :: string
  ss_compactionReason :: "reason_value option"

record newest_own =
  no_entryId :: string
  no_type :: entry_type
  no_role :: "role option"
  no_stopReason :: "stop_reason option"

record operation_targets =
  ot_result :: "bool option"
  ot_summary :: "bool option"

record operation_state =
  os_id :: string
  os_kind :: operation_kind
  os_intent :: intent
  os_aborting :: bool
  os_step :: "step_state option"
  os_toolBatch :: "tool_batch_state option"
  os_missingInitialMessages :: "provisioned_entry list"
  os_pendingSteer :: "provisioned_entry list"
  os_pendingFollowUp :: "provisioned_entry list"
  os_pendingWrites :: "provisioned_entry list"
  os_deferred :: "deferred_handle option"
  os_overflowRecoveryUsed :: bool
  os_newestOwn :: "newest_own option"
  os_targets :: operation_targets

record lane_state =
  st_lane :: string
  st_leafId :: "string option"
  st_operation :: "operation_state option"
  st_pendingNextRun :: "provisioned_entry list"

record lane_reduction_input =
  in_slice :: log_slice
  in_leafId :: "string option"
  in_ownEntries :: "entry list"
  in_configurationEntries :: "entry list"
  in_defaults :: lane_configuration

record lane_reduction_result =
  rr_laneState :: lane_state
  rr_effectiveConfiguration :: lane_configuration
  rr_terminalFailure :: "terminal_failure option"

section \<open>Checks of single records\<close>

type_synonym entry_index = "(string, entry) js_map"

definition index_entries :: "entry list \<Rightarrow> entry_index" where
  "index_entries es = js_map_of (map (\<lambda>e. (e_id e, e)) es)"

definition matchesProvisionedEntry :: "entry \<Rightarrow> provisioned_entry \<Rightarrow> bool" where
  "matchesProvisionedEntry e target \<longleftrightarrow> e_id e = p_id target \<and> e_body e = p_body target"

definition validateExactProvisionedEntry :: "entry_index \<Rightarrow> provisioned_entry \<Rightarrow> corruption_reason + unit" where
  "validateExactProvisionedEntry byId target = (case js_get byId (p_id target) of
      None \<Rightarrow> Inr ()
    | Some e \<Rightarrow> guard_result (matchesProvisionedEntry e target) ProvisionedEntryMismatch)"

definition validateResultEntry :: "entry_index \<Rightarrow> string \<Rightarrow> (entry \<Rightarrow> bool) \<Rightarrow> corruption_reason + unit" where
  "validateResultEntry byId resultEntryId matches = (case js_get byId resultEntryId of
      None \<Rightarrow> Inr ()
    | Some e \<Rightarrow> guard_result (matches e) ProvisionedEntryMismatch)"

text \<open>The fields of a \<^verbatim>\<open>step_attempt\<close> record.\<close>

record step_attempt =
  sa_seq :: int
  sa_step :: step_kind
  sa_attempt :: int
  sa_resultEntryId :: string
  sa_compactionReason :: "reason_value option"

definition valid_reason :: "reason_value option \<Rightarrow> bool" where
  "valid_reason r \<longleftrightarrow> r = Some ManualReason \<or> r = Some ThresholdReason \<or> r = Some OverflowReason"

definition validateAttemptReason :: "step_attempt \<Rightarrow> corruption_reason + unit" where
  "validateAttemptReason a =
     (if sa_step a = CompactionStep
      then guard_result (valid_reason (sa_compactionReason a)) InvalidCompactionReason
      else guard_result (sa_compactionReason a = None) InvalidCompactionReason)"

definition continues_series :: "entry_index \<Rightarrow> step_attempt \<Rightarrow> step_attempt \<Rightarrow> bool" where
  "continues_series byId previous a \<longleftrightarrow> sa_step previous = sa_step a \<and>
     (case js_get byId (sa_resultEntryId previous) of None \<Rightarrow> True | Some e \<Rightarrow> e_seq e \<ge> sa_seq a)"

definition validateAttemptSequence :: "step_attempt \<Rightarrow> step_attempt option \<Rightarrow> entry_index \<Rightarrow> corruption_reason + unit" where
  "validateAttemptSequence a previous byId =
     (case previous of
        None \<Rightarrow> guard_result (sa_attempt a = 1) NonConsecutiveAttempt
      | Some p \<Rightarrow>
          if \<not> continues_series byId p a then guard_result (sa_attempt a = 1) NonConsecutiveAttempt
          else bind_result (guard_result (sa_attempt a = sa_attempt p + 1) NonConsecutiveAttempt) (\<lambda>_.
               if sa_step a = AssistantStep then Inr ()
               else bind_result (guard_result (sa_resultEntryId a = sa_resultEntryId p) InconsistentStep) (\<lambda>_.
                    guard_result (sa_compactionReason a = sa_compactionReason p) InconsistentStep)))"

definition validateAttemptResult :: "entry_index \<Rightarrow> step_attempt \<Rightarrow> corruption_reason + unit" where
  "validateAttemptResult byId a = validateResultEntry byId (sa_resultEntryId a)
     (case sa_step a of
        AssistantStep \<Rightarrow> (\<lambda>e. e_assistant e \<noteq> None)
      | CompactionStep \<Rightarrow> (\<lambda>e. e_type e = CompactionT)
      | BranchSummaryStep \<Rightarrow> (\<lambda>e. e_type e = BranchSummaryT))"

record tool_start =
  ts_assistantEntryId :: string
  ts_toolIndex :: int
  ts_toolCallId :: string
  ts_toolName :: string
  ts_resultEntryId :: string

definition started_call :: "entry_index \<Rightarrow> tool_start \<Rightarrow> tool_call option" where
  "started_call byId t = (case js_get byId (ts_assistantEntryId t) of
      None \<Rightarrow> None
    | Some e \<Rightarrow> (case e_assistant e of
          None \<Rightarrow> None
        | Some m \<Rightarrow> index_opt (tool_calls_of (am_content m)) (ts_toolIndex t)))"

definition matches_tool_result :: "tool_start \<Rightarrow> entry \<Rightarrow> bool" where
  "matches_tool_result t e \<longleftrightarrow> (case e_tool_result e of
      None \<Rightarrow> False
    | Some m \<Rightarrow> tr_toolCallId m = ts_toolCallId t \<and> tr_toolName m = ts_toolName t)"

definition validateToolStart :: "tool_start \<Rightarrow> entry_index \<Rightarrow> (string \<times> int) set \<Rightarrow> corruption_reason + (string \<times> int) set" where
  "validateToolStart t byId invocations =
     (let invocation = (ts_assistantEntryId t, ts_toolIndex t) in
      bind_result (guard_result (invocation \<notin> invocations) DuplicateToolInvocation) (\<lambda>_.
      bind_result (guard_result (case started_call byId t of
            None \<Rightarrow> False
          | Some c \<Rightarrow> tc_id c = ts_toolCallId t \<and> tc_name c = ts_toolName t) ToolCallMismatch) (\<lambda>_.
      bind_result (validateResultEntry byId (ts_resultEntryId t) (matches_tool_result t)) (\<lambda>_.
      Inr (insert invocation invocations)))))"

definition lacks_handle :: "entry \<Rightarrow> bool" where
  "lacks_handle e \<longleftrightarrow> (case e_assistant e of
      None \<Rightarrow> False
    | Some m \<Rightarrow> am_stopReason m = DeferredStop \<and> am_deferred m = None)"

definition validateDeferredHandles :: "entry list \<Rightarrow> corruption_reason + unit" where
  "validateDeferredHandles es = guard_result (\<not> (\<exists>e \<in> set es. lacks_handle e)) InvalidDeferredHandle"

fun validate_all_exact :: "entry_index \<Rightarrow> provisioned_entry list \<Rightarrow> corruption_reason + unit" where
  "validate_all_exact byId [] = Inr ()"
| "validate_all_exact byId (t # ts) =
     bind_result (validateExactProvisionedEntry byId t) (\<lambda>_. validate_all_exact byId ts)"

definition validateOperationResult :: "entry_index \<Rightarrow> intent \<Rightarrow> corruption_reason + unit" where
  "validateOperationResult byId i = (case i of
      RunIntent _ initialMessages _ _ \<Rightarrow> validate_all_exact byId initialMessages
    | CompactionIntent _ resultEntryId \<Rightarrow> validateResultEntry byId resultEntryId (\<lambda>e. e_type e = CompactionT)
    | NavigationIntent _ _ _ _ summaryEntryId \<Rightarrow>
        (case summaryEntryId of
           None \<Rightarrow> Inr ()
         | Some s \<Rightarrow> if s = '''' then Inr ()
                     else validateResultEntry byId s (\<lambda>e. e_type e = BranchSummaryT)))"

section \<open>The validation loop\<close>

record log_check =
  lk_starts :: "(string, lane_record) js_map"
  lk_finishedAt :: "(string, int) js_map"
  lk_abortedAt :: "(string, int) js_map"
  lk_queueEnqueues :: "(string, lane_record) js_map"
  lk_latestAttempt :: "(string, step_attempt) js_map"
  lk_toolInvocations :: "(string \<times> int) set"

definition init_check :: log_check where
  "init_check = \<lparr>lk_starts = [], lk_finishedAt = [], lk_abortedAt = [], lk_queueEnqueues = [],
     lk_latestAttempt = [], lk_toolInvocations = {}\<rparr>"

definition check_run :: "log_check \<Rightarrow> lane_record \<Rightarrow> corruption_reason + unit" where
  "check_run k r = (case r_runId r of
      None \<Rightarrow> Inr ()
    | Some run \<Rightarrow>
        bind_result (guard_result (js_has (lk_starts k) run) UnknownOperation) (\<lambda>_.
        case js_get (lk_finishedAt k) run of
          None \<Rightarrow> Inr ()
        | Some finishSeq \<Rightarrow> guard_result (\<not> r_seq r > finishSeq) RecordAfterFinish))"

definition enqueued_after_abort :: "log_check \<Rightarrow> lane_record \<Rightarrow> queue \<Rightarrow> string option \<Rightarrow> bool" where
  "enqueued_after_abort k r q run \<longleftrightarrow> q \<noteq> NextRunQueue \<and>
     (case run of None \<Rightarrow> False | Some i \<Rightarrow>
        (case js_get (lk_abortedAt k) i of None \<Rightarrow> False | Some s \<Rightarrow> r_seq r > s))"

definition cancellation_ok :: "entry_index \<Rightarrow> log_check \<Rightarrow> lane_record \<Rightarrow> string option \<Rightarrow> string \<Rightarrow> bool" where
  "cancellation_ok byId k r run entryId \<longleftrightarrow> (case js_get (lk_queueEnqueues k) entryId of
      None \<Rightarrow> False
    | Some enqueue \<Rightarrow> r_seq enqueue < r_seq r \<and> r_runId enqueue = run \<and> \<not> js_has byId entryId)"

definition check_body :: "entry_index \<Rightarrow> log_check \<Rightarrow> lane_record \<Rightarrow> corruption_reason + log_check" where
  "check_body byId k r = (case r_body r of
      OperationStarted _ i \<Rightarrow>
        bind_result (validateOperationResult byId i) (\<lambda>_.
        Inr (k\<lparr>lk_starts := js_set (lk_starts k) (r_id r) r\<rparr>))
    | OperationFinished run _ _ \<Rightarrow> Inr (k\<lparr>lk_finishedAt := js_set (lk_finishedAt k) run (r_seq r)\<rparr>)
    | AbortRequested run \<Rightarrow> Inr (k\<lparr>lk_abortedAt := js_set (lk_abortedAt k) run (r_seq r)\<rparr>)
    | StepAttempt run step attempt resultEntryId reason \<Rightarrow>
        (let a = \<lparr>sa_seq = r_seq r, sa_step = step, sa_attempt = attempt,
                  sa_resultEntryId = resultEntryId, sa_compactionReason = reason\<rparr> in
         bind_result (validateAttemptReason a) (\<lambda>_.
         bind_result (validateAttemptSequence a (js_get (lk_latestAttempt k) run) byId) (\<lambda>_.
         bind_result (validateAttemptResult byId a) (\<lambda>_.
         Inr (k\<lparr>lk_latestAttempt := js_set (lk_latestAttempt k) run a\<rparr>)))))
    | ToolStarted run assistantEntryId toolIndex toolCallId toolName args resultEntryId rep \<Rightarrow>
        bind_result (validateToolStart \<lparr>ts_assistantEntryId = assistantEntryId, ts_toolIndex = toolIndex,
            ts_toolCallId = toolCallId, ts_toolName = toolName, ts_resultEntryId = resultEntryId\<rparr>
            byId (lk_toolInvocations k)) (\<lambda>inv.
        Inr (k\<lparr>lk_toolInvocations := inv\<rparr>))
    | QueueEnqueued q run target \<Rightarrow>
        bind_result (guard_result (\<not> enqueued_after_abort k r q run) QueueAfterAbort) (\<lambda>_.
        bind_result (validateExactProvisionedEntry byId target) (\<lambda>_.
        Inr (k\<lparr>lk_queueEnqueues := js_set (lk_queueEnqueues k) (p_id target) r\<rparr>)))
    | QueueCancelled run entryId \<Rightarrow>
        bind_result (guard_result (cancellation_ok byId k r run entryId) InvalidQueueCancellation) (\<lambda>_. Inr k)
    | WriteDeferred run target \<Rightarrow>
        bind_result (validateExactProvisionedEntry byId target) (\<lambda>_. Inr k)
    | UsageRecord _ _ \<Rightarrow> Inr k)"

definition check_record :: "entry_index \<Rightarrow> log_check \<Rightarrow> lane_record \<Rightarrow> corruption_reason + log_check" where
  "check_record byId k r = bind_result (check_run k r) (\<lambda>_. check_body byId k r)"

definition validateRecordLog :: "log_slice \<Rightarrow> corruption_reason + unit" where
  "validateRecordLog slice =
     bind_result (guard_result (\<not> length (ls_openOperations slice) > 1) MultipleOpenOperations) (\<lambda>_.
     let byId = index_entries (ls_entries slice) in
     bind_result (validateDeferredHandles (map snd byId)) (\<lambda>_.
     bind_result (fold_result (check_record byId) init_check (sort_key r_seq (ls_records slice))) (\<lambda>_.
     Inr ())))"

section \<open>Reconstruction\<close>

definition bySequence :: "lane_record list \<Rightarrow> lane_record list" where
  "bySequence rs = sort_key r_seq rs"

definition entriesBySequence :: "entry list \<Rightarrow> entry list" where
  "entriesBySequence es = sort_key e_seq es"

definition configure :: "lane_configuration \<Rightarrow> entry \<Rightarrow> lane_configuration" where
  "configure c e = (case e_body e of
      ModelChangeEntry provider modelId \<Rightarrow> c\<lparr>lc_model := (provider, modelId)\<rparr>
    | ThinkingLevelEntry level \<Rightarrow> c\<lparr>lc_thinkingLevel := level\<rparr>
    | ActiveToolsEntry tools \<Rightarrow> c\<lparr>lc_activeToolNames := tools\<rparr>
    | MessageEntry (AssistantMessage m) _ \<Rightarrow> c\<lparr>lc_model := (am_provider m, am_model m)\<rparr>
    | _ \<Rightarrow> c)"

definition deriveEffectiveConfiguration :: "lane_reduction_input \<Rightarrow> lane_configuration" where
  "deriveEffectiveConfiguration inp =
     foldl configure (in_defaults inp)
       (entriesBySequence (map snd (index_entries (in_configurationEntries inp @ in_ownEntries inp))))"

definition deriveNewestOwn :: "entry option \<Rightarrow> newest_own option" where
  "deriveNewestOwn oe = (case oe of
      None \<Rightarrow> None
    | Some e \<Rightarrow> Some \<lparr>no_entryId = e_id e, no_type = e_type e,
        no_role = map_option role_of (e_message e),
        no_stopReason = map_option am_stopReason (e_assistant e)\<rparr>)"

fun body_tool_start :: "record_body \<Rightarrow> (string \<times> string \<times> int \<times> string) option" where
  "body_tool_start (ToolStarted run assistantEntryId toolIndex _ _ _ resultEntryId _) =
     Some (run, assistantEntryId, toolIndex, resultEntryId)"
| "body_tool_start _ = None"

definition tool_starts :: "string \<Rightarrow> lane_record list \<Rightarrow> string \<Rightarrow> (int, lane_record) js_map" where
  "tool_starts operationId rs assistantEntryId =
     js_map_of (List.map_filter (\<lambda>r. case body_tool_start (r_body r) of
         None \<Rightarrow> None
       | Some (run, a, i, _) \<Rightarrow> if run = operationId \<and> a = assistantEntryId then Some (i, r) else None) rs)"

definition start_result_id :: "lane_record \<Rightarrow> string" where
  "start_result_id r = (case body_tool_start (r_body r) of Some (_, _, _, i) \<Rightarrow> i | None \<Rightarrow> '''')"

definition blocked_result :: "entry \<Rightarrow> string set \<Rightarrow> tool_call \<Rightarrow> entry \<Rightarrow> bool" where
  "blocked_result assistantEntry deferredWriteIds c e \<longleftrightarrow>
     e_seq e > e_seq assistantEntry \<and> e_id e \<notin> deferredWriteIds \<and>
     (case e_tool_result e of None \<Rightarrow> False | Some m \<Rightarrow> tr_toolCallId m = tc_id c)"

definition call_state :: "entry \<Rightarrow> (int, lane_record) js_map \<Rightarrow> entry list \<Rightarrow> entry_index \<Rightarrow> string set
    \<Rightarrow> nat \<Rightarrow> tool_call \<Rightarrow> tool_call_state" where
  "call_state assistantEntry starts ownEntries byId deferredWriteIds toolIndex c =
     (let started = js_get starts (int toolIndex);
          startedResult = (case started of None \<Rightarrow> None | Some r \<Rightarrow> js_get byId (start_result_id r));
          blockedResult = List.find (blocked_result assistantEntry deferredWriteIds c) ownEntries;
          result = (case startedResult of Some e \<Rightarrow> Some e | None \<Rightarrow> blockedResult)
      in \<lparr>cs_toolIndex = toolIndex, cs_toolCall = c, cs_started = started,
          cs_resultExists = (result \<noteq> None),
          cs_terminate = (case result of
              Some e \<Rightarrow> (case e_body e of MessageEntry _ t \<Rightarrow> t | _ \<Rightarrow> False)
            | None \<Rightarrow> False)\<rparr>)"

definition has_tool_calls :: "entry \<Rightarrow> bool" where
  "has_tool_calls e \<longleftrightarrow> (case e_assistant e of None \<Rightarrow> False | Some m \<Rightarrow> tool_calls_of (am_content m) \<noteq> [])"

definition deriveToolBatch :: "string \<Rightarrow> lane_record list \<Rightarrow> entry list \<Rightarrow> entry_index \<Rightarrow> string set
    \<Rightarrow> tool_batch_state option" where
  "deriveToolBatch operationId rs ownEntries byId deferredWriteIds =
     (case List.find has_tool_calls (rev ownEntries) of
        None \<Rightarrow> None
      | Some assistantEntry \<Rightarrow>
          (case e_assistant assistantEntry of
             None \<Rightarrow> None
           | Some m \<Rightarrow>
               let starts = tool_starts operationId rs (e_id assistantEntry);
                   calls = map (\<lambda>(i, c). call_state assistantEntry starts ownEntries byId deferredWriteIds i c)
                             (enumerate 0 (tool_calls_of (am_content m)))
               in Some \<lparr>tb_assistantEntryId = e_id assistantEntry, tb_calls = calls,
                    tb_truncated = (am_stopReason m = LengthStop),
                    tb_unresolved = (\<exists>c \<in> set calls. \<not> cs_resultExists c)\<rparr>))"

fun body_cancelled :: "record_body \<Rightarrow> string option" where
  "body_cancelled (QueueCancelled _ entryId) = Some entryId"
| "body_cancelled _ = None"

definition cancelled_ids :: "lane_record list \<Rightarrow> string set" where
  "cancelled_ids rs = set (List.map_filter (\<lambda>r. body_cancelled (r_body r)) rs)"

fun body_enqueued :: "record_body \<Rightarrow> (queue \<times> string option \<times> provisioned_entry) option" where
  "body_enqueued (QueueEnqueued q run target) = Some (q, run, target)"
| "body_enqueued _ = None"

text \<open>\<^verbatim>\<open>pendingQueueRecords\<close>: the queue items neither delivered nor cancelled.\<close>

definition pending_queue :: "entry_index \<Rightarrow> lane_record list \<Rightarrow> (queue \<times> string option \<times> provisioned_entry) list" where
  "pending_queue byId rs =
     filter (\<lambda>(q, run, target). \<not> js_has byId (p_id target) \<and> p_id target \<notin> cancelled_ids rs)
       (List.map_filter (\<lambda>r. body_enqueued (r_body r)) rs)"

definition pending_of :: "queue \<Rightarrow> string \<Rightarrow> (queue \<times> string option \<times> provisioned_entry) list \<Rightarrow> provisioned_entry list" where
  "pending_of q operationId items =
     map (\<lambda>(_, _, target). target) (filter (\<lambda>(q', run, _). q' = q \<and> run = Some operationId) items)"

fun initial_messages :: "intent \<Rightarrow> provisioned_entry list" where
  "initial_messages (RunIntent _ ts _ _) = ts"
| "initial_messages _ = []"

definition belongs_to :: "string \<Rightarrow> lane_record \<Rightarrow> bool" where
  "belongs_to operationId r \<longleftrightarrow>
     (if r_type r = OperationStartedT then r_id r = operationId else r_runId r = Some operationId)"

fun body_deferred_write :: "record_body \<Rightarrow> provisioned_entry option" where
  "body_deferred_write (WriteDeferred _ target) = Some target"
| "body_deferred_write _ = None"

fun body_step :: "record_body \<Rightarrow> step_state option" where
  "body_step (StepAttempt _ step attempt resultEntryId reason) =
     Some \<lparr>ss_kind = step, ss_attempts = attempt, ss_resultEntryId = resultEntryId,
           ss_compactionReason = (if step = CompactionStep then reason else None)\<rparr>"
| "body_step _ = None"

definition newest_step :: "entry_index \<Rightarrow> lane_record list \<Rightarrow> step_state option" where
  "newest_step byId rs = (case last_opt (List.map_filter (\<lambda>r. body_step (r_body r)) rs) of
      None \<Rightarrow> None
    | Some s \<Rightarrow> if js_has byId (ss_resultEntryId s) then None else Some s)"

definition consumed_input_ids :: "intent \<Rightarrow> lane_record list \<Rightarrow> string list" where
  "consumed_input_ids i rs = map p_id (initial_messages i) @
     List.map_filter (\<lambda>r. case body_enqueued (r_body r) of
         None \<Rightarrow> None
       | Some (q, _, target) \<Rightarrow> if q \<noteq> NextRunQueue then Some (p_id target) else None) rs"

text \<open>\<^verbatim>\<open>newestConsumedInputSequence\<close>, with \<open>None\<close> for \<^verbatim>\<open>Number.NEGATIVE_INFINITY\<close>.\<close>

definition raise_sequence :: "entry_index \<Rightarrow> int option \<Rightarrow> string \<Rightarrow> int option" where
  "raise_sequence byId acc i = (case js_get byId i of
      None \<Rightarrow> acc
    | Some e \<Rightarrow> if e_type e = MessageT
                then Some (case acc of None \<Rightarrow> e_seq e | Some s \<Rightarrow> max s (e_seq e))
                else acc)"

definition newest_consumed :: "entry_index \<Rightarrow> string list \<Rightarrow> int option" where
  "newest_consumed byId ids = foldl (raise_sequence byId) None ids"

definition overflow_recovery_used :: "int option \<Rightarrow> lane_record list \<Rightarrow> bool" where
  "overflow_recovery_used newest rs \<longleftrightarrow> (\<exists>r \<in> set rs.
     (case r_body r of
        StepAttempt _ CompactionStep _ _ reason \<Rightarrow> reason = Some OverflowReason
      | _ \<Rightarrow> False) \<and>
     (case newest of None \<Rightarrow> True | Some s \<Rightarrow> r_seq r > s))"

definition derive_deferred :: "entry option \<Rightarrow> deferred_handle option" where
  "derive_deferred newestOwnEntry = (case newestOwnEntry of
      None \<Rightarrow> None
    | Some e \<Rightarrow> (case e_assistant e of
          None \<Rightarrow> None
        | Some m \<Rightarrow> if am_stopReason m = DeferredStop then am_deferred m else None))"

definition derive_targets :: "entry_index \<Rightarrow> intent \<Rightarrow> operation_targets" where
  "derive_targets byId i = (case i of
      RunIntent _ _ _ _ \<Rightarrow> \<lparr>ot_result = None, ot_summary = None\<rparr>
    | CompactionIntent _ resultEntryId \<Rightarrow> \<lparr>ot_result = Some (js_has byId resultEntryId), ot_summary = None\<rparr>
    | NavigationIntent _ _ _ _ (Some s) \<Rightarrow>
        \<lparr>ot_result = None, ot_summary = (if s = '''' then None else Some (js_has byId s))\<rparr>
    | NavigationIntent _ _ _ _ None \<Rightarrow> \<lparr>ot_result = None, ot_summary = None\<rparr>)"

definition produced_by_step :: "lane_record list \<Rightarrow> string \<Rightarrow> bool" where
  "produced_by_step rs i \<longleftrightarrow> (\<exists>r \<in> set rs. case r_body r of
      StepAttempt _ _ _ resultEntryId _ \<Rightarrow> resultEntryId = i | _ \<Rightarrow> False)"

definition fetch_recorded :: "lane_record list \<Rightarrow> string \<Rightarrow> bool" where
  "fetch_recorded rs i \<longleftrightarrow> (\<exists>r \<in> set rs. case r_body r of
      UsageRecord _ (GenerationUsage DeferredFetchCause _ entryId _ _) \<Rightarrow> entryId = i | _ \<Rightarrow> False)"

definition is_deferred_entry :: "entry option \<Rightarrow> bool" where
  "is_deferred_entry oe \<longleftrightarrow> (case oe of None \<Rightarrow> False | Some e \<Rightarrow>
     (case e_assistant e of None \<Rightarrow> False | Some m \<Rightarrow> am_stopReason m = DeferredStop))"

definition derive_terminal_failure :: "lane_record list \<Rightarrow> entry list \<Rightarrow> string set \<Rightarrow> terminal_failure option" where
  "derive_terminal_failure rs ownEntries deferredWriteIds = (case last_opt ownEntries of
      None \<Rightarrow> None
    | Some e \<Rightarrow> (case e_assistant e of
          None \<Rightarrow> None
        | Some m \<Rightarrow>
            if am_stopReason m \<noteq> ErrorStop \<or> e_id e \<in> deferredWriteIds then None
            else let byStep = produced_by_step rs (e_id e);
                     byFetch = fetch_recorded rs (e_id e) \<or> is_deferred_entry (last_opt (butlast ownEntries))
                 in if byStep \<or> byFetch
                    then Some \<lparr>tf_entryId = e_id e,
                               tf_source = (if byStep then StepFailure else DeferredFetchFailure),
                               tf_message = m\<rparr>
                    else None))"

definition operation_records :: "lane_record list \<Rightarrow> operation_started \<Rightarrow> lane_record list" where
  "operation_records rs started = filter (belongs_to (o_id started)) rs"

definition deferred_writes :: "lane_record list \<Rightarrow> provisioned_entry list" where
  "deferred_writes rs = List.map_filter (\<lambda>r. body_deferred_write (r_body r)) rs"

definition reduce_operation :: "entry_index \<Rightarrow> lane_record list \<Rightarrow> entry list \<Rightarrow> operation_started \<Rightarrow> operation_state" where
  "reduce_operation byId rs ownEntries started =
     (let operationRecords = operation_records rs started;
          aborting = (\<exists>r \<in> set operationRecords. r_type r = AbortRequestedT);
          items = pending_queue byId rs;
          writes = deferred_writes operationRecords;
          i = o_intent started
      in \<lparr>os_id = o_id started,
          os_kind = intent_kind i,
          os_intent = i,
          os_aborting = aborting,
          os_step = newest_step byId operationRecords,
          os_toolBatch = deriveToolBatch (o_id started) operationRecords ownEntries byId (p_id ` set writes),
          os_missingInitialMessages = filter (\<lambda>t. \<not> js_has byId (p_id t)) (initial_messages i),
          os_pendingSteer = (if aborting then [] else pending_of SteerQueue (o_id started) items),
          os_pendingFollowUp = (if aborting then [] else pending_of FollowUpQueue (o_id started) items),
          os_pendingWrites = filter (\<lambda>t. \<not> js_has byId (p_id t)) writes,
          os_deferred = derive_deferred (last_opt ownEntries),
          os_overflowRecoveryUsed =
            overflow_recovery_used (newest_consumed byId (consumed_input_ids i operationRecords)) operationRecords,
          os_newestOwn = deriveNewestOwn (last_opt ownEntries),
          os_targets = derive_targets byId i\<rparr>)"

definition pending_next_run :: "entry_index \<Rightarrow> lane_record list \<Rightarrow> string set \<Rightarrow> provisioned_entry list" where
  "pending_next_run byId rs captured =
     map (\<lambda>(_, _, target). target)
       (filter (\<lambda>(q, _, target). q = NextRunQueue \<and> p_id target \<notin> captured) (pending_queue byId rs))"

definition reduceLaneState :: "lane_reduction_input \<Rightarrow> corruption_reason + lane_reduction_result" where
  "reduceLaneState inp =
     bind_result (validateRecordLog (in_slice inp)) (\<lambda>_.
     let rs = bySequence (ls_records (in_slice inp));
         ownEntries = entriesBySequence (in_ownEntries inp);
         byId = index_entries (ls_entries (in_slice inp) @ ownEntries);
         configuration = deriveEffectiveConfiguration inp
     in Inr (case ls_openOperations (in_slice inp) of
          [] \<Rightarrow> \<lparr>rr_laneState = \<lparr>st_lane = ls_lane (in_slice inp), st_leafId = in_leafId inp,
                  st_operation = None, st_pendingNextRun = pending_next_run byId rs {}\<rparr>,
                rr_effectiveConfiguration = configuration, rr_terminalFailure = None\<rparr>
        | started # _ \<Rightarrow>
            \<lparr>rr_laneState = \<lparr>st_lane = ls_lane (in_slice inp), st_leafId = in_leafId inp,
               st_operation = Some (reduce_operation byId rs ownEntries started),
               st_pendingNextRun = pending_next_run byId rs (p_id ` set (initial_messages (o_intent started)))\<rparr>,
             rr_effectiveConfiguration = configuration,
             rr_terminalFailure = derive_terminal_failure (operation_records rs started) ownEntries
               (p_id ` set (deferred_writes (operation_records rs started)))\<rparr>))"

end
