(* ===== verification/Session_Reducer_Props.thy ===== *)
theory Session_Reducer_Props
  imports Session_Reducer
begin

text \<open>
  What the reducer's validation accepts, as a condition on every record and the records
  before it, and what the reconstructed lane state then guarantees.
\<close>

section \<open>The bookkeeping of the validation loop\<close>

text \<open>The updates of \<^verbatim>\<open>validateRecordLog\<close>'s maps by one record, without its checks.\<close>

definition note_record :: "log_check \<Rightarrow> lane_record \<Rightarrow> log_check" where
  "note_record k r = (case r_body r of
      OperationStarted _ _ \<Rightarrow> k\<lparr>lk_starts := js_set (lk_starts k) (r_id r) r\<rparr>
    | OperationFinished run _ _ \<Rightarrow> k\<lparr>lk_finishedAt := js_set (lk_finishedAt k) run (r_seq r)\<rparr>
    | AbortRequested run \<Rightarrow> k\<lparr>lk_abortedAt := js_set (lk_abortedAt k) run (r_seq r)\<rparr>
    | StepAttempt run step attempt resultEntryId reason \<Rightarrow>
        k\<lparr>lk_latestAttempt := js_set (lk_latestAttempt k) run
            \<lparr>sa_seq = r_seq r, sa_step = step, sa_attempt = attempt,
             sa_resultEntryId = resultEntryId, sa_compactionReason = reason\<rparr>\<rparr>
    | ToolStarted _ a i _ _ _ _ _ \<Rightarrow> k\<lparr>lk_toolInvocations := insert (a, i) (lk_toolInvocations k)\<rparr>
    | QueueEnqueued _ _ target \<Rightarrow> k\<lparr>lk_queueEnqueues := js_set (lk_queueEnqueues k) (p_id target) r\<rparr>
    | _ \<Rightarrow> k)"

definition check_after :: "lane_record list \<Rightarrow> log_check" where
  "check_after pre = foldl note_record init_check pre"

lemma check_after_snoc: "check_after (pre @ [r]) = note_record (check_after pre) r"
  by (simp add: check_after_def)

lemma check_record_note: "check_record byId k r = Inr k' \<Longrightarrow> k' = note_record k r"
  by (cases "r_body r")
    (auto simp: check_record_def check_body_def note_record_def bind_result_Inr_iff validateToolStart_def Let_def)

lemma check_record_step:
  "check_record byId (check_after pre) r = Inr (check_after (pre @ [r])) \<or>
   (\<exists>e. check_record byId (check_after pre) r = Inl e)"
proof (cases "check_record byId (check_after pre) r")
  case (Inr k)
  then show ?thesis using check_record_note [OF Inr] by (simp add: check_after_snoc)
qed simp

text \<open>What each map holds after a prefix of the records.\<close>

fun body_finishes :: "record_body \<Rightarrow> string option" where
  "body_finishes (OperationFinished run _ _) = Some run"
| "body_finishes _ = None"

fun body_aborts :: "record_body \<Rightarrow> string option" where
  "body_aborts (AbortRequested run) = Some run"
| "body_aborts _ = None"

definition attempt_of :: "string \<Rightarrow> lane_record \<Rightarrow> step_attempt option" where
  "attempt_of run r = (case r_body r of
      StepAttempt run' step attempt resultEntryId reason \<Rightarrow>
        if run' = run then Some \<lparr>sa_seq = r_seq r, sa_step = step, sa_attempt = attempt,
             sa_resultEntryId = resultEntryId, sa_compactionReason = reason\<rparr> else None
    | _ \<Rightarrow> None)"

definition latest_attempt :: "lane_record list \<Rightarrow> string \<Rightarrow> step_attempt option" where
  "latest_attempt pre run = last_opt (List.map_filter (attempt_of run) pre)"

definition enqueue_of :: "string \<Rightarrow> lane_record \<Rightarrow> bool" where
  "enqueue_of i r \<longleftrightarrow> (case body_enqueued (r_body r) of None \<Rightarrow> False | Some (_, _, t) \<Rightarrow> p_id t = i)"

definition latest_enqueue :: "lane_record list \<Rightarrow> string \<Rightarrow> lane_record option" where
  "latest_enqueue pre i = last_opt (filter (enqueue_of i) pre)"

definition invocation_of :: "lane_record \<Rightarrow> (string \<times> int) option" where
  "invocation_of r = (case body_tool_start (r_body r) of None \<Rightarrow> None | Some (_, a, i, _) \<Rightarrow> Some (a, i))"

lemma check_after_starts:
  "js_has (lk_starts (check_after pre)) i \<longleftrightarrow> (\<exists>s \<in> set pre. r_type s = OperationStartedT \<and> r_id s = i)"
proof (induction pre rule: rev_induct)
  case (snoc r pre)
  then show ?case by (cases "r_body r") (auto simp: check_after_snoc note_record_def r_type_def)
qed (simp add: check_after_def init_check_def)

lemma check_after_finished:
  "js_get (lk_finishedAt (check_after pre)) run =
     map_option r_seq (last_opt (filter (\<lambda>f. body_finishes (r_body f) = Some run) pre))"
proof (induction pre rule: rev_induct)
  case (snoc r pre)
  then show ?case by (cases "r_body r") (auto simp: check_after_snoc note_record_def last_opt_append)
qed (simp add: check_after_def init_check_def)

lemma check_after_aborted:
  "js_get (lk_abortedAt (check_after pre)) run =
     map_option r_seq (last_opt (filter (\<lambda>f. body_aborts (r_body f) = Some run) pre))"
proof (induction pre rule: rev_induct)
  case (snoc r pre)
  then show ?case by (cases "r_body r") (auto simp: check_after_snoc note_record_def last_opt_append)
qed (simp add: check_after_def init_check_def)

lemma check_after_attempt: "js_get (lk_latestAttempt (check_after pre)) run = latest_attempt pre run"
proof (induction pre rule: rev_induct)
  case (snoc r pre)
  then show ?case
    by (cases "r_body r")
      (auto simp: check_after_snoc note_record_def latest_attempt_def map_filter_snoc attempt_of_def last_opt_append)
qed (simp add: check_after_def init_check_def latest_attempt_def List.map_filter_def)

lemma check_after_enqueue: "js_get (lk_queueEnqueues (check_after pre)) i = latest_enqueue pre i"
proof (induction pre rule: rev_induct)
  case (snoc r pre)
  then show ?case
    by (cases "r_body r")
      (auto simp: check_after_snoc note_record_def latest_enqueue_def enqueue_of_def last_opt_append)
qed (simp add: check_after_def init_check_def latest_enqueue_def)

lemma check_after_invocations:
  "p \<in> lk_toolInvocations (check_after pre) \<longleftrightarrow> (\<exists>r \<in> set pre. invocation_of r = Some p)"
proof (induction pre rule: rev_induct)
  case (snoc r pre)
  then show ?case by (cases "r_body r") (auto simp: check_after_snoc note_record_def invocation_of_def)
qed (simp add: check_after_def init_check_def)

section \<open>The declarative reading of a valid log\<close>

definition entry_if_present :: "entry_index \<Rightarrow> string \<Rightarrow> (entry \<Rightarrow> bool) \<Rightarrow> bool" where
  "entry_if_present byId i p \<longleftrightarrow> (\<forall>e. js_get byId i = Some e \<longrightarrow> p e)"

fun intent_valid :: "entry_index \<Rightarrow> intent \<Rightarrow> bool" where
  "intent_valid byId (RunIntent _ ts _ _) \<longleftrightarrow>
     (\<forall>t \<in> set ts. entry_if_present byId (p_id t) (\<lambda>e. matchesProvisionedEntry e t))"
| "intent_valid byId (CompactionIntent _ i) \<longleftrightarrow> entry_if_present byId i (\<lambda>e. e_type e = CompactionT)"
| "intent_valid byId (NavigationIntent _ _ _ _ s) \<longleftrightarrow>
     (\<forall>i. s = Some i \<and> i \<noteq> '''' \<longrightarrow> entry_if_present byId i (\<lambda>e. e_type e = BranchSummaryT))"

definition attempt_valid :: "entry_index \<Rightarrow> step_attempt option \<Rightarrow> step_attempt \<Rightarrow> bool" where
  "attempt_valid byId previous a \<longleftrightarrow>
     (if sa_step a = CompactionStep then valid_reason (sa_compactionReason a) else sa_compactionReason a = None) \<and>
     (case previous of
        Some p \<Rightarrow> if continues_series byId p a
                  then sa_attempt a = sa_attempt p + 1 \<and>
                       (sa_step a \<noteq> AssistantStep \<longrightarrow>
                          sa_resultEntryId a = sa_resultEntryId p \<and> sa_compactionReason a = sa_compactionReason p)
                  else sa_attempt a = 1
      | None \<Rightarrow> sa_attempt a = 1) \<and>
     entry_if_present byId (sa_resultEntryId a) (\<lambda>e. case sa_step a of
        AssistantStep \<Rightarrow> e_assistant e \<noteq> None
      | CompactionStep \<Rightarrow> e_type e = CompactionT
      | BranchSummaryStep \<Rightarrow> e_type e = BranchSummaryT)"

definition tool_start_valid :: "entry_index \<Rightarrow> tool_start \<Rightarrow> bool" where
  "tool_start_valid byId t \<longleftrightarrow>
     (\<exists>c. started_call byId t = Some c \<and> tc_id c = ts_toolCallId t \<and> tc_name c = ts_toolName t) \<and>
     entry_if_present byId (ts_resultEntryId t) (matches_tool_result t)"

fun body_valid :: "entry_index \<Rightarrow> lane_record list \<Rightarrow> int \<Rightarrow> record_body \<Rightarrow> bool" where
  "body_valid byId pre s (OperationStarted _ i) \<longleftrightarrow> intent_valid byId i"
| "body_valid byId pre s (AbortRequested _) \<longleftrightarrow> True"
| "body_valid byId pre s (OperationFinished _ _ _) \<longleftrightarrow> True"
| "body_valid byId pre s (StepAttempt run step attempt resultEntryId reason) \<longleftrightarrow>
     attempt_valid byId (latest_attempt pre run)
       \<lparr>sa_seq = s, sa_step = step, sa_attempt = attempt, sa_resultEntryId = resultEntryId,
        sa_compactionReason = reason\<rparr>"
| "body_valid byId pre s (ToolStarted _ a i callId toolName _ resultEntryId _) \<longleftrightarrow>
     \<not> (\<exists>r \<in> set pre. invocation_of r = Some (a, i)) \<and>
     tool_start_valid byId \<lparr>ts_assistantEntryId = a, ts_toolIndex = i, ts_toolCallId = callId,
       ts_toolName = toolName, ts_resultEntryId = resultEntryId\<rparr>"
| "body_valid byId pre s (QueueEnqueued q run t) \<longleftrightarrow>
     (q \<noteq> NextRunQueue \<longrightarrow> \<not> (\<exists>r \<in> set pre. run \<noteq> None \<and> body_aborts (r_body r) = run)) \<and>
     entry_if_present byId (p_id t) (\<lambda>e. matchesProvisionedEntry e t)"
| "body_valid byId pre s (QueueCancelled run i) \<longleftrightarrow>
     (\<exists>r. latest_enqueue pre i = Some r \<and> r_runId r = run) \<and> \<not> js_has byId i"
| "body_valid byId pre s (WriteDeferred _ t) \<longleftrightarrow> entry_if_present byId (p_id t) (\<lambda>e. matchesProvisionedEntry e t)"
| "body_valid byId pre s (UsageRecord _ _) \<longleftrightarrow> True"

definition record_valid :: "entry_index \<Rightarrow> lane_record list \<Rightarrow> lane_record \<Rightarrow> bool" where
  "record_valid byId pre r \<longleftrightarrow>
     (\<forall>run. r_runId r = Some run \<longrightarrow>
        (\<exists>s \<in> set pre. r_type s = OperationStartedT \<and> r_id s = run) \<and>
        \<not> (\<exists>f \<in> set pre. body_finishes (r_body f) = Some run)) \<and>
     body_valid byId pre (r_seq r) (r_body r)"

definition log_valid :: "log_slice \<Rightarrow> bool" where
  "log_valid slice \<longleftrightarrow>
     (let byId = index_entries (ls_entries slice); rs = sort_key r_seq (ls_records slice)
      in length (ls_openOperations slice) \<le> 1 \<and>
         (\<forall>i e. js_get byId i = Some e \<longrightarrow> \<not> lacks_handle e) \<and>
         (\<forall>n < length rs. record_valid byId (take n rs) (rs ! n)))"

section \<open>Each check means its declarative condition\<close>

lemma validateExactProvisionedEntry_iff:
  "validateExactProvisionedEntry byId t = Inr u \<longleftrightarrow> entry_if_present byId (p_id t) (\<lambda>e. matchesProvisionedEntry e t)"
  by (auto simp: validateExactProvisionedEntry_def entry_if_present_def split: option.splits)

lemma validateResultEntry_iff: "validateResultEntry byId i p = Inr u \<longleftrightarrow> entry_if_present byId i p"
  by (auto simp: validateResultEntry_def entry_if_present_def split: option.splits)

lemma validate_all_exact_iff:
  "validate_all_exact byId ts = Inr u \<longleftrightarrow>
     (\<forall>t \<in> set ts. entry_if_present byId (p_id t) (\<lambda>e. matchesProvisionedEntry e t))"
  by (induction ts) (auto simp: bind_result_Inr_iff validateExactProvisionedEntry_iff)

lemma validateOperationResult_iff: "validateOperationResult byId i = Inr u \<longleftrightarrow> intent_valid byId i"
  by (cases i) (auto simp: validateOperationResult_def validate_all_exact_iff validateResultEntry_iff split: option.splits)

lemma validate_attempt_iff:
  "(validateAttemptReason a = Inr () \<and> validateAttemptSequence a previous byId = Inr () \<and>
    validateAttemptResult byId a = Inr ()) \<longleftrightarrow> attempt_valid byId previous a"
  by (cases "sa_step a")
    (auto simp: validateAttemptReason_def validateAttemptSequence_def validateAttemptResult_def attempt_valid_def
      validateResultEntry_iff bind_result_Inr_iff split: option.splits if_splits)

lemma validateToolStart_iff:
  "(\<exists>inv. validateToolStart t byId invocations = Inr inv) \<longleftrightarrow>
     (ts_assistantEntryId t, ts_toolIndex t) \<notin> invocations \<and> tool_start_valid byId t"
  by (auto simp: validateToolStart_def Let_def bind_result_Inr_iff validateResultEntry_iff tool_start_valid_def
      split: option.splits)

lemmas check_after_facts = check_after_starts check_after_finished check_after_aborted
  check_after_attempt check_after_enqueue check_after_invocations

lemma check_run_iff:
  assumes later: "\<And>x. x \<in> set pre \<Longrightarrow> r_seq x < r_seq r"
  shows "check_run (check_after pre) r = Inr () \<longleftrightarrow>
     (\<forall>run. r_runId r = Some run \<longrightarrow>
        (\<exists>s \<in> set pre. r_type s = OperationStartedT \<and> r_id s = run) \<and>
        \<not> (\<exists>f \<in> set pre. body_finishes (r_body f) = Some run))"
proof (cases "r_runId r")
  case (Some run)
  let ?last = "last_opt (filter (\<lambda>f. body_finishes (r_body f) = Some run) pre)"
  show ?thesis
  proof (cases ?last)
    case None
    then show ?thesis using Some
      by (auto simp: check_run_def check_after_facts bind_result_Inr_iff last_opt_filter_None)
  next
    case (Some f)
    then have "f \<in> set pre" "body_finishes (r_body f) = Some run" by (auto dest: last_opt_filter_Some)
    with later [of f] Some \<open>r_runId r = Some run\<close> show ?thesis
      by (auto simp: check_run_def check_after_facts bind_result_Inr_iff)
  qed
qed (simp add: check_run_def)

lemma enqueued_after_abort_iff:
  assumes later: "\<And>x. x \<in> set pre \<Longrightarrow> r_seq x < r_seq r"
  shows "enqueued_after_abort (check_after pre) r q run \<longleftrightarrow>
     q \<noteq> NextRunQueue \<and> (\<exists>x \<in> set pre. run \<noteq> None \<and> body_aborts (r_body x) = run)"
proof (cases run)
  case (Some i)
  show ?thesis
  proof (cases "last_opt (filter (\<lambda>f. body_aborts (r_body f) = Some i) pre)")
    case None
    then show ?thesis using Some by (simp add: enqueued_after_abort_def check_after_facts last_opt_filter_None)
  next
    case (Some f)
    then have "f \<in> set pre" "body_aborts (r_body f) = Some i" by (auto dest: last_opt_filter_Some)
    with later [of f] Some \<open>run = Some i\<close> show ?thesis
      by (auto simp: enqueued_after_abort_def check_after_facts)
  qed
qed (simp add: enqueued_after_abort_def)

lemma cancellation_ok_iff:
  assumes later: "\<And>x. x \<in> set pre \<Longrightarrow> r_seq x < r_seq r"
  shows "cancellation_ok byId (check_after pre) r run i \<longleftrightarrow>
     (\<exists>e. latest_enqueue pre i = Some e \<and> r_runId e = run) \<and> \<not> js_has byId i"
  using later
  by (auto simp: cancellation_ok_def check_after_facts latest_enqueue_def dest: last_opt_filter_Some split: option.splits)

lemma check_body_iff:
  assumes later: "\<And>x. x \<in> set pre \<Longrightarrow> r_seq x < r_seq r"
  shows "(\<exists>k. check_body byId (check_after pre) r = Inr k) \<longleftrightarrow> body_valid byId pre (r_seq r) (r_body r)"
proof (cases "r_body r")
  case (StepAttempt run step attempt resultEntryId reason)
  let ?a = "\<lparr>sa_seq = r_seq r, sa_step = step, sa_attempt = attempt, sa_resultEntryId = resultEntryId,
     sa_compactionReason = reason\<rparr>"
  have "(\<exists>k. check_body byId (check_after pre) r = Inr k) \<longleftrightarrow>
      (validateAttemptReason ?a = Inr () \<and> validateAttemptSequence ?a (latest_attempt pre run) byId = Inr () \<and>
       validateAttemptResult byId ?a = Inr ())"
    by (simp add: check_body_def StepAttempt Let_def bind_result_Inr_iff check_after_facts)
  then show ?thesis using StepAttempt by (simp add: validate_attempt_iff)
next
  case (ToolStarted run a i callId toolName args resultEntryId rep)
  then show ?thesis
    using validateToolStart_iff
      [of "\<lparr>ts_assistantEntryId = a, ts_toolIndex = i, ts_toolCallId = callId, ts_toolName = toolName,
        ts_resultEntryId = resultEntryId\<rparr>" byId "lk_toolInvocations (check_after pre)"]
    by (simp add: check_body_def bind_result_Inr_iff check_after_facts)
qed (auto simp: check_body_def bind_result_Inr_iff validateOperationResult_iff validateExactProvisionedEntry_iff
    enqueued_after_abort_iff [OF later] cancellation_ok_iff [OF later])

lemma check_record_iff:
  assumes "\<And>x. x \<in> set pre \<Longrightarrow> r_seq x < r_seq r"
  shows "(\<exists>k. check_record byId (check_after pre) r = Inr k) \<longleftrightarrow> record_valid byId pre r"
  using check_run_iff [OF assms] check_body_iff [OF assms]
  by (auto simp: check_record_def bind_result_Inr_iff record_valid_def)

lemma sorted_prefix_less:
  fixes f :: "'a \<Rightarrow> 'b::linorder"
  assumes "distinct (map f xs)" "n < length xs" "x \<in> set (take n (sort_key f xs))"
  shows "f x < f (sort_key f xs ! n)"
proof -
  let ?ys = "sort_key f xs"
  from assms(3) obtain m where m: "m < n" "m < length ?ys" "x = ?ys ! m"
    by (auto simp: in_set_conv_nth)
  have "mset (map f ?ys) = mset (map f xs)" by simp
  then have "distinct (map f ?ys)" using assms(1) by (metis distinct_count_atmost_1 set_mset_mset)
  moreover have "sorted (map f ?ys)" by simp
  ultimately have "sorted_wrt (<) (map f ?ys)" by (simp add: strict_sorted_iff)
  then show ?thesis using m assms(2) by (simp add: sorted_wrt_iff_nth_less)
qed

lemma validateDeferredHandles_iff:
  "validateDeferredHandles (map snd (index_entries es)) = Inr u \<longleftrightarrow>
     (\<forall>i e. js_get (index_entries es) i = Some e \<longrightarrow> \<not> lacks_handle e)"
proof -
  have "(i, e) \<in> set (index_entries es) \<longleftrightarrow> js_get (index_entries es) i = Some e" for i e
    unfolding index_entries_def by (auto intro: js_get_in_set js_get_of_set)
  then show ?thesis by (force simp: validateDeferredHandles_def)
qed

lemma validateRecordLog_valid_iff:
  assumes "distinct (map r_seq (ls_records slice))"
  shows "validateRecordLog slice = Inr () \<longleftrightarrow> log_valid slice"
proof -
  let ?byId = "index_entries (ls_entries slice)"
  let ?rs = "sort_key r_seq (ls_records slice)"
  have init: "init_check = check_after []" by (simp add: check_after_def)
  have "(\<exists>k. fold_result (check_record ?byId) init_check ?rs = Inr k) \<longleftrightarrow>
      (\<forall>n < length ?rs. \<exists>k. check_record ?byId (check_after (take n ?rs)) (?rs ! n) = Inr k)"
    using fold_result_prefix_iff [of "check_record ?byId" check_after "[]" ?rs] check_record_step
    by (simp add: init)
  also have "\<dots> \<longleftrightarrow> (\<forall>n < length ?rs. record_valid ?byId (take n ?rs) (?rs ! n))"
  proof -
    have "(\<exists>k. check_record ?byId (check_after (take n ?rs)) (?rs ! n) = Inr k) \<longleftrightarrow>
        record_valid ?byId (take n ?rs) (?rs ! n)" if "n < length ?rs" for n
      using that by (intro check_record_iff sorted_prefix_less [OF assms]) simp_all
    then show ?thesis by blast
  qed
  finally show ?thesis
    by (simp add: validateRecordLog_def log_valid_def Let_def bind_result_Inr_iff validateDeferredHandles_iff
        not_less cong: conj_cong)
qed

section \<open>Consequences for the reconstructed state\<close>

lemma reduceLaneState_Inl_iff: "reduceLaneState inp = Inl c \<longleftrightarrow> validateRecordLog (in_slice inp) = Inl c"
  by (simp add: reduceLaneState_def bind_result_Inl_iff Let_def)

lemma js_get_index_entries:
  assumes "distinct (map e_id es)" "e \<in> set es"
  shows "js_get (index_entries es) (e_id e) = Some e"
proof -
  have "map_of (rev (map (\<lambda>e. (e_id e, e)) es)) (e_id e) = Some e"
    using assms by (intro map_of_is_SomeI) (auto simp: rev_map [symmetric] comp_def)
  then show ?thesis by (simp add: index_entries_def js_get_map_of)
qed

lemma js_has_index_entries [simp]: "js_has (index_entries es) i \<longleftrightarrow> i \<in> e_id ` set es"
  by (force simp: index_entries_def)

text \<open>A start recorded for a call of the batch names exactly that call, and only once.\<close>

lemma tool_starts_get:
  assumes "js_get (tool_starts operation rs a) i = Some r"
  shows "r \<in> set rs \<and> (\<exists>callId toolName args res rep. r_body r = ToolStarted operation a i callId toolName args res rep)"
proof -
  let ?f = "\<lambda>r. case body_tool_start (r_body r) of
         None \<Rightarrow> None
       | Some (run, a', i, _) \<Rightarrow> if run = operation \<and> a' = a then Some (i, r) else None"
  from assms have "(i, r) \<in> set (List.map_filter ?f rs)"
    unfolding tool_starts_def using js_get_in_set set_js_map_of by fast
  then obtain x where x: "x \<in> set rs" "?f x = Some (i, r)"
    by (auto simp: List.map_filter_def)
  then show ?thesis by (cases "r_body x") (auto split: if_splits)
qed

lemma call_state_simps [simp]:
  "cs_toolIndex (call_state e starts own byId w i c) = i"
  "cs_toolCall (call_state e starts own byId w i c) = c"
  "cs_started (call_state e starts own byId w i c) = js_get starts (int i)"
  by (simp_all add: call_state_def Let_def)

lemma deriveToolBatch_Some:
  assumes "deriveToolBatch operation rs own byId w = Some tb"
  obtains e m where "e \<in> set own" "e_assistant e = Some m" "tb_assistantEntryId tb = e_id e"
    "tb_calls tb = map (\<lambda>(i, c). call_state e (tool_starts operation rs (e_id e)) own byId w i c)
       (enumerate 0 (tool_calls_of (am_content m)))"
    "tb_unresolved tb \<longleftrightarrow> (\<exists>c \<in> set (tb_calls tb). \<not> cs_resultExists c)"
    "tb_truncated tb \<longleftrightarrow> am_stopReason m = LengthStop"
proof -
  from assms obtain e m where e: "List.find has_tool_calls (rev own) = Some e" "e_assistant e = Some m"
    by (auto simp: deriveToolBatch_def split: option.splits)
  moreover from this(1) have "e \<in> set (rev own)" by (force simp: find_Some_iff simp del: set_rev)
  ultimately show ?thesis using assms that by (auto simp: deriveToolBatch_def Let_def)
qed

lemma valid_record_at:
  assumes "log_valid slice" "r \<in> set (ls_records slice)"
  obtains n where "n < length (ls_records slice)" "sort_key r_seq (ls_records slice) ! n = r"
    "record_valid (index_entries (ls_entries slice)) (take n (sort_key r_seq (ls_records slice))) r"
proof -
  from assms(2) have "r \<in> set (sort_key r_seq (ls_records slice))" by simp
  then obtain n where "n < length (ls_records slice)" "sort_key r_seq (ls_records slice) ! n = r"
    unfolding in_set_conv_nth by auto
  with assms(1) that show ?thesis by (auto simp: log_valid_def Let_def)
qed

lemma valid_tool_start_unique:
  assumes v: "log_valid slice" and r: "r \<in> set (ls_records slice)" "invocation_of r = Some p"
    and r': "r' \<in> set (ls_records slice)" "invocation_of r' = Some p"
  shows "r = r'"
proof -
  let ?rs = "sort_key r_seq (ls_records slice)"
  have first: "\<not> (\<exists>x \<in> set (take n ?rs). invocation_of x = Some p)"
    if "record_valid (index_entries (ls_entries slice)) (take n ?rs) x" "invocation_of x = Some p" for n x
    using that by (cases "r_body x") (auto simp: record_valid_def invocation_of_def)
  from valid_record_at [OF v r(1)] obtain n where n: "n < length ?rs" "?rs ! n = r"
    and fn: "\<not> (\<exists>x \<in> set (take n ?rs). invocation_of x = Some p)"
    using first r(2) by (metis length_sort)
  from valid_record_at [OF v r'(1)] obtain m where m: "m < length ?rs" "?rs ! m = r'"
    and fm: "\<not> (\<exists>x \<in> set (take m ?rs). invocation_of x = Some p)"
    using first r'(2) by (metis length_sort)
  have "?rs ! k \<in> set (take l ?rs)" if "k < l" "l < length ?rs" for k l
    using that by (auto simp: in_set_conv_nth intro!: exI [of _ k])
  then have "\<not> n < m" "\<not> m < n" using n m fn fm r(2) r'(2) by metis+
  then show ?thesis using n m by simp
qed

lemma batch_start_matches_call:
  assumes v: "log_valid slice" and own: "set own \<subseteq> set (ls_entries slice)" "distinct (map e_id (ls_entries slice))"
    and rs: "set rs \<subseteq> set (ls_records slice)"
    and tb: "deriveToolBatch operation rs own byId w = Some tb"
    and c: "c \<in> set (tb_calls tb)" "cs_started c = Some r"
  shows "r \<in> set rs \<and> (\<exists>args res rep. r_body r = ToolStarted operation (tb_assistantEntryId tb)
     (int (cs_toolIndex c)) (tc_id (cs_toolCall c)) (tc_name (cs_toolCall c)) args res rep)"
proof -
  from tb obtain e m where e: "e \<in> set own" "e_assistant e = Some m" "tb_assistantEntryId tb = e_id e"
    "tb_calls tb = map (\<lambda>(i, c). call_state e (tool_starts operation rs (e_id e)) own byId w i c)
       (enumerate 0 (tool_calls_of (am_content m)))"
    by (rule deriveToolBatch_Some)
  from c(1) e(4) obtain i where i: "i < length (tool_calls_of (am_content m))"
      "c = call_state e (tool_starts operation rs (e_id e)) own byId w i (tool_calls_of (am_content m) ! i)"
    by (auto simp: in_set_conv_nth nth_enumerate_eq)
  with c(2) have "js_get (tool_starts operation rs (e_id e)) (int i) = Some r" by simp
  from tool_starts_get [OF this] obtain callId toolName args res rep where
    r: "r \<in> set rs" "r_body r = ToolStarted operation (e_id e) (int i) callId toolName args res rep" by blast
  from r(1) rs have "r \<in> set (ls_records slice)" by blast
  then obtain n where "record_valid (index_entries (ls_entries slice)) (take n (sort_key r_seq (ls_records slice))) r"
    using valid_record_at [OF v] by metis
  moreover have "js_get (index_entries (ls_entries slice)) (e_id e) = Some e"
    using e(1) own by (intro js_get_index_entries) auto
  ultimately have "callId = tc_id (tool_calls_of (am_content m) ! i)" "toolName = tc_name (tool_calls_of (am_content m) ! i)"
    using r(2) e(2) i(1)
    by (auto simp: record_valid_def tool_start_valid_def started_call_def index_opt_def)
  then show ?thesis using r i e(3) by simp
qed

text \<open>The records of a slice count by their sequence numbers, not by the order they come in.\<close>

lemma validateRecordLog_cong:
  assumes "mset rs' = mset (ls_records slice)" "distinct (map r_seq (ls_records slice))"
  shows "sort_key r_seq rs' = sort_key r_seq (ls_records slice)"
  using assms by (metis sort_key_mset_eq)

text \<open>The newest entry that sets a part of the configuration decides it.\<close>

definition entry_model :: "entry \<Rightarrow> (string \<times> string) option" where
  "entry_model e = (case e_body e of
      ModelChangeEntry provider modelId \<Rightarrow> Some (provider, modelId)
    | MessageEntry (AssistantMessage m) _ \<Rightarrow> Some (am_provider m, am_model m)
    | _ \<Rightarrow> None)"

definition entry_thinking :: "entry \<Rightarrow> string option" where
  "entry_thinking e = (case e_body e of ThinkingLevelEntry l \<Rightarrow> Some l | _ \<Rightarrow> None)"

definition entry_tools :: "entry \<Rightarrow> string list option" where
  "entry_tools e = (case e_body e of ActiveToolsEntry ts \<Rightarrow> Some ts | _ \<Rightarrow> None)"

definition newest_or :: "'a \<Rightarrow> (entry \<Rightarrow> 'a option) \<Rightarrow> entry list \<Rightarrow> 'a" where
  "newest_or d f es = (case last_opt (List.map_filter f es) of None \<Rightarrow> d | Some v \<Rightarrow> v)"

lemma newest_or_snoc: "newest_or d f (es @ [e]) = (case f e of None \<Rightarrow> newest_or d f es | Some v \<Rightarrow> v)"
  by (simp add: newest_or_def map_filter_snoc split: option.splits)

lemma foldl_configure:
  "foldl configure d es = d\<lparr>lc_model := newest_or (lc_model d) entry_model es,
     lc_thinkingLevel := newest_or (lc_thinkingLevel d) entry_thinking es,
     lc_activeToolNames := newest_or (lc_activeToolNames d) entry_tools es\<rparr>"
proof (induction es rule: rev_induct)
  case (snoc e es)
  then show ?case
    by (simp add: newest_or_snoc configure_def entry_model_def entry_thinking_def entry_tools_def
        split: entry_body.splits agent_message.splits)
qed (simp add: newest_or_def List.map_filter_def)

text \<open>Adding the entry of a pending input removes that input, and nothing else, from what is pending.\<close>

lemma pending_queue_deliver:
  assumes "\<And>i. js_has byId' i \<longleftrightarrow> js_has byId i \<or> i = d"
  shows "pending_queue byId' rs = filter (\<lambda>(_, _, t). p_id t \<noteq> d) (pending_queue byId rs)"
  unfolding pending_queue_def filter_filter
  by (rule filter_cong) (auto simp: assms)

lemma pending_of_filter:
  "pending_of q operation (filter (\<lambda>(_, _, t). p_id t \<noteq> d) items) = filter (\<lambda>t. p_id t \<noteq> d) (pending_of q operation items)"
  by (induction items) (auto simp: pending_of_def)

lemma pending_next_run_deliver:
  assumes "\<And>i. js_has byId' i \<longleftrightarrow> js_has byId i \<or> i = d"
  shows "pending_next_run byId' rs captured = filter (\<lambda>t. p_id t \<noteq> d) (pending_next_run byId rs captured)"
proof -
  have "map (\<lambda>(_, _, target). target) (filter (\<lambda>(q, _, target). q = NextRunQueue \<and> p_id target \<notin> captured)
      (filter (\<lambda>(_, _, t). p_id t \<noteq> d) items)) =
    filter (\<lambda>t. p_id t \<noteq> d) (map (\<lambda>(_, _, target). target)
      (filter (\<lambda>(q, _, target). q = NextRunQueue \<and> p_id target \<notin> captured) items))"
    for items :: "(queue \<times> string option \<times> provisioned_entry) list"
    by (induction items) auto
  then show ?thesis by (simp add: pending_next_run_def pending_queue_deliver [OF assms])
qed

definition pending_inputs :: "operation_state \<Rightarrow> provisioned_entry list list" where
  "pending_inputs op = [os_missingInitialMessages op, os_pendingSteer op, os_pendingFollowUp op, os_pendingWrites op]"

lemma reduce_operation_deliver:
  assumes "\<And>i. js_has byId' i \<longleftrightarrow> js_has byId i \<or> i = d"
  shows "pending_inputs (reduce_operation byId' rs own' started) =
     map (filter (\<lambda>t. p_id t \<noteq> d)) (pending_inputs (reduce_operation byId rs own started))"
  by (simp add: pending_inputs_def reduce_operation_def Let_def pending_queue_deliver [OF assms] pending_of_filter assms)

end
