(* ===== verification/Session_Context.thy ===== *)
theory Session_Context
  imports Session_Types
begin

text \<open>
  From a branch of entries to the messages of a model request:
  \<^verbatim>\<open>packages/agent/src/harness/session-v4/context.ts\<close> and
  \<^verbatim>\<open>packages/agent/src/harness/messages.ts\<close>. The caller's entry transforms and projectors of
  custom entries are function arguments, as in the code.
\<close>

section \<open>Building the context\<close>

record session_context =
  sc_messages :: "agent_message list"
  sc_thinkingLevel :: string
  sc_model :: "(string \<times> string) option"
  sc_activeToolNames :: "string list option"

type_synonym entry_transform = "entry list \<Rightarrow> entry list"

type_synonym entry_projector = "entry \<Rightarrow> nat \<Rightarrow> entry list \<Rightarrow> agent_message list option"

record context_options =
  co_entryTransforms :: "entry_transform list"
  co_entryProjectors :: "string \<rightharpoonup> entry_projector"

definition no_options :: context_options where
  "no_options = \<lparr>co_entryTransforms = [], co_entryProjectors = Map.empty\<rparr>"

definition context_step :: "session_context \<Rightarrow> entry \<Rightarrow> session_context" where
  "context_step c e = (case e_body e of
      ThinkingLevelEntry l \<Rightarrow> c\<lparr>sc_thinkingLevel := l\<rparr>
    | ModelChangeEntry provider modelId \<Rightarrow> c\<lparr>sc_model := Some (provider, modelId)\<rparr>
    | MessageEntry (AssistantMessage m) _ \<Rightarrow> c\<lparr>sc_model := Some (am_provider m, am_model m)\<rparr>
    | ActiveToolsEntry tools \<Rightarrow> c\<lparr>sc_activeToolNames := Some tools\<rparr>
    | _ \<Rightarrow> c)"

text \<open>The derived state, in a context whose messages are still empty.\<close>

definition deriveSessionContextState :: "entry list \<Rightarrow> session_context" where
  "deriveSessionContextState path = foldl context_step
     \<lparr>sc_messages = [], sc_thinkingLevel = ''off'', sc_model = None, sc_activeToolNames = None\<rparr> path"

text \<open>
  The backward search for the last compaction entry: the entries after it, and itself,
  of a path given newest first; \<open>None\<close> when there is none.
\<close>

fun since_compaction :: "entry list \<Rightarrow> entry list \<Rightarrow> entry list option" where
  "since_compaction later [] = None"
| "since_compaction later (e # es) =
     (if e_type e = CompactionT then Some (e # later) else since_compaction (e # later) es)"

definition defaultContextEntryTransform :: "entry list \<Rightarrow> entry list" where
  "defaultContextEntryTransform path = (case since_compaction [] (rev path) of None \<Rightarrow> path | Some es \<Rightarrow> es)"

definition buildContextEntries :: "entry list \<Rightarrow> context_options \<Rightarrow> entry list" where
  "buildContextEntries path opts =
     foldl (\<lambda>es transform. transform es) (defaultContextEntryTransform path) (co_entryTransforms opts)"

definition createBranchSummaryMessage :: "string \<Rightarrow> string \<Rightarrow> int \<Rightarrow> agent_message" where
  "createBranchSummaryMessage summary fromId timestamp = BranchSummaryMessage summary fromId timestamp"

definition createCompactionSummaryMessage :: "string \<Rightarrow> int \<Rightarrow> int \<Rightarrow> agent_message" where
  "createCompactionSummaryMessage summary tokensBefore timestamp = CompactionSummaryMessage summary tokensBefore timestamp"

definition sessionEntryToContextMessages :: "entry \<Rightarrow> nat \<Rightarrow> entry list \<Rightarrow> context_options \<Rightarrow> agent_message list" where
  "sessionEntryToContextMessages e index es opts = (case e_body e of
      MessageEntry m _ \<Rightarrow>
        (case m of AssistantMessage a \<Rightarrow> if am_stopReason a = DeferredStop then [] else [m] | _ \<Rightarrow> [m])
    | CompactionEntry summary retainedTail tokensBefore _ _ \<Rightarrow>
        createCompactionSummaryMessage summary tokensBefore (e_timestamp e) # retainedTail
    | BranchSummaryEntry fromId summary _ _ \<Rightarrow>
        if summary = '''' then [] else [createBranchSummaryMessage summary fromId (e_timestamp e)]
    | CustomEntry customType _ \<Rightarrow>
        (case co_entryProjectors opts customType of
           None \<Rightarrow> []
         | Some project \<Rightarrow> (case project e index es of None \<Rightarrow> [] | Some ms \<Rightarrow> ms))
    | _ \<Rightarrow> [])"

definition buildSessionContext :: "entry list \<Rightarrow> context_options \<Rightarrow> session_context" where
  "buildSessionContext path opts =
     (let contextEntries = buildContextEntries path opts
      in (deriveSessionContextState path)\<lparr>sc_messages :=
            concat (map (\<lambda>(i, e). sessionEntryToContextMessages e i contextEntries opts)
              (enumerate 0 contextEntries))\<rparr>)"

section \<open>Messages for the model\<close>

definition compaction_summary_prefix :: string where
  "compaction_summary_prefix =
     ''The conversation history before this point was compacted into the following summary:'' @
     newline @ newline @ ''<summary>'' @ newline"

definition compaction_summary_suffix :: string where
  "compaction_summary_suffix = newline @ ''</summary>''"

definition branch_summary_prefix :: string where
  "branch_summary_prefix =
     ''The following is a summary of a branch that this conversation came back from:'' @
     newline @ newline @ ''<summary>'' @ newline"

definition branch_summary_suffix :: string where
  "branch_summary_suffix = ''</summary>''"

definition bashExecutionToText :: "bash_execution_message \<Rightarrow> string" where
  "bashExecutionToText m =
     ''Ran `'' @ be_command m @ ''`'' @ newline @
     (if be_output m \<noteq> '''' then ''```'' @ newline @ be_output m @ newline @ ''```'' else ''(no output)'') @
     (if be_cancelled m then newline @ newline @ ''(command cancelled)''
      else (case be_exitCode m of
              None \<Rightarrow> ''''
            | Some c \<Rightarrow> if c \<noteq> 0 then newline @ newline @ ''Command exited with code '' @ dec_of_int c else '''')) @
     (case be_fullOutputPath m of
        None \<Rightarrow> ''''
      | Some path \<Rightarrow> if be_truncated m \<and> path \<noteq> ''''
                     then newline @ newline @ ''[Output truncated. Full output: '' @ path @ '']'' else '''')"

definition user_text :: "string \<Rightarrow> int \<Rightarrow> agent_message" where
  "user_text text timestamp = UserMessage (BlockContent [TextContent text None]) timestamp"

text \<open>The roles of \<open>agent_message\<close> are those that the package defines; a message of a role that an extension declares would be dropped.\<close>

fun llm_message :: "agent_message \<Rightarrow> agent_message option" where
  "llm_message (BashExecutionMessage m) =
     (if be_excludeFromContext m then None else Some (user_text (bashExecutionToText m) (be_timestamp m)))"
| "llm_message (CustomMessage m) = Some (UserMessage (case cm_content m of
      PlainContent s \<Rightarrow> BlockContent [TextContent s None]
    | BlockContent bs \<Rightarrow> BlockContent bs) (cm_timestamp m))"
| "llm_message (BranchSummaryMessage summary _ timestamp) =
     Some (user_text (branch_summary_prefix @ summary @ branch_summary_suffix) timestamp)"
| "llm_message (CompactionSummaryMessage summary _ timestamp) =
     Some (user_text (compaction_summary_prefix @ summary @ compaction_summary_suffix) timestamp)"
| "llm_message (UserMessage c timestamp) = Some (UserMessage c timestamp)"
| "llm_message (AssistantMessage m) = Some (AssistantMessage m)"
| "llm_message (ToolResultMessage m) = Some (ToolResultMessage m)"

definition convertToLlm :: "agent_message list \<Rightarrow> agent_message list" where
  "convertToLlm ms = List.map_filter llm_message ms"

section \<open>Facts\<close>

lemma since_compaction_None: "since_compaction later es = None \<longleftrightarrow> (\<forall>e \<in> set es. e_type e \<noteq> CompactionT)"
  by (induction later es rule: since_compaction.induct) auto

lemma since_compaction_append:
  "(\<forall>e \<in> set es. e_type e \<noteq> CompactionT) \<Longrightarrow> since_compaction later (es @ rest) = since_compaction (rev es @ later) rest"
  by (induction es arbitrary: later) auto

lemma defaultContextEntryTransform_last:
  assumes "e_type c = CompactionT" "\<forall>e \<in> set post. e_type e \<noteq> CompactionT"
  shows "defaultContextEntryTransform (pre @ c # post) = c # post"
  using assms by (simp add: defaultContextEntryTransform_def since_compaction_append)

lemma defaultContextEntryTransform_none:
  "\<forall>e \<in> set path. e_type e \<noteq> CompactionT \<Longrightarrow> defaultContextEntryTransform path = path"
proof -
  assume "\<forall>e \<in> set path. e_type e \<noteq> CompactionT"
  then have "since_compaction [] (rev path) = None" by (simp add: since_compaction_None)
  then show ?thesis by (simp add: defaultContextEntryTransform_def)
qed

lemma deriveSessionContextState_messages [simp]: "sc_messages (deriveSessionContextState path) = []"
proof -
  have "sc_messages (foldl context_step c path) = sc_messages c" for c
    by (induction path arbitrary: c)
      (auto simp: context_step_def split: entry_body.splits agent_message.splits)
  then show ?thesis by (simp add: deriveSessionContextState_def)
qed

definition is_llm_role :: "role \<Rightarrow> bool" where
  "is_llm_role r \<longleftrightarrow> r = UserRole \<or> r = AssistantRole \<or> r = ToolResultRole"

lemma llm_message_role: "llm_message m = Some m' \<Longrightarrow> is_llm_role (role_of m')"
  by (cases m) (auto simp: is_llm_role_def user_text_def split: if_splits)

lemma llm_message_id: "is_llm_role (role_of m) \<Longrightarrow> llm_message m = Some m"
  by (cases m) (auto simp: is_llm_role_def)

lemma convertToLlm_roles: "m \<in> set (convertToLlm ms) \<Longrightarrow> is_llm_role (role_of m)"
  by (auto simp: convertToLlm_def List.map_filter_def intro: llm_message_role)

lemma convertToLlm_id: "\<forall>m \<in> set ms. is_llm_role (role_of m) \<Longrightarrow> convertToLlm ms = ms"
  by (induction ms) (auto simp: convertToLlm_def List.map_filter_simps llm_message_id)

end
