(* ===== verification/Session_Props.thy ===== *)
theory Session_Props
  imports Session_Facade Session_Reducer_Props Session_Context "HOL-Library.Sublist"
begin

text \<open>
  The properties of the session components: the consistency of the state that mutations build,
  queries and forks over it, the storage and its lanes, the durable record log that the reducer
  validates and reduces, and the context that is built from a branch.
\<close>

section \<open>Helpers\<close>

lemma applyMutations_reachable:
  "reachable_state st \<Longrightarrow> applyMutations st ms = Inr st' \<Longrightarrow> reachable_state st'"
  unfolding applyMutations_def
  by (induction ms arbitrary: st) (auto simp: bind_result_Inr_iff intro: reachable_apply)

text \<open>A session with two entries on \<^verbatim>\<open>main\<close>, an open operation and a name.\<close>

definition demo_entry :: "string \<Rightarrow> int \<Rightarrow> string option \<Rightarrow> entry" where
  "demo_entry i s parent = \<lparr>e_id = i, e_seq = s, e_parentId = parent, e_timestamp = 0,
     e_body = MessageEntry (UserMessage (PlainContent i) 0) False\<rparr>"

definition demo_started :: lane_record where
  "demo_started = \<lparr>r_id = ''op'', r_seq = 3, r_lane = ''main'', r_timestamp = 0,
     r_body = OperationStarted (Some ''b'') (RunIntent [] [] None None)\<rparr>"

definition demo_mutations :: "session_mutation list" where
  "demo_mutations = [EntryMutation (Some ''main'') (demo_entry ''a'' 1 None),
     EntryMutation (Some ''main'') (demo_entry ''b'' 2 (Some ''a'')), RecordMutation demo_started, NameMutation 4 ''demo'']"

definition demo_session :: session_state where
  "demo_session = sum.projr (applyMutations init_state demo_mutations)"

lemmas demo_session_defs = demo_mutations_def demo_entry_def demo_started_def

lemma demo_applies: "applyMutations init_state demo_mutations = Inr demo_session"
  by (simp add: demo_session_def demo_session_defs applyMutations_def init_state_def lane_accepts_def parent_exists_def)

lemma demo_reachable: "reachable_state demo_session"
  using applyMutations_reachable [OF reachable_init demo_applies] .

lemma demo_fields:
  "entries demo_session = [demo_entry ''a'' 1 None, demo_entry ''b'' 2 (Some ''a'')]"
  "records demo_session = [demo_started]" "name demo_session = Some ''demo''" "labels demo_session = []"
  "lanes demo_session = [(''main'', Some ''b'')]" "sequence demo_session = 4"
  by (simp_all add: demo_session_def demo_session_defs applyMutations_def init_state_def lane_accepts_def parent_exists_def)

section \<open>State, queries and forks\<close>

text \<open>
  C1. Every state that accepted mutations build is consistent: the log is numbered from one without
  gaps and holds exactly the entries and records in order, ids are unique over both, the index
  agrees with the entries, every entry's parent comes before it, lanes and labels point at existing
  entries, and the open operations and the statistics are those the records determine.
\<close>

theorem session_consistent:
  assumes "reachable_state st"
  shows "session_wf st"
  using assms by (rule reachable_wf)

theorem session_consistent_witness: "session_wf demo_session"
  using session_consistent [OF demo_reachable] .

text \<open>
  C31. The walk from an entry to the root ends without an error on every reachable state and for every
  stop condition: it yields the chain of parents from that entry, strictly falling in sequence,
  up to and including the first entry that meets the stop condition; an unknown entry is
  reported as not found.
\<close>

theorem walk_to_root:
  assumes "reachable_state st"
  shows "if i \<in> entry_ids st
    then \<exists>path. branch_path (entries st) i path \<and> sorted_wrt (>) (map e_seq path) \<and>
           walkToRoot st b (Some i) = (take_upto (bound_hit b) path, None)
    else walkToRoot st b (Some i) = ([], Some NotFound)"
  using walkToRoot_ok [OF reachable_wf [OF assms]] walkToRoot_missing [OF reachable_wf [OF assms]] by auto

theorem walk_to_root_witness:
  "\<exists>path. branch_path (entries demo_session) ''b'' path \<and> sorted_wrt (>) (map e_seq path) \<and>
     walkToRoot demo_session no_bounds (Some ''b'') = (take_upto (bound_hit no_bounds) path, None)"
  using walk_to_root [OF demo_reachable, of "''b''" no_bounds] by (simp add: entry_ids_def demo_fields demo_entry_def)

text \<open>
  C28. A branch query returns what its specification says, in both orders although the code walks the
  branch lazily in one and collects it first in the other: a bad limit or cursor is refused, an
  unknown start is not found, and otherwise the result is the branch in the asked order, cut after
  the first entry that meets a bound, filtered by the query and cut to the limit.
\<close>

theorem branch_query:
  assumes "reachable_state st"
  shows "findEntriesOnBranch st q b i =
    (if \<not> (valid_limit (q_limit q) \<and> valid_cursor (q_cursor q)) then Inl InvalidQuery
     else if i \<notin> entry_ids st then Inl NotFound
     else Inr (limited (q_limit q) (filter (\<lambda>e. matchesEntryQuery e q)
            (take_upto (bound_hit b) (in_order (rev (branch_of st i)) (q_order q))))))"
proof -
  note wf = reachable_wf [OF assms]
  have "findEntriesOnBranch st q b i = Inl NotFound"
    if "valid_limit (q_limit q)" "valid_cursor (q_cursor q)" "i \<notin> entry_ids st"
    using that walkToRoot_missing [OF wf that(3)]
    by (simp add: findEntriesOnBranch_def assertValidLimit_eq assertValidCursor_eq guard_result_def)
  then show ?thesis
    using findEntriesOnBranch_eq [OF wf] findEntriesOnBranch_invalid [of q st b i] by auto
qed

theorem branch_query_witness:
  "findEntriesOnBranch demo_session newest_first no_bounds ''missing'' = Inl NotFound"
  using branch_query [OF demo_reachable, of newest_first no_bounds "''missing''"]
  by (simp add: newest_first_def valid_limit_def valid_cursor_def entry_ids_def demo_fields demo_entry_def)

text \<open>
  Queries over all entries and all records refuse a bad limit or cursor, and otherwise return
  the matching items in the asked order, cut to the limit: stopping the scan early loses nothing.
\<close>

lemma session_query:
  "findEntries st q =
     (if valid_limit (q_limit q) \<and> valid_cursor (q_cursor q)
      then Inr (limited (q_limit q) (filter (\<lambda>e. matchesEntryQuery e q) (in_order (entries st) (q_order q))))
      else Inl InvalidQuery) \<and>
   findRecords st rq =
     (if valid_limit (rq_limit rq) \<and> valid_cursor (rq_afterSeq rq)
      then Inr (limited (rq_limit rq) (filter (\<lambda>r. matchesRecordQuery r rq) (in_order (records st) (rq_order rq))))
      else Inl InvalidQuery)"
  by (auto simp: findEntries_def findRecords_def assertValidLimit_eq assertValidCursor_eq guard_result_def collect_eq)

lemma open_spec_iff:
  assumes "distinct (map r_id rs)"
  shows "r \<in> set (open_spec rs lane) \<longleftrightarrow> (\<exists>pre post. rs = pre @ r # post \<and> r_type r = OperationStartedT \<and> r_lane r = lane \<and>
    (\<forall>f \<in> set post. r_lane f = lane \<longrightarrow> body_finishes (r_body f) \<noteq> Some (r_id r)))"
  using assms
proof (induction rs rule: rev_induct)
  case (snoc x rs)
  let ?ok = "\<lambda>rs. \<exists>pre post. rs = pre @ r # post \<and> r_type r = OperationStartedT \<and> r_lane r = lane \<and>
    (\<forall>f \<in> set post. r_lane f = lane \<longrightarrow> body_finishes (r_body f) \<noteq> Some (r_id r))"
  have split: "?ok (rs @ [x]) \<longleftrightarrow>
      (r = x \<and> r_type r = OperationStartedT \<and> r_lane r = lane) \<or>
      (?ok rs \<and> (r_lane x = lane \<longrightarrow> body_finishes (r_body x) \<noteq> Some (r_id r)))" (is "?l \<longleftrightarrow> ?r")
  proof
    assume ?l
    then obtain pre post where p: "rs @ [x] = pre @ r # post" "r_type r = OperationStartedT" "r_lane r = lane"
      "\<forall>f \<in> set post. r_lane f = lane \<longrightarrow> body_finishes (r_body f) \<noteq> Some (r_id r)" by blast
    then show ?r by (cases post rule: rev_cases) fastforce+
  next
    assume ?r
    then consider "r = x \<and> r_type r = OperationStartedT \<and> r_lane r = lane" |
      "?ok rs \<and> (r_lane x = lane \<longrightarrow> body_finishes (r_body x) \<noteq> Some (r_id r))" by blast
    then show ?l
    proof cases
      case 1
      moreover from this have "rs @ [x] = rs @ r # []" by simp
      ultimately show ?thesis by (metis empty_iff list.set(1))
    next
      case 2
      then obtain pre post where "rs = pre @ r # post" "r_type r = OperationStartedT" "r_lane r = lane"
        "\<forall>f \<in> set (post @ [x]). r_lane f = lane \<longrightarrow> body_finishes (r_body f) \<noteq> Some (r_id r)" by auto
      moreover from this have "rs @ [x] = pre @ r # (post @ [x])" by simp
      ultimately show ?thesis by blast
    qed
  qed
  have new: "r_id x \<noteq> r_id r" if "?ok rs" using that snoc.prems by auto
  show ?case
    using snoc split new by (auto simp: open_spec_snoc open_step_def r_type_def split: record_body.splits if_splits)
qed (simp add: open_spec_def)

lemma open_spec_subseq: "subseq (open_spec rs lane) rs"
proof (induction rs rule: rev_induct)
  case (snoc r rs)
  have "subseq (filter p (open_spec rs lane)) (rs @ [r])" for p
    using subseq_order.order_trans [OF subseq_filter_left snoc] list_emb_append_mono [of _ _ rs "[]" "[r]"] by fastforce
  then show ?case using snoc by (auto simp: open_spec_snoc open_step_def split: record_body.splits)
qed (simp add: open_spec_def)

text \<open>
  The open operations that a session reports for a lane, without scanning its records, are exactly
  the operations started in that lane for which no later record of the lane reports the end;
  they come newest first and cut to the limit.
\<close>

lemma open_operations_tracked:
  assumes "reachable_state st" "valid_limit limit"
  shows "\<exists>ops. findOpenOperations st lane limit = Inr (limited limit ops) \<and> subseq (rev ops) (records st) \<and>
    (\<forall>r. r \<in> set ops \<longleftrightarrow> (\<exists>pre post. records st = pre @ r # post \<and> r_type r = OperationStartedT \<and> r_lane r = lane \<and>
       (\<forall>f \<in> set post. r_lane f = lane \<longrightarrow> body_finishes (r_body f) \<noteq> Some (r_id r))))"
proof -
  note wf = reachable_wf [OF assms(1)]
  let ?ops = "rev (open_spec (records st) lane)"
  have "findOpenOperations st lane limit = Inr (limited limit ?ops)"
    using assms(2) by (simp add: findOpenOperations_def assertValidLimit_eq guard_result_def limited_def
        open_operations_spec [OF wf] split: option.splits js_num.splits)
  moreover have "distinct (map r_id (records st))" using wf by (simp add: session_wf_def wf_ids_def)
  ultimately show ?thesis using open_spec_iff [of "records st"] open_spec_subseq [of "records st" lane]
    by (intro exI [of _ ?ops]) auto
qed

lemma log_after:
  assumes "map log_seq xs = map int [1..<Suc (length xs)]" "0 \<le> n"
  shows "filter (\<lambda>x. log_seq x > n) xs = drop (nat n) xs"
proof -
  have seq: "log_seq (xs ! k) = int k + 1" if "k < length xs" for k
    using that arg_cong [OF assms(1), of "\<lambda>ys. ys ! k"] by (simp del: upt_Suc)
  have "filter (\<lambda>x. log_seq x > n) (take (nat n) xs) = []"
    using seq assms(2) by (auto simp: filter_empty_conv in_set_conv_nth)
  moreover have "filter (\<lambda>x. log_seq x > n) (drop (nat n) xs) = drop (nat n) xs"
    using seq assms(2) by (auto simp: filter_id_conv in_set_conv_nth)
  ultimately show ?thesis using filter_append [of "\<lambda>x. log_seq x > n" "take (nat n) xs" "drop (nat n) xs"] by simp
qed

text \<open>
  Reading the log from a cursor skips nothing and repeats nothing: with a cursor after the
  item numbered \<open>n\<close> the result is the log without its first \<open>n\<close> items, cut to the limit, so that
  pages read one after the other make up the log.
\<close>

lemma log_pages:
  assumes "reachable_state st" "0 \<le> n" "valid_limit limit"
  shows "getLog st \<lparr>lo_afterSeq = Some (JsInt n), lo_limit = limit\<rparr> = Inr (limited limit (drop (nat n) (log st)))"
proof -
  have "map log_seq (log st) = map int [1..<Suc (length (log st))]"
    using reachable_wf [OF assms(1)] by (simp add: session_wf_def wf_log_def)
  then show ?thesis
    using assms(2,3) log_after
    by (simp add: getLog_def assertValidLimit_eq assertValidCursor_eq guard_result_def valid_cursor_def collect_eq)
qed

text \<open>
  C9. Forking a session copies what was selected and nothing else: the mutations that a fork creates are
  all accepted by an empty session, and the result has the selected entries in their order with
  their parents, renumbered from one, the selected lanes, the name, the labels of the copied
  entries, and no records.
\<close>

theorem fork_replays:
  assumes "reachable_state st" "createForkMutations st opts = Inr ms"
  shows "\<exists>es ls st'. fork_selected st opts es ls \<and> applyMutations init_state ms = Inr st' \<and>
     entries st' = renumber 1 es \<and> records st' = [] \<and> name st' = name st \<and>
     (\<forall>l. js_get (lanes st') l = js_get ls l) \<and>
     (\<forall>i. getLabel st' i = (if i \<in> e_id ` set es then getLabel st i else None))"
  using fork_replays_wf [OF reachable_wf [OF assms(1)] assms(2)] .

theorem fork_replays_witness:
  "\<exists>es ls st'. fork_selected demo_session TreeFork es ls \<and>
     applyMutations init_state (sum.projr (createForkMutations demo_session TreeFork)) = Inr st' \<and>
     entries st' = renumber 1 es \<and> records st' = [] \<and> name st' = name demo_session \<and>
     (\<forall>l. js_get (lanes st') l = js_get ls l) \<and>
     (\<forall>i. getLabel st' i = (if i \<in> e_id ` set es then getLabel demo_session i else None))"
proof -
  have "createForkMutations demo_session TreeFork = Inr (sum.projr (createForkMutations demo_session TreeFork))"
    by (simp add: createForkMutations_def fork_selection_def findEntries_all Let_def)
  then show ?thesis by (rule fork_replays [OF demo_reachable])
qed

section \<open>The storage and its lanes\<close>

inductive storage_reachable :: "memory_storage \<Rightarrow> bool" where
  sr_new: "storage_reachable (memory_new metadata)"
| sr_fork: "storage_reachable s \<Longrightarrow> memory_fork s metadata opts = Inr s' \<Longrightarrow> storage_reachable s'"
| sr_createLane: "storage_reachable s \<Longrightarrow> memory_createLane s lane at = Inr s' \<Longrightarrow> storage_reachable s'"
| sr_moveLane: "storage_reachable s \<Longrightarrow> memory_moveLane s lane to = Inr s' \<Longrightarrow> storage_reachable s'"
| sr_appendEntry: "storage_reachable s \<Longrightarrow> memory_appendEntry s now p lane = Inr (s', e) \<Longrightarrow> storage_reachable s'"
| sr_appendRecord: "storage_reachable s \<Longrightarrow> memory_appendRecord s now n = Inr (s', r) \<Longrightarrow> storage_reachable s'"
| sr_setName: "storage_reachable s \<Longrightarrow> memory_setName s nm = Inr s' \<Longrightarrow> storage_reachable s'"
| sr_setLabel: "storage_reachable s \<Longrightarrow> memory_setLabel s i label = Inr s' \<Longrightarrow> storage_reachable s'"

lemma storage_reachable_wf: "storage_reachable s \<Longrightarrow> storage_wf s"
  by (induction rule: storage_reachable.induct)
    (auto intro: memory_new_wf memory_fork_wf memory_createLane_wf memory_moveLane_wf memory_appendEntry_wf
      memory_appendRecord_wf memory_setName_wf memory_setLabel_wf)

definition demo_storage :: memory_storage where
  "demo_storage = memory_new \<lparr>sm_id = ''s'', sm_createdAt = 0, sm_parentSessionId = None\<rparr>"

lemma demo_storage_reachable: "storage_reachable demo_storage"
  unfolding demo_storage_def by (rule sr_new)

definition demo_start :: "string \<Rightarrow> new_record" where
  "demo_start i = \<lparr>n_id = i, n_lane = ''main'', n_body = OperationStarted None (RunIntent [] [] None None)\<rparr>"

definition demo_running :: memory_storage where
  "demo_running = fst (sum.projr (memory_appendRecord demo_storage 0 (demo_start ''op'')))"

lemma memory_appendRecord_simp:
  "memory_appendRecord s now n =
     (if \<not> js_has (lanes (ms_state s)) (n_lane n) then Inl InvalidLane
      else if n_id n \<in> usedIds (ms_state s) then Inl AlreadyExists
      else if record_body_type (n_body n) = OperationStartedT \<and> open_operations (ms_state s) (n_lane n) \<noteq> [] then Inl StorageError
      else let r = \<lparr>r_id = n_id n, r_seq = nextSequence (ms_state s), r_lane = n_lane n, r_timestamp = now, r_body = n_body n\<rparr>
           in bind_result (memory_apply s (RecordMutation r)) (\<lambda>s'. Inr (s', r)))"
  by (auto simp: memory_appendRecord_def requireLane_def js_has_iff_get validateUnusedId_def guard_result_def
      findOpenOperations_def assertValidLimit_def Let_def split: option.splits)

lemmas demo_storage_run = demo_running_def memory_appendRecord_simp demo_storage_def demo_start_def memory_new_def init_state_def
  open_operations_def memory_apply_def nextSequence_def track_operations_def add_open_operation_def Let_def

lemma demo_running_step:
  "memory_appendRecord demo_storage 0 (demo_start ''op'') =
     Inr (demo_running, \<lparr>r_id = ''op'', r_seq = 1, r_lane = ''main'', r_timestamp = 0, r_body = n_body (demo_start ''op'')\<rparr>)"
  by (simp add: demo_storage_run)

lemma demo_running_reachable: "storage_reachable demo_running"
  using sr_appendRecord [OF demo_storage_reachable demo_running_step] .

text \<open>
  Whatever operations a storage goes through, forks included, no lane ever has two open
  operations: starting one while another is open is refused, and every other
  record for a known lane with a fresh id is accepted.
\<close>

lemma one_open_operation:
  assumes "storage_reachable s"
  shows "length (open_operations (ms_state s) lane) \<le> 1 \<and>
    ((\<exists>r. memory_appendRecord s now n = Inr r) \<longleftrightarrow>
       js_has (lanes (ms_state s)) (n_lane n) \<and> n_id n \<notin> usedIds (ms_state s) \<and>
       (record_body_type (n_body n) = OperationStartedT \<longrightarrow> open_operations (ms_state s) (n_lane n) = []))"
proof -
  have "length (open_operations (ms_state s) lane) \<le> 1"
    using storage_reachable_wf [OF assms] by (simp add: storage_wf_def)
  moreover have "(\<exists>r. memory_appendRecord s now n = Inr r) \<longleftrightarrow>
      js_has (lanes (ms_state s)) (n_lane n) \<and> n_id n \<notin> usedIds (ms_state s) \<and>
      \<not> (record_body_type (n_body n) = OperationStartedT \<and> open_operations (ms_state s) (n_lane n) \<noteq> [])"
    by (auto simp: memory_appendRecord_simp Let_def memory_apply_def nextSequence_def)
  ultimately show ?thesis by blast
qed

section \<open>The facade\<close>

text \<open>
  C39. The check of payloads ends on every object graph, cyclic ones included, and accepts exactly the
  values that unfold to a finite tree of plain JSON data: null, strings, booleans, finite numbers, arrays without holes and further
  properties, and objects without a class of their own, with enumerable data properties only (\<open>plain_object\<close>).
\<close>

theorem payload_check:
  "\<exists>verdict. assertJsonSerializable heap v = Some verdict \<and> (verdict = Inr () \<longleftrightarrow> serializable heap v)"
  by (simp add: assertJsonSerializable_eq check_values_iff del: check_values.simps)

text \<open>
  A message is accepted on a lane exactly when the lane exists, the id is new and the payload is
  plain data. Once accepted, it is the leaf of the lane, and the lane's branch is that message
  followed by the branch as it was.
\<close>

lemma append_message:
  assumes "storage_reachable s"
  shows "((\<exists>r. appendMessageToLane memory_ops s now i heap lane m = Inr r) \<longleftrightarrow>
      js_has (lanes (ms_state s)) lane \<and> i \<notin> usedIds (ms_state s) \<and>
      (let (heap', raw) = js_literal heap
         [(''type'', VString ''message''), (''id'', VString i), (''message'', fst m)] in serializable heap' raw)) \<and>
    (\<forall>s' r. appendMessageToLane memory_ops s now i heap lane m = Inr (s', r) \<longrightarrow>
      getLeafIdForLane memory_ops s' lane = Inr (Some i) \<and>
      (\<exists>e. e_id e = i \<and> e_body e = MessageEntry (snd m) False \<and>
         queryBranchEntries memory_ops s' lane newest_first (whole_branch None) None =
         map_sum id (\<lambda>es. e # es) (queryBranchEntries memory_ops s lane newest_first (whole_branch None) None)))"
proof -
  note wf = storage_reachable_wf [OF assms]
  have "so_getLanes memory_ops s = lanes (ms_state s)" "storage_used s = usedIds (ms_state s)"
    by (simp_all add: memory_ops_def getLanes_def storage_used_def)
  then show ?thesis
    using memory.append_message_accepts [OF wf, of now i heap lane m] memory.append_message_leaf [OF wf, of now i heap lane m]
      memory.append_message_branch [OF wf, of now i heap lane m]
    by (metis (no_types, lifting))
qed

lemma demo_message_plain:
  "serializable [PlainObject ObjectPrototype 0 [(''type'', True, DataProperty (VString ''message'')),
     (''id'', True, DataProperty (VString ''m1'')), (''message'', True, DataProperty (VString ''hi''))]] (VRef 0)"
  by (rule serializable.intros(5) [of _ _ "[VString ''message'', VString ''m1'', VString ''hi'']"])
    (auto intro: serializable.intros)

text \<open>
  Lanes are isolated: appending a message on one lane changes neither the leaf of another lane nor the
  result of any branch query made through that other lane's view from an entry that existed.
\<close>

lemma lanes_isolated:
  assumes "storage_reachable s" "appendMessageToLane memory_ops s now i heap lane m = Inr (s', r)" "lane' \<noteq> lane"
    and "\<And>j. b_start b = Some j \<Longrightarrow> j \<in> entry_ids (ms_state s)"
  shows "sv_getLeafId (lane_view memory_ops lane') s' = sv_getLeafId (lane_view memory_ops lane') s \<and>
    sv_findEntriesOnBranch (lane_view memory_ops lane') s' q b = sv_findEntriesOnBranch (lane_view memory_ops lane') s q b"
proof -
  note wf = storage_reachable_wf [OF assms(1)]
  then have "so_getEntry memory_ops s j \<noteq> None" if "b_start b = Some j" for j
    using assms(4) [OF that] entry_index_has [of "ms_state s" j]
    by (auto simp: memory_ops_def getEntry_def storage_wf_def session_wf_def js_has_iff_get)
  then show ?thesis
    using memory.append_message_isolated [OF wf assms(2,3), of b q None] by (simp add: lane_view_def)
qed

section \<open>The record log of a lane\<close>

text \<open>A lane with a run that started one tool call of its newest response.\<close>

definition demo_tool_call :: tool_call where
  "demo_tool_call = \<lparr>tc_id = ''call'', tc_name = ''read'', tc_arguments = JNull, tc_thoughtSignature = None, tc_namespace = None\<rparr>"

definition demo_usage :: usage where
  "demo_usage = \<lparr>u_input = 1, u_output = 1, u_cacheRead = 0, u_cacheWrite = 0, u_cacheWrite1h = None, u_reasoning = None,
     u_totalTokens = 2, u_cost = \<lparr>c_input = Dec 0 0, c_output = Dec 0 0, c_cacheRead = Dec 0 0, c_cacheWrite = Dec 0 0, c_total = Dec 0 0\<rparr>\<rparr>"

definition demo_response :: assistant_message where
  "demo_response = \<lparr>am_content = [ToolCallContent demo_tool_call], am_api = ''api'', am_provider = ''p'', am_model = ''m'',
     am_responseModel = None, am_responseId = None, am_diagnostics = None, am_usage = demo_usage, am_stopReason = ToolUseStop,
     am_deferred = None, am_errorMessage = None, am_rawStopReason = None, am_endTurn = None, am_timestamp = 0\<rparr>"

definition demo_assistant :: entry where
  "demo_assistant = \<lparr>e_id = ''as'', e_seq = 2, e_parentId = None, e_timestamp = 0, e_body = MessageEntry (AssistantMessage demo_response) False\<rparr>"

definition demo_start_record :: lane_record where
  "demo_start_record = \<lparr>r_id = ''op'', r_seq = 1, r_lane = ''main'', r_timestamp = 0,
     r_body = OperationStarted None (RunIntent [] [] None None)\<rparr>"

definition demo_tool_record :: lane_record where
  "demo_tool_record = \<lparr>r_id = ''ts'', r_seq = 3, r_lane = ''main'', r_timestamp = 0,
     r_body = ToolStarted ''op'' ''as'' 0 ''call'' ''read'' JNull ''res'' ReplayNever\<rparr>"

definition demo_steer :: provisioned_entry where
  "demo_steer = \<lparr>p_id = ''st'', p_body = MessageEntry (UserMessage (PlainContent ''go'') 0) False\<rparr>"

definition demo_steer_record :: lane_record where
  "demo_steer_record = \<lparr>r_id = ''q'', r_seq = 4, r_lane = ''main'', r_timestamp = 0,
     r_body = QueueEnqueued SteerQueue (Some ''op'') demo_steer\<rparr>"

definition demo_input_of :: "lane_record list \<Rightarrow> lane_reduction_input" where
  "demo_input_of rs = \<lparr>in_slice = \<lparr>ls_lane = ''main'',
       ls_openOperations = [\<lparr>o_id = ''op'', o_seq = 1, o_lane = ''main'', o_timestamp = 0, o_sourceLeafId = None,
         o_intent = RunIntent [] [] None None\<rparr>],
       ls_records = rs, ls_entries = [demo_assistant]\<rparr>,
     in_leafId = Some ''as'', in_ownEntries = [demo_assistant], in_configurationEntries = [],
     in_defaults = \<lparr>lc_model = (''p0'', ''m0''), lc_thinkingLevel = ''off'', lc_activeToolNames = []\<rparr>\<rparr>"

definition demo_log :: "lane_record list" where
  "demo_log = [demo_start_record, demo_tool_record, demo_steer_record]"

lemmas demo_log_defs = demo_input_of_def demo_log_def demo_start_record_def demo_tool_record_def demo_steer_record_def
  demo_steer_def demo_assistant_def demo_response_def demo_tool_call_def

lemma demo_records: "ls_records (in_slice (demo_input_of rs)) = rs"
  by (simp add: demo_input_of_def)

lemma demo_log_valid: "validateRecordLog (in_slice (demo_input_of demo_log)) = Inr ()"
  by (code_simp)

text \<open>
  C4. The validation of a lane's durable log, one pass with incremental tables, accepts exactly the logs
  that meet the declarative rules: at most one open operation, deferred responses with a handle, and
  for each record, against all records before it: its operation has started and not
  finished, attempts are numbered consecutively with a consistent series, tool starts match a
  tool call of the named response and are unique, queue and write records agree with the entries.
  The reduction of the lane succeeds for exactly these logs.
\<close>

theorem record_log_validation:
  assumes "distinct (map r_seq (ls_records (in_slice inp)))"
  shows "(validateRecordLog (in_slice inp) = Inr () \<longleftrightarrow> log_valid (in_slice inp)) \<and>
    ((\<exists>res. reduceLaneState inp = Inr res) \<longleftrightarrow> log_valid (in_slice inp))"
proof -
  have "validateRecordLog (in_slice inp) = Inr () \<longleftrightarrow> log_valid (in_slice inp)"
    by (rule validateRecordLog_valid_iff [OF assms])
  moreover have "(\<exists>res. reduceLaneState inp = Inr res) \<longleftrightarrow> validateRecordLog (in_slice inp) = Inr ()"
    using reduceLaneState_Inl_iff [of inp] by (metis (full_types) old.unit.exhaust sum.exhaust sum.distinct(1))
  ultimately show ?thesis by simp
qed

theorem record_log_validation_witness: "log_valid (in_slice (demo_input_of demo_log))"
  using record_log_validation [of "demo_input_of demo_log"] demo_log_valid by (simp add: demo_log_defs)

text \<open>
  The reduction does not depend on the order in which the records of the log are delivered, only on
  their sequence numbers.
\<close>

lemma record_order_irrelevant:
  assumes "distinct (map r_seq (ls_records (in_slice inp)))" "mset rs' = mset (ls_records (in_slice inp))"
  shows "reduceLaneState (inp\<lparr>in_slice := (in_slice inp)\<lparr>ls_records := rs'\<rparr>\<rparr>) = reduceLaneState inp"
  using validateRecordLog_cong [OF assms(2,1)]
  by (simp add: reduceLaneState_def validateRecordLog_def bySequence_def deriveEffectiveConfiguration_def Let_def
      split: list.split)

lemma reduce_operation_of:
  assumes "reduceLaneState inp = Inr res" "st_operation (rr_laneState res) = Some op"
  obtains started rest where "ls_openOperations (in_slice inp) = started # rest"
    "op = reduce_operation (index_entries (ls_entries (in_slice inp) @ entriesBySequence (in_ownEntries inp)))
       (bySequence (ls_records (in_slice inp))) (entriesBySequence (in_ownEntries inp)) started"
  using assms by (auto simp: reduceLaneState_def bind_result_Inr_iff Let_def split: list.splits)

text \<open>
  C30. A tool call that the reduced lane state shows as started was started by a record of the log that
  names this operation, this response, this position and the id and tool of this very call, and
  no other record of the log starts the same call: a crashed run is resumed without running a
  tool call twice or pairing a result with another call.
\<close>

theorem started_call_recorded:
  assumes "distinct (map r_seq (ls_records (in_slice inp)))" "distinct (map e_id (ls_entries (in_slice inp)))"
    and "set (in_ownEntries inp) \<subseteq> set (ls_entries (in_slice inp))"
    and "reduceLaneState inp = Inr res" "st_operation (rr_laneState res) = Some op" "os_toolBatch op = Some tb"
    and "c \<in> set (tb_calls tb)" "cs_started c = Some r"
  shows "r \<in> set (ls_records (in_slice inp)) \<and>
    (\<exists>args result replay. r_body r = ToolStarted (os_id op) (tb_assistantEntryId tb) (int (cs_toolIndex c))
       (tc_id (cs_toolCall c)) (tc_name (cs_toolCall c)) args result replay) \<and>
    (\<forall>r' \<in> set (ls_records (in_slice inp)). invocation_of r' = invocation_of r \<longrightarrow> r' = r)"
proof -
  have "validateRecordLog (in_slice inp) = Inr ()"
    using assms(4) by (simp add: reduceLaneState_def bind_result_Inr_iff)
  then have valid: "log_valid (in_slice inp)" using validateRecordLog_valid_iff [OF assms(1)] by simp
  obtain started rest where op: "ls_openOperations (in_slice inp) = started # rest"
    "op = reduce_operation (index_entries (ls_entries (in_slice inp) @ entriesBySequence (in_ownEntries inp)))
       (bySequence (ls_records (in_slice inp))) (entriesBySequence (in_ownEntries inp)) started"
    using assms(4,5) by (rule reduce_operation_of)
  let ?rs = "operation_records (bySequence (ls_records (in_slice inp))) started"
  have batch: "deriveToolBatch (o_id started) ?rs (entriesBySequence (in_ownEntries inp))
      (index_entries (ls_entries (in_slice inp) @ entriesBySequence (in_ownEntries inp)))
      (p_id ` set (deferred_writes ?rs)) = Some tb" and id: "os_id op = o_id started"
    using assms(6) op(2) by (simp_all add: reduce_operation_def Let_def)
  have sub: "set ?rs \<subseteq> set (ls_records (in_slice inp))" by (auto simp: operation_records_def bySequence_def)
  have own: "set (entriesBySequence (in_ownEntries inp)) \<subseteq> set (ls_entries (in_slice inp))"
    using assms(3) by (simp add: entriesBySequence_def)
  note start = batch_start_matches_call [OF valid own assms(2) sub batch assms(7,8)]
  then obtain p where "invocation_of r = Some p" by (auto simp: invocation_of_def)
  then show ?thesis using start sub id valid_tool_start_unique [OF valid] by (auto simp: subset_iff)
qed

theorem started_call_recorded_witness:
  "\<exists>op tb c. st_operation (rr_laneState (sum.projr (reduceLaneState (demo_input_of demo_log)))) = Some op \<and>
     os_toolBatch op = Some tb \<and> tb_calls tb = [c] \<and> cs_started c = Some demo_tool_record \<and>
     (\<forall>r' \<in> set demo_log. invocation_of r' = invocation_of demo_tool_record \<longrightarrow> r' = demo_tool_record)"
proof -
  let ?res = "sum.projr (reduceLaneState (demo_input_of demo_log))"
  let ?op = "the (st_operation (rr_laneState ?res))"
  let ?tb = "the (os_toolBatch ?op)"
  let ?c = "hd (tb_calls ?tb)"
  have run: "reduceLaneState (demo_input_of demo_log) = Inr ?res" "st_operation (rr_laneState ?res) = Some ?op"
    "os_toolBatch ?op = Some ?tb" "tb_calls ?tb = [?c]" "cs_started ?c = Some demo_tool_record"
    by code_simp+
  have call: "?c \<in> set (tb_calls ?tb)" by (subst (2) run(4)) simp
  have pre: "distinct (map r_seq (ls_records (in_slice (demo_input_of demo_log))))"
    "distinct (map e_id (ls_entries (in_slice (demo_input_of demo_log))))"
    "set (in_ownEntries (demo_input_of demo_log)) \<subseteq> set (ls_entries (in_slice (demo_input_of demo_log)))"
    by (simp_all add: demo_log_defs)
  have "\<forall>r' \<in> set demo_log. invocation_of r' = invocation_of demo_tool_record \<longrightarrow> r' = demo_tool_record"
    using started_call_recorded [OF pre run(1-3) call run(5)] by (simp add: demo_records)
  then show ?thesis using run by blast
qed

text \<open>
  Delivering a pending input as an entry of the operation removes that input, and nothing else,
  from what is pending: the initial messages, the steering and follow-up queues, the deferred
  writes, and the inputs of the next run. The log stays valid.
\<close>

lemma delivery_clears_input:
  assumes "reduceLaneState inp = Inr res"
  shows "\<exists>res'. reduceLaneState (inp\<lparr>in_ownEntries := in_ownEntries inp @ [e]\<rparr>) = Inr res' \<and>
    st_pendingNextRun (rr_laneState res') = filter (\<lambda>t. p_id t \<noteq> e_id e) (st_pendingNextRun (rr_laneState res)) \<and>
    map_option pending_inputs (st_operation (rr_laneState res')) =
      map_option (\<lambda>op. map (filter (\<lambda>t. p_id t \<noteq> e_id e)) (pending_inputs op)) (st_operation (rr_laneState res))"
proof -
  let ?index = "\<lambda>own. index_entries (ls_entries (in_slice inp) @ entriesBySequence own)"
  have has: "js_has (?index (in_ownEntries inp @ [e])) i \<longleftrightarrow> js_has (?index (in_ownEntries inp)) i \<or> i = e_id e" for i
    by (auto simp: entriesBySequence_def)
  show ?thesis
    using assms
    by (auto simp: reduceLaneState_def bind_result_Inr_iff Let_def pending_next_run_deliver [OF has]
        reduce_operation_deliver [OF has, of _ _ _ "entriesBySequence (in_ownEntries inp)"] split: list.splits)
qed

text \<open>
  The effective configuration of a lane takes each of its parts, the model, the thinking level and the
  active tools, from the newest entry by sequence number that sets it, a response counting as a
  choice of its model, and from the defaults when there is none.
\<close>

lemma newest_configuration:
  assumes "reduceLaneState inp = Inr res"
    "es = entriesBySequence (map snd (index_entries (in_configurationEntries inp @ in_ownEntries inp)))"
  shows "rr_effectiveConfiguration res = (in_defaults inp)
    \<lparr>lc_model := newest_or (lc_model (in_defaults inp)) entry_model es,
     lc_thinkingLevel := newest_or (lc_thinkingLevel (in_defaults inp)) entry_thinking es,
     lc_activeToolNames := newest_or (lc_activeToolNames (in_defaults inp)) entry_tools es\<rparr>"
  using assms
  by (auto simp: reduceLaneState_def bind_result_Inr_iff Let_def deriveEffectiveConfiguration_def foldl_configure split: list.splits)

section \<open>The context of a request\<close>

lemma enumerate_concat_const:
  "(\<And>i e. e \<in> set es \<Longrightarrow> f i e = g e) \<Longrightarrow> concat (map (\<lambda>(i, e). f i e) (enumerate n es)) = concat (map g es)"
  by (induction es arbitrary: n) auto

text \<open>
  After a compaction, the messages of the context are the compaction's summary, the messages it
  retained and what the later entries contribute; nothing before the newest compaction reaches
  the model. Model, thinking level and active tools still come from the whole branch.
\<close>

lemma context_after_compaction:
  assumes "e_body c = CompactionEntry summary retainedTail tokensBefore details usg"
    and "\<forall>e \<in> set post. e_type e \<noteq> CompactionT"
  shows "buildSessionContext (pre @ c # post) no_options =
    (deriveSessionContextState (pre @ c # post))\<lparr>sc_messages :=
      CompactionSummaryMessage summary tokensBefore (e_timestamp c) # retainedTail @
      concat (map (\<lambda>e. sessionEntryToContextMessages e 0 [] no_options) post)\<rparr>"
proof -
  have entries: "buildContextEntries (pre @ c # post) no_options = c # post"
    using assms by (simp add: buildContextEntries_def no_options_def defaultContextEntryTransform_last e_type_def)
  have same: "sessionEntryToContextMessages e i es no_options = sessionEntryToContextMessages e 0 [] no_options" for e i es
    by (simp add: sessionEntryToContextMessages_def no_options_def split: entry_body.split)
  have "concat (map (\<lambda>(i, e). sessionEntryToContextMessages e i (c # post) no_options) (enumerate 0 (c # post))) =
      concat (map (\<lambda>e. sessionEntryToContextMessages e 0 [] no_options) (c # post))"
    by (rule enumerate_concat_const) (rule same)
  then show ?thesis
    using assms(1)
    by (simp add: buildSessionContext_def entries sessionEntryToContextMessages_def createCompactionSummaryMessage_def)
qed

definition demo_compaction :: entry where
  "demo_compaction = \<lparr>e_id = ''c'', e_seq = 3, e_parentId = Some ''b'', e_timestamp = 9,
     e_body = CompactionEntry ''short'' [] 100 None None\<rparr>"

definition excluded_message :: "agent_message \<Rightarrow> bool" where
  "excluded_message m \<longleftrightarrow> (case m of BashExecutionMessage b \<Rightarrow> be_excludeFromContext b | _ \<Rightarrow> False)"

lemma llm_message_None: "llm_message m = None \<longleftrightarrow> excluded_message m"
  by (cases m) (simp_all add: excluded_message_def)

lemma length_convertToLlm: "length (convertToLlm ms) = length (filter (\<lambda>m. \<not> excluded_message m) ms)"
  by (induction ms) (auto simp: convertToLlm_def List.map_filter_simps llm_message_None [symmetric] split: option.splits)

text \<open>
  C40. The conversion to model messages yields user, assistant and tool result messages only, drops
  nothing but the shell executions that are excluded from the context, and converting twice
  is converting once.
\<close>

theorem model_messages:
  "list_all (\<lambda>m. is_llm_role (role_of m)) (convertToLlm ms) \<and>
   length (convertToLlm ms) = length (filter (\<lambda>m. \<not> excluded_message m) ms) \<and>
   convertToLlm (convertToLlm ms) = convertToLlm ms"
  using convertToLlm_roles convertToLlm_id length_convertToLlm by (auto simp: list_all_iff)

end
