(* ===== verification/Tree_Session.thy ===== *)
theory Tree_Session
  imports Session_Context
begin

text \<open>
  The session format that the harness runs on, \<^verbatim>\<open>packages/agent/src/harness/session\<close>: entries with parent
  ids form a tree, a leaf points at the entry that the next one is appended to, and the branch of a session
  is the way from the leaf up to the root or to a compaction (\<^verbatim>\<open>memory-storage.ts\<close>). The class
  \<^verbatim>\<open>Session\<close> (\<^verbatim>\<open>session.ts\<close>) appends entries through a storage and builds the context of the next request from the
  branch; \<^verbatim>\<open>repo-utils.ts\<close> and \<^verbatim>\<open>memory-repo.ts\<close> create, open and fork sessions.

  A storage is a record of operations on its state (\<open>tree_ops\<close>), and the methods of \<^verbatim>\<open>Session\<close> are functions
  of it; a step returns the state also when it throws. The results of the calls of \<^verbatim>\<open>uuidv7\<close> that
  an operation makes are the values \<open>uuid 0\<close>, \<open>uuid 1\<close>, ... of an argument, and the time of an entry is the time
  that its ISO text denotes.
\<close>

section \<open>Entries\<close>

text \<open>The \<^verbatim>\<open>details\<close> and \<^verbatim>\<open>data\<close> of an entry, of unknown type in the program, are JSON values here; a missing \<^verbatim>\<open>fromHook\<close> is false.\<close>

datatype tree_body =
    TreeMessage agent_message
  | TreeThinkingLevel string
  | TreeModelChange string string
  | TreeActiveTools "string list"
  | TreeCompaction string "string option" int "agent_message list option" "json option" "usage option" bool
      \<comment> \<open>\<^verbatim>\<open>summary\<close>, \<^verbatim>\<open>firstKeptEntryId\<close>, \<^verbatim>\<open>tokensBefore\<close>, \<^verbatim>\<open>retainedTail\<close>, \<^verbatim>\<open>details\<close>, \<^verbatim>\<open>usage\<close>, \<^verbatim>\<open>fromHook\<close>\<close>
  | TreeBranchSummary string string "json option" "usage option" bool
      \<comment> \<open>\<^verbatim>\<open>fromId\<close>, \<^verbatim>\<open>summary\<close>, \<^verbatim>\<open>details\<close>, \<^verbatim>\<open>usage\<close>, \<^verbatim>\<open>fromHook\<close>\<close>
  | TreeCustom string "json option"
  | TreeCustomMessage string message_content bool "json option"
      \<comment> \<open>\<^verbatim>\<open>customType\<close>, \<^verbatim>\<open>content\<close>, \<^verbatim>\<open>display\<close>, \<^verbatim>\<open>details\<close>\<close>
  | TreeLabel string "string option"
  | TreeSessionInfo "string option"
  | TreeLeaf "string option"

record tree_entry =
  te_id :: string
  te_parentId :: "string option"
  te_timestamp :: int
  te_body :: tree_body

fun is_compaction :: "tree_body \<Rightarrow> bool" where
  "is_compaction (TreeCompaction _ _ _ _ _ _ _) \<longleftrightarrow> True"
| "is_compaction _ \<longleftrightarrow> False"

fun is_message :: "tree_body \<Rightarrow> bool" where
  "is_message (TreeMessage _) \<longleftrightarrow> True"
| "is_message _ \<longleftrightarrow> False"

definition createCustomMessage :: "string \<Rightarrow> message_content \<Rightarrow> bool \<Rightarrow> json option \<Rightarrow> int \<Rightarrow> agent_message" where
  "createCustomMessage customType content display details timestamp =
     CustomMessage \<lparr>cm_customType = customType, cm_content = content, cm_display = display, cm_details = details, cm_timestamp = timestamp\<rparr>"

section \<open>Errors\<close>

datatype tree_error =
  TreeNotFound | TreeInvalidSession | TreeInvalidEntry | TreeInvalidForkTarget | TreeStorageFailure

text \<open>Two steps on a state, of which the second runs when the first does not throw.\<close>

definition st_then :: "'s \<times> ('e + 'a) \<Rightarrow> ('s \<Rightarrow> 'a \<Rightarrow> 's \<times> ('e + 'b)) \<Rightarrow> 's \<times> ('e + 'b)" where
  "st_then p f = (case p of (s, Inl e) \<Rightarrow> (s, Inl e) | (s, Inr a) \<Rightarrow> f s a)"

lemma st_then_simps [simp]: "st_then (s, Inl e) f = (s, Inl e)" "st_then (s, Inr a) f = f s a"
  by (simp_all add: st_then_def)

section \<open>The storage interface\<close>

record 's tree_ops =
  to_getLeafId :: "'s \<Rightarrow> tree_error + string option"
  to_setLeafId :: "'s \<Rightarrow> (nat \<Rightarrow> string) \<Rightarrow> int \<Rightarrow> string option \<Rightarrow> 's \<times> (tree_error + unit)"
  to_createEntryId :: "'s \<Rightarrow> (nat \<Rightarrow> string) \<Rightarrow> string"
  to_appendEntry :: "'s \<Rightarrow> tree_entry \<Rightarrow> 's \<times> (tree_error + unit)"
  to_getEntry :: "'s \<Rightarrow> string \<Rightarrow> tree_entry option"
  to_getPath :: "'s \<Rightarrow> string option \<Rightarrow> (tree_error + tree_entry list) option"
  to_getEntries :: "'s \<Rightarrow> tree_entry list"

section \<open>The storage in memory\<close>

record tree_metadata =
  tm_id :: string
  tm_createdAt :: int

record tree_storage =
  ts_metadata :: tree_metadata
  ts_entries :: "tree_entry list"
  ts_byId :: "(string, tree_entry) js_map"
  ts_labelsById :: "(string, string) js_map"
  ts_leafId :: "string option"

definition updateLabelCache :: "(string, string) js_map \<Rightarrow> tree_entry \<Rightarrow> (string, string) js_map" where
  "updateLabelCache labels e = (case te_body e of
      TreeLabel target label \<Rightarrow>
        (let label' = map_option js_trim label in
         if truthy label' then js_set labels target (the label') else js_delete labels target)
    | _ \<Rightarrow> labels)"

definition buildLabelsById :: "tree_entry list \<Rightarrow> (string, string) js_map" where
  "buildLabelsById es = foldl updateLabelCache [] es"

text \<open>\<^verbatim>\<open>uuidv7().slice(-8)\<close>\<close>

definition short_id :: "string \<Rightarrow> string" where
  "short_id s = drop (length s - 8) s"

definition generateEntryId :: "(string, 'v) js_map \<Rightarrow> (nat \<Rightarrow> string) \<Rightarrow> string" where
  "generateEntryId byId uuid = (case List.find (\<lambda>i. \<not> js_has byId (short_id (uuid i))) [0..<100] of
      Some i \<Rightarrow> short_id (uuid i)
    | None \<Rightarrow> uuid 100)"

definition leafIdAfterEntry :: "tree_entry \<Rightarrow> string option" where
  "leafIdAfterEntry e = (case te_body e of TreeLeaf target \<Rightarrow> target | _ \<Rightarrow> Some (te_id e))"

definition new_tree_storage :: "tree_metadata \<Rightarrow> tree_entry list \<Rightarrow> tree_error + tree_storage" where
  "new_tree_storage metadata es =
     (let byId = js_map_of (map (\<lambda>e. (te_id e, e)) es);
          leafId = foldl (\<lambda>_ e. leafIdAfterEntry e) None es
      in if leafId \<noteq> None \<and> \<not> js_has byId (the leafId) then Inl TreeInvalidSession
         else Inr \<lparr>ts_metadata = metadata, ts_entries = es, ts_byId = byId, ts_labelsById = buildLabelsById es, ts_leafId = leafId\<rparr>)"

definition tree_getLeafId :: "tree_storage \<Rightarrow> tree_error + string option" where
  "tree_getLeafId s =
     (if ts_leafId s \<noteq> None \<and> \<not> js_has (ts_byId s) (the (ts_leafId s)) then Inl TreeInvalidSession else Inr (ts_leafId s))"

definition tree_createEntryId :: "tree_storage \<Rightarrow> (nat \<Rightarrow> string) \<Rightarrow> string" where
  "tree_createEntryId s uuid = generateEntryId (ts_byId s) uuid"

definition tree_push :: "tree_storage \<Rightarrow> tree_entry \<Rightarrow> tree_storage" where
  "tree_push s e = s\<lparr>ts_entries := ts_entries s @ [e], ts_byId := js_set (ts_byId s) (te_id e) e\<rparr>"

definition tree_setLeafId :: "tree_storage \<Rightarrow> (nat \<Rightarrow> string) \<Rightarrow> int \<Rightarrow> string option \<Rightarrow> tree_storage \<times> (tree_error + unit)" where
  "tree_setLeafId s uuid now leafId =
     (if leafId \<noteq> None \<and> \<not> js_has (ts_byId s) (the leafId) then (s, Inl TreeNotFound)
      else
        let e = \<lparr>te_id = tree_createEntryId s uuid, te_parentId = ts_leafId s, te_timestamp = now, te_body = TreeLeaf leafId\<rparr>
        in ((tree_push s e)\<lparr>ts_leafId := leafId\<rparr>, Inr ()))"

definition tree_appendEntry :: "tree_storage \<Rightarrow> tree_entry \<Rightarrow> tree_storage \<times> (tree_error + unit)" where
  "tree_appendEntry s e =
     ((tree_push s e)\<lparr>ts_labelsById := updateLabelCache (ts_labelsById s) e, ts_leafId := leafIdAfterEntry e\<rparr>, Inr ())"

definition tree_getEntry :: "tree_storage \<Rightarrow> string \<Rightarrow> tree_entry option" where
  "tree_getEntry s i = js_get (ts_byId s) i"

definition tree_findEntries :: "tree_storage \<Rightarrow> (tree_body \<Rightarrow> bool) \<Rightarrow> tree_entry list" where
  "tree_findEntries s isType = filter (\<lambda>e. isType (te_body e)) (ts_entries s)"

definition tree_getLabel :: "tree_storage \<Rightarrow> string \<Rightarrow> string option" where
  "tree_getLabel s i = js_get (ts_labelsById s) i"

fun session_info_name :: "tree_body \<Rightarrow> string option" where
  "session_info_name (TreeSessionInfo n) = n"
| "session_info_name _ = None"

definition is_session_info :: "tree_body \<Rightarrow> bool" where
  "is_session_info b = (case b of TreeSessionInfo _ \<Rightarrow> True | _ \<Rightarrow> False)"

definition tree_getSessionName :: "tree_storage \<Rightarrow> string option" where
  "tree_getSessionName s = (case last_opt (tree_findEntries s is_session_info) of
      None \<Rightarrow> None
    | Some e \<Rightarrow> (let n = map_option js_trim (session_info_name (te_body e)) in if truthy n then n else None))"

text \<open>In a usage of its type all the fields that \<^verbatim>\<open>getSessionStats\<close> looks at are numbers.\<close>

definition entry_usage :: "tree_entry \<Rightarrow> usage option" where
  "entry_usage e = (case te_body e of
      TreeMessage (AssistantMessage m) \<Rightarrow> Some (am_usage m)
    | TreeCompaction _ _ _ _ _ u _ \<Rightarrow> u
    | TreeBranchSummary _ _ _ u _ \<Rightarrow> u
    | _ \<Rightarrow> None)"

definition stats_step :: "session_stats \<Rightarrow> tree_entry \<Rightarrow> session_stats" where
  "stats_step st e =
     (let st' = (if is_message (te_body e) then st\<lparr>messageCount := messageCount st + 1\<rparr> else st)
      in case entry_usage e of
           None \<Rightarrow> st'
         | Some u \<Rightarrow> st'\<lparr>cachedTokens := cachedTokens st' + u_cacheRead u,
             uncachedTokens := uncachedTokens st' + (u_input u + u_cacheWrite u),
             totalTokens := totalTokens st' + (u_input u + u_output u + u_cacheRead u + u_cacheWrite u),
             costTotal := Plus (costTotal st') (c_total (u_cost u))\<rparr>)"

definition tree_getSessionStats :: "tree_storage \<Rightarrow> session_stats" where
  "tree_getSessionStats s = foldl stats_step
     \<lparr>messageCount = 0, cachedTokens = 0, uncachedTokens = 0, totalTokens = 0, costTotal = Total (Dec 0 0)\<rparr> (ts_entries s)"

text \<open>
  The walk up from an entry. \<open>stop\<close> is the id \<^verbatim>\<open>stopAtEntryId\<close>; the walk follows stored ids and would not end on
  a cycle, where the value is \<open>None\<close>.
\<close>

fun keeps_tail :: "tree_body \<Rightarrow> bool" where
  "keeps_tail (TreeCompaction _ _ _ tail _ _ _) \<longleftrightarrow> tail \<noteq> None"
| "keeps_tail _ \<longleftrightarrow> False"

fun stop_after :: "tree_body \<Rightarrow> string option \<Rightarrow> string option" where
  "stop_after (TreeCompaction _ firstKept _ _ _ _ _) stop = firstKept"
| "stop_after _ stop = stop"

partial_function (option) path_up ::
  "(string, tree_entry) js_map \<Rightarrow> string option \<Rightarrow> tree_entry \<Rightarrow> tree_entry list \<Rightarrow> (tree_error + tree_entry list) option" where
  "path_up byId stop current path =
     (if stop = Some (te_id current) \<or> keeps_tail (te_body current) \<or> \<not> truthy (te_parentId current) then Some (Inr (current # path))
      else (case js_get byId (the (te_parentId current)) of
          None \<Rightarrow> Some (Inl TreeInvalidSession)
        | Some parent \<Rightarrow> path_up byId (stop_after (te_body current) stop) parent (current # path)))"

definition getPathToRootOrCompaction :: "tree_storage \<Rightarrow> string option \<Rightarrow> (tree_error + tree_entry list) option" where
  "getPathToRootOrCompaction s leafId = (case leafId of
      None \<Rightarrow> Some (Inr [])
    | Some i \<Rightarrow> (case js_get (ts_byId s) i of
        None \<Rightarrow> Some (Inl TreeNotFound)
      | Some e \<Rightarrow> path_up (ts_byId s) None e []))"

text \<open>\<^verbatim>\<open>Array.prototype.slice\<close>, which counts a negative bound from the end.\<close>

definition slice_bound :: "nat \<Rightarrow> int \<Rightarrow> nat" where
  "slice_bound n i = (if i < 0 then nat (int n + i) else min n (nat i))"

definition js_slice :: "'a list \<Rightarrow> int \<Rightarrow> int option \<Rightarrow> 'a list" where
  "js_slice xs start stop = drop (slice_bound (length xs) start)
     (case stop of None \<Rightarrow> xs | Some j \<Rightarrow> take (slice_bound (length xs) j) xs)"

definition tree_getEntries :: "tree_storage \<Rightarrow> int option \<Rightarrow> int option \<Rightarrow> tree_entry list" where
  "tree_getEntries s afterEntrySeq limit =
     (let start = (case afterEntrySeq of None \<Rightarrow> 0 | Some i \<Rightarrow> i)
      in js_slice (ts_entries s) start (map_option (\<lambda>l. start + l) limit))"

definition memory_tree_ops :: "tree_storage tree_ops" where
  "memory_tree_ops = \<lparr>to_getLeafId = tree_getLeafId, to_setLeafId = tree_setLeafId, to_createEntryId = tree_createEntryId,
     to_appendEntry = tree_appendEntry, to_getEntry = tree_getEntry, to_getPath = getPathToRootOrCompaction,
     to_getEntries = (\<lambda>s. tree_getEntries s None None)\<rparr>"

section \<open>The context of a branch\<close>

type_synonym tree_transform = "tree_entry list \<Rightarrow> tree_entry list"

type_synonym tree_projector = "tree_entry \<Rightarrow> nat \<Rightarrow> tree_entry list \<Rightarrow> agent_message list option"

text \<open>The projectors are those that were given; the names a JavaScript object inherits are not among the custom types.\<close>

record tree_options =
  top_entryTransforms :: "tree_transform list"
  top_entryProjectors :: "(string, tree_projector) js_map"

definition no_tree_options :: tree_options where
  "no_tree_options = \<lparr>top_entryTransforms = [], top_entryProjectors = []\<rparr>"

definition tree_context_step :: "session_context \<Rightarrow> tree_entry \<Rightarrow> session_context" where
  "tree_context_step c e = (case te_body e of
      TreeThinkingLevel l \<Rightarrow> c\<lparr>sc_thinkingLevel := l\<rparr>
    | TreeModelChange provider modelId \<Rightarrow> c\<lparr>sc_model := Some (provider, modelId)\<rparr>
    | TreeMessage (AssistantMessage m) \<Rightarrow> c\<lparr>sc_model := Some (am_provider m, am_model m)\<rparr>
    | TreeActiveTools tools \<Rightarrow> c\<lparr>sc_activeToolNames := Some tools\<rparr>
    | _ \<Rightarrow> c)"

definition deriveTreeContextState :: "tree_entry list \<Rightarrow> session_context" where
  "deriveTreeContextState path = foldl tree_context_step
     \<lparr>sc_messages = [], sc_thinkingLevel = ''off'', sc_model = None, sc_activeToolNames = None\<rparr> path"

fun last_compaction :: "tree_entry list \<Rightarrow> tree_entry option" where
  "last_compaction [] = None"
| "last_compaction (e # es) = (case last_compaction es of
      Some c \<Rightarrow> Some c
    | None \<Rightarrow> if is_compaction (te_body e) then Some e else None)"

definition index_where :: "('a \<Rightarrow> bool) \<Rightarrow> 'a list \<Rightarrow> nat option" where
  "index_where P xs = List.find (\<lambda>i. P (xs ! i)) [0..<length xs]"

text \<open>The last compaction is on the path, so its index is found.\<close>

definition treeContextEntryTransform :: "tree_entry list \<Rightarrow> tree_entry list" where
  "treeContextEntryTransform path = (case last_compaction path of
      None \<Rightarrow> path
    | Some c \<Rightarrow>
        (let idx = the (index_where (\<lambda>e. is_compaction (te_body e) \<and> te_id e = te_id c) path);
             later = drop (idx + 1) path
         in case te_body c of
              TreeCompaction _ firstKept _ retainedTail _ _ _ \<Rightarrow>
                (if retainedTail \<noteq> None then c # later
                 else if truthy firstKept then c # dropWhile (\<lambda>e. te_id e \<noteq> the firstKept) (take idx path) @ later
                 else c # later)
            | _ \<Rightarrow> path))"

definition buildTreeContextEntries :: "tree_entry list \<Rightarrow> tree_options \<Rightarrow> tree_entry list" where
  "buildTreeContextEntries path opts =
     foldl (\<lambda>es transform. transform es) (treeContextEntryTransform path) (top_entryTransforms opts)"

definition treeEntryToContextMessages :: "tree_entry \<Rightarrow> nat \<Rightarrow> tree_entry list \<Rightarrow> tree_options \<Rightarrow> agent_message list" where
  "treeEntryToContextMessages e index es opts = (case te_body e of
      TreeMessage m \<Rightarrow> [m]
    | TreeCustomMessage t content display details \<Rightarrow> [createCustomMessage t content display details (te_timestamp e)]
    | TreeCompaction summary _ tokensBefore retainedTail _ _ _ \<Rightarrow>
        createCompactionSummaryMessage summary tokensBefore (te_timestamp e) # (case retainedTail of None \<Rightarrow> [] | Some ms \<Rightarrow> ms)
    | TreeBranchSummary fromId summary _ _ _ \<Rightarrow>
        if summary = '''' then [] else [createBranchSummaryMessage summary fromId (te_timestamp e)]
    | TreeCustom customType _ \<Rightarrow> (case js_get (top_entryProjectors opts) customType of
        None \<Rightarrow> []
      | Some project \<Rightarrow> (case project e index es of None \<Rightarrow> [] | Some ms \<Rightarrow> ms))
    | _ \<Rightarrow> [])"

definition buildTreeContext :: "tree_entry list \<Rightarrow> tree_options \<Rightarrow> session_context" where
  "buildTreeContext path opts =
     (let es = buildTreeContextEntries path opts
      in (deriveTreeContextState path)\<lparr>sc_messages :=
           concat (map (\<lambda>(i, e). treeEntryToContextMessages e i es opts) (enumerate 0 es))\<rparr>)"

definition tree_context_messages :: "tree_entry list \<Rightarrow> agent_message list" where
  "tree_context_messages path = sc_messages (buildTreeContext path no_tree_options)"

section \<open>The session\<close>

definition mergeContextBuildOptions :: "tree_options \<Rightarrow> tree_options \<Rightarrow> tree_options" where
  "mergeContextBuildOptions own given =
     \<lparr>top_entryTransforms = top_entryTransforms own @ top_entryTransforms given,
      top_entryProjectors = foldl (\<lambda>m (k, v). js_set m k v) (top_entryProjectors own) (top_entryProjectors given)\<rparr>"

definition getBranch :: "'s tree_ops \<Rightarrow> 's \<Rightarrow> string option \<Rightarrow> (tree_error + tree_entry list) option" where
  "getBranch ops s fromId = (case fromId of
      Some i \<Rightarrow> to_getPath ops s (Some i)
    | None \<Rightarrow> (case to_getLeafId ops s of Inl e \<Rightarrow> Some (Inl e) | Inr leafId \<Rightarrow> to_getPath ops s leafId))"

definition session_buildContextEntries :: "'s tree_ops \<Rightarrow> tree_options \<Rightarrow> 's \<Rightarrow> tree_options \<Rightarrow> (tree_error + tree_entry list) option" where
  "session_buildContextEntries ops own s given =
     map_option (map_sum id (\<lambda>path. buildTreeContextEntries path (mergeContextBuildOptions own given))) (getBranch ops s None)"

definition session_buildContext :: "'s tree_ops \<Rightarrow> tree_options \<Rightarrow> 's \<Rightarrow> tree_options \<Rightarrow> (tree_error + session_context) option" where
  "session_buildContext ops own s given =
     map_option (map_sum id (\<lambda>path. buildTreeContext path (mergeContextBuildOptions own given))) (getBranch ops s None)"

text \<open>
  The append methods build an entry with a new id below the leaf and append it. They differ in the payload, which is
  the argument \<open>body\<close>.
\<close>

definition append_below_leaf :: "'s tree_ops \<Rightarrow> 's \<Rightarrow> (nat \<Rightarrow> string) \<Rightarrow> int \<Rightarrow> tree_body \<Rightarrow> 's \<times> (tree_error + string)" where
  "append_below_leaf ops s uuid now body =
     (let i = to_createEntryId ops s uuid in
      st_then (s, to_getLeafId ops s) (\<lambda>s leafId.
      st_then (to_appendEntry ops s \<lparr>te_id = i, te_parentId = leafId, te_timestamp = now, te_body = body\<rparr>) (\<lambda>s _. (s, Inr i))))"

definition session_appendMessage :: "'s tree_ops \<Rightarrow> 's \<Rightarrow> (nat \<Rightarrow> string) \<Rightarrow> int \<Rightarrow> agent_message \<Rightarrow> 's \<times> (tree_error + string)" where
  "session_appendMessage ops s uuid now m = append_below_leaf ops s uuid now (TreeMessage m)"

definition session_appendThinkingLevelChange :: "'s tree_ops \<Rightarrow> 's \<Rightarrow> (nat \<Rightarrow> string) \<Rightarrow> int \<Rightarrow> string \<Rightarrow> 's \<times> (tree_error + string)" where
  "session_appendThinkingLevelChange ops s uuid now l = append_below_leaf ops s uuid now (TreeThinkingLevel l)"

definition session_appendModelChange :: "'s tree_ops \<Rightarrow> 's \<Rightarrow> (nat \<Rightarrow> string) \<Rightarrow> int \<Rightarrow> string \<Rightarrow> string \<Rightarrow> 's \<times> (tree_error + string)" where
  "session_appendModelChange ops s uuid now provider modelId = append_below_leaf ops s uuid now (TreeModelChange provider modelId)"

definition session_appendActiveToolsChange :: "'s tree_ops \<Rightarrow> 's \<Rightarrow> (nat \<Rightarrow> string) \<Rightarrow> int \<Rightarrow> string list \<Rightarrow> 's \<times> (tree_error + string)" where
  "session_appendActiveToolsChange ops s uuid now tools = append_below_leaf ops s uuid now (TreeActiveTools tools)"

definition session_appendCompaction :: "'s tree_ops \<Rightarrow> 's \<Rightarrow> (nat \<Rightarrow> string) \<Rightarrow> int \<Rightarrow> string \<Rightarrow> string option \<Rightarrow> int \<Rightarrow> json option
    \<Rightarrow> bool \<Rightarrow> usage option \<Rightarrow> agent_message list option \<Rightarrow> 's \<times> (tree_error + string)" where
  "session_appendCompaction ops s uuid now summary firstKept tokensBefore details fromHook u retainedTail =
     append_below_leaf ops s uuid now (TreeCompaction summary firstKept tokensBefore retainedTail details u fromHook)"

definition session_appendCustomEntry :: "'s tree_ops \<Rightarrow> 's \<Rightarrow> (nat \<Rightarrow> string) \<Rightarrow> int \<Rightarrow> string \<Rightarrow> json option \<Rightarrow> 's \<times> (tree_error + string)" where
  "session_appendCustomEntry ops s uuid now customType data = append_below_leaf ops s uuid now (TreeCustom customType data)"

definition session_appendCustomMessageEntry :: "'s tree_ops \<Rightarrow> 's \<Rightarrow> (nat \<Rightarrow> string) \<Rightarrow> int \<Rightarrow> string \<Rightarrow> message_content \<Rightarrow> bool
    \<Rightarrow> json option \<Rightarrow> 's \<times> (tree_error + string)" where
  "session_appendCustomMessageEntry ops s uuid now customType content display details =
     append_below_leaf ops s uuid now (TreeCustomMessage customType content display details)"

definition session_appendLabel :: "'s tree_ops \<Rightarrow> 's \<Rightarrow> (nat \<Rightarrow> string) \<Rightarrow> int \<Rightarrow> string \<Rightarrow> string option \<Rightarrow> 's \<times> (tree_error + string)" where
  "session_appendLabel ops s uuid now target label =
     (if to_getEntry ops s target = None then (s, Inl TreeNotFound)
      else append_below_leaf ops s uuid now (TreeLabel target label))"

definition is_line_end :: "char \<Rightarrow> bool" where
  "is_line_end c \<longleftrightarrow> c = CHR 0x0A \<or> c = CHR 0x0D"

text \<open>\<^verbatim>\<open>name.replace(/[\r\n]+/g, " ")\<close>; the flag says that the run of line ends has been replaced.\<close>

fun collapse_breaks :: "bool \<Rightarrow> string \<Rightarrow> string" where
  "collapse_breaks _ [] = []"
| "collapse_breaks inRun (c # cs) =
     (if is_line_end c then (if inRun then collapse_breaks True cs else CHR '' '' # collapse_breaks True cs)
      else c # collapse_breaks False cs)"

definition session_appendSessionName :: "'s tree_ops \<Rightarrow> 's \<Rightarrow> (nat \<Rightarrow> string) \<Rightarrow> int \<Rightarrow> string \<Rightarrow> 's \<times> (tree_error + string)" where
  "session_appendSessionName ops s uuid now n =
     append_below_leaf ops s uuid now (TreeSessionInfo (Some (js_trim (collapse_breaks False n))))"

record branch_note =
  bn_summary :: string
  bn_details :: "json option"
  bn_usage :: "usage option"
  bn_fromHook :: bool

text \<open>The two ids that a move with a summary generates come from two sequences of calls.\<close>

definition session_moveTo :: "'s tree_ops \<Rightarrow> 's \<Rightarrow> (nat \<Rightarrow> string) \<Rightarrow> (nat \<Rightarrow> string) \<Rightarrow> int \<Rightarrow> string option \<Rightarrow> branch_note option
    \<Rightarrow> 's \<times> (tree_error + string option)" where
  "session_moveTo ops s uuid uuid' now entryId summary =
     (if entryId \<noteq> None \<and> to_getEntry ops s (the entryId) = None then (s, Inl TreeNotFound)
      else st_then (to_setLeafId ops s uuid now entryId) (\<lambda>s _.
        case summary of
          None \<Rightarrow> (s, Inr None)
        | Some note \<Rightarrow>
            (let i = to_createEntryId ops s uuid' in
             st_then (to_appendEntry ops s \<lparr>te_id = i, te_parentId = entryId, te_timestamp = now,
               te_body = TreeBranchSummary (case entryId of None \<Rightarrow> ''root'' | Some e \<Rightarrow> e) (bn_summary note) (bn_details note)
                 (bn_usage note) (bn_fromHook note)\<rparr>) (\<lambda>s _. (s, Inr (Some i))))))"

section \<open>Repositories\<close>

definition getEntriesToFork :: "'s tree_ops \<Rightarrow> 's \<Rightarrow> string option \<Rightarrow> fork_position option \<Rightarrow> (tree_error + tree_entry list) option" where
  "getEntriesToFork ops s entryId position =
     (if \<not> truthy entryId then Some (Inr (to_getEntries ops s))
      else (case to_getEntry ops s (the entryId) of
          None \<Rightarrow> Some (Inl TreeInvalidForkTarget)
        | Some target \<Rightarrow>
            if position = Some AtEntry then to_getPath ops s (Some (te_id target))
            else (case te_body target of
                TreeMessage (UserMessage _ _) \<Rightarrow> to_getPath ops s (te_parentId target)
              | _ \<Rightarrow> Some (Inl TreeInvalidForkTarget))))"

text \<open>A session object is an address in a list of storages; the repository maps ids to addresses.\<close>

record tree_repo =
  rp_heap :: "tree_storage list"
  rp_sessions :: "(string, nat) js_map"

definition repo_add :: "tree_repo \<Rightarrow> tree_storage \<Rightarrow> tree_repo \<times> nat" where
  "repo_add r s = (r\<lparr>rp_heap := rp_heap r @ [s], rp_sessions := js_set (rp_sessions r) (tm_id (ts_metadata s)) (length (rp_heap r))\<rparr>,
     length (rp_heap r))"

definition tree_repo_create :: "tree_repo \<Rightarrow> tree_metadata \<Rightarrow> tree_error + tree_repo \<times> nat" where
  "tree_repo_create r metadata = bind_result (new_tree_storage metadata []) (\<lambda>s. Inr (repo_add r s))"

definition tree_repo_open :: "tree_repo \<Rightarrow> tree_metadata \<Rightarrow> tree_error + nat" where
  "tree_repo_open r metadata = (case js_get (rp_sessions r) (tm_id metadata) of None \<Rightarrow> Inl TreeNotFound | Some a \<Rightarrow> Inr a)"

definition tree_repo_list :: "tree_repo \<Rightarrow> tree_metadata list" where
  "tree_repo_list r = map (\<lambda>(_, a). ts_metadata (rp_heap r ! a)) (rp_sessions r)"

definition tree_repo_delete :: "tree_repo \<Rightarrow> tree_metadata \<Rightarrow> tree_repo" where
  "tree_repo_delete r metadata = r\<lparr>rp_sessions := js_delete (rp_sessions r) (tm_id metadata)\<rparr>"

definition tree_repo_fork :: "tree_repo \<Rightarrow> tree_metadata \<Rightarrow> string option \<Rightarrow> fork_position option \<Rightarrow> tree_metadata
    \<Rightarrow> (tree_error + tree_repo \<times> nat) option" where
  "tree_repo_fork r source entryId position metadata = (case tree_repo_open r source of
      Inl e \<Rightarrow> Some (Inl e)
    | Inr a \<Rightarrow> map_option (\<lambda>es. bind_result es (\<lambda>es. bind_result (new_tree_storage metadata es) (\<lambda>s. Inr (repo_add r s))))
        (getEntriesToFork memory_tree_ops (rp_heap r ! a) entryId position))"

end
