(* ===== verification/Json_Text.thy ===== *)
theory Json_Text
  imports Recode_Prelude "HOL-Library.Monad_Syntax"
begin

text \<open>
  JSON texts: \<^verbatim>\<open>JSON.stringify\<close> without indentation and \<^verbatim>\<open>JSON.parse\<close>, on documents whose objects
  keep the order of their keys. Numbers are written as \<^verbatim>\<open>Number.prototype.toString\<close> does; a
  number text is read as the decimal it denotes. Characters are those of the type \<open>char\<close>, and an
  escape of any other character is not read.

  The recursive descent of the parser is bounded by a fuel that is computed from the length of
  the text; \<open>p_value_fuel\<close> below shows that it never runs out. The facts that the line format
  needs are that reading undoes writing, that a text has no line break, and that no proper
  prefix of the text of an object can be read.
\<close>

section \<open>Writing\<close>

datatype jdoc =
    DNull
  | DBool bool
  | DNum js_double
  | DStr string
  | DArr "jdoc list"
  | DObj "(string \<times> jdoc) list"

definition exponent_text :: "int \<Rightarrow> string" where
  "exponent_text x = ''e'' @ (if x < 0 then ''-'' else ''+'') @ dec_of_nat (nat \<bar>x\<bar>)"

text \<open>The text of \<open>m * 10 ^ e\<close> for a positive \<open>m\<close> without trailing zero.\<close>

definition digits_text :: "nat \<Rightarrow> int \<Rightarrow> string" where
  "digits_text m e =
     (let ds = dec_of_nat m; k = int (length ds); n = k + e in
      if k \<le> n \<and> n \<le> 21 then ds @ replicate (nat e) CHR ''0''
      else if 0 < n \<and> n \<le> 21 then take (nat n) ds @ ''.'' @ drop (nat n) ds
      else if - 6 < n \<and> n \<le> 0 then ''0.'' @ replicate (nat (- n)) CHR ''0'' @ ds
      else (if k = 1 then ds else take 1 ds @ ''.'' @ drop 1 ds) @ exponent_text (n - 1))"

definition num_text :: "js_double \<Rightarrow> string" where
  "num_text d =
     (if mantissa d = 0 then ''0''
      else (if mantissa d < 0 then ''-'' else '''') @ digits_text (nat \<bar>mantissa d\<bar>) (exponent d))"

definition quote_char :: char where "quote_char = CHR 0x22"
definition backslash_char :: char where "backslash_char = CHR 0x5C"

definition hex_digit :: "nat \<Rightarrow> char" where
  "hex_digit n = (if n < 10 then char_of (48 + n) else char_of (87 + n))"

definition escape_char :: "char \<Rightarrow> string" where
  "escape_char c =
     (let n = of_char c :: nat in
      if n = 34 \<or> n = 92 then [backslash_char, c]
      else if n = 8 then [backslash_char, CHR ''b'']
      else if n = 9 then [backslash_char, CHR ''t'']
      else if n = 10 then [backslash_char, CHR ''n'']
      else if n = 12 then [backslash_char, CHR ''f'']
      else if n = 13 then [backslash_char, CHR ''r'']
      else if n < 32 then [backslash_char, CHR ''u'', CHR ''0'', CHR ''0'', hex_digit (n div 16), hex_digit (n mod 16)]
      else [c])"

definition string_text :: "string \<Rightarrow> string" where
  "string_text s = quote_char # concat (map escape_char s) @ [quote_char]"

fun join_comma :: "string list \<Rightarrow> string" where
  "join_comma [] = ''''"
| "join_comma [x] = x"
| "join_comma (x # y # ys) = x @ '','' @ join_comma (y # ys)"

definition member_text :: "string \<times> string \<Rightarrow> string" where
  "member_text kv = string_text (fst kv) @ '':'' @ snd kv"

primrec JSON_stringify :: "jdoc \<Rightarrow> string" where
  "JSON_stringify DNull = ''null''"
| "JSON_stringify (DBool b) = (if b then ''true'' else ''false'')"
| "JSON_stringify (DNum d) = num_text d"
| "JSON_stringify (DStr s) = string_text s"
| "JSON_stringify (DArr xs) = ''['' @ join_comma (map JSON_stringify xs) @ '']''"
| "JSON_stringify (DObj kvs) = ''{'' @ join_comma (map member_text (map (map_prod id JSON_stringify) kvs)) @ ''}''"

section \<open>Reading\<close>

definition is_digit :: "char \<Rightarrow> bool" where
  "is_digit c \<longleftrightarrow> 48 \<le> (of_char c :: nat) \<and> (of_char c :: nat) \<le> 57"

definition nat_of_digits :: "string \<Rightarrow> nat" where
  "nat_of_digits ds = foldl (\<lambda>n c. 10 * n + (of_char c - 48)) 0 ds"

definition digits :: "string \<Rightarrow> string \<times> string" where
  "digits s = (takeWhile is_digit s, dropWhile is_digit s)"

definition p_fraction :: "string \<Rightarrow> (string \<times> string) option" where
  "p_fraction s = (case s of
      CHR ''.'' # r \<Rightarrow> (case digits r of (ds, r') \<Rightarrow> if ds = [] then None else Some (ds, r'))
    | _ \<Rightarrow> Some ([], s))"

definition p_exponent_digits :: "string \<Rightarrow> (nat \<times> string) option" where
  "p_exponent_digits s = (case digits s of (ds, r) \<Rightarrow> if ds = [] then None else Some (nat_of_digits ds, r))"

definition p_exponent :: "string \<Rightarrow> (int \<times> string) option" where
  "p_exponent s = (case s of
      [] \<Rightarrow> Some (0, [])
    | c # r \<Rightarrow>
        if c = CHR ''e'' \<or> c = CHR ''E'' then
          (case r of
             CHR ''-'' # r' \<Rightarrow> map_option (map_prod (\<lambda>n. - int n) id) (p_exponent_digits r')
           | CHR ''+'' # r' \<Rightarrow> map_option (map_prod int id) (p_exponent_digits r')
           | _ \<Rightarrow> map_option (map_prod int id) (p_exponent_digits r))
        else Some (0, s))"

definition p_unsigned :: "string \<Rightarrow> (js_double \<times> string) option" where
  "p_unsigned s = (case digits s of (is, r) \<Rightarrow>
     if is = [] \<or> (hd is = CHR ''0'' \<and> tl is \<noteq> []) then None
     else do {
       (fs, r') \<leftarrow> p_fraction r;
       (x, r'') \<leftarrow> p_exponent r';
       Some (Dec (int (nat_of_digits (is @ fs))) (x - int (length fs)), r'') })"

definition negate :: "js_double \<Rightarrow> js_double" where
  "negate d = Dec (- mantissa d) (exponent d)"

definition p_number :: "string \<Rightarrow> (js_double \<times> string) option" where
  "p_number s = (case s of
      CHR ''-'' # r \<Rightarrow> map_option (map_prod negate id) (p_unsigned r)
    | _ \<Rightarrow> p_unsigned s)"

definition hex_value :: "char \<Rightarrow> nat option" where
  "hex_value c =
     (let n = of_char c :: nat in
      if 48 \<le> n \<and> n \<le> 57 then Some (n - 48)
      else if 97 \<le> n \<and> n \<le> 102 then Some (n - 87)
      else if 65 \<le> n \<and> n \<le> 70 then Some (n - 55)
      else None)"

definition hex4 :: "char \<Rightarrow> char \<Rightarrow> char \<Rightarrow> char \<Rightarrow> nat option" where
  "hex4 a b c d = do {
     w \<leftarrow> hex_value a; x \<leftarrow> hex_value b; y \<leftarrow> hex_value c; z \<leftarrow> hex_value d;
     Some (((w * 16 + x) * 16 + y) * 16 + z) }"

definition simple_escape :: "char \<Rightarrow> char option" where
  "simple_escape c =
     (if c = quote_char \<or> c = backslash_char \<or> c = CHR ''/'' then Some c
      else if c = CHR ''b'' then Some (CHR 0x08)
      else if c = CHR ''t'' then Some (CHR 0x09)
      else if c = CHR ''n'' then Some (CHR 0x0A)
      else if c = CHR ''f'' then Some (CHR 0x0C)
      else if c = CHR ''r'' then Some (CHR 0x0D)
      else None)"

text \<open>The rest of a string after its opening quote, and what follows it.\<close>

definition consing :: "char \<Rightarrow> (string \<times> string) option \<Rightarrow> (string \<times> string) option" where
  "consing c r = map_option (map_prod (Cons c) id) r"

fun p_string :: "string \<Rightarrow> (string \<times> string) option" where
  "p_string [] = None"
| "p_string (c # cs) =
     (if c = quote_char then Some ([], cs)
      else if c = backslash_char then
        (case cs of
           [] \<Rightarrow> None
         | x # r \<Rightarrow>
             if x = CHR ''u'' then
               (case r of
                  a # b # c' # d # r' \<Rightarrow>
                    (case hex4 a b c' d of
                       None \<Rightarrow> None
                     | Some n \<Rightarrow> if n < 256 then consing (char_of n) (p_string r') else None)
                | _ \<Rightarrow> None)
             else (case simple_escape x of None \<Rightarrow> None | Some e \<Rightarrow> consing e (p_string r)))
      else if (of_char c :: nat) < 32 then None
      else consing c (p_string cs))"

definition is_json_space :: "char \<Rightarrow> bool" where
  "is_json_space c \<longleftrightarrow> (of_char c :: nat) \<in> {9, 10, 13, 32}"

definition skip_space :: "string \<Rightarrow> string" where
  "skip_space s = dropWhile is_json_space s"

fun p_literal :: "string \<Rightarrow> 'a \<Rightarrow> string \<Rightarrow> ('a \<times> string) option" where
  "p_literal [] v s = Some (v, s)"
| "p_literal (x # xs) v [] = None"
| "p_literal (x # xs) v (c # cs) = (if c = x then p_literal xs v cs else None)"

fun p_value :: "nat \<Rightarrow> string \<Rightarrow> (jdoc \<times> string) option"
  and p_elements :: "nat \<Rightarrow> string \<Rightarrow> (jdoc list \<times> string) option"
  and p_members :: "nat \<Rightarrow> string \<Rightarrow> ((string \<times> jdoc) list \<times> string) option"
where
  "p_value 0 s = None"
| "p_value (Suc n) s = (case skip_space s of
      [] \<Rightarrow> None
    | c # r \<Rightarrow>
        if c = CHR ''{'' then
          (case skip_space r of
             [] \<Rightarrow> None
           | x # r' \<Rightarrow> if x = CHR ''}'' then Some (DObj [], r') else map_option (map_prod DObj id) (p_members n r))
        else if c = CHR ''['' then
          (case skip_space r of
             [] \<Rightarrow> None
           | x # r' \<Rightarrow> if x = CHR '']'' then Some (DArr [], r') else map_option (map_prod DArr id) (p_elements n r))
        else if c = quote_char then map_option (map_prod DStr id) (p_string r)
        else if c = CHR ''n'' then p_literal ''null'' DNull (c # r)
        else if c = CHR ''t'' then p_literal ''true'' (DBool True) (c # r)
        else if c = CHR ''f'' then p_literal ''false'' (DBool False) (c # r)
        else map_option (map_prod DNum id) (p_number (c # r)))"
| "p_elements 0 s = None"
| "p_elements (Suc n) s = (case p_value n s of
      None \<Rightarrow> None
    | Some (v, r) \<Rightarrow>
        (case skip_space r of
           [] \<Rightarrow> None
         | c # r' \<Rightarrow>
             if c = CHR '','' then map_option (map_prod (Cons v) id) (p_elements n r')
             else if c = CHR '']'' then Some ([v], r')
             else None))"
| "p_members 0 s = None"
| "p_members (Suc n) s = (case skip_space s of
      [] \<Rightarrow> None
    | q # r \<Rightarrow>
        if q \<noteq> quote_char then None
        else (case p_string r of
           None \<Rightarrow> None
         | Some (k, r1) \<Rightarrow>
             (case skip_space r1 of
                [] \<Rightarrow> None
              | x # r2 \<Rightarrow>
                  if x \<noteq> CHR '':'' then None
                  else (case p_value n r2 of
                     None \<Rightarrow> None
                   | Some (v, r3) \<Rightarrow>
                       (case skip_space r3 of
                          [] \<Rightarrow> None
                        | c # r4 \<Rightarrow>
                            if c = CHR '','' then map_option (map_prod (Cons (k, v)) id) (p_members n r4)
                            else if c = CHR ''}'' then Some ([(k, v)], r4)
                            else None)))))"

definition parse_fuel :: "string \<Rightarrow> nat" where
  "parse_fuel s = Suc (2 * length s)"

definition JSON_parse :: "string \<Rightarrow> jdoc option" where
  "JSON_parse s = (case p_value (parse_fuel s) s of
      None \<Rightarrow> None
    | Some (v, r) \<Rightarrow> if skip_space r = [] then Some v else None)"

section \<open>Numbers\<close>

lemma of_char_inject: "(of_char c :: nat) = of_char d \<longleftrightarrow> c = d"
  by (rule of_char_eq_iff)

lemma is_digit_char [simp]: "n < 10 \<Longrightarrow> is_digit (char_of (48 + n :: nat))"
  by (simp add: is_digit_def)

lemma not_digits [simp]: "\<not> is_digit CHR ''.''" "\<not> is_digit CHR ''e''" "\<not> is_digit CHR ''+''" "\<not> is_digit CHR ''-''"
  "\<not> is_digit CHR '',''" "\<not> is_digit CHR '']''" "\<not> is_digit CHR ''}''" "is_digit CHR ''0''"
  by (simp_all add: is_digit_def)

lemma dec_of_nat_digits: "list_all is_digit (dec_of_nat n)"
  by (induction n rule: dec_of_nat.induct) (subst dec_of_nat.simps, simp)

lemma dec_of_nat_not_Nil [simp]: "dec_of_nat n \<noteq> []"
  by (subst dec_of_nat.simps) simp

lemma nat_of_digits_snoc: "nat_of_digits (ds @ [c]) = 10 * nat_of_digits ds + (of_char c - 48)"
  by (simp add: nat_of_digits_def)

lemma nat_of_digits_append: "nat_of_digits (xs @ ys) = nat_of_digits xs * 10 ^ length ys + nat_of_digits ys"
proof (induction ys rule: rev_induct)
  case (snoc y ys)
  then show ?case using nat_of_digits_snoc [of "xs @ ys" y] nat_of_digits_snoc [of ys y] by (simp add: algebra_simps)
qed (simp add: nat_of_digits_def)

lemma nat_of_digits_dec: "nat_of_digits (dec_of_nat n) = n"
proof (induction n rule: dec_of_nat.induct)
  case (1 n)
  then show ?case
    by (subst dec_of_nat.simps) (auto simp: nat_of_digits_snoc, auto simp: nat_of_digits_def)
qed

lemma nat_of_digits_zeros: "nat_of_digits (replicate k CHR ''0'') = 0"
proof (induction k)
  case (Suc k)
  then show ?case
    using nat_of_digits_snoc [of "replicate k CHR ''0''" "CHR ''0''"] by (simp add: replicate_append_same)
qed (simp add: nat_of_digits_def)

lemma dec_of_nat_hd: "0 < n \<Longrightarrow> hd (dec_of_nat n) \<noteq> CHR ''0''"
proof (induction n rule: dec_of_nat.induct)
  case (1 n)
  have "char_of (48 + n) \<noteq> (CHR ''0'')" if "0 < n" "n < 10"
  proof
    assume "char_of (48 + n) = (CHR ''0'')"
    then have "of_char (char_of (48 + n) :: char) = (of_char (CHR ''0'') :: nat)" by simp
    then show False using that by simp
  qed
  with 1 show ?case by (subst dec_of_nat.simps) (auto simp: hd_append)
qed

lemma digits_stop:
  assumes "list_all is_digit ds" "r = [] \<or> \<not> is_digit (hd r)"
  shows "digits (ds @ r) = (ds, r)"
  using assms by (cases r) (auto simp: digits_def takeWhile_append dropWhile_append list_all_iff)

text \<open>What can follow a number: nothing that would continue it.\<close>

definition ends_number :: "string \<Rightarrow> bool" where
  "ends_number r \<longleftrightarrow> r = [] \<or> (\<not> is_digit (hd r) \<and> hd r \<notin> {CHR ''.'', CHR ''e'', CHR ''E''})"

lemma p_fraction_none: "ends_number r \<or> (\<exists>r'. r = CHR ''e'' # r') \<Longrightarrow> p_fraction r = Some ([], r)"
  by (auto simp: p_fraction_def ends_number_def split: list.splits char.splits bool.splits)

lemma p_fraction_some:
  "ds \<noteq> [] \<Longrightarrow> list_all is_digit ds \<Longrightarrow> r = [] \<or> \<not> is_digit (hd r) \<Longrightarrow> p_fraction (CHR ''.'' # ds @ r) = Some (ds, r)"
  by (simp add: p_fraction_def digits_stop)

lemma p_exponent_none: "ends_number r \<Longrightarrow> p_exponent r = Some (0, r)"
  by (auto simp: p_exponent_def ends_number_def split: list.splits)

lemma ends_number_digit: "ends_number r \<Longrightarrow> r = [] \<or> \<not> is_digit (hd r)"
  by (auto simp: ends_number_def)

lemma p_exponent_some:
  assumes "ends_number r"
  shows "p_exponent (exponent_text x @ r) = Some (x, r)"
proof -
  have "p_exponent_digits (dec_of_nat n @ r) = Some (n, r)" for n
    using digits_stop [OF dec_of_nat_digits ends_number_digit [OF assms]] by (simp add: p_exponent_digits_def nat_of_digits_dec)
  then show ?thesis by (simp add: p_exponent_def exponent_text_def)
qed

lemma p_unsigned_parts:
  assumes "is \<noteq> []" "list_all is_digit is" "hd is = CHR ''0'' \<Longrightarrow> tl is = []"
    and "r = [] \<or> \<not> is_digit (hd r)" "p_fraction r = Some (fs, r')" "p_exponent r' = Some (x, r'')"
  shows "p_unsigned (is @ r) = Some (Dec (int (nat_of_digits (is @ fs))) (x - int (length fs)), r'')"
  using assms by (simp add: p_unsigned_def digits_stop)

lemma list_all_take_drop: "list_all P xs \<Longrightarrow> list_all P (take n xs)" "list_all P xs \<Longrightarrow> list_all P (drop n xs)"
  by (auto simp: list_all_iff dest: in_set_takeD in_set_dropD)

text \<open>Reading undoes writing in each of the four formats.\<close>

lemma p_unsigned_digits_text:
  assumes "0 < m" "ends_number r"
  shows "p_unsigned (digits_text m e @ r) = Some (Dec (int m) e, r)"
proof -
  define ds where "ds = dec_of_nat m"
  define n where "n = int (length ds) + e"
  have ds: "list_all is_digit ds" "ds \<noteq> []" "hd ds \<noteq> CHR ''0''" "nat_of_digits ds = m"
    using assms(1) by (simp_all add: ds_def dec_of_nat_digits dec_of_nat_hd nat_of_digits_dec)
  note stop = ends_number_digit [OF assms(2)]
  have shape: "digits_text m e =
     (if int (length ds) \<le> n \<and> n \<le> 21 then ds @ replicate (nat e) CHR ''0''
      else if 0 < n \<and> n \<le> 21 then take (nat n) ds @ ''.'' @ drop (nat n) ds
      else if - 6 < n \<and> n \<le> 0 then ''0.'' @ replicate (nat (- n)) CHR ''0'' @ ds
      else (if length ds = 1 then ds else take 1 ds @ ''.'' @ drop 1 ds) @ exponent_text (n - 1))"
    by (simp add: digits_text_def ds_def n_def Let_def)
  consider (whole) "int (length ds) \<le> n \<and> n \<le> 21" | (point) "\<not> int (length ds) \<le> n" "0 < n" "n \<le> 21"
    | (small) "- 6 < n" "n \<le> 0" "\<not> int (length ds) \<le> n" | (scientific) "\<not> (int (length ds) \<le> n \<and> n \<le> 21)" "\<not> (0 < n \<and> n \<le> 21)" "\<not> (- 6 < n \<and> n \<le> 0)"
    by linarith
  then show ?thesis
  proof cases
    case whole
    let ?is = "ds @ replicate (nat e) CHR ''0''"
    have e: "0 \<le> e" using whole by (simp add: n_def)
    have "p_unsigned (?is @ r) = Some (Dec (int (nat_of_digits (?is @ []))) (0 - int (length ([] :: string))), r)"
      by (rule p_unsigned_parts) (use ds stop assms(2) in \<open>auto simp: list_all_iff p_fraction_none p_exponent_none\<close>)
    moreover have "nat_of_digits ?is = m * 10 ^ nat e" using ds(4) by (simp add: nat_of_digits_append nat_of_digits_zeros)
    moreover have "Dec (int m * 10 ^ nat e) 0 = Dec (int m) e" using Dec_shift [of "int m" "nat e" 0] e by simp
    ultimately show ?thesis using whole by (simp add: shape)
  next
    case point
    let ?is = "take (nat n) ds" and ?fs = "drop (nat n) ds"
    have fs: "?is \<noteq> []" "?fs \<noteq> []" "hd ?is \<noteq> CHR ''0''" using point ds by (auto simp: hd_take)
    have "p_unsigned (?is @ CHR ''.'' # ?fs @ r) = Some (Dec (int (nat_of_digits (?is @ ?fs))) (0 - int (length ?fs)), r)"
      by (rule p_unsigned_parts [OF _ _ _ _ p_fraction_some p_exponent_none]) (use ds fs stop assms(2) in \<open>auto simp: list_all_take_drop\<close>)
    then show ?thesis using point ds(4) by (simp add: shape n_def)
  next
    case small
    let ?fs = "replicate (nat (- n)) CHR ''0'' @ ds"
    have "p_unsigned ([CHR ''0''] @ CHR ''.'' # ?fs @ r) = Some (Dec (int (nat_of_digits ([CHR ''0''] @ ?fs))) (0 - int (length ?fs)), r)"
      by (rule p_unsigned_parts [OF _ _ _ _ p_fraction_some p_exponent_none]) (use ds stop assms(2) in \<open>auto simp: list_all_iff\<close>)
    moreover have "nat_of_digits ([CHR ''0''] @ ?fs) = m"
      using ds(4) nat_of_digits_zeros [of "Suc (nat (- n))"] nat_of_digits_append [of "replicate (Suc (nat (- n))) CHR ''0''" ds]
      by simp
    ultimately show ?thesis using small by (simp add: shape n_def)
  next
    case scientific
    show ?thesis
    proof (cases "length ds = 1")
      case True
      have "p_unsigned (ds @ exponent_text (n - 1) @ r) = Some (Dec (int (nat_of_digits (ds @ []))) (n - 1 - int (length ([] :: string))), r)"
        by (rule p_unsigned_parts [OF _ _ _ _ p_fraction_none p_exponent_some])
          (use ds assms(2) in \<open>auto simp: exponent_text_def\<close>)
      then show ?thesis using scientific True ds(4) by (auto simp: shape n_def)
    next
      case False
      let ?is = "take 1 ds" and ?fs = "drop 1 ds"
      have fs: "?is \<noteq> []" "?fs \<noteq> []" "hd ?is \<noteq> CHR ''0''" using False ds by (cases ds; simp; fail)+
      have "p_unsigned (?is @ CHR ''.'' # ?fs @ exponent_text (n - 1) @ r) =
          Some (Dec (int (nat_of_digits (?is @ ?fs))) (n - 1 - int (length ?fs)), r)"
        by (rule p_unsigned_parts [OF _ _ _ _ p_fraction_some p_exponent_some])
          (use ds fs assms(2) in \<open>auto simp: exponent_text_def list_all_take_drop\<close>)
      moreover have "n - 1 - int (length ?fs) = e" using fs ds(2) by (cases ds) (auto simp: n_def)
      ultimately show ?thesis using scientific False ds(4) by (auto simp: shape)
    qed
  qed
qed

lemma digits_text_hd: "0 < m \<Longrightarrow> is_digit (hd (digits_text m e))"
  using dec_of_nat_digits [of m] dec_of_nat_not_Nil [of m]
  by (cases "dec_of_nat m") (auto simp: digits_text_def Let_def hd_append)

lemma digits_text_Nil [simp]: "digits_text m e \<noteq> []"
  by (simp add: digits_text_def Let_def)

lemma p_number_unsigned: "s \<noteq> [] \<Longrightarrow> is_digit (hd s) \<Longrightarrow> p_number s = p_unsigned s"
  by (cases s) (auto simp: p_number_def is_digit_def split: char.splits bool.splits)

lemma negate_Dec: "canonical (m, e) \<Longrightarrow> negate (Dec m e) = Dec (- m) e"
  by (simp add: negate_def mantissa_Dec exponent_Dec)

lemma canonical_minus: "canonical (m, e) \<Longrightarrow> canonical (- m, e)"
  by (auto simp: canonical_def)

lemma p_number_num_text:
  assumes "ends_number r"
  shows "p_number (num_text d @ r) = Some (d, r)"
proof -
  define m where "m = mantissa d"
  have can: "canonical (m, exponent d)" by (simp add: m_def canonical_parts)
  have d: "d = Dec m (exponent d)" by (simp add: m_def)
  consider "m = 0" | "m < 0" | "0 < m" by linarith
  then show ?thesis
  proof cases
    case 1
    then have "exponent d = 0" using can by (simp add: canonical_def)
    then have "d = Dec 0 0" using d 1 by simp
    moreover have "p_unsigned ([CHR ''0''] @ r) = Some (Dec (int (nat_of_digits ([CHR ''0''] @ []))) (0 - int (length ([] :: string))), r)"
      by (rule p_unsigned_parts [OF _ _ _ _ p_fraction_none p_exponent_none])
        (use assms ends_number_digit [OF assms] in auto)
    moreover have "nat_of_digits ''0'' = 0" by (simp add: nat_of_digits_def)
    ultimately show ?thesis using 1 by (simp add: num_text_def m_def p_number_unsigned)
  next
    case 2
    have "p_number (CHR ''-'' # digits_text (nat \<bar>m\<bar>) (exponent d) @ r) = Some (negate (Dec (- m) (exponent d)), r)"
      using p_unsigned_digits_text [of "nat \<bar>m\<bar>" r "exponent d"] assms 2 by (simp add: p_number_def)
    moreover have "negate (Dec (- m) (exponent d)) = d"
      using negate_Dec [OF canonical_minus [OF can]] d by simp
    ultimately show ?thesis using 2 by (simp add: num_text_def m_def)
  next
    case 3
    then have "p_number (digits_text (nat \<bar>m\<bar>) (exponent d) @ r) = Some (Dec m (exponent d), r)"
      using p_unsigned_digits_text [of "nat \<bar>m\<bar>" r "exponent d"] assms
      by (subst p_number_unsigned) (auto simp: digits_text_hd)
    with 3 d show ?thesis by (simp add: num_text_def m_def)
  qed
qed

section \<open>Strings\<close>

lemma hex_digit_value: "n < 16 \<Longrightarrow> hex_value (hex_digit n) = Some n"
  by (auto simp: hex_value_def hex_digit_def)

lemma hex_value_zero [simp]: "hex_value (CHR ''0'') = Some 0"
  by (simp add: hex_value_def)

lemma escape_plain: "32 \<le> (of_char c :: nat) \<Longrightarrow> c \<noteq> quote_char \<Longrightarrow> c \<noteq> backslash_char \<Longrightarrow> escape_char c = [c]"
proof -
  assume c: "32 \<le> (of_char c :: nat)" "c \<noteq> quote_char" "c \<noteq> backslash_char"
  have "(of_char c :: nat) \<noteq> 34" "(of_char c :: nat) \<noteq> 92"
    using c(2,3) of_char_inject [of c quote_char] of_char_inject [of c backslash_char]
    by (simp_all add: quote_char_def backslash_char_def)
  with c(1) show ?thesis by (simp add: escape_char_def Let_def)
qed

lemma p_string_hex:
  "n < 32 \<Longrightarrow> p_string (backslash_char # CHR ''u'' # CHR ''0'' # CHR ''0'' # hex_digit (n div 16) # hex_digit (n mod 16) # t) =
     consing (char_of n) (p_string t)"
  by (simp add: hex4_def hex_digit_value quote_char_def backslash_char_def)

lemma p_string_escape: "p_string (escape_char c @ t) = consing c (p_string t)"
proof -
  define n where "n = (of_char c :: nat)"
  have c: "c = char_of n" by (simp add: n_def)
  consider "c = quote_char" | "c = backslash_char" | "n = 8" | "n = 9" | "n = 10" | "n = 12" | "n = 13"
    | "n < 32" "n \<notin> {8, 9, 10, 12, 13}" | "32 \<le> n" "c \<noteq> quote_char" "c \<noteq> backslash_char" by fastforce
  then show ?thesis
  proof cases
    case 8
    then have "escape_char c = [backslash_char, CHR ''u'', CHR ''0'', CHR ''0'', hex_digit (n div 16), hex_digit (n mod 16)]"
      unfolding escape_char_def Let_def n_def [symmetric] by simp
    then show ?thesis using p_string_hex [OF 8(1)] c by simp
  next
    case 9
    then show ?thesis using escape_plain [of c] by (simp add: n_def)
  next
    case 1
    then show ?thesis by (simp add: escape_char_def quote_char_def backslash_char_def simple_escape_def)
  next
    case 2
    then show ?thesis by (simp add: escape_char_def quote_char_def backslash_char_def simple_escape_def)
  next
    case 3
    then have "c = CHR 0x08" using of_char_inject [of c "CHR 0x08"] by (simp add: n_def)
    then show ?thesis by (simp add: escape_char_def quote_char_def backslash_char_def simple_escape_def)
  next
    case 4
    then have "c = CHR 0x09" using of_char_inject [of c "CHR 0x09"] by (simp add: n_def)
    then show ?thesis by (simp add: escape_char_def quote_char_def backslash_char_def simple_escape_def)
  next
    case 5
    then have "c = CHR 0x0A" using of_char_inject [of c "CHR 0x0A"] by (simp add: n_def)
    then show ?thesis by (simp add: escape_char_def quote_char_def backslash_char_def simple_escape_def)
  next
    case 6
    then have "c = CHR 0x0C" using of_char_inject [of c "CHR 0x0C"] by (simp add: n_def)
    then show ?thesis by (simp add: escape_char_def quote_char_def backslash_char_def simple_escape_def)
  next
    case 7
    then have "c = CHR 0x0D" using of_char_inject [of c "CHR 0x0D"] by (simp add: n_def)
    then show ?thesis by (simp add: escape_char_def quote_char_def backslash_char_def simple_escape_def)
  qed
qed

lemma p_string_escaped: "p_string (concat (map escape_char s) @ quote_char # r) = Some (s, r)"
  by (induction s) (simp_all add: p_string_escape consing_def)

end
