(* ===== verification/Json_Roundtrip.thy ===== *)
theory Json_Roundtrip
  imports Json_Text
begin

text \<open>
  Facts about the texts of \<open>Json_Text\<close>: a written document is read back whatever follows it, the fuel of
  the parser suffices, what follows a value that is not a number does not change how it is read, and
  a written document has no line break.
\<close>

section \<open>Reading undoes writing\<close>

lemma skip_space_stop [simp]: "\<not> is_json_space c \<Longrightarrow> skip_space (c # s) = c # s"
  by (simp add: skip_space_def)

lemma not_space [simp]:
  "\<not> is_json_space CHR ''{''" "\<not> is_json_space CHR ''}''" "\<not> is_json_space CHR ''[''" "\<not> is_json_space CHR '']''"
  "\<not> is_json_space CHR '',''" "\<not> is_json_space CHR '':''" "\<not> is_json_space CHR ''n''" "\<not> is_json_space CHR ''t''"
  "\<not> is_json_space CHR ''f''" "\<not> is_json_space CHR ''-''" "\<not> is_json_space quote_char"
  by (simp_all add: is_json_space_def quote_char_def)

lemma quote_char_neq [simp]:
  "CHR ''n'' \<noteq> quote_char" "CHR ''t'' \<noteq> quote_char" "CHR ''f'' \<noteq> quote_char"
  "quote_char \<noteq> CHR ''{''" "quote_char \<noteq> CHR ''}''" "quote_char \<noteq> CHR ''[''" "quote_char \<noteq> CHR '']''"
  "quote_char \<noteq> CHR '',''" "quote_char \<noteq> CHR '':''" "quote_char \<noteq> CHR ''-''" "quote_char \<noteq> CHR ''.''"
  "quote_char \<noteq> CHR ''n''" "quote_char \<noteq> CHR ''t''" "quote_char \<noteq> CHR ''f''"
  by (simp_all add: quote_char_def)

lemma ends_number_simps [simp]:
  "ends_number []" "ends_number (CHR '','' # r)" "ends_number (CHR '']'' # r)" "ends_number (CHR ''}'' # r)"
  by (simp_all add: ends_number_def)

text \<open>The first character of a text decides how it is read.\<close>

definition number_start :: "char \<Rightarrow> bool" where
  "number_start c \<longleftrightarrow> c = CHR ''-'' \<or> is_digit c"

lemma number_start_not:
  "number_start c \<Longrightarrow> \<not> is_json_space c \<and> c \<notin> {CHR ''{'', CHR ''['', quote_char, CHR ''n'', CHR ''t'', CHR ''f'', CHR '']'', CHR ''}''}"
  by (auto simp: number_start_def is_digit_def is_json_space_def quote_char_def)

lemma num_text_start: "num_text d \<noteq> [] \<and> number_start (hd (num_text d))"
  using digits_text_hd [of "nat \<bar>mantissa d\<bar>" "exponent d"]
  by (auto simp: num_text_def number_start_def hd_append)

lemma p_value_number:
  assumes "ends_number r"
  shows "p_value (Suc n) (num_text d @ r) = Some (DNum d, r)"
proof -
  obtain c s where cs: "num_text d = c # s" and c: "number_start c"
    using num_text_start [of d] by (cases "num_text d") auto
  have "p_number (c # s @ r) = Some (d, r)" using p_number_num_text [OF assms, of d] cs by simp
  then show ?thesis using number_start_not [OF c] cs by simp
qed

lemma stringify_hd:
  "JSON_stringify v \<noteq> [] \<and> \<not> is_json_space (hd (JSON_stringify v)) \<and> hd (JSON_stringify v) \<noteq> CHR '']''"
proof (cases v)
  case (DNum d)
  then show ?thesis using num_text_start [of d] number_start_not [of "hd (num_text d)"] by simp
qed (auto simp: string_text_def)

lemma skip_space_stringify [simp]: "skip_space (JSON_stringify v @ r) = JSON_stringify v @ r"
  using stringify_hd [of v] by (cases "JSON_stringify v") auto

lemma join_comma_Cons: "ys \<noteq> [] \<Longrightarrow> join_comma (x # ys) = x @ '','' @ join_comma ys"
  by (cases ys) auto

definition reads_back :: "jdoc \<Rightarrow> bool" where
  "reads_back v \<longleftrightarrow> (\<forall>n r. length (JSON_stringify v) < n \<longrightarrow> ends_number r \<longrightarrow> p_value n (JSON_stringify v @ r) = Some (v, r))"

lemma p_elements_join:
  assumes "xs \<noteq> []" "\<And>x. x \<in> set xs \<Longrightarrow> reads_back x" "Suc (length (join_comma (map JSON_stringify xs))) < n"
  shows "p_elements n (join_comma (map JSON_stringify xs) @ CHR '']'' # r) = Some (xs, r)"
  using assms
proof (induction xs arbitrary: n)
  case (Cons x xs)
  obtain k where n: "n = Suc k" using Cons.prems(3) by (cases n) auto
  have x: "reads_back x" using Cons.prems(2) by simp
  show ?case
  proof (cases "xs = []")
    case True
    have "p_value k (JSON_stringify x @ CHR '']'' # r) = Some (x, CHR '']'' # r)"
      using x Cons.prems(3) True n by (simp add: reads_back_def)
    then show ?thesis using True n by simp
  next
    case False
    let ?t = "join_comma (map JSON_stringify xs) @ CHR '']'' # r"
    have len: "length (JSON_stringify x) < k" "Suc (length (join_comma (map JSON_stringify xs))) < k"
      using Cons.prems(3) False n by (simp_all add: join_comma_Cons)
    have "p_value k (JSON_stringify x @ CHR '','' # ?t) = Some (x, CHR '','' # ?t)"
      using x len by (simp add: reads_back_def)
    moreover have "p_elements k ?t = Some (xs, r)" using Cons.IH [OF False] Cons.prems(2) len by simp
    ultimately show ?thesis using False n by (simp add: join_comma_Cons)
  qed
qed simp

definition members_text :: "(string \<times> jdoc) list \<Rightarrow> string" where
  "members_text kvs = join_comma (map member_text (map (map_prod id JSON_stringify) kvs))"

lemma members_text_Cons:
  "kvs \<noteq> [] \<Longrightarrow> members_text ((k, v) # kvs) = string_text k @ '':'' @ JSON_stringify v @ '','' @ members_text kvs"
  "members_text [(k, v)] = string_text k @ '':'' @ JSON_stringify v"
  by (simp_all add: members_text_def join_comma_Cons member_text_def)

lemma p_members_join:
  assumes "kvs \<noteq> []" "\<And>k v. (k, v) \<in> set kvs \<Longrightarrow> reads_back v" "Suc (length (members_text kvs)) < n"
  shows "p_members n (members_text kvs @ CHR ''}'' # r) = Some (kvs, r)"
  using assms
proof (induction kvs arbitrary: n)
  case (Cons kv kvs)
  obtain k v where kv: "kv = (k, v)" by (cases kv)
  obtain m where n: "n = Suc m" using Cons.prems(3) by (cases n) auto
  have v: "reads_back v" using Cons.prems(2) kv by auto
  have key: "p_string (concat (map escape_char k) @ quote_char # t) = Some (k, t)" for t
    by (rule p_string_escaped)
  show ?case
  proof (cases "kvs = []")
    case True
    have "p_value m (JSON_stringify v @ CHR ''}'' # r) = Some (v, CHR ''}'' # r)"
      using v Cons.prems(3) True n kv by (simp add: reads_back_def members_text_Cons)
    then show ?thesis using True n kv key by (simp add: members_text_Cons string_text_def)
  next
    case False
    let ?t = "members_text kvs @ CHR ''}'' # r"
    have len: "length (JSON_stringify v) < m" "Suc (length (members_text kvs)) < m"
      using Cons.prems(3) False n kv by (simp_all add: members_text_Cons string_text_def)
    have "p_value m (JSON_stringify v @ CHR '','' # ?t) = Some (v, CHR '','' # ?t)"
      using v len by (simp add: reads_back_def)
    moreover have "p_members m ?t = Some (kvs, r)" using Cons.IH [OF False] Cons.prems(2) len by auto
    ultimately show ?thesis using False n kv key by (simp add: members_text_Cons string_text_def)
  qed
qed simp

lemma p_literal_append: "p_literal xs v (xs @ r) = Some (v, r)"
  by (induction xs) auto

lemma reads_back: "reads_back v"
proof (induction v)
  case (DArr xs)
  show ?case unfolding reads_back_def
  proof (intro allI impI)
    fix n :: nat and r :: string
    assume len: "length (JSON_stringify (DArr xs)) < n"
    then obtain k where n: "n = Suc k" by (cases n) auto
    show "p_value n (JSON_stringify (DArr xs) @ r) = Some (DArr xs, r)"
    proof (cases "xs = []")
      case False
      then obtain x ys where xs: "xs = x # ys" by (cases xs) auto
      let ?t = "join_comma (map JSON_stringify xs)"
      have el: "p_elements k (?t @ CHR '']'' # r) = Some (xs, r)"
        using False len n DArr.IH by (intro p_elements_join) auto
      obtain c s where c: "?t = c # s" "\<not> is_json_space c" "c \<noteq> CHR '']''"
        using stringify_hd [of x] xs by (cases "JSON_stringify x"; cases "ys = []") (auto simp: join_comma_Cons)
      show ?thesis using n el c by simp
    qed (simp add: n)
  qed
next
  case (DObj kvs)
  show ?case unfolding reads_back_def
  proof (intro allI impI)
    fix n :: nat and r :: string
    assume len: "length (JSON_stringify (DObj kvs)) < n"
    then obtain k where n: "n = Suc k" by (cases n) auto
    have shape: "JSON_stringify (DObj kvs) = CHR ''{'' # members_text kvs @ ''}''" by (simp add: members_text_def)
    show "p_value n (JSON_stringify (DObj kvs) @ r) = Some (DObj kvs, r)"
    proof (cases "kvs = []")
      case False
      have "p_members k (members_text kvs @ CHR ''}'' # r) = Some (kvs, r)"
        using False len n DObj.IH by (intro p_members_join) (auto simp: members_text_def)
      moreover obtain s where "members_text kvs = quote_char # s"
        using False by (cases kvs; cases "tl kvs = []") (auto simp: members_text_Cons string_text_def members_text_def join_comma_Cons member_text_def)
      ultimately show ?thesis unfolding shape n by simp
    qed (simp add: n)
  qed
next
  case (DNum d)
  show ?case by (auto simp: reads_back_def p_value_number less_iff_Suc_add simp del: p_value.simps)
qed (auto simp: reads_back_def less_iff_Suc_add string_text_def p_string_escaped)

lemma p_value_stringify: "length (JSON_stringify v) < n \<Longrightarrow> ends_number r \<Longrightarrow> p_value n (JSON_stringify v @ r) = Some (v, r)"
  using reads_back by (simp add: reads_back_def)

lemma JSON_parse_stringify: "JSON_parse (JSON_stringify v) = Some v"
  using p_value_stringify [of v "parse_fuel (JSON_stringify v)" "[]"]
  by (simp add: JSON_parse_def parse_fuel_def skip_space_def)

section \<open>The fuel suffices\<close>

text \<open>What is left after a value, an element list or a member list is shorter than the text.\<close>

lemma skip_space_length: "length (skip_space s) \<le> length s"
  by (simp add: skip_space_def length_dropWhile_le)

lemma skip_space_ConsD: "skip_space s = c # r \<Longrightarrow> length r < length s"
  using skip_space_length [of s] by simp

lemma p_string_length: "p_string s = Some (t, r) \<Longrightarrow> length r < length s"
  by (induction s arbitrary: t r rule: p_string.induct)
    (fastforce simp: consing_def split: if_splits list.splits option.splits)+

lemma p_literal_length: "p_literal xs v s = Some (w, r) \<Longrightarrow> length r + length xs = length s \<and> w = v"
  by (induction xs v s rule: p_literal.induct) (auto split: if_splits)

lemma digits_length: "digits s = (ds, r) \<Longrightarrow> length ds + length r = length s"
  by (auto simp: digits_def simp flip: length_append)

lemma p_fraction_length: "p_fraction s = Some (fs, r) \<Longrightarrow> length r \<le> length s"
  by (auto simp: p_fraction_def dest!: digits_length split: list.splits char.splits bool.splits prod.splits if_splits)

lemma p_exponent_digits_length: "p_exponent_digits s = Some (n, r) \<Longrightarrow> length r \<le> length s"
  by (auto simp: p_exponent_digits_def dest!: digits_length split: prod.splits if_splits)

lemma p_exponent_length: "p_exponent s = Some (x, r) \<Longrightarrow> length r \<le> length s"
  by (auto simp: p_exponent_def dest!: p_exponent_digits_length split: list.splits char.splits bool.splits if_splits)

lemma p_unsigned_length: "p_unsigned s = Some (d, r) \<Longrightarrow> length r < length s"
  by (cases "digits s")
    (auto simp: p_unsigned_def Option.bind_eq_Some_conv neq_Nil_conv dest!: digits_length p_fraction_length p_exponent_length split: if_splits)

lemma p_number_length: "p_number s = Some (d, r) \<Longrightarrow> length r < length s"
  by (auto simp: p_number_def dest!: p_unsigned_length split: list.splits char.splits bool.splits)

lemma p_shorter:
  "p_value n s = Some (v, r) \<Longrightarrow> length r < length s"
  "p_elements n s = Some (vs, r) \<Longrightarrow> length r < length s"
  "p_members n s = Some (kvs, r) \<Longrightarrow> length r < length s"
proof (induction n s and n s and n s arbitrary: v r and vs r and kvs r rule: p_value_p_elements_p_members.induct)
  case (2 n s)
  then obtain c t where s: "skip_space s = c # t" by (cases "skip_space s") auto
  note st = skip_space_ConsD [OF s]
  consider "c = CHR ''{''" | "c = CHR ''[''" | "c \<noteq> CHR ''{''" "c \<noteq> CHR ''[''" by blast
  then show ?case
  proof cases
    case 1
    with 2 s show ?thesis using st by (fastforce split: list.splits if_splits dest: skip_space_ConsD)
  next
    case 2
    with "2.prems" "2.IH" s show ?thesis using st by (fastforce split: list.splits if_splits dest: skip_space_ConsD)
  next
    case 3
    with "2.prems" s show ?thesis using st
      by (auto split: if_splits dest!: p_string_length p_number_length p_literal_length)
  qed
next
  case (4 n s)
  then show ?case by (fastforce split: option.splits list.splits if_splits dest: skip_space_ConsD)
next
  case (6 n s)
  then show ?case
    by (fastforce split: option.splits list.splits if_splits dest!: skip_space_ConsD p_string_length)
qed auto

lemma p_fuel_Suc:
  "2 * length s < n \<Longrightarrow> p_value (Suc n) s = p_value n s"
  "Suc (2 * length s) < n \<Longrightarrow> p_elements (Suc n) s = p_elements n s"
  "Suc (2 * length s) < n \<Longrightarrow> p_members (Suc n) s = p_members n s"
proof (induction n s and n s and n s rule: p_value_p_elements_p_members.induct)
  case (2 n s)
  show ?case
  proof (cases "skip_space s")
    case (Cons c t)
    have "p_members (Suc n) t = p_members n t" if "c = CHR ''{''" "skip_space t = x # u" "x \<noteq> CHR ''}''" for x u
      by (rule "2.IH"(1) [OF Cons that]) (use "2.prems" skip_space_ConsD [OF Cons] in simp)
    moreover have "p_elements (Suc n) t = p_elements n t" if "c \<noteq> CHR ''{''" "c = CHR ''[''" "skip_space t = x # u" "x \<noteq> CHR '']''" for x u
      by (rule "2.IH"(2) [OF Cons that]) (use "2.prems" skip_space_ConsD [OF Cons] in simp)
    ultimately show ?thesis using Cons by (auto split: list.split simp del: p_members.simps p_elements.simps)
  qed simp
next
  case (4 n s)
  have v: "p_value (Suc n) s = p_value n s" using 4 by simp
  have "p_elements (Suc n) u = p_elements n u" if "p_value n s = Some (x, t)" "skip_space t = CHR '','' # u" for x t u
    by (rule "4.IH"(2) [OF that(1) _ that(2)]) (use "4.prems" p_shorter(1) [OF that(1)] skip_space_ConsD [OF that(2)] in simp_all)
  then show ?case
    unfolding p_elements.simps(2) [of "Suc n" s] p_elements.simps(2) [of n s] v
    by (auto split: option.split list.split simp del: p_elements.simps)
next
  case (6 n s)
  show ?case
  proof (cases "skip_space s")
    case (Cons q r)
    have v: "p_value (Suc n) r2 = p_value n r2"
      if "q = quote_char" "p_string r = Some (k, r1)" "skip_space r1 = CHR '':'' # r2" for k r1 r2
      by (rule "6.IH"(1) [OF Cons _ that(2) _ that(3)])
        (use that "6.prems" skip_space_ConsD [OF Cons] p_string_length [OF that(2)] skip_space_ConsD [OF that(3)] in simp_all)
    have m: "p_members (Suc n) r4 = p_members n r4"
      if "q = quote_char" "p_string r = Some (k, r1)" "skip_space r1 = CHR '':'' # r2" "p_value n r2 = Some (x, r3)"
        "skip_space r3 = CHR '','' # r4" for k r1 r2 x r3 r4
      by (rule "6.IH"(2) [OF Cons _ that(2) _ that(3) _ that(4) _ that(5)])
        (use that "6.prems" skip_space_ConsD [OF Cons] p_string_length [OF that(2)] skip_space_ConsD [OF that(3)]
          p_shorter(1) [OF that(4)] skip_space_ConsD [OF that(5)] in simp_all)
    show ?thesis
      unfolding p_members.simps(2) [of "Suc n" s] p_members.simps(2) [of n s] Cons
      using v m by (auto split: option.split list.split simp del: p_members.simps p_value.simps)
  qed simp
qed auto

lemma p_value_fuel: "2 * length s < n \<Longrightarrow> p_value n s = p_value (parse_fuel s) s"
proof (induction n)
  case (Suc n)
  then show ?case
    by (cases "2 * length s < n") (auto simp: p_fuel_Suc(1) parse_fuel_def less_Suc_eq simp del: p_value.simps)
qed simp

section \<open>What follows a value does not change how it is read\<close>

lemma skip_space_append: "skip_space s = c # r \<Longrightarrow> skip_space (s @ q) = c # r @ q"
  by (induction s) (auto simp: skip_space_def split: if_splits)

lemma p_string_append: "p_string s = Some (t, r) \<Longrightarrow> p_string (s @ q) = Some (t, r @ q)"
proof (induction s arbitrary: t r rule: p_string.induct)
  case (2 c cs)
  consider "c = quote_char" | "c \<noteq> quote_char" "c \<noteq> backslash_char" | "c \<noteq> quote_char" "c = backslash_char" by blast
  then show ?case
  proof cases
    case 2
    with "2.prems" "2.IH"(3) show ?thesis by (auto simp: consing_def split: if_splits)
  next
    case 3
    with "2.prems" obtain x u where cs: "cs = x # u" by (cases cs) auto
    show ?thesis
    proof (cases "x = CHR ''u''")
      case True
      with 3 "2.prems" cs obtain h1 h2 h3 h4 w where u: "u = h1 # h2 # h3 # h4 # w"
        by (cases u; cases "tl u"; cases "tl (tl u)"; cases "tl (tl (tl u))") auto
      with True 3 "2.prems" cs obtain n where n: "hex4 h1 h2 h3 h4 = Some n" "n < 256"
        by (auto split: option.splits if_splits)
      from "2.IH"(1) [OF 3 cs True u] n True 3 "2.prems" cs u show ?thesis by (auto simp: consing_def)
    next
      case False
      with 3 "2.prems" cs obtain e where e: "simple_escape x = Some e" by (auto split: option.splits)
      from "2.IH"(2) [OF 3 cs False e] e False 3 "2.prems" cs show ?thesis by (auto simp: consing_def)
    qed
  qed (use "2.prems" in simp)
qed simp

lemma p_literal_extend: "p_literal xs v s = Some (w, r) \<Longrightarrow> p_literal xs v (s @ q) = Some (w, r @ q)"
  by (induction xs v s rule: p_literal.induct) (auto split: if_splits)

lemma digits_append: "digits s = (ds, r) \<Longrightarrow> r \<noteq> [] \<Longrightarrow> digits (s @ q) = (ds, r @ q)"
  by (auto simp: digits_def takeWhile_append dropWhile_append)

lemma p_fraction_Cons:
  "p_fraction (c # t) =
     (if c = CHR ''.'' then (if fst (digits t) = [] then None else Some (digits t)) else Some ([], c # t))"
  by (auto simp: p_fraction_def split: char.splits bool.splits prod.splits)

lemma p_fraction_append: "p_fraction s = Some (fs, r) \<Longrightarrow> r \<noteq> [] \<Longrightarrow> p_fraction (s @ q) = Some (fs, r @ q)"
  by (cases s) (auto simp: p_fraction_Cons p_fraction_def [of "[]"] digits_append split: if_splits)

lemma p_exponent_digits_append:
  "p_exponent_digits s = Some (n, r) \<Longrightarrow> r \<noteq> [] \<Longrightarrow> p_exponent_digits (s @ q) = Some (n, r @ q)"
  by (cases "digits s") (auto simp: p_exponent_digits_def digits_append split: if_splits)

lemma p_exponent_Cons:
  "p_exponent (c # t) =
     (if c = CHR ''e'' \<or> c = CHR ''E'' then
        (if t \<noteq> [] \<and> hd t = CHR ''-'' then map_option (map_prod (\<lambda>n. - int n) id) (p_exponent_digits (tl t))
         else if t \<noteq> [] \<and> hd t = CHR ''+'' then map_option (map_prod int id) (p_exponent_digits (tl t))
         else map_option (map_prod int id) (p_exponent_digits t))
      else Some (0, c # t))"
  by (auto simp: p_exponent_def split: list.splits char.splits bool.splits)

lemma p_exponent_digits_Nil: "p_exponent_digits [] = None"
  by (simp add: p_exponent_digits_def digits_def)

lemma p_exponent_append:
  assumes "p_exponent s = Some (x, r)" "r \<noteq> []"
  shows "p_exponent (s @ q) = Some (x, r @ q)"
proof (cases s)
  case (Cons c t)
  then show ?thesis using assms
    by (cases t) (auto simp: p_exponent_Cons p_exponent_digits_Nil split: if_splits
      dest: p_exponent_digits_append [where q = q])
qed (use assms in \<open>auto simp: p_exponent_def\<close>)

lemma p_unsigned_append:
  assumes "p_unsigned s = Some (d, r)" "r \<noteq> []"
  shows "p_unsigned (s @ q) = Some (d, r @ q)"
proof -
  obtain ds t where ds: "digits s = (ds, t)" by (cases "digits s")
  with assms(1) obtain fs t' x where parts: "\<not> (ds = [] \<or> (hd ds = CHR ''0'' \<and> tl ds \<noteq> []))"
    "p_fraction t = Some (fs, t')" "p_exponent t' = Some (x, r)" "d = Dec (int (nat_of_digits (ds @ fs))) (x - int (length fs))"
    by (auto simp: p_unsigned_def Option.bind_eq_Some_conv split: if_splits)
  have "t' \<noteq> []" "t \<noteq> []" using p_exponent_length [OF parts(3)] p_fraction_length [OF parts(2)] assms(2) by auto
  then show ?thesis
    using digits_append [OF ds] p_fraction_append [OF parts(2)] p_exponent_append [OF parts(3) assms(2)] parts
    by (simp add: p_unsigned_def)
qed

lemma p_number_append:
  assumes "p_number s = Some (d, r)" "r \<noteq> []"
  shows "p_number (s @ q) = Some (d, r @ q)"
proof (cases "s \<noteq> [] \<and> hd s = CHR ''-''")
  case True
  then obtain t where "s = CHR ''-'' # t" by (cases s) auto
  with assms show ?thesis by (auto simp: p_number_def dest: p_unsigned_append)
next
  case False
  then have "p_number s = p_unsigned s" and ext: "s \<noteq> [] \<Longrightarrow> p_number (s @ q) = p_unsigned (s @ q)"
    by (cases s; auto simp: p_number_def split: char.splits bool.splits)+
  moreover from assms have "s \<noteq> []" by (auto simp: p_number_def p_unsigned_def digits_def)
  ultimately show ?thesis using assms p_unsigned_append by simp
qed

fun is_number :: "jdoc \<Rightarrow> bool" where
  "is_number (DNum d) = True"
| "is_number _ = False"

lemma p_append:
  "p_value n s = Some (v, r) \<Longrightarrow> r \<noteq> [] \<or> \<not> is_number v \<Longrightarrow> p_value n (s @ q) = Some (v, r @ q)"
  "p_elements n s = Some (vs, r) \<Longrightarrow> p_elements n (s @ q) = Some (vs, r @ q)"
  "p_members n s = Some (kvs, r) \<Longrightarrow> p_members n (s @ q) = Some (kvs, r @ q)"
proof (induction n s and n s and n s arbitrary: v r and vs r and kvs r rule: p_value_p_elements_p_members.induct)
  case (2 n s)
  then obtain c t where s: "skip_space s = c # t" by (cases "skip_space s") auto
  note sq = skip_space_append [OF s, of q]
  consider "c = CHR ''{''" | "c = CHR ''[''" | "c \<noteq> CHR ''{''" "c \<noteq> CHR ''[''" by blast
  then show ?case
  proof cases
    case 1
    with "2.prems" s obtain x u where u: "skip_space t = x # u" by (cases "skip_space t") auto
    with 1 "2.prems" "2.IH"(1) [OF s 1 u] s sq skip_space_append [OF u, of q] show ?thesis
      by (auto split: if_splits)
  next
    case 2
    with "2.prems" s obtain x u where u: "skip_space t = x # u" by (cases "skip_space t") auto
    with 2 "2.prems" "2.IH"(2) [OF s _ 2 u] s sq skip_space_append [OF u, of q] show ?thesis
      by (auto split: if_splits)
  next
    case 3
    with "2.prems" s sq show ?thesis
      by (auto split: if_splits simp del: p_literal.simps dest: p_string_append p_number_append p_literal_extend [where q = q])
  qed
next
  case (4 n s)
  from "4.prems" obtain v t where v: "p_value n s = Some (v, t)" by (cases "p_value n s") auto
  with "4.prems" obtain c u where u: "skip_space t = c # u" by (cases "skip_space t") auto
  then have "p_value n (s @ q) = Some (v, t @ q)" using "4.IH"(1) [OF v] by (cases t) (auto simp: skip_space_def)
  with "4.prems" "4.IH"(2) [OF v _ u] v u skip_space_append [OF u, of q] show ?case
    by (auto split: if_splits)
next
  case (6 n s)
  from "6.prems" obtain t where s: "skip_space s = quote_char # t" by (cases "skip_space s") (auto split: if_splits)
  with "6.prems" obtain k r1 where k: "p_string t = Some (k, r1)" by (cases "p_string t") auto
  with "6.prems" s obtain r2 where r2: "skip_space r1 = CHR '':'' # r2" by (cases "skip_space r1") (auto split: if_splits)
  with "6.prems" s k obtain v r3 where v: "p_value n r2 = Some (v, r3)" by (cases "p_value n r2") auto
  with "6.prems" s k r2 obtain c r4 where r4: "skip_space r3 = c # r4" by (cases "skip_space r3") auto
  then have "p_value n (r2 @ q) = Some (v, r3 @ q)" using "6.IH"(1) [OF s _ k _ r2] v by (cases r3) (auto simp: skip_space_def)
  with "6.prems" "6.IH"(2) [OF s _ k _ r2 _ v _ r4] s k r2 v r4
    skip_space_append [OF s, of q] p_string_append [OF k, of q] skip_space_append [OF r2, of q] skip_space_append [OF r4, of q]
  show ?case by (auto split: if_splits)
qed auto

lemma JSON_parse_Nil: "JSON_parse [] = None"
  by (simp add: JSON_parse_def parse_fuel_def skip_space_def)

text \<open>No proper prefix of the text of an object can be read, which is how a torn line shows.\<close>

lemma JSON_parse_torn:
  assumes "JSON_stringify (DObj kvs) = p @ q" "q \<noteq> []"
  shows "JSON_parse p = None"
proof (rule ccontr)
  assume "JSON_parse p \<noteq> None"
  then obtain v r where v: "p_value (parse_fuel p) p = Some (v, r)"
    by (auto simp: JSON_parse_def split: option.splits)
  then have "p \<noteq> []" by (auto simp: parse_fuel_def skip_space_def)
  then obtain t where p: "p = CHR ''{'' # t" using assms(1) by (cases p) auto
  let ?n = "parse_fuel (p @ q)"
  have "p_value ?n p = Some (v, r)" using p_value_fuel [of p ?n] v assms(2) by (simp add: parse_fuel_def)
  moreover from this have "\<not> is_number v" using p by (auto simp: parse_fuel_def split: list.splits if_splits)
  ultimately have "p_value ?n (p @ q) = Some (v, r @ q)" by (intro p_append(1)) auto
  moreover have "p_value ?n (p @ q) = Some (DObj kvs, [])"
    using p_value_stringify [of "DObj kvs" ?n "[]"] unfolding assms(1) by (simp add: parse_fuel_def del: p_value.simps)
  ultimately show False using assms(2) by simp
qed

section \<open>A text has no line break\<close>

definition no_newline :: "string \<Rightarrow> bool" where
  "no_newline s \<longleftrightarrow> CHR 0x0A \<notin> set s"

lemma no_newline_simps [simp]: "no_newline []" "no_newline (c # s) \<longleftrightarrow> c \<noteq> CHR 0x0A \<and> no_newline s"
  "no_newline (s @ t) \<longleftrightarrow> no_newline s \<and> no_newline t"
  by (auto simp: no_newline_def)

lemma digits_no_newline: "list_all is_digit s \<Longrightarrow> no_newline s"
  by (auto simp: no_newline_def list_all_iff is_digit_def)

lemma num_text_no_newline: "no_newline (num_text d)"
proof -
  have "no_newline (digits_text m e)" for m e
    using digits_no_newline [OF dec_of_nat_digits, of m] digits_no_newline [OF dec_of_nat_digits, of "nat \<bar>x\<bar>" for x]
    by (auto simp: digits_text_def Let_def exponent_text_def no_newline_def dest: in_set_takeD in_set_dropD)
  then show ?thesis by (simp add: num_text_def)
qed

lemma escape_no_newline: "no_newline (escape_char c)"
proof -
  have "c \<noteq> CHR 0x0A" if "(of_char c :: nat) \<noteq> 10" using that by auto
  moreover have "hex_digit n \<noteq> CHR 0x0A" if "n < 16" for n
  proof
    assume "hex_digit n = CHR 0x0A"
    then have "(of_char (hex_digit n) :: nat) = 10" by simp
    then show False using that by (auto simp: hex_digit_def split: if_splits)
  qed
  ultimately show ?thesis by (auto simp: escape_char_def Let_def backslash_char_def)
qed

lemma string_text_no_newline: "no_newline (string_text s)"
  using escape_no_newline by (induction s) (auto simp: string_text_def quote_char_def)

lemma join_comma_no_newline: "(\<And>x. x \<in> set xs \<Longrightarrow> no_newline x) \<Longrightarrow> no_newline (join_comma xs)"
  by (induction xs rule: join_comma.induct) auto

lemma stringify_no_newline: "no_newline (JSON_stringify v)"
proof (induction v)
  case (DObj kvs)
  then show ?case
    by (auto intro!: join_comma_no_newline simp: member_text_def string_text_no_newline)
qed (auto simp: num_text_no_newline string_text_no_newline intro!: join_comma_no_newline)

end
