(* ===== verification/Session_Wire.thy ===== *)
theory Session_Wire
  imports Session_State Json_Roundtrip "HOL-Library.Char_ord" "HOL-Library.List_Lexorder"
begin

text \<open>
  The JSON documents of session payloads. \<^verbatim>\<open>JSON.stringify\<close> writes an object field by field and
  leaves out the fields that are \<^verbatim>\<open>undefined\<close>; \<^verbatim>\<open>JSON.parse\<close> gives the fields back and the code
  uses the object at its TypeScript type without a check. For each payload type of
  \<^verbatim>\<open>session-v4/types.ts\<close>, \<^verbatim>\<open>packages/ai/src/types.ts\<close> and \<^verbatim>\<open>harness/messages.ts\<close> this theory has
  the document of a value (\<open>..._doc\<close>) and the value a document stands for (\<open>read_...\<close>), which is
  \<open>None\<close> when the document does not have the type. \<open>wire\<close> collects that reading undoes writing.

  An object of type \<open>json\<close> is a finite map, so its keys are written in the order of the model;
  the order does not matter to a reader.
\<close>

named_theorems wire \<open>reading a document gives back the value it was written from\<close>

section \<open>Fields\<close>

type_synonym fields = "(string \<times> jdoc) list"

text \<open>Of two fields with the same key \<^verbatim>\<open>JSON.parse\<close> keeps the later.\<close>

definition get_field :: "fields \<Rightarrow> string \<Rightarrow> jdoc option" where
  "get_field kvs k = map_of (rev kvs) k"

definition opt_member :: "string \<Rightarrow> ('a \<Rightarrow> jdoc) \<Rightarrow> 'a option \<Rightarrow> fields" where
  "opt_member k f x = (case x of None \<Rightarrow> [] | Some y \<Rightarrow> [(k, f y)])"

definition req_of :: "(jdoc \<Rightarrow> 'a option) \<Rightarrow> jdoc option \<Rightarrow> 'a option" where
  "req_of read d = (case d of None \<Rightarrow> None | Some v \<Rightarrow> read v)"

definition opt_of :: "(jdoc \<Rightarrow> 'a option) \<Rightarrow> jdoc option \<Rightarrow> 'a option option" where
  "opt_of read d = (case d of None \<Rightarrow> Some None | Some v \<Rightarrow> map_option Some (read v))"

fun fields_of :: "jdoc \<Rightarrow> fields option" where
  "fields_of (DObj kvs) = Some kvs"
| "fields_of _ = None"

definition or_else :: "'a option \<Rightarrow> 'a option \<Rightarrow> 'a option" where
  "or_else x y = (case x of None \<Rightarrow> y | Some v \<Rightarrow> Some v)"

lemma or_else_simps [simp]: "or_else None y = y" "or_else (Some v) y = Some v" "or_else x None = x"
  by (simp_all add: or_else_def split: option.split)

lemma get_field_simps [simp]:
  "get_field [] k = None"
  "get_field ((k', v) # kvs) k = or_else (get_field kvs k) (if k' = k then Some v else None)"
  "get_field (xs @ ys) k = or_else (get_field ys k) (get_field xs k)"
  "get_field (opt_member k' f x) k = (if k' = k then map_option f x else None)"
  by (auto simp: get_field_def opt_member_def map_add_def or_else_def split: option.split)

lemma req_of_Some [simp]: "req_of read (Some v) = read v"
  by (simp add: req_of_def)

lemma opt_of_written [simp]: "(\<And>y. x = Some y \<Longrightarrow> read (f y) = Some y) \<Longrightarrow> opt_of read (map_option f x) = Some x"
  by (cases x) (auto simp: opt_of_def)

lemma opt_of_none [simp]: "opt_of read None = Some None"
  by (simp add: opt_of_def)

section \<open>Scalars, lists and JSON values\<close>

fun read_string :: "jdoc \<Rightarrow> string option" where
  "read_string (DStr s) = Some s"
| "read_string _ = None"

fun read_bool :: "jdoc \<Rightarrow> bool option" where
  "read_bool (DBool b) = Some b"
| "read_bool _ = None"

fun read_number :: "jdoc \<Rightarrow> js_double option" where
  "read_number (DNum d) = Some d"
| "read_number _ = None"

definition int_of_double :: "js_double \<Rightarrow> int option" where
  "int_of_double d = (if 0 \<le> exponent d then Some (mantissa d * 10 ^ nat (exponent d)) else None)"

definition int_doc :: "int \<Rightarrow> jdoc" where
  "int_doc i = DNum (Dec i 0)"

definition read_int :: "jdoc \<Rightarrow> int option" where
  "read_int d = Option.bind (read_number d) int_of_double"

definition nullable_doc :: "('a \<Rightarrow> jdoc) \<Rightarrow> 'a option \<Rightarrow> jdoc" where
  "nullable_doc f x = (case x of None \<Rightarrow> DNull | Some y \<Rightarrow> f y)"

definition read_nullable :: "(jdoc \<Rightarrow> 'a option) \<Rightarrow> jdoc \<Rightarrow> 'a option option" where
  "read_nullable read d = (if d = DNull then Some None else map_option Some (read d))"

definition list_doc :: "('a \<Rightarrow> jdoc) \<Rightarrow> 'a list \<Rightarrow> jdoc" where
  "list_doc f xs = DArr (map f xs)"

fun read_list :: "(jdoc \<Rightarrow> 'a option) \<Rightarrow> jdoc \<Rightarrow> 'a list option" where
  "read_list read (DArr xs) = those (map read xs)"
| "read_list read _ = None"

text \<open>A flag that is present only when it is true.\<close>

definition flag_member :: "string \<Rightarrow> bool \<Rightarrow> fields" where
  "flag_member k b = (if b then [(k, DBool True)] else [])"

definition flag_of :: "jdoc option \<Rightarrow> bool option" where
  "flag_of d = (case d of None \<Rightarrow> Some False | Some v \<Rightarrow> read_bool v)"

primrec json_doc :: "json \<Rightarrow> jdoc" where
  "json_doc JNull = DNull"
| "json_doc (JBool b) = DBool b"
| "json_doc (JNum d) = DNum d"
| "json_doc (JStr s) = DStr s"
| "json_doc (JArr xs) = DArr (map json_doc xs)"
| "json_doc (JObj m) = DObj (sorted_list_of_fmap (fmmap json_doc m))"

primrec json_of :: "jdoc \<Rightarrow> json" where
  "json_of DNull = JNull"
| "json_of (DBool b) = JBool b"
| "json_of (DNum d) = JNum d"
| "json_of (DStr s) = JStr s"
| "json_of (DArr xs) = JArr (map json_of xs)"
| "json_of (DObj kvs) = JObj (fmap_of_list (rev (map (map_prod id json_of) kvs)))"

definition read_json :: "jdoc \<Rightarrow> json option" where
  "read_json d = Some (json_of d)"

lemma canonical_dec_value:
  "0 \<le> e \<Longrightarrow> 0 \<le> snd (canonical_dec m e) \<and> fst (canonical_dec m e) * 10 ^ nat (snd (canonical_dec m e)) = m * 10 ^ nat e"
proof (induction m e rule: canonical_dec.induct)
  case (1 m e)
  show ?case
  proof (cases "m \<noteq> 0 \<and> m mod 10 = 0")
    case True
    then have "m * 10 ^ nat e = m div 10 * 10 ^ nat (e + 1)"
      using "1.prems" by (auto simp: nat_add_distrib elim!: dvdE simp: mod_eq_0_iff_dvd)
    then show ?thesis using 1 True by (subst (1 2 3) canonical_dec.simps) auto
  next
    case False
    then show ?thesis using "1.prems" by (subst (1 2 3) canonical_dec.simps) auto
  qed
qed

lemma read_int_doc [wire]: "read_int (int_doc i) = Some i"
proof -
  have "int_of_double (Dec i 0) = Some i"
    unfolding int_of_double_def by (transfer fixing: i) (use canonical_dec_value [of 0 i] in simp)
  then show ?thesis by (simp add: read_int_def int_doc_def)
qed

lemma read_scalar [wire]: "read_string (DStr s) = Some s" "read_bool (DBool b) = Some b" "read_number (DNum d) = Some d"
  by simp_all

lemma read_nullable_doc [wire]:
  "(\<And>y. x = Some y \<Longrightarrow> read (f y) = Some y \<and> f y \<noteq> DNull) \<Longrightarrow> read_nullable read (nullable_doc f x) = Some x"
  by (cases x) (auto simp: read_nullable_def nullable_doc_def)

lemma those_map_Some: "(\<And>x. x \<in> set xs \<Longrightarrow> f x = Some (g x)) \<Longrightarrow> those (map f xs) = Some (map g xs)"
  by (induction xs) auto

lemma read_list_doc [wire]: "(\<And>x. x \<in> set xs \<Longrightarrow> read (f x) = Some x) \<Longrightarrow> read_list read (list_doc f xs) = Some xs"
  using those_map_Some [of xs "read \<circ> f" id] by (simp add: list_doc_def)

lemma flag_simps [simp]:
  "get_field (flag_member k' b) k = (if k' = k \<and> b then Some (DBool True) else None)"
  "flag_of None = Some False" "flag_of (Some (DBool b)) = Some b"
  by (auto simp: flag_member_def flag_of_def)

lemma flag_of_member [simp]: "flag_of (if b then Some (DBool True) else None) = Some b"
  by simp

lemma map_of_rev_distinct: "distinct (map fst xs) \<Longrightarrow> map_of (rev xs) k = map_of xs k"
  by (induction xs) (auto simp: map_add_def rev_image_eqI map_of_eq_None_iff [THEN iffD2] split: option.split)

lemma map_of_map_values: "map_of (map (map_prod id f) xs) k = map_option f (map_of xs k)"
  by (induction xs) auto

lemma sorted_list_of_fmap_keys: "distinct (map fst (sorted_list_of_fmap m))"
  by (simp add: sorted_list_of_fmap_def comp_def sorted_list_of_fset.rep_eq)

lemma json_of_doc: "json_of (json_doc j) = j"
proof (induction j)
  case (JObj m)
  have "fmap_of_list (rev (map (map_prod id json_of) (sorted_list_of_fmap (fmmap json_doc m)))) = m"
  proof (rule fmap_ext)
    fix k
    have "distinct (map fst (map (map_prod id json_of) (sorted_list_of_fmap (fmmap json_doc m))))"
      using sorted_list_of_fmap_keys [of "fmmap json_doc m"] by simp
    then have "fmlookup (fmap_of_list (rev (map (map_prod id json_of) (sorted_list_of_fmap (fmmap json_doc m))))) k =
        map_option json_of (map_option json_doc (fmlookup m k))"
      by (simp add: fmlookup_of_list map_of_rev_distinct map_of_map_values)
    also have "\<dots> = fmlookup m k"
      using JObj.IH by (cases "fmlookup m k") (auto dest: fmran'I)
    finally show "fmlookup (fmap_of_list (rev (map (map_prod id json_of) (sorted_list_of_fmap (fmmap json_doc m))))) k = fmlookup m k" .
  qed
  then show ?case by simp
qed (auto simp: map_idI)

lemma read_json_doc [wire]: "read_json (json_doc j) = Some j"
  by (simp add: read_json_def json_of_doc)

text \<open>Literal types: each constant has its text.\<close>

definition read_literal :: "(string \<times> 'a) list \<Rightarrow> jdoc \<Rightarrow> 'a option" where
  "read_literal table d = (case d of DStr s \<Rightarrow> map_of table s | _ \<Rightarrow> None)"

section \<open>Messages\<close>

fun stop_reason_text :: "stop_reason \<Rightarrow> string" where
  "stop_reason_text PendingStop = ''pending''"
| "stop_reason_text Stop = ''stop''"
| "stop_reason_text LengthStop = ''length''"
| "stop_reason_text ToolUseStop = ''toolUse''"
| "stop_reason_text ErrorStop = ''error''"
| "stop_reason_text AbortedStop = ''aborted''"
| "stop_reason_text DeferredStop = ''deferred''"

definition read_stop_reason :: "jdoc \<Rightarrow> stop_reason option" where
  "read_stop_reason = read_literal (map (\<lambda>r. (stop_reason_text r, r))
     [PendingStop, Stop, LengthStop, ToolUseStop, ErrorStop, AbortedStop, DeferredStop])"

definition cost_doc :: "cost \<Rightarrow> jdoc" where
  "cost_doc c = DObj [(''input'', DNum (c_input c)), (''output'', DNum (c_output c)), (''cacheRead'', DNum (c_cacheRead c)),
     (''cacheWrite'', DNum (c_cacheWrite c)), (''total'', DNum (c_total c))]"

definition read_cost :: "jdoc \<Rightarrow> cost option" where
  "read_cost d = do {
     kvs \<leftarrow> fields_of d;
     i \<leftarrow> req_of read_number (get_field kvs ''input'');
     out \<leftarrow> req_of read_number (get_field kvs ''output'');
     cr \<leftarrow> req_of read_number (get_field kvs ''cacheRead'');
     cw \<leftarrow> req_of read_number (get_field kvs ''cacheWrite'');
     total \<leftarrow> req_of read_number (get_field kvs ''total'');
     Some \<lparr>c_input = i, c_output = out, c_cacheRead = cr, c_cacheWrite = cw, c_total = total\<rparr> }"

definition usage_doc :: "usage \<Rightarrow> jdoc" where
  "usage_doc u = DObj ([(''input'', int_doc (u_input u)), (''output'', int_doc (u_output u)),
       (''cacheRead'', int_doc (u_cacheRead u)), (''cacheWrite'', int_doc (u_cacheWrite u))]
     @ opt_member ''cacheWrite1h'' int_doc (u_cacheWrite1h u) @ opt_member ''reasoning'' int_doc (u_reasoning u)
     @ [(''totalTokens'', int_doc (u_totalTokens u)), (''cost'', cost_doc (u_cost u))])"

definition read_usage :: "jdoc \<Rightarrow> usage option" where
  "read_usage d = do {
     kvs \<leftarrow> fields_of d;
     i \<leftarrow> req_of read_int (get_field kvs ''input'');
     out \<leftarrow> req_of read_int (get_field kvs ''output'');
     cr \<leftarrow> req_of read_int (get_field kvs ''cacheRead'');
     cw \<leftarrow> req_of read_int (get_field kvs ''cacheWrite'');
     cw1h \<leftarrow> opt_of read_int (get_field kvs ''cacheWrite1h'');
     reasoning \<leftarrow> opt_of read_int (get_field kvs ''reasoning'');
     total \<leftarrow> req_of read_int (get_field kvs ''totalTokens'');
     cost \<leftarrow> req_of read_cost (get_field kvs ''cost'');
     Some \<lparr>u_input = i, u_output = out, u_cacheRead = cr, u_cacheWrite = cw, u_cacheWrite1h = cw1h,
       u_reasoning = reasoning, u_totalTokens = total, u_cost = cost\<rparr> }"

fun content_block_doc :: "content_block \<Rightarrow> jdoc" where
  "content_block_doc (TextContent t sig) =
     DObj ([(''type'', DStr ''text''), (''text'', DStr t)] @ opt_member ''textSignature'' DStr sig)"
| "content_block_doc (ImageContent data mime) =
     DObj [(''type'', DStr ''image''), (''data'', DStr data), (''mimeType'', DStr mime)]"

definition read_content_block :: "jdoc \<Rightarrow> content_block option" where
  "read_content_block d = do {
     kvs \<leftarrow> fields_of d;
     t \<leftarrow> req_of read_string (get_field kvs ''type'');
     if t = ''text'' then do {
       s \<leftarrow> req_of read_string (get_field kvs ''text'');
       sig \<leftarrow> opt_of read_string (get_field kvs ''textSignature'');
       Some (TextContent s sig) }
     else if t = ''image'' then do {
       s \<leftarrow> req_of read_string (get_field kvs ''data'');
       mime \<leftarrow> req_of read_string (get_field kvs ''mimeType'');
       Some (ImageContent s mime) }
     else None }"

definition tool_call_fields :: "tool_call \<Rightarrow> fields" where
  "tool_call_fields c =
     [(''type'', DStr ''toolCall''), (''id'', DStr (tc_id c)), (''name'', DStr (tc_name c)), (''arguments'', json_doc (tc_arguments c))]
     @ opt_member ''thoughtSignature'' DStr (tc_thoughtSignature c) @ opt_member ''namespace'' DStr (tc_namespace c)"

definition read_tool_call :: "fields \<Rightarrow> tool_call option" where
  "read_tool_call kvs = do {
     i \<leftarrow> req_of read_string (get_field kvs ''id'');
     n \<leftarrow> req_of read_string (get_field kvs ''name'');
     args \<leftarrow> req_of read_json (get_field kvs ''arguments'');
     sig \<leftarrow> opt_of read_string (get_field kvs ''thoughtSignature'');
     ns \<leftarrow> opt_of read_string (get_field kvs ''namespace'');
     Some \<lparr>tc_id = i, tc_name = n, tc_arguments = args, tc_thoughtSignature = sig, tc_namespace = ns\<rparr> }"

fun assistant_block_doc :: "assistant_block \<Rightarrow> jdoc" where
  "assistant_block_doc (AssistantText t sig) =
     DObj ([(''type'', DStr ''text''), (''text'', DStr t)] @ opt_member ''textSignature'' DStr sig)"
| "assistant_block_doc (ThinkingContent t sig redacted) =
     DObj ([(''type'', DStr ''thinking''), (''thinking'', DStr t)] @ opt_member ''thinkingSignature'' DStr sig
       @ opt_member ''redacted'' DBool redacted)"
| "assistant_block_doc (ToolCallContent c) = DObj (tool_call_fields c)"

definition read_assistant_block :: "jdoc \<Rightarrow> assistant_block option" where
  "read_assistant_block d = do {
     kvs \<leftarrow> fields_of d;
     t \<leftarrow> req_of read_string (get_field kvs ''type'');
     if t = ''text'' then do {
       s \<leftarrow> req_of read_string (get_field kvs ''text'');
       sig \<leftarrow> opt_of read_string (get_field kvs ''textSignature'');
       Some (AssistantText s sig) }
     else if t = ''thinking'' then do {
       s \<leftarrow> req_of read_string (get_field kvs ''thinking'');
       sig \<leftarrow> opt_of read_string (get_field kvs ''thinkingSignature'');
       redacted \<leftarrow> opt_of read_bool (get_field kvs ''redacted'');
       Some (ThinkingContent s sig redacted) }
     else if t = ''toolCall'' then map_option ToolCallContent (read_tool_call kvs)
     else None }"

definition deferred_doc :: "deferred_handle \<Rightarrow> jdoc" where
  "deferred_doc h = DObj ([(''provider'', DStr (dh_provider h)), (''modelId'', DStr (dh_modelId h)),
       (''api'', DStr (dh_api h)), (''id'', DStr (dh_id h))]
     @ opt_member ''expiresAt'' int_doc (dh_expiresAt h) @ opt_member ''pollAfterMs'' int_doc (dh_pollAfterMs h)
     @ opt_member ''data'' json_doc (dh_data h))"

definition read_deferred :: "jdoc \<Rightarrow> deferred_handle option" where
  "read_deferred d = do {
     kvs \<leftarrow> fields_of d;
     p \<leftarrow> req_of read_string (get_field kvs ''provider'');
     m \<leftarrow> req_of read_string (get_field kvs ''modelId'');
     a \<leftarrow> req_of read_string (get_field kvs ''api'');
     i \<leftarrow> req_of read_string (get_field kvs ''id'');
     e \<leftarrow> opt_of read_int (get_field kvs ''expiresAt'');
     poll \<leftarrow> opt_of read_int (get_field kvs ''pollAfterMs'');
     data \<leftarrow> opt_of read_json (get_field kvs ''data'');
     Some \<lparr>dh_provider = p, dh_modelId = m, dh_api = a, dh_id = i, dh_expiresAt = e, dh_pollAfterMs = poll, dh_data = data\<rparr> }"

fun message_content_doc :: "message_content \<Rightarrow> jdoc" where
  "message_content_doc (PlainContent s) = DStr s"
| "message_content_doc (BlockContent bs) = list_doc content_block_doc bs"

fun read_message_content :: "jdoc \<Rightarrow> message_content option" where
  "read_message_content (DStr s) = Some (PlainContent s)"
| "read_message_content d = map_option BlockContent (read_list read_content_block d)"

definition assistant_fields :: "assistant_message \<Rightarrow> fields" where
  "assistant_fields m =
     [(''role'', DStr ''assistant''), (''content'', list_doc assistant_block_doc (am_content m)), (''api'', DStr (am_api m)),
      (''provider'', DStr (am_provider m)), (''model'', DStr (am_model m))]
     @ opt_member ''responseModel'' DStr (am_responseModel m) @ opt_member ''responseId'' DStr (am_responseId m)
     @ opt_member ''diagnostics'' json_doc (am_diagnostics m)
     @ [(''usage'', usage_doc (am_usage m)), (''stopReason'', DStr (stop_reason_text (am_stopReason m)))]
     @ opt_member ''deferred'' deferred_doc (am_deferred m) @ opt_member ''errorMessage'' DStr (am_errorMessage m)
     @ opt_member ''rawStopReason'' DStr (am_rawStopReason m) @ opt_member ''endTurn'' DBool (am_endTurn m)
     @ [(''timestamp'', int_doc (am_timestamp m))]"

definition read_assistant :: "fields \<Rightarrow> assistant_message option" where
  "read_assistant kvs = do {
     content \<leftarrow> req_of (read_list read_assistant_block) (get_field kvs ''content'');
     api \<leftarrow> req_of read_string (get_field kvs ''api'');
     provider \<leftarrow> req_of read_string (get_field kvs ''provider'');
     model \<leftarrow> req_of read_string (get_field kvs ''model'');
     responseModel \<leftarrow> opt_of read_string (get_field kvs ''responseModel'');
     responseId \<leftarrow> opt_of read_string (get_field kvs ''responseId'');
     diagnostics \<leftarrow> opt_of read_json (get_field kvs ''diagnostics'');
     usage \<leftarrow> req_of read_usage (get_field kvs ''usage'');
     stopReason \<leftarrow> req_of read_stop_reason (get_field kvs ''stopReason'');
     deferred \<leftarrow> opt_of read_deferred (get_field kvs ''deferred'');
     errorMessage \<leftarrow> opt_of read_string (get_field kvs ''errorMessage'');
     rawStopReason \<leftarrow> opt_of read_string (get_field kvs ''rawStopReason'');
     endTurn \<leftarrow> opt_of read_bool (get_field kvs ''endTurn'');
     timestamp \<leftarrow> req_of read_int (get_field kvs ''timestamp'');
     Some \<lparr>am_content = content, am_api = api, am_provider = provider, am_model = model, am_responseModel = responseModel,
       am_responseId = responseId, am_diagnostics = diagnostics, am_usage = usage, am_stopReason = stopReason,
       am_deferred = deferred, am_errorMessage = errorMessage, am_rawStopReason = rawStopReason, am_endTurn = endTurn,
       am_timestamp = timestamp\<rparr> }"

definition tool_result_fields :: "tool_result_message \<Rightarrow> fields" where
  "tool_result_fields m =
     [(''role'', DStr ''toolResult''), (''toolCallId'', DStr (tr_toolCallId m)), (''toolName'', DStr (tr_toolName m)),
      (''content'', list_doc content_block_doc (tr_content m))]
     @ opt_member ''details'' json_doc (tr_details m) @ opt_member ''usage'' usage_doc (tr_usage m)
     @ opt_member ''addedToolNames'' (list_doc DStr) (tr_addedToolNames m)
     @ [(''isError'', DBool (tr_isError m)), (''timestamp'', int_doc (tr_timestamp m))]"

definition read_tool_result :: "fields \<Rightarrow> tool_result_message option" where
  "read_tool_result kvs = do {
     i \<leftarrow> req_of read_string (get_field kvs ''toolCallId'');
     n \<leftarrow> req_of read_string (get_field kvs ''toolName'');
     content \<leftarrow> req_of (read_list read_content_block) (get_field kvs ''content'');
     details \<leftarrow> opt_of read_json (get_field kvs ''details'');
     usage \<leftarrow> opt_of read_usage (get_field kvs ''usage'');
     added \<leftarrow> opt_of (read_list read_string) (get_field kvs ''addedToolNames'');
     isError \<leftarrow> req_of read_bool (get_field kvs ''isError'');
     timestamp \<leftarrow> req_of read_int (get_field kvs ''timestamp'');
     Some \<lparr>tr_toolCallId = i, tr_toolName = n, tr_content = content, tr_details = details, tr_usage = usage,
       tr_addedToolNames = added, tr_isError = isError, tr_timestamp = timestamp\<rparr> }"

definition bash_fields :: "bash_execution_message \<Rightarrow> fields" where
  "bash_fields m =
     [(''role'', DStr ''bashExecution''), (''command'', DStr (be_command m)), (''output'', DStr (be_output m))]
     @ opt_member ''exitCode'' int_doc (be_exitCode m)
     @ [(''cancelled'', DBool (be_cancelled m)), (''truncated'', DBool (be_truncated m))]
     @ opt_member ''fullOutputPath'' DStr (be_fullOutputPath m) @ [(''timestamp'', int_doc (be_timestamp m))]
     @ flag_member ''excludeFromContext'' (be_excludeFromContext m)"

definition read_bash :: "fields \<Rightarrow> bash_execution_message option" where
  "read_bash kvs = do {
     command \<leftarrow> req_of read_string (get_field kvs ''command'');
     output \<leftarrow> req_of read_string (get_field kvs ''output'');
     exitCode \<leftarrow> opt_of read_int (get_field kvs ''exitCode'');
     cancelled \<leftarrow> req_of read_bool (get_field kvs ''cancelled'');
     truncated \<leftarrow> req_of read_bool (get_field kvs ''truncated'');
     path \<leftarrow> opt_of read_string (get_field kvs ''fullOutputPath'');
     timestamp \<leftarrow> req_of read_int (get_field kvs ''timestamp'');
     exclude \<leftarrow> flag_of (get_field kvs ''excludeFromContext'');
     Some \<lparr>be_command = command, be_output = output, be_exitCode = exitCode, be_cancelled = cancelled,
       be_truncated = truncated, be_fullOutputPath = path, be_timestamp = timestamp, be_excludeFromContext = exclude\<rparr> }"

definition custom_fields :: "custom_message \<Rightarrow> fields" where
  "custom_fields m =
     [(''role'', DStr ''custom''), (''customType'', DStr (cm_customType m)), (''content'', message_content_doc (cm_content m)),
      (''display'', DBool (cm_display m))]
     @ opt_member ''details'' json_doc (cm_details m) @ [(''timestamp'', int_doc (cm_timestamp m))]"

definition read_custom :: "fields \<Rightarrow> custom_message option" where
  "read_custom kvs = do {
     t \<leftarrow> req_of read_string (get_field kvs ''customType'');
     content \<leftarrow> req_of read_message_content (get_field kvs ''content'');
     display \<leftarrow> req_of read_bool (get_field kvs ''display'');
     details \<leftarrow> opt_of read_json (get_field kvs ''details'');
     timestamp \<leftarrow> req_of read_int (get_field kvs ''timestamp'');
     Some \<lparr>cm_customType = t, cm_content = content, cm_display = display, cm_details = details, cm_timestamp = timestamp\<rparr> }"

fun message_doc :: "agent_message \<Rightarrow> jdoc" where
  "message_doc (UserMessage content timestamp) =
     DObj [(''role'', DStr ''user''), (''content'', message_content_doc content), (''timestamp'', int_doc timestamp)]"
| "message_doc (AssistantMessage m) = DObj (assistant_fields m)"
| "message_doc (ToolResultMessage m) = DObj (tool_result_fields m)"
| "message_doc (BashExecutionMessage m) = DObj (bash_fields m)"
| "message_doc (CustomMessage m) = DObj (custom_fields m)"
| "message_doc (BranchSummaryMessage summary fromId timestamp) =
     DObj [(''role'', DStr ''branchSummary''), (''summary'', DStr summary), (''fromId'', DStr fromId),
       (''timestamp'', int_doc timestamp)]"
| "message_doc (CompactionSummaryMessage summary tokens timestamp) =
     DObj [(''role'', DStr ''compactionSummary''), (''summary'', DStr summary), (''tokensBefore'', int_doc tokens),
       (''timestamp'', int_doc timestamp)]"

definition read_summary :: "fields \<Rightarrow> (string \<times> int) option" where
  "read_summary kvs = do {
     summary \<leftarrow> req_of read_string (get_field kvs ''summary'');
     timestamp \<leftarrow> req_of read_int (get_field kvs ''timestamp'');
     Some (summary, timestamp) }"

definition read_message :: "jdoc \<Rightarrow> agent_message option" where
  "read_message d = do {
     kvs \<leftarrow> fields_of d;
     role \<leftarrow> req_of read_string (get_field kvs ''role'');
     if role = ''user'' then do {
       content \<leftarrow> req_of read_message_content (get_field kvs ''content'');
       timestamp \<leftarrow> req_of read_int (get_field kvs ''timestamp'');
       Some (UserMessage content timestamp) }
     else if role = ''assistant'' then map_option AssistantMessage (read_assistant kvs)
     else if role = ''toolResult'' then map_option ToolResultMessage (read_tool_result kvs)
     else if role = ''bashExecution'' then map_option BashExecutionMessage (read_bash kvs)
     else if role = ''custom'' then map_option CustomMessage (read_custom kvs)
     else if role = ''branchSummary'' then do {
       (summary, timestamp) \<leftarrow> read_summary kvs;
       fromId \<leftarrow> req_of read_string (get_field kvs ''fromId'');
       Some (BranchSummaryMessage summary fromId timestamp) }
     else if role = ''compactionSummary'' then do {
       (summary, timestamp) \<leftarrow> read_summary kvs;
       tokens \<leftarrow> req_of read_int (get_field kvs ''tokensBefore'');
       Some (CompactionSummaryMessage summary tokens timestamp) }
     else None }"

lemma read_stop_reason_text [wire]: "read_stop_reason (DStr (stop_reason_text r)) = Some r"
  by (cases r) (simp_all add: read_stop_reason_def read_literal_def)

lemma read_cost_doc [wire]: "read_cost (cost_doc c) = Some c"
  by (simp add: read_cost_def cost_doc_def wire)

lemma read_usage_doc [wire]: "read_usage (usage_doc u) = Some u"
  by (simp add: read_usage_def usage_doc_def wire)

lemma read_content_block_doc [wire]: "read_content_block (content_block_doc b) = Some b"
  by (cases b) (simp_all add: read_content_block_def wire)

lemma read_tool_call_fields [wire]: "read_tool_call (tool_call_fields c) = Some c"
  by (simp add: read_tool_call_def tool_call_fields_def wire)

lemma tool_call_type: "get_field (tool_call_fields c) ''type'' = Some (DStr ''toolCall'')"
  by (simp add: tool_call_fields_def)

lemma read_assistant_block_doc [wire]: "read_assistant_block (assistant_block_doc b) = Some b"
  by (cases b) (simp_all add: read_assistant_block_def tool_call_type wire)

lemma read_deferred_doc [wire]: "read_deferred (deferred_doc h) = Some h"
  by (simp add: read_deferred_def deferred_doc_def wire)

lemma read_message_content_doc [wire]: "read_message_content (message_content_doc c) = Some c"
  using read_list_doc [of _ read_content_block content_block_doc]
  by (cases c) (simp_all add: wire list_doc_def)

lemma read_assistant_fields [wire]: "read_assistant (assistant_fields m) = Some m"
  by (simp add: read_assistant_def assistant_fields_def wire)

lemma read_tool_result_fields [wire]: "read_tool_result (tool_result_fields m) = Some m"
  by (simp add: read_tool_result_def tool_result_fields_def wire)

lemma read_bash_fields [wire]: "read_bash (bash_fields m) = Some m"
  by (simp add: read_bash_def bash_fields_def wire)

lemma read_custom_fields [wire]: "read_custom (custom_fields m) = Some m"
  by (simp add: read_custom_def custom_fields_def wire)

lemma message_roles:
  "get_field (assistant_fields m1) ''role'' = Some (DStr ''assistant'')"
  "get_field (tool_result_fields m2) ''role'' = Some (DStr ''toolResult'')"
  "get_field (bash_fields m3) ''role'' = Some (DStr ''bashExecution'')"
  "get_field (custom_fields m4) ''role'' = Some (DStr ''custom'')"
  by (simp_all add: assistant_fields_def tool_result_fields_def bash_fields_def custom_fields_def)

lemma read_message_doc [wire]: "read_message (message_doc m) = Some m"
  by (cases m) (simp_all add: read_message_def read_summary_def message_roles wire)

section \<open>Entries\<close>

fun entry_type_text :: "entry_type \<Rightarrow> string" where
  "entry_type_text MessageT = ''message''"
| "entry_type_text ModelChangeT = ''model_change''"
| "entry_type_text ThinkingLevelChangeT = ''thinking_level_change''"
| "entry_type_text ActiveToolsChangeT = ''active_tools_change''"
| "entry_type_text CompactionT = ''compaction''"
| "entry_type_text BranchSummaryT = ''branch_summary''"
| "entry_type_text CustomT = ''custom''"

definition ENTRY_TYPES :: "(string \<times> entry_type) list" where
  "ENTRY_TYPES = map (\<lambda>t. (entry_type_text t, t))
     [MessageT, ModelChangeT, ThinkingLevelChangeT, ActiveToolsChangeT, CompactionT, BranchSummaryT, CustomT]"

text \<open>The fields of an entry other than the ones all entries share.\<close>

fun body_fields :: "entry_body \<Rightarrow> fields" where
  "body_fields (MessageEntry m terminate) = [(''message'', message_doc m)] @ flag_member ''terminate'' terminate"
| "body_fields (ModelChangeEntry provider model) = [(''provider'', DStr provider), (''modelId'', DStr model)]"
| "body_fields (ThinkingLevelEntry level) = [(''thinkingLevel'', DStr level)]"
| "body_fields (ActiveToolsEntry names) = [(''activeToolNames'', list_doc DStr names)]"
| "body_fields (CompactionEntry summary tail tokens details usage) =
     [(''summary'', DStr summary), (''retainedTail'', list_doc message_doc tail), (''tokensBefore'', int_doc tokens)]
     @ opt_member ''details'' json_doc details @ opt_member ''usage'' usage_doc usage"
| "body_fields (BranchSummaryEntry fromId summary details usage) =
     [(''fromId'', DStr fromId), (''summary'', DStr summary)]
     @ opt_member ''details'' json_doc details @ opt_member ''usage'' usage_doc usage"
| "body_fields (CustomEntry customType data) =
     [(''customType'', DStr customType)] @ opt_member ''data'' json_doc data"

fun read_body :: "entry_type \<Rightarrow> fields \<Rightarrow> entry_body option" where
  "read_body MessageT kvs = do {
     m \<leftarrow> req_of read_message (get_field kvs ''message'');
     terminate \<leftarrow> flag_of (get_field kvs ''terminate'');
     Some (MessageEntry m terminate) }"
| "read_body ModelChangeT kvs = do {
     provider \<leftarrow> req_of read_string (get_field kvs ''provider'');
     model \<leftarrow> req_of read_string (get_field kvs ''modelId'');
     Some (ModelChangeEntry provider model) }"
| "read_body ThinkingLevelChangeT kvs = map_option ThinkingLevelEntry (req_of read_string (get_field kvs ''thinkingLevel''))"
| "read_body ActiveToolsChangeT kvs =
     map_option ActiveToolsEntry (req_of (read_list read_string) (get_field kvs ''activeToolNames''))"
| "read_body CompactionT kvs = do {
     summary \<leftarrow> req_of read_string (get_field kvs ''summary'');
     tail \<leftarrow> req_of (read_list read_message) (get_field kvs ''retainedTail'');
     tokens \<leftarrow> req_of read_int (get_field kvs ''tokensBefore'');
     details \<leftarrow> opt_of read_json (get_field kvs ''details'');
     usage \<leftarrow> opt_of read_usage (get_field kvs ''usage'');
     Some (CompactionEntry summary tail tokens details usage) }"
| "read_body BranchSummaryT kvs = do {
     fromId \<leftarrow> req_of read_string (get_field kvs ''fromId'');
     summary \<leftarrow> req_of read_string (get_field kvs ''summary'');
     details \<leftarrow> opt_of read_json (get_field kvs ''details'');
     usage \<leftarrow> opt_of read_usage (get_field kvs ''usage'');
     Some (BranchSummaryEntry fromId summary details usage) }"
| "read_body CustomT kvs = do {
     customType \<leftarrow> req_of read_string (get_field kvs ''customType'');
     data \<leftarrow> opt_of read_json (get_field kvs ''data'');
     Some (CustomEntry customType data) }"

definition provisioned_doc :: "provisioned_entry \<Rightarrow> jdoc" where
  "provisioned_doc p = DObj ([(''type'', DStr (entry_type_text (body_type (p_body p)))), (''id'', DStr (p_id p))] @ body_fields (p_body p))"

definition read_provisioned :: "jdoc \<Rightarrow> provisioned_entry option" where
  "read_provisioned d = do {
     kvs \<leftarrow> fields_of d;
     t \<leftarrow> req_of (read_literal ENTRY_TYPES) (get_field kvs ''type'');
     i \<leftarrow> req_of read_string (get_field kvs ''id'');
     body \<leftarrow> read_body t kvs;
     Some \<lparr>p_id = i, p_body = body\<rparr> }"

text \<open>No payload field has the name of a field that all entries share.\<close>

definition payload_keys :: "string list" where
  "payload_keys = [''message'', ''terminate'', ''provider'', ''modelId'', ''thinkingLevel'', ''activeToolNames'', ''summary'',
     ''retainedTail'', ''tokensBefore'', ''details'', ''usage'', ''fromId'', ''customType'', ''data'']"

lemma body_fields_keys: "k \<notin> set payload_keys \<Longrightarrow> get_field (body_fields b) k = None"
  by (cases b) (auto simp: payload_keys_def)

lemma body_fields_base [simp]:
  "get_field (body_fields b) ''kind'' = None" "get_field (body_fields b) ''lane'' = None"
  "get_field (body_fields b) ''id'' = None" "get_field (body_fields b) ''type'' = None"
  "get_field (body_fields b) ''parentId'' = None" "get_field (body_fields b) ''seq'' = None"
  "get_field (body_fields b) ''timestamp'' = None"
  by (rule body_fields_keys; simp add: payload_keys_def)+

lemma read_entry_type [wire]: "read_literal ENTRY_TYPES (DStr (entry_type_text t)) = Some t"
  by (cases t) (simp_all add: ENTRY_TYPES_def read_literal_def)

text \<open>The payload is read from any object that has its fields, whatever else the object has.\<close>

lemma read_body_fields:
  "\<forall>k \<in> set payload_keys. get_field kvs k = get_field (body_fields b) k \<Longrightarrow> read_body (body_type b) kvs = Some b"
  by (cases b) (simp_all add: payload_keys_def wire)

lemma read_provisioned_doc [wire]: "read_provisioned (provisioned_doc p) = Some p"
proof -
  have "read_body (body_type (p_body p)) ((''type'', DStr (entry_type_text (body_type (p_body p)))) # (''id'', DStr (p_id p)) # body_fields (p_body p)) = Some (p_body p)"
    by (rule read_body_fields) (auto simp: payload_keys_def)
  then show ?thesis by (simp add: read_provisioned_def provisioned_doc_def wire)
qed

section \<open>Lane records\<close>

fun operation_kind_text :: "operation_kind \<Rightarrow> string" where
  "operation_kind_text RunKind = ''run''"
| "operation_kind_text CompactionKind = ''compaction''"
| "operation_kind_text NavigationKind = ''navigation''"

definition OPERATION_KINDS :: "(string \<times> operation_kind) list" where
  "OPERATION_KINDS = map (\<lambda>k. (operation_kind_text k, k)) [RunKind, CompactionKind, NavigationKind]"

fun intent_doc :: "intent \<Rightarrow> jdoc" where
  "intent_doc (RunIntent prompt initial override resume) =
     DObj ([(''kind'', DStr ''run''), (''originalPrompt'', list_doc message_doc prompt),
         (''initialMessages'', list_doc provisioned_doc initial)]
       @ opt_member ''systemPromptOverride'' DStr override @ opt_member ''resumeData'' json_doc resume)"
| "intent_doc (CompactionIntent instructions result) =
     DObj ([(''kind'', DStr ''compaction'')] @ opt_member ''customInstructions'' DStr instructions
       @ [(''resultEntryId'', DStr result)])"
| "intent_doc (NavigationIntent target summarize instructions label summaryId) =
     DObj ([(''kind'', DStr ''navigation''), (''targetId'', nullable_doc DStr target), (''summarize'', DBool summarize)]
       @ opt_member ''customInstructions'' DStr instructions @ opt_member ''label'' DStr label
       @ opt_member ''summaryEntryId'' DStr summaryId)"

fun read_intent_of :: "operation_kind \<Rightarrow> fields \<Rightarrow> intent option" where
  "read_intent_of RunKind kvs = do {
     prompt \<leftarrow> req_of (read_list read_message) (get_field kvs ''originalPrompt'');
     initial \<leftarrow> req_of (read_list read_provisioned) (get_field kvs ''initialMessages'');
     override \<leftarrow> opt_of read_string (get_field kvs ''systemPromptOverride'');
     resume \<leftarrow> opt_of read_json (get_field kvs ''resumeData'');
     Some (RunIntent prompt initial override resume) }"
| "read_intent_of CompactionKind kvs = do {
     instructions \<leftarrow> opt_of read_string (get_field kvs ''customInstructions'');
     result \<leftarrow> req_of read_string (get_field kvs ''resultEntryId'');
     Some (CompactionIntent instructions result) }"
| "read_intent_of NavigationKind kvs = do {
     target \<leftarrow> req_of (read_nullable read_string) (get_field kvs ''targetId'');
     summarize \<leftarrow> req_of read_bool (get_field kvs ''summarize'');
     instructions \<leftarrow> opt_of read_string (get_field kvs ''customInstructions'');
     label \<leftarrow> opt_of read_string (get_field kvs ''label'');
     summaryId \<leftarrow> opt_of read_string (get_field kvs ''summaryEntryId'');
     Some (NavigationIntent target summarize instructions label summaryId) }"

definition read_intent :: "jdoc \<Rightarrow> intent option" where
  "read_intent d = do {
     kvs \<leftarrow> fields_of d;
     k \<leftarrow> req_of (read_literal OPERATION_KINDS) (get_field kvs ''kind'');
     read_intent_of k kvs }"

fun outcome_text :: "outcome \<Rightarrow> string" where
  "outcome_text CompletedOutcome = ''completed''"
| "outcome_text AbortedOutcome = ''aborted''"
| "outcome_text FailedOutcome = ''failed''"
| "outcome_text DeclinedOutcome = ''declined''"

definition read_outcome :: "jdoc \<Rightarrow> outcome option" where
  "read_outcome = read_literal (map (\<lambda>x. (outcome_text x, x)) [CompletedOutcome, AbortedOutcome, FailedOutcome, DeclinedOutcome])"

definition error_doc :: "string \<times> string \<Rightarrow> jdoc" where
  "error_doc e = DObj [(''code'', DStr (fst e)), (''message'', DStr (snd e))]"

definition read_error :: "jdoc \<Rightarrow> (string \<times> string) option" where
  "read_error d = do {
     kvs \<leftarrow> fields_of d;
     code \<leftarrow> req_of read_string (get_field kvs ''code'');
     message \<leftarrow> req_of read_string (get_field kvs ''message'');
     Some (code, message) }"

fun step_text :: "step_kind \<Rightarrow> string" where
  "step_text AssistantStep = ''assistant''"
| "step_text CompactionStep = ''compaction''"
| "step_text BranchSummaryStep = ''branch_summary''"

definition read_step :: "jdoc \<Rightarrow> step_kind option" where
  "read_step = read_literal (map (\<lambda>x. (step_text x, x)) [AssistantStep, CompactionStep, BranchSummaryStep])"

fun reason_doc :: "reason_value \<Rightarrow> jdoc" where
  "reason_doc ManualReason = DStr ''manual''"
| "reason_doc ThresholdReason = DStr ''threshold''"
| "reason_doc OverflowReason = DStr ''overflow''"
| "reason_doc (OtherReason j) = json_doc j"

definition read_reason :: "jdoc \<Rightarrow> reason_value option" where
  "read_reason d =
     (if d = DStr ''manual'' then Some ManualReason
      else if d = DStr ''threshold'' then Some ThresholdReason
      else if d = DStr ''overflow'' then Some OverflowReason
      else Some (OtherReason (json_of d)))"

text \<open>\<open>OtherReason\<close> stands for the values that are none of the three reasons.\<close>

fun reason_ok :: "reason_value \<Rightarrow> bool" where
  "reason_ok (OtherReason (JStr s)) \<longleftrightarrow> s \<notin> {''manual'', ''threshold'', ''overflow''}"
| "reason_ok _ \<longleftrightarrow> True"

fun replay_text :: "replay \<Rightarrow> string" where
  "replay_text ReplayNever = ''never''"
| "replay_text ReplaySafe = ''safe''"

definition read_replay :: "jdoc \<Rightarrow> replay option" where
  "read_replay = read_literal (map (\<lambda>x. (replay_text x, x)) [ReplayNever, ReplaySafe])"

fun queue_text :: "queue \<Rightarrow> string" where
  "queue_text SteerQueue = ''steer''"
| "queue_text FollowUpQueue = ''followUp''"
| "queue_text NextRunQueue = ''nextRun''"

definition read_queue :: "jdoc \<Rightarrow> queue option" where
  "read_queue = read_literal (map (\<lambda>x. (queue_text x, x)) [SteerQueue, FollowUpQueue, NextRunQueue])"

fun generation_cause_text :: "generation_cause \<Rightarrow> string" where
  "generation_cause_text AssistantCause = ''assistant''"
| "generation_cause_text CompactionCause = ''compaction''"
| "generation_cause_text BranchSummaryCause = ''branch_summary''"
| "generation_cause_text DeferredFetchCause = ''deferred_fetch''"

definition GENERATION_CAUSES :: "(string \<times> generation_cause) list" where
  "GENERATION_CAUSES = map (\<lambda>x. (generation_cause_text x, x))
     [AssistantCause, CompactionCause, BranchSummaryCause, DeferredFetchCause]"

fun usage_cause_fields :: "usage_cause \<Rightarrow> fields" where
  "usage_cause_fields (GenerationUsage c run i attempt stop) =
     [(''cause'', DStr (generation_cause_text c)), (''runId'', DStr run), (''entryId'', DStr i), (''attempt'', int_doc attempt),
      (''stopReason'', DStr (stop_reason_text stop))]"
| "usage_cause_fields (ToolUsage run i call) =
     [(''cause'', DStr ''tool''), (''runId'', DStr run), (''entryId'', DStr i), (''toolCallId'', DStr call)]"
| "usage_cause_fields (HookUsage run i) = [(''cause'', DStr ''hook''), (''runId'', DStr run), (''entryId'', DStr i)]"
| "usage_cause_fields (AdjustmentUsage run i details) =
     [(''cause'', DStr ''adjustment'')] @ opt_member ''runId'' DStr run @ opt_member ''entryId'' DStr i
     @ opt_member ''details'' json_doc details"

definition read_usage_cause :: "fields \<Rightarrow> usage_cause option" where
  "read_usage_cause kvs = do {
     c \<leftarrow> req_of read_string (get_field kvs ''cause'');
     if c = ''adjustment'' then do {
       run \<leftarrow> opt_of read_string (get_field kvs ''runId'');
       i \<leftarrow> opt_of read_string (get_field kvs ''entryId'');
       details \<leftarrow> opt_of read_json (get_field kvs ''details'');
       Some (AdjustmentUsage run i details) }
     else do {
       run \<leftarrow> req_of read_string (get_field kvs ''runId'');
       i \<leftarrow> req_of read_string (get_field kvs ''entryId'');
       if c = ''tool'' then map_option (ToolUsage run i) (req_of read_string (get_field kvs ''toolCallId''))
       else if c = ''hook'' then Some (HookUsage run i)
       else do {
         g \<leftarrow> map_of GENERATION_CAUSES c;
         attempt \<leftarrow> req_of read_int (get_field kvs ''attempt'');
         stop \<leftarrow> req_of read_stop_reason (get_field kvs ''stopReason'');
         Some (GenerationUsage g run i attempt stop) } } }"

fun record_type_text :: "record_type \<Rightarrow> string" where
  "record_type_text OperationStartedT = ''operation_started''"
| "record_type_text AbortRequestedT = ''abort_requested''"
| "record_type_text OperationFinishedT = ''operation_finished''"
| "record_type_text StepAttemptT = ''step_attempt''"
| "record_type_text ToolStartedT = ''tool_started''"
| "record_type_text QueueEnqueuedT = ''queue_enqueued''"
| "record_type_text QueueCancelledT = ''queue_cancelled''"
| "record_type_text WriteDeferredT = ''write_deferred''"
| "record_type_text UsageT = ''usage''"

definition RECORD_TYPES :: "(string \<times> record_type) list" where
  "RECORD_TYPES = map (\<lambda>t. (record_type_text t, t))
     [OperationStartedT, AbortRequestedT, OperationFinishedT, StepAttemptT, ToolStartedT, QueueEnqueuedT,
      QueueCancelledT, WriteDeferredT, UsageT]"

fun record_fields :: "record_body \<Rightarrow> fields" where
  "record_fields (OperationStarted leaf i) = [(''sourceLeafId'', nullable_doc DStr leaf), (''intent'', intent_doc i)]"
| "record_fields (AbortRequested run) = [(''runId'', DStr run)]"
| "record_fields (OperationFinished run out err) =
     [(''runId'', DStr run), (''outcome'', DStr (outcome_text out))] @ opt_member ''error'' error_doc err"
| "record_fields (StepAttempt run step attempt result reason) =
     [(''runId'', DStr run), (''step'', DStr (step_text step)), (''attempt'', int_doc attempt), (''resultEntryId'', DStr result)]
     @ opt_member ''compactionReason'' reason_doc reason"
| "record_fields (ToolStarted run assistant index call tool args result replay) =
     [(''runId'', DStr run), (''assistantEntryId'', DStr assistant), (''toolIndex'', int_doc index), (''toolCallId'', DStr call),
      (''toolName'', DStr tool), (''effectiveArgs'', json_doc args), (''resultEntryId'', DStr result),
      (''replay'', DStr (replay_text replay))]"
| "record_fields (QueueEnqueued queue run target) =
     [(''queue'', DStr (queue_text queue))] @ opt_member ''runId'' DStr run @ [(''target'', provisioned_doc target)]"
| "record_fields (QueueCancelled run i) = opt_member ''runId'' DStr run @ [(''entryId'', DStr i)]"
| "record_fields (WriteDeferred run target) = [(''runId'', DStr run), (''target'', provisioned_doc target)]"
| "record_fields (UsageRecord usage cause) = [(''usage'', usage_doc usage)] @ usage_cause_fields cause"

fun read_record_body :: "record_type \<Rightarrow> fields \<Rightarrow> record_body option" where
  "read_record_body OperationStartedT kvs = do {
     leaf \<leftarrow> req_of (read_nullable read_string) (get_field kvs ''sourceLeafId'');
     i \<leftarrow> req_of read_intent (get_field kvs ''intent'');
     Some (OperationStarted leaf i) }"
| "read_record_body AbortRequestedT kvs = map_option AbortRequested (req_of read_string (get_field kvs ''runId''))"
| "read_record_body OperationFinishedT kvs = do {
     run \<leftarrow> req_of read_string (get_field kvs ''runId'');
     out \<leftarrow> req_of read_outcome (get_field kvs ''outcome'');
     err \<leftarrow> opt_of read_error (get_field kvs ''error'');
     Some (OperationFinished run out err) }"
| "read_record_body StepAttemptT kvs = do {
     run \<leftarrow> req_of read_string (get_field kvs ''runId'');
     step \<leftarrow> req_of read_step (get_field kvs ''step'');
     attempt \<leftarrow> req_of read_int (get_field kvs ''attempt'');
     result \<leftarrow> req_of read_string (get_field kvs ''resultEntryId'');
     reason \<leftarrow> opt_of read_reason (get_field kvs ''compactionReason'');
     Some (StepAttempt run step attempt result reason) }"
| "read_record_body ToolStartedT kvs = do {
     run \<leftarrow> req_of read_string (get_field kvs ''runId'');
     assistant \<leftarrow> req_of read_string (get_field kvs ''assistantEntryId'');
     index \<leftarrow> req_of read_int (get_field kvs ''toolIndex'');
     call \<leftarrow> req_of read_string (get_field kvs ''toolCallId'');
     tool \<leftarrow> req_of read_string (get_field kvs ''toolName'');
     args \<leftarrow> req_of read_json (get_field kvs ''effectiveArgs'');
     result \<leftarrow> req_of read_string (get_field kvs ''resultEntryId'');
     replay \<leftarrow> req_of read_replay (get_field kvs ''replay'');
     Some (ToolStarted run assistant index call tool args result replay) }"
| "read_record_body QueueEnqueuedT kvs = do {
     queue \<leftarrow> req_of read_queue (get_field kvs ''queue'');
     run \<leftarrow> opt_of read_string (get_field kvs ''runId'');
     target \<leftarrow> req_of read_provisioned (get_field kvs ''target'');
     Some (QueueEnqueued queue run target) }"
| "read_record_body QueueCancelledT kvs = do {
     run \<leftarrow> opt_of read_string (get_field kvs ''runId'');
     i \<leftarrow> req_of read_string (get_field kvs ''entryId'');
     Some (QueueCancelled run i) }"
| "read_record_body WriteDeferredT kvs = do {
     run \<leftarrow> req_of read_string (get_field kvs ''runId'');
     target \<leftarrow> req_of read_provisioned (get_field kvs ''target'');
     Some (WriteDeferred run target) }"
| "read_record_body UsageT kvs = do {
     usage \<leftarrow> req_of read_usage (get_field kvs ''usage'');
     cause \<leftarrow> read_usage_cause kvs;
     Some (UsageRecord usage cause) }"

definition record_payload_keys :: "string list" where
  "record_payload_keys = [''sourceLeafId'', ''intent'', ''runId'', ''outcome'', ''error'', ''step'', ''attempt'', ''resultEntryId'',
     ''compactionReason'', ''assistantEntryId'', ''toolIndex'', ''toolCallId'', ''toolName'', ''effectiveArgs'', ''replay'',
     ''queue'', ''target'', ''entryId'', ''usage'', ''cause'', ''stopReason'', ''details'']"

fun record_body_ok :: "record_body \<Rightarrow> bool" where
  "record_body_ok (StepAttempt _ _ _ _ (Some r)) \<longleftrightarrow> reason_ok r"
| "record_body_ok _ \<longleftrightarrow> True"

lemma usage_cause_keys: "k \<notin> set record_payload_keys \<Longrightarrow> get_field (usage_cause_fields c) k = None"
  by (cases c) (auto simp: record_payload_keys_def)

lemma record_fields_keys: "k \<notin> set record_payload_keys \<Longrightarrow> get_field (record_fields b) k = None"
  using usage_cause_keys by (cases b) (auto simp: record_payload_keys_def)

lemma record_fields_base [simp]:
  "get_field (record_fields b) ''kind'' = None" "get_field (record_fields b) ''lane'' = None"
  "get_field (record_fields b) ''id'' = None" "get_field (record_fields b) ''type'' = None"
  "get_field (record_fields b) ''seq'' = None" "get_field (record_fields b) ''timestamp'' = None"
  by (rule record_fields_keys; simp add: record_payload_keys_def)+

lemma read_record_type [wire]: "read_literal RECORD_TYPES (DStr (record_type_text t)) = Some t"
  by (cases t) (simp_all add: RECORD_TYPES_def read_literal_def)

lemma read_operation_kind [wire]: "read_literal OPERATION_KINDS (DStr (operation_kind_text t)) = Some t"
  by (cases t) (simp_all add: OPERATION_KINDS_def read_literal_def)

lemma read_outcome_text [wire]: "read_outcome (DStr (outcome_text x)) = Some x"
  by (cases x) (simp_all add: read_outcome_def read_literal_def)

lemma read_step_text [wire]: "read_step (DStr (step_text x)) = Some x"
  by (cases x) (simp_all add: read_step_def read_literal_def)

lemma read_replay_text [wire]: "read_replay (DStr (replay_text x)) = Some x"
  by (cases x) (simp_all add: read_replay_def read_literal_def)

lemma read_queue_text [wire]: "read_queue (DStr (queue_text x)) = Some x"
  by (cases x) (simp_all add: read_queue_def read_literal_def)

lemma read_error_doc [wire]: "read_error (error_doc e) = Some e"
  by (simp add: read_error_def error_doc_def)

lemma json_doc_string: "json_doc j = DStr s \<longleftrightarrow> j = JStr s"
  by (cases j) auto

lemma read_reason_doc: "reason_ok r \<Longrightarrow> read_reason (reason_doc r) = Some r"
proof (cases r)
  case (OtherReason j)
  assume "reason_ok r"
  with OtherReason show ?thesis
    by (cases "\<exists>s. j = JStr s") (auto simp: read_reason_def json_of_doc json_doc_string)
qed (simp_all add: read_reason_def)

lemma intent_fields: "\<exists>kvs. intent_doc i = DObj kvs \<and> get_field kvs ''kind'' = Some (DStr (operation_kind_text (intent_kind i)))"
  by (cases i) simp_all

lemma read_intent_doc [wire]: "read_intent (intent_doc i) = Some i"
  by (cases i) (simp_all add: read_intent_def read_literal_def OPERATION_KINDS_def wire)

lemma generation_cause_table: "map_of GENERATION_CAUSES (generation_cause_text c) = Some c"
  "generation_cause_text c \<notin> {''adjustment'', ''tool'', ''hook''}"
  by (cases c; simp add: GENERATION_CAUSES_def)+

lemma read_usage_cause_fields:
  "\<forall>k \<in> set record_payload_keys - {''usage''}. get_field kvs k = get_field (usage_cause_fields c) k \<Longrightarrow> read_usage_cause kvs = Some c"
  using generation_cause_table
  by (cases c) (simp_all add: record_payload_keys_def read_usage_cause_def wire)

lemma read_record_fields:
  assumes "\<forall>k \<in> set record_payload_keys. get_field kvs k = get_field (record_fields b) k" "record_body_ok b"
  shows "read_record_body (record_body_type b) kvs = Some b"
proof (cases b)
  case (UsageRecord u c)
  have "read_usage_cause kvs = Some c"
    by (rule read_usage_cause_fields) (use assms(1) UsageRecord in \<open>auto simp: record_payload_keys_def\<close>)
  moreover have "get_field kvs ''usage'' = Some (usage_doc u)"
    using assms(1) UsageRecord by (cases c) (simp_all add: record_payload_keys_def)
  ultimately show ?thesis using UsageRecord by (simp add: wire)
next
  case (StepAttempt run step attempt result reason)
  then show ?thesis using assms by (cases reason) (simp_all add: record_payload_keys_def wire opt_of_def read_reason_doc)
qed (use assms in \<open>simp_all add: record_payload_keys_def wire read_reason_doc\<close>)

end
