(* ===== verification/Compaction.thy ===== *)
theory Compaction
  imports Tree_Session Session_Wire
begin

text \<open>
  Compaction of a session branch, \<^verbatim>\<open>packages/agent/src/harness/compaction\<close>: estimates of context size
  (\<^verbatim>\<open>compaction.ts\<close>), the choice of the first entry to keep, the messages to summarise, the summary
  requests and the file lists of the result (\<^verbatim>\<open>utils.ts\<close>), and the selection of the messages of an
  abandoned branch (\<^verbatim>\<open>branch-summarization.ts\<close>). The entries are those of the first session format
  (\<^verbatim>\<open>harness/types.ts\<close>); the time stamp of an entry is the time its ISO text denotes.

  The model that writes a summary, with its retries, is a function argument, and so is the addition
  of two amounts of money. Arguments of tool calls are JSON objects whose keys come in the order of the
  type \<open>json\<close>.
\<close>

section \<open>Messages of entries\<close>

definition getMessageFromEntry :: "tree_entry \<Rightarrow> agent_message option" where
  "getMessageFromEntry e = (case te_body e of
      TreeMessage m \<Rightarrow> Some m
    | TreeCustomMessage t content display details \<Rightarrow> Some (createCustomMessage t content display details (te_timestamp e))
    | TreeBranchSummary fromId summary _ _ _ \<Rightarrow> Some (createBranchSummaryMessage summary fromId (te_timestamp e))
    | TreeCompaction summary _ tokensBefore _ _ _ _ \<Rightarrow> Some (createCompactionSummaryMessage summary tokensBefore (te_timestamp e))
    | _ \<Rightarrow> None)"

definition getMessageFromEntryForCompaction :: "tree_entry \<Rightarrow> agent_message option" where
  "getMessageFromEntryForCompaction e = (if is_compaction (te_body e) then None else getMessageFromEntry e)"

section \<open>Context size\<close>

definition calculateContextTokens :: "usage \<Rightarrow> int" where
  "calculateContextTokens u =
     (if u_totalTokens u \<noteq> 0 then u_totalTokens u else u_input u + u_output u + u_cacheRead u + u_cacheWrite u)"

fun getAssistantUsage :: "agent_message \<Rightarrow> usage option" where
  "getAssistantUsage (AssistantMessage m) =
     (if am_stopReason m \<noteq> AbortedStop \<and> am_stopReason m \<noteq> ErrorStop \<and> calculateContextTokens (am_usage m) > 0
      then Some (am_usage m) else None)"
| "getAssistantUsage _ = None"

fun last_usage :: "usage option list \<Rightarrow> usage option" where
  "last_usage [] = None"
| "last_usage (x # xs) = (case last_usage xs of Some u \<Rightarrow> Some u | None \<Rightarrow> x)"

definition getLastAssistantUsage :: "tree_entry list \<Rightarrow> usage option" where
  "getLastAssistantUsage es =
     last_usage (map (\<lambda>e. case te_body e of TreeMessage m \<Rightarrow> getAssistantUsage m | _ \<Rightarrow> None) es)"

definition ESTIMATED_IMAGE_CHARS :: nat where
  "ESTIMATED_IMAGE_CHARS = 4800"

fun block_chars :: "content_block \<Rightarrow> nat" where
  "block_chars (TextContent t _) = length t"
| "block_chars (ImageContent _ _) = ESTIMATED_IMAGE_CHARS"

fun estimateTextAndImageContentChars :: "message_content \<Rightarrow> nat" where
  "estimateTextAndImageContentChars (PlainContent s) = length s"
| "estimateTextAndImageContentChars (BlockContent bs) = sum_list (map block_chars bs)"

text \<open>A JSON value can always be written.\<close>

definition safeJsonStringify :: "json \<Rightarrow> string" where
  "safeJsonStringify j = JSON_stringify (json_doc j)"

fun assistant_block_chars :: "assistant_block \<Rightarrow> nat" where
  "assistant_block_chars (AssistantText t _) = length t"
| "assistant_block_chars (ThinkingContent t _ _) = length t"
| "assistant_block_chars (ToolCallContent c) = length (tc_name c) + length (safeJsonStringify (tc_arguments c))"

definition quarter_up :: "nat \<Rightarrow> int" where
  "quarter_up chars = int ((chars + 3) div 4)"

fun estimateTokens :: "agent_message \<Rightarrow> int" where
  "estimateTokens (UserMessage content _) = quarter_up (estimateTextAndImageContentChars content)"
| "estimateTokens (AssistantMessage m) = quarter_up (sum_list (map assistant_block_chars (am_content m)))"
| "estimateTokens (CustomMessage m) = quarter_up (estimateTextAndImageContentChars (cm_content m))"
| "estimateTokens (ToolResultMessage m) = quarter_up (estimateTextAndImageContentChars (BlockContent (tr_content m)))"
| "estimateTokens (BashExecutionMessage m) = quarter_up (length (be_command m) + length (be_output m))"
| "estimateTokens (BranchSummaryMessage summary _ _) = quarter_up (length summary)"
| "estimateTokens (CompactionSummaryMessage summary _ _) = quarter_up (length summary)"

record context_usage_estimate =
  cu_tokens :: int
  cu_usageTokens :: int
  cu_trailingTokens :: int
  cu_lastUsageIndex :: "nat option"

text \<open>The backward search for the last message with a usage, over the messages newest first.\<close>

fun usage_info :: "agent_message list \<Rightarrow> (usage \<times> nat) option" where
  "usage_info [] = None"
| "usage_info (m # older) = (case getAssistantUsage m of Some u \<Rightarrow> Some (u, length older) | None \<Rightarrow> usage_info older)"

definition getLastAssistantUsageInfo :: "agent_message list \<Rightarrow> (usage \<times> nat) option" where
  "getLastAssistantUsageInfo ms = usage_info (rev ms)"

definition estimateContextTokens :: "agent_message list \<Rightarrow> context_usage_estimate" where
  "estimateContextTokens ms = (case getLastAssistantUsageInfo ms of
      None \<Rightarrow> (let estimated = sum_list (map estimateTokens ms) in
        \<lparr>cu_tokens = estimated, cu_usageTokens = 0, cu_trailingTokens = estimated, cu_lastUsageIndex = None\<rparr>)
    | Some (u, index) \<Rightarrow>
        (let usageTokens = calculateContextTokens u; trailing = sum_list (map estimateTokens (drop (index + 1) ms)) in
        \<lparr>cu_tokens = usageTokens + trailing, cu_usageTokens = usageTokens, cu_trailingTokens = trailing,
         cu_lastUsageIndex = Some index\<rparr>))"

record compaction_settings =
  cs_enabled :: bool
  cs_reserveTokens :: int
  cs_keepRecentTokens :: int

definition DEFAULT_COMPACTION_SETTINGS :: compaction_settings where
  "DEFAULT_COMPACTION_SETTINGS = \<lparr>cs_enabled = True, cs_reserveTokens = 16384, cs_keepRecentTokens = 20000\<rparr>"

definition shouldCompact :: "int \<Rightarrow> int \<Rightarrow> compaction_settings \<Rightarrow> bool" where
  "shouldCompact contextTokens contextWindow settings \<longleftrightarrow>
     cs_enabled settings \<and> contextTokens > contextWindow - cs_reserveTokens settings"

section \<open>The cut point\<close>

definition valid_cut :: "tree_entry \<Rightarrow> bool" where
  "valid_cut e = (case te_body e of
      TreeMessage m \<Rightarrow> role_of m \<noteq> ToolResultRole
    | TreeBranchSummary _ _ _ _ _ \<Rightarrow> True
    | TreeCustomMessage _ _ _ _ \<Rightarrow> True
    | _ \<Rightarrow> False)"

definition findValidCutPoints :: "tree_entry list \<Rightarrow> nat \<Rightarrow> nat \<Rightarrow> nat list" where
  "findValidCutPoints es start stop = filter (\<lambda>i. valid_cut (es ! i)) [start..<stop]"

definition starts_turn :: "tree_entry \<Rightarrow> bool" where
  "starts_turn e = (case te_body e of
      TreeBranchSummary _ _ _ _ _ \<Rightarrow> True
    | TreeCustomMessage _ _ _ _ \<Rightarrow> True
    | TreeMessage m \<Rightarrow> role_of m = UserRole \<or> role_of m = BashExecutionRole
    | _ \<Rightarrow> False)"

text \<open>The index going down from an entry to the start; \<open>None\<close> for the result -1.\<close>

definition findTurnStartIndex :: "tree_entry list \<Rightarrow> nat \<Rightarrow> nat \<Rightarrow> nat option" where
  "findTurnStartIndex es index start = List.find (\<lambda>i. starts_turn (es ! i)) (rev [start..<Suc index])"

record cut_point =
  cp_firstKeptEntryIndex :: nat
  cp_turnStartIndex :: "nat option"
  cp_isSplitTurn :: bool

text \<open>The first index, going down, at which the messages reach the budget.\<close>

fun budget_index :: "tree_entry list \<Rightarrow> int \<Rightarrow> int \<Rightarrow> nat list \<Rightarrow> nat option" where
  "budget_index es keep acc [] = None"
| "budget_index es keep acc (i # is) = (case te_body (es ! i) of
      TreeMessage m \<Rightarrow>
        (let acc' = acc + estimateTokens m in if acc' \<ge> keep then Some i else budget_index es keep acc' is)
    | _ \<Rightarrow> budget_index es keep acc is)"

text \<open>Entries that are no messages move with the message after them.\<close>

fun back_up :: "tree_entry list \<Rightarrow> nat \<Rightarrow> nat \<Rightarrow> nat" where
  "back_up es start 0 = 0"
| "back_up es start (Suc c) =
     (if start < Suc c \<and> \<not> is_compaction (te_body (es ! c)) \<and> \<not> is_message (te_body (es ! c))
      then back_up es start c else Suc c)"

definition findCutPoint :: "tree_entry list \<Rightarrow> nat \<Rightarrow> nat \<Rightarrow> int \<Rightarrow> cut_point" where
  "findCutPoint es start stop keep =
     (let cutPoints = findValidCutPoints es start stop in
      if cutPoints = [] then \<lparr>cp_firstKeptEntryIndex = start, cp_turnStartIndex = None, cp_isSplitTurn = False\<rparr>
      else
        let chosen = (case budget_index es keep 0 (rev [start..<stop]) of
              None \<Rightarrow> hd cutPoints
            | Some i \<Rightarrow> (case List.find (\<lambda>c. c \<ge> i) cutPoints of None \<Rightarrow> hd cutPoints | Some c \<Rightarrow> c));
            cutIndex = back_up es start chosen;
            isUserMessage = (case te_body (es ! cutIndex) of TreeMessage m \<Rightarrow> role_of m = UserRole | _ \<Rightarrow> False);
            turnStart = (if isUserMessage then None else findTurnStartIndex es cutIndex start)
        in \<lparr>cp_firstKeptEntryIndex = cutIndex, cp_turnStartIndex = turnStart,
            cp_isSplitTurn = (\<not> isUserMessage \<and> turnStart \<noteq> None)\<rparr>)"

section \<open>Files\<close>

text \<open>A set of file names in the order in which they were added.\<close>

definition set_add :: "'a list \<Rightarrow> 'a \<Rightarrow> 'a list" where
  "set_add xs x = (if x \<in> set xs then xs else xs @ [x])"

record file_operations =
  fo_read :: "string list"
  fo_written :: "string list"
  fo_edited :: "string list"

definition createFileOps :: file_operations where
  "createFileOps = \<lparr>fo_read = [], fo_written = [], fo_edited = []\<rparr>"

definition call_path :: "tool_call \<Rightarrow> string option" where
  "call_path c = (case tc_arguments c of
      JObj m \<Rightarrow> (case fmlookup m ''path'' of Some (JStr p) \<Rightarrow> if p = '''' then None else Some p | _ \<Rightarrow> None)
    | _ \<Rightarrow> None)"

fun add_call :: "file_operations \<Rightarrow> assistant_block \<Rightarrow> file_operations" where
  "add_call ops (ToolCallContent c) = (case call_path c of
      None \<Rightarrow> ops
    | Some p \<Rightarrow>
        if tc_name c = ''read'' then ops\<lparr>fo_read := set_add (fo_read ops) p\<rparr>
        else if tc_name c = ''write'' then ops\<lparr>fo_written := set_add (fo_written ops) p\<rparr>
        else if tc_name c = ''edit'' then ops\<lparr>fo_edited := set_add (fo_edited ops) p\<rparr>
        else ops)"
| "add_call ops _ = ops"

fun extractFileOpsFromMessage :: "file_operations \<Rightarrow> agent_message \<Rightarrow> file_operations" where
  "extractFileOpsFromMessage ops (AssistantMessage m) = foldl add_call ops (am_content m)"
| "extractFileOpsFromMessage ops _ = ops"

definition computeFileLists :: "file_operations \<Rightarrow> string list \<times> string list" where
  "computeFileLists ops =
     (let modified = foldl set_add [] (fo_edited ops @ fo_written ops) in
      (sort (filter (\<lambda>f. f \<notin> set modified) (fo_read ops)), sort modified))"

fun join_with :: "string \<Rightarrow> string list \<Rightarrow> string" where
  "join_with sep [] = ''''"
| "join_with sep [x] = x"
| "join_with sep (x # y # ys) = x @ sep @ join_with sep (y # ys)"

definition formatFileOperations :: "string list \<Rightarrow> string list \<Rightarrow> string" where
  "formatFileOperations readFiles modifiedFiles =
     (let sections =
        (if readFiles = [] then [] else [''<read-files>'' @ newline @ join_with newline readFiles @ newline @ ''</read-files>'']) @
        (if modifiedFiles = [] then [] else [''<modified-files>'' @ newline @ join_with newline modifiedFiles @ newline @ ''</modified-files>''])
      in if sections = [] then '''' else newline @ newline @ join_with (newline @ newline) sections)"

text \<open>The names in a field of stored details, \<^verbatim>\<open>details.readFiles\<close> or \<^verbatim>\<open>details.modifiedFiles\<close>; entries that are no strings are left out.\<close>

fun string_of_json :: "json \<Rightarrow> string option" where
  "string_of_json (JStr s) = Some s"
| "string_of_json _ = None"

definition detail_files :: "json option \<Rightarrow> string \<Rightarrow> string list" where
  "detail_files details key = (case details of
      Some (JObj m) \<Rightarrow> (case fmlookup m key of Some (JArr xs) \<Rightarrow> List.map_filter string_of_json xs | _ \<Rightarrow> [])
    | _ \<Rightarrow> [])"

definition add_details :: "file_operations \<Rightarrow> json option \<Rightarrow> file_operations" where
  "add_details ops details = ops\<lparr>
     fo_read := foldl set_add (fo_read ops) (detail_files details ''readFiles''),
     fo_edited := foldl set_add (fo_edited ops) (detail_files details ''modifiedFiles'')\<rparr>"

definition extractFileOperations :: "agent_message list \<Rightarrow> tree_entry list \<Rightarrow> nat option \<Rightarrow> file_operations" where
  "extractFileOperations ms es prev =
     foldl extractFileOpsFromMessage
       (case prev of
          None \<Rightarrow> createFileOps
        | Some i \<Rightarrow> (case te_body (es ! i) of
            TreeCompaction _ _ _ _ details _ fromHook \<Rightarrow> if fromHook then createFileOps else add_details createFileOps details
          | _ \<Rightarrow> createFileOps)) ms"

section \<open>Preparing a compaction\<close>

datatype compaction_error = CompactionAborted | SummarizationFailed | CompactionInvalidSession

record compaction_preparation =
  pr_firstKeptEntryId :: string
  pr_messagesToSummarize :: "agent_message list"
  pr_turnPrefixMessages :: "agent_message list"
  pr_retainedTail :: "agent_message list"
  pr_isSplitTurn :: bool
  pr_tokensBefore :: int
  pr_previousSummary :: "string option"
  pr_fileOps :: file_operations
  pr_settings :: compaction_settings

text \<open>The messages of the entries from one index up to another.\<close>

definition messages_between :: "tree_entry list \<Rightarrow> nat \<Rightarrow> nat \<Rightarrow> agent_message list" where
  "messages_between es from to = List.map_filter (\<lambda>i. getMessageFromEntryForCompaction (es ! i)) [from..<to]"

definition previous_compaction :: "tree_entry list \<Rightarrow> nat option" where
  "previous_compaction es = List.find (\<lambda>i. is_compaction (te_body (es ! i))) (rev [0..<length es])"

definition boundary_start :: "tree_entry list \<Rightarrow> nat \<Rightarrow> nat" where
  "boundary_start es prev = (case te_body (es ! prev) of
      TreeCompaction _ (Some k) _ _ _ _ _ \<Rightarrow>
        if k = '''' then prev + 1
        else (case index_where (\<lambda>e. te_id e = k) es of Some i \<Rightarrow> i | None \<Rightarrow> prev + 1)
    | _ \<Rightarrow> prev + 1)"

definition previous_summary :: "tree_entry list \<Rightarrow> nat \<Rightarrow> string option" where
  "previous_summary es prev = (case te_body (es ! prev) of TreeCompaction summary _ _ _ _ _ _ \<Rightarrow> Some summary | _ \<Rightarrow> None)"

definition prepareCompaction :: "tree_entry list \<Rightarrow> compaction_settings \<Rightarrow> compaction_error + compaction_preparation option" where
  "prepareCompaction es settings =
     (if es = [] \<or> is_compaction (te_body (last es)) then Inr None
      else
        let prev = previous_compaction es;
            start = (case prev of None \<Rightarrow> 0 | Some i \<Rightarrow> boundary_start es i);
            stop = length es;
            tokensBefore = cu_tokens (estimateContextTokens (tree_context_messages es));
            cut = findCutPoint es start stop (cs_keepRecentTokens settings);
            firstKept = cp_firstKeptEntryIndex cut
        in if te_id (es ! firstKept) = '''' then Inl CompactionInvalidSession
        else
          let turnStart = (case cp_turnStartIndex cut of Some i \<Rightarrow> i | None \<Rightarrow> 0);
              historyEnd = (if cp_isSplitTurn cut then turnStart else firstKept);
              messagesToSummarize = messages_between es start historyEnd;
              turnPrefix = (if cp_isSplitTurn cut then messages_between es turnStart firstKept else []);
              retainedTail = messages_between es firstKept stop;
              fileOps = foldl extractFileOpsFromMessage (extractFileOperations messagesToSummarize es prev) turnPrefix
          in Inr (Some \<lparr>pr_firstKeptEntryId = te_id (es ! firstKept), pr_messagesToSummarize = messagesToSummarize,
               pr_turnPrefixMessages = turnPrefix, pr_retainedTail = retainedTail, pr_isSplitTurn = cp_isSplitTurn cut,
               pr_tokensBefore = tokensBefore,
               pr_previousSummary = (case prev of None \<Rightarrow> None | Some i \<Rightarrow> previous_summary es i),
               pr_fileOps = fileOps, pr_settings = settings\<rparr>))"

section \<open>Texts for the summarising model\<close>

fun block_texts :: "content_block list \<Rightarrow> string list" where
  "block_texts [] = []"
| "block_texts (TextContent t _ # bs) = t # block_texts bs"
| "block_texts (_ # bs) = block_texts bs"

fun assistant_texts :: "assistant_block list \<Rightarrow> string list" where
  "assistant_texts [] = []"
| "assistant_texts (AssistantText t _ # bs) = t # assistant_texts bs"
| "assistant_texts (_ # bs) = assistant_texts bs"

fun contentText :: "message_content \<Rightarrow> string \<Rightarrow> string" where
  "contentText (PlainContent s) sep = s"
| "contentText (BlockContent bs) sep = join_with sep (block_texts bs)"

definition assistantText :: "assistant_message \<Rightarrow> string" where
  "assistantText m = join_with newline (assistant_texts (am_content m))"

definition TOOL_RESULT_MAX_CHARS :: nat where
  "TOOL_RESULT_MAX_CHARS = 2000"

definition truncateForSummary :: "string \<Rightarrow> nat \<Rightarrow> string" where
  "truncateForSummary t maxChars =
     (if length t \<le> maxChars then t
      else take maxChars t @ newline @ newline @ ''[... '' @ dec_of_nat (length t - maxChars) @ '' more characters truncated]'')"

fun thinking_texts :: "assistant_block list \<Rightarrow> string list" where
  "thinking_texts [] = []"
| "thinking_texts (ThinkingContent t _ _ # bs) = t # thinking_texts bs"
| "thinking_texts (_ # bs) = thinking_texts bs"

definition call_text :: "tool_call \<Rightarrow> string" where
  "call_text c = tc_name c @ ''('' @
     (case tc_arguments c of
        JObj m \<Rightarrow> join_with '', '' (map (\<lambda>(k, v). k @ ''='' @ safeJsonStringify v) (sorted_list_of_fmap m))
      | _ \<Rightarrow> '''') @ '')''"

fun message_parts :: "agent_message \<Rightarrow> string list" where
  "message_parts (UserMessage content _) =
     (let t = contentText content '''' in if t = '''' then [] else [''[User]: '' @ t])"
| "message_parts (AssistantMessage m) =
     (if thinking_texts (am_content m) = [] then [] else [''[Assistant thinking]: '' @ join_with newline (thinking_texts (am_content m))]) @
     (if assistant_texts (am_content m) = [] then [] else [''[Assistant]: '' @ assistantText m]) @
     (if tool_calls_of (am_content m) = [] then []
      else [''[Assistant tool calls]: '' @ join_with ''; '' (map call_text (tool_calls_of (am_content m)))])"
| "message_parts (ToolResultMessage m) =
     (let t = contentText (BlockContent (tr_content m)) '''' in
      if t = '''' then [] else [''[Tool result]: '' @ truncateForSummary t TOOL_RESULT_MAX_CHARS])"
| "message_parts _ = []"

definition serializeConversation :: "agent_message list \<Rightarrow> string" where
  "serializeConversation ms = join_with (newline @ newline) (concat (map message_parts ms))"

definition SUMMARIZATION_SYSTEM_PROMPT :: string where
  "SUMMARIZATION_SYSTEM_PROMPT = join_with newline [
     ''You are a context summarization assistant. Your task is to read a conversation between a user and an AI assistant, then produce a structured summary following the exact format specified.'',
     '''',
     ''Do NOT continue the conversation. Do NOT respond to any questions in the conversation. ONLY output the structured summary.'']"

definition SUMMARIZATION_PROMPT :: string where
  "SUMMARIZATION_PROMPT = join_with newline [
     ''The messages above are a conversation to summarize. Create a structured context checkpoint summary that another LLM will use to continue the work.'',
     '''',
     ''Use this EXACT format:'',
     '''',
     ''## Goal'',
     ''[What is the user trying to accomplish? Can be multiple items if the session covers different tasks.]'',
     '''',
     ''## Constraints & Preferences'',
     ''- [Any constraints, preferences, or requirements mentioned by user]'',
     ''- [Or \"(none)\" if none were mentioned]'',
     '''',
     ''## Progress'',
     ''### Done'',
     ''- [x] [Completed tasks/changes]'',
     '''',
     ''### In Progress'',
     ''- [ ] [Current work]'',
     '''',
     ''### Blocked'',
     ''- [Issues preventing progress, if any]'',
     '''',
     ''## Key Decisions'',
     ''- **[Decision]**: [Brief rationale]'',
     '''',
     ''## Next Steps'',
     ''1. [Ordered list of what should happen next]'',
     '''',
     ''## Critical Context'',
     ''- [Any data, examples, or references needed to continue]'',
     ''- [Or \"(none)\" if not applicable]'',
     '''',
     ''Keep each section concise. Preserve exact file paths, function names, and error messages.'']"

definition UPDATE_SUMMARIZATION_PROMPT :: string where
  "UPDATE_SUMMARIZATION_PROMPT = join_with newline [
     ''The messages above are NEW conversation messages to incorporate into the existing summary provided in <previous-summary> tags.'',
     '''',
     ''Update the existing structured summary with new information. RULES:'',
     ''- PRESERVE all existing information from the previous summary'',
     ''- ADD new progress, decisions, and context from the new messages'',
     ''- UPDATE the Progress section: move items from \"In Progress\" to \"Done\" when completed'',
     ''- UPDATE \"Next Steps\" based on what was accomplished'',
     ''- PRESERVE exact file paths, function names, and error messages'',
     ''- If something is no longer relevant, you may remove it'',
     '''',
     ''Use this EXACT format:'',
     '''',
     ''## Goal'',
     ''[Preserve existing goals, add new ones if the task expanded]'',
     '''',
     ''## Constraints & Preferences'',
     ''- [Preserve existing, add new ones discovered]'',
     '''',
     ''## Progress'',
     ''### Done'',
     ''- [x] [Include previously done items AND newly completed items]'',
     '''',
     ''### In Progress'',
     ''- [ ] [Current work - update based on progress]'',
     '''',
     ''### Blocked'',
     ''- [Current blockers - remove if resolved]'',
     '''',
     ''## Key Decisions'',
     ''- **[Decision]**: [Brief rationale] (preserve all previous, add new)'',
     '''',
     ''## Next Steps'',
     ''1. [Update based on current state]'',
     '''',
     ''## Critical Context'',
     ''- [Preserve important context, add new if needed]'',
     '''',
     ''Keep each section concise. Preserve exact file paths, function names, and error messages.'']"

definition TURN_PREFIX_SUMMARIZATION_PROMPT :: string where
  "TURN_PREFIX_SUMMARIZATION_PROMPT = join_with newline [
     ''This is the PREFIX of a turn that was too large to keep. The SUFFIX (recent work) is retained.'',
     '''',
     ''Summarize the prefix to provide context for the retained suffix:'',
     '''',
     ''## Original Request'',
     ''[What did the user ask for in this turn?]'',
     '''',
     ''## Early Progress'',
     ''- [Key decisions and work done in the prefix]'',
     '''',
     ''## Context for Suffix'',
     ''- [Information needed to understand the retained recent work]'',
     '''',
     ''Be concise. Focus on what's needed to understand the kept suffix.'']"

definition BRANCH_SUMMARY_PREAMBLE :: string where
  "BRANCH_SUMMARY_PREAMBLE = join_with newline [
     ''The user explored a different conversation branch before returning here.'',
     ''Summary of that exploration:'',
     '''',
     '''']"

definition BRANCH_SUMMARY_PROMPT :: string where
  "BRANCH_SUMMARY_PROMPT = join_with newline [
     ''Create a structured summary of this conversation branch for context when returning later.'',
     '''',
     ''Use this EXACT format:'',
     '''',
     ''## Goal'',
     ''[What was the user trying to accomplish in this branch?]'',
     '''',
     ''## Constraints & Preferences'',
     ''- [Any constraints, preferences, or requirements mentioned]'',
     ''- [Or \"(none)\" if none were mentioned]'',
     '''',
     ''## Progress'',
     ''### Done'',
     ''- [x] [Completed tasks/changes]'',
     '''',
     ''### In Progress'',
     ''- [ ] [Work that was started but not finished]'',
     '''',
     ''### Blocked'',
     ''- [Issues preventing progress, if any]'',
     '''',
     ''## Key Decisions'',
     ''- **[Decision]**: [Brief rationale]'',
     '''',
     ''## Next Steps'',
     ''1. [What should happen next to continue this work]'',
     '''',
     ''Keep each section concise. Preserve exact file paths, function names, and error messages.'']"


section \<open>Summaries\<close>

record summary_model =
  mo_maxTokens :: int
  mo_contextWindow :: int
  mo_reasoning :: bool

record summary_request =
  sr_systemPrompt :: string
  sr_prompt :: string
  sr_maxTokens :: int
  sr_reasoning :: "string option"

text \<open>What the summarising model answers to a request, with its retries.\<close>

type_synonym completer = "summary_request \<Rightarrow> assistant_message"

definition limit_tokens :: "int \<Rightarrow> summary_model \<Rightarrow> int" where
  "limit_tokens n model = (if mo_maxTokens model > 0 then min n (mo_maxTokens model) else n)"

definition reasoning_of :: "summary_model \<Rightarrow> string option \<Rightarrow> string option" where
  "reasoning_of model level = (case level of
      Some l \<Rightarrow> if mo_reasoning model \<and> l \<noteq> '''' \<and> l \<noteq> ''off'' then Some l else None
    | None \<Rightarrow> None)"

definition summary_answer :: "assistant_message \<Rightarrow> compaction_error + string \<times> usage" where
  "summary_answer m =
     (if am_stopReason m = AbortedStop then Inl CompactionAborted
      else if am_stopReason m = ErrorStop then Inl SummarizationFailed
      else Inr (assistantText m, am_usage m))"

definition summary_prompt :: "agent_message list \<Rightarrow> string option \<Rightarrow> string option \<Rightarrow> string" where
  "summary_prompt ms customInstructions previousSummary =
     (let base = (if truthy previousSummary then UPDATE_SUMMARIZATION_PROMPT else SUMMARIZATION_PROMPT);
          base' = (case customInstructions of
              Some c \<Rightarrow> if c = '''' then base else base @ newline @ newline @ ''Additional focus: '' @ c
            | None \<Rightarrow> base)
      in ''<conversation>'' @ newline @ serializeConversation (convertToLlm ms) @ newline @ ''</conversation>'' @ newline @ newline @
         (case previousSummary of
            Some p \<Rightarrow> if p = '''' then '''' else ''<previous-summary>'' @ newline @ p @ newline @ ''</previous-summary>'' @ newline @ newline
          | None \<Rightarrow> '''') @ base')"

text \<open>For an integer, \<^verbatim>\<open>Math.floor(0.8 * reserveTokens)\<close> is four fifths rounded down.\<close>

definition generateSummaryWithUsage :: "completer \<Rightarrow> summary_model \<Rightarrow> agent_message list \<Rightarrow> int \<Rightarrow> string option \<Rightarrow> string option
    \<Rightarrow> string option \<Rightarrow> compaction_error + string \<times> usage" where
  "generateSummaryWithUsage complete model ms reserveTokens customInstructions previousSummary thinkingLevel =
     summary_answer (complete \<lparr>sr_systemPrompt = SUMMARIZATION_SYSTEM_PROMPT,
       sr_prompt = summary_prompt ms customInstructions previousSummary,
       sr_maxTokens = limit_tokens (4 * reserveTokens div 5) model, sr_reasoning = reasoning_of model thinkingLevel\<rparr>)"

definition generateSummary :: "completer \<Rightarrow> summary_model \<Rightarrow> agent_message list \<Rightarrow> int \<Rightarrow> string option \<Rightarrow> string option
    \<Rightarrow> string option \<Rightarrow> compaction_error + string" where
  "generateSummary complete model ms reserveTokens customInstructions previousSummary thinkingLevel =
     map_sum id fst (generateSummaryWithUsage complete model ms reserveTokens customInstructions previousSummary thinkingLevel)"

definition generateTurnPrefixSummary :: "completer \<Rightarrow> summary_model \<Rightarrow> agent_message list \<Rightarrow> int \<Rightarrow> string option
    \<Rightarrow> compaction_error + string \<times> usage" where
  "generateTurnPrefixSummary complete model ms reserveTokens thinkingLevel =
     summary_answer (complete \<lparr>sr_systemPrompt = SUMMARIZATION_SYSTEM_PROMPT,
       sr_prompt = ''<conversation>'' @ newline @ serializeConversation (convertToLlm ms) @ newline @ ''</conversation>'' @
         newline @ newline @ TURN_PREFIX_SUMMARIZATION_PROMPT,
       sr_maxTokens = limit_tokens (reserveTokens div 2) model, sr_reasoning = reasoning_of model thinkingLevel\<rparr>)"

definition add_optional :: "int option \<Rightarrow> int option \<Rightarrow> int option" where
  "add_optional a b = (if a = None \<and> b = None then None
     else Some ((case a of Some x \<Rightarrow> x | None \<Rightarrow> 0) + (case b of Some x \<Rightarrow> x | None \<Rightarrow> 0)))"

definition combineUsage :: "(js_double \<Rightarrow> js_double \<Rightarrow> js_double) \<Rightarrow> usage \<Rightarrow> usage \<Rightarrow> usage" where
  "combineUsage addMoney a b = \<lparr>u_input = u_input a + u_input b, u_output = u_output a + u_output b,
     u_cacheRead = u_cacheRead a + u_cacheRead b, u_cacheWrite = u_cacheWrite a + u_cacheWrite b,
     u_cacheWrite1h = add_optional (u_cacheWrite1h a) (u_cacheWrite1h b),
     u_reasoning = add_optional (u_reasoning a) (u_reasoning b),
     u_totalTokens = u_totalTokens a + u_totalTokens b,
     u_cost = \<lparr>c_input = addMoney (c_input (u_cost a)) (c_input (u_cost b)), c_output = addMoney (c_output (u_cost a)) (c_output (u_cost b)),
       c_cacheRead = addMoney (c_cacheRead (u_cost a)) (c_cacheRead (u_cost b)),
       c_cacheWrite = addMoney (c_cacheWrite (u_cost a)) (c_cacheWrite (u_cost b)),
       c_total = addMoney (c_total (u_cost a)) (c_total (u_cost b))\<rparr>\<rparr>"

record compaction_result =
  crs_summary :: string
  crs_firstKeptEntryId :: string
  crs_tokensBefore :: int
  crs_usage :: usage
  crs_retainedTail :: "agent_message list"
  crs_readFiles :: "string list"
  crs_modifiedFiles :: "string list"

text \<open>The summary text and its usage, before the file lists are added.\<close>

definition compact_summary :: "completer \<Rightarrow> (js_double \<Rightarrow> js_double \<Rightarrow> js_double) \<Rightarrow> summary_model \<Rightarrow> compaction_preparation
    \<Rightarrow> string option \<Rightarrow> string option \<Rightarrow> compaction_error + string \<times> usage" where
  "compact_summary complete addMoney model p customInstructions thinkingLevel =
     (let reserve = cs_reserveTokens (pr_settings p);
          history = (\<lambda>_ :: unit. generateSummaryWithUsage complete model (pr_messagesToSummarize p) reserve customInstructions
            (pr_previousSummary p) thinkingLevel)
      in if pr_isSplitTurn p \<and> pr_turnPrefixMessages p \<noteq> [] then
           bind_result (if pr_messagesToSummarize p = [] then Inr (''No prior history.'', None)
                        else map_sum id (map_prod id Some) (history ())) (\<lambda>(historyText, historyUsage).
           bind_result (generateTurnPrefixSummary complete model (pr_turnPrefixMessages p) reserve thinkingLevel) (\<lambda>(prefixText, prefixUsage).
           Inr (historyText @ newline @ newline @ ''---'' @ newline @ newline @ ''**Turn Context (split turn):**'' @ newline @ newline @ prefixText,
             case historyUsage of Some u \<Rightarrow> combineUsage addMoney u prefixUsage | None \<Rightarrow> prefixUsage)))
         else history ())"

definition compact :: "completer \<Rightarrow> (js_double \<Rightarrow> js_double \<Rightarrow> js_double) \<Rightarrow> summary_model \<Rightarrow> compaction_preparation
    \<Rightarrow> string option \<Rightarrow> string option \<Rightarrow> compaction_error + compaction_result" where
  "compact complete addMoney model p customInstructions thinkingLevel =
     (if pr_firstKeptEntryId p = '''' then Inl CompactionInvalidSession
      else bind_result (compact_summary complete addMoney model p customInstructions thinkingLevel) (\<lambda>(summary, u).
        case computeFileLists (pr_fileOps p) of (readFiles, modifiedFiles) \<Rightarrow>
        Inr \<lparr>crs_summary = summary @ formatFileOperations readFiles modifiedFiles, crs_firstKeptEntryId = pr_firstKeptEntryId p,
          crs_tokensBefore = pr_tokensBefore p, crs_usage = u, crs_retainedTail = pr_retainedTail p,
          crs_readFiles = readFiles, crs_modifiedFiles = modifiedFiles\<rparr>))"

section \<open>Branch summaries\<close>

text \<open>
  \<^verbatim>\<open>collectEntriesForBranchSummary\<close> walks from the old leaf to the deepest entry of its branch that is also
  on the branch of the target. The session is given by \<open>branchOf\<close> (\<^verbatim>\<open>getBranch\<close>) and \<open>entryOf\<close> (\<^verbatim>\<open>getEntry\<close>). The walk follows
  stored parent ids and may not end on a broken session, so it is a partial function: \<open>None\<close> when it does
  not end, an error when an entry is missing.
\<close>

partial_function (option) walk_up ::
  "(string \<Rightarrow> tree_entry option) \<Rightarrow> string option \<Rightarrow> string option \<Rightarrow> tree_entry list \<Rightarrow> (compaction_error + tree_entry list) option" where
  "walk_up entryOf stop current acc = (case current of
      None \<Rightarrow> Some (Inr acc)
    | Some i \<Rightarrow>
        if i = '''' \<or> current = stop then Some (Inr acc)
        else (case entryOf i of
            None \<Rightarrow> Some (Inl CompactionInvalidSession)
          | Some e \<Rightarrow> walk_up entryOf stop (te_parentId e) (acc @ [e])))"

definition common_ancestor :: "tree_entry list \<Rightarrow> tree_entry list \<Rightarrow> string option" where
  "common_ancestor oldPath targetPath =
     map_option te_id (List.find (\<lambda>e. te_id e \<in> te_id ` set oldPath) (rev targetPath))"

definition collectEntriesForBranchSummary ::
  "(string \<Rightarrow> tree_entry list) \<Rightarrow> (string \<Rightarrow> tree_entry option) \<Rightarrow> string option \<Rightarrow> string
    \<Rightarrow> (compaction_error + tree_entry list \<times> string option) option" where
  "collectEntriesForBranchSummary branchOf entryOf oldLeaf target =
     (if \<not> truthy oldLeaf then Some (Inr ([], None))
      else let ancestor = common_ancestor (branchOf (the oldLeaf)) (branchOf target) in
        map_option (map_sum id (\<lambda>es. (rev es, ancestor))) (walk_up entryOf ancestor oldLeaf []))"

definition getBranchMessage :: "tree_entry \<Rightarrow> agent_message option" where
  "getBranchMessage e = (case te_body e of
      TreeMessage m \<Rightarrow> if role_of m = ToolResultRole then None else Some m
    | TreeCustomMessage t content display details \<Rightarrow> Some (createCustomMessage t content display details (te_timestamp e))
    | TreeBranchSummary fromId summary _ _ _ \<Rightarrow> Some (createBranchSummaryMessage summary fromId (te_timestamp e))
    | TreeCompaction summary _ tokensBefore _ _ _ _ \<Rightarrow> Some (createCompactionSummaryMessage summary tokensBefore (te_timestamp e))
    | _ \<Rightarrow> None)"

record branch_preparation =
  bp_messages :: "agent_message list"
  bp_fileOps :: file_operations
  bp_totalTokens :: int

fun is_summary :: "tree_body \<Rightarrow> bool" where
  "is_summary (TreeCompaction _ _ _ _ _ _ _) \<longleftrightarrow> True"
| "is_summary (TreeBranchSummary _ _ _ _ _) \<longleftrightarrow> True"
| "is_summary _ \<longleftrightarrow> False"

definition branch_details :: "file_operations \<Rightarrow> tree_entry \<Rightarrow> file_operations" where
  "branch_details ops e = (case te_body e of
      TreeBranchSummary _ _ details _ fromHook \<Rightarrow> if fromHook then ops else add_details ops details
    | _ \<Rightarrow> ops)"

text \<open>The loop over the entries, newest first. \<^verbatim>\<open>totalTokens < tokenBudget * 0.9\<close> is a comparison of tenths.\<close>

fun branch_loop :: "int \<Rightarrow> tree_entry list \<Rightarrow> branch_preparation \<Rightarrow> branch_preparation" where
  "branch_loop budget [] p = p"
| "branch_loop budget (e # older) p = (case getBranchMessage e of
      None \<Rightarrow> branch_loop budget older p
    | Some m \<Rightarrow>
        (let p' = p\<lparr>bp_fileOps := extractFileOpsFromMessage (bp_fileOps p) m\<rparr>;
             tokens = estimateTokens m;
             taken = p'\<lparr>bp_messages := m # bp_messages p, bp_totalTokens := bp_totalTokens p + tokens\<rparr>
         in if budget > 0 \<and> bp_totalTokens p + tokens > budget
            then (if is_summary (te_body e) \<and> 10 * bp_totalTokens p < 9 * budget then taken else p')
            else branch_loop budget older taken))"

definition prepareBranchEntries :: "tree_entry list \<Rightarrow> int \<Rightarrow> branch_preparation" where
  "prepareBranchEntries es budget =
     branch_loop budget (rev es) \<lparr>bp_messages = [], bp_fileOps = foldl branch_details createFileOps es, bp_totalTokens = 0\<rparr>"

record branch_summary_options =
  bo_customInstructions :: "string option"
  bo_replaceInstructions :: bool
  bo_reserveTokens :: int

record branch_summary_result =
  br_summary :: string
  br_usage :: "usage option"
  br_readFiles :: "string list"
  br_modifiedFiles :: "string list"

definition branch_instructions :: "branch_summary_options \<Rightarrow> string" where
  "branch_instructions opts = (case bo_customInstructions opts of
      Some c \<Rightarrow> if c = '''' then BRANCH_SUMMARY_PROMPT
                else if bo_replaceInstructions opts then c
                else BRANCH_SUMMARY_PROMPT @ newline @ newline @ ''Additional focus: '' @ c
    | None \<Rightarrow> BRANCH_SUMMARY_PROMPT)"

definition generateBranchSummary :: "completer \<Rightarrow> summary_model \<Rightarrow> tree_entry list \<Rightarrow> branch_summary_options
    \<Rightarrow> compaction_error + branch_summary_result" where
  "generateBranchSummary complete model es opts =
     (let contextWindow = (if mo_contextWindow model \<noteq> 0 then mo_contextWindow model else 128000);
          p = prepareBranchEntries es (contextWindow - bo_reserveTokens opts)
      in if bp_messages p = [] then
           Inr \<lparr>br_summary = ''No content to summarize'', br_usage = None, br_readFiles = [], br_modifiedFiles = []\<rparr>
         else
           bind_result (summary_answer (complete \<lparr>sr_systemPrompt = SUMMARIZATION_SYSTEM_PROMPT,
             sr_prompt = ''<conversation>'' @ newline @ serializeConversation (convertToLlm (bp_messages p)) @ newline @
               ''</conversation>'' @ newline @ newline @ branch_instructions opts,
             sr_maxTokens = 2048, sr_reasoning = None\<rparr>)) (\<lambda>(answer, u).
           case computeFileLists (bp_fileOps p) of (readFiles, modifiedFiles) \<Rightarrow>
           let summary = BRANCH_SUMMARY_PREAMBLE @ answer @ formatFileOperations readFiles modifiedFiles in
           Inr \<lparr>br_summary = (if summary = '''' then ''No summary generated'' else summary), br_usage = Some u,
             br_readFiles = readFiles, br_modifiedFiles = modifiedFiles\<rparr>))"

end
