(* ===== verification/Tree_Session_Props.thy ===== *)
theory Tree_Session_Props
  imports Tree_Session
begin

text \<open>
  What the harness relies on when it works on a tree session: the ancestors of an entry form a finite chain, the walk
  to the root or to a compaction ends and cuts this chain, and what is cut off would not have been in the context.
  The contract of a storage is the locale \<open>tree_store\<close>; the lemmas on branches are proved in it, and the storage in
  memory interprets it.
\<close>

section \<open>Ancestors\<close>

text \<open>The ancestors of an entry, newest first.\<close>

fun ancestry :: "(string \<Rightarrow> tree_entry option) \<Rightarrow> tree_entry \<Rightarrow> tree_entry list \<Rightarrow> bool" where
  "ancestry get e [] \<longleftrightarrow> \<not> truthy (te_parentId e)"
| "ancestry get e (p # ps) \<longleftrightarrow> truthy (te_parentId e) \<and> get (the (te_parentId e)) = Some p \<and> ancestry get p ps"

text \<open>The part of a way up, newest first, that the walk keeps.\<close>

fun cut_path :: "string option \<Rightarrow> tree_entry list \<Rightarrow> tree_entry list" where
  "cut_path stop [] = []"
| "cut_path stop (e # es) =
     e # (if stop = Some (te_id e) \<or> keeps_tail (te_body e) then [] else cut_path (stop_after (te_body e) stop) es)"

definition parent_ok :: "(string \<Rightarrow> tree_entry option) \<Rightarrow> string option \<Rightarrow> bool" where
  "parent_ok get parent \<longleftrightarrow> truthy parent \<longrightarrow> get (the parent) \<noteq> None"

lemma path_up_ancestry:
  "ancestry (js_get byId) e ps \<Longrightarrow> path_up byId stop e path = Some (Inr (rev (cut_path stop (e # ps)) @ path))"
proof (induction ps arbitrary: e stop path)
  case Nil
  then show ?case by (subst path_up.simps) simp
next
  case (Cons p ps)
  then show ?case by (subst path_up.simps) simp
qed

lemma ancestry_unique: "ancestry get e ps \<Longrightarrow> ancestry get e qs \<Longrightarrow> ps = qs"
proof (induction ps arbitrary: e qs)
  case Nil
  then show ?case by (cases qs) auto
next
  case (Cons p ps)
  then show ?case by (cases qs) auto
qed

lemma ancestry_mono:
  "ancestry get e ps \<Longrightarrow> (\<And>i x. get i = Some x \<Longrightarrow> get' i = Some x) \<Longrightarrow> ancestry get' e ps"
  by (induction ps arbitrary: e) auto

lemma ancestry_lookup: "ancestry get e ps \<Longrightarrow> p \<in> set ps \<Longrightarrow> \<exists>i. get i = Some p"
  by (induction ps arbitrary: e) auto

lemma cut_path_prefix: "\<exists>older. es = cut_path stop es @ older"
proof (induction stop es rule: cut_path.induct)
  case (2 stop e es)
  then show ?case by (cases "stop = Some (te_id e) \<or> keeps_tail (te_body e)") auto
qed simp

lemma cut_path_subset: "set (cut_path stop es) \<subseteq> set es"
  by (metis Un_upper1 cut_path_prefix set_append)

lemma stop_after_plain: "\<not> is_compaction b \<Longrightarrow> stop_after b stop = stop \<and> \<not> keeps_tail b"
  by (cases b) auto

lemma cut_path_plain:
  "(\<And>e. e \<in> set es \<Longrightarrow> \<not> is_compaction (te_body e)) \<Longrightarrow> cut_path None (es @ rest) = es @ cut_path None rest"
  by (induction es) (simp_all add: stop_after_plain)

section \<open>Well-formed storages\<close>

definition tree_wf :: "tree_storage \<Rightarrow> bool" where
  "tree_wf s \<longleftrightarrow>
     distinct (map te_id (ts_entries s)) \<and> '''' \<notin> te_id ` set (ts_entries s) \<and>
     new_tree_storage (ts_metadata s) (ts_entries s) = Inr s \<and>
     (\<forall>n < length (ts_entries s). truthy (te_parentId (ts_entries s ! n)) \<longrightarrow>
        the (te_parentId (ts_entries s ! n)) \<in> te_id ` set (take n (ts_entries s)))"

lemma new_tree_storage_Inr:
  "new_tree_storage metadata es = Inr s \<longleftrightarrow>
     s = \<lparr>ts_metadata = metadata, ts_entries = es, ts_byId = js_map_of (map (\<lambda>e. (te_id e, e)) es),
       ts_labelsById = buildLabelsById es, ts_leafId = foldl (\<lambda>_ e. leafIdAfterEntry e) None es\<rparr> \<and>
     (\<forall>i. foldl (\<lambda>_ e. leafIdAfterEntry e) None es = Some i \<longrightarrow> i \<in> te_id ` set es)"
  by (auto simp: new_tree_storage_def Let_def image_iff)

lemma tree_wf_fields:
  assumes "tree_wf s"
  shows "distinct (map te_id (ts_entries s))" "'''' \<notin> te_id ` set (ts_entries s)"
    and "ts_byId s = js_map_of (map (\<lambda>e. (te_id e, e)) (ts_entries s))"
    and "ts_labelsById s = buildLabelsById (ts_entries s)"
    and "ts_leafId s = foldl (\<lambda>_ e. leafIdAfterEntry e) None (ts_entries s)"
    and "ts_leafId s = Some i \<Longrightarrow> i \<in> te_id ` set (ts_entries s)"
proof -
  let ?es = "ts_entries s"
  show "distinct (map te_id ?es)" "'''' \<notin> te_id ` set ?es" using assms by (simp_all add: tree_wf_def)
  have s: "s = \<lparr>ts_metadata = ts_metadata s, ts_entries = ?es, ts_byId = js_map_of (map (\<lambda>e. (te_id e, e)) ?es),
       ts_labelsById = buildLabelsById ?es, ts_leafId = foldl (\<lambda>_ e. leafIdAfterEntry e) None ?es\<rparr>"
    and leaf: "\<forall>i. foldl (\<lambda>_ e. leafIdAfterEntry e) None ?es = Some i \<longrightarrow> i \<in> te_id ` set ?es"
    using assms unfolding tree_wf_def new_tree_storage_Inr by blast+
  show "ts_byId s = js_map_of (map (\<lambda>e. (te_id e, e)) ?es)" by (subst s) (simp only: tree_storage.select_convs)
  show "ts_labelsById s = buildLabelsById ?es" by (subst s) (simp only: tree_storage.select_convs)
  show l: "ts_leafId s = foldl (\<lambda>_ e. leafIdAfterEntry e) None ?es" by (subst s) (simp only: tree_storage.select_convs)
  show "ts_leafId s = Some i \<Longrightarrow> i \<in> te_id ` set ?es" using leaf l by simp
qed

lemma js_get_entries:
  "distinct (map te_id es) \<Longrightarrow> js_get (js_map_of (map (\<lambda>e. (te_id e, e)) es)) i = Some e \<longleftrightarrow> e \<in> set es \<and> te_id e = i"
proof -
  assume d: "distinct (map te_id es)"
  have "map_of (rev (map (\<lambda>e. (te_id e, e)) es)) i = Some e \<longleftrightarrow> (i, e) \<in> set (rev (map (\<lambda>e. (te_id e, e)) es))"
    by (rule map_of_eq_Some_iff) (use d in \<open>simp add: rev_map [symmetric] o_def\<close>)
  then show ?thesis by (auto simp: js_get_map_of)
qed

lemma tree_get: "tree_wf s \<Longrightarrow> js_get (ts_byId s) i = Some e \<longleftrightarrow> e \<in> set (ts_entries s) \<and> te_id e = i"
  by (simp add: tree_wf_fields(1,3) js_get_entries)

lemma tree_get_None: "tree_wf s \<Longrightarrow> js_get (ts_byId s) i = None \<longleftrightarrow> i \<notin> te_id ` set (ts_entries s)"
  by (auto simp: tree_wf_fields(3) js_get_None_iff image_iff)

lemma tree_has: "tree_wf s \<Longrightarrow> js_has (ts_byId s) i \<longleftrightarrow> i \<in> te_id ` set (ts_entries s)"
  by (simp add: js_has_iff_get tree_get_None)

lemma entry_has_ancestry:
  assumes "tree_wf s" "n < length (ts_entries s)"
  shows "\<exists>ps. ancestry (js_get (ts_byId s)) (ts_entries s ! n) ps"
  using assms(2)
proof (induction n rule: less_induct)
  case (less n)
  let ?e = "ts_entries s ! n"
  show ?case
  proof (cases "truthy (te_parentId ?e)")
    case True
    then have "the (te_parentId ?e) \<in> te_id ` set (take n (ts_entries s))"
      using assms(1) less.prems by (simp add: tree_wf_def)
    then obtain m where m: "m < n" "te_id (ts_entries s ! m) = the (te_parentId ?e)"
      using less.prems by (auto simp: in_set_conv_nth)
    with less.prems have "m < length (ts_entries s)" by simp
    with m less.IH obtain ps where "ancestry (js_get (ts_byId s)) (ts_entries s ! m) ps" by blast
    moreover have "js_get (ts_byId s) (the (te_parentId ?e)) = Some (ts_entries s ! m)"
      using assms(1) m \<open>m < length (ts_entries s)\<close> by (simp add: tree_get)
    ultimately have "ancestry (js_get (ts_byId s)) ?e (ts_entries s ! m # ps)" using True by simp
    then show ?thesis ..
  next
    case False
    then have "ancestry (js_get (ts_byId s)) ?e []" by simp
    then show ?thesis ..
  qed
qed

lemma tree_path:
  assumes "tree_wf s" "js_get (ts_byId s) i = Some e"
  shows "\<exists>ps. ancestry (js_get (ts_byId s)) e ps \<and>
    getPathToRootOrCompaction s (Some i) = Some (Inr (rev (cut_path None (e # ps))))"
proof -
  from assms obtain n where "n < length (ts_entries s)" "ts_entries s ! n = e"
    by (auto simp: tree_get in_set_conv_nth)
  then obtain ps where "ancestry (js_get (ts_byId s)) e ps" using entry_has_ancestry [OF assms(1)] by blast
  with assms(2) show ?thesis by (auto simp: getPathToRootOrCompaction_def path_up_ancestry)
qed

section \<open>Operations keep storages well-formed\<close>

lemma tree_push_wf:
  assumes wf: "tree_wf s" and new: "te_id e \<notin> te_id ` set (ts_entries s)" "te_id e \<noteq> ''''"
    and parent: "parent_ok (js_get (ts_byId s)) (te_parentId e)"
    and leaf: "\<And>i. leafIdAfterEntry e = Some i \<Longrightarrow> i = te_id e \<or> i \<in> te_id ` set (ts_entries s)"
  shows "tree_wf ((tree_push s e)\<lparr>ts_labelsById := updateLabelCache (ts_labelsById s) e, ts_leafId := leafIdAfterEntry e\<rparr>)"
proof -
  note f = tree_wf_fields [OF wf]
  let ?es = "ts_entries s"
  have "the (te_parentId ((?es @ [e]) ! n)) \<in> te_id ` set (take n (?es @ [e]))"
    if "n < length (?es @ [e])" "truthy (te_parentId ((?es @ [e]) ! n))" for n
  proof (cases "n = length ?es")
    case True
    then show ?thesis using that parent wf by (simp add: parent_ok_def tree_get_None)
  next
    case False
    then show ?thesis using that wf by (simp add: tree_wf_def nth_append)
  qed
  moreover have "new_tree_storage (ts_metadata s) (?es @ [e]) =
      Inr ((tree_push s e)\<lparr>ts_labelsById := updateLabelCache (ts_labelsById s) e, ts_leafId := leafIdAfterEntry e\<rparr>)"
    unfolding new_tree_storage_Inr using leaf
    by (auto simp: tree_push_def f(3,4) js_map_of_snoc buildLabelsById_def)
  ultimately show ?thesis
    using new f(1,2) by (auto simp: tree_wf_def tree_push_def)
qed

lemma tree_push_get [simp]: "js_get (ts_byId (tree_push s e)) = (js_get (ts_byId s))(te_id e \<mapsto> e)"
  by (auto simp: tree_push_def)

lemma updateLabelCache_leaf: "te_body e = TreeLeaf t \<Longrightarrow> updateLabelCache labels e = labels"
  by (simp add: updateLabelCache_def)

lemma leafIdAfterEntry_body: "te_body e = TreeLeaf t \<Longrightarrow> leafIdAfterEntry e = t"
  by (simp add: leafIdAfterEntry_def)

lemma tree_leaf: "tree_wf s \<Longrightarrow> tree_getLeafId s = Inr (ts_leafId s)"
  using tree_wf_fields(6) [of s] by (cases "ts_leafId s") (simp_all add: tree_getLeafId_def tree_has)

lemma tree_leaf_ok: "tree_wf s \<Longrightarrow> parent_ok (js_get (ts_byId s)) (ts_leafId s)"
  using tree_wf_fields(6) [of s] by (auto simp: parent_ok_def truthy_def tree_get_None split: option.splits)

text \<open>The ids that \<^verbatim>\<open>generateEntryId\<close> may return, when the full id of the last resort is new.\<close>

definition ids_usable :: "(string \<Rightarrow> tree_entry option) \<Rightarrow> (nat \<Rightarrow> string) \<Rightarrow> bool" where
  "ids_usable get uuid \<longleftrightarrow> get (uuid 100) = None \<and> (\<forall>i. uuid i \<noteq> '''')"

lemma short_id_not_Nil: "s \<noteq> [] \<Longrightarrow> short_id s \<noteq> []"
  by (cases s) (auto simp: short_id_def)

lemma generated_id_new:
  "ids_usable (js_get byId) uuid \<Longrightarrow> js_get byId (generateEntryId byId uuid) = None \<and> generateEntryId byId uuid \<noteq> ''''"
proof -
  assume u: "ids_usable (js_get byId) uuid"
  have found: "List.find P xs = Some i \<Longrightarrow> P i" for P :: "nat \<Rightarrow> bool" and xs i
    by (induction xs) (auto split: if_splits)
  show ?thesis
    using u found [of "\<lambda>i. \<not> js_has byId (short_id (uuid i))" "[0..<100]"]
    by (auto simp: generateEntryId_def ids_usable_def js_get_None_iff short_id_not_Nil split: option.split)
qed

section \<open>The contract of a storage\<close>

fun is_leaf_body :: "tree_body \<Rightarrow> bool" where
  "is_leaf_body (TreeLeaf _) \<longleftrightarrow> True"
| "is_leaf_body _ \<longleftrightarrow> False"

text \<open>All entries on the way from the leaf to the root, newest first.\<close>

definition leaf_chain :: "'s tree_ops \<Rightarrow> 's \<Rightarrow> tree_entry list \<Rightarrow> bool" where
  "leaf_chain ops s es \<longleftrightarrow> (case to_getLeafId ops s of
      Inl _ \<Rightarrow> False
    | Inr None \<Rightarrow> es = []
    | Inr (Some i) \<Rightarrow> (\<exists>e ps. to_getEntry ops s i = Some e \<and> ancestry (to_getEntry ops s) e ps \<and> es = e # ps))"

text \<open>Appends one after the other.\<close>

fun append_all :: "'s tree_ops \<Rightarrow> 's \<Rightarrow> ((nat \<Rightarrow> string) \<times> int \<times> tree_body) list \<Rightarrow> 's \<times> (tree_error + unit)" where
  "append_all ops s [] = (s, Inr ())"
| "append_all ops s ((uuid, now, body) # xs) =
     st_then (append_below_leaf ops s uuid now body) (\<lambda>s _. append_all ops s xs)"

fun all_usable :: "'s tree_ops \<Rightarrow> 's \<Rightarrow> ((nat \<Rightarrow> string) \<times> int \<times> tree_body) list \<Rightarrow> bool" where
  "all_usable ops s [] \<longleftrightarrow> True"
| "all_usable ops s ((uuid, now, body) # xs) \<longleftrightarrow>
     ids_usable (to_getEntry ops s) uuid \<and> \<not> is_leaf_body body \<and> all_usable ops (fst (append_below_leaf ops s uuid now body)) xs"

locale tree_store =
  fixes ops :: "'s tree_ops"
    and inv :: "'s \<Rightarrow> bool"
  assumes leaf_known:
      "inv s \<Longrightarrow> \<exists>leaf. to_getLeafId ops s = Inr leaf \<and> (\<forall>i. leaf = Some i \<longrightarrow> to_getEntry ops s i \<noteq> None)"
    and entry_id: "inv s \<Longrightarrow> to_getEntry ops s i = Some e \<Longrightarrow> te_id e = i \<and> i \<noteq> ''''"
    and new_id:
      "inv s \<Longrightarrow> ids_usable (to_getEntry ops s) uuid \<Longrightarrow>
         to_getEntry ops s (to_createEntryId ops s uuid) = None \<and> to_createEntryId ops s uuid \<noteq> ''''"
    and append_done:
      "inv s \<Longrightarrow> to_getEntry ops s (te_id e) = None \<Longrightarrow> te_id e \<noteq> '''' \<Longrightarrow> parent_ok (to_getEntry ops s) (te_parentId e) \<Longrightarrow>
         \<not> is_leaf_body (te_body e) \<Longrightarrow> to_appendEntry ops s e = (s', Inr u) \<Longrightarrow>
         inv s' \<and> to_getLeafId ops s' = Inr (Some (te_id e)) \<and> to_getEntry ops s' = (to_getEntry ops s)(te_id e \<mapsto> e)"
    and append_failed:
      "inv s \<Longrightarrow> to_appendEntry ops s e = (s', Inl err) \<Longrightarrow>
         inv s' \<and> to_getLeafId ops s' = to_getLeafId ops s \<and> to_getEntry ops s' = to_getEntry ops s"
    and set_leaf_done:
      "inv s \<Longrightarrow> ids_usable (to_getEntry ops s) uuid \<Longrightarrow> to_setLeafId ops s uuid now leaf = (s', Inr u) \<Longrightarrow>
         inv s' \<and> to_getLeafId ops s' = Inr leaf \<and>
         (\<exists>e. to_getEntry ops s (te_id e) = None \<and> to_getEntry ops s' = (to_getEntry ops s)(te_id e \<mapsto> e))"
    and set_leaf_failed:
      "inv s \<Longrightarrow> to_setLeafId ops s uuid now leaf = (s', Inl err) \<Longrightarrow>
         inv s' \<and> to_getLeafId ops s' = to_getLeafId ops s \<and> to_getEntry ops s' = to_getEntry ops s"
    and path_none: "to_getPath ops s None = Some (Inr [])"
    and path_some:
      "inv s \<Longrightarrow> to_getEntry ops s i = Some e \<Longrightarrow>
         \<exists>ps. ancestry (to_getEntry ops s) e ps \<and> to_getPath ops s (Some i) = Some (Inr (rev (cut_path None (e # ps))))"
    and path_missing: "to_getEntry ops s i = None \<Longrightarrow> to_getPath ops s (Some i) = Some (Inl TreeNotFound)"
begin

lemma leaf_chain_exists: "inv s \<Longrightarrow> \<exists>es. leaf_chain ops s es"
proof -
  assume inv: "inv s"
  then obtain leaf where leaf: "to_getLeafId ops s = Inr leaf" "\<forall>i. leaf = Some i \<longrightarrow> to_getEntry ops s i \<noteq> None"
    using leaf_known by blast
  show ?thesis
  proof (cases leaf)
    case (Some i)
    then obtain e where "to_getEntry ops s i = Some e" using leaf(2) by auto
    with path_some [OF inv this] show ?thesis by (auto simp: leaf_chain_def leaf(1) Some)
  qed (simp add: leaf_chain_def leaf(1))
qed

lemma branch_of_chain:
  assumes "inv s" "leaf_chain ops s es"
  shows "getBranch ops s None = Some (Inr (rev (cut_path None es)))"
proof (cases es)
  case Nil
  then show ?thesis using assms(2) by (auto simp: leaf_chain_def getBranch_def path_none split: sum.splits option.splits)
next
  case (Cons e ps)
  with assms(2) obtain i where i: "to_getLeafId ops s = Inr (Some i)" "to_getEntry ops s i = Some e" "ancestry (to_getEntry ops s) e ps"
    by (auto simp: leaf_chain_def split: sum.splits option.splits)
  from path_some [OF assms(1) i(2)] i(3) have "to_getPath ops s (Some i) = Some (Inr (rev (cut_path None (e # ps))))"
    using ancestry_unique by blast
  then show ?thesis by (simp add: getBranch_def i(1) Cons)
qed

lemma branch_total: "inv s \<Longrightarrow> \<exists>path. getBranch ops s None = Some (Inr path)"
  using leaf_chain_exists branch_of_chain by blast

lemma append_cases:
  assumes "inv s" "ids_usable (to_getEntry ops s) uuid" "\<not> is_leaf_body body" "leaf_chain ops s es"
    and "append_below_leaf ops s uuid now body = (s', Inr i)"
  shows "inv s' \<and> (\<exists>e. leaf_chain ops s' (e # es) \<and> te_body e = body \<and> te_id e = i \<and> te_timestamp e = now \<and>
    to_getEntry ops s i = None \<and> to_getEntry ops s' = (to_getEntry ops s)(i \<mapsto> e))"
proof -
  obtain leaf where leaf: "to_getLeafId ops s = Inr leaf" "\<forall>i. leaf = Some i \<longrightarrow> to_getEntry ops s i \<noteq> None"
    using leaf_known [OF assms(1)] by blast
  define e where "e = \<lparr>te_id = to_createEntryId ops s uuid, te_parentId = leaf, te_timestamp = now, te_body = body\<rparr>"
  obtain u where app: "to_appendEntry ops s e = (s', Inr u)" and i: "i = te_id e"
    using assms(5) leaf(1) by (auto simp: append_below_leaf_def e_def Let_def st_then_def split: prod.splits sum.splits)
  have new: "to_getEntry ops s (te_id e) = None" "te_id e \<noteq> ''''" using new_id [OF assms(1,2)] by (simp_all add: e_def)
  have parent: "parent_ok (to_getEntry ops s) (te_parentId e)" using leaf(2) by (auto simp: parent_ok_def truthy_def e_def split: option.splits)
  have s': "inv s'" "to_getLeafId ops s' = Inr (Some (te_id e))" "to_getEntry ops s' = (to_getEntry ops s)(te_id e \<mapsto> e)"
    using append_done [OF assms(1) new parent _ app] assms(3) by (simp_all add: e_def)
  have mono: "to_getEntry ops s j = Some x \<Longrightarrow> to_getEntry ops s' j = Some x" for j x
    using new(1) by (auto simp: s'(3))
  have "ancestry (to_getEntry ops s') e es"
  proof (cases leaf)
    case None
    then show ?thesis using assms(4) leaf(1) by (simp add: leaf_chain_def e_def truthy_def)
  next
    case (Some j)
    then obtain p ps where p: "to_getEntry ops s j = Some p" "ancestry (to_getEntry ops s) p ps" "es = p # ps"
      using assms(4) leaf(1) by (auto simp: leaf_chain_def)
    then show ?thesis
      using entry_id [OF assms(1) p(1)] mono ancestry_mono [OF p(2) mono] Some by (auto simp: e_def truthy_def)
  qed
  then have "leaf_chain ops s' (e # es)" using s' by (simp add: leaf_chain_def)
  then show ?thesis using s' new i by (auto simp: e_def)
qed

lemma append_all_chain:
  assumes "inv s" "all_usable ops s xs" "leaf_chain ops s es" "append_all ops s xs = (s', Inr u)"
  shows "inv s' \<and> (\<exists>new. leaf_chain ops s' (rev new @ es) \<and> map te_body new = map (snd \<circ> snd) xs \<and>
    map te_timestamp new = map (fst \<circ> snd) xs \<and> (\<forall>e \<in> set new. to_getEntry ops s (te_id e) = None))"
  using assms
proof (induction xs arbitrary: s es)
  case Nil
  then show ?case by (auto intro: exI [of _ "[]"])
next
  case (Cons x xs)
  obtain uuid now body where x: "x = (uuid, now, body)" by (cases x)
  obtain s1 r where step: "append_below_leaf ops s uuid now body = (s1, r)" by fastforce
  with Cons.prems(4) x obtain i where r: "r = Inr i" and rest: "append_all ops s1 xs = (s', Inr u)"
    by (cases r) auto
  have usable: "ids_usable (to_getEntry ops s) uuid" "\<not> is_leaf_body body" "all_usable ops s1 xs"
    using Cons.prems(2) x step by auto
  from append_cases [OF Cons.prems(1) usable(1,2) Cons.prems(3) step [unfolded r]] obtain e where e: "inv s1"
    "leaf_chain ops s1 (e # es)" "te_body e = body" "te_id e = i" "te_timestamp e = now" "to_getEntry ops s i = None"
    "to_getEntry ops s1 = (to_getEntry ops s)(i \<mapsto> e)"
    by blast
  from Cons.IH [OF e(1) usable(3) e(2) rest] obtain new where new: "inv s'" "leaf_chain ops s' (rev new @ e # es)"
    "map te_body new = map (snd \<circ> snd) xs" "map te_timestamp new = map (fst \<circ> snd) xs" "\<forall>e \<in> set new. to_getEntry ops s1 (te_id e) = None"
    by blast
  have "\<forall>e' \<in> set (e # new). to_getEntry ops s (te_id e') = None" using new(5) e by (auto split: if_splits)
  then show ?case using new e x by (intro conjI exI [of _ "e # new"]) auto
qed

text \<open>The branch after a compaction that carries the messages it retains: the compaction and what came after it.\<close>

lemma branch_after_tail:
  assumes "inv s" "ids_usable (to_getEntry ops s) uuid"
    and "session_appendCompaction ops s uuid now summary firstKept tokens details fromHook u (Some tail) = (s1, Inr i)"
    and "all_usable ops s1 xs" "\<forall>x \<in> set xs. \<not> is_compaction (snd (snd x))" "append_all ops s1 xs = (s2, Inr v)"
  shows "\<exists>c new. getBranch ops s2 None = Some (Inr (c # new)) \<and> te_id c = i \<and> te_timestamp c = now \<and>
    te_body c = TreeCompaction summary firstKept tokens (Some tail) details u fromHook \<and> map te_body new = map (snd \<circ> snd) xs \<and>
    (\<forall>e \<in> set (c # new). to_getEntry ops s (te_id e) = None)"
proof -
  obtain es where es: "leaf_chain ops s es" using leaf_chain_exists [OF assms(1)] by blast
  from append_cases [OF assms(1,2) _ es assms(3) [unfolded session_appendCompaction_def]] obtain c where c: "inv s1"
    "leaf_chain ops s1 (c # es)" "te_body c = TreeCompaction summary firstKept tokens (Some tail) details u fromHook"
    "te_id c = i" "te_timestamp c = now" "to_getEntry ops s i = None" "to_getEntry ops s1 = (to_getEntry ops s)(i \<mapsto> c)"
    by auto
  from append_all_chain [OF c(1) assms(4) c(2) assms(6)] obtain new where new: "inv s2" "leaf_chain ops s2 (rev new @ c # es)"
    "map te_body new = map (snd \<circ> snd) xs" "\<forall>e \<in> set new. to_getEntry ops s1 (te_id e) = None"
    by blast
  have "\<not> is_compaction (te_body e)" if "e \<in> set new" for e
  proof -
    have "te_body e \<in> set (map (snd \<circ> snd) xs)" using that new(3) [symmetric] by simp
    then show ?thesis using assms(5) by auto
  qed
  then have "cut_path None (rev new @ c # es) = rev new @ [c]"
    using c(3) by (subst cut_path_plain) auto
  moreover have "\<forall>e \<in> set (c # new). to_getEntry ops s (te_id e) = None" using new(4) c(4,6,7) by (auto split: if_splits)
  ultimately show ?thesis using branch_of_chain [OF new(1,2)] new(3) c by auto
qed

end

section \<open>The storage in memory meets the contract\<close>

lemma memory_append:
  assumes "tree_wf s" "js_get (ts_byId s) (te_id e) = None" "te_id e \<noteq> ''''" "parent_ok (js_get (ts_byId s)) (te_parentId e)"
    and "\<not> is_leaf_body (te_body e)"
  shows "tree_wf (fst (tree_appendEntry s e)) \<and> ts_leafId (fst (tree_appendEntry s e)) = Some (te_id e)"
proof -
  have "leafIdAfterEntry e = Some (te_id e)" using assms(5) by (cases "te_body e") (simp_all add: leafIdAfterEntry_def)
  then show ?thesis
    using tree_push_wf [OF assms(1) _ assms(3,4)] assms(1,2) by (simp add: tree_appendEntry_def tree_get_None)
qed

lemma memory_set_leaf:
  assumes "tree_wf s" "ids_usable (js_get (ts_byId s)) uuid" "tree_setLeafId s uuid now leaf = (s', Inr u)"
  shows "tree_wf s' \<and> ts_leafId s' = leaf \<and>
    (\<exists>e. js_get (ts_byId s) (te_id e) = None \<and> js_get (ts_byId s') = (js_get (ts_byId s))(te_id e \<mapsto> e))"
proof -
  define e where "e = \<lparr>te_id = tree_createEntryId s uuid, te_parentId = ts_leafId s, te_timestamp = now, te_body = TreeLeaf leaf\<rparr>"
  have known: "leaf = Some i \<Longrightarrow> i \<in> te_id ` set (ts_entries s)" for i
    using assms(1,3) by (auto simp: tree_setLeafId_def tree_has split: if_splits)
  have s': "s' = (tree_push s e)\<lparr>ts_labelsById := updateLabelCache (ts_labelsById s) e, ts_leafId := leafIdAfterEntry e\<rparr>"
    using assms(3) updateLabelCache_leaf [of e leaf] leafIdAfterEntry_body [of e leaf]
    by (auto simp: tree_setLeafId_def e_def tree_push_def Let_def split: if_splits)
  have new: "js_get (ts_byId s) (te_id e) = None" "te_id e \<noteq> ''''"
    using generated_id_new [OF assms(2)] by (simp_all add: e_def tree_createEntryId_def)
  have "tree_wf s'"
    unfolding s'
  proof (rule tree_push_wf [OF assms(1) _ new(2)])
    show "te_id e \<notin> te_id ` set (ts_entries s)" using new(1) assms(1) by (simp add: tree_get_None)
    show "parent_ok (js_get (ts_byId s)) (te_parentId e)" using tree_leaf_ok [OF assms(1)] by (simp add: e_def)
    show "\<And>i. leafIdAfterEntry e = Some i \<Longrightarrow> i = te_id e \<or> i \<in> te_id ` set (ts_entries s)"
      using known by (simp add: leafIdAfterEntry_def e_def)
  qed
  moreover have "ts_leafId s' = leaf" by (simp add: s' leafIdAfterEntry_def e_def)
  moreover have "js_get (ts_byId s') = (js_get (ts_byId s))(te_id e \<mapsto> e)" by (simp add: s')
  ultimately show ?thesis using new(1) by blast
qed

lemma tree_getEntry_eq: "tree_getEntry s = js_get (ts_byId s)"
  by (simp add: fun_eq_iff tree_getEntry_def)

interpretation mem: tree_store memory_tree_ops tree_wf
proof (unfold_locales, goal_cases)
  case (1 s)
  then show ?case using tree_wf_fields(6) [of s] by (auto simp: memory_tree_ops_def tree_leaf tree_getEntry_eq tree_get_None)
next
  case (2 s i e)
  then show ?case using tree_wf_fields(2) [of s] by (force simp: memory_tree_ops_def tree_getEntry_eq tree_get)
next
  case (3 s uuid)
  then show ?case using generated_id_new by (auto simp: memory_tree_ops_def tree_getEntry_eq tree_createEntryId_def)
next
  case (4 s e s' u)
  then show ?case
    using memory_append [of s e] tree_leaf [of s']
    by (auto simp: memory_tree_ops_def tree_getEntry_eq tree_appendEntry_def)
next
  case (5 s e s' err)
  then show ?case by (simp add: memory_tree_ops_def tree_appendEntry_def)
next
  case (6 s uuid now leaf s' u)
  then show ?case
    using memory_set_leaf [of s uuid now leaf s' u] tree_leaf [of s'] by (simp add: memory_tree_ops_def tree_getEntry_eq)
next
  case (7 s uuid now leaf s' err)
  then show ?case by (auto simp: memory_tree_ops_def tree_setLeafId_def Let_def split: if_splits)
next
  case (8 s)
  then show ?case by (simp add: memory_tree_ops_def getPathToRootOrCompaction_def)
next
  case (9 s i e)
  then show ?case using tree_path by (simp add: memory_tree_ops_def tree_getEntry_eq)
next
  case (10 s i)
  then show ?case by (simp add: memory_tree_ops_def tree_getEntry_eq getPathToRootOrCompaction_def)
qed

section \<open>The context of a shortened branch\<close>

lemma find_in: "List.find P xs = Some x \<Longrightarrow> x \<in> set xs \<and> P x"
  by (induction xs) (auto split: if_splits)

lemma find_none: "List.find P xs = None \<longleftrightarrow> (\<forall>x \<in> set xs. \<not> P x)"
  by (induction xs) auto

lemma find_append: "List.find P (xs @ ys) = (case List.find P xs of None \<Rightarrow> List.find P ys | Some x \<Rightarrow> Some x)"
  by (induction xs) auto

lemma index_where_none: "\<forall>x \<in> set xs. \<not> P x \<Longrightarrow> index_where P xs = None"
  by (auto simp: index_where_def find_none dest: nth_mem)

lemma index_where_append: "\<forall>x \<in> set xs. \<not> P x \<Longrightarrow> P y \<Longrightarrow> index_where P (xs @ y # ys) = Some (length xs)"
proof -
  assume "\<forall>x \<in> set xs. \<not> P x" "P y"
  have "[0..<length (xs @ y # ys)] = [0..<length xs] @ length xs # [Suc (length xs)..<length (xs @ y # ys)]"
    using upt_add_eq_append [of 0 "length xs" "Suc (length ys)"] by (simp add: upt_conv_Cons del: upt_Suc)
  moreover have "List.find (\<lambda>i. P ((xs @ y # ys) ! i)) [0..<length xs] = None"
    using \<open>\<forall>x \<in> set xs. \<not> P x\<close> by (auto simp: find_none nth_append)
  ultimately show ?thesis using \<open>P y\<close> by (simp add: index_where_def find_append)
qed

lemma last_compaction_none: "\<forall>e \<in> set es. \<not> is_compaction (te_body e) \<Longrightarrow> last_compaction es = None"
  by (induction es) auto

lemma last_compaction_append:
  "is_compaction (te_body c) \<Longrightarrow> \<forall>e \<in> set post. \<not> is_compaction (te_body e) \<Longrightarrow> last_compaction (pre @ c # post) = Some c"
  by (induction pre) (auto simp: last_compaction_none)

lemma transform_at_compaction:
  assumes "te_body c = TreeCompaction summary k tokens tail details u hook" "\<forall>e \<in> set post. \<not> is_compaction (te_body e)"
    and "te_id c \<notin> te_id ` set pre"
  shows "treeContextEntryTransform (pre @ c # post) =
    c # (if tail = None \<and> truthy k then dropWhile (\<lambda>e. te_id e \<noteq> the k) pre else []) @ post"
proof -
  have "is_compaction (te_body c)" using assms(1) by simp
  moreover have "index_where (\<lambda>e. is_compaction (te_body e) \<and> te_id e = te_id c) (pre @ c # post) = Some (length pre)"
    using assms by (intro index_where_append) (auto simp: image_iff)
  ultimately show ?thesis
    using assms(1) last_compaction_append [of c post pre] assms(2) by (simp add: treeContextEntryTransform_def Let_def)
qed

text \<open>
  What compactions that carry no messages have to respect: between such a compaction and the first entry it keeps, no compaction
  carries messages, and none keeps fewer entries. Both lists are newest first. The compactions that the harness computes
  itself carry their messages, and for them there is no condition; a hook may supply one without, and the code does not
  check that it satisfies the condition.
\<close>

definition reaches_back :: "tree_entry list \<Rightarrow> string \<Rightarrow> bool" where
  "reaches_back es k \<longleftrightarrow>
     (let newer = takeWhile (\<lambda>e. te_id e \<noteq> k) es in
      newer = es \<or> (\<forall>c \<in> set newer. \<not> keeps_tail (te_body c) \<and> stop_after (te_body c) None \<notin> Some ` te_id ` set newer))"

fun nested_compactions :: "tree_entry list \<Rightarrow> bool" where
  "nested_compactions [] \<longleftrightarrow> True"
| "nested_compactions (e # es) \<longleftrightarrow> (case te_body e of
      TreeCompaction _ k _ tail _ _ _ \<Rightarrow> tail = None \<and> truthy k \<longrightarrow> reaches_back es (the k)
    | _ \<Rightarrow> nested_compactions es)"

lemma cut_path_reaches:
  assumes "\<forall>c \<in> set newer. \<not> keeps_tail (te_body c) \<and> stop_after (te_body c) None \<notin> Some ` te_id ` set all_newer"
    and "stop \<notin> Some ` te_id ` set all_newer" "set newer \<subseteq> set all_newer"
  shows "\<exists>stop'. cut_path stop (newer @ rest) = newer @ cut_path stop' rest"
  using assms
proof (induction newer arbitrary: stop)
  case Nil
  then show ?case by auto
next
  case (Cons e newer)
  have "stop_after (te_body e) stop \<notin> Some ` te_id ` set all_newer"
    using Cons.prems by (cases "te_body e") auto
  with Cons.IH [of "stop_after (te_body e) stop"] Cons.prems show ?case by auto
qed

lemma dropWhile_found: "\<forall>x \<in> set xs. P x \<Longrightarrow> \<not> P y \<Longrightarrow> dropWhile P (xs @ y # ys) = y # ys"
  by (simp add: dropWhile_append2)

lemma kept_entries_found:
  assumes "reaches_back es k" "distinct (map te_id es)"
  shows "dropWhile (\<lambda>e. te_id e \<noteq> k) (rev (cut_path (Some k) es)) = dropWhile (\<lambda>e. te_id e \<noteq> k) (rev es)"
proof -
  let ?newer = "takeWhile (\<lambda>e. te_id e \<noteq> k) es"
  show ?thesis
  proof (cases "?newer = es")
    case True
    then have none: "\<forall>e \<in> set es. te_id e \<noteq> k" by (metis set_takeWhileD)
    then have "\<forall>e \<in> set (cut_path (Some k) es). te_id e \<noteq> k" using cut_path_subset by blast
    then have "dropWhile (\<lambda>e. te_id e \<noteq> k) (rev (cut_path (Some k) es)) = []" by (simp add: dropWhile_eq_Nil_conv)
    moreover have "dropWhile (\<lambda>e. te_id e \<noteq> k) (rev es) = []" using none by (simp add: dropWhile_eq_Nil_conv)
    ultimately show ?thesis by (rule trans [OF _ sym])
  next
    case False
    then obtain f older where es: "es = ?newer @ f # older" and f: "te_id f = k"
      by (metis (mono_tags, lifting) append.right_neutral dropWhile_eq_Cons_conv list.exhaust takeWhile_dropWhile_id)
    have ok: "\<forall>c \<in> set ?newer. \<not> keeps_tail (te_body c) \<and> stop_after (te_body c) None \<notin> Some ` te_id ` set ?newer"
      using assms(1) False by (auto simp: reaches_back_def Let_def)
    have new: "Some k \<notin> Some ` te_id ` set ?newer" by (auto dest: set_takeWhileD)
    from cut_path_reaches [OF ok new order.refl, of "f # older"] obtain stop where "cut_path (Some k) es = ?newer @ cut_path stop (f # older)"
      using es by auto
    then obtain rest where cut: "cut_path (Some k) es = ?newer @ f # rest" and rest: "set rest \<subseteq> set older"
      using cut_path_subset [of "stop_after (te_body f) stop" older] by (cases "stop = Some (te_id f) \<or> keeps_tail (te_body f)") auto
    have "distinct (map te_id (?newer @ f # older))" using assms(2) es by simp
    then have older: "\<forall>e \<in> set (rev older). te_id e \<noteq> k" using f by (auto simp: image_iff)
    then have "\<forall>e \<in> set (rev rest). te_id e \<noteq> k" using rest by auto
    with older have "dropWhile (\<lambda>e. te_id e \<noteq> k) (rev older @ f # rev ?newer) = f # rev ?newer"
      "dropWhile (\<lambda>e. te_id e \<noteq> k) (rev rest @ f # rev ?newer) = f # rev ?newer"
      using f by (simp_all add: dropWhile_found)
    moreover have "rev es = rev older @ f # rev ?newer" using arg_cong [OF es, of rev] by simp
    ultimately show ?thesis using cut by simp
  qed
qed

lemma split_last_compaction:
  obtains "\<forall>e \<in> set es. \<not> is_compaction (te_body e)"
  | newer c older where "es = newer @ c # older" "is_compaction (te_body c)" "\<forall>e \<in> set newer. \<not> is_compaction (te_body e)"
  using split_list_first_prop [of es "\<lambda>e. is_compaction (te_body e)"] by blast

lemma nested_compactions_append:
  "\<forall>e \<in> set newer. \<not> is_compaction (te_body e) \<Longrightarrow> nested_compactions (newer @ es) \<longleftrightarrow> nested_compactions es"
  by (induction newer) (auto split: tree_body.splits)

lemma transform_cut_path:
  assumes "distinct (map te_id es)" "nested_compactions es"
  shows "treeContextEntryTransform (rev (cut_path None es)) = treeContextEntryTransform (rev es)"
proof (cases rule: split_last_compaction [of es])
  case 1
  then show ?thesis using cut_path_plain [of es "[]"] by simp
next
  case (2 newer c older)
  obtain summary k tokens tail details u hook where c: "te_body c = TreeCompaction summary k tokens tail details u hook"
    using 2(2) by (cases "te_body c") auto
  have cut: "cut_path None es = newer @ c # (if tail \<noteq> None then [] else cut_path k older)"
    using 2 c by (simp add: cut_path_plain)
  have new: "te_id c \<notin> te_id ` set (rev older)" using assms(1) 2(1) by auto
  have sub: "set (if tail \<noteq> None then [] else cut_path k older) \<subseteq> set older"
    using cut_path_subset by auto
  then have new': "te_id c \<notin> te_id ` set (rev (if tail \<noteq> None then [] else cut_path k older))" using new by auto
  have plain: "\<forall>e \<in> set (rev newer). \<not> is_compaction (te_body e)" using 2(3) by simp
  have kept: "dropWhile (\<lambda>e. te_id e \<noteq> the k) (rev (cut_path k older)) = dropWhile (\<lambda>e. te_id e \<noteq> the k) (rev older)"
    if "tail = None" "truthy k"
  proof -
    have "k = Some (the k)" using that(2) by (auto simp: truthy_def split: option.splits)
    moreover have "reaches_back older (the k)"
      using assms(2) 2 c that by (simp add: nested_compactions_append)
    moreover have "distinct (map te_id older)" using assms(1) 2(1) by simp
    ultimately show ?thesis using kept_entries_found by metis
  qed
  show ?thesis
    using transform_at_compaction [OF c plain new] transform_at_compaction [OF c plain new'] kept
    unfolding cut by (cases tail) (simp_all add: 2(1))
qed

section \<open>Sessions built by their operations\<close>

lemma ancestry_older:
  assumes "tree_wf s"
  shows "ancestry (js_get (ts_byId s)) (ts_entries s ! n) ps \<Longrightarrow> n < length (ts_entries s) \<Longrightarrow>
    set ps \<subseteq> set (take n (ts_entries s)) \<and> distinct (map te_id ps)"
proof (induction ps arbitrary: n)
  case (Cons p ps)
  let ?es = "ts_entries s"
  have d: "distinct (map te_id ?es)" by (rule tree_wf_fields(1) [OF assms])
  from Cons.prems have p: "truthy (te_parentId (?es ! n))" "p \<in> set ?es" "te_id p = the (te_parentId (?es ! n))"
    "ancestry (js_get (ts_byId s)) p ps"
    using assms by (auto simp: tree_get)
  then have "te_id p \<in> te_id ` set (take n ?es)" using assms Cons.prems(2) by (simp add: tree_wf_def)
  then obtain m where m: "m < n" "te_id (?es ! m) = te_id p" using Cons.prems(2) by (auto simp: in_set_conv_nth)
  then have "?es ! m = p" using d p(2) Cons.prems(2) by (auto simp: distinct_map inj_on_def)
  with Cons.IH [of m] p(4) m Cons.prems(2) have ih: "set ps \<subseteq> set (take m ?es)" "distinct (map te_id ps)" by auto
  have "distinct (map te_id (take (Suc m) ?es))" using d distinct_take [of "map te_id ?es"] by (simp add: take_map)
  then have "te_id p \<notin> te_id ` set (take m ?es)"
    using m Cons.prems(2) \<open>?es ! m = p\<close> by (auto simp: take_Suc_conv_app_nth)
  moreover have "set (take m ?es) \<subseteq> set (take n ?es)" using m(1) by (simp add: set_take_subset_set_take)
  moreover have "p \<in> set (take n ?es)" using \<open>?es ! m = p\<close> m(1) Cons.prems(2) by (auto simp: in_set_conv_nth)
  ultimately show ?case using ih by auto
qed simp

lemma entry_chain_distinct:
  assumes "tree_wf s" "js_get (ts_byId s) i = Some e" "ancestry (js_get (ts_byId s)) e ps"
  shows "distinct (map te_id (e # ps))"
proof -
  from assms(1,2) obtain n where n: "n < length (ts_entries s)" "ts_entries s ! n = e" by (auto simp: tree_get in_set_conv_nth)
  from ancestry_older [OF assms(1), of n ps] assms(3) n have ps: "set ps \<subseteq> set (take n (ts_entries s))" "distinct (map te_id ps)" by auto
  have "distinct (map te_id (take (Suc n) (ts_entries s)))"
    using tree_wf_fields(1) [OF assms(1)] distinct_take [of "map te_id (ts_entries s)"] by (simp add: take_map)
  then have "te_id e \<notin> te_id ` set (take n (ts_entries s))" using n by (auto simp: take_Suc_conv_app_nth)
  then show ?thesis using ps by auto
qed

lemma chain_distinct: "tree_wf s \<Longrightarrow> leaf_chain memory_tree_ops s es \<Longrightarrow> distinct (map te_id es)"
  by (auto simp: leaf_chain_def memory_tree_ops_def tree_getEntry_eq dest: entry_chain_distinct split: sum.splits option.splits)

lemma ancestry_suffix: "ancestry get e ps \<Longrightarrow> e # ps = newer @ x # older \<Longrightarrow> ancestry get x older"
proof (induction ps arbitrary: e newer)
  case Nil
  then show ?case by (cases newer) auto
next
  case (Cons p ps)
  show ?case
  proof (cases newer)
    case Nil
    then show ?thesis using Cons.prems by auto
  next
    case (Cons a newer')
    then show ?thesis using Cons.IH [of p newer'] Cons.prems by auto
  qed
qed

text \<open>
  The sessions that the operations of \<^verbatim>\<open>Session\<close> build on a new storage. Every append method is \<open>append_below_leaf\<close> with
  a payload that is no leaf entry.
\<close>

inductive tree_reachable :: "tree_storage \<Rightarrow> bool" where
  created: "new_tree_storage metadata [] = Inr s \<Longrightarrow> tree_reachable s"
| appended:
    "tree_reachable s \<Longrightarrow> ids_usable (tree_getEntry s) uuid \<Longrightarrow> \<not> is_leaf_body body \<Longrightarrow>
     append_below_leaf memory_tree_ops s uuid now body = (s', r) \<Longrightarrow> tree_reachable s'"
| moved:
    "tree_reachable s \<Longrightarrow> ids_usable (tree_getEntry s) uuid \<Longrightarrow>
     ids_usable (tree_getEntry (fst (tree_setLeafId s uuid now target))) uuid' \<Longrightarrow>
     session_moveTo memory_tree_ops s uuid uuid' now target b = (s', r) \<Longrightarrow> tree_reachable s'"

context tree_store
begin

lemma append_inv:
  assumes "inv s" "ids_usable (to_getEntry ops s) uuid" "\<not> is_leaf_body body" "append_below_leaf ops s uuid now body = (s', r)"
  shows "inv s'"
proof (cases r)
  case (Inr i)
  then show ?thesis using append_cases [OF assms(1-3)] leaf_chain_exists [OF assms(1)] assms(4) by blast
next
  case (Inl err)
  obtain leaf where leaf: "to_getLeafId ops s = Inr leaf" using leaf_known [OF assms(1)] by blast
  obtain e where "to_appendEntry ops s e = (s', Inl err)"
    using assms(4) Inl leaf by (auto simp: append_below_leaf_def Let_def st_then_def split: prod.splits sum.splits)
  then show ?thesis using append_failed [OF assms(1)] by blast
qed

lemma move_inv:
  assumes "inv s" "ids_usable (to_getEntry ops s) uuid"
    and "ids_usable (to_getEntry ops (fst (to_setLeafId ops s uuid now target))) uuid'"
    and "session_moveTo ops s uuid uuid' now target b = (s', r)"
  shows "inv s'"
proof (cases "target \<noteq> None \<and> to_getEntry ops s (the target) = None")
  case True
  then show ?thesis using assms(1,4) by (simp add: session_moveTo_def)
next
  case False
  obtain s1 r1 where set: "to_setLeafId ops s uuid now target = (s1, r1)" by fastforce
  show ?thesis
  proof (cases r1)
    case (Inl err)
    then show ?thesis using set_leaf_failed [OF assms(1)] set assms(4) False by (auto simp: session_moveTo_def)
  next
    case (Inr u)
    with set_leaf_done [OF assms(1,2)] set obtain x where s1: "inv s1" "to_getEntry ops s (te_id x) = None"
      "to_getEntry ops s1 = (to_getEntry ops s)(te_id x \<mapsto> x)"
      by blast
    show ?thesis
    proof (cases b)
      case None
      then show ?thesis using set Inr assms(4) False s1(1) by (auto simp: session_moveTo_def)
    next
      case (Some n)
      define e where "e = \<lparr>te_id = to_createEntryId ops s1 uuid', te_parentId = target, te_timestamp = now,
         te_body = TreeBranchSummary (case target of None \<Rightarrow> ''root'' | Some e \<Rightarrow> e) (bn_summary n) (bn_details n) (bn_usage n) (bn_fromHook n)\<rparr>"
      have new: "to_getEntry ops s1 (te_id e) = None" "te_id e \<noteq> ''''"
        using new_id [OF s1(1)] assms(3) set by (simp_all add: e_def)
      have parent: "parent_ok (to_getEntry ops s1) (te_parentId e)"
        using False s1(3) by (auto simp: parent_ok_def e_def truthy_def split: option.splits)
      obtain r2 where "to_appendEntry ops s1 e = (s', r2)"
        using assms(4) set Inr False Some by (auto simp: session_moveTo_def e_def Let_def st_then_def split: prod.splits sum.splits)
      then show ?thesis using append_done [OF s1(1) new parent] append_failed [OF s1(1)] by (cases r2) (auto simp: e_def)
    qed
  qed
qed

end

lemma tree_reachable_wf: "tree_reachable s \<Longrightarrow> tree_wf s"
proof (induction rule: tree_reachable.induct)
  case (created metadata s)
  then show ?case by (auto simp: tree_wf_def new_tree_storage_def)
next
  case (appended s uuid body now s' r)
  then show ?case using mem.append_inv [of s uuid body now s' r] by (simp add: memory_tree_ops_def)
next
  case (moved s uuid now target uuid' b s' r)
  then show ?case using mem.move_inv [of s uuid now target uuid' b s' r] by (simp add: memory_tree_ops_def)
qed

text \<open>
  C12. On every session that its operations can build, the walk from any entry towards the root ends without an error and
  returns the chain of its ancestors, cut at a compaction; the branch of the session exists; and opening the
  stored entries anew gives back the same session, with its leaf, labels and index.\<close>
theorem tree_branch_ends:
  assumes "tree_reachable s"
  shows "(\<exists>path. getBranch memory_tree_ops s None = Some (Inr path)) \<and>
    new_tree_storage (ts_metadata s) (ts_entries s) = Inr s \<and>
    (\<forall>i e. tree_getEntry s i = Some e \<longrightarrow> (\<exists>ps. ancestry (tree_getEntry s) e ps \<and>
       getPathToRootOrCompaction s (Some i) = Some (Inr (rev (cut_path None (e # ps))))))"
proof -
  have wf: "tree_wf s" by (rule tree_reachable_wf [OF assms])
  then show ?thesis
    using mem.branch_total [OF wf] tree_path [OF wf] by (simp add: tree_getEntry_eq tree_wf_def)
qed

text \<open>
  C13. Cutting the branch at a compaction does not change what the model sees, if the last compaction of the branch carries its
  retained messages, or keeps entries from a point on after which no compaction carries messages or keeps less (or names no entry of
  the branch as the first one kept): then the context entries, and with them the messages, are those of the whole way to the root, for
  every choice of transforms and projectors. The code does not enforce the condition, which a compaction supplied by a hook can
  violate.\<close>
theorem short_branch_same_context:
  assumes "tree_reachable s" "leaf_chain memory_tree_ops s es" "nested_compactions es"
  shows "session_buildContextEntries memory_tree_ops own s given =
      Some (Inr (buildTreeContextEntries (rev es) (mergeContextBuildOptions own given))) \<and>
    (\<exists>ctx. session_buildContext memory_tree_ops own s given = Some (Inr ctx) \<and>
       sc_messages ctx = sc_messages (buildTreeContext (rev es) (mergeContextBuildOptions own given)))"
proof -
  have wf: "tree_wf s" by (rule tree_reachable_wf [OF assms(1)])
  have branch: "getBranch memory_tree_ops s None = Some (Inr (rev (cut_path None es)))"
    by (rule mem.branch_of_chain [OF wf assms(2)])
  have entries: "buildTreeContextEntries (rev (cut_path None es)) opts = buildTreeContextEntries (rev es) opts" for opts
    using transform_cut_path [OF chain_distinct [OF wf assms(2)] assms(3)] by (simp add: buildTreeContextEntries_def)
  then have "sc_messages (buildTreeContext (rev (cut_path None es)) opts) = sc_messages (buildTreeContext (rev es) opts)" for opts
    by (simp add: buildTreeContext_def Let_def)
  then show ?thesis by (simp add: session_buildContextEntries_def session_buildContext_def branch entries)
qed

text \<open>
  C33. The settings of a session do not survive a compaction that carries its retained messages: whatever thinking level,
  model and tools the branch had set, the context built right after the compaction reports the defaults.\<close>
theorem compaction_forgets_settings:
  assumes "tree_reachable s" "ids_usable (tree_getEntry s) uuid"
    and "session_appendCompaction memory_tree_ops s uuid now summary firstKept tokens details hook u (Some tail) = (s', Inr i)"
  shows "\<exists>ctx. session_buildContext memory_tree_ops own s' given = Some (Inr ctx) \<and>
    sc_thinkingLevel ctx = ''off'' \<and> sc_model ctx = None \<and> sc_activeToolNames ctx = None"
proof -
  have "tree_wf s" by (rule tree_reachable_wf [OF assms(1)])
  moreover have "ids_usable (to_getEntry memory_tree_ops s) uuid" using assms(2) by (simp add: memory_tree_ops_def)
  ultimately obtain c where "getBranch memory_tree_ops s' None = Some (Inr [c])"
    "te_body c = TreeCompaction summary firstKept tokens (Some tail) details u hook"
    using mem.branch_after_tail [OF _ _ assms(3), of "[]" s' "()"] by auto
  then show ?thesis
    by (simp add: session_buildContext_def buildTreeContext_def Let_def deriveTreeContextState_def tree_context_step_def)
qed

section \<open>Forks\<close>

lemma path_up_kept:
  assumes "ancestry get e ps" "\<And>i x. get i = Some x \<Longrightarrow> te_id x = i"
    and "\<forall>x \<in> set (cut_path stop (e # ps)). js_get byId (te_id x) = Some x"
  shows "path_up byId stop e path = Some (Inr (rev (cut_path stop (e # ps)) @ path))"
  using assms(1,3)
proof (induction ps arbitrary: e stop path)
  case Nil
  then show ?case by (subst path_up.simps) simp
next
  case (Cons p ps)
  show ?case
  proof (cases "stop = Some (te_id e) \<or> keeps_tail (te_body e)")
    case True
    then show ?thesis by (subst path_up.simps) auto
  next
    case False
    have p: "te_id p = the (te_parentId e)" "ancestry get p ps" using Cons.prems(1) assms(2) by auto
    have kept: "\<forall>x \<in> set (cut_path (stop_after (te_body e) stop) (p # ps)). js_get byId (te_id x) = Some x"
      using Cons.prems(2) False by simp
    then have "js_get byId (the (te_parentId e)) = Some p" using p(1) by simp
    with Cons.IH [OF p(2) kept] Cons.prems(1) False show ?thesis by (subst path_up.simps) simp
  qed
qed

lemma foldl_last: "xs \<noteq> [] \<Longrightarrow> foldl (\<lambda>_ x. f x) a xs = f (last xs)"
  by (induction xs rule: rev_induct) auto

lemma fork_storage:
  assumes "ancestry get e ps" "\<And>i x. get i = Some x \<Longrightarrow> te_id x = i" "distinct (map te_id (e # ps))" "\<not> is_leaf_body (te_body e)"
  shows "\<exists>s. new_tree_storage metadata (rev (cut_path None (e # ps))) = Inr s \<and> ts_leafId s = Some (te_id e) \<and>
    getBranch memory_tree_ops s None = Some (Inr (rev (cut_path None (e # ps)))) \<and> ts_metadata s = metadata \<and>
    ts_byId s = js_map_of (map (\<lambda>e. (te_id e, e)) (rev (cut_path None (e # ps))))"
proof -
  let ?path = "rev (cut_path None (e # ps))"
  have last: "last ?path = e" "?path \<noteq> []" by (simp_all add: last_rev)
  obtain older where "e # ps = cut_path None (e # ps) @ older" using cut_path_prefix by blast
  then have "distinct (map te_id (cut_path None (e # ps)))" using assms(3) by (metis distinct_append map_append)
  then have d: "distinct (map te_id ?path)" by (simp add: rev_map [symmetric] del: cut_path.simps)
  have leaf: "leafIdAfterEntry e = Some (te_id e)" using assms(4) by (cases "te_body e") (simp_all add: leafIdAfterEntry_def)
  define s where "s = \<lparr>ts_metadata = metadata, ts_entries = ?path, ts_byId = js_map_of (map (\<lambda>e. (te_id e, e)) ?path),
       ts_labelsById = buildLabelsById ?path, ts_leafId = Some (te_id e)\<rparr>"
  have fold: "foldl (\<lambda>_ e. leafIdAfterEntry e) None ?path = Some (te_id e)"
    using foldl_last [OF last(2), of leafIdAfterEntry None] by (simp only: last(1) leaf)
  have "te_id e \<in> te_id ` set ?path" by simp
  then have new: "new_tree_storage metadata ?path = Inr s" unfolding new_tree_storage_Inr fold s_def by simp
  have s: "new_tree_storage metadata ?path = Inr s" "ts_leafId s = Some (te_id e)" "ts_metadata s = metadata"
    "ts_byId s = js_map_of (map (\<lambda>e. (te_id e, e)) ?path)"
    by (fact new) (simp_all add: s_def)
  have get: "js_get (ts_byId s) (te_id x) = Some x" if "x \<in> set ?path" for x
    using that d by (simp add: s(4) js_get_entries del: cut_path.simps)
  have "e \<in> set ?path" by simp
  with get have "getPathToRootOrCompaction s (Some (te_id e)) = Some (Inr ?path)"
    using path_up_kept [OF assms(1,2), of None "ts_byId s" "[]"]
    by (simp add: getPathToRootOrCompaction_def del: cut_path.simps)
  moreover have "tree_getLeafId s = Inr (Some (te_id e))"
    using get [OF \<open>e \<in> set ?path\<close>] s(2) by (simp add: tree_getLeafId_def js_has_iff_get)
  ultimately show ?thesis using s by (simp add: getBranch_def memory_tree_ops_def del: cut_path.simps)
qed

text \<open>
  C21. A session forked at an entry (position "at", an entry that is not a leaf entry) can be opened and has the branch of that entry,
  so that it continues with the same context. No storage changes, and every session with another id than the fork's,
  the one it was forked from among them, is still found in the repository where it was.\<close>
theorem fork_same_branch:
  assumes "tree_repo_open r source = Inr a" "tree_reachable (rp_heap r ! a)"
    and "tree_getEntry (rp_heap r ! a) i = Some e" "\<not> is_leaf_body (te_body e)"
  shows "\<exists>path r' s. getBranch memory_tree_ops (rp_heap r ! a) (Some i) = Some (Inr path) \<and>
    tree_repo_fork r source (Some i) (Some AtEntry) metadata = Some (Inr (r', length (rp_heap r))) \<and>
    rp_heap r' = rp_heap r @ [s] \<and> tree_repo_open r' metadata = Inr (length (rp_heap r)) \<and>
    ts_leafId s = Some i \<and> getBranch memory_tree_ops s None = Some (Inr path) \<and>
    (\<forall>other. tm_id other \<noteq> tm_id metadata \<longrightarrow> tree_repo_open r' other = tree_repo_open r other)"
proof -
  let ?s = "rp_heap r ! a"
  have wf: "tree_wf ?s" by (rule tree_reachable_wf [OF assms(2)])
  have get: "js_get (ts_byId ?s) i = Some e" using assms(3) by (simp add: tree_getEntry_eq)
  then have i: "te_id e = i" "i \<noteq> ''''" using wf tree_wf_fields(2) [OF wf] by (force simp: tree_get)+
  from tree_path [OF wf get] obtain ps where ps: "ancestry (js_get (ts_byId ?s)) e ps"
    "getPathToRootOrCompaction ?s (Some i) = Some (Inr (rev (cut_path None (e # ps))))"
    by blast
  have keys: "\<And>i x. js_get (ts_byId ?s) i = Some x \<Longrightarrow> te_id x = i" using wf by (simp add: tree_get)
  have d: "distinct (map te_id (e # ps))" by (rule entry_chain_distinct [OF wf get ps(1)])
  from fork_storage [OF ps(1) keys d assms(4), of metadata] obtain s where s:
    "new_tree_storage metadata (rev (cut_path None (e # ps))) = Inr s" "ts_leafId s = Some (te_id e)" "ts_metadata s = metadata"
    "getBranch memory_tree_ops s None = Some (Inr (rev (cut_path None (e # ps))))"
    by blast
  have "getBranch memory_tree_ops ?s (Some i) = Some (Inr (rev (cut_path None (e # ps))))"
    using ps(2) by (simp add: getBranch_def memory_tree_ops_def)
  moreover have "getEntriesToFork memory_tree_ops ?s (Some i) (Some AtEntry) = Some (Inr (rev (cut_path None (e # ps))))"
    using ps(2) i assms(3) by (simp add: getEntriesToFork_def memory_tree_ops_def truthy_def)
  then have "tree_repo_fork r source (Some i) (Some AtEntry) metadata = Some (Inr (repo_add r s))"
    by (simp add: tree_repo_fork_def assms(1) s(1) del: cut_path.simps)
  ultimately show ?thesis
    using s i by (auto simp: repo_add_def tree_repo_open_def simp del: cut_path.simps)
qed

text \<open>
  The first entry of a branch that was cut at an entry some compaction keeps has its parent left behind. In the fork
  that entry can be moved to, and then its branch cannot be read.
\<close>

lemma fork_start_unreadable:
  assumes "tree_wf s" "getPathToRootOrCompaction s (Some i) = Some (Inr (x # rest))" "\<not> keeps_tail (te_body x)" "truthy (te_parentId x)"
    and "new_tree_storage metadata (x # rest) = Inr s'"
  shows "getPathToRootOrCompaction s' (Some (te_id x)) = Some (Inl TreeInvalidSession)"
proof -
  obtain e where get: "js_get (ts_byId s) i = Some e"
    using assms(2) by (auto simp: getPathToRootOrCompaction_def split: option.splits)
  from tree_path [OF assms(1) get] assms(2) obtain ps where ps: "ancestry (js_get (ts_byId s)) e ps" "x # rest = rev (cut_path None (e # ps))"
    by auto
  have d: "distinct (map te_id (e # ps))" by (rule entry_chain_distinct [OF assms(1) get ps(1)])
  obtain older where older: "e # ps = cut_path None (e # ps) @ older" using cut_path_prefix by blast
  have cut: "cut_path None (e # ps) = rev rest @ [x]" using arg_cong [OF ps(2), of rev] by simp
  have whole: "e # ps = rev rest @ x # older" using older by (simp add: cut del: cut_path.simps)
  have "js_get (ts_byId s) (the (te_parentId x)) = (if older = [] then None else Some (hd older)) \<and> older \<noteq> []"
    using ancestry_suffix [OF ps(1) whole] assms(4) by (cases older) auto
  then obtain p where p: "p \<in> set older" "te_id p = the (te_parentId x)" using assms(1) by (cases older) (auto simp: tree_get)
  have "te_id ` set (x # rest) \<inter> te_id ` set older = {}" using d whole by auto
  then have "the (te_parentId x) \<notin> te_id ` set (x # rest)" using p by (metis disjoint_iff imageI)
  moreover have "ts_byId s' = js_map_of (map (\<lambda>e. (te_id e, e)) (x # rest))" using assms(5) by (auto simp: new_tree_storage_Inr)
  moreover have "distinct (map te_id (x # rest))" using d whole by (auto simp: rev_map [symmetric])
  ultimately have "js_get (ts_byId s') (te_id x) = Some x" "js_get (ts_byId s') (the (te_parentId x)) = None"
    by (auto simp: js_get_entries js_get_None_iff simp del: list.map)
  then show ?thesis
    using assms(3,4) by (simp add: getPathToRootOrCompaction_def path_up.simps)
qed

section \<open>Instances\<close>

lemma generateEntryId_first: "\<not> js_has byId (short_id (uuid 0)) \<Longrightarrow> generateEntryId byId uuid = short_id (uuid 0)"
  by (simp add: generateEntryId_def upt_conv_Cons)

definition tree_demo_metadata :: tree_metadata where
  "tree_demo_metadata = \<lparr>tm_id = ''session'', tm_createdAt = 0\<rparr>"

definition tree_demo_entry :: tree_entry where
  "tree_demo_entry = \<lparr>te_id = ''level'', te_parentId = None, te_timestamp = 5, te_body = TreeThinkingLevel ''high''\<rparr>"

text \<open>
  A session with a message, a compaction that carries the messages it retained, and one more message. Its branch
  begins with the compaction.
\<close>

definition cut_demo_entries :: "tree_entry list" where
  "cut_demo_entries =
     [\<lparr>te_id = ''m1'', te_parentId = None, te_timestamp = 5, te_body = TreeMessage (UserMessage (PlainContent ''first'') 5)\<rparr>,
      \<lparr>te_id = ''c'', te_parentId = Some ''m1'', te_timestamp = 6,
        te_body = TreeCompaction ''so far'' (Some ''m1'') 9 (Some [UserMessage (PlainContent ''first'') 5]) None None False\<rparr>,
      \<lparr>te_id = ''m2'', te_parentId = Some ''c'', te_timestamp = 7, te_body = TreeMessage (UserMessage (PlainContent ''second'') 7)\<rparr>]"

definition cut_demo :: "nat \<Rightarrow> string option \<Rightarrow> tree_storage" where
  "cut_demo n leaf = \<lparr>ts_metadata = tree_demo_metadata, ts_entries = take n cut_demo_entries,
     ts_byId = map (\<lambda>e. (te_id e, e)) (take n cut_demo_entries), ts_labelsById = [], ts_leafId = leaf\<rparr>"

lemma cut_demo_step:
  assumes "tree_reachable (cut_demo n leaf)"
    and "append_below_leaf memory_tree_ops (cut_demo n leaf) (\<lambda>_. u) now body = (cut_demo (Suc n) (Some u), Inr u)"
    and "ids_usable (tree_getEntry (cut_demo n leaf)) (\<lambda>_. u)" "\<not> is_leaf_body body"
  shows "tree_reachable (cut_demo (Suc n) (Some u))"
  by (rule appended [OF assms(1,3,4,2)])

lemma cut_demo_reachable: "tree_reachable (cut_demo 3 (Some ''m2''))"
proof -
  note steps = append_below_leaf_def memory_tree_ops_def tree_createEntryId_def generateEntryId_first short_id_def tree_getLeafId_def
    tree_appendEntry_def tree_push_def updateLabelCache_def leafIdAfterEntry_def Let_def cut_demo_def cut_demo_entries_def
  note usable = ids_usable_def tree_getEntry_def cut_demo_def cut_demo_entries_def
  have none: "tree_reachable (cut_demo 0 None)"
    by (rule created [of tree_demo_metadata]) (simp add: new_tree_storage_def cut_demo_def buildLabelsById_def)
  have one: "tree_reachable (cut_demo (Suc 0) (Some ''m1''))"
    by (rule cut_demo_step [OF none, of _ 5 "TreeMessage (UserMessage (PlainContent ''first'') 5)"]) (simp_all add: steps usable)
  have two: "tree_reachable (cut_demo (Suc (Suc 0)) (Some ''c''))"
    by (rule cut_demo_step [OF one, of _ 6
        "TreeCompaction ''so far'' (Some ''m1'') 9 (Some [UserMessage (PlainContent ''first'') 5]) None None False"]) (simp_all add: steps usable)
  have "tree_reachable (cut_demo (Suc (Suc (Suc 0))) (Some ''m2''))"
    by (rule cut_demo_step [OF two, of _ 7 "TreeMessage (UserMessage (PlainContent ''second'') 7)"]) (simp_all add: steps usable)
  then show ?thesis by (simp add: numeral_3_eq_3)
qed

text \<open>A session with one entry, which sets the thinking level.\<close>

definition tree_demo_session :: tree_storage where
  "tree_demo_session = \<lparr>ts_metadata = tree_demo_metadata, ts_entries = [tree_demo_entry], ts_byId = [(''level'', tree_demo_entry)], ts_labelsById = [],
     ts_leafId = Some ''level''\<rparr>"

definition tree_demo_empty :: tree_storage where
  "tree_demo_empty = \<lparr>ts_metadata = tree_demo_metadata, ts_entries = [], ts_byId = [], ts_labelsById = [], ts_leafId = None\<rparr>"

lemma tree_demo_append: "append_below_leaf memory_tree_ops tree_demo_empty (\<lambda>_. ''level'') 5 (TreeThinkingLevel ''high'') = (tree_demo_session, Inr ''level'')"
  by (simp add: append_below_leaf_def memory_tree_ops_def tree_demo_empty_def tree_createEntryId_def generateEntryId_first short_id_def
      tree_getLeafId_def tree_appendEntry_def tree_push_def tree_demo_session_def tree_demo_entry_def updateLabelCache_def leafIdAfterEntry_def Let_def)

lemma tree_demo_reachable: "tree_reachable tree_demo_session"
proof -
  have "tree_reachable tree_demo_empty"
    by (rule created [of tree_demo_metadata]) (simp add: new_tree_storage_def tree_demo_empty_def buildLabelsById_def)
  then show ?thesis
    by (rule appended [OF _ _ _ tree_demo_append]) (simp_all add: ids_usable_def tree_getEntry_def tree_demo_empty_def)
qed

theorem tree_branch_ends_witness:
  "\<exists>ps. ancestry (tree_getEntry tree_demo_session) tree_demo_entry ps \<and>
     getPathToRootOrCompaction tree_demo_session (Some ''level'') = Some (Inr (rev (cut_path None (tree_demo_entry # ps))))"
  using tree_branch_ends [OF tree_demo_reachable] by (simp add: tree_getEntry_def tree_demo_session_def)

lemma cut_demo_chain: "leaf_chain memory_tree_ops (cut_demo 3 (Some ''m2'')) (rev cut_demo_entries)"
  by (simp add: leaf_chain_def memory_tree_ops_def tree_getLeafId_def tree_getEntry_def cut_demo_def cut_demo_entries_def truthy_def)

theorem short_branch_same_context_witness:
  "getBranch memory_tree_ops (cut_demo 3 (Some ''m2'')) None = Some (Inr (tl cut_demo_entries)) \<and>
   session_buildContextEntries memory_tree_ops no_tree_options (cut_demo 3 (Some ''m2'')) no_tree_options =
     Some (Inr (buildTreeContextEntries cut_demo_entries (mergeContextBuildOptions no_tree_options no_tree_options)))"
proof
  have "rev (cut_path None (rev cut_demo_entries)) = tl cut_demo_entries" by (simp add: cut_demo_entries_def)
  then show "getBranch memory_tree_ops (cut_demo 3 (Some ''m2'')) None = Some (Inr (tl cut_demo_entries))"
    using mem.branch_of_chain [OF tree_reachable_wf [OF cut_demo_reachable] cut_demo_chain] by simp
  have "nested_compactions (rev cut_demo_entries)" by (simp add: cut_demo_entries_def)
  then show "session_buildContextEntries memory_tree_ops no_tree_options (cut_demo 3 (Some ''m2'')) no_tree_options =
      Some (Inr (buildTreeContextEntries cut_demo_entries (mergeContextBuildOptions no_tree_options no_tree_options)))"
    using short_branch_same_context [OF cut_demo_reachable cut_demo_chain, of no_tree_options no_tree_options] by simp
qed

theorem compaction_forgets_settings_witness:
  "sc_thinkingLevel (deriveTreeContextState (ts_entries tree_demo_session)) = ''high'' \<and>
   (\<exists>s' i ctx. session_appendCompaction memory_tree_ops tree_demo_session (\<lambda>_. ''c'') 6 ''so far'' None 9 None False None (Some []) = (s', Inr i) \<and>
     session_buildContext memory_tree_ops no_tree_options s' no_tree_options = Some (Inr ctx) \<and> sc_thinkingLevel ctx = ''off'')"
proof -
  have level: "sc_thinkingLevel (deriveTreeContextState (ts_entries tree_demo_session)) = ''high''"
    by (simp add: deriveTreeContextState_def tree_context_step_def tree_demo_session_def tree_demo_entry_def)
  have usable: "ids_usable (tree_getEntry tree_demo_session) (\<lambda>_. ''c'')"
    by (simp add: ids_usable_def tree_getEntry_def tree_demo_session_def)
  obtain s' i where app: "session_appendCompaction memory_tree_ops tree_demo_session (\<lambda>_. ''c'') 6 ''so far'' None 9 None False None (Some []) = (s', Inr i)"
    by (simp add: session_appendCompaction_def append_below_leaf_def memory_tree_ops_def tree_getLeafId_def tree_appendEntry_def tree_demo_session_def Let_def)
  from compaction_forgets_settings [OF tree_demo_reachable usable app] level app show ?thesis by blast
qed

theorem fork_same_branch_witness:
  "\<exists>path r' s. tree_repo_fork \<lparr>rp_heap = [tree_demo_session], rp_sessions = [(''session'', 0)]\<rparr> tree_demo_metadata (Some ''level'') (Some AtEntry)
      \<lparr>tm_id = ''fork'', tm_createdAt = 7\<rparr> = Some (Inr (r', 1)) \<and>
     rp_heap r' = [tree_demo_session, s] \<and> getBranch memory_tree_ops s None = Some (Inr path)"
  using fork_same_branch [of "\<lparr>rp_heap = [tree_demo_session], rp_sessions = [(''session'', 0)]\<rparr>" tree_demo_metadata 0 "''level''" tree_demo_entry
      "\<lparr>tm_id = ''fork'', tm_createdAt = 7\<rparr>"] tree_demo_reachable
  by (auto simp: tree_repo_open_def tree_demo_metadata_def tree_getEntry_def tree_demo_session_def tree_demo_entry_def)

end
