(* ===== verification/Compaction_Props.thy ===== *)
theory Compaction_Props
  imports Compaction Tree_Session_Props
begin

text \<open>
  What a compaction keeps: the messages since the last compaction are summarised or kept, in order and
  each once; what is kept never starts with the result of a tool call; the file lists of the result
  are sorted and disjoint.
\<close>

section \<open>The cut point\<close>

definition compaction_start :: "tree_entry list \<Rightarrow> nat" where
  "compaction_start es = (case previous_compaction es of None \<Rightarrow> 0 | Some i \<Rightarrow> boundary_start es i)"

lemma back_up_bounds: "start \<le> c \<Longrightarrow> start \<le> back_up es start c \<and> back_up es start c \<le> c"
  by (induction c) auto

lemma back_up_between:
  "start \<le> c \<Longrightarrow> i \<in> {back_up es start c..<c} \<Longrightarrow> \<not> is_message (te_body (es ! i)) \<and> \<not> is_compaction (te_body (es ! i))"
  by (induction c) (auto simp: less_Suc_eq split: if_splits)

text \<open>The cut point before entries that are no messages are moved along with it.\<close>

definition chosen_cut :: "tree_entry list \<Rightarrow> nat \<Rightarrow> nat \<Rightarrow> int \<Rightarrow> nat" where
  "chosen_cut es start stop keep = (case budget_index es keep 0 (rev [start..<stop]) of
      None \<Rightarrow> hd (findValidCutPoints es start stop)
    | Some i \<Rightarrow> (case List.find (\<lambda>c. c \<ge> i) (findValidCutPoints es start stop) of
        None \<Rightarrow> hd (findValidCutPoints es start stop) | Some c \<Rightarrow> c))"

lemma cut_points_iff: "i \<in> set (findValidCutPoints es start stop) \<longleftrightarrow> start \<le> i \<and> i < stop \<and> valid_cut (es ! i)"
  by (auto simp: findValidCutPoints_def)

lemma chosen_cut_valid:
  assumes "findValidCutPoints es start stop \<noteq> []"
  shows "chosen_cut es start stop keep \<in> set (findValidCutPoints es start stop)"
  using assms by (auto simp: chosen_cut_def split: option.splits dest: find_in)

lemma findCutPoint_some:
  assumes "findValidCutPoints es start stop \<noteq> []"
  shows "cp_firstKeptEntryIndex (findCutPoint es start stop keep) = back_up es start (chosen_cut es start stop keep)"
    and "cp_turnStartIndex (findCutPoint es start stop keep) = Some t \<Longrightarrow>
      start \<le> t \<and> t \<le> cp_firstKeptEntryIndex (findCutPoint es start stop keep)"
    and "cp_isSplitTurn (findCutPoint es start stop keep) \<Longrightarrow> cp_turnStartIndex (findCutPoint es start stop keep) \<noteq> None"
  using assms
  by (auto simp: findCutPoint_def chosen_cut_def Let_def findTurnStartIndex_def split: if_splits dest!: find_in)

lemma findCutPoint_none:
  "findValidCutPoints es start stop = [] \<Longrightarrow>
     findCutPoint es start stop keep = \<lparr>cp_firstKeptEntryIndex = start, cp_turnStartIndex = None, cp_isSplitTurn = False\<rparr>"
  by (simp add: findCutPoint_def)

lemma findCutPoint_bounds:
  assumes "start \<le> stop"
  shows "start \<le> cp_firstKeptEntryIndex (findCutPoint es start stop keep)"
    and "cp_firstKeptEntryIndex (findCutPoint es start stop keep) \<le> stop"
    and "cp_isSplitTurn (findCutPoint es start stop keep) \<Longrightarrow>
      \<exists>t. cp_turnStartIndex (findCutPoint es start stop keep) = Some t \<and> start \<le> t \<and> t \<le> cp_firstKeptEntryIndex (findCutPoint es start stop keep)"
proof -
  let ?cut = "findCutPoint es start stop keep"
  have "start \<le> cp_firstKeptEntryIndex ?cut \<and> cp_firstKeptEntryIndex ?cut \<le> stop \<and>
    (cp_isSplitTurn ?cut \<longrightarrow> (\<exists>t. cp_turnStartIndex ?cut = Some t \<and> start \<le> t \<and> t \<le> cp_firstKeptEntryIndex ?cut))"
  proof (cases "findValidCutPoints es start stop = []")
    case True
    then show ?thesis using assms by (simp add: findCutPoint_none)
  next
    case False
    from chosen_cut_valid [OF this, of keep] have c: "start \<le> chosen_cut es start stop keep" "chosen_cut es start stop keep < stop"
      by (auto simp: cut_points_iff)
    then show ?thesis
      using back_up_bounds [OF c(1), of es] findCutPoint_some [OF False, of keep] by fastforce
  qed
  then show "start \<le> cp_firstKeptEntryIndex ?cut" "cp_firstKeptEntryIndex ?cut \<le> stop"
    "cp_isSplitTurn ?cut \<Longrightarrow> \<exists>t. cp_turnStartIndex ?cut = Some t \<and> start \<le> t \<and> t \<le> cp_firstKeptEntryIndex ?cut"
    by auto
qed

section \<open>The messages of a compaction\<close>

lemma messages_between_split:
  "i \<le> j \<Longrightarrow> j \<le> k \<Longrightarrow> messages_between es i j @ messages_between es j k = messages_between es i k"
proof -
  assume "i \<le> j" "j \<le> k"
  then have "[i..<k] = [i..<j] @ [j..<k]" using upt_add_eq_append [of i j "k - j"] by simp
  then show ?thesis by (simp add: messages_between_def List.map_filter_def)
qed

lemma compaction_start_bound: "es \<noteq> [] \<Longrightarrow> compaction_start es \<le> length es"
  by (auto simp: compaction_start_def previous_compaction_def boundary_start_def index_where_def
      split: option.splits tree_body.splits dest!: find_in)

lemma previous_compaction_index: "previous_compaction es = Some i \<Longrightarrow> i < length es \<and> is_compaction (te_body (es ! i))"
  by (auto simp: previous_compaction_def dest!: find_in)

lemma compaction_start_less:
  assumes "es \<noteq> []" "\<not> is_compaction (te_body (last es))"
  shows "compaction_start es < length es"
proof (cases "previous_compaction es")
  case (Some i)
  then have i: "i < length es" "is_compaction (te_body (es ! i))" using previous_compaction_index by auto
  have "i \<noteq> length es - 1" using i assms by (auto simp: last_conv_nth)
  with i(1) show ?thesis
    using Some by (auto simp: compaction_start_def boundary_start_def index_where_def split: tree_body.splits option.splits dest!: find_in)
qed (use assms in \<open>simp add: compaction_start_def\<close>)

lemma findCutPoint_less:
  assumes "start < stop"
  shows "cp_firstKeptEntryIndex (findCutPoint es start stop keep) < stop"
proof (cases "findValidCutPoints es start stop = []")
  case False
  from chosen_cut_valid [OF this, of keep] have c: "start \<le> chosen_cut es start stop keep" "chosen_cut es start stop keep < stop"
    by (auto simp: cut_points_iff)
  with back_up_bounds [OF c(1), of es] show ?thesis by (simp add: findCutPoint_some(1) [OF False])
qed (use assms in \<open>simp add: findCutPoint_none\<close>)

lemma prepared_messages:
  assumes "prepareCompaction es settings = Inr (Some p)"
  shows "pr_messagesToSummarize p @ pr_turnPrefixMessages p @ pr_retainedTail p = messages_between es (compaction_start es) (length es) \<and>
    pr_previousSummary p = (case previous_compaction es of None \<Rightarrow> None | Some i \<Rightarrow> previous_summary es i)"
proof -
  let ?start = "compaction_start es"
  let ?cut = "findCutPoint es ?start (length es) (cs_keepRecentTokens settings)"
  let ?kept = "cp_firstKeptEntryIndex ?cut"
  have "es \<noteq> []" using assms by (auto simp: prepareCompaction_def)
  then have start: "?start \<le> length es" by (rule compaction_start_bound)
  note bounds = findCutPoint_bounds [OF start, of es "cs_keepRecentTokens settings"]
  have p: "pr_messagesToSummarize p = messages_between es ?start (if cp_isSplitTurn ?cut then the (cp_turnStartIndex ?cut) else ?kept)"
    "pr_turnPrefixMessages p = (if cp_isSplitTurn ?cut then messages_between es (the (cp_turnStartIndex ?cut)) ?kept else [])"
    "pr_retainedTail p = messages_between es ?kept (length es)"
    "pr_previousSummary p = (case previous_compaction es of None \<Rightarrow> None | Some i \<Rightarrow> previous_summary es i)"
    using assms bounds(3)
    by (auto simp: prepareCompaction_def Let_def compaction_start_def split: if_splits)
  show ?thesis
  proof (cases "cp_isSplitTurn ?cut")
    case True
    with bounds(3) obtain t where "cp_turnStartIndex ?cut = Some t" "?start \<le> t" "t \<le> ?kept" by blast
    then show ?thesis using True p bounds(1,2) by (simp add: messages_between_split)
  next
    case False
    then show ?thesis using p bounds(1,2) by (simp add: messages_between_split)
  qed
qed

lemma prepared_first_kept:
  assumes "prepareCompaction es settings = Inr (Some p)"
  shows "pr_firstKeptEntryId p \<in> te_id ` set es"
proof -
  let ?cut = "findCutPoint es (compaction_start es) (length es) (cs_keepRecentTokens settings)"
  have es: "es \<noteq> []" "\<not> is_compaction (te_body (last es))" using assms by (auto simp: prepareCompaction_def)
  have "compaction_start es < length es"
    using compaction_start_less [OF es] .
  then have "cp_firstKeptEntryIndex ?cut < length es"
    using findCutPoint_less by blast
  moreover have "pr_firstKeptEntryId p = te_id (es ! cp_firstKeptEntryIndex ?cut)"
    using assms by (auto simp: prepareCompaction_def Let_def compaction_start_def split: if_splits)
  ultimately show ?thesis by simp
qed

section \<open>The file lists\<close>

lemma set_add_props [simp]: "set (set_add xs x) = insert x (set xs)" "distinct xs \<Longrightarrow> distinct (set_add xs x)"
  by (auto simp: set_add_def)

lemma fold_set_add: "set (foldl set_add xs ys) = set xs \<union> set ys" "distinct xs \<Longrightarrow> distinct (foldl set_add xs ys)"
  by (induction ys arbitrary: xs) auto

lemma computeFileLists_props:
  assumes "computeFileLists ops = (readFiles, modifiedFiles)"
  shows "sorted readFiles" "sorted modifiedFiles" "distinct modifiedFiles" "set readFiles \<inter> set modifiedFiles = {}"
    "set modifiedFiles = set (fo_edited ops) \<union> set (fo_written ops)" "set readFiles = set (fo_read ops) - set modifiedFiles"
  using assms by (auto simp: computeFileLists_def Let_def fold_set_add)

lemma compact_result:
  assumes "compact complete addMoney model p instructions level = Inr r" "computeFileLists (pr_fileOps p) = (rf, mf)"
  shows "crs_retainedTail r = pr_retainedTail p" "crs_readFiles r = rf" "crs_modifiedFiles r = mf"
    "crs_firstKeptEntryId r = pr_firstKeptEntryId p"
  using assms by (auto simp: compact_def bind_result_Inr_iff split: if_splits)

text \<open>A request that shows the model a conversation of the given messages.\<close>

definition asks_about :: "summary_request \<Rightarrow> agent_message list \<Rightarrow> bool" where
  "asks_about req ms \<longleftrightarrow> (\<exists>rest. sr_prompt req =
     ''<conversation>'' @ newline @ serializeConversation (convertToLlm ms) @ newline @ ''</conversation>'' @ rest)"

text \<open>Texts that occur in a text one after the other.\<close>

fun in_order :: "string list \<Rightarrow> string \<Rightarrow> bool" where
  "in_order [] s \<longleftrightarrow> True"
| "in_order (t # ts) s \<longleftrightarrow> (\<exists>before after. s = before @ t @ after \<and> in_order ts after)"

definition answered :: "completer \<Rightarrow> summary_request \<Rightarrow> bool" where
  "answered complete req \<longleftrightarrow> am_stopReason (complete req) \<noteq> AbortedStop \<and> am_stopReason (complete req) \<noteq> ErrorStop"

lemma summary_answer_Inr:
  "summary_answer (complete req) = Inr (t, u) \<longleftrightarrow> answered complete req \<and> t = assistantText (complete req) \<and> u = am_usage (complete req)"
  by (auto simp: summary_answer_def answered_def)

lemma history_asked:
  assumes "generateSummaryWithUsage complete model ms reserve custom previous level = Inr (t, u)"
  shows "\<exists>req. asks_about req ms \<and> answered complete req \<and> t = assistantText (complete req)"
proof (intro exI conjI)
  let ?req = "\<lparr>sr_systemPrompt = SUMMARIZATION_SYSTEM_PROMPT, sr_prompt = summary_prompt ms custom previous,
      sr_maxTokens = limit_tokens (4 * reserve div 5) model, sr_reasoning = reasoning_of model level\<rparr>"
  show "asks_about ?req ms" by (simp add: asks_about_def summary_prompt_def Let_def)
  show "answered complete ?req" "t = assistantText (complete ?req)"
    using assms by (simp_all add: generateSummaryWithUsage_def summary_answer_Inr)
qed

lemma prefix_asked:
  assumes "generateTurnPrefixSummary complete model ms reserve level = Inr (t, u)"
  shows "\<exists>req. asks_about req ms \<and> answered complete req \<and> t = assistantText (complete req)"
proof (intro exI conjI)
  let ?req = "\<lparr>sr_systemPrompt = SUMMARIZATION_SYSTEM_PROMPT,
      sr_prompt = ''<conversation>'' @ newline @ serializeConversation (convertToLlm ms) @ newline @ ''</conversation>'' @
        newline @ newline @ TURN_PREFIX_SUMMARIZATION_PROMPT,
      sr_maxTokens = limit_tokens (reserve div 2) model, sr_reasoning = reasoning_of model level\<rparr>"
  show "asks_about ?req ms" by (simp add: asks_about_def)
  show "answered complete ?req" "t = assistantText (complete ?req)"
    using assms by (simp_all add: generateTurnPrefixSummary_def summary_answer_Inr)
qed

text \<open>The requests of a compaction: what they show to the model, and their answers in the summary.\<close>

definition summarised_by :: "completer \<Rightarrow> (agent_message list \<times> summary_request) list \<Rightarrow> string \<Rightarrow> bool" where
  "summarised_by complete asked summary \<longleftrightarrow>
     (\<forall>(ms, req) \<in> set asked. asks_about req ms \<and> answered complete req) \<and>
     in_order (map (\<lambda>(ms, req). assistantText (complete req)) asked) summary"

lemma map_sum_Inr_iff: "map_sum f g x = Inr y \<longleftrightarrow> (\<exists>z. x = Inr z \<and> y = g z)"
  by (cases x) auto

lemma compact_asks:
  assumes "compact complete addMoney model p instructions level = Inr r" "pr_turnPrefixMessages p \<noteq> [] \<longrightarrow> pr_isSplitTurn p"
  shows "\<exists>asked. concat (map fst asked) = pr_messagesToSummarize p @ pr_turnPrefixMessages p \<and> summarised_by complete asked (crs_summary r)"
proof -
  obtain rf mf where lists: "computeFileLists (pr_fileOps p) = (rf, mf)" by (cases "computeFileLists (pr_fileOps p)")
  obtain s u where s: "compact_summary complete addMoney model p instructions level = Inr (s, u)"
      and files': "crs_summary r = s @ formatFileOperations rf mf"
    using assms(1) lists by (auto simp: compact_def bind_result_Inr_iff split: if_splits)
  define files where "files = formatFileOperations rf mf"
  have files: "crs_summary r = s @ files" using files' files_def by simp
  let ?history = "generateSummaryWithUsage complete model (pr_messagesToSummarize p) (cs_reserveTokens (pr_settings p)) instructions (pr_previousSummary p) level"
  let ?prefix = "generateTurnPrefixSummary complete model (pr_turnPrefixMessages p) (cs_reserveTokens (pr_settings p)) level"
  show ?thesis
  proof (cases "pr_isSplitTurn p \<and> pr_turnPrefixMessages p \<noteq> []")
    case False
    then have none: "pr_turnPrefixMessages p = []" using assms(2) by blast
    have "?history = Inr (s, u)" using s False by (simp add: compact_summary_def)
    then obtain req where req: "asks_about req (pr_messagesToSummarize p)" "answered complete req" "s = assistantText (complete req)"
      using history_asked by blast
    then have "summarised_by complete [(pr_messagesToSummarize p, req)] (crs_summary r)"
      using files by (auto simp: summarised_by_def intro: exI [of _ "[]"])
    then show ?thesis using none by (intro exI [of _ "[(pr_messagesToSummarize p, req)]"]) simp
  next
    case True
    obtain h t tu where split: "?prefix = Inr (t, tu)" "\<exists>before. s = h @ before @ t"
      and h: "if pr_messagesToSummarize p = [] then h = ''No prior history.'' else \<exists>v. ?history = Inr (h, v)"
      using s True by (auto simp: compact_summary_def Let_def bind_result_Inr_iff map_sum_Inr_iff split: if_splits prod.splits)
    obtain before where before: "s = h @ before @ t" using split(2) by blast
    obtain req where req: "asks_about req (pr_turnPrefixMessages p)" "answered complete req" "t = assistantText (complete req)"
      using prefix_asked [OF split(1)] by blast
    have tail: "in_order [t] (x @ t @ files)" for x by auto
    show ?thesis
    proof (cases "pr_messagesToSummarize p = []")
      case True
      have "crs_summary r = (h @ before) @ t @ files" using files before by simp
      then have "summarised_by complete [(pr_turnPrefixMessages p, req)] (crs_summary r)" using req tail [of "h @ before"] by (simp add: summarised_by_def)
      then show ?thesis using True by (intro exI [of _ "[(pr_turnPrefixMessages p, req)]"]) simp
    next
      case False
      then obtain v where "?history = Inr (h, v)" using h by auto
      then obtain req0 where req0: "asks_about req0 (pr_messagesToSummarize p)" "answered complete req0" "h = assistantText (complete req0)"
        using history_asked by blast
      have "crs_summary r = [] @ h @ (before @ t @ files)" using files before by simp
      then have "in_order [h, t] (crs_summary r)" using tail [of before] by (metis in_order.simps(2))
      then have "summarised_by complete [(pr_messagesToSummarize p, req0), (pr_turnPrefixMessages p, req)] (crs_summary r)"
        using req req0 by (simp add: summarised_by_def)
      then show ?thesis by (intro exI [of _ "[(pr_messagesToSummarize p, req0), (pr_turnPrefixMessages p, req)]"]) simp
    qed
  qed
qed

lemma prepared_prefix_split: "prepareCompaction es settings = Inr (Some p) \<Longrightarrow> pr_turnPrefixMessages p \<noteq> [] \<longrightarrow> pr_isSplitTurn p"
  by (auto simp: prepareCompaction_def Let_def split: if_splits)

text \<open>The retained messages are those from an entry on, the first that is kept.\<close>

lemma prepared_kept_from:
  assumes "prepareCompaction es settings = Inr (Some p)"
  shows "\<exists>i < length es. pr_firstKeptEntryId p = te_id (es ! i) \<and> pr_retainedTail p = messages_between es i (length es)"
proof -
  have es: "es \<noteq> []" "\<not> is_compaction (te_body (last es))" using assms by (auto simp: prepareCompaction_def split: if_splits)
  let ?i = "cp_firstKeptEntryIndex (findCutPoint es (compaction_start es) (length es) (cs_keepRecentTokens settings))"
  have "?i < length es" by (rule findCutPoint_less [OF compaction_start_less [OF es]])
  then show ?thesis using assms es by (auto simp: prepareCompaction_def compaction_start_def Let_def split: if_splits)
qed

lemma compact_covers:
  assumes "prepareCompaction es settings = Inr (Some p)" "compact complete addMoney model p instructions level = Inr r"
  shows "\<exists>asked. concat (map fst asked) @ crs_retainedTail r = messages_between es (compaction_start es) (length es) \<and>
    summarised_by complete asked (crs_summary r)"
proof -
  have tail: "crs_retainedTail r = pr_retainedTail p" using compact_result(1) [OF assms(2)] by (metis surj_pair)
  have "es \<noteq> []" using assms(1) by (auto simp: prepareCompaction_def)
  then have all: "pr_messagesToSummarize p @ pr_turnPrefixMessages p @ pr_retainedTail p = messages_between es (compaction_start es) (length es)"
    using prepared_messages [OF assms(1)] by simp
  obtain asked where "concat (map fst asked) = pr_messagesToSummarize p @ pr_turnPrefixMessages p" "summarised_by complete asked (crs_summary r)"
    using compact_asks [OF assms(2) prepared_prefix_split [OF assms(1)]] by blast
  then show ?thesis using all tail by (intro exI [of _ asked]) simp
qed

text \<open>
  C11. A compaction neither loses nor doubles anything since the last one: the conversations that its requests show to the model, one
  after the other, and the messages it retains are exactly the messages of the entries from the boundary on; the answers to these
  requests stand in its summary in this order. The messages it retains are those from the first kept entry on. Its lists of files
  are sorted and no file is in both.\<close>
theorem compaction_partition:
  assumes "prepareCompaction es settings = Inr (Some p)" "compact complete addMoney model p instructions level = Inr r"
  shows "(\<exists>asked. concat (map fst asked) @ crs_retainedTail r = messages_between es (compaction_start es) (length es) \<and>
      summarised_by complete asked (crs_summary r)) \<and>
    (\<exists>i < length es. crs_firstKeptEntryId r = te_id (es ! i) \<and> crs_retainedTail r = messages_between es i (length es)) \<and>
    sorted (crs_readFiles r) \<and> sorted (crs_modifiedFiles r) \<and> set (crs_readFiles r) \<inter> set (crs_modifiedFiles r) = {}"
proof -
  obtain rf mf where files: "computeFileLists (pr_fileOps p) = (rf, mf)" by (cases "computeFileLists (pr_fileOps p)")
  note r = compact_result [OF assms(2) files]
  show ?thesis using compact_covers [OF assms] prepared_kept_from [OF assms(1)] computeFileLists_props [OF files] r by simp
qed

lemma valid_cut_message: "valid_cut e \<Longrightarrow> \<exists>m. getMessageFromEntryForCompaction e = Some m \<and> role_of m \<noteq> ToolResultRole"
  by (auto simp: valid_cut_def getMessageFromEntryForCompaction_def getMessageFromEntry_def createCustomMessage_def
      createBranchSummaryMessage_def split: tree_body.splits)

lemma skipped_message:
  "\<not> is_message (te_body e) \<Longrightarrow> \<not> is_compaction (te_body e) \<Longrightarrow> getMessageFromEntryForCompaction e = Some m \<Longrightarrow> role_of m \<noteq> ToolResultRole"
  by (cases "te_body e") (auto simp: getMessageFromEntryForCompaction_def getMessageFromEntry_def createCustomMessage_def
      createBranchSummaryMessage_def)

lemma messages_between_hd:
  "i < j \<Longrightarrow> getMessageFromEntryForCompaction (es ! i) = Some m \<Longrightarrow> messages_between es i j = m # messages_between es (Suc i) j"
  by (simp add: messages_between_def List.map_filter_def upt_conv_Cons)

lemma messages_between_set:
  "m \<in> set (messages_between es i j) \<longleftrightarrow> (\<exists>k. i \<le> k \<and> k < j \<and> getMessageFromEntryForCompaction (es ! k) = Some m)"
  by (force simp: messages_between_def List.map_filter_def)

text \<open>What is kept from a cut on starts with a message that is no tool result.\<close>

lemma kept_start:
  assumes "findValidCutPoints es start stop \<noteq> []"
  shows "let kept = messages_between es (cp_firstKeptEntryIndex (findCutPoint es start stop keep)) stop in
    kept \<noteq> [] \<and> role_of (hd kept) \<noteq> ToolResultRole"
proof -
  define c where "c = chosen_cut es start stop keep"
  define b where "b = back_up es start c"
  have c: "start \<le> c" "c < stop" "valid_cut (es ! c)"
    using chosen_cut_valid [OF assms, of keep] by (auto simp: cut_points_iff c_def)
  have b: "start \<le> b" "b \<le> c" using back_up_bounds [OF c(1), of es] by (auto simp: b_def)
  obtain m where m: "getMessageFromEntryForCompaction (es ! c) = Some m" "role_of m \<noteq> ToolResultRole"
    using valid_cut_message [OF c(3)] by blast
  have first: "role_of x \<noteq> ToolResultRole" if "x \<in> set (messages_between es b c)" for x
    using that back_up_between [OF c(1), of _ es] skipped_message by (auto simp: messages_between_set b_def)
  have split: "messages_between es b stop = messages_between es b c @ m # messages_between es (Suc c) stop"
    using messages_between_split [of b c stop es] b c messages_between_hd [OF c(2) m(1)] by simp
  have "messages_between es b stop \<noteq> [] \<and> role_of (hd (messages_between es b stop)) \<noteq> ToolResultRole"
    using first m(2) by (cases "messages_between es b c") (auto simp: split)
  then show ?thesis using findCutPoint_some(1) [OF assms, of keep] by (simp add: b_def c_def Let_def)
qed

text \<open>
  A compaction never keeps the result of a tool call without the call: when there is an entry to cut at, the
  retained messages are not empty and the first of them is no tool result.\<close>
lemma retained_tail_start:
  assumes "prepareCompaction es settings = Inr (Some p)" "findValidCutPoints es (compaction_start es) (length es) \<noteq> []"
  shows "pr_retainedTail p \<noteq> [] \<and> role_of (hd (pr_retainedTail p)) \<noteq> ToolResultRole"
proof -
  have "pr_retainedTail p = messages_between es (cp_firstKeptEntryIndex (findCutPoint es (compaction_start es) (length es) (cs_keepRecentTokens settings))) (length es)"
    using assms(1) by (auto simp: prepareCompaction_def Let_def compaction_start_def split: if_splits)
  with kept_start [OF assms(2), of "cs_keepRecentTokens settings"] show ?thesis by (simp add: Let_def)
qed

section \<open>The retained messages of an earlier compaction\<close>

lemma previous_compaction_Cons:
  assumes "is_compaction (te_body c)" "\<forall>e \<in> set rest. \<not> is_compaction (te_body e)"
  shows "previous_compaction (c # rest) = Some 0"
proof -
  have "List.find (\<lambda>i. is_compaction (te_body ((c # rest) ! i))) (rev [1..<length (c # rest)]) = None"
    using assms(2) by (auto simp: find_none nth_Cons split: nat.splits)
  moreover have "rev [0..<length (c # rest)] = rev [1..<length (c # rest)] @ [0]" by (simp add: upt_conv_Cons del: upt_Suc)
  ultimately show ?thesis using assms(1) by (simp add: previous_compaction_def find_append del: upt_Suc)
qed

lemma messages_between_drop: "i \<le> length es \<Longrightarrow> messages_between es i (length es) = List.map_filter getMessageFromEntryForCompaction (drop i es)"
proof (induction es arbitrary: i)
  case (Cons e es)
  have step: "messages_between (e # es) (Suc k) (length (e # es)) = messages_between es k (length es)" for k
    by (simp add: messages_between_def List.map_filter_def map_Suc_upt [symmetric] filter_map o_def del: upt_Suc)
  show ?case
  proof (cases i)
    case 0
    have "messages_between (e # es) 0 (length (e # es)) =
        (case getMessageFromEntryForCompaction e of None \<Rightarrow> [] | Some m \<Rightarrow> [m]) @ messages_between (e # es) 1 (length (e # es))"
      by (simp add: messages_between_def List.map_filter_def upt_conv_Cons del: upt_Suc split: option.splits)
    with step [of 0] Cons.IH [of 0] 0 show ?thesis by (simp add: List.map_filter_simps split: option.splits)
  next
    case (Suc k)
    then show ?thesis using step [of k] Cons.IH [of k] Cons.prems by simp
  qed
qed (simp add: messages_between_def List.map_filter_def)

text \<open>Without projectors the messages of an entry do not depend on where it stands.\<close>

definition entry_messages :: "tree_entry \<Rightarrow> agent_message list" where
  "entry_messages e = treeEntryToContextMessages e 0 [] no_tree_options"

lemma entry_messages_eq: "treeEntryToContextMessages e i es no_tree_options = entry_messages e"
  by (cases "te_body e") (simp_all add: entry_messages_def treeEntryToContextMessages_def no_tree_options_def)

lemma tree_context_messages_eq: "tree_context_messages path = concat (map entry_messages (treeContextEntryTransform path))"
proof -
  have "map (\<lambda>(i, e). treeEntryToContextMessages e i es no_tree_options) (enumerate n xs) = map entry_messages xs" for es n xs
    by (induction xs arbitrary: n) (simp_all add: entry_messages_eq)
  then show ?thesis
    by (simp add: tree_context_messages_def buildTreeContext_def buildTreeContextEntries_def no_tree_options_def [symmetric])
      (simp add: no_tree_options_def)
qed

text \<open>A branch that begins with a compaction whose first kept entry is not on it.\<close>

lemma compaction_after_tail:
  assumes "te_body c = TreeCompaction summary (Some k) tokens (Some tail) details u fromHook"
    and "\<forall>e \<in> set rest. \<not> is_compaction (te_body e)" "k \<notin> te_id ` set (c # rest)"
    and "prepareCompaction (c # rest) settings = Inr (Some p)"
  shows "tree_context_messages (c # rest) =
      CompactionSummaryMessage summary tokens (te_timestamp c) # tail @ concat (map entry_messages rest) \<and>
    pr_previousSummary p = Some summary \<and>
    pr_messagesToSummarize p @ pr_turnPrefixMessages p @ pr_retainedTail p = List.map_filter getMessageFromEntryForCompaction rest"
proof -
  have c: "is_compaction (te_body c)" using assms(1) by simp
  have prev: "previous_compaction (c # rest) = Some 0" by (rule previous_compaction_Cons [OF c assms(2)])
  have "index_where (\<lambda>e. te_id e = k) (c # rest) = None" using assms(3) by (intro index_where_none) auto
  then have "compaction_start (c # rest) = 1" using prev assms(1) by (simp add: compaction_start_def boundary_start_def)
  moreover have "entry_messages c = CompactionSummaryMessage summary tokens (te_timestamp c) # tail"
    using assms(1) by (simp add: entry_messages_def treeEntryToContextMessages_def createCompactionSummaryMessage_def)
  then have "tree_context_messages (c # rest) =
      CompactionSummaryMessage summary tokens (te_timestamp c) # tail @ concat (map entry_messages rest)"
    using transform_at_compaction [OF assms(1,2), of "[]"] by (simp add: tree_context_messages_eq)
  ultimately show ?thesis
    using prepared_messages [OF assms(4)] prev assms(1) messages_between_drop [of 1 "c # rest"] by (simp add: previous_summary_def)
qed

lemma branch_entries_known:
  assumes "tree_wf s" "getBranch memory_tree_ops s None = Some (Inr path)" "e \<in> set path"
  shows "tree_getEntry s (te_id e) = Some e"
proof -
  obtain es where es: "leaf_chain memory_tree_ops s es" using mem.leaf_chain_exists [OF assms(1)] by blast
  have "path = rev (cut_path None es)" using mem.branch_of_chain [OF assms(1) es] assms(2) by simp
  then have "e \<in> set es" using assms(3) cut_path_subset by auto
  then have "\<exists>i. tree_getEntry s i = Some e"
    using es ancestry_lookup [of "tree_getEntry s" _ _ e] by (force simp: leaf_chain_def memory_tree_ops_def split: sum.splits option.splits)
  then show ?thesis using assms(1) by (auto simp: tree_getEntry_eq tree_get)
qed

text \<open>The retained messages do not enter the summary: with any other messages in their place it is the same.\<close>

lemma summary_ignores_tail:
  assumes "compact complete addMoney model p instructions level = Inr r"
  shows "compact complete addMoney model (p\<lparr>pr_retainedTail := tail\<rparr>) instructions level = Inr (r\<lparr>crs_retainedTail := tail\<rparr>)"
proof -
  obtain rf mf where lists: "computeFileLists (pr_fileOps p) = (rf, mf)" by (cases "computeFileLists (pr_fileOps p)")
  have "compact_summary complete addMoney model (p\<lparr>pr_retainedTail := tail\<rparr>) instructions level =
      compact_summary complete addMoney model p instructions level"
    by (simp add: compact_summary_def Let_def)
  then show ?thesis using assms lists by (auto simp: compact_def bind_result_Inr_iff split: if_splits)
qed

text \<open>
  C14. Two compactions in a row lose messages. The first one stores the messages it retains in its entry, and from then on the
  branch of the session begins with that entry. The second looks for the first kept entry on the branch, does not find it
  and starts after the compaction: what it summarises and keeps are the messages of the entries since then only. The messages
  the first one retained, which the model still saw in the context, are neither in the text to be summarised nor kept, and the
  summary that is passed on does not cover them: the conversations its requests showed to the model end before the retained
  messages, and with any other messages retained in their place the summary is the same.\<close>
theorem retained_tail_dropped:
  assumes "tree_reachable s" "getBranch memory_tree_ops s None = Some (Inr path)"
    and "prepareCompaction path settings = Inr (Some p)" "compact complete addMoney model p instructions level = Inr r"
    and "ids_usable (tree_getEntry s) uuid"
    and "session_appendCompaction memory_tree_ops s uuid now (crs_summary r) (Some (crs_firstKeptEntryId r)) (crs_tokensBefore r) details
      hook (Some (crs_usage r)) (Some (crs_retainedTail r)) = (s1, Inr i)"
    and "all_usable memory_tree_ops s1 xs" "\<forall>x \<in> set xs. \<not> is_compaction (snd (snd x))" "append_all memory_tree_ops s1 xs = (s2, Inr v)"
    and "getBranch memory_tree_ops s2 None = Some (Inr path2)" "prepareCompaction path2 settings2 = Inr (Some q)"
  shows "\<exists>new. map te_body new = map (snd \<circ> snd) xs \<and>
    tree_context_messages path2 =
      CompactionSummaryMessage (crs_summary r) (crs_tokensBefore r) now # crs_retainedTail r @ concat (map entry_messages new) \<and>
    pr_previousSummary q = Some (crs_summary r) \<and>
    (\<exists>asked. concat (map fst asked) @ crs_retainedTail r = messages_between path (compaction_start path) (length path) \<and>
      summarised_by complete asked (crs_summary r)) \<and>
    (\<forall>others. \<exists>r'. compact complete addMoney model (p\<lparr>pr_retainedTail := others\<rparr>) instructions level = Inr r' \<and>
      crs_summary r' = crs_summary r) \<and>
    pr_messagesToSummarize q @ pr_turnPrefixMessages q @ pr_retainedTail q = List.map_filter getMessageFromEntryForCompaction new"
proof -
  have wf: "tree_wf s" by (rule tree_reachable_wf [OF assms(1)])
  have get: "to_getEntry memory_tree_ops = tree_getEntry" by (simp add: memory_tree_ops_def)
  from mem.branch_after_tail [OF wf _ assms(6-9)] assms(5) obtain c new where b: "getBranch memory_tree_ops s2 None = Some (Inr (c # new))"
    "te_timestamp c = now" "te_body c = TreeCompaction (crs_summary r) (Some (crs_firstKeptEntryId r)) (crs_tokensBefore r)
      (Some (crs_retainedTail r)) details (Some (crs_usage r)) hook"
    "map te_body new = map (snd \<circ> snd) xs" "\<forall>e \<in> set (c # new). tree_getEntry s (te_id e) = None"
    unfolding get by blast
  have path2: "path2 = c # new" using b(1) assms(10) by simp
  have plain: "\<forall>e \<in> set new. \<not> is_compaction (te_body e)"
  proof
    fix e assume "e \<in> set new"
    then have "te_body e \<in> set (map (snd \<circ> snd) xs)" using b(4) [symmetric] by simp
    then show "\<not> is_compaction (te_body e)" using assms(8) by auto
  qed
  have kept: "crs_firstKeptEntryId r = pr_firstKeptEntryId p"
    using compact_result(4) [OF assms(4)] by (metis surj_pair)
  from prepared_first_kept [OF assms(3)] obtain e where e: "e \<in> set path" "te_id e = crs_firstKeptEntryId r" using kept by auto
  have "tree_getEntry s (crs_firstKeptEntryId r) = Some e" using branch_entries_known [OF wf assms(2) e(1)] e(2) by simp
  then have "crs_firstKeptEntryId r \<notin> te_id ` set (c # new)" using b(5) by auto
  note after = compaction_after_tail [OF b(3) plain this assms(11) [unfolded path2]]
  have independent: "\<forall>others. \<exists>r'. compact complete addMoney model (p\<lparr>pr_retainedTail := others\<rparr>) instructions level = Inr r' \<and>
      crs_summary r' = crs_summary r"
    using summary_ignores_tail [OF assms(4)] by simp
  show ?thesis using after b(2,4) independent compact_covers [OF assms(3,4)] by (intro exI [of _ new]) (auto simp: path2)
qed

section \<open>The entries of an abandoned branch\<close>

lemma walk_up_chain:
  assumes "ancestry get e ps" "\<And>i x. get i = Some x \<Longrightarrow> te_id x = i \<and> i \<noteq> ''''" "get (te_id e) = Some e"
    and "\<forall>x \<in> set (e # ps). stop \<noteq> Some (te_id x)"
  shows "walk_up get stop (Some (te_id e)) acc = Some (Inr (acc @ e # ps))"
  using assms(1,3,4)
proof (induction ps arbitrary: e acc)
  case Nil
  have "te_id e \<noteq> ''''" using assms(2) [OF Nil(2)] by simp
  moreover have "walk_up get stop (te_parentId e) (acc @ [e]) = Some (Inr (acc @ [e]))"
    using Nil(1) by (subst walk_up.simps) (auto simp: truthy_def split: option.splits)
  ultimately show ?case using Nil by (subst walk_up.simps) auto
next
  case (Cons p ps)
  then obtain i where i: "te_parentId e = Some i" "get i = Some p" and anc: "ancestry get p ps"
    by (auto simp: truthy_def split: option.splits)
  then have p: "te_parentId e = Some (te_id p)" "get (te_id p) = Some p" using assms(2) [OF i(2)] by simp_all
  have "te_id e \<noteq> ''''" using assms(2) [OF Cons.prems(2)] by simp
  then show ?case
    using Cons.IH [OF anc p(2), of "acc @ [e]"] Cons.prems(2,3) by (subst walk_up.simps) (simp add: p(1) eq_commute [of stop])
qed

text \<open>\<^verbatim>\<open>session.getBranch(id)\<close> on a session in memory whose branches can be read.\<close>

definition branch_of :: "tree_storage \<Rightarrow> string \<Rightarrow> tree_entry list" where
  "branch_of s i = (case getBranch memory_tree_ops s (Some i) of Some (Inr path) \<Rightarrow> path | _ \<Rightarrow> [])"

lemma branch_of_entry:
  assumes "tree_wf s" "js_get (ts_byId s) i = Some e" "ancestry (js_get (ts_byId s)) e ps"
  shows "branch_of s i = rev (cut_path None (e # ps))"
proof -
  from tree_path [OF assms(1,2)] assms(3) have "getPathToRootOrCompaction s (Some i) = Some (Inr (rev (cut_path None (e # ps))))"
    using ancestry_unique by blast
  then show ?thesis by (simp add: branch_of_def getBranch_def memory_tree_ops_def del: cut_path.simps)
qed

text \<open>
  C32. Leaving a branch for an entry before its last compaction summarises history that both branches share, when the compaction
  carries its retained messages (as those that the harness appends do): the branch that is left then ends there and no common
  ancestor is found, so the entries to summarise are those of the whole way to the root, the target and its ancestors among them.\<close>
theorem shared_history_summarized:
  assumes "tree_reachable s" "tree_getEntry s (te_id e) = Some e" "ancestry (tree_getEntry s) e ps"
    and "e # ps = newer @ c # older" "keeps_tail (te_body c)" "\<forall>x \<in> set newer. \<not> is_compaction (te_body x)"
    and "target \<in> set older"
  shows "collectEntriesForBranchSummary (branch_of s) (tree_getEntry s) (Some (te_id e)) (te_id target) =
      Some (Inr (rev (newer @ c # older), None)) \<and> target \<in> set (rev (newer @ c # older))"
proof -
  have wf: "tree_wf s" by (rule tree_reachable_wf [OF assms(1)])
  let ?get = "js_get (ts_byId s)"
  have get: "tree_getEntry s = ?get" by (rule tree_getEntry_eq)
  have keys: "\<And>i x. ?get i = Some x \<Longrightarrow> te_id x = i \<and> i \<noteq> ''''" using wf tree_wf_fields(2) [OF wf] by (force simp: tree_get)
  have e: "?get (te_id e) = Some e" "ancestry ?get e ps" using assms(2,3) by (simp_all add: get)
  have d: "distinct (map te_id (e # ps))" by (rule entry_chain_distinct [OF wf e])
  have old: "branch_of s (te_id e) = rev (newer @ [c])"
    unfolding branch_of_entry [OF wf e] assms(4) using assms(5,6) by (subst cut_path_plain) auto
  obtain a b where ab: "older = a @ target # b" using assms(7) split_list by fast
  have anc: "ancestry ?get target b" using ancestry_suffix [OF e(2), of "newer @ c # a" target b] assms(4) ab by simp
  have "?get (te_id target) = Some target"
    using ancestry_lookup [OF e(2)] keys assms(4,7) e by (metis Un_iff list.set_intros(2) set_ConsD set_append)
  from branch_of_entry [OF wf this anc] have "set (branch_of s (te_id target)) \<subseteq> set older"
    using cut_path_subset [of None "target # b"] ab by auto
  moreover have "te_id ` set (newer @ [c]) \<inter> te_id ` set older = {}" using d unfolding assms(4) by auto
  ultimately have "\<forall>x \<in> set (rev (branch_of s (te_id target))). te_id x \<notin> te_id ` set (branch_of s (te_id e))"
    unfolding old by (metis disjoint_iff imageI set_rev subset_iff)
  then have none: "common_ancestor (branch_of s (te_id e)) (branch_of s (te_id target)) = None"
    by (simp add: common_ancestor_def find_none)
  have "walk_up ?get None (Some (te_id e)) [] = Some (Inr (e # ps))"
    using walk_up_chain [OF e(2) keys e(1), of None "[]"] by simp
  then show ?thesis
    using keys [OF e(1)] assms(4,7) by (simp add: collectEntriesForBranchSummary_def truthy_def none get Let_def)
qed

section \<open>A tool result larger than the budget\<close>

text \<open>
  When the newest message is a tool result that alone reaches the budget, no cut point lies behind it and the
  search falls back to the first cut point of all: everything is kept and nothing is summarised.
\<close>

lemma large_result_keeps_all:
  assumes "te_body (last es) = TreeMessage (ToolResultMessage r)" "keep \<le> estimateTokens (ToolResultMessage r)"
    and "es \<noteq> []" "valid_cut (hd es)" "is_message (te_body (hd es))"
  shows "cp_firstKeptEntryIndex (findCutPoint es 0 (length es) keep) = 0"
proof -
  define n where "n = length es - 1"
  have n: "length es = Suc n" "es ! n = last es" "n < length es" using assms(3) by (simp_all add: n_def last_conv_nth)
  have idx: "rev [0..<length es] = n # rev [0..<n]" by (simp add: n)
  have budget: "budget_index es keep 0 (rev [0..<length es]) = Some n"
    using assms(1,2) n(2) by (simp add: idx Let_def)
  have "\<not> valid_cut (es ! n)" using assms(1) n(2) by (simp add: valid_cut_def)
  then have none: "List.find (\<lambda>c. c \<ge> n) (findValidCutPoints es 0 (length es)) = None"
    by (auto simp: find_none cut_points_iff n(1) less_Suc_eq)
  have first: "findValidCutPoints es 0 (length es) = 0 # findValidCutPoints es 1 (length es)"
    using assms(3,4) by (simp add: findValidCutPoints_def upt_conv_Cons hd_conv_nth del: upt_Suc)
  have "chosen_cut es 0 (length es) keep = 0" using budget none first by (simp add: chosen_cut_def)
  then show ?thesis using findCutPoint_some(1) [of es 0 "length es" keep] first by simp
qed

section \<open>Instances\<close>

definition example_text :: "string \<Rightarrow> string \<Rightarrow> tree_entry" where
  "example_text i t = \<lparr>te_id = i, te_parentId = None, te_timestamp = 0, te_body = TreeMessage (UserMessage (PlainContent t) 0)\<rparr>"

definition example_settings :: compaction_settings where
  "example_settings = \<lparr>cs_enabled = True, cs_reserveTokens = 100, cs_keepRecentTokens = 1\<rparr>"

definition example_usage :: usage where
  "example_usage = \<lparr>u_input = 1, u_output = 1, u_cacheRead = 0, u_cacheWrite = 0, u_cacheWrite1h = None, u_reasoning = None,
     u_totalTokens = 2, u_cost = \<lparr>c_input = Dec 0 0, c_output = Dec 0 0, c_cacheRead = Dec 0 0, c_cacheWrite = Dec 0 0, c_total = Dec 0 0\<rparr>\<rparr>"

definition example_answer :: assistant_message where
  "example_answer = \<lparr>am_content = [AssistantText ''summary'' None], am_api = '''', am_provider = '''', am_model = '''',
     am_responseModel = None, am_responseId = None, am_diagnostics = None, am_usage = example_usage, am_stopReason = Stop,
     am_deferred = None, am_errorMessage = None, am_rawStopReason = None, am_endTurn = None, am_timestamp = 0\<rparr>"

definition example_model :: summary_model where
  "example_model = \<lparr>mo_maxTokens = 0, mo_contextWindow = 0, mo_reasoning = False\<rparr>"

lemma prepared_exists:
  assumes "es \<noteq> []" "\<not> is_compaction (te_body (last es))" "'''' \<notin> te_id ` set es"
  shows "\<exists>p. prepareCompaction es settings = Inr (Some p)"
proof -
  let ?cut = "findCutPoint es (compaction_start es) (length es) (cs_keepRecentTokens settings)"
  have "cp_firstKeptEntryIndex ?cut < length es"
    using findCutPoint_less [OF compaction_start_less [OF assms(1,2)]] .
  then have "te_id (es ! cp_firstKeptEntryIndex ?cut) \<noteq> ''''" using assms(3) by (metis image_eqI nth_mem)
  then show ?thesis
    using assms(1,2) by (simp add: prepareCompaction_def compaction_start_def Let_def)
qed

lemma example_answered: "summary_answer example_answer = Inr (assistantText example_answer, example_usage)"
  by (simp add: summary_answer_def example_answer_def)

lemma example_compacted:
  "pr_firstKeptEntryId p \<noteq> '''' \<Longrightarrow> \<exists>r. compact (\<lambda>_. example_answer) (\<lambda>a b. a) example_model p None None = Inr r"
  by (cases "computeFileLists (pr_fileOps p)")
    (simp add: compact_def compact_summary_def generateSummaryWithUsage_def generateTurnPrefixSummary_def example_answered Let_def)

definition example_branch :: "tree_entry list" where
  "example_branch = [example_text ''u1'' ''first'', example_text ''u2'' ''second'']"

lemma example_branch_prepared: "\<exists>p. prepareCompaction example_branch example_settings = Inr (Some p)"
  by (rule prepared_exists) (simp_all add: example_branch_def example_text_def)

lemma example_branch_start: "compaction_start example_branch = 0"
proof -
  have "previous_compaction example_branch = None"
    by (auto simp: previous_compaction_def find_none example_branch_def example_text_def less_Suc_eq)
  then show ?thesis by (simp add: compaction_start_def)
qed

theorem compaction_partition_witness:
  "\<exists>p r asked. prepareCompaction example_branch example_settings = Inr (Some p) \<and>
     compact (\<lambda>_. example_answer) (\<lambda>a b. a) example_model p None None = Inr r \<and>
     summarised_by (\<lambda>_. example_answer) asked (crs_summary r) \<and>
     concat (map fst asked) @ crs_retainedTail r =
       [UserMessage (PlainContent ''first'') 0, UserMessage (PlainContent ''second'') 0]"
proof -
  obtain p where p: "prepareCompaction example_branch example_settings = Inr (Some p)" using example_branch_prepared by blast
  from prepared_first_kept [OF p] have "pr_firstKeptEntryId p \<noteq> ''''" by (auto simp: example_branch_def example_text_def)
  then obtain r where r: "compact (\<lambda>_. example_answer) (\<lambda>a b. a) example_model p None None = Inr r"
    using example_compacted by blast
  have "messages_between example_branch 0 (length example_branch) =
      [UserMessage (PlainContent ''first'') 0, UserMessage (PlainContent ''second'') 0]"
    by (simp add: messages_between_def List.map_filter_def example_branch_def example_text_def
        getMessageFromEntryForCompaction_def getMessageFromEntry_def)
  with compaction_partition [OF p r] p r show ?thesis by (metis example_branch_start)
qed

definition conversation_entry :: "string \<Rightarrow> string option \<Rightarrow> tree_body \<Rightarrow> tree_entry" where
  "conversation_entry i parent body = \<lparr>te_id = i, te_parentId = parent, te_timestamp = 0, te_body = body\<rparr>"

definition conversation :: "tree_entry list \<Rightarrow> string option \<Rightarrow> tree_storage" where
  "conversation es leaf = \<lparr>ts_metadata = tree_demo_metadata, ts_entries = es, ts_byId = map (\<lambda>e. (te_id e, e)) es, ts_labelsById = [], ts_leafId = leaf\<rparr>"

abbreviation text_body :: "string \<Rightarrow> tree_body" where "text_body t \<equiv> TreeMessage (UserMessage (PlainContent t) 0)"

abbreviation first_message :: tree_entry where "first_message \<equiv> conversation_entry ''u1'' None (text_body ''first'')"
abbreviation second_message :: tree_entry where "second_message \<equiv> conversation_entry ''u2'' (Some ''u1'') (text_body ''second'')"
abbreviation tail_compaction :: tree_entry where
  "tail_compaction \<equiv> conversation_entry ''c'' (Some ''u1'') (TreeCompaction ''so far'' (Some ''u1'') 9 (Some []) None None False)"

lemma conversation_append:
  assumes "\<forall>i. leaf = Some i \<longrightarrow> i \<in> te_id ` set es" "short_id u \<notin> te_id ` set es"
    and "\<not> is_leaf_body body" "\<forall>target label. body \<noteq> TreeLabel target label"
  shows "append_below_leaf memory_tree_ops (conversation es leaf) (\<lambda>_. u) 0 body =
    (conversation (es @ [conversation_entry (short_id u) leaf body]) (Some (short_id u)), Inr (short_id u))"
proof -
  have has: "js_has (map (\<lambda>e. (te_id e, e)) es) i \<longleftrightarrow> i \<in> te_id ` set es" for i by (induction es) auto
  then have set: "js_set (map (\<lambda>e. (te_id e, e)) es) (short_id u) e = map (\<lambda>e. (te_id e, e)) es @ [(short_id u, e)]" for e
    using assms(2) by (simp add: js_set_new)
  have "generateEntryId (ts_byId (conversation es leaf)) (\<lambda>_. u) = short_id u"
    using assms(2) by (simp add: generateEntryId_first has conversation_def)
  moreover have "tree_getLeafId (conversation es leaf) = Inr leaf"
    using assms(1) by (cases leaf) (simp_all add: tree_getLeafId_def conversation_def has)
  moreover have "updateLabelCache labels (conversation_entry i parent body) = labels"
    "leafIdAfterEntry (conversation_entry i parent body) = Some i" for labels i parent
    using assms(3,4) by (cases body; simp add: updateLabelCache_def leafIdAfterEntry_def conversation_entry_def)+
  ultimately show ?thesis
    by (simp add: append_below_leaf_def memory_tree_ops_def Let_def tree_createEntryId_def tree_appendEntry_def tree_push_def
        conversation_entry_def) (simp add: conversation_def set)
qed

lemma conversation_extends:
  assumes "tree_reachable (conversation es leaf)" "\<forall>i. leaf = Some i \<longrightarrow> i \<in> te_id ` set es" "u \<notin> te_id ` set es"
    and "\<not> is_leaf_body body" "\<forall>target label. body \<noteq> TreeLabel target label" "u \<noteq> ''''" "length u \<le> 8"
  shows "tree_reachable (conversation (es @ [conversation_entry u leaf body]) (Some u))"
proof (rule appended [OF assms(1)])
  have "js_get (map (\<lambda>e. (te_id e, e)) es) u = None" using assms(3) by (induction es) auto
  then show "ids_usable (tree_getEntry (conversation es leaf)) (\<lambda>_. u)"
    using assms(6) by (simp add: ids_usable_def tree_getEntry_def conversation_def)
  show "append_below_leaf memory_tree_ops (conversation es leaf) (\<lambda>_. u) 0 body = (conversation (es @ [conversation_entry u leaf body]) (Some u), Inr u)"
    using conversation_append [OF assms(2) _ assms(4,5), of u] assms(3,7) by (simp add: short_id_def)
qed (rule assms(4))

lemma conversation_started: "tree_reachable (conversation [first_message] (Some ''u1''))"
proof -
  have "tree_reachable (conversation [] None)"
    by (rule created [of tree_demo_metadata]) (simp add: new_tree_storage_def conversation_def buildLabelsById_def)
  from conversation_extends [OF this, of "''u1''" "text_body ''first''"] show ?thesis by simp
qed

lemma conversation_reachable: "tree_reachable (conversation [first_message, second_message] (Some ''u2''))"
  using conversation_extends [OF conversation_started, of "''u2''" "text_body ''second''"] by (simp add: conversation_entry_def)

lemma conversation_compacted: "tree_reachable (conversation [first_message, tail_compaction] (Some ''c''))"
  using conversation_extends [OF conversation_started, of "''c''" "te_body tail_compaction"] by (simp add: conversation_entry_def)

theorem shared_history_summarized_witness:
  "collectEntriesForBranchSummary (branch_of (conversation [first_message, tail_compaction] (Some ''c'')))
     (tree_getEntry (conversation [first_message, tail_compaction] (Some ''c''))) (Some ''c'') ''u1'' =
   Some (Inr ([first_message, tail_compaction], None))"
  using shared_history_summarized [OF conversation_compacted, of tail_compaction "[first_message]" "[]" tail_compaction "[first_message]" first_message]
  by (simp add: tree_getEntry_def conversation_def conversation_entry_def truthy_def)

lemma memory_append_succeeds: "tree_wf s \<Longrightarrow> \<exists>s' i. append_below_leaf memory_tree_ops s uuid now body = (s', Inr i)"
  by (simp add: append_below_leaf_def memory_tree_ops_def Let_def tree_leaf tree_appendEntry_def)

lemma branch_prepared:
  assumes "tree_wf s" "getBranch memory_tree_ops s None = Some (Inr path)" "path \<noteq> []" "\<not> is_compaction (te_body (last path))"
  shows "\<exists>p. prepareCompaction path settings = Inr (Some p)"
proof (rule prepared_exists [OF assms(3,4)])
  have "te_id e \<noteq> ''''" if "e \<in> set path" for e
    using branch_entries_known [OF assms(1,2) that] tree_wf_fields(2) [OF assms(1)] assms(1) by (force simp: tree_getEntry_eq tree_get)
  then show "'''' \<notin> te_id ` set path" by (metis imageE)
qed

theorem retained_tail_dropped_witness:
  "\<exists>s path p r s1 i s2 path2 q. getBranch memory_tree_ops s None = Some (Inr path) \<and> prepareCompaction path example_settings = Inr (Some p) \<and>
     compact (\<lambda>_. example_answer) (\<lambda>a b. a) example_model p None None = Inr r \<and>
     session_appendCompaction memory_tree_ops s (\<lambda>_. ''c'') 8 (crs_summary r) (Some (crs_firstKeptEntryId r)) (crs_tokensBefore r) None
       False (Some (crs_usage r)) (Some (crs_retainedTail r)) = (s1, Inr i) \<and>
     append_all memory_tree_ops s1 [(\<lambda>_. ''u3'', 9, TreeMessage (UserMessage (PlainContent ''third'') 9))] = (s2, Inr ()) \<and>
     getBranch memory_tree_ops s2 None = Some (Inr path2) \<and> prepareCompaction path2 example_settings = Inr (Some q) \<and>
     tree_context_messages path2 = CompactionSummaryMessage (crs_summary r) (crs_tokensBefore r) 8 # crs_retainedTail r @
       [UserMessage (PlainContent ''third'') 9] \<and>
     pr_messagesToSummarize q @ pr_turnPrefixMessages q @ pr_retainedTail q = [UserMessage (PlainContent ''third'') 9]"
proof -
  let ?s = "conversation [first_message, second_message] (Some ''u2'')"
  let ?xs = "[(\<lambda>_ :: nat. ''u3'', 9 :: int, TreeMessage (UserMessage (PlainContent ''third'') 9))]"
  note reach = conversation_reachable
  note wf = tree_reachable_wf [OF reach]
  have chain: "leaf_chain memory_tree_ops ?s [second_message, first_message]"
    by (simp add: leaf_chain_def memory_tree_ops_def tree_getLeafId_def tree_getEntry_def conversation_def conversation_entry_def truthy_def)
  have branch: "getBranch memory_tree_ops ?s None = Some (Inr [first_message, second_message])"
    using mem.branch_of_chain [OF wf chain] by (simp add: conversation_entry_def)
  obtain p where p: "prepareCompaction [first_message, second_message] example_settings = Inr (Some p)"
    using branch_prepared [OF wf branch] by (auto simp: conversation_entry_def)
  from prepared_first_kept [OF p] have "pr_firstKeptEntryId p \<noteq> ''''" by (auto simp: conversation_entry_def)
  then obtain r where r: "compact (\<lambda>_. example_answer) (\<lambda>a b. a) example_model p None None = Inr r" using example_compacted by blast
  have usable: "ids_usable (tree_getEntry ?s) (\<lambda>_. ''c'')"
    by (simp add: ids_usable_def tree_getEntry_def conversation_def conversation_entry_def)
  obtain s1 i where app: "session_appendCompaction memory_tree_ops ?s (\<lambda>_. ''c'') 8 (crs_summary r) (Some (crs_firstKeptEntryId r))
      (crs_tokensBefore r) None False (Some (crs_usage r)) (Some (crs_retainedTail r)) = (s1, Inr i)"
    using memory_append_succeeds [OF wf] unfolding session_appendCompaction_def by blast
  have get: "to_getEntry memory_tree_ops = tree_getEntry" by (simp add: memory_tree_ops_def)
  have i: "i = ''c''"
    using app by (simp add: session_appendCompaction_def append_below_leaf_def memory_tree_ops_def Let_def tree_getLeafId_def
        tree_appendEntry_def tree_createEntryId_def generateEntryId_first conversation_def conversation_entry_def short_id_def)
  from mem.append_cases [OF wf usable [folded get] _ chain app [unfolded session_appendCompaction_def]]
  have s1: "tree_wf s1" "\<exists>c. tree_getEntry s1 = (tree_getEntry ?s)(''c'' \<mapsto> c)" by (auto simp: get i)
  have "tree_getEntry ?s ''u3'' = None" by (simp add: tree_getEntry_def conversation_def conversation_entry_def)
  with s1(2) have xs: "all_usable memory_tree_ops s1 ?xs" by (auto simp: get ids_usable_def)
  obtain s2 j where "append_below_leaf memory_tree_ops s1 (\<lambda>_. ''u3'') 9 (TreeMessage (UserMessage (PlainContent ''third'') 9)) = (s2, Inr j)"
    using memory_append_succeeds [OF s1(1)] by blast
  then have s2: "append_all memory_tree_ops s1 ?xs = (s2, Inr ())" by simp
  from mem.branch_after_tail [OF wf usable [folded get] app xs _ s2] obtain c new where b: "getBranch memory_tree_ops s2 None = Some (Inr (c # new))"
    "map te_body new = [TreeMessage (UserMessage (PlainContent ''third'') 9)]"
    by auto
  obtain es where "leaf_chain memory_tree_ops s1 es" using mem.leaf_chain_exists [OF s1(1)] by blast
  then have wf2: "tree_wf s2" using mem.append_all_chain [OF s1(1) xs _ s2] by blast
  obtain e where e: "new = [e]" "te_body e = TreeMessage (UserMessage (PlainContent ''third'') 9)" using b(2) by auto
  obtain q where q: "prepareCompaction (c # new) example_settings = Inr (Some q)"
    using branch_prepared [OF wf2 b(1)] e by auto
  have plain: "\<forall>x \<in> set ?xs. \<not> is_compaction (snd (snd x))" by simp
  from retained_tail_dropped [OF reach branch p r usable app xs plain s2 b(1) q] obtain new' where new':
    "map te_body new' = map (snd \<circ> snd) ?xs"
    "tree_context_messages (c # new) = CompactionSummaryMessage (crs_summary r) (crs_tokensBefore r) 8 # crs_retainedTail r @ concat (map entry_messages new')"
    "pr_messagesToSummarize q @ pr_turnPrefixMessages q @ pr_retainedTail q = List.map_filter getMessageFromEntryForCompaction new'"
    by blast
  then obtain e' where "new' = [e']" "te_body e' = TreeMessage (UserMessage (PlainContent ''third'') 9)" by auto
  then have msgs: "concat (map entry_messages new') = [UserMessage (PlainContent ''third'') 9]"
    "List.map_filter getMessageFromEntryForCompaction new' = [UserMessage (PlainContent ''third'') 9]"
    by (simp_all add: entry_messages_def treeEntryToContextMessages_def List.map_filter_simps getMessageFromEntryForCompaction_def getMessageFromEntry_def)
  note ctx = new'(2) [unfolded msgs] and lost = new'(3) [unfolded msgs]
  show ?thesis
    by (rule exI [of _ ?s], intro exI conjI) (rule branch p r app s2 b(1) q ctx lost)+
qed

end
