(* ===== verification/Agent_Loop.thy ===== *)
theory Agent_Loop
  imports Session_Types "HOL-Library.State_Monad"
begin

text \<open>
  The agent loop, \<^verbatim>\<open>packages/agent/src/agent-loop.ts\<close>, with \<^verbatim>\<open>packages/agent/src/iteration-budget.ts\<close> and
  the types of \<^verbatim>\<open>packages/agent/src/types.ts\<close> that it uses.

  The loop calls code it does not own: the stream function, the tools, the validation of
  their arguments, and the hooks of its configuration. These are arguments of the model,
  functions of a world of type \<open>'w\<close> that they may change; they stand for any behaviour
  that the contracts in \<^verbatim>\<open>types.ts\<close> allow (hooks do not throw; what a tool, \<^verbatim>\<open>beforeToolCall\<close> or
  \<^verbatim>\<open>afterToolCall\<close> throws is a value on the left of a sum). The loop's own effects are the state of a
  state monad: the events it has emitted, its context and its new messages.

  Concurrent tool calls run one after the other in the order \<open>ev_schedule\<close> gives for their
  completion, so that their events are interleaved by whole calls.
\<close>

section \<open>The iteration budget\<close>

record iteration_budget =
  maxTotal :: int
  usedTotal :: int

definition default_max_iterations :: int where
  "default_max_iterations = 500"

datatype loop_error = BadMaxTotal | NothingToContinue | ContinueFromAssistant

definition budget_new :: "js_num \<Rightarrow> loop_error + iteration_budget" where
  "budget_new n = (case n of
      JsNonInt \<Rightarrow> Inl BadMaxTotal
    | JsInt m \<Rightarrow> if 1 \<le> m \<and> m < 2 ^ 53 then Inr \<lparr>maxTotal = m, usedTotal = 0\<rparr> else Inl BadMaxTotal)"

definition budget_consume :: "iteration_budget \<Rightarrow> bool \<times> iteration_budget" where
  "budget_consume b = (if usedTotal b \<ge> maxTotal b then (False, b) else (True, b\<lparr>usedTotal := usedTotal b + 1\<rparr>))"

definition budget_refund :: "iteration_budget \<Rightarrow> iteration_budget" where
  "budget_refund b = (if usedTotal b > 0 then b\<lparr>usedTotal := usedTotal b - 1\<rparr> else b)"

definition budget_remaining :: "iteration_budget \<Rightarrow> int" where
  "budget_remaining b = max 0 (maxTotal b - usedTotal b)"

section \<open>Tools, configuration and events\<close>

record agent_tool_result =
  tres_content :: "content_block list option" \<comment> \<open>absent in results of untyped tools\<close>
  tres_details :: "json option"
  tres_usage :: "usage option"
  tres_addedToolNames :: "string list option"
  tres_terminate :: "bool option"

record 'w agent_tool =
  tool_name :: string
  tool_sequential :: bool
  tool_prepareArguments :: "(json \<Rightarrow> string + json) option"
  tool_validate :: "json \<Rightarrow> string + json"
  tool_execute :: "'w \<Rightarrow> string \<Rightarrow> json \<Rightarrow> (agent_tool_result list \<times> (string + agent_tool_result)) \<times> 'w"

record 'w agent_context =
  ac_systemPrompt :: string
  ac_messages :: "agent_message list"
  ac_tools :: "'w agent_tool list option"

record model_id =
  mo_api :: string
  mo_provider :: string
  mo_id :: string

record loop_config =
  cfg_model :: model_id
  cfg_reasoning :: "string option"
  cfg_apiKey :: "string option"
  cfg_sequential :: bool

record 'w llm_request =
  req_model :: model_id
  req_reasoning :: "string option"
  req_apiKey :: "string option"
  req_systemPrompt :: string
  req_messages :: "agent_message list"
  req_tools :: "'w agent_tool list option"

datatype stream_event = StreamStart assistant_message | StreamPart assistant_message | StreamEnd

record before_result =
  br_block :: bool
  br_reason :: "string option"
  br_terminate :: "bool option"

record after_result =
  ar_content :: "content_block list option"
  ar_details :: "json option"
  ar_isError :: "bool option"
  ar_usage :: "usage option"
  ar_terminate :: "bool option"

record 'w turn_report =
  tp_message :: assistant_message
  tp_toolResults :: "tool_result_message list"
  tp_context :: "'w agent_context"
  tp_newMessages :: "agent_message list"

record 'w turn_update =
  tu_context :: "'w agent_context option"
  tu_model :: "model_id option"
  tu_thinkingLevel :: "string option"

record 'w agent_env =
  ev_steering :: "'w \<Rightarrow> agent_message list \<times> 'w"
  ev_followUp :: "'w \<Rightarrow> agent_message list \<times> 'w"
  ev_transform :: "'w \<Rightarrow> agent_message list \<Rightarrow> agent_message list \<times> 'w"
  ev_convert :: "'w \<Rightarrow> agent_message list \<Rightarrow> agent_message list \<times> 'w"
  ev_getApiKey :: "'w \<Rightarrow> string \<Rightarrow> string option \<times> 'w"
  ev_stream :: "'w \<Rightarrow> 'w llm_request \<Rightarrow> (stream_event list \<times> assistant_message) \<times> 'w"
  ev_before :: "('w \<Rightarrow> assistant_message \<Rightarrow> tool_call \<Rightarrow> json \<Rightarrow> 'w agent_context \<Rightarrow> (string + before_result option) \<times> 'w) option"
  ev_after :: "('w \<Rightarrow> assistant_message \<Rightarrow> tool_call \<Rightarrow> json \<Rightarrow> agent_tool_result \<Rightarrow> bool \<Rightarrow> 'w agent_context
     \<Rightarrow> (string + after_result option) \<times> 'w) option"
  ev_prepareNextTurn :: "'w \<Rightarrow> 'w turn_report \<Rightarrow> 'w turn_update option \<times> 'w"
  ev_shouldStop :: "'w \<Rightarrow> 'w turn_report \<Rightarrow> bool \<times> 'w"
  ev_aborted :: "'w \<Rightarrow> bool"
  ev_now :: "'w \<Rightarrow> int"
  ev_schedule :: "'w \<Rightarrow> nat list"

datatype agent_event =
    AgentStart
  | AgentEnd "agent_message list"
  | FollowUpStart
  | TurnStart
  | TurnEnd assistant_message "tool_result_message list"
  | MessageStart agent_message
  | MessageUpdate agent_message
  | MessageEnd agent_message
  | ToolExecutionStart string string json
  | ToolExecutionUpdate string string json agent_tool_result
  | ToolExecutionEnd string string agent_tool_result bool

record 'w loop_state =
  ls_world :: 'w
  ls_events :: "agent_event list"
  ls_context :: "'w agent_context"
  ls_new :: "agent_message list"

type_synonym ('w, 'a) loop = "('w loop_state, 'a) state"

definition emit :: "agent_event \<Rightarrow> ('w, unit) loop" where
  "emit e = State (\<lambda>s. ((), s\<lparr>ls_events := ls_events s @ [e]\<rparr>))"

text \<open>A call of code the loop does not own.\<close>

definition call_out :: "('w \<Rightarrow> 'a \<times> 'w) \<Rightarrow> ('w, 'a) loop" where
  "call_out f = State (\<lambda>s. case f (ls_world s) of (a, w) \<Rightarrow> (a, s\<lparr>ls_world := w\<rparr>))"

definition read_world :: "('w \<Rightarrow> 'a) \<Rightarrow> ('w, 'a) loop" where
  "read_world f = State (\<lambda>s. (f (ls_world s), s))"

definition get_context :: "('w, 'w agent_context) loop" where
  "get_context = State (\<lambda>s. (ls_context s, s))"

definition set_messages :: "(agent_message list \<Rightarrow> agent_message list) \<Rightarrow> ('w, unit) loop" where
  "set_messages f = State (\<lambda>s. ((), s\<lparr>ls_context := (ls_context s)\<lparr>ac_messages := f (ac_messages (ls_context s))\<rparr>\<rparr>))"

definition push_context :: "agent_message \<Rightarrow> ('w, unit) loop" where
  "push_context m = set_messages (\<lambda>ms. ms @ [m])"

text \<open>\<^verbatim>\<open>context.messages[context.messages.length - 1] = m\<close>\<close>

definition replace_last :: "agent_message \<Rightarrow> ('w, unit) loop" where
  "replace_last m = set_messages (\<lambda>ms. butlast ms @ [m])"

definition push_new :: "agent_message \<Rightarrow> ('w, unit) loop" where
  "push_new m = State (\<lambda>s. ((), s\<lparr>ls_new := ls_new s @ [m]\<rparr>))"

fun for_each :: "('a \<Rightarrow> ('w, unit) loop) \<Rightarrow> 'a list \<Rightarrow> ('w, unit) loop" where
  "for_each f [] = State_Monad.return ()"
| "for_each f (x # xs) = do { f x; for_each f xs }"

section \<open>Streaming a response\<close>

definition finish_stream :: "bool \<Rightarrow> assistant_message \<Rightarrow> ('w, assistant_message) loop" where
  "finish_stream addedPartial m = do {
     (if addedPartial then replace_last (AssistantMessage m) else push_context (AssistantMessage m));
     (if addedPartial then State_Monad.return () else emit (MessageStart (AssistantMessage m)));
     emit (MessageEnd (AssistantMessage m));
     State_Monad.return m }"

fun stream_loop :: "assistant_message \<Rightarrow> bool \<Rightarrow> stream_event list \<Rightarrow> ('w, assistant_message) loop" where
  "stream_loop final added [] = finish_stream added final"
| "stream_loop final added (StreamStart p # evs) = do {
     push_context (AssistantMessage p);
     emit (MessageStart (AssistantMessage p));
     stream_loop final True evs }"
| "stream_loop final added (StreamPart p # evs) = do {
     (if added then do { replace_last (AssistantMessage p); emit (MessageUpdate (AssistantMessage p)) }
      else State_Monad.return ());
     stream_loop final added evs }"
| "stream_loop final added (StreamEnd # evs) = finish_stream added final"

definition streamAssistantResponse :: "'w agent_env \<Rightarrow> loop_config \<Rightarrow> ('w, assistant_message) loop" where
  "streamAssistantResponse env cfg = do {
     context \<leftarrow> get_context;
     messages \<leftarrow> call_out (\<lambda>w. ev_transform env w (ac_messages context));
     llmMessages \<leftarrow> call_out (\<lambda>w. ev_convert env w messages);
     key \<leftarrow> call_out (\<lambda>w. ev_getApiKey env w (mo_provider (cfg_model cfg)));
     (events, final) \<leftarrow> call_out (\<lambda>w. ev_stream env w \<lparr>req_model = cfg_model cfg, req_reasoning = cfg_reasoning cfg,
        req_apiKey = (if truthy key then key else cfg_apiKey cfg), req_systemPrompt = ac_systemPrompt context,
        req_messages = llmMessages, req_tools = ac_tools context\<rparr>);
     stream_loop final False events }"

section \<open>Tool calls\<close>

record finalized_call =
  fin_toolCall :: tool_call
  fin_result :: agent_tool_result
  fin_isError :: bool

record 'w prepared_call =
  pc_toolCall :: tool_call
  pc_tool :: "'w agent_tool"
  pc_args :: json

datatype 'w preparation = ImmediateCall agent_tool_result bool | PreparedCall "'w prepared_call"

record tool_batch =
  tb_messages :: "tool_result_message list"
  tb_terminate :: bool

definition createErrorToolResult :: "string \<Rightarrow> agent_tool_result" where
  "createErrorToolResult message = \<lparr>tres_content = Some [TextContent message None], tres_details = Some (JObj fmempty),
     tres_usage = None, tres_addedToolNames = None, tres_terminate = None\<rparr>"

definition emitToolExecutionEnd :: "finalized_call \<Rightarrow> ('w, unit) loop" where
  "emitToolExecutionEnd f =
     emit (ToolExecutionEnd (tc_id (fin_toolCall f)) (tc_name (fin_toolCall f)) (fin_result f) (fin_isError f))"

definition tool_result_of :: "finalized_call \<Rightarrow> int \<Rightarrow> tool_result_message" where
  "tool_result_of f now = \<lparr>tr_toolCallId = tc_id (fin_toolCall f), tr_toolName = tc_name (fin_toolCall f),
     tr_content = (case tres_content (fin_result f) of None \<Rightarrow> [] | Some c \<Rightarrow> c),
     tr_details = tres_details (fin_result f), tr_usage = tres_usage (fin_result f),
     tr_addedToolNames = (if tres_addedToolNames (fin_result f) = Some [] then None else tres_addedToolNames (fin_result f)),
     tr_isError = fin_isError f, tr_timestamp = now\<rparr>"

definition createToolResultMessage :: "'w agent_env \<Rightarrow> finalized_call \<Rightarrow> ('w, tool_result_message) loop" where
  "createToolResultMessage env f = do { now \<leftarrow> read_world (ev_now env); State_Monad.return (tool_result_of f now) }"

definition emitToolResultMessage :: "tool_result_message \<Rightarrow> ('w, unit) loop" where
  "emitToolResultMessage m = do {
     emit (MessageStart (ToolResultMessage m));
     emit (MessageEnd (ToolResultMessage m)) }"

definition shouldTerminateToolBatch :: "finalized_call list \<Rightarrow> bool" where
  "shouldTerminateToolBatch fs \<longleftrightarrow> fs \<noteq> [] \<and> list_all (\<lambda>f. tres_terminate (fin_result f) = Some True) fs"

definition emit_start :: "tool_call \<Rightarrow> ('w, unit) loop" where
  "emit_start c = emit (ToolExecutionStart (tc_id c) (tc_name c) (tc_arguments c))"

definition truncated_text :: "string \<Rightarrow> string" where
  "truncated_text toolName = ''Tool call \"'' @ toolName @ ''\" was not executed: the response hit the output token limit, so its arguments may be truncated. Re-issue the tool call with complete arguments.''"

fun failToolCallsFromTruncatedMessage :: "'w agent_env \<Rightarrow> tool_call list \<Rightarrow> ('w, tool_result_message list) loop" where
  "failToolCallsFromTruncatedMessage env [] = State_Monad.return []"
| "failToolCallsFromTruncatedMessage env (c # cs) = do {
     emit_start c;
     let f = \<lparr>fin_toolCall = c, fin_result = createErrorToolResult (truncated_text (tc_name c)), fin_isError = True\<rparr>;
     emitToolExecutionEnd f;
     m \<leftarrow> createToolResultMessage env f;
     emitToolResultMessage m;
     ms \<leftarrow> failToolCallsFromTruncatedMessage env cs;
     State_Monad.return (m # ms) }"

definition find_tool :: "'w agent_context \<Rightarrow> string \<Rightarrow> 'w agent_tool option" where
  "find_tool context n = (case ac_tools context of None \<Rightarrow> None | Some ts \<Rightarrow> find (\<lambda>t. tool_name t = n) ts)"

definition prepareToolCallArguments :: "'w agent_tool \<Rightarrow> tool_call \<Rightarrow> string + tool_call" where
  "prepareToolCallArguments tool c = (case tool_prepareArguments tool of
      None \<Rightarrow> Inr c
    | Some f \<Rightarrow> map_sum id (\<lambda>args. c\<lparr>tc_arguments := args\<rparr>) (f (tc_arguments c)))"

definition aborted_call :: "'w preparation" where
  "aborted_call = ImmediateCall (createErrorToolResult ''Operation aborted'') True"

definition blocked_call :: "before_result \<Rightarrow> 'w preparation" where
  "blocked_call b = ImmediateCall
     ((createErrorToolResult (case br_reason b of Some r \<Rightarrow> if r = '''' then ''Tool execution was blocked'' else r
         | None \<Rightarrow> ''Tool execution was blocked''))
       \<lparr>tres_terminate := (if br_terminate b = Some True then Some True else None)\<rparr>) True"

definition prepareToolCall :: "'w agent_env \<Rightarrow> assistant_message \<Rightarrow> tool_call \<Rightarrow> ('w, 'w preparation) loop" where
  "prepareToolCall env am c = do {
     context \<leftarrow> get_context;
     (case find_tool context (tc_name c) of
        None \<Rightarrow> State_Monad.return (ImmediateCall (createErrorToolResult (''Tool '' @ tc_name c @ '' not found'')) True)
      | Some tool \<Rightarrow>
          (case bind_result (prepareToolCallArguments tool c) (\<lambda>p. tool_validate tool (tc_arguments p)) of
             Inl message \<Rightarrow> State_Monad.return (ImmediateCall (createErrorToolResult message) True)
           | Inr args \<Rightarrow> do {
               early \<leftarrow> (case ev_before env of
                   None \<Rightarrow> State_Monad.return None
                 | Some before \<Rightarrow> do {
                     r \<leftarrow> call_out (\<lambda>w. before w am c args context);
                     aborted \<leftarrow> read_world (ev_aborted env);
                     State_Monad.return (case r of
                         Inl message \<Rightarrow> Some (ImmediateCall (createErrorToolResult message) True)
                       | Inr b \<Rightarrow>
                           if aborted then Some aborted_call
                           else (case b of
                                   Some b' \<Rightarrow> if br_block b' then Some (blocked_call b') else None
                                 | None \<Rightarrow> None)) });
               (case early of
                  Some p \<Rightarrow> State_Monad.return p
                | None \<Rightarrow> do {
                    aborted \<leftarrow> read_world (ev_aborted env);
                    State_Monad.return (if aborted then aborted_call
                      else PreparedCall \<lparr>pc_toolCall = c, pc_tool = tool, pc_args = args\<rparr>) }) })) }"

definition executePreparedToolCall :: "'w prepared_call \<Rightarrow> ('w, agent_tool_result \<times> bool) loop" where
  "executePreparedToolCall p = do {
     (updates, r) \<leftarrow> call_out (\<lambda>w. tool_execute (pc_tool p) w (tc_id (pc_toolCall p)) (pc_args p));
     for_each (\<lambda>u. emit (ToolExecutionUpdate (tc_id (pc_toolCall p)) (tc_name (pc_toolCall p)) (tc_arguments (pc_toolCall p)) u)) updates;
     State_Monad.return (case r of Inl message \<Rightarrow> (createErrorToolResult message, True) | Inr result \<Rightarrow> (result, False)) }"

definition or_else :: "'a option \<Rightarrow> 'a option \<Rightarrow> 'a option" where
  "or_else a b = (case a of None \<Rightarrow> b | Some x \<Rightarrow> Some x)"

definition override_result :: "agent_tool_result \<Rightarrow> after_result \<Rightarrow> agent_tool_result" where
  "override_result r a = r\<lparr>tres_content := or_else (ar_content a) (tres_content r),
     tres_details := or_else (ar_details a) (tres_details r),
     tres_terminate := or_else (ar_terminate a) (tres_terminate r),
     tres_usage := or_else (ar_usage a) (tres_usage r)\<rparr>"

definition finalizeExecutedToolCall :: "'w agent_env \<Rightarrow> assistant_message \<Rightarrow> 'w prepared_call \<Rightarrow> agent_tool_result \<Rightarrow> bool
    \<Rightarrow> ('w, finalized_call) loop" where
  "finalizeExecutedToolCall env am p result isError = (case ev_after env of
      None \<Rightarrow> State_Monad.return \<lparr>fin_toolCall = pc_toolCall p, fin_result = result, fin_isError = isError\<rparr>
    | Some after \<Rightarrow> do {
        context \<leftarrow> get_context;
        r \<leftarrow> call_out (\<lambda>w. after w am (pc_toolCall p) (pc_args p) result isError context);
        State_Monad.return (case r of
            Inl message \<Rightarrow> \<lparr>fin_toolCall = pc_toolCall p, fin_result = createErrorToolResult message, fin_isError = True\<rparr>
          | Inr None \<Rightarrow> \<lparr>fin_toolCall = pc_toolCall p, fin_result = result, fin_isError = isError\<rparr>
          | Inr (Some a) \<Rightarrow> \<lparr>fin_toolCall = pc_toolCall p, fin_result = override_result result a,
              fin_isError = (case ar_isError a of None \<Rightarrow> isError | Some e \<Rightarrow> e)\<rparr>) })"

definition run_prepared :: "'w agent_env \<Rightarrow> assistant_message \<Rightarrow> 'w prepared_call \<Rightarrow> ('w, finalized_call) loop" where
  "run_prepared env am p = do {
     (result, isError) \<leftarrow> executePreparedToolCall p;
     finalizeExecutedToolCall env am p result isError }"

section \<open>Batches of tool calls\<close>

fun sequential_calls :: "'w agent_env \<Rightarrow> assistant_message \<Rightarrow> tool_call list \<Rightarrow> ('w, (finalized_call \<times> tool_result_message) list) loop" where
  "sequential_calls env am [] = State_Monad.return []"
| "sequential_calls env am (c # cs) = do {
     emit_start c;
     preparation \<leftarrow> prepareToolCall env am c;
     f \<leftarrow> (case preparation of
        ImmediateCall result isError \<Rightarrow> State_Monad.return \<lparr>fin_toolCall = c, fin_result = result, fin_isError = isError\<rparr>
      | PreparedCall p \<Rightarrow> run_prepared env am p);
     emitToolExecutionEnd f;
     m \<leftarrow> createToolResultMessage env f;
     emitToolResultMessage m;
     aborted \<leftarrow> read_world (ev_aborted env);
     rest \<leftarrow> (if aborted then State_Monad.return [] else sequential_calls env am cs);
     State_Monad.return ((f, m) # rest) }"

definition executeToolCallsSequential :: "'w agent_env \<Rightarrow> assistant_message \<Rightarrow> tool_call list \<Rightarrow> ('w, tool_batch) loop" where
  "executeToolCallsSequential env am cs = do {
     fms \<leftarrow> sequential_calls env am cs;
     State_Monad.return \<lparr>tb_messages = map snd fms, tb_terminate = shouldTerminateToolBatch (map fst fms)\<rparr> }"

text \<open>The preparation loop of the concurrent mode: finished calls, and calls still to run.\<close>

datatype 'w call_entry = FinishedEntry finalized_call | PendingEntry "'w prepared_call"

fun parallel_prepare :: "'w agent_env \<Rightarrow> assistant_message \<Rightarrow> tool_call list \<Rightarrow> ('w, 'w call_entry list) loop" where
  "parallel_prepare env am [] = State_Monad.return []"
| "parallel_prepare env am (c # cs) = do {
     emit_start c;
     preparation \<leftarrow> prepareToolCall env am c;
     entry \<leftarrow> (case preparation of
        ImmediateCall result isError \<Rightarrow> do {
          let f = \<lparr>fin_toolCall = c, fin_result = result, fin_isError = isError\<rparr>;
          emitToolExecutionEnd f;
          State_Monad.return (FinishedEntry f) }
      | PreparedCall p \<Rightarrow> State_Monad.return (PendingEntry p));
     aborted \<leftarrow> read_world (ev_aborted env);
     rest \<leftarrow> (if aborted then State_Monad.return [] else parallel_prepare env am cs);
     State_Monad.return (entry # rest) }"

definition pending_indices :: "'w call_entry list \<Rightarrow> nat list" where
  "pending_indices es = filter (\<lambda>i. case es ! i of PendingEntry _ \<Rightarrow> True | FinishedEntry _ \<Rightarrow> False) [0..<length es]"

text \<open>The completion order of the pending calls; a schedule that is not one of them counts as source order.\<close>

definition completion_order :: "'w call_entry list \<Rightarrow> nat list \<Rightarrow> nat list" where
  "completion_order es schedule =
     (if distinct schedule \<and> set schedule = set (pending_indices es) then schedule else pending_indices es)"

fun run_pending :: "'w agent_env \<Rightarrow> assistant_message \<Rightarrow> 'w call_entry list \<Rightarrow> nat list \<Rightarrow> ('w, (nat \<times> finalized_call) list) loop" where
  "run_pending env am es [] = State_Monad.return []"
| "run_pending env am es (i # is) = (case es ! i of
      FinishedEntry f \<Rightarrow> run_pending env am es is
    | PendingEntry p \<Rightarrow> do {
        f \<leftarrow> run_prepared env am p;
        emitToolExecutionEnd f;
        rest \<leftarrow> run_pending env am es is;
        State_Monad.return ((i, f) # rest) })"

definition ordered_calls :: "'w call_entry list \<Rightarrow> (nat \<times> finalized_call) list \<Rightarrow> finalized_call list" where
  "ordered_calls es finished = map (\<lambda>i. case es ! i of
      FinishedEntry f \<Rightarrow> f
    | PendingEntry p \<Rightarrow> the (map_of finished i)) [0..<length es]"

fun report_results :: "'w agent_env \<Rightarrow> finalized_call list \<Rightarrow> ('w, tool_result_message list) loop" where
  "report_results env [] = State_Monad.return []"
| "report_results env (f # fs) = do {
     m \<leftarrow> createToolResultMessage env f;
     emitToolResultMessage m;
     ms \<leftarrow> report_results env fs;
     State_Monad.return (m # ms) }"

definition executeToolCallsParallel :: "'w agent_env \<Rightarrow> assistant_message \<Rightarrow> tool_call list \<Rightarrow> ('w, tool_batch) loop" where
  "executeToolCallsParallel env am cs = do {
     entries \<leftarrow> parallel_prepare env am cs;
     schedule \<leftarrow> read_world (ev_schedule env);
     finished \<leftarrow> run_pending env am entries (completion_order entries schedule);
     let ordered = ordered_calls entries finished;
     ms \<leftarrow> report_results env ordered;
     State_Monad.return \<lparr>tb_messages = ms, tb_terminate = shouldTerminateToolBatch ordered\<rparr> }"

definition executeToolCalls :: "'w agent_env \<Rightarrow> loop_config \<Rightarrow> assistant_message \<Rightarrow> ('w, tool_batch) loop" where
  "executeToolCalls env cfg am = do {
     context \<leftarrow> get_context;
     let cs = tool_calls_of (am_content am);
     let hasSequential = list_ex (\<lambda>c. case find_tool context (tc_name c) of None \<Rightarrow> False | Some t \<Rightarrow> tool_sequential t) cs;
     (if cfg_sequential cfg \<or> hasSequential then executeToolCallsSequential env am cs else executeToolCallsParallel env am cs) }"

section \<open>The loop\<close>

definition zero_double :: js_double where "zero_double = Dec 0 0"

definition exhausted_message :: "loop_config \<Rightarrow> iteration_budget \<Rightarrow> int \<Rightarrow> assistant_message" where
  "exhausted_message cfg b now = \<lparr>am_content = [AssistantText '''' None], am_api = mo_api (cfg_model cfg),
     am_provider = mo_provider (cfg_model cfg), am_model = mo_id (cfg_model cfg), am_responseModel = None,
     am_responseId = None, am_diagnostics = None,
     am_usage = \<lparr>u_input = 0, u_output = 0, u_cacheRead = 0, u_cacheWrite = 0, u_cacheWrite1h = None, u_reasoning = None,
       u_totalTokens = 0, u_cost = \<lparr>c_input = zero_double, c_output = zero_double, c_cacheRead = zero_double,
         c_cacheWrite = zero_double, c_total = zero_double\<rparr>\<rparr>,
     am_stopReason = ErrorStop, am_deferred = None,
     am_errorMessage = Some (''Agent iteration budget exhausted after '' @ dec_of_int (maxTotal b) @ '' provider calls''),
     am_rawStopReason = None, am_endTurn = None, am_timestamp = now\<rparr>"

definition announce :: "agent_message \<Rightarrow> ('w, unit) loop" where
  "announce m = do { emit (MessageStart m); emit (MessageEnd m) }"

definition open_turn :: "bool \<Rightarrow> agent_message list \<Rightarrow> ('w, unit) loop" where
  "open_turn firstTurn pending = do {
     (if firstTurn then State_Monad.return () else emit TurnStart);
     for_each (\<lambda>m. do { announce m; push_context m; push_new m }) pending }"

definition finish_run :: "('w, unit) loop" where
  "finish_run = State (\<lambda>s. ((), s\<lparr>ls_events := ls_events s @ [AgentEnd (ls_new s)]\<rparr>))"

definition exhausted_turn :: "'w agent_env \<Rightarrow> loop_config \<Rightarrow> iteration_budget \<Rightarrow> ('w, unit) loop" where
  "exhausted_turn env cfg b = do {
     now \<leftarrow> read_world (ev_now env);
     let m = exhausted_message cfg b now;
     push_context (AssistantMessage m);
     push_new (AssistantMessage m);
     announce (AssistantMessage m);
     emit (TurnEnd m []);
     finish_run }"

datatype turn_outcome = TurnStops | TurnContinues loop_config bool "agent_message list"

definition apply_update :: "loop_config \<Rightarrow> 'w turn_update option \<Rightarrow> ('w, loop_config) loop" where
  "apply_update cfg u = (case u of
      None \<Rightarrow> State_Monad.return cfg
    | Some t \<Rightarrow> State (\<lambda>s. (cfg\<lparr>cfg_model := (case tu_model t of None \<Rightarrow> cfg_model cfg | Some m \<Rightarrow> m),
          cfg_reasoning := (case tu_thinkingLevel t of None \<Rightarrow> cfg_reasoning cfg
            | Some l \<Rightarrow> if l = ''off'' then None else Some l)\<rparr>,
        s\<lparr>ls_context := (case tu_context t of None \<Rightarrow> ls_context s | Some c \<Rightarrow> c)\<rparr>)))"

definition turn_report_of :: "assistant_message \<Rightarrow> tool_result_message list \<Rightarrow> ('w, 'w turn_report) loop" where
  "turn_report_of m rs = State (\<lambda>s. (\<lparr>tp_message = m, tp_toolResults = rs, tp_context = ls_context s, tp_newMessages = ls_new s\<rparr>, s))"

text \<open>The part of a turn that runs the tools of a response: the results, and whether more calls are due.\<close>

definition run_tools :: "'w agent_env \<Rightarrow> loop_config \<Rightarrow> assistant_message \<Rightarrow> ('w, tool_result_message list \<times> bool) loop" where
  "run_tools env cfg m =
     (let cs = tool_calls_of (am_content m) in
      if cs = [] then State_Monad.return ([], False)
      else do {
        batch \<leftarrow> (if am_stopReason m = LengthStop
          then do { ms \<leftarrow> failToolCallsFromTruncatedMessage env cs; State_Monad.return \<lparr>tb_messages = ms, tb_terminate = False\<rparr> }
          else executeToolCalls env cfg m);
        for_each (\<lambda>r. do { push_context (ToolResultMessage r); push_new (ToolResultMessage r) }) (tb_messages batch);
        State_Monad.return (tb_messages batch, \<not> tb_terminate batch) })"

definition run_turn :: "'w agent_env \<Rightarrow> loop_config \<Rightarrow> ('w, turn_outcome) loop" where
  "run_turn env cfg = do {
     m \<leftarrow> streamAssistantResponse env cfg;
     push_new (AssistantMessage m);
     (if am_stopReason m = ErrorStop \<or> am_stopReason m = AbortedStop
      then do { emit (TurnEnd m []); finish_run; State_Monad.return TurnStops }
      else do {
        (results, hasMore) \<leftarrow> run_tools env cfg m;
        emit (TurnEnd m results);
        report \<leftarrow> turn_report_of m results;
        u \<leftarrow> call_out (\<lambda>w. ev_prepareNextTurn env w report);
        cfg' \<leftarrow> apply_update cfg u;
        report' \<leftarrow> turn_report_of m results;
        stop \<leftarrow> call_out (\<lambda>w. ev_shouldStop env w report');
        (if stop then do { finish_run; State_Monad.return TurnStops }
         else do {
           pending \<leftarrow> call_out (ev_steering env);
           State_Monad.return (TurnContinues cfg' hasMore pending) }) }) }"

text \<open>
  The two nested loops as one recursion: the inner loop goes on while tool calls or messages
  are pending, and the outer one starts it again with follow-up messages. Every round
  takes one unit of the budget, so the recursion ends.
\<close>

function run_loop :: "'w agent_env \<Rightarrow> loop_config \<Rightarrow> iteration_budget \<Rightarrow> bool \<Rightarrow> agent_message list \<Rightarrow> 'w loop_state
    \<Rightarrow> 'w loop_state" where
  "run_loop env cfg budget firstTurn pending s =
     (case run_state (open_turn firstTurn pending) s of
        (_, s1) \<Rightarrow>
          (case budget_consume budget of
             (False, _) \<Rightarrow> snd (run_state (exhausted_turn env cfg budget) s1)
           | (True, budget') \<Rightarrow>
               (case run_state (run_turn env cfg) s1 of
                  (TurnStops, s2) \<Rightarrow> s2
                | (TurnContinues cfg' hasMore pending', s2) \<Rightarrow>
                    if hasMore \<or> pending' \<noteq> [] then run_loop env cfg' budget' False pending' s2
                    else (case run_state (call_out (ev_followUp env)) s2 of
                            (followUps, s3) \<Rightarrow>
                              if followUps \<noteq> []
                              then run_loop env cfg' budget' False followUps (snd (run_state (emit FollowUpStart) s3))
                              else snd (run_state finish_run s3)))))"
  by pat_completeness auto

termination
  by (relation "measure (\<lambda>(env, cfg, budget, firstTurn, pending, s). nat (maxTotal budget - usedTotal budget))")
    (auto simp: budget_consume_def split: if_splits)

declare run_loop.simps [simp del]

definition runLoop :: "'w agent_env \<Rightarrow> loop_config \<Rightarrow> iteration_budget \<Rightarrow> 'w loop_state \<Rightarrow> 'w loop_state" where
  "runLoop env cfg budget s =
     (case run_state (call_out (ev_steering env)) s of (pending, s') \<Rightarrow> run_loop env cfg budget True pending s')"

definition run_budget :: "iteration_budget option \<Rightarrow> js_num option \<Rightarrow> loop_error + iteration_budget" where
  "run_budget budget maxIterations = (case budget of
      Some b \<Rightarrow> Inr b
    | None \<Rightarrow> budget_new (case maxIterations of None \<Rightarrow> JsInt default_max_iterations | Some n \<Rightarrow> n))"

definition start_state :: "'w \<Rightarrow> 'w agent_context \<Rightarrow> agent_message list \<Rightarrow> 'w loop_state" where
  "start_state w context new = \<lparr>ls_world = w, ls_events = [], ls_context = context, ls_new = new\<rparr>"

definition runAgentLoop :: "'w agent_env \<Rightarrow> loop_config \<Rightarrow> iteration_budget option \<Rightarrow> js_num option \<Rightarrow> 'w
    \<Rightarrow> agent_message list \<Rightarrow> 'w agent_context \<Rightarrow> 'w loop_state \<times> (loop_error + agent_message list)" where
  "runAgentLoop env cfg budget maxIterations w prompts context =
     (let s0 = start_state w (context\<lparr>ac_messages := ac_messages context @ prompts\<rparr>) prompts;
          s1 = snd (run_state (do { emit AgentStart; emit TurnStart; for_each announce prompts }) s0)
      in case run_budget budget maxIterations of
           Inl e \<Rightarrow> (s1, Inl e)
         | Inr b \<Rightarrow> let s2 = runLoop env cfg b s1 in (s2, Inr (ls_new s2)))"

definition runAgentLoopContinue :: "'w agent_env \<Rightarrow> loop_config \<Rightarrow> iteration_budget option \<Rightarrow> js_num option \<Rightarrow> 'w
    \<Rightarrow> 'w agent_context \<Rightarrow> 'w loop_state \<times> (loop_error + agent_message list)" where
  "runAgentLoopContinue env cfg budget maxIterations w context =
     (let s0 = start_state w context [] in
      case last_opt (ac_messages context) of
        None \<Rightarrow> (s0, Inl NothingToContinue)
      | Some m \<Rightarrow>
          if role_of m = AssistantRole then (s0, Inl ContinueFromAssistant)
          else let s1 = snd (run_state (do { emit AgentStart; emit TurnStart }) s0)
               in case run_budget budget maxIterations of
                    Inl e \<Rightarrow> (s1, Inl e)
                  | Inr b \<Rightarrow> let s2 = runLoop env cfg b s1 in (s2, Inr (ls_new s2)))"

end
