(* ===== verification/Harness_Journal.thy ===== *)
theory Harness_Journal
  imports Tree_Session Agent_Loop
begin

text \<open>
  \<^verbatim>\<open>packages/agent/src/harness/recode-harness-journal.ts\<close>: the journal that the harness keeps in its session, a custom entry for the
  start and the end of each operation, turn and tool call. What a stopped process left open is closed by the next
  one (\<^verbatim>\<open>recover\<close>). \<^verbatim>\<open>runJournaledOperation\<close> of \<^verbatim>\<open>agent-harness.ts\<close> puts an operation between its two records.

  The journal writes records of its type and reads back whatever JSON a session contains, of which it checks three fields; so the
  written record is a datatype and the read one a JSON value. Ids of turns and tool calls that are arrays or objects, which \<^verbatim>\<open>Map\<close> would compare
  by identity, are outside the model. The values of \<^verbatim>\<open>uuidv7\<close> and \<^verbatim>\<open>Date\<close> come from a \<open>journal_supply\<close>, of which every call takes the next one. A method
  runs to its end before the next one starts, as the harness awaits them.
\<close>

section \<open>Records\<close>

datatype harness_operation =
  PromptOperation | MessageOperation | RetryOperation | SkillOperation | PromptTemplateOperation | CompactionOperation | BranchSummaryOperation

datatype operation_outcome = SuccessOutcome | ErrorOutcome | AbortedOutcome | CancelledOutcome

datatype interrupt_reason = ProcessRestart | OperationFailed

fun operation_text :: "harness_operation \<Rightarrow> string" where
  "operation_text PromptOperation = ''prompt''"
| "operation_text MessageOperation = ''message''"
| "operation_text RetryOperation = ''retry''"
| "operation_text SkillOperation = ''skill''"
| "operation_text PromptTemplateOperation = ''prompt_template''"
| "operation_text CompactionOperation = ''compaction''"
| "operation_text BranchSummaryOperation = ''branch_summary''"

fun outcome_text :: "operation_outcome \<Rightarrow> string" where
  "outcome_text SuccessOutcome = ''success''"
| "outcome_text ErrorOutcome = ''error''"
| "outcome_text AbortedOutcome = ''aborted''"
| "outcome_text CancelledOutcome = ''cancelled''"

fun reason_text :: "interrupt_reason \<Rightarrow> string" where
  "reason_text ProcessRestart = ''process_restart''"
| "reason_text OperationFailed = ''operation_failed''"

text \<open>An error object after \<^verbatim>\<open>toError\<close>; \<^verbatim>\<open>code\<close> may be any value.\<close>

record thrown_error =
  er_name :: string
  er_message :: string
  er_code :: "json option"

text \<open>A field with the value \<^verbatim>\<open>undefined\<close> is no field.\<close>

definition json_object :: "(string \<times> json option) list \<Rightarrow> json" where
  "json_object kvs = JObj (fmap_of_list (List.map_filter (\<lambda>(k, v). map_option (Pair k) v) kvs))"

definition serializeError :: "thrown_error \<Rightarrow> json" where
  "serializeError e = json_object [(''name'', Some (JStr (er_name e))), (''message'', Some (JStr (er_message e))),
     (''code'', case er_code e of Some (JStr c) \<Rightarrow> Some (JStr c) | _ \<Rightarrow> None)]"

record active_tool =
  at_turnId :: string
  at_toolCallId :: string
  at_toolName :: string

datatype journal_record =
    OperationStarted harness_operation
  | OperationFinished harness_operation operation_outcome "thrown_error option"
  | OperationInterrupted harness_operation interrupt_reason "thrown_error option"
  | TurnStarted string
  | TurnFinished string operation_outcome
  | TurnInterrupted string interrupt_reason
  | ToolStarted active_tool
  | ToolFinished active_tool bool
  | ToolInterrupted active_tool interrupt_reason

definition record_base :: "string \<Rightarrow> string \<Rightarrow> (string \<times> json option) list" where
  "record_base event operationId =
     [(''version'', Some (JNum (Dec 1 0))), (''event'', Some (JStr event)), (''operationId'', Some (JStr operationId))]"

definition tool_members :: "active_tool \<Rightarrow> (string \<times> json option) list" where
  "tool_members t = [(''turnId'', Some (JStr (at_turnId t))), (''toolCallId'', Some (JStr (at_toolCallId t))),
     (''toolName'', Some (JStr (at_toolName t)))]"

fun record_json :: "string \<Rightarrow> journal_record \<Rightarrow> json" where
  "record_json i (OperationStarted op) =
     json_object (record_base ''operation_started'' i @ [(''operation'', Some (JStr (operation_text op)))])"
| "record_json i (OperationFinished op out err) =
     json_object (record_base ''operation_finished'' i @
       [(''operation'', Some (JStr (operation_text op))), (''outcome'', Some (JStr (outcome_text out))), (''error'', map_option serializeError err)])"
| "record_json i (OperationInterrupted op why err) =
     json_object (record_base ''operation_interrupted'' i @
       [(''operation'', Some (JStr (operation_text op))), (''reason'', Some (JStr (reason_text why))), (''error'', map_option serializeError err)])"
| "record_json i (TurnStarted t) = json_object (record_base ''turn_started'' i @ [(''turnId'', Some (JStr t))])"
| "record_json i (TurnFinished t out) =
     json_object (record_base ''turn_finished'' i @ [(''turnId'', Some (JStr t)), (''outcome'', Some (JStr (outcome_text out)))])"
| "record_json i (TurnInterrupted t why) =
     json_object (record_base ''turn_interrupted'' i @ [(''turnId'', Some (JStr t)), (''reason'', Some (JStr (reason_text why)))])"
| "record_json i (ToolStarted t) = json_object (record_base ''tool_started'' i @ tool_members t)"
| "record_json i (ToolFinished t isError) =
     json_object (record_base ''tool_finished'' i @ tool_members t @ [(''isError'', Some (JBool isError))])"
| "record_json i (ToolInterrupted t why) =
     json_object (record_base ''tool_interrupted'' i @ tool_members t @ [(''reason'', Some (JStr (reason_text why)))])"

text \<open>A property of a value that is an object or an array.\<close>

fun json_member :: "json \<Rightarrow> string \<Rightarrow> json option" where
  "json_member (JObj m) k = fmlookup m k"
| "json_member _ k = None"

fun is_string :: "json option \<Rightarrow> bool" where
  "is_string (Some (JStr _)) \<longleftrightarrow> True"
| "is_string _ \<longleftrightarrow> False"

fun string_of :: "json option \<Rightarrow> string" where
  "string_of (Some (JStr s)) = s"
| "string_of _ = ''''"

definition isJournalRecord :: "json option \<Rightarrow> bool" where
  "isJournalRecord v = (case v of None \<Rightarrow> False | Some r \<Rightarrow>
     json_member r ''version'' = Some (JNum (Dec 1 0)) \<and> is_string (json_member r ''event'') \<and> is_string (json_member r ''operationId''))"

definition journal_type :: string where
  "journal_type = ''recode.agent_harness.journal''"

record journal_entry =
  je_entryId :: string
  je_timestamp :: int
  je_record :: json

definition toJournalEntry :: "tree_entry \<Rightarrow> journal_entry option" where
  "toJournalEntry e = (case te_body e of
      TreeCustom customType data \<Rightarrow>
        (if customType \<noteq> journal_type then None
         else if \<not> isJournalRecord data then None
         else Some \<lparr>je_entryId = te_id e, je_timestamp = te_timestamp e, je_record = the data\<rparr>)
    | _ \<Rightarrow> None)"

definition outcomeFromMessage :: "assistant_message \<Rightarrow> operation_outcome" where
  "outcomeFromMessage m =
     (if am_stopReason m = ErrorStop then ErrorOutcome else if am_stopReason m = AbortedStop then AbortedOutcome else SuccessOutcome)"

section \<open>The journal\<close>

record journal_supply =
  su_uuid :: "nat \<Rightarrow> nat \<Rightarrow> string"
  su_now :: "nat \<Rightarrow> int"

datatype journal_error = JournalInvalidState | JournalStorage tree_error

record recovery_result =
  rr_operations :: nat
  rr_turns :: nat
  rr_tools :: nat

record 's journal =
  jn_session :: 's
  jn_calls :: nat
  jn_recovery :: "(journal_error + recovery_result) option"
  jn_operation :: "(string \<times> harness_operation) option"
  jn_turn :: "string option"
  jn_tools :: "(string, active_tool) js_map"

definition new_journal :: "'s \<Rightarrow> 's journal" where
  "new_journal s = \<lparr>jn_session = s, jn_calls = 0, jn_recovery = None, jn_operation = None, jn_turn = None, jn_tools = []\<rparr>"

definition journal_entries :: "'s tree_ops \<Rightarrow> 's \<Rightarrow> journal_entry list" where
  "journal_entries ops s = List.map_filter toJournalEntry (to_getEntries ops s)"

definition journal_append :: "'s tree_ops \<Rightarrow> journal_supply \<Rightarrow> 's journal \<Rightarrow> json \<Rightarrow> 's journal \<times> (journal_error + unit)" where
  "journal_append ops vals j r =
     (case session_appendCustomEntry ops (jn_session j) (su_uuid vals (jn_calls j)) (su_now vals (jn_calls j)) journal_type (Some r) of
        (s, out) \<Rightarrow> (j\<lparr>jn_session := s, jn_calls := Suc (jn_calls j)\<rparr>, map_sum JournalStorage (\<lambda>_. ()) out))"

fun append_records :: "'s tree_ops \<Rightarrow> journal_supply \<Rightarrow> 's journal \<Rightarrow> json list \<Rightarrow> 's journal \<times> (journal_error + unit)" where
  "append_records ops vals j [] = (j, Inr ())"
| "append_records ops vals j (r # rs) = st_then (journal_append ops vals j r) (\<lambda>j _. append_records ops vals j rs)"

definition take_uuid :: "journal_supply \<Rightarrow> 's journal \<Rightarrow> 's journal \<times> string" where
  "take_uuid vals j = (j\<lparr>jn_calls := Suc (jn_calls j)\<rparr>, su_uuid vals (jn_calls j) 0)"

section \<open>Recovery\<close>

record recovery_scan =
  rs_operations :: "(string, json option) js_map"
  rs_turns :: "(json option, string) js_map"
  rs_tools :: "(json option, json) js_map"

definition record_event :: "json \<Rightarrow> string" where
  "record_event r = string_of (json_member r ''event'')"

definition record_operation :: "json \<Rightarrow> string" where
  "record_operation r = string_of (json_member r ''operationId'')"

text \<open>Keys that are arrays or objects are compared by their contents; those the harness writes are strings.\<close>

definition scan_record :: "recovery_scan \<Rightarrow> json \<Rightarrow> recovery_scan" where
  "scan_record sc r =
     (let event = record_event r; operationId = record_operation r; turnId = json_member r ''turnId''; toolCallId = json_member r ''toolCallId'' in
      if event = ''operation_started'' then sc\<lparr>rs_operations := js_set (rs_operations sc) operationId (json_member r ''operation'')\<rparr>
      else if event = ''operation_finished'' \<or> event = ''operation_interrupted'' then sc\<lparr>rs_operations := js_delete (rs_operations sc) operationId\<rparr>
      else if event = ''turn_started'' then sc\<lparr>rs_turns := js_set (rs_turns sc) turnId operationId\<rparr>
      else if event = ''turn_finished'' \<or> event = ''turn_interrupted'' then sc\<lparr>rs_turns := js_delete (rs_turns sc) turnId\<rparr>
      else if event = ''tool_started'' then sc\<lparr>rs_tools := js_set (rs_tools sc) toolCallId r\<rparr>
      else if event = ''tool_finished'' \<or> event = ''tool_interrupted'' then sc\<lparr>rs_tools := js_delete (rs_tools sc) toolCallId\<rparr>
      else sc)"

definition scan_log :: "json list \<Rightarrow> recovery_scan" where
  "scan_log log = foldl scan_record \<lparr>rs_operations = [], rs_turns = [], rs_tools = []\<rparr> log"

text \<open>\<^verbatim>\<open>{ ...tool, version: 1, event: "tool_interrupted", reason: "process_restart" }\<close>\<close>

fun tool_cut_off :: "json \<Rightarrow> json" where
  "tool_cut_off (JObj m) = JObj (fmupd ''reason'' (JStr (reason_text ProcessRestart))
     (fmupd ''event'' (JStr ''tool_interrupted'') (fmupd ''version'' (JNum (Dec 1 0)) m)))"
| "tool_cut_off r = r"

definition turn_cut_off :: "json option \<times> string \<Rightarrow> json" where
  "turn_cut_off = (\<lambda>(turnId, operationId).
     json_object (record_base ''turn_interrupted'' operationId @ [(''turnId'', turnId), (''reason'', Some (JStr (reason_text ProcessRestart)))]))"

definition operation_cut_off :: "string \<times> json option \<Rightarrow> json" where
  "operation_cut_off = (\<lambda>(operationId, op).
     json_object (record_base ''operation_interrupted'' operationId @ [(''operation'', op), (''reason'', Some (JStr (reason_text ProcessRestart)))]))"

definition recovery_records :: "recovery_scan \<Rightarrow> json list" where
  "recovery_records sc = map (tool_cut_off \<circ> snd) (rs_tools sc) @ map turn_cut_off (rs_turns sc) @ map operation_cut_off (rs_operations sc)"

definition recoverUnfinishedWork :: "'s tree_ops \<Rightarrow> journal_supply \<Rightarrow> 's journal \<Rightarrow> 's journal \<times> (journal_error + recovery_result)" where
  "recoverUnfinishedWork ops vals j =
     (let sc = scan_log (map je_record (journal_entries ops (jn_session j))) in
      st_then (append_records ops vals j (recovery_records sc)) (\<lambda>j _.
        (j, Inr \<lparr>rr_operations = length (rs_operations sc), rr_turns = length (rs_turns sc), rr_tools = length (rs_tools sc)\<rparr>)))"

text \<open>The promise of the first call is kept, also when it was rejected.\<close>

definition recover :: "'s tree_ops \<Rightarrow> journal_supply \<Rightarrow> 's journal \<Rightarrow> 's journal \<times> (journal_error + recovery_result)" where
  "recover ops vals j = (case jn_recovery j of
      Some r \<Rightarrow> (j, r)
    | None \<Rightarrow> (case recoverUnfinishedWork ops vals j of (j, r) \<Rightarrow> (j\<lparr>jn_recovery := Some r\<rparr>, r)))"

section \<open>Operations, turns and tool calls\<close>

definition beginOperation :: "'s tree_ops \<Rightarrow> journal_supply \<Rightarrow> harness_operation \<Rightarrow> 's journal \<Rightarrow> 's journal \<times> (journal_error + unit)" where
  "beginOperation ops vals op j =
     st_then (recover ops vals j) (\<lambda>j _.
       if jn_operation j \<noteq> None then (j, Inl JournalInvalidState)
       else case take_uuid vals j of (j, i) \<Rightarrow>
         journal_append ops vals (j\<lparr>jn_operation := Some (i, op)\<rparr>) (record_json i (OperationStarted op)))"

definition requireActiveOperation :: "'s journal \<Rightarrow> 's journal \<times> (journal_error + string \<times> harness_operation)" where
  "requireActiveOperation j = (j, case jn_operation j of None \<Rightarrow> Inl JournalInvalidState | Some a \<Rightarrow> Inr a)"

definition finishOpenChildren :: "'s tree_ops \<Rightarrow> journal_supply \<Rightarrow> interrupt_reason \<Rightarrow> 's journal \<Rightarrow> 's journal \<times> (journal_error + unit)" where
  "finishOpenChildren ops vals why j =
     st_then (requireActiveOperation j) (\<lambda>j (i, _).
     st_then (append_records ops vals j (map (\<lambda>(_, t). record_json i (ToolInterrupted t why)) (jn_tools j))) (\<lambda>j _.
     let j = j\<lparr>jn_tools := []\<rparr> in
     if \<not> truthy (jn_turn j) then (j, Inr ())
     else st_then (journal_append ops vals j (record_json i (TurnInterrupted (the (jn_turn j)) why))) (\<lambda>j _.
       (j\<lparr>jn_turn := None\<rparr>, Inr ()))))"

definition finishOperation :: "'s tree_ops \<Rightarrow> journal_supply \<Rightarrow> operation_outcome \<Rightarrow> thrown_error option \<Rightarrow> 's journal
    \<Rightarrow> 's journal \<times> (journal_error + unit)" where
  "finishOperation ops vals out err j =
     st_then (requireActiveOperation j) (\<lambda>j (i, op).
     st_then (finishOpenChildren ops vals OperationFailed j) (\<lambda>j _.
     st_then (journal_append ops vals j (record_json i (OperationFinished op out err))) (\<lambda>j _.
       (j\<lparr>jn_operation := None\<rparr>, Inr ()))))"

definition interruptOperation :: "'s tree_ops \<Rightarrow> journal_supply \<Rightarrow> thrown_error \<Rightarrow> 's journal \<Rightarrow> 's journal \<times> (journal_error + unit)" where
  "interruptOperation ops vals err j =
     st_then (requireActiveOperation j) (\<lambda>j (i, op).
     st_then (finishOpenChildren ops vals OperationFailed j) (\<lambda>j _.
     st_then (journal_append ops vals j (record_json i (OperationInterrupted op OperationFailed (Some err)))) (\<lambda>j _.
       (j\<lparr>jn_operation := None\<rparr>, Inr ()))))"

text \<open>The message of \<^verbatim>\<open>turn_end\<close> is always one of the assistant in the events of the loop.\<close>

definition recordAgentEvent :: "'s tree_ops \<Rightarrow> journal_supply \<Rightarrow> agent_event \<Rightarrow> 's journal \<Rightarrow> 's journal \<times> (journal_error + unit)" where
  "recordAgentEvent ops vals event j = (case jn_operation j of
      None \<Rightarrow> (j, Inr ())
    | Some (i, _) \<Rightarrow> (case event of
        TurnStart \<Rightarrow> (case take_uuid vals j of (j, t) \<Rightarrow>
          journal_append ops vals (j\<lparr>jn_turn := Some t\<rparr>) (record_json i (TurnStarted t)))
      | TurnEnd m _ \<Rightarrow>
          (if \<not> truthy (jn_turn j) then (j, Inr ())
           else st_then (journal_append ops vals j (record_json i (TurnFinished (the (jn_turn j)) (outcomeFromMessage m)))) (\<lambda>j _.
             (j\<lparr>jn_turn := None\<rparr>, Inr ())))
      | ToolExecutionStart callId toolName _ \<Rightarrow>
          (if \<not> truthy (jn_turn j) then (j, Inr ())
           else let t = \<lparr>at_turnId = the (jn_turn j), at_toolCallId = callId, at_toolName = toolName\<rparr> in
             journal_append ops vals (j\<lparr>jn_tools := js_set (jn_tools j) callId t\<rparr>) (record_json i (ToolStarted t)))
      | ToolExecutionEnd callId _ _ isError \<Rightarrow> (case js_get (jn_tools j) callId of
            None \<Rightarrow> (j, Inr ())
          | Some t \<Rightarrow> st_then (journal_append ops vals j (record_json i (ToolFinished t isError))) (\<lambda>j _.
              (j\<lparr>jn_tools := js_delete (jn_tools j) callId\<rparr>, Inr ())))
      | _ \<Rightarrow> (j, Inr ())))"

section \<open>An operation of the harness\<close>

text \<open>
  \<open>work\<close> is the operation itself, a step on the journal that returns or throws an error of type \<open>'x\<close>, or \<open>None\<close> when it does not return;
  \<open>thrown\<close> gives the name and message of what was thrown. The error of a failed start is not caught.
\<close>

datatype 'x harness_failure = BeginFailed journal_error | WorkFailed 'x | FinishFailed journal_error | FinalizationFailed "'x + journal_error" journal_error

definition interrupt_with :: "'s tree_ops \<Rightarrow> journal_supply \<Rightarrow> ('x + journal_error \<Rightarrow> thrown_error) \<Rightarrow> 's journal \<Rightarrow> 'x + journal_error
    \<Rightarrow> 's journal \<times> ('x harness_failure + 'a)" where
  "interrupt_with ops vals thrown j err = (case interruptOperation ops vals (thrown err) j of
      (j, Inl journalError) \<Rightarrow> (j, Inl (FinalizationFailed err journalError))
    | (j, Inr _) \<Rightarrow> (j, Inl (case err of Inl x \<Rightarrow> WorkFailed x | Inr e \<Rightarrow> FinishFailed e)))"

definition runJournaledOperation :: "'s tree_ops \<Rightarrow> journal_supply \<Rightarrow> ('x + journal_error \<Rightarrow> thrown_error) \<Rightarrow> harness_operation
    \<Rightarrow> ('s journal \<Rightarrow> ('s journal \<times> ('x + 'a)) option) \<Rightarrow> ('a \<Rightarrow> operation_outcome) \<Rightarrow> 's journal
    \<Rightarrow> ('s journal \<times> ('x harness_failure + 'a)) option" where
  "runJournaledOperation ops vals thrown op work outcome j = (case beginOperation ops vals op j of
      (j, Inl e) \<Rightarrow> Some (j, Inl (BeginFailed e))
    | (j, Inr _) \<Rightarrow> (case work j of
        None \<Rightarrow> None
      | Some (j, Inl x) \<Rightarrow> Some (interrupt_with ops vals thrown j (Inl x))
      | Some (j, Inr result) \<Rightarrow> Some (case finishOperation ops vals (outcome result) None j of
          (j, Inl e) \<Rightarrow> interrupt_with ops vals thrown j (Inr e)
        | (j, Inr _) \<Rightarrow> (j, Inr result))))"

end
