(* ===== verification/Session_Codec.thy ===== *)
theory Session_Codec
  imports Session_Wire
begin

text \<open>
  \<^verbatim>\<open>packages/agent/src/harness/session-v4/jsonl/codec.ts\<close>: the lines of a session file. The first
  line is the header, every other line is one mutation of the session state. \<^verbatim>\<open>encodeMutation\<close>
  writes the shared fields next to the payload; \<^verbatim>\<open>parseMutation\<close> checks the shared fields and a few
  payload fields and takes the rest as it is.

  Every error is an \<^verbatim>\<open>invalidFile\<close>; what the loader needs to know of it is whether it has a cause,
  which only a failed \<^verbatim>\<open>JSON.parse\<close> gives it (\<open>NotJson\<close>). \<open>Untyped\<close> is no error of the code: it marks
  a line that passes all checks and whose unchecked payload has not the type it is used at, so that
  the mutation it stands for is outside the types of the model.
\<close>

section \<open>Headers and mutations as documents\<close>

record jsonl_header =
  h_id :: string
  h_createdAt :: int
  h_cwd :: string
  h_parentSessionId :: "string option"
  h_legacyParentSessionPath :: "string option"
  h_metadata :: "json option"

record jsonl_metadata =
  jm_id :: string
  jm_createdAt :: int
  jm_cwd :: string
  jm_path :: string
  jm_modifiedAt :: int
  jm_sourceFormat :: int
  jm_parentSessionId :: "string option"
  jm_legacyParentSessionPath :: "string option"
  jm_metadata :: "json option"

datatype line_error = NotJson | BadLine | Untyped

definition line_break :: char where "line_break = CHR 0x0A"

definition header_doc :: "jsonl_header \<Rightarrow> fields" where
  "header_doc h =
     [(''kind'', DStr ''header''), (''version'', int_doc 4), (''id'', DStr (h_id h)), (''createdAt'', int_doc (h_createdAt h)),
      (''cwd'', DStr (h_cwd h))]
     @ opt_member ''parentSessionId'' DStr (h_parentSessionId h)
     @ opt_member ''legacyParentSessionPath'' DStr (h_legacyParentSessionPath h)
     @ opt_member ''metadata'' json_doc (h_metadata h)"

definition encodeHeader :: "jsonl_header \<Rightarrow> string" where
  "encodeHeader h = JSON_stringify (DObj (header_doc h)) @ [line_break]"

fun mutation_doc :: "session_mutation \<Rightarrow> fields" where
  "mutation_doc (EntryMutation lane e) =
     [(''kind'', DStr ''entry'')] @ opt_member ''lane'' DStr lane
     @ [(''type'', DStr (entry_type_text (e_type e))), (''id'', DStr (e_id e))] @ body_fields (e_body e)
     @ [(''parentId'', nullable_doc DStr (e_parentId e)), (''seq'', int_doc (e_seq e)), (''timestamp'', int_doc (e_timestamp e))]"
| "mutation_doc (RecordMutation r) =
     [(''kind'', DStr ''record''), (''id'', DStr (r_id r)), (''lane'', DStr (r_lane r)), (''type'', DStr (record_type_text (r_type r)))]
     @ record_fields (r_body r) @ [(''seq'', int_doc (r_seq r)), (''timestamp'', int_doc (r_timestamp r))]"
| "mutation_doc (LaneMutation s lane leaf) =
     [(''kind'', DStr ''lane''), (''seq'', int_doc s), (''lane'', DStr lane), (''leafId'', nullable_doc DStr leaf)]"
| "mutation_doc (NameMutation s n) =
     [(''kind'', DStr ''fact''), (''seq'', int_doc s), (''fact'', DStr ''name''), (''name'', DStr n)]"
| "mutation_doc (LabelMutation s target label) =
     [(''kind'', DStr ''fact''), (''seq'', int_doc s), (''fact'', DStr ''label''), (''targetId'', DStr target)]
     @ opt_member ''label'' DStr label"

definition encodeMutation :: "session_mutation \<Rightarrow> string" where
  "encodeMutation m = JSON_stringify (DObj (mutation_doc m)) @ [line_break]"

section \<open>Reading a line\<close>

definition parseObject :: "string \<Rightarrow> line_error + fields" where
  "parseObject line = (case JSON_parse line of
      None \<Rightarrow> Inl NotJson
    | Some d \<Rightarrow> (case fields_of d of None \<Rightarrow> Inl BadLine | Some kvs \<Rightarrow> Inr kvs))"

definition requireString :: "jdoc option \<Rightarrow> line_error + string" where
  "requireString v = (case v of Some (DStr s) \<Rightarrow> Inr s | _ \<Rightarrow> Inl BadLine)"

definition optionalString :: "jdoc option \<Rightarrow> line_error + string option" where
  "optionalString v = (case v of None \<Rightarrow> Inr None | Some _ \<Rightarrow> map_sum id Some (requireString v))"

definition max_safe_integer :: int where
  "max_safe_integer = 2 ^ 53 - 1"

definition safe_integer :: "jdoc option \<Rightarrow> int option" where
  "safe_integer v = (case req_of read_int v of
      None \<Rightarrow> None
    | Some i \<Rightarrow> if \<bar>i\<bar> \<le> max_safe_integer then Some i else None)"

definition requireSequence :: "jdoc option \<Rightarrow> line_error + int" where
  "requireSequence v = (case safe_integer v of None \<Rightarrow> Inl BadLine | Some i \<Rightarrow> if i \<le> 0 then Inl BadLine else Inr i)"

definition requireTimestamp :: "jdoc option \<Rightarrow> line_error + int" where
  "requireTimestamp v = (case safe_integer v of None \<Rightarrow> Inl BadLine | Some i \<Rightarrow> if i < 0 then Inl BadLine else Inr i)"

definition requireNullableId :: "jdoc option \<Rightarrow> line_error + string option" where
  "requireNullableId v = (case v of Some DNull \<Rightarrow> Inr None | _ \<Rightarrow> map_sum id Some (requireString v))"

definition requireLiteral :: "(string \<times> 'a) list \<Rightarrow> jdoc option \<Rightarrow> line_error + 'a" where
  "requireLiteral table v = bind_result (requireString v) (\<lambda>s.
     case map_of table s of None \<Rightarrow> Inl BadLine | Some x \<Rightarrow> Inr x)"

definition typed :: "'a option \<Rightarrow> line_error + 'a" where
  "typed x = (case x of None \<Rightarrow> Inl Untyped | Some y \<Rightarrow> Inr y)"

definition parseHeader :: "string \<Rightarrow> line_error + jsonl_header" where
  "parseHeader line =
     bind_result (parseObject line) (\<lambda>kvs.
     bind_result (guard_result (get_field kvs ''kind'' = Some (DStr ''header'')) BadLine) (\<lambda>_.
     bind_result (guard_result (get_field kvs ''version'' = Some (DNum (Dec 4 0))) BadLine) (\<lambda>_.
     bind_result (optionalString (get_field kvs ''parentSessionId'')) (\<lambda>parent.
     bind_result (optionalString (get_field kvs ''legacyParentSessionPath'')) (\<lambda>legacy.
     bind_result (guard_result (parent = None \<or> legacy = None) BadLine) (\<lambda>_.
     bind_result (case get_field kvs ''metadata'' of
         None \<Rightarrow> Inr None
       | Some d \<Rightarrow> if fields_of d = None then Inl BadLine else Inr (Some (json_of d))) (\<lambda>metadata.
     bind_result (requireString (get_field kvs ''id'')) (\<lambda>i.
     bind_result (requireTimestamp (get_field kvs ''createdAt'')) (\<lambda>createdAt.
     bind_result (requireString (get_field kvs ''cwd'')) (\<lambda>cwd.
     Inr \<lparr>h_id = i, h_createdAt = createdAt, h_cwd = cwd, h_parentSessionId = parent,
       h_legacyParentSessionPath = legacy, h_metadata = metadata\<rparr>))))))))))"

definition metadataFromHeader :: "jsonl_header \<Rightarrow> string \<Rightarrow> int \<Rightarrow> jsonl_metadata" where
  "metadataFromHeader h path modifiedAt = \<lparr>jm_id = h_id h, jm_createdAt = h_createdAt h, jm_cwd = h_cwd h, jm_path = path,
     jm_modifiedAt = modifiedAt, jm_sourceFormat = 4, jm_parentSessionId = h_parentSessionId h,
     jm_legacyParentSessionPath = h_legacyParentSessionPath h, jm_metadata = h_metadata h\<rparr>"

definition parse_entry :: "fields \<Rightarrow> int \<Rightarrow> line_error + session_mutation" where
  "parse_entry kvs s =
     bind_result (optionalString (get_field kvs ''lane'')) (\<lambda>lane.
     bind_result (requireString (get_field kvs ''id'')) (\<lambda>i.
     bind_result (requireLiteral ENTRY_TYPES (get_field kvs ''type'')) (\<lambda>t.
     bind_result (requireNullableId (get_field kvs ''parentId'')) (\<lambda>parentId.
     bind_result (requireTimestamp (get_field kvs ''timestamp'')) (\<lambda>timestamp.
     bind_result (if t = CustomT then requireString (get_field kvs ''customType'') else Inr '''') (\<lambda>_.
     bind_result (typed (read_body t kvs)) (\<lambda>body.
     Inr (EntryMutation lane \<lparr>e_id = i, e_seq = s, e_parentId = parentId, e_timestamp = timestamp, e_body = body\<rparr>))))))))"

definition check_intent :: "jdoc option \<Rightarrow> line_error + operation_kind" where
  "check_intent v = (case v of
      None \<Rightarrow> Inl BadLine
    | Some d \<Rightarrow> (case fields_of d of
        None \<Rightarrow> Inl BadLine
      | Some kvs \<Rightarrow> requireLiteral OPERATION_KINDS (get_field kvs ''kind'')))"

definition parse_record :: "fields \<Rightarrow> int \<Rightarrow> line_error + session_mutation" where
  "parse_record kvs s =
     bind_result (requireString (get_field kvs ''id'')) (\<lambda>i.
     bind_result (requireString (get_field kvs ''lane'')) (\<lambda>lane.
     bind_result (requireLiteral RECORD_TYPES (get_field kvs ''type'')) (\<lambda>t.
     bind_result (requireTimestamp (get_field kvs ''timestamp'')) (\<lambda>timestamp.
     bind_result (if t = OperationStartedT then check_intent (get_field kvs ''intent'') else Inr RunKind) (\<lambda>_.
     bind_result (if t = OperationFinishedT then requireString (get_field kvs ''runId'') else Inr '''') (\<lambda>_.
     bind_result (typed (read_record_body t kvs)) (\<lambda>body.
     Inr (RecordMutation \<lparr>r_id = i, r_seq = s, r_lane = lane, r_timestamp = timestamp, r_body = body\<rparr>))))))))"

definition parse_lane :: "fields \<Rightarrow> int \<Rightarrow> line_error + session_mutation" where
  "parse_lane kvs s =
     bind_result (requireString (get_field kvs ''lane'')) (\<lambda>lane.
     bind_result (requireNullableId (get_field kvs ''leafId'')) (\<lambda>leaf.
     Inr (LaneMutation s lane leaf)))"

definition parse_fact :: "fields \<Rightarrow> int \<Rightarrow> line_error + session_mutation" where
  "parse_fact kvs s =
     (if get_field kvs ''fact'' = Some (DStr ''name'') then
        bind_result (requireString (get_field kvs ''name'')) (\<lambda>n. Inr (NameMutation s n))
      else if get_field kvs ''fact'' = Some (DStr ''label'') then
        bind_result (optionalString (get_field kvs ''label'')) (\<lambda>label.
        bind_result (requireString (get_field kvs ''targetId'')) (\<lambda>target.
        Inr (LabelMutation s target label)))
      else Inl BadLine)"

definition parseMutation :: "string \<Rightarrow> line_error + session_mutation" where
  "parseMutation line =
     bind_result (parseObject line) (\<lambda>kvs.
     bind_result (requireSequence (get_field kvs ''seq'')) (\<lambda>s.
     if get_field kvs ''kind'' = Some (DStr ''entry'') then parse_entry kvs s
     else if get_field kvs ''kind'' = Some (DStr ''record'') then parse_record kvs s
     else if get_field kvs ''kind'' = Some (DStr ''lane'') then parse_lane kvs s
     else if get_field kvs ''kind'' = Some (DStr ''fact'') then parse_fact kvs s
     else Inl BadLine))"

section \<open>Reading a line gives back what was written\<close>

definition safe_seq :: "int \<Rightarrow> bool" where
  "safe_seq s \<longleftrightarrow> 0 < s \<and> s \<le> max_safe_integer"

definition safe_time :: "int \<Rightarrow> bool" where
  "safe_time t \<longleftrightarrow> 0 \<le> t \<and> t \<le> max_safe_integer"

fun mutation_ok :: "session_mutation \<Rightarrow> bool" where
  "mutation_ok (EntryMutation _ e) \<longleftrightarrow> safe_seq (e_seq e) \<and> safe_time (e_timestamp e)"
| "mutation_ok (RecordMutation r) \<longleftrightarrow> safe_seq (r_seq r) \<and> safe_time (r_timestamp r) \<and> record_body_ok (r_body r)"
| "mutation_ok m \<longleftrightarrow> safe_seq (mutation_seq m)"

definition header_ok :: "jsonl_header \<Rightarrow> bool" where
  "header_ok h \<longleftrightarrow> safe_time (h_createdAt h) \<and> (h_parentSessionId h = None \<or> h_legacyParentSessionPath h = None) \<and>
     (case h_metadata h of None \<Rightarrow> True | Some j \<Rightarrow> (\<exists>m. j = JObj m))"

lemma parseObject_stringify [simp]: "parseObject (JSON_stringify (DObj kvs)) = Inr kvs"
  by (simp add: parseObject_def JSON_parse_stringify del: JSON_stringify.simps)

lemma requireString_simps [simp]: "requireString (Some (DStr s)) = Inr s"
  by (simp add: requireString_def)

lemma optionalString_member [simp]: "optionalString (map_option DStr x) = Inr x" "optionalString None = Inr None"
  by (cases x) (simp_all add: optionalString_def)

lemma requireNullableId_doc [simp]: "requireNullableId (Some (nullable_doc DStr x)) = Inr x"
  by (cases x) (simp_all add: requireNullableId_def nullable_doc_def)

lemma requireSequence_doc [simp]: "safe_seq s \<Longrightarrow> requireSequence (Some (int_doc s)) = Inr s"
  by (simp add: requireSequence_def safe_integer_def safe_seq_def wire)

lemma requireTimestamp_doc [simp]: "safe_time t \<Longrightarrow> requireTimestamp (Some (int_doc t)) = Inr t"
  by (simp add: requireTimestamp_def safe_integer_def safe_time_def wire)

lemma requireLiteral_read: "read_literal table (DStr s) = Some x \<Longrightarrow> requireLiteral table (Some (DStr s)) = Inr x"
  by (simp add: requireLiteral_def read_literal_def)

lemma typed_Some [simp]: "typed (Some x) = Inr x"
  by (simp add: typed_def)

lemma parseHeader_encode:
  assumes "header_ok h"
  shows "parseHeader (JSON_stringify (DObj (header_doc h))) = Inr h"
proof -
  have meta: "(case get_field (header_doc h) ''metadata'' of None \<Rightarrow> Inr None
       | Some d \<Rightarrow> if fields_of d = None then Inl BadLine else Inr (Some (json_of d))) = (Inr (h_metadata h) :: line_error + json option)"
    using assms by (cases "h_metadata h") (auto simp: header_doc_def header_ok_def json_of_doc simp del: json_of.simps)
  show ?thesis
    using assms unfolding parseHeader_def parseObject_stringify bind_result_simps meta
    by (auto simp: header_doc_def header_ok_def int_doc_def [symmetric])
qed

lemma parse_entry_fields:
  assumes "get_field kvs ''lane'' = map_option DStr lane" "get_field kvs ''id'' = Some (DStr (e_id e))"
    and "get_field kvs ''type'' = Some (DStr (entry_type_text (e_type e)))"
    and "get_field kvs ''parentId'' = Some (nullable_doc DStr (e_parentId e))"
    and "get_field kvs ''timestamp'' = Some (int_doc (e_timestamp e))" "safe_time (e_timestamp e)"
    and payload: "\<forall>k \<in> set payload_keys. get_field kvs k = get_field (body_fields (e_body e)) k"
  shows "parse_entry kvs (e_seq e) = Inr (EntryMutation lane e)"
proof -
  have "read_body (e_type e) kvs = Some (e_body e)"
    unfolding e_type_def by (rule read_body_fields [OF payload])
  moreover have "\<exists>s. get_field kvs ''customType'' = Some (DStr s)" if "e_type e = CustomT"
    using that payload by (cases "e_body e") (auto simp: e_type_def payload_keys_def)
  ultimately show ?thesis
    using assms(1-6) by (auto simp: parse_entry_def requireLiteral_read wire)
qed

lemma check_intent_doc: "check_intent (Some (intent_doc i)) = Inr (intent_kind i)"
  using intent_fields [of i] by (auto simp: check_intent_def requireLiteral_read wire)

lemma parse_record_fields:
  assumes "get_field kvs ''id'' = Some (DStr (r_id r))" "get_field kvs ''lane'' = Some (DStr (r_lane r))"
    and "get_field kvs ''type'' = Some (DStr (record_type_text (r_type r)))"
    and "get_field kvs ''timestamp'' = Some (int_doc (r_timestamp r))" "safe_time (r_timestamp r)"
    and payload: "\<forall>k \<in> set record_payload_keys. get_field kvs k = get_field (record_fields (r_body r)) k"
    and ok: "record_body_ok (r_body r)"
  shows "parse_record kvs (r_seq r) = Inr (RecordMutation r)"
proof -
  have "read_record_body (r_type r) kvs = Some (r_body r)"
    unfolding r_type_def by (rule read_record_fields [OF payload ok])
  moreover have "\<exists>k. check_intent (get_field kvs ''intent'') = Inr k" if "r_type r = OperationStartedT"
    using that payload by (cases "r_body r") (auto simp: r_type_def record_payload_keys_def check_intent_doc)
  moreover have "\<exists>s. get_field kvs ''runId'' = Some (DStr s)" if "r_type r = OperationFinishedT"
    using that payload by (cases "r_body r") (auto simp: r_type_def record_payload_keys_def)
  ultimately show ?thesis
    using assms(1-5) by (auto simp: parse_record_def requireLiteral_read wire)
qed

lemma parseMutation_encode:
  assumes "mutation_ok m"
  shows "parseMutation (JSON_stringify (DObj (mutation_doc m))) = Inr m"
proof (cases m)
  case (EntryMutation lane e)
  have "parse_entry (mutation_doc m) (e_seq e) = Inr m"
    unfolding EntryMutation by (rule parse_entry_fields) (use assms EntryMutation in \<open>auto simp: payload_keys_def\<close>)
  then show ?thesis using assms EntryMutation
    by (simp add: parseMutation_def del: JSON_stringify.simps)
next
  case (RecordMutation r)
  have "parse_record (mutation_doc m) (r_seq r) = Inr m"
    unfolding RecordMutation by (rule parse_record_fields) (use assms RecordMutation in \<open>auto simp: record_payload_keys_def\<close>)
  then show ?thesis using assms RecordMutation
    by (simp add: parseMutation_def del: JSON_stringify.simps)
qed (use assms in \<open>auto simp: parseMutation_def parse_lane_def parse_fact_def simp del: JSON_stringify.simps\<close>)

text \<open>A proper prefix of a line is no JSON text, which is how the loader recognises a torn line.\<close>

lemma parseMutation_torn:
  "JSON_stringify (DObj (mutation_doc m)) = p @ q \<Longrightarrow> q \<noteq> [] \<Longrightarrow> parseMutation p = Inl NotJson"
  by (simp add: parseMutation_def parseObject_def JSON_parse_torn del: JSON_stringify.simps)

end
