(* ===== verification/Session_Jsonl.thy ===== *)
theory Session_Jsonl
  imports Session_Codec Session_Memory
begin

text \<open>
  \<^verbatim>\<open>packages/agent/src/harness/session-v4/jsonl/storage.ts\<close>: a session kept in an append-only file.
  Every write appends one line and then applies the mutation to the state in memory; loading reads
  the file line by line, drops a last line that is no JSON text and repairs the file.

  The file system is the interface \<^verbatim>\<open>JsonlSessionRepoFileSystem\<close> of \<^verbatim>\<open>jsonl/types.ts\<close>, here a map from
  paths to contents with a list of faults, one for each of the next calls: a call may fail without
  an effect or, when it writes, after some of the characters have reached the file. No more faults
  means that the calls succeed. \<^verbatim>\<open>fs_mtimeMs\<close> is what \<^verbatim>\<open>fileInfo\<close> reports. \<^verbatim>\<open>enqueue\<close> runs the writes of
  a storage one after the other, so an operation is one step; an operation that throws leaves the
  storage as it was, and the file as far as it was written.
\<close>

section \<open>The file system\<close>

datatype file_error = FileNotFound | FileFailure

datatype fault = NoFault | Fault file_error "nat option" \<comment> \<open>the error, and how many characters were written, if any\<close>

record file_system =
  fs_files :: "string \<Rightarrow> string option"
  fs_faults :: "fault list"
  fs_mtimeMs :: "string \<Rightarrow> int"

definition next_fault :: "file_system \<Rightarrow> fault \<times> file_system" where
  "next_fault fs = (case fs_faults fs of [] \<Rightarrow> (NoFault, fs) | f # rest \<Rightarrow> (f, fs\<lparr>fs_faults := rest\<rparr>))"

definition put_file :: "file_system \<Rightarrow> string \<Rightarrow> string option \<Rightarrow> file_system" where
  "put_file fs path content = fs\<lparr>fs_files := (fs_files fs)(path := content)\<rparr>"

definition file_text :: "file_system \<Rightarrow> string \<Rightarrow> string" where
  "file_text fs path = (case fs_files fs path of None \<Rightarrow> '''' | Some s \<Rightarrow> s)"

definition fs_writeFile :: "file_system \<Rightarrow> string \<Rightarrow> string \<Rightarrow> file_system \<times> (file_error + unit)" where
  "fs_writeFile fs path content = (case next_fault fs of
      (NoFault, fs') \<Rightarrow> (put_file fs' path (Some content), Inr ())
    | (Fault e None, fs') \<Rightarrow> (fs', Inl e)
    | (Fault e (Some k), fs') \<Rightarrow> (put_file fs' path (Some (take k content)), Inl e))"

definition fs_appendFile :: "file_system \<Rightarrow> string \<Rightarrow> string \<Rightarrow> file_system \<times> (file_error + unit)" where
  "fs_appendFile fs path content = (case next_fault fs of
      (NoFault, fs') \<Rightarrow> (put_file fs' path (Some (file_text fs path @ content)), Inr ())
    | (Fault e None, fs') \<Rightarrow> (fs', Inl e)
    | (Fault e (Some k), fs') \<Rightarrow> (put_file fs' path (Some (file_text fs path @ take k content)), Inl e))"

definition fs_readTextFile :: "file_system \<Rightarrow> string \<Rightarrow> file_system \<times> (file_error + string)" where
  "fs_readTextFile fs path = (case next_fault fs of
      (NoFault, fs') \<Rightarrow> (fs', case fs_files fs path of None \<Rightarrow> Inl FileNotFound | Some s \<Rightarrow> Inr s)
    | (Fault e _, fs') \<Rightarrow> (fs', Inl e))"

definition fs_fileInfo :: "file_system \<Rightarrow> string \<Rightarrow> file_system \<times> (file_error + int)" where
  "fs_fileInfo fs path = (case next_fault fs of
      (NoFault, fs') \<Rightarrow> (fs', if fs_files fs path = None then Inl FileNotFound else Inr (fs_mtimeMs fs path))
    | (Fault e _, fs') \<Rightarrow> (fs', Inl e))"

definition fs_renameFile :: "file_system \<Rightarrow> string \<Rightarrow> string \<Rightarrow> file_system \<times> (file_error + unit)" where
  "fs_renameFile fs source dest = (case next_fault fs of
      (NoFault, fs') \<Rightarrow> (case fs_files fs source of
          None \<Rightarrow> (fs', Inl FileNotFound)
        | Some s \<Rightarrow> (put_file (put_file fs' source None) dest (Some s), Inr ()))
    | (Fault e _, fs') \<Rightarrow> (fs', Inl e))"

text \<open>\<^verbatim>\<open>remove\<close> with \<^verbatim>\<open>force\<close>, of which nobody looks at the result.\<close>

definition fs_remove :: "file_system \<Rightarrow> string \<Rightarrow> file_system \<times> (file_error + unit)" where
  "fs_remove fs path = (case next_fault fs of
      (NoFault, fs') \<Rightarrow> (put_file fs' path None, Inr ())
    | (Fault e _, fs') \<Rightarrow> (fs', Inl e))"

fun file_error_code :: "file_error \<Rightarrow> session_error" where
  "file_error_code FileNotFound = NotFound"
| "file_error_code FileFailure = StorageError"

definition fileResult :: "file_error + 'a \<Rightarrow> session_error + 'a" where
  "fileResult r = map_sum file_error_code id r"

text \<open>The sequence of two steps on the file system, of which the second runs when the first succeeds.\<close>

definition fs_then :: "file_system \<times> ('e + 'a) \<Rightarrow> (file_system \<Rightarrow> 'a \<Rightarrow> file_system \<times> ('e + 'b)) \<Rightarrow> file_system \<times> ('e + 'b)" where
  "fs_then p f = (case p of (fs, Inl e) \<Rightarrow> (fs, Inl e) | (fs, Inr a) \<Rightarrow> f fs a)"

lemma fs_then_simps [simp]: "fs_then (fs, Inl e) f = (fs, Inl e)" "fs_then (fs, Inr a) f = f fs a"
  by (simp_all add: fs_then_def)

definition fs_call :: "file_system \<times> (file_error + 'a) \<Rightarrow> file_system \<times> (session_error + 'a)" where
  "fs_call p = map_prod id fileResult p"

definition publishFileAtomically :: "file_system \<Rightarrow> string \<Rightarrow> (file_system \<Rightarrow> string \<Rightarrow> file_system \<times> (session_error + unit))
    \<Rightarrow> file_system \<times> (session_error + unit)" where
  "publishFileAtomically fs dest populate =
     (let temp = dest @ ''.tmp'' in
      case fs_then (populate fs temp) (\<lambda>fs _. fs_call (fs_renameFile fs temp dest)) of
        (fs', Inr u) \<Rightarrow> (fs', Inr u)
      | (fs', Inl e) \<Rightarrow> (fst (fs_remove fs' temp), Inl e))"

section \<open>Creating and loading\<close>

record jsonl_storage =
  js_metadata :: jsonl_metadata
  js_state :: session_state

definition jsonl_new :: "jsonl_metadata \<Rightarrow> jsonl_storage" where
  "jsonl_new metadata = \<lparr>js_metadata = metadata, js_state = init_state\<rparr>"

definition jsonl_create :: "file_system \<Rightarrow> string \<Rightarrow> jsonl_header \<Rightarrow> file_system \<times> (session_error + jsonl_storage)" where
  "jsonl_create fs path header =
     fs_then (fs_call (fs_writeFile fs path (encodeHeader header))) (\<lambda>fs _.
     fs_then (fs_call (fs_fileInfo fs path)) (\<lambda>fs mtime.
     (fs, Inr (jsonl_new (metadataFromHeader header path mtime)))))"

text \<open>\<^verbatim>\<open>content.split("\n")\<close> without the empty piece after the last line break.\<close>

fun split_lines :: "string \<Rightarrow> string list" where
  "split_lines [] = [[]]"
| "split_lines (c # cs) =
     (if c = line_break then [] # split_lines cs
      else (c # hd (split_lines cs)) # tl (split_lines cs))"

definition physical_lines :: "string \<Rightarrow> string list" where
  "physical_lines content =
     (let ls = split_lines content in if last ls = [] then butlast ls else ls)"

definition terminated :: "string list \<Rightarrow> string" where
  "terminated ls = concat (map (\<lambda>l. l @ [line_break]) ls)"

datatype load_error = LoadFailed session_error | UntypedLine

text \<open>
  The loop over the lines: the state, and the lines before a torn last line when there is one.
\<close>

fun load_lines :: "session_state \<Rightarrow> string list \<Rightarrow> string list \<Rightarrow> load_error + session_state \<times> string list option" where
  "load_lines st done [] = Inr (st, None)"
| "load_lines st done (l # ls) = (case parseMutation l of
      Inr m \<Rightarrow> (case applyMutation st m of
          Inl e \<Rightarrow> Inl (LoadFailed e)
        | Inr st' \<Rightarrow> load_lines st' (done @ [l]) ls)
    | Inl NotJson \<Rightarrow> if ls = [] then Inr (st, Some done) else Inl (LoadFailed InvalidEntry)
    | Inl BadLine \<Rightarrow> Inl (LoadFailed InvalidEntry)
    | Inl Untyped \<Rightarrow> Inl UntypedLine)"

definition header_error :: "line_error + 'a \<Rightarrow> load_error + 'a" where
  "header_error r = map_sum (\<lambda>_. LoadFailed InvalidEntry) id r"

definition ends_with_newline :: "string \<Rightarrow> bool" where
  "ends_with_newline s \<longleftrightarrow> s \<noteq> [] \<and> last s = line_break"

definition with_load_error :: "file_system \<times> (session_error + 'a) \<Rightarrow> file_system \<times> (load_error + 'a)" where
  "with_load_error p = map_prod id (map_sum LoadFailed id) p"

definition finish_load :: "file_system \<Rightarrow> string \<Rightarrow> string \<Rightarrow> jsonl_metadata \<Rightarrow> session_state \<times> string list option
    \<Rightarrow> file_system \<times> (load_error + jsonl_storage)" where
  "finish_load fs path content metadata loaded = (case loaded of
       (st, Some valid) \<Rightarrow>
         fs_then (with_load_error (publishFileAtomically fs path (\<lambda>fs temp. fs_call (fs_writeFile fs temp (terminated valid))))) (\<lambda>fs _.
         (fs, Inr \<lparr>js_metadata = metadata, js_state = st\<rparr>))
     | (st, None) \<Rightarrow>
         if ends_with_newline content then (fs, Inr \<lparr>js_metadata = metadata, js_state = st\<rparr>)
         else fs_then (with_load_error (fs_call (fs_appendFile fs path [line_break]))) (\<lambda>fs _.
           (fs, Inr \<lparr>js_metadata = metadata, js_state = st\<rparr>)))"

definition jsonl_load :: "file_system \<Rightarrow> string \<Rightarrow> file_system \<times> (load_error + jsonl_storage)" where
  "jsonl_load fs path =
     fs_then (with_load_error (fs_call (fs_readTextFile fs path))) (\<lambda>fs content.
     let physicalLines = physical_lines content in
     if physicalLines = [] \<or> hd physicalLines = [] then (fs, Inl (LoadFailed InvalidEntry))
     else
     fs_then (fs, header_error (parseHeader (hd physicalLines))) (\<lambda>fs header.
     fs_then (with_load_error (fs_call (fs_fileInfo fs path))) (\<lambda>fs mtime.
     fs_then (fs, load_lines init_state [hd physicalLines] (tl physicalLines)) (\<lambda>fs loaded.
     finish_load fs path content (metadataFromHeader header path mtime) loaded))))"

section \<open>Writing\<close>

definition appendMutation :: "file_system \<Rightarrow> jsonl_storage \<Rightarrow> session_mutation \<Rightarrow> file_system \<times> (session_error + unit)" where
  "appendMutation fs s m = fs_call (fs_appendFile fs (jm_path (js_metadata s)) (encodeMutation m))"

definition jsonl_apply :: "jsonl_storage \<Rightarrow> session_mutation \<Rightarrow> session_error + jsonl_storage" where
  "jsonl_apply s m = bind_result (applyMutation (js_state s) m) (\<lambda>st. Inr (s\<lparr>js_state := st\<rparr>))"

definition jsonl_write :: "file_system \<Rightarrow> jsonl_storage \<Rightarrow> session_mutation \<Rightarrow> file_system \<times> (session_error + jsonl_storage)" where
  "jsonl_write fs s m = fs_then (appendMutation fs s m) (\<lambda>fs _. (fs, jsonl_apply s m))"

definition jsonl_createLane :: "file_system \<Rightarrow> jsonl_storage \<Rightarrow> string \<Rightarrow> string option \<Rightarrow> file_system \<times> (session_error + jsonl_storage)" where
  "jsonl_createLane fs s lane at =
     fs_then (fs, validateNewLane (js_state s) lane) (\<lambda>fs _.
     fs_then (fs, validateTarget (js_state s) at) (\<lambda>fs _.
     jsonl_write fs s (LaneMutation (nextSequence (js_state s)) lane at)))"

definition jsonl_moveLane :: "file_system \<Rightarrow> jsonl_storage \<Rightarrow> string \<Rightarrow> string option \<Rightarrow> file_system \<times> (session_error + jsonl_storage)" where
  "jsonl_moveLane fs s lane to =
     fs_then (fs, requireLane (js_state s) lane) (\<lambda>fs _.
     fs_then (fs, validateTarget (js_state s) to) (\<lambda>fs _.
     jsonl_write fs s (LaneMutation (nextSequence (js_state s)) lane to)))"

definition jsonl_appendEntry :: "file_system \<Rightarrow> jsonl_storage \<Rightarrow> int \<Rightarrow> provisioned_entry \<Rightarrow> string
    \<Rightarrow> file_system \<times> (session_error + jsonl_storage \<times> entry)" where
  "jsonl_appendEntry fs s now p lane =
     fs_then (fs, requireLane (js_state s) lane) (\<lambda>fs parentId.
     fs_then (fs, validateUnusedId (js_state s) (p_id p)) (\<lambda>fs _.
     let e = \<lparr>e_id = p_id p, e_seq = nextSequence (js_state s), e_parentId = parentId,
              e_timestamp = now, e_body = p_body p\<rparr>
     in fs_then (jsonl_write fs s (EntryMutation (Some lane) e)) (\<lambda>fs s'. (fs, Inr (s', e)))))"

definition jsonl_appendRecord :: "file_system \<Rightarrow> jsonl_storage \<Rightarrow> int \<Rightarrow> new_record
    \<Rightarrow> file_system \<times> (session_error + jsonl_storage \<times> lane_record)" where
  "jsonl_appendRecord fs s now n =
     fs_then (fs, requireLane (js_state s) (n_lane n)) (\<lambda>fs _.
     fs_then (fs, validateUnusedId (js_state s) (n_id n)) (\<lambda>fs _.
     fs_then (fs, findOpenOperations (js_state s) (n_lane n) (Some (JsInt 1))) (\<lambda>fs open_ops.
     fs_then (fs, guard_result (\<not> (record_body_type (n_body n) = OperationStartedT \<and> open_ops \<noteq> [])) StorageError) (\<lambda>fs _.
     let r = \<lparr>r_id = n_id n, r_seq = nextSequence (js_state s), r_lane = n_lane n,
              r_timestamp = now, r_body = n_body n\<rparr>
     in fs_then (jsonl_write fs s (RecordMutation r)) (\<lambda>fs s'. (fs, Inr (s', r)))))))"

definition jsonl_setName :: "file_system \<Rightarrow> jsonl_storage \<Rightarrow> string \<Rightarrow> file_system \<times> (session_error + jsonl_storage)" where
  "jsonl_setName fs s n = jsonl_write fs s (NameMutation (nextSequence (js_state s)) n)"

definition jsonl_setLabel :: "file_system \<Rightarrow> jsonl_storage \<Rightarrow> string \<Rightarrow> string option \<Rightarrow> file_system \<times> (session_error + jsonl_storage)" where
  "jsonl_setLabel fs s i label =
     fs_then (fs, validateTarget (js_state s) (Some i)) (\<lambda>fs _.
     jsonl_write fs s (LabelMutation (nextSequence (js_state s)) i label))"

text \<open>The loop that fills the file of a fork.\<close>

fun write_all :: "file_system \<Rightarrow> jsonl_storage \<Rightarrow> session_mutation list \<Rightarrow> file_system \<times> (session_error + jsonl_storage)" where
  "write_all fs s [] = (fs, Inr s)"
| "write_all fs s (m # ms) = fs_then (jsonl_write fs s m) (\<lambda>fs s'. write_all fs s' ms)"

definition jsonl_fork :: "file_system \<Rightarrow> jsonl_storage \<Rightarrow> string \<Rightarrow> jsonl_header \<Rightarrow> fork_options
    \<Rightarrow> file_system \<times> (load_error + jsonl_storage)" where
  "jsonl_fork fs s path header opts =
     fs_then (with_load_error (fs, createForkMutations (js_state s) opts)) (\<lambda>fs mutations.
     fs_then (with_load_error (publishFileAtomically fs path (\<lambda>fs temp.
         fs_then (jsonl_create fs temp header) (\<lambda>fs target.
         fs_then (write_all fs target mutations) (\<lambda>fs _. (fs, Inr ())))))) (\<lambda>fs _.
     jsonl_load fs path))"

definition jsonl_getMetadata :: "jsonl_storage \<Rightarrow> session_metadata" where
  "jsonl_getMetadata s = \<lparr>sm_id = jm_id (js_metadata s), sm_createdAt = jm_createdAt (js_metadata s),
     sm_parentSessionId = jm_parentSessionId (js_metadata s)\<rparr>"

section \<open>The storage refines the storage in memory\<close>

definition jsonl_view :: "jsonl_storage \<Rightarrow> memory_storage" where
  "jsonl_view s = \<lparr>ms_metadata = jsonl_getMetadata s, ms_state = js_state s\<rparr>"

definition written :: "file_system \<Rightarrow> jsonl_storage \<Rightarrow> session_mutation \<Rightarrow> file_system" where
  "written fs s m = put_file fs (jm_path (js_metadata s)) (Some (file_text fs (jm_path (js_metadata s)) @ encodeMutation m))"

lemma jsonl_view_simps [simp]: "ms_state (jsonl_view s) = js_state s" "ms_metadata (jsonl_view s) = jsonl_getMetadata s"
  by (simp_all add: jsonl_view_def)

lemma next_fault_none [simp]: "fs_faults fs = [] \<Longrightarrow> next_fault fs = (NoFault, fs)"
  by (simp add: next_fault_def)

lemma put_file_simps [simp]: "fs_faults (put_file fs p c) = fs_faults fs" "fs_mtimeMs (put_file fs p c) = fs_mtimeMs fs"
  "fs_files (put_file fs p c) = (fs_files fs)(p := c)"
  by (simp_all add: put_file_def)

lemma fs_call_simps [simp]: "fs_call (fs, Inr a) = (fs, Inr a)" "fs_call (fs, Inl e) = (fs, Inl (file_error_code e))"
  by (simp_all add: fs_call_def fileResult_def)

lemma written_faults [simp]: "fs_faults (written fs s m) = fs_faults fs"
  by (simp add: written_def)

lemma jsonl_write_eq: "fs_faults fs = [] \<Longrightarrow> jsonl_write fs s m = (written fs s m, jsonl_apply s m)"
  by (simp add: jsonl_write_def appendMutation_def fs_appendFile_def written_def)

lemma jsonl_apply_view: "map_sum id jsonl_view (jsonl_apply s m) = memory_apply (jsonl_view s) m"
  by (cases "applyMutation (js_state s) m")
    (simp_all add: jsonl_apply_def memory_apply_def jsonl_view_def jsonl_getMetadata_def)

text \<open>
  Without faults each operation gives in memory what the operation of the memory storage gives,
  and appends the line of exactly one mutation when it succeeds and nothing when it fails.
\<close>

lemma jsonl_createLane_sim:
  assumes "fs_faults fs = []"
  shows "map_sum id jsonl_view (snd (jsonl_createLane fs s lane at)) = memory_createLane (jsonl_view s) lane at"
    and "fs_faults (fst (jsonl_createLane fs s lane at)) = []"
  using assms
  by (auto simp: jsonl_createLane_def memory_createLane_def fs_then_def bind_result_def jsonl_write_eq jsonl_apply_view split: sum.splits)

lemma jsonl_moveLane_sim:
  assumes "fs_faults fs = []"
  shows "map_sum id jsonl_view (snd (jsonl_moveLane fs s lane to)) = memory_moveLane (jsonl_view s) lane to"
    and "fs_faults (fst (jsonl_moveLane fs s lane to)) = []"
  using assms
  by (auto simp: jsonl_moveLane_def memory_moveLane_def fs_then_def bind_result_def jsonl_write_eq jsonl_apply_view split: sum.splits)

lemma jsonl_setName_sim:
  assumes "fs_faults fs = []"
  shows "map_sum id jsonl_view (snd (jsonl_setName fs s n)) = memory_setName (jsonl_view s) n"
    and "fs_faults (fst (jsonl_setName fs s n)) = []"
  using assms by (auto simp: jsonl_setName_def memory_setName_def jsonl_write_eq jsonl_apply_view)

lemma jsonl_setLabel_sim:
  assumes "fs_faults fs = []"
  shows "map_sum id jsonl_view (snd (jsonl_setLabel fs s i l)) = memory_setLabel (jsonl_view s) i l"
    and "fs_faults (fst (jsonl_setLabel fs s i l)) = []"
  using assms
  by (auto simp: jsonl_setLabel_def memory_setLabel_def fs_then_def bind_result_def jsonl_write_eq jsonl_apply_view split: sum.splits)

lemma jsonl_write_pair:
  assumes "fs_faults fs = []"
  shows "map_sum id (map_prod jsonl_view id) (snd (fs_then (jsonl_write fs s m) (\<lambda>fs s'. (fs, Inr (s', x))))) =
      bind_result (memory_apply (jsonl_view s) m) (\<lambda>s'. Inr (s', x))"
    and "fs_faults (fst (fs_then (jsonl_write fs s m) (\<lambda>fs s'. (fs, Inr (s', x))))) = []"
  using assms jsonl_apply_view [of s m, symmetric]
  by (cases "jsonl_apply s m"; simp add: jsonl_write_eq)+

lemma jsonl_appendEntry_sim:
  assumes "fs_faults fs = []"
  shows "map_sum id (map_prod jsonl_view id) (snd (jsonl_appendEntry fs s now p lane)) = memory_appendEntry (jsonl_view s) now p lane"
    and "fs_faults (fst (jsonl_appendEntry fs s now p lane)) = []"
  using assms
  by (cases "requireLane (js_state s) lane"; cases "validateUnusedId (js_state s) (p_id p)";
      simp add: jsonl_appendEntry_def memory_appendEntry_def Let_def jsonl_write_pair)+

lemma jsonl_appendRecord_sim:
  assumes "fs_faults fs = []"
  shows "map_sum id (map_prod jsonl_view id) (snd (jsonl_appendRecord fs s now n)) = memory_appendRecord (jsonl_view s) now n"
    and "fs_faults (fst (jsonl_appendRecord fs s now n)) = []"
  using assms
  by (cases "requireLane (js_state s) (n_lane n)"; cases "validateUnusedId (js_state s) (n_id n)";
      cases "findOpenOperations (js_state s) (n_lane n) (Some (JsInt 1))";
      auto simp: jsonl_appendRecord_def memory_appendRecord_def Let_def guard_result_def jsonl_write_pair)+

text \<open>The operations as an implementation of the storage interface.\<close>

type_synonym jsonl = "file_system \<times> jsonl_storage"

definition kept :: "file_system \<times> (session_error + jsonl_storage) \<Rightarrow> session_error + jsonl" where
  "kept p = map_sum id (Pair (fst p)) (snd p)"

definition kept_with :: "file_system \<times> (session_error + jsonl_storage \<times> 'a) \<Rightarrow> session_error + jsonl \<times> 'a" where
  "kept_with p = map_sum id (map_prod (Pair (fst p)) id) (snd p)"

definition jsonl_ops :: "jsonl storage_ops" where
  "jsonl_ops = \<lparr>
     so_getMetadata = (\<lambda>(fs, s). jsonl_getMetadata s),
     so_getLanes = (\<lambda>(fs, s). getLanes (js_state s)),
     so_createLane = (\<lambda>(fs, s) lane at. kept (jsonl_createLane fs s lane at)),
     so_moveLane = (\<lambda>(fs, s) lane to. kept (jsonl_moveLane fs s lane to)),
     so_appendEntry = (\<lambda>(fs, s) now p lane. kept_with (jsonl_appendEntry fs s now p lane)),
     so_appendRecord = (\<lambda>(fs, s) now n. kept_with (jsonl_appendRecord fs s now n)),
     so_getEntry = (\<lambda>(fs, s). getEntry (js_state s)),
     so_findEntries = (\<lambda>(fs, s). findEntries (js_state s)),
     so_findEntriesOnBranch = (\<lambda>(fs, s). findEntriesOnBranch (js_state s)),
     so_findRecords = (\<lambda>(fs, s). findRecords (js_state s)),
     so_findOpenOperations = (\<lambda>(fs, s). findOpenOperations (js_state s)),
     so_getLog = (\<lambda>(fs, s). getLog (js_state s)),
     so_getName = (\<lambda>(fs, s). getName (js_state s)),
     so_setName = (\<lambda>(fs, s) n. kept (jsonl_setName fs s n)),
     so_getLabel = (\<lambda>(fs, s). getLabel (js_state s)),
     so_setLabel = (\<lambda>(fs, s) i l. kept (jsonl_setLabel fs s i l)),
     so_getStats = (\<lambda>(fs, s). getStats (js_state s))\<rparr>"

definition jsonl_inv :: "jsonl \<Rightarrow> bool" where
  "jsonl_inv c \<longleftrightarrow> fs_faults (fst c) = [] \<and> storage_wf (jsonl_view (snd c))"

definition jsonl_used :: "jsonl \<Rightarrow> string set" where
  "jsonl_used c = storage_used (jsonl_view (snd c))"

lemma kept_sim:
  "kept p = Inr c \<Longrightarrow> map_sum id jsonl_view (snd p) = r \<Longrightarrow> r = Inr (jsonl_view (snd c)) \<and> fst c = fst p"
  by (cases p; cases "snd p") (auto simp: kept_def)

lemma kept_with_sim:
  "kept_with p = Inr (c, x) \<Longrightarrow> map_sum id (map_prod jsonl_view id) (snd p) = r \<Longrightarrow> r = Inr (jsonl_view (snd c), x) \<and> fst c = fst p"
  by (cases p; cases "snd p") (auto simp: kept_with_def)

lemma kept_with_ok: "(\<exists>r. kept_with p = Inr r) \<longleftrightarrow> (\<exists>r. map_sum id (map_prod jsonl_view id) (snd p) = Inr r)"
  by (cases "snd p") (auto simp: kept_with_def)

lemma jsonl_appendEntry_memory:
  assumes "jsonl_inv c" "so_appendEntry jsonl_ops c now p lane = Inr (c', e)"
  shows "so_appendEntry memory_ops (jsonl_view (snd c)) now p lane = Inr (jsonl_view (snd c'), e)" "fs_faults (fst c') = []"
proof -
  have fs: "fs_faults (fst c) = []" using assms(1) by (simp add: jsonl_inv_def)
  have op: "kept_with (jsonl_appendEntry (fst c) (snd c) now p lane) = Inr (c', e)"
    using assms(2) by (simp add: jsonl_ops_def split_beta)
  from kept_with_sim [OF op jsonl_appendEntry_sim(1) [OF fs]] jsonl_appendEntry_sim(2) [OF fs]
  show "so_appendEntry memory_ops (jsonl_view (snd c)) now p lane = Inr (jsonl_view (snd c'), e)" "fs_faults (fst c') = []"
    by (simp_all add: memory_ops_def)
qed

lemma jsonl_reads:
  "so_getLanes jsonl_ops c = so_getLanes memory_ops (jsonl_view (snd c))"
  "so_getEntry jsonl_ops c = so_getEntry memory_ops (jsonl_view (snd c))"
  "so_findEntriesOnBranch jsonl_ops c = so_findEntriesOnBranch memory_ops (jsonl_view (snd c))"
  by (cases c, simp add: jsonl_ops_def memory_ops_def)+

lemma jsonl_appendEntry_accepts:
  assumes "jsonl_inv c"
  shows "(\<exists>r. so_appendEntry jsonl_ops c now p lane = Inr r) \<longleftrightarrow> (\<exists>r. so_appendEntry memory_ops (jsonl_view (snd c)) now p lane = Inr r)"
  using assms by (cases c) (simp add: jsonl_ops_def memory_ops_def jsonl_inv_def kept_with_ok jsonl_appendEntry_sim del: split_paired_Ex)

lemma jsonl_inv_kept:
  assumes "kept p = Inr c'" "map_sum id jsonl_view (snd p) = r" "fs_faults (fst p) = []" "\<And>s'. r = Inr s' \<Longrightarrow> storage_wf s'"
  shows "jsonl_inv c'"
  using kept_sim [OF assms(1,2)] assms(3,4) by (simp add: jsonl_inv_def)

lemma jsonl_inv_kept_with:
  assumes "kept_with p = Inr (c', x)" "map_sum id (map_prod jsonl_view id) (snd p) = r" "fs_faults (fst p) = []"
    and "\<And>s'. r = Inr (s', x) \<Longrightarrow> storage_wf s'"
  shows "jsonl_inv c'"
  using kept_with_sim [OF assms(1,2)] assms(3,4) by (simp add: jsonl_inv_def)

interpretation jsonl: session_storage jsonl_ops jsonl_inv jsonl_used
proof (unfold_locales, goal_cases)
  case (1 c now p lane)
  then have "storage_wf (jsonl_view (snd c))" by (simp add: jsonl_inv_def)
  then show ?case
    unfolding jsonl_appendEntry_accepts [OF 1] jsonl_reads jsonl_used_def by (rule memory.append_entry_accepts)
next
  case (2 c now p lane c' e)
  note mem = jsonl_appendEntry_memory [OF 2]
  show ?case
    using memory.append_entry_effect [OF _ mem(1)] mem(2) 2(1)
    by (simp add: jsonl_reads jsonl_used_def jsonl_inv_def)
next
  case (3 c now p lane c' e)
  show ?case
    unfolding jsonl_reads
    by (rule memory.append_entry_branch [OF _ jsonl_appendEntry_memory(1) [OF 3]]) (use 3(1) in \<open>simp add: jsonl_inv_def\<close>)
next
  case (4 c now p lane c' e i q b)
  show ?case
    using memory.append_entry_keeps_branches [OF _ jsonl_appendEntry_memory(1) [OF 4(1,2)]] 4(1,3)
    by (simp add: jsonl_reads jsonl_inv_def)
next
  case (5 c lane i)
  then show ?case using memory.lanes_point_at_entries [of "jsonl_view (snd c)"] by (simp add: jsonl_reads jsonl_inv_def)
next
  case (6 c i e)
  then show ?case using memory.entry_key [of "jsonl_view (snd c)" i e] by (simp add: jsonl_reads jsonl_inv_def jsonl_used_def)
next
  case (7 c now r c' rec)
  then show ?case
    by (intro jsonl_inv_kept_with [OF _ jsonl_appendRecord_sim memory_appendRecord_wf])
      (auto simp: jsonl_ops_def jsonl_inv_def split_beta)
next
  case (8 c lane at c')
  then show ?case
    by (intro jsonl_inv_kept [OF _ jsonl_createLane_sim memory_createLane_wf]) (auto simp: jsonl_ops_def jsonl_inv_def split_beta)
next
  case (9 c lane to c')
  then show ?case
    by (intro jsonl_inv_kept [OF _ jsonl_moveLane_sim memory_moveLane_wf]) (auto simp: jsonl_ops_def jsonl_inv_def split_beta)
next
  case (10 c n c')
  then show ?case
    by (intro jsonl_inv_kept [OF _ jsonl_setName_sim memory_setName_wf]) (auto simp: jsonl_ops_def jsonl_inv_def split_beta)
next
  case (11 c i l c')
  then show ?case
    by (intro jsonl_inv_kept [OF _ jsonl_setLabel_sim memory_setLabel_wf]) (auto simp: jsonl_ops_def jsonl_inv_def split_beta)
qed

end
