(* ===== verification/Session_Repo.thy ===== *)
theory Session_Repo
  imports Session_Jsonl
begin

text \<open>
  \<^verbatim>\<open>JsonlSessionRepo\<close> of \<^verbatim>\<open>packages/agent/src/harness/session-v4/jsonl/repo.ts\<close>: the names of session
  directories and files, the check of a new session id, and the operations that create, open, list,
  delete and fork sessions. The calls that resolve paths and look at directories are arguments, the
  record \<open>directory_view\<close>; file contents are the file system of the storage.
\<close>

section \<open>Names\<close>

definition is_alphanumeric :: "char \<Rightarrow> bool" where
  "is_alphanumeric c \<longleftrightarrow> (let n = of_char c :: nat in (48 \<le> n \<and> n \<le> 57) \<or> (65 \<le> n \<and> n \<le> 90) \<or> (97 \<le> n \<and> n \<le> 122))"

definition is_id_char :: "char \<Rightarrow> bool" where
  "is_id_char c \<longleftrightarrow> is_alphanumeric c \<or> c \<in> {CHR ''.'', CHR ''_'', CHR ''-''}"

text \<open>The pattern \<^verbatim>\<open>^[A-Za-z0-9](?:[A-Za-z0-9._-]*[A-Za-z0-9])?$\<close>.\<close>

definition session_id_matches :: "string \<Rightarrow> bool" where
  "session_id_matches i \<longleftrightarrow> i \<noteq> [] \<and> is_alphanumeric (hd i) \<and> is_alphanumeric (last i) \<and> list_all is_id_char i"

definition validateSessionId :: "string \<Rightarrow> session_error + unit" where
  "validateSessionId i = guard_result (session_id_matches i) InvalidPayload"

definition is_separator :: "char \<Rightarrow> bool" where
  "is_separator c \<longleftrightarrow> c = CHR ''/'' \<or> c = CHR 0x5C"

definition sessionDirectoryName :: "string \<Rightarrow> string" where
  "sessionDirectoryName cwd =
     (let stripped = (case cwd of [] \<Rightarrow> [] | c # cs \<Rightarrow> if is_separator c then cs else cwd) in
      ''--'' @ map (\<lambda>c. if is_separator c \<or> c = CHR '':'' then CHR ''-'' else c) stripped @ ''--'')"

text \<open>
  \<^verbatim>\<open>Date.prototype.toISOString\<close> of a time in milliseconds: the day in the proleptic Gregorian calendar
  by the usual computation in eras of 400 years that begin in March.
\<close>

definition civil_of_days :: "int \<Rightarrow> int \<times> int \<times> int" where
  "civil_of_days days =
     (let z = days + 719468; era = z div 146097; doe = z mod 146097;
          yoe = (doe - doe div 1460 + doe div 36524 - doe div 146096) div 365;
          doy = doe - (365 * yoe + yoe div 4 - yoe div 100);
          mp = (5 * doy + 2) div 153;
          d = doy - (153 * mp + 2) div 5 + 1;
          m = (if mp < 10 then mp + 3 else mp - 9);
          y = yoe + era * 400
      in (if m \<le> 2 then y + 1 else y, m, d))"

definition padded :: "nat \<Rightarrow> int \<Rightarrow> string" where
  "padded k i = (let ds = dec_of_nat (nat i) in replicate (k - length ds) CHR ''0'' @ ds)"

definition year_text :: "int \<Rightarrow> string" where
  "year_text y = (if 0 \<le> y \<and> y \<le> 9999 then padded 4 y else (if y < 0 then ''-'' else ''+'') @ padded 6 \<bar>y\<bar>)"

definition toISOString :: "int \<Rightarrow> string" where
  "toISOString t = (case civil_of_days (t div 86400000) of (y, m, d) \<Rightarrow>
     let ms = t mod 86400000 in
     year_text y @ ''-'' @ padded 2 m @ ''-'' @ padded 2 d @ ''T'' @ padded 2 (ms div 3600000) @ '':'' @
     padded 2 (ms div 60000 mod 60) @ '':'' @ padded 2 (ms div 1000 mod 60) @ ''.'' @ padded 3 (ms mod 1000) @ ''Z'')"

definition sessionFileName :: "int \<Rightarrow> string \<Rightarrow> string" where
  "sessionFileName createdAt i =
     map (\<lambda>c. if c = CHR '':'' \<or> c = CHR ''.'' then CHR ''-'' else c) (toISOString createdAt) @ ''_'' @ i @ ''.jsonl''"

section \<open>Directories\<close>

datatype file_kind = PlainFile | DirectoryEntry | SymlinkEntry

record file_info =
  fi_name :: string
  fi_path :: string
  fi_kind :: file_kind
  fi_mtimeMs :: int

record directory_view =
  dv_absolutePath :: "string \<Rightarrow> file_error + string"
  dv_joinPath :: "string list \<Rightarrow> file_error + string"
  dv_exists :: "string \<Rightarrow> file_error + bool"
  dv_listDir :: "string \<Rightarrow> file_error + file_info list"
  dv_createDir :: "string \<Rightarrow> file_error + unit"

definition ends_with :: "string \<Rightarrow> string \<Rightarrow> bool" where
  "ends_with s suffix \<longleftrightarrow> length suffix \<le> length s \<and> drop (length s - length suffix) s = suffix"

definition repo_root :: "directory_view \<Rightarrow> string \<Rightarrow> session_error + string" where
  "repo_root dv sessionsRoot = fileResult (dv_absolutePath dv sessionsRoot)"

definition sessionDirectory :: "directory_view \<Rightarrow> string \<Rightarrow> string \<Rightarrow> session_error + string" where
  "sessionDirectory dv sessionsRoot cwd =
     bind_result (repo_root dv sessionsRoot) (\<lambda>root. fileResult (dv_joinPath dv [root, sessionDirectoryName cwd]))"

definition sessionIdExists :: "directory_view \<Rightarrow> string \<Rightarrow> string \<Rightarrow> string \<Rightarrow> session_error + bool" where
  "sessionIdExists dv sessionsRoot i cwd =
     bind_result (sessionDirectory dv sessionsRoot cwd) (\<lambda>directory.
     bind_result (fileResult (dv_exists dv directory)) (\<lambda>ex.
     if \<not> ex then Inr False
     else bind_result (fileResult (dv_listDir dv directory)) (\<lambda>files.
     Inr (list_ex (\<lambda>e. fi_kind e \<noteq> DirectoryEntry \<and> ends_with (fi_name e) (''_'' @ i @ ''.jsonl'')) files))))"

definition sessionDirectories :: "directory_view \<Rightarrow> string \<Rightarrow> string option \<Rightarrow> session_error + string list" where
  "sessionDirectories dv sessionsRoot cwd =
     bind_result (repo_root dv sessionsRoot) (\<lambda>root.
     case cwd of
       Some c \<Rightarrow>
         bind_result (fileResult (dv_absolutePath dv c)) (\<lambda>resolved.
         bind_result (sessionDirectory dv sessionsRoot resolved) (\<lambda>directory.
         bind_result (fileResult (dv_exists dv directory)) (\<lambda>ex. Inr (if ex then [directory] else []))))
     | None \<Rightarrow>
         bind_result (fileResult (dv_exists dv root)) (\<lambda>ex.
         if \<not> ex then Inr []
         else bind_result (fileResult (dv_listDir dv root)) (\<lambda>es.
         Inr (map fi_path (filter (\<lambda>e. fi_kind e = DirectoryEntry \<or> fi_kind e = SymlinkEntry) es)))))"

section \<open>Sessions\<close>

record jsonl_create_options =
  co_id :: "string option"
  co_parentSessionId :: "string option"
  co_cwd :: string
  co_metadata :: "json option" \<comment> \<open>a JSON value, which \<^verbatim>\<open>assertJsonSerializable\<close> accepts\<close>

text \<open>\<open>uuid\<close> is what \<^verbatim>\<open>uuidv7()\<close> returns and \<open>now\<close> what \<^verbatim>\<open>Date.now()\<close> returns.\<close>

definition prepareCreate :: "directory_view \<Rightarrow> string \<Rightarrow> string \<Rightarrow> int \<Rightarrow> jsonl_create_options \<Rightarrow> session_error + jsonl_header \<times> string" where
  "prepareCreate dv sessionsRoot uuid now opts =
     (let i = (case co_id opts of Some i \<Rightarrow> i | None \<Rightarrow> uuid) in
      bind_result (validateSessionId i) (\<lambda>_.
      bind_result (fileResult (dv_absolutePath dv (co_cwd opts))) (\<lambda>cwd.
      bind_result (sessionIdExists dv sessionsRoot i cwd) (\<lambda>ex.
      bind_result (guard_result (\<not> ex) AlreadyExists) (\<lambda>_.
      bind_result (sessionDirectory dv sessionsRoot cwd) (\<lambda>directory.
      bind_result (fileResult (dv_joinPath dv [directory, sessionFileName now i])) (\<lambda>path.
      bind_result (fileResult (dv_createDir dv directory)) (\<lambda>_.
      Inr (\<lparr>h_id = i, h_createdAt = now, h_cwd = cwd, h_parentSessionId = co_parentSessionId opts,
             h_legacyParentSessionPath = None, h_metadata = co_metadata opts\<rparr>, path)))))))))"

definition jsonl_repo_create :: "file_system \<Rightarrow> directory_view \<Rightarrow> string \<Rightarrow> string \<Rightarrow> int \<Rightarrow> jsonl_create_options
    \<Rightarrow> file_system \<times> (session_error + jsonl_storage)" where
  "jsonl_repo_create fs dv sessionsRoot uuid now opts =
     fs_then (fs, prepareCreate dv sessionsRoot uuid now opts) (\<lambda>fs hp. jsonl_create fs (snd hp) (fst hp))"

definition loadStorage :: "file_system \<Rightarrow> directory_view \<Rightarrow> jsonl_metadata \<Rightarrow> file_system \<times> (load_error + jsonl_storage)" where
  "loadStorage fs dv metadata =
     fs_then (with_load_error (fs, fileResult (dv_exists dv (jm_path metadata)))) (\<lambda>fs ex.
     if \<not> ex then (fs, Inl (LoadFailed NotFound))
     else fs_then (jsonl_load fs (jm_path metadata)) (\<lambda>fs s.
       (fs, if jm_id (js_metadata s) \<noteq> jm_id metadata then Inl (LoadFailed InvalidEntry) else Inr s)))"

definition jsonl_repo_delete :: "file_system \<Rightarrow> jsonl_metadata \<Rightarrow> file_system \<times> (session_error + unit)" where
  "jsonl_repo_delete fs metadata = fs_call (fs_remove fs (jm_path metadata))"

definition jsonl_repo_fork :: "file_system \<Rightarrow> directory_view \<Rightarrow> string \<Rightarrow> string \<Rightarrow> int \<Rightarrow> jsonl_metadata \<Rightarrow> fork_options
    \<Rightarrow> jsonl_create_options \<Rightarrow> file_system \<times> (load_error + jsonl_storage)" where
  "jsonl_repo_fork fs dv sessionsRoot uuid now source fopts opts =
     fs_then (loadStorage fs dv source) (\<lambda>fs s.
     fs_then (with_load_error (fs, prepareCreate dv sessionsRoot uuid now (opts\<lparr>co_parentSessionId :=
         Some (case co_parentSessionId opts of Some p \<Rightarrow> p | None \<Rightarrow> jm_id source)\<rparr>))) (\<lambda>fs hp.
     jsonl_fork fs s (snd hp) (fst hp) fopts))"

text \<open>The header of one session file as metadata: \<^verbatim>\<open>content.split("\n", 1)[0]\<close> is the first line.\<close>

definition file_metadata :: "file_system \<Rightarrow> file_info \<Rightarrow> file_system \<times> (session_error + jsonl_metadata)" where
  "file_metadata fs f =
     fs_then (fs_call (fs_readTextFile fs (fi_path f))) (\<lambda>fs content.
     let firstLine = hd (split_lines content) in
     if firstLine = [] then (fs, Inl InvalidEntry)
     else (fs, case parseHeader firstLine of
         Inl _ \<Rightarrow> Inl InvalidEntry
       | Inr h \<Rightarrow> Inr (metadataFromHeader h (fi_path f) (fi_mtimeMs f))))"

fun list_files :: "file_system \<Rightarrow> file_info list \<Rightarrow> jsonl_metadata list \<Rightarrow> file_system \<times> (session_error + jsonl_metadata list)" where
  "list_files fs [] acc = (fs, Inr acc)"
| "list_files fs (f # files) acc = fs_then (file_metadata fs f) (\<lambda>fs m. list_files fs files (acc @ [m]))"

fun list_directories :: "file_system \<Rightarrow> directory_view \<Rightarrow> string list \<Rightarrow> jsonl_metadata list
    \<Rightarrow> file_system \<times> (session_error + jsonl_metadata list)" where
  "list_directories fs dv [] acc = (fs, Inr acc)"
| "list_directories fs dv (d # ds) acc =
     fs_then (fs, fileResult (dv_listDir dv d)) (\<lambda>fs es.
     fs_then (list_files fs (filter (\<lambda>e. fi_kind e \<noteq> DirectoryEntry \<and> ends_with (fi_name e) ''.jsonl'') es) acc) (\<lambda>fs acc'.
     list_directories fs dv ds acc'))"

definition listDirect :: "file_system \<Rightarrow> directory_view \<Rightarrow> string \<Rightarrow> string option \<Rightarrow> file_system \<times> (session_error + jsonl_metadata list)" where
  "listDirect fs dv sessionsRoot cwd =
     fs_then (fs, sessionDirectories dv sessionsRoot cwd) (\<lambda>fs directories.
     fs_then (list_directories fs dv directories []) (\<lambda>fs ms.
     (fs, Inr (sort_key (\<lambda>m. - jm_modifiedAt m) ms))))"

section \<open>A new session has a new name\<close>

lemma ends_with_append: "ends_with (p @ s) s"
  by (simp add: ends_with_def)

lemma ends_with_iff: "ends_with s suffix \<longleftrightarrow> (\<exists>p. s = p @ suffix)"
  by (auto simp: ends_with_def) (metis append_take_drop_id)

lemma sessionFileName_suffix: "ends_with (sessionFileName t i) (''_'' @ i @ ''.jsonl'')"
  unfolding sessionFileName_def by (rule ends_with_append)

lemma fileResult_Inr: "fileResult r = Inr a \<longleftrightarrow> r = Inr a"
  by (cases r) (simp_all add: fileResult_def)

lemma prepareCreate_files:
  assumes "prepareCreate dv root uuid now opts = Inr (h, path)" "sessionDirectory dv root (h_cwd h) = Inr dir"
    and "dv_exists dv dir = Inr True" "dv_listDir dv dir = Inr files" "e \<in> set files" "fi_kind e \<noteq> DirectoryEntry"
  shows "\<not> ends_with (fi_name e) (''_'' @ h_id h @ ''.jsonl'')"
  using assms
  by (auto simp: prepareCreate_def Let_def bind_result_Inr_iff sessionIdExists_def fileResult_def list_ex_iff split: if_splits)

text \<open>
  A session is created only under a valid id that no session file of its directory carries: the name of the
  new file differs from the name of every file in the directory, so that creating a session never overwrites one,
  and the header records the id, the time and the directory.\<close>
lemma create_fresh_file:
  assumes "prepareCreate dv root uuid now opts = Inr (h, path)" "sessionDirectory dv root (h_cwd h) = Inr dir"
    and "dv_exists dv dir = Inr True" "dv_listDir dv dir = Inr files" "e \<in> set files" "fi_kind e \<noteq> DirectoryEntry"
  shows "fi_name e \<noteq> sessionFileName t (h_id h) \<and> session_id_matches (h_id h) \<and>
    dv_joinPath dv [dir, sessionFileName now (h_id h)] = Inr path \<and> h_createdAt h = now"
proof -
  have "fi_name e \<noteq> sessionFileName t (h_id h)"
    using prepareCreate_files [OF assms] sessionFileName_suffix [of t "h_id h"] by auto
  then show ?thesis
    using assms(1,2)
    by (auto simp: prepareCreate_def Let_def bind_result_Inr_iff validateSessionId_def fileResult_Inr split: option.splits)
qed

text \<open>
  The test for an existing id looks at the end of the file name only. An id that another one ends with, after an
  underscore, therefore counts as taken.
\<close>

lemma suffix_id_refused:
  assumes "session_id_matches i" "dv_absolutePath dv (co_cwd opts) = Inr cwd" "co_id opts = Some i"
    and "sessionDirectory dv root cwd = Inr dir" "dv_exists dv dir = Inr True" "dv_listDir dv dir = Inr files"
    and "e \<in> set files" "fi_kind e = PlainFile" "fi_name e = sessionFileName t (p @ ''_'' @ i)"
  shows "prepareCreate dv root uuid now opts = Inl AlreadyExists"
proof -
  have "ends_with (fi_name e) (''_'' @ i @ ''.jsonl'')"
    unfolding assms(9) sessionFileName_def ends_with_iff
    by (rule exI [of _ "map (\<lambda>c. if c = CHR '':'' \<or> c = CHR ''.'' then CHR ''-'' else c) (toISOString t) @ ''_'' @ p"]) simp
  then have "list_ex (\<lambda>e. fi_kind e \<noteq> DirectoryEntry \<and> ends_with (fi_name e) (''_'' @ i @ ''.jsonl'')) files"
    using assms(7,8) by (auto simp: list_ex_iff intro!: bexI [of _ e])
  then show ?thesis
    using assms(1-6) by (simp add: prepareCreate_def validateSessionId_def sessionIdExists_def fileResult_def)
qed

definition example_file :: file_info where
  "example_file = \<lparr>fi_name = ''2024_a.jsonl'', fi_path = ''/sessions/2024_a.jsonl'', fi_kind = PlainFile, fi_mtimeMs = 0\<rparr>"

definition example_view :: directory_view where
  "example_view = \<lparr>dv_absolutePath = Inr, dv_joinPath = (\<lambda>ps. Inr (concat ps)), dv_exists = (\<lambda>_. Inr True),
     dv_listDir = (\<lambda>_. Inr [example_file]), dv_createDir = (\<lambda>_. Inr ())\<rparr>"

definition example_options :: jsonl_create_options where
  "example_options = \<lparr>co_id = Some ''b'', co_parentSessionId = None, co_cwd = ''/work'', co_metadata = None\<rparr>"

end
