(* ===== verification/Iso_Time.thy ===== *)
theory Iso_Time
  imports Session_Repo
begin

text \<open>
  Reading a time back from the text that \<^verbatim>\<open>Date.prototype.toISOString\<close> writes, as \<^verbatim>\<open>new Date(text).getTime()\<close> does.
\<close>

section \<open>Days\<close>

definition days_of_civil :: "int \<Rightarrow> int \<Rightarrow> int \<Rightarrow> int" where
  "days_of_civil year m d =
     (let y = (if m \<le> 2 then year - 1 else year); era = y div 400; yoe = y mod 400;
          mp = (if m > 2 then m - 3 else m + 9);
          doy = (153 * mp + 2) div 5 + d - 1;
          doe = yoe * 365 + yoe div 4 - yoe div 100 + doy
      in era * 146097 + doe - 719468)"

text \<open>A day of an era, by centuries, groups of four years, years and days.\<close>

lemma div_parts:
  fixes n d :: int
  assumes "0 < d"
  obtains q m where "n = d * q + m" "0 \<le> m" "m < d" "n div d = q"
  using assms pos_mod_sign [of d n] pos_mod_bound [of d n] mult_div_mod_eq [of d n] by metis

lemma div_unique_int:
  fixes n d :: int
  shows "n = d * q + m \<Longrightarrow> 0 \<le> m \<Longrightarrow> m < d \<Longrightarrow> n div d = q"
  by (rule int_div_pos_eq)

lemma era_parts:
  fixes doe :: int
  assumes "0 \<le> doe" "doe < 146097"
  obtains i j k r where "doe = 36524 * i + 1461 * j + 365 * k + r" "0 \<le> i" "i \<le> 3" "0 \<le> j" "j \<le> 24" "0 \<le> k" "k \<le> 3"
    "0 \<le> r" "r \<le> 365" "r = 365 \<longrightarrow> k = 3" "r = 365 \<and> j = 24 \<longrightarrow> i = 3"
proof -
  obtain q m where q: "doe = 36524 * q + m" "0 \<le> m" "m < 36524" by (rule div_parts [of 36524 doe]) simp
  define i where "i = min 3 q"
  define r1 where "r1 = doe - 36524 * i"
  have q0: "0 \<le> q" "q \<le> 4" using assms q by linarith+
  have "q = 4 \<Longrightarrow> m = 0" using assms q by linarith
  then have qs: "q \<le> 3 \<or> q = 4 \<and> m = 0" using q0 by linarith
  then have i: "0 \<le> i" "i \<le> 3" "0 \<le> r1" "r1 \<le> 36524" "r1 = 36524 \<Longrightarrow> i = 3" using q q0 by (auto simp: i_def r1_def min_def)
  obtain j r2 where j: "r1 = 1461 * j + r2" "0 \<le> r2" "r2 < 1461" by (rule div_parts [of 1461 r1]) simp
  then have j': "0 \<le> j" "j \<le> 24" using i by linarith+
  obtain q' m' where q': "r2 = 365 * q' + m'" "0 \<le> m'" "m' < 365" by (rule div_parts [of 365 r2]) simp
  define k where "k = min 3 q'"
  define r where "r = r2 - 365 * k"
  have q0': "0 \<le> q'" "q' \<le> 4" using j q' by linarith+
  have "q' = 4 \<Longrightarrow> m' = 0" using j q' by linarith
  then have qs': "q' \<le> 3 \<or> q' = 4 \<and> m' = 0" using q0' by linarith
  then have k: "0 \<le> k" "k \<le> 3" "0 \<le> r" "r \<le> 365" "r = 365 \<longrightarrow> k = 3" using q' q0' by (auto simp: k_def r_def min_def)
  have last_day: "r = 365 \<and> j = 24 \<longrightarrow> i = 3"
  proof
    assume that: "r = 365 \<and> j = 24"
    have "r2 = 1460" using that k(5) by (simp add: r_def)
    then show "i = 3" using that j(1) i(5) by simp
  qed
  have "doe = 36524 * i + 1461 * j + 365 * k + r" using j(1) by (simp add: r_def r1_def)
  then show thesis using i(1,2) j' k last_day by (rule that)
qed

lemma era_year:
  fixes doe :: int
  assumes "doe = 36524 * i + 1461 * j + 365 * k + r" "0 \<le> i" "i \<le> 3" "0 \<le> j" "j \<le> 24" "0 \<le> k" "k \<le> 3"
    "0 \<le> r" "r \<le> 365" "r = 365 \<longrightarrow> k = 3" "r = 365 \<and> j = 24 \<longrightarrow> i = 3"
  shows "(doe - doe div 1460 + doe div 36524 - doe div 146096) div 365 = 100 * i + 4 * j + k"
proof -
  define x where "x = 24 * i + j + 365 * k + r"
  define y where "y = 1461 * j + 365 * k + r"
  define a where "a = (if x < 1460 then 0 else 1 :: int)"
  define b where "b = (if y < 36524 then 0 else 1 :: int)"
  have x: "0 \<le> x" "x < 2920" using assms by (auto simp: x_def)
  have y: "0 \<le> y" "y \<le> 36524" using assms by (auto simp: y_def)
  have "doe div 1460 = 25 * i + j + a"
    by (rule div_unique_int [of _ _ _ "x - 1460 * a"]) (use assms x in \<open>auto simp: a_def x_def split: if_splits\<close>)
  moreover have "doe div 36524 = i + b"
    by (rule div_unique_int [of _ _ _ "y - 36524 * b"]) (use assms y in \<open>auto simp: b_def y_def split: if_splits\<close>)
  moreover have "doe div 146096 = b"
    by (rule div_unique_int [of _ _ _ "doe - 146096 * b"]) (use assms y in \<open>auto simp: b_def y_def split: if_splits\<close>)
  moreover have "0 \<le> r - a" "r - a < 365"
    using assms x by (cases "r = 365"; auto simp: a_def x_def split: if_splits)+
  then have "(doe - (25 * i + j + a) + (i + b) - b) div 365 = 100 * i + 4 * j + k"
    by (rule div_unique_int [rotated]) (simp add: assms(1))
  ultimately show ?thesis by simp
qed

lemma civil_parts:
  assumes "civil_of_days n = (year, m, d)"
  shows "days_of_civil year m d = n \<and> 1 \<le> m \<and> m \<le> 12 \<and> 1 \<le> d \<and> d \<le> 31"
proof -
  define z era doe where "z = n + 719468" and "era = z div 146097" and "doe = z mod 146097"
  have "0 \<le> doe" "doe < 146097" by (simp_all add: doe_def)
  then obtain i j k r where parts: "doe = 36524 * i + 1461 * j + 365 * k + r" "0 \<le> i" "i \<le> 3" "0 \<le> j" "j \<le> 24" "0 \<le> k" "k \<le> 3"
    "0 \<le> r" "r \<le> 365" "r = 365 \<longrightarrow> k = 3" "r = 365 \<and> j = 24 \<longrightarrow> i = 3" by (rule era_parts)
  define yoe where "yoe = 100 * i + 4 * j + k"
  have yoe: "(doe - doe div 1460 + doe div 36524 - doe div 146096) div 365 = yoe"
    unfolding yoe_def by (rule era_year) (use parts in auto)
  have y: "0 \<le> yoe" "yoe < 400" using parts by (auto simp: yoe_def)
  have "yoe div 4 = 25 * i + j" by (rule div_unique_int [of _ _ _ k]) (use parts in \<open>simp_all add: yoe_def\<close>)
  moreover have "yoe div 100 = i" by (rule div_unique_int [of _ _ _ "4 * j + k"]) (use parts in \<open>simp_all add: yoe_def\<close>)
  ultimately have doy: "doe - (365 * yoe + yoe div 4 - yoe div 100) = r" using parts(1) by (simp add: yoe_def)
  define mp where "mp = (5 * r + 2) div 153"
  obtain q where q: "5 * r + 2 = 153 * mp + q" "0 \<le> q" "q < 153" unfolding mp_def by (rule div_parts [of 153 "5 * r + 2"]) auto
  have mp: "0 \<le> mp" "mp \<le> 11" using q parts by linarith+
  obtain u v where u: "153 * mp + 2 = 5 * u + v" "0 \<le> v" "v < 5" "(153 * mp + 2) div 5 = u" by (rule div_parts [of 5 "153 * mp + 2"]) auto
  have d: "1 \<le> r - u + 1" "r - u + 1 \<le> 31" using q u by linarith+
  have res: "m = (if mp < 10 then mp + 3 else mp - 9)" "d = r - u + 1" "year = (if m \<le> 2 then yoe + era * 400 + 1 else yoe + era * 400)"
    using assms unfolding civil_of_days_def Let_def z_def [symmetric] era_def [symmetric] doe_def [symmetric] yoe doy mp_def [symmetric] u(4)
    by auto
  have m: "(if m > 2 then m - 3 else m + 9) = mp" "1 \<le> m" "m \<le> 12" using mp res(1) by (auto split: if_splits)
  have year: "(if m \<le> 2 then year - 1 else year) = yoe + era * 400" using res(3) by simp
  have "(yoe + era * 400) div 400 = era" "(yoe + era * 400) mod 400 = yoe" using y by simp_all
  then have "days_of_civil year m d = era * 146097 + (yoe * 365 + yoe div 4 - yoe div 100 + (u + d - 1)) - 719468"
    unfolding days_of_civil_def Let_def year m(1) u(4) by simp
  also have "\<dots> = era * 146097 + doe - 719468" using doy res(2) by simp
  also have "\<dots> = n" using mult_div_mod_eq [of 146097 z] by (simp add: era_def doe_def z_def)
  finally show ?thesis using m d res(2) by simp
qed

section \<open>Texts\<close>

definition digits_at :: "string \<Rightarrow> nat \<Rightarrow> nat \<Rightarrow> int" where
  "digits_at s i k = int (nat_of_digits (take k (drop i s)))"

definition iso_shape :: "string \<Rightarrow> bool" where
  "iso_shape s \<longleftrightarrow> length s = 24 \<and> s ! 4 = CHR ''-'' \<and> s ! 7 = CHR ''-'' \<and> s ! 10 = CHR ''T'' \<and> s ! 13 = CHR '':'' \<and> s ! 16 = CHR '':'' \<and>
     s ! 19 = CHR ''.'' \<and> s ! 23 = CHR ''Z'' \<and>
     list_all is_digit (take 4 s @ take 2 (drop 5 s) @ take 2 (drop 8 s) @ take 2 (drop 11 s) @ take 2 (drop 14 s) @ take 2 (drop 17 s) @ take 3 (drop 20 s))"

text \<open>Only texts of the form that \<open>toISOString\<close> writes for the years from 0 to 9999 are read.\<close>

definition read_iso :: "string \<Rightarrow> int option" where
  "read_iso s =
     (if iso_shape s
      then Some (days_of_civil (digits_at s 0 4) (digits_at s 5 2) (digits_at s 8 2) * 86400000 +
        (digits_at s 11 2 * 3600000 + digits_at s 14 2 * 60000 + digits_at s 17 2 * 1000 + digits_at s 20 3))
      else None)"

definition time_ok :: "int \<Rightarrow> bool" where
  "time_ok t \<longleftrightarrow> (case civil_of_days (t div 86400000) of (y, _, _) \<Rightarrow> 0 \<le> y \<and> y \<le> 9999)"

lemma dec_of_nat_length: "n < 10 ^ k \<Longrightarrow> 0 < k \<Longrightarrow> length (dec_of_nat n) \<le> k"
proof (induction n arbitrary: k rule: dec_of_nat.induct)
  case (1 n)
  show ?case
  proof (cases "n < 10")
    case False
    then obtain j where k: "k = Suc j" "0 < j" using 1(2,3) by (cases k; cases "k - 1") auto
    then have "n div 10 < 10 ^ j" using 1(2) by auto
    then show ?thesis using 1(1) [OF False, of j] k False by (subst dec_of_nat.simps) simp
  qed (use 1(3) in \<open>subst dec_of_nat.simps, simp\<close>)
qed

lemma padded_spec:
  assumes "0 \<le> i" "i < 10 ^ k" "0 < k"
  shows "length (padded k i) = k" "list_all is_digit (padded k i)" "int (nat_of_digits (padded k i)) = i"
proof -
  have "nat i < 10 ^ k" using assms(2) by (simp add: nat_less_iff assms(1))
  then have len: "length (dec_of_nat (nat i)) \<le> k" using assms(3) by (rule dec_of_nat_length)
  then show "length (padded k i) = k" by (simp add: padded_def Let_def)
  have "is_digit CHR ''0''" by code_simp
  then show "list_all is_digit (padded k i)" using dec_of_nat_digits [of "nat i"] by (auto simp: padded_def Let_def list_all_iff)
  show "int (nat_of_digits (padded k i)) = i"
    using assms(1) by (simp add: padded_def Let_def nat_of_digits_append nat_of_digits_zeros nat_of_digits_dec)
qed

lemma read_iso_pieces:
  assumes "length a = 4" "length b = 2" "length c = 2" "length d = 2" "length e = 2" "length f = 2" "length g = 3"
    and "\<forall>x \<in> set [a, b, c, d, e, f, g]. list_all is_digit x"
  shows "read_iso (a @ ''-'' @ b @ ''-'' @ c @ ''T'' @ d @ '':'' @ e @ '':'' @ f @ ''.'' @ g @ ''Z'') =
    Some (days_of_civil (int (nat_of_digits a)) (int (nat_of_digits b)) (int (nat_of_digits c)) * 86400000 +
      (int (nat_of_digits d) * 3600000 + int (nat_of_digits e) * 60000 + int (nat_of_digits f) * 1000 + int (nat_of_digits g)))"
  using assms by (simp add: read_iso_def iso_shape_def digits_at_def nth_append)

lemma read_iso_text:
  assumes "time_ok t"
  shows "read_iso (toISOString t) = Some t"
proof -
  obtain y m d where c: "civil_of_days (t div 86400000) = (y, m, d)" using prod_cases3 by blast
  have y: "0 \<le> y" "y \<le> 9999" using assms c by (simp_all add: time_ok_def)
  note cp = civil_parts [OF c]
  define ms where "ms = t mod 86400000"
  have ms: "0 \<le> ms" "ms < 86400000" by (simp_all add: ms_def)
  obtain h r1 where h: "ms = 3600000 * h + r1" "0 \<le> r1" "r1 < 3600000" "ms div 3600000 = h" by (rule div_parts [of 3600000 ms]) auto
  obtain n r2 where n: "ms = 60000 * n + r2" "0 \<le> r2" "r2 < 60000" "ms div 60000 = n" by (rule div_parts [of 60000 ms]) auto
  obtain q r3 where q: "ms = 1000 * q + r3" "0 \<le> r3" "r3 < 1000" "ms div 1000 = q" by (rule div_parts [of 1000 ms]) auto
  have rest: "h * 3600000 + (n mod 60) * 60000 + (q mod 60) * 1000 + ms mod 1000 = ms"
  proof -
    have "n div 60 = h" "q div 60 = n" using h(4) n(4) q(4) by (simp_all add: zdiv_zmult2_eq [symmetric] flip: h(4) n(4) q(4))
    moreover have "ms mod 1000 = r3" using q by (simp add: minus_mult_div_eq_mod [symmetric])
    ultimately show ?thesis using mult_div_mod_eq [of 60 n] mult_div_mod_eq [of 60 q] q(1) by simp
  qed
  have hb: "0 \<le> h" "h < 100" using h ms by linarith+
  have iso_eq: "toISOString t = padded 4 y @ ''-'' @ padded 2 m @ ''-'' @ padded 2 d @ ''T'' @ padded 2 h @ '':'' @ padded 2 (n mod 60) @ '':'' @
      padded 2 (q mod 60) @ ''.'' @ padded 3 (ms mod 1000) @ ''Z''"
    using y c by (simp add: toISOString_def year_text_def Let_def ms_def [symmetric] h(4) n(4) q(4))
  have p4: "length (padded 4 y) = 4" "list_all is_digit (padded 4 y)" "int (nat_of_digits (padded 4 y)) = y" using y by (auto intro!: padded_spec)
  have p2: "length (padded 2 x) = 2" "list_all is_digit (padded 2 x)" "int (nat_of_digits (padded 2 x)) = x" if "0 \<le> x" "x < 100" for x
    using that by (auto intro!: padded_spec)
  have p3: "length (padded 3 (ms mod 1000)) = 3" "list_all is_digit (padded 3 (ms mod 1000))" "int (nat_of_digits (padded 3 (ms mod 1000))) = ms mod 1000"
    by (auto intro!: padded_spec)
  have small: "0 \<le> n mod 60" "n mod 60 < 100" "0 \<le> q mod 60" "q mod 60 < 100"
    using pos_mod_bound [of 60 n] pos_mod_bound [of 60 q] by simp_all
  have "read_iso (toISOString t) = Some (days_of_civil y m d * 86400000 +
      (h * 3600000 + (n mod 60) * 60000 + (q mod 60) * 1000 + ms mod 1000))"
    unfolding iso_eq by (subst read_iso_pieces) (use p4 p2 p3 cp hb small in auto)
  also have "\<dots> = Some t" using cp rest div_mult_mod_eq [of t 86400000] by (simp add: ms_def)
  finally show ?thesis .
qed

lemma toISOString_not_Nil [simp]: "toISOString t \<noteq> []"
  by (simp add: toISOString_def Let_def split: prod.splits)

end
