(* ===== verification/Tree_Jsonl.thy ===== *)
theory Tree_Jsonl
  imports Tree_Session Iso_Time
begin

text \<open>
  \<^verbatim>\<open>packages/agent/src/harness/session/jsonl-storage.ts\<close> and \<^verbatim>\<open>jsonl-repo.ts\<close>: the tree session kept in a file, a header line and one
  line for each entry. A write appends the line and then changes the storage in memory; opening a session reads every line.

  The file system with its faults is the one of \<open>Session_Jsonl\<close>. The part of the storage in memory is the code of
  \<^verbatim>\<open>memory-storage.ts\<close> line by line, so it is a \<open>tree_storage\<close> here. Payloads that do not have their TypeScript type, which the code takes without
  a check, and times that are not texts of \<open>toISOString\<close> are outside the model (\<open>TreeUntyped\<close>).
\<close>

section \<open>Lines\<close>

record tree_header =
  th_id :: string
  th_timestamp :: int
  th_cwd :: string
  th_parentSession :: "string option"
  th_metadata :: "(string, json) fmap option"

datatype tree_load_error = TreeLoadFailed tree_error | TreeUntyped

fun tree_type_text :: "tree_body \<Rightarrow> string" where
  "tree_type_text (TreeMessage _) = ''message''"
| "tree_type_text (TreeThinkingLevel _) = ''thinking_level_change''"
| "tree_type_text (TreeModelChange _ _) = ''model_change''"
| "tree_type_text (TreeActiveTools _) = ''active_tools_change''"
| "tree_type_text (TreeCompaction _ _ _ _ _ _ _) = ''compaction''"
| "tree_type_text (TreeBranchSummary _ _ _ _ _) = ''branch_summary''"
| "tree_type_text (TreeCustom _ _) = ''custom''"
| "tree_type_text (TreeCustomMessage _ _ _ _) = ''custom_message''"
| "tree_type_text (TreeLabel _ _) = ''label''"
| "tree_type_text (TreeSessionInfo _) = ''session_info''"
| "tree_type_text (TreeLeaf _) = ''leaf''"

fun tree_body_fields :: "tree_body \<Rightarrow> fields" where
  "tree_body_fields (TreeMessage m) = [(''message'', message_doc m)]"
| "tree_body_fields (TreeThinkingLevel level) = [(''thinkingLevel'', DStr level)]"
| "tree_body_fields (TreeModelChange provider modelId) = [(''provider'', DStr provider), (''modelId'', DStr modelId)]"
| "tree_body_fields (TreeActiveTools names) = [(''activeToolNames'', list_doc DStr names)]"
| "tree_body_fields (TreeCompaction summary firstKept tokens tail details u fromHook) =
     [(''summary'', DStr summary)] @ opt_member ''firstKeptEntryId'' DStr firstKept @ [(''tokensBefore'', int_doc tokens)] @
     opt_member ''retainedTail'' (list_doc message_doc) tail @ opt_member ''details'' json_doc details @ opt_member ''usage'' usage_doc u @
     flag_member ''fromHook'' fromHook"
| "tree_body_fields (TreeBranchSummary fromId summary details u fromHook) =
     [(''fromId'', DStr fromId), (''summary'', DStr summary)] @ opt_member ''details'' json_doc details @ opt_member ''usage'' usage_doc u @
     flag_member ''fromHook'' fromHook"
| "tree_body_fields (TreeCustom customType data) = [(''customType'', DStr customType)] @ opt_member ''data'' json_doc data"
| "tree_body_fields (TreeCustomMessage customType content display details) =
     [(''customType'', DStr customType), (''content'', message_content_doc content)] @ opt_member ''details'' json_doc details @
     [(''display'', DBool display)]"
| "tree_body_fields (TreeLabel target label) = [(''targetId'', DStr target)] @ opt_member ''label'' DStr label"
| "tree_body_fields (TreeSessionInfo n) = opt_member ''name'' DStr n"
| "tree_body_fields (TreeLeaf target) = [(''targetId'', nullable_doc DStr target)]"

definition read_tree_body :: "string \<Rightarrow> fields \<Rightarrow> tree_body option" where
  "read_tree_body t kvs =
     (if t = ''message'' then map_option TreeMessage (req_of read_message (get_field kvs ''message''))
      else if t = ''thinking_level_change'' then map_option TreeThinkingLevel (req_of read_string (get_field kvs ''thinkingLevel''))
      else if t = ''model_change'' then do {
        provider \<leftarrow> req_of read_string (get_field kvs ''provider'');
        modelId \<leftarrow> req_of read_string (get_field kvs ''modelId'');
        Some (TreeModelChange provider modelId) }
      else if t = ''active_tools_change'' then map_option TreeActiveTools (req_of (read_list read_string) (get_field kvs ''activeToolNames''))
      else if t = ''compaction'' then do {
        summary \<leftarrow> req_of read_string (get_field kvs ''summary'');
        firstKept \<leftarrow> opt_of read_string (get_field kvs ''firstKeptEntryId'');
        tokens \<leftarrow> req_of read_int (get_field kvs ''tokensBefore'');
        tail \<leftarrow> opt_of (read_list read_message) (get_field kvs ''retainedTail'');
        details \<leftarrow> opt_of read_json (get_field kvs ''details'');
        u \<leftarrow> opt_of read_usage (get_field kvs ''usage'');
        fromHook \<leftarrow> flag_of (get_field kvs ''fromHook'');
        Some (TreeCompaction summary firstKept tokens tail details u fromHook) }
      else if t = ''branch_summary'' then do {
        fromId \<leftarrow> req_of read_string (get_field kvs ''fromId'');
        summary \<leftarrow> req_of read_string (get_field kvs ''summary'');
        details \<leftarrow> opt_of read_json (get_field kvs ''details'');
        u \<leftarrow> opt_of read_usage (get_field kvs ''usage'');
        fromHook \<leftarrow> flag_of (get_field kvs ''fromHook'');
        Some (TreeBranchSummary fromId summary details u fromHook) }
      else if t = ''custom'' then do {
        customType \<leftarrow> req_of read_string (get_field kvs ''customType'');
        data \<leftarrow> opt_of read_json (get_field kvs ''data'');
        Some (TreeCustom customType data) }
      else if t = ''custom_message'' then do {
        customType \<leftarrow> req_of read_string (get_field kvs ''customType'');
        content \<leftarrow> req_of read_message_content (get_field kvs ''content'');
        display \<leftarrow> req_of read_bool (get_field kvs ''display'');
        details \<leftarrow> opt_of read_json (get_field kvs ''details'');
        Some (TreeCustomMessage customType content display details) }
      else if t = ''label'' then do {
        target \<leftarrow> req_of read_string (get_field kvs ''targetId'');
        label \<leftarrow> opt_of read_string (get_field kvs ''label'');
        Some (TreeLabel target label) }
      else if t = ''session_info'' then map_option TreeSessionInfo (opt_of read_string (get_field kvs ''name''))
      else if t = ''leaf'' then map_option TreeLeaf (req_of (read_nullable read_string) (get_field kvs ''targetId''))
      else None)"

definition tree_entry_fields :: "tree_entry \<Rightarrow> fields" where
  "tree_entry_fields e =
     [(''type'', DStr (tree_type_text (te_body e))), (''id'', DStr (te_id e)), (''parentId'', nullable_doc DStr (te_parentId e)),
      (''timestamp'', DStr (toISOString (te_timestamp e)))] @ tree_body_fields (te_body e)"

definition tree_entry_line :: "tree_entry \<Rightarrow> string" where
  "tree_entry_line e = JSON_stringify (DObj (tree_entry_fields e))"

definition tree_header_fields :: "tree_header \<Rightarrow> fields" where
  "tree_header_fields h =
     [(''type'', DStr ''session''), (''version'', int_doc 3), (''id'', DStr (th_id h)), (''timestamp'', DStr (toISOString (th_timestamp h))),
      (''cwd'', DStr (th_cwd h))] @ opt_member ''parentSession'' DStr (th_parentSession h) @
     opt_member ''metadata'' (\<lambda>m. json_doc (JObj m)) (th_metadata h)"

definition tree_header_line :: "tree_header \<Rightarrow> string" where
  "tree_header_line h = JSON_stringify (DObj (tree_header_fields h))"

text \<open>An array is an object without the fields that the code looks for.\<close>

fun object_fields :: "jdoc \<Rightarrow> fields option" where
  "object_fields (DObj kvs) = Some kvs"
| "object_fields (DArr _) = Some []"
| "object_fields _ = None"

definition nonempty_string :: "jdoc option \<Rightarrow> string option" where
  "nonempty_string d = (case d of Some (DStr s) \<Rightarrow> if s = '''' then None else Some s | _ \<Rightarrow> None)"

definition typed_or :: "'a option \<Rightarrow> tree_load_error + 'a" where
  "typed_or x = (case x of None \<Rightarrow> Inl TreeUntyped | Some v \<Rightarrow> Inr v)"

definition or_fail :: "tree_error \<Rightarrow> 'a option \<Rightarrow> tree_load_error + 'a" where
  "or_fail e x = (case x of None \<Rightarrow> Inl (TreeLoadFailed e) | Some v \<Rightarrow> Inr v)"

definition parseHeaderLine :: "string \<Rightarrow> tree_load_error + tree_header" where
  "parseHeaderLine line =
     bind_result (or_fail TreeInvalidSession (Option.bind (JSON_parse line) object_fields)) (\<lambda>kvs.
     bind_result (guard_result (get_field kvs ''type'' = Some (DStr ''session'')) (TreeLoadFailed TreeInvalidSession)) (\<lambda>_.
     bind_result (guard_result (get_field kvs ''version'' = Some (int_doc 3)) (TreeLoadFailed TreeInvalidSession)) (\<lambda>_.
     bind_result (or_fail TreeInvalidSession (nonempty_string (get_field kvs ''id''))) (\<lambda>i.
     bind_result (or_fail TreeInvalidSession (nonempty_string (get_field kvs ''timestamp''))) (\<lambda>timestamp.
     bind_result (or_fail TreeInvalidSession (nonempty_string (get_field kvs ''cwd''))) (\<lambda>cwd.
     bind_result (or_fail TreeInvalidSession (opt_of read_string (get_field kvs ''parentSession''))) (\<lambda>parentSession.
     bind_result (or_fail TreeInvalidSession (opt_of (\<lambda>d. case json_of d of JObj m \<Rightarrow> Some m | _ \<Rightarrow> None) (get_field kvs ''metadata''))) (\<lambda>metadata.
     bind_result (typed_or (read_iso timestamp)) (\<lambda>t.
     Inr \<lparr>th_id = i, th_timestamp = t, th_cwd = cwd, th_parentSession = parentSession, th_metadata = metadata\<rparr>)))))))))"

definition parseEntryLine :: "string \<Rightarrow> tree_load_error + tree_entry" where
  "parseEntryLine line =
     bind_result (or_fail TreeInvalidEntry (Option.bind (JSON_parse line) object_fields)) (\<lambda>kvs.
     bind_result (or_fail TreeInvalidEntry (req_of read_string (get_field kvs ''type''))) (\<lambda>t.
     bind_result (or_fail TreeInvalidEntry (nonempty_string (get_field kvs ''id''))) (\<lambda>i.
     bind_result (or_fail TreeInvalidEntry (req_of (read_nullable read_string) (get_field kvs ''parentId''))) (\<lambda>parentId.
     bind_result (or_fail TreeInvalidEntry (nonempty_string (get_field kvs ''timestamp''))) (\<lambda>timestamp.
     bind_result (guard_result (t = ''leaf'' \<longrightarrow> req_of (read_nullable read_string) (get_field kvs ''targetId'') \<noteq> None)
       (TreeLoadFailed TreeInvalidEntry)) (\<lambda>_.
     bind_result (typed_or (read_tree_body t kvs)) (\<lambda>body.
     bind_result (typed_or (read_iso timestamp)) (\<lambda>now.
     Inr \<lparr>te_id = i, te_parentId = parentId, te_timestamp = now, te_body = body\<rparr>))))))))"

section \<open>The storage\<close>

record tree_file =
  tf_fs :: file_system
  tf_path :: string
  tf_header :: tree_header
  tf_store :: tree_storage

fun tree_file_error :: "file_error \<Rightarrow> tree_error" where
  "tree_file_error FileNotFound = TreeNotFound"
| "tree_file_error FileFailure = TreeStorageFailure"

definition getFileSystemResultOrThrow :: "file_error + 'a \<Rightarrow> tree_error + 'a" where
  "getFileSystemResultOrThrow r = map_sum tree_file_error id r"

definition header_metadata :: "tree_header \<Rightarrow> tree_metadata" where
  "header_metadata h = \<lparr>tm_id = th_id h, tm_createdAt = th_timestamp h\<rparr>"

text \<open>The constructor: the maps and the leaf of the entries, without the check of the storage in memory.\<close>

definition new_tree_file :: "file_system \<Rightarrow> string \<Rightarrow> tree_header \<Rightarrow> tree_entry list \<Rightarrow> tree_file" where
  "new_tree_file fs path header es = \<lparr>tf_fs = fs, tf_path = path, tf_header = header, tf_store =
     \<lparr>ts_metadata = header_metadata header, ts_entries = es, ts_byId = js_map_of (map (\<lambda>e. (te_id e, e)) es),
      ts_labelsById = buildLabelsById es, ts_leafId = foldl (\<lambda>_ e. leafIdAfterEntry e) None es\<rparr>\<rparr>"

fun parse_entry_lines :: "string list \<Rightarrow> tree_load_error + tree_entry list" where
  "parse_entry_lines [] = Inr []"
| "parse_entry_lines (l # ls) = bind_result (parseEntryLine l) (\<lambda>e. bind_result (parse_entry_lines ls) (\<lambda>es. Inr (e # es)))"

definition loadJsonlStorage :: "string \<Rightarrow> tree_load_error + tree_header \<times> tree_entry list" where
  "loadJsonlStorage content =
     (case filter (\<lambda>l. js_trim l \<noteq> '''') (split_lines content) of
        [] \<Rightarrow> Inl (TreeLoadFailed TreeInvalidSession)
      | l # ls \<Rightarrow> bind_result (parseHeaderLine l) (\<lambda>header. bind_result (parse_entry_lines ls) (\<lambda>es. Inr (header, es))))"

definition tree_file_open :: "file_system \<Rightarrow> string \<Rightarrow> file_system \<times> (tree_load_error + tree_file)" where
  "tree_file_open fs path =
     (case fs_readTextFile fs path of
        (fs', Inl e) \<Rightarrow> (fs', Inl (TreeLoadFailed (tree_file_error e)))
      | (fs', Inr content) \<Rightarrow> (fs', bind_result (loadJsonlStorage content) (\<lambda>(header, es). Inr (new_tree_file fs' path header es))))"

definition tree_file_create :: "file_system \<Rightarrow> string \<Rightarrow> tree_header \<Rightarrow> file_system \<times> (tree_error + tree_file)" where
  "tree_file_create fs path header =
     (case fs_writeFile fs path (tree_header_line header @ [line_break]) of
        (fs', Inl e) \<Rightarrow> (fs', Inl (tree_file_error e))
      | (fs', Inr _) \<Rightarrow> (fs', Inr (new_tree_file fs' path header [])))"

text \<open>The append of one line; \<open>update\<close> is the change in memory when it succeeds.\<close>

definition append_line :: "tree_file \<Rightarrow> tree_entry \<Rightarrow> (tree_storage \<Rightarrow> tree_storage) \<Rightarrow> tree_file \<times> (tree_error + unit)" where
  "append_line f e update =
     (case fs_appendFile (tf_fs f) (tf_path f) (tree_entry_line e @ [line_break]) of
        (fs', Inl err) \<Rightarrow> (f\<lparr>tf_fs := fs'\<rparr>, Inl (tree_file_error err))
      | (fs', Inr _) \<Rightarrow> (f\<lparr>tf_fs := fs', tf_store := update (tf_store f)\<rparr>, Inr ()))"

definition file_getLeafId :: "tree_file \<Rightarrow> tree_error + string option" where
  "file_getLeafId f =
     (if ts_leafId (tf_store f) \<noteq> None \<and> \<not> js_has (ts_byId (tf_store f)) (the (ts_leafId (tf_store f)))
      then Inl TreeInvalidSession else Inr (ts_leafId (tf_store f)))"

definition file_createEntryId :: "tree_file \<Rightarrow> (nat \<Rightarrow> string) \<Rightarrow> string" where
  "file_createEntryId f uuid = generateEntryId (ts_byId (tf_store f)) uuid"

definition file_setLeafId :: "tree_file \<Rightarrow> (nat \<Rightarrow> string) \<Rightarrow> int \<Rightarrow> string option \<Rightarrow> tree_file \<times> (tree_error + unit)" where
  "file_setLeafId f uuid now leafId =
     (if leafId \<noteq> None \<and> \<not> js_has (ts_byId (tf_store f)) (the leafId) then (f, Inl TreeNotFound)
      else
        let e = \<lparr>te_id = file_createEntryId f uuid, te_parentId = ts_leafId (tf_store f), te_timestamp = now, te_body = TreeLeaf leafId\<rparr>
        in append_line f e (\<lambda>s. (tree_push s e)\<lparr>ts_leafId := leafId\<rparr>))"

definition file_appendEntry :: "tree_file \<Rightarrow> tree_entry \<Rightarrow> tree_file \<times> (tree_error + unit)" where
  "file_appendEntry f e =
     append_line f e (\<lambda>s. (tree_push s e)\<lparr>ts_labelsById := updateLabelCache (ts_labelsById s) e, ts_leafId := leafIdAfterEntry e\<rparr>)"

definition file_getEntry :: "tree_file \<Rightarrow> string \<Rightarrow> tree_entry option" where
  "file_getEntry f i = js_get (ts_byId (tf_store f)) i"

definition file_getPath :: "tree_file \<Rightarrow> string option \<Rightarrow> (tree_error + tree_entry list) option" where
  "file_getPath f leafId = getPathToRootOrCompaction (tf_store f) leafId"

definition file_getEntries :: "tree_file \<Rightarrow> int option \<Rightarrow> int option \<Rightarrow> tree_entry list" where
  "file_getEntries f afterEntrySeq limit = tree_getEntries (tf_store f) afterEntrySeq limit"

definition file_tree_ops :: "tree_file tree_ops" where
  "file_tree_ops = \<lparr>to_getLeafId = file_getLeafId, to_setLeafId = file_setLeafId, to_createEntryId = file_createEntryId,
     to_appendEntry = file_appendEntry, to_getEntry = file_getEntry, to_getPath = file_getPath,
     to_getEntries = (\<lambda>f. file_getEntries f None None)\<rparr>"

section \<open>The repository\<close>

text \<open>
  Paths and directories are the record \<open>directory_view\<close> of \<open>Session_Repo\<close>. The pattern of \<^verbatim>\<open>encodeCwd\<close> and the name of a file are those of the other store
  (\<open>sessionDirectoryName\<close>, \<open>sessionFileName\<close>). \<open>now\<close> is the time of \<^verbatim>\<open>createTimestamp\<close> and \<open>now'\<close> the one that the header gets.
\<close>

record file_session_metadata =
  fm_header :: tree_header
  fm_path :: string

record file_create_options =
  fo_id :: "string option"
  fo_cwd :: string
  fo_parentSessionPath :: "string option"
  fo_metadata :: "(string, json) fmap option"

definition getSessionDir :: "directory_view \<Rightarrow> string \<Rightarrow> string \<Rightarrow> tree_error + string" where
  "getSessionDir dv rootInput cwd =
     bind_result (getFileSystemResultOrThrow (dv_absolutePath dv rootInput)) (\<lambda>root.
     getFileSystemResultOrThrow (dv_joinPath dv [root, sessionDirectoryName cwd]))"

definition createSessionFilePath :: "directory_view \<Rightarrow> string \<Rightarrow> string \<Rightarrow> string \<Rightarrow> int \<Rightarrow> tree_error + string" where
  "createSessionFilePath dv rootInput cwd sessionId timestamp =
     bind_result (getSessionDir dv rootInput cwd) (\<lambda>dir.
     getFileSystemResultOrThrow (dv_joinPath dv [dir, sessionFileName timestamp sessionId]))"

definition new_session_path :: "directory_view \<Rightarrow> string \<Rightarrow> string \<Rightarrow> string \<Rightarrow> int \<Rightarrow> tree_error + string" where
  "new_session_path dv rootInput cwd sessionId timestamp =
     bind_result (getSessionDir dv rootInput cwd) (\<lambda>dir.
     bind_result (getFileSystemResultOrThrow (dv_createDir dv dir)) (\<lambda>_.
     createSessionFilePath dv rootInput cwd sessionId timestamp))"

definition file_repo_create :: "file_system \<Rightarrow> directory_view \<Rightarrow> string \<Rightarrow> string \<Rightarrow> int \<Rightarrow> int \<Rightarrow> file_create_options
    \<Rightarrow> file_system \<times> (tree_error + tree_file)" where
  "file_repo_create fs dv rootInput uuid now now' opts =
     (let i = (case fo_id opts of None \<Rightarrow> uuid | Some i \<Rightarrow> i) in
      case new_session_path dv rootInput (fo_cwd opts) i now of
        Inl e \<Rightarrow> (fs, Inl e)
      | Inr path \<Rightarrow> tree_file_create fs path \<lparr>th_id = i, th_timestamp = now', th_cwd = fo_cwd opts,
          th_parentSession = fo_parentSessionPath opts, th_metadata = fo_metadata opts\<rparr>)"

definition file_repo_open :: "file_system \<Rightarrow> directory_view \<Rightarrow> file_session_metadata \<Rightarrow> file_system \<times> (tree_load_error + tree_file)" where
  "file_repo_open fs dv metadata =
     (case getFileSystemResultOrThrow (dv_exists dv (fm_path metadata)) of
        Inl e \<Rightarrow> (fs, Inl (TreeLoadFailed e))
      | Inr ex \<Rightarrow> if \<not> ex then (fs, Inl (TreeLoadFailed TreeNotFound)) else tree_file_open fs (fm_path metadata))"

text \<open>\<^verbatim>\<open>readTextLines\<close> with one line: the first line of the text.\<close>

definition loadJsonlSessionMetadata :: "file_system \<Rightarrow> string \<Rightarrow> file_system \<times> (tree_load_error + file_session_metadata)" where
  "loadJsonlSessionMetadata fs path =
     (case fs_readTextFile fs path of
        (fs', Inl e) \<Rightarrow> (fs', Inl (TreeLoadFailed (tree_file_error e)))
      | (fs', Inr content) \<Rightarrow>
          (fs', if js_trim (hd (split_lines content)) = '''' then Inl (TreeLoadFailed TreeInvalidSession)
                else bind_result (parseHeaderLine (hd (split_lines content))) (\<lambda>h. Inr \<lparr>fm_header = h, fm_path = path\<rparr>)))"

fun file_list_files :: "file_system \<Rightarrow> file_info list \<Rightarrow> file_session_metadata list \<Rightarrow> file_system \<times> (tree_load_error + file_session_metadata list)" where
  "file_list_files fs [] acc = (fs, Inr acc)"
| "file_list_files fs (f # files) acc =
     (case loadJsonlSessionMetadata fs (fi_path f) of
        (fs', Inr m) \<Rightarrow> file_list_files fs' files (acc @ [m])
      | (fs', Inl e) \<Rightarrow> if e = TreeLoadFailed TreeInvalidSession then file_list_files fs' files acc else (fs', Inl e))"

fun file_list_dirs :: "file_system \<Rightarrow> directory_view \<Rightarrow> string list \<Rightarrow> file_session_metadata list
    \<Rightarrow> file_system \<times> (tree_load_error + file_session_metadata list)" where
  "file_list_dirs fs dv [] acc = (fs, Inr acc)"
| "file_list_dirs fs dv (d # ds) acc =
     (case getFileSystemResultOrThrow (dv_exists dv d) of
        Inl e \<Rightarrow> (fs, Inl (TreeLoadFailed e))
      | Inr False \<Rightarrow> file_list_dirs fs dv ds acc
      | Inr True \<Rightarrow>
          (case getFileSystemResultOrThrow (dv_listDir dv d) of
             Inl e \<Rightarrow> (fs, Inl (TreeLoadFailed e))
           | Inr es \<Rightarrow>
               fs_then (file_list_files fs (filter (\<lambda>e. fi_kind e \<noteq> DirectoryEntry \<and> ends_with (fi_name e) ''.jsonl'') es) acc)
                 (\<lambda>fs acc'. file_list_dirs fs dv ds acc')))"

definition listSessionDirs :: "directory_view \<Rightarrow> string \<Rightarrow> tree_error + string list" where
  "listSessionDirs dv rootInput =
     bind_result (getFileSystemResultOrThrow (dv_absolutePath dv rootInput)) (\<lambda>root.
     bind_result (getFileSystemResultOrThrow (dv_exists dv root)) (\<lambda>ex.
     if \<not> ex then Inr []
     else bind_result (getFileSystemResultOrThrow (dv_listDir dv root)) (\<lambda>es.
       Inr (map fi_path (filter (\<lambda>e. fi_kind e = DirectoryEntry) es)))))"

definition file_repo_list :: "file_system \<Rightarrow> directory_view \<Rightarrow> string \<Rightarrow> string option \<Rightarrow> file_system \<times> (tree_load_error + file_session_metadata list)" where
  "file_repo_list fs dv rootInput cwd =
     (case (if truthy cwd then bind_result (getSessionDir dv rootInput (the cwd)) (\<lambda>d. Inr [d]) else listSessionDirs dv rootInput) of
        Inl e \<Rightarrow> (fs, Inl (TreeLoadFailed e))
      | Inr dirs \<Rightarrow> fs_then (file_list_dirs fs dv dirs []) (\<lambda>fs ms. (fs, Inr (sort_key (\<lambda>m. - th_timestamp (fm_header m)) ms))))"

definition file_repo_delete :: "file_system \<Rightarrow> file_session_metadata \<Rightarrow> file_system \<times> (tree_error + unit)" where
  "file_repo_delete fs metadata = (case fs_remove fs (fm_path metadata) of (fs', r) \<Rightarrow> (fs', getFileSystemResultOrThrow r))"

fun append_entries :: "tree_file \<Rightarrow> tree_entry list \<Rightarrow> tree_file \<times> (tree_error + unit)" where
  "append_entries f [] = (f, Inr ())"
| "append_entries f (e # es) = st_then (file_appendEntry f e) (\<lambda>f _. append_entries f es)"

text \<open>A fork writes the header and then the entries one by one. \<open>None\<close> as the result is a walk that does not end.\<close>

definition file_repo_fork :: "file_system \<Rightarrow> directory_view \<Rightarrow> string \<Rightarrow> string \<Rightarrow> int \<Rightarrow> int \<Rightarrow> file_session_metadata \<Rightarrow> string option
    \<Rightarrow> fork_position option \<Rightarrow> file_create_options \<Rightarrow> file_system \<times> (tree_load_error + tree_file) option" where
  "file_repo_fork fs dv rootInput uuid now now' source entryId position opts =
     (case file_repo_open fs dv source of
        (fs, Inl e) \<Rightarrow> (fs, Some (Inl e))
      | (fs, Inr src) \<Rightarrow>
          (case getEntriesToFork file_tree_ops src entryId position of
             None \<Rightarrow> (fs, None)
           | Some (Inl e) \<Rightarrow> (fs, Some (Inl (TreeLoadFailed e)))
           | Some (Inr es) \<Rightarrow>
               (case file_repo_create fs dv rootInput uuid now now' (opts\<lparr>
                    fo_parentSessionPath := Some (case fo_parentSessionPath opts of None \<Rightarrow> fm_path source | Some p \<Rightarrow> p),
                    fo_metadata := (case fo_metadata opts of None \<Rightarrow> th_metadata (fm_header source) | Some m \<Rightarrow> Some m)\<rparr>) of
                  (fs, Inl e) \<Rightarrow> (fs, Some (Inl (TreeLoadFailed e)))
                | (fs, Inr f) \<Rightarrow>
                    (case append_entries f es of
                       (f', Inl e) \<Rightarrow> (tf_fs f', Some (Inl (TreeLoadFailed e)))
                     | (f', Inr _) \<Rightarrow> (tf_fs f', Some (Inr f'))))))"

end
