(* ===== verification/Session_Jsonl_Props.thy ===== *)
theory Session_Jsonl_Props
  imports Session_Jsonl
begin

text \<open>
  What the session file holds and what loading it gives: the file of a session that has seen no
  fault loads to the state in memory; after a write that broke off the file loads to the state
  before or after that write; a fork appears at its path as a whole or not at all.
\<close>

section \<open>Lines\<close>

definition mutation_line :: "session_mutation \<Rightarrow> string" where
  "mutation_line m = JSON_stringify (DObj (mutation_doc m))"

definition header_line :: "jsonl_header \<Rightarrow> string" where
  "header_line h = JSON_stringify (DObj (header_doc h))"

definition session_file :: "jsonl_header \<Rightarrow> session_mutation list \<Rightarrow> string" where
  "session_file h ms = encodeHeader h @ concat (map encodeMutation ms)"

lemma split_lines_Cons: "\<exists>l ls. split_lines s = l # ls"
  by (cases s) auto

lemma split_lines_line: "no_newline l \<Longrightarrow> split_lines (l @ line_break # rest) = l # split_lines rest"
  by (induction l) (auto simp: line_break_def)

lemma split_lines_last: "no_newline l \<Longrightarrow> split_lines l = [l]"
  by (induction l) (auto simp: line_break_def)

lemma split_lines_terminated: "list_all no_newline ls \<Longrightarrow> no_newline p \<Longrightarrow> split_lines (terminated ls @ p) = ls @ [p]"
  by (induction ls) (simp_all add: terminated_def split_lines_line split_lines_last)

lemma physical_lines_terminated:
  assumes "list_all no_newline ls" "no_newline p"
  shows "physical_lines (terminated ls @ p) = (if p = [] then ls else ls @ [p])"
  using split_lines_terminated [OF assms] by (simp add: physical_lines_def)

lemma line_no_newline: "no_newline (mutation_line m)" "no_newline (header_line h)"
  by (simp_all only: mutation_line_def header_line_def stringify_no_newline)

lemma session_file_terminated: "session_file h ms = terminated (header_line h # map mutation_line ms)"
proof -
  have "concat (map encodeMutation ms) = terminated (map mutation_line ms)"
    by (induction ms) (simp_all add: terminated_def encodeMutation_def mutation_line_def del: JSON_stringify.simps)
  then show ?thesis
    by (simp add: session_file_def terminated_def encodeHeader_def header_line_def del: JSON_stringify.simps)
qed

lemma session_file_snoc: "session_file h ms @ encodeMutation m = session_file h (ms @ [m])"
  by (simp add: session_file_def)

lemma header_line_not_Nil: "header_line h \<noteq> []"
  by (simp add: header_line_def)

lemma mutation_line_start: "\<exists>r. mutation_line m = CHR ''{'' # r"
  by (simp add: mutation_line_def)

lemma session_file_ends: "ends_with_newline (session_file h ms)"
  by (cases ms rule: rev_cases) (simp_all add: ends_with_newline_def session_file_def encodeHeader_def encodeMutation_def)

lemma mutation_line_ends: "\<not> ends_with_newline (s @ mutation_line m)"
proof -
  have line: "mutation_line m \<noteq> []" using mutation_line_start [of m] by auto
  then have "last (mutation_line m) \<in> set (mutation_line m)" by simp
  then have "last (mutation_line m) \<noteq> line_break" using line_no_newline(1) [of m] by (auto simp: no_newline_def line_break_def)
  with line show ?thesis by (simp add: ends_with_newline_def)
qed

section \<open>Loading\<close>

lemma parse_lines:
  "mutation_ok m \<Longrightarrow> parseMutation (mutation_line m) = Inr m" "header_ok h \<Longrightarrow> parseHeader (header_line h) = Inr h"
  by (simp_all only: mutation_line_def header_line_def parseMutation_encode parseHeader_encode)

lemma load_lines_ok:
  assumes "list_all mutation_ok ms" "applyMutations st ms = Inr st'"
  shows "load_lines st done (map mutation_line ms @ rest) = load_lines st' (done @ map mutation_line ms) rest"
  using assms
proof (induction ms arbitrary: st "done")
  case (Cons m ms)
  then obtain st1 where "applyMutation st m = Inr st1" "applyMutations st1 ms = Inr st'"
    by (auto simp: applyMutations_def bind_result_Inr_iff)
  with Cons show ?case by (simp add: parse_lines)
qed (simp add: applyMutations_def)

text \<open>The content of a session file, possibly with an unfinished last line, as the loader finds it.\<close>

definition file_ok :: "jsonl_header \<Rightarrow> session_mutation list \<Rightarrow> session_state \<Rightarrow> bool" where
  "file_ok h ms st \<longleftrightarrow> header_ok h \<and> list_all mutation_ok ms \<and> applyMutations init_state ms = Inr st"

definition loaded_storage :: "file_system \<Rightarrow> string \<Rightarrow> jsonl_header \<Rightarrow> session_state \<Rightarrow> jsonl_storage" where
  "loaded_storage fs path h st = \<lparr>js_metadata = metadataFromHeader h path (fs_mtimeMs fs path), js_state = st\<rparr>"

lemma loaded_storage_put [simp]: "loaded_storage (put_file fs p c) path h st = loaded_storage fs path h st"
  by (simp add: loaded_storage_def)

lemma loaded_storage_state [simp]: "js_state (loaded_storage fs path h st) = st"
  by (simp add: loaded_storage_def)

lemma no_faults_id: "fs_faults fs = [] \<Longrightarrow> fs\<lparr>fs_faults := []\<rparr> = fs"
  by (cases fs) simp

lemma session_lines:
  assumes "no_newline p"
  shows "physical_lines (session_file h ms @ p) = header_line h # map mutation_line ms @ (if p = [] then [] else [p])"
proof -
  have "list_all no_newline (header_line h # map mutation_line ms)" by (simp add: list_all_iff line_no_newline)
  from physical_lines_terminated [OF this assms] show ?thesis by (simp add: session_file_terminated)
qed

lemma jsonl_load_content:
  assumes "fs_faults fs = []" "fs_files fs path = Some content" "file_ok h ms st"
    and "physical_lines content = header_line h # map mutation_line ms @ rest"
  shows "jsonl_load fs path =
     fs_then (fs, load_lines st (header_line h # map mutation_line ms) rest)
       (\<lambda>fs1. finish_load fs1 path content (metadataFromHeader h path (fs_mtimeMs fs path)))"
proof -
  have "header_ok h" using assms(3) by (simp add: file_ok_def)
  moreover have "load_lines init_state [header_line h] (map mutation_line ms @ rest) =
      load_lines st (header_line h # map mutation_line ms) rest"
    using load_lines_ok [of ms init_state st "[header_line h]" rest] assms(3) by (simp add: file_ok_def)
  ultimately show ?thesis
    using assms(1,2,4)
    by (simp add: jsonl_load_def fs_readTextFile_def fs_fileInfo_def with_load_error_def header_line_not_Nil
        header_error_def parse_lines del: load_lines.simps)
qed

lemma jsonl_load_file:
  assumes "fs_faults fs = []" "fs_files fs path = Some (session_file h ms @ p)" "no_newline p" "file_ok h ms st"
  shows "jsonl_load fs path =
     fs_then (fs, load_lines st (header_line h # map mutation_line ms) (if p = [] then [] else [p]))
       (\<lambda>fs1. finish_load fs1 path (session_file h ms @ p) (metadataFromHeader h path (fs_mtimeMs fs path)))"
  using jsonl_load_content [OF assms(1,2,4)] session_lines [OF assms(3)] by simp

lemma jsonl_load_clean:
  assumes "fs_faults fs = []" "fs_files fs path = Some (session_file h ms)" "file_ok h ms st"
  shows "jsonl_load fs path = (fs, Inr (loaded_storage fs path h st))"
  using jsonl_load_file [of fs path h ms "[]" st] assms
  by (simp add: finish_load_def session_file_ends loaded_storage_def)

lemma jsonl_load_unterminated:
  assumes "fs_faults fs = []" "fs_files fs path = Some (session_file h ms @ mutation_line m)" "file_ok h (ms @ [m]) st"
  shows "jsonl_load fs path = (put_file fs path (Some (session_file h (ms @ [m]))), Inr (loaded_storage fs path h st))"
proof -
  from assms(3) obtain st0 where st0: "file_ok h ms st0" "applyMutation st0 m = Inr st" "mutation_ok m"
    by (auto simp: file_ok_def applyMutations_def fold_result_append bind_result_Inr_iff)
  have "mutation_line m \<noteq> []" using mutation_line_start [of m] by auto
  moreover have "file_text fs path @ [line_break] = session_file h (ms @ [m])"
    using assms(2) by (simp add: file_text_def session_file_def encodeMutation_def mutation_line_def del: JSON_stringify.simps)
  ultimately show ?thesis
    using jsonl_load_file [OF assms(1,2) line_no_newline(1) st0(1)] st0(2,3) assms(1)
    by (simp add: parse_lines finish_load_def mutation_line_ends fs_appendFile_def with_load_error_def loaded_storage_def)
qed

lemma put_file_twice: "put_file (put_file fs p a) p b = put_file fs p b"
  by (simp add: put_file_def)

text \<open>The file system after a torn last line has been repaired.\<close>

definition repaired :: "file_system \<Rightarrow> string \<Rightarrow> string \<Rightarrow> file_system" where
  "repaired fs path content = put_file (put_file fs (path @ ''.tmp'') None) path (Some content)"

lemma jsonl_load_torn:
  assumes "fs_faults fs = []" "fs_files fs path = Some (session_file h ms @ p)" "no_newline p" "p \<noteq> []"
    and "parseMutation p = Inl NotJson" "file_ok h ms st"
  shows "jsonl_load fs path = (repaired fs path (session_file h ms), Inr (loaded_storage fs path h st))"
  using jsonl_load_file [OF assms(1,2,3,6)] assms(1,4,5)
  by (simp add: finish_load_def publishFileAtomically_def fs_writeFile_def fs_renameFile_def with_load_error_def repaired_def
      put_file_twice Let_def loaded_storage_def flip: session_file_terminated)

section \<open>Runs of a storage\<close>

datatype jsonl_call =
    CallCreateLane string "string option"
  | CallMoveLane string "string option"
  | CallAppendEntry int provisioned_entry string
  | CallAppendRecord int new_record
  | CallSetName string
  | CallSetLabel string "string option"

fun jsonl_run :: "file_system \<Rightarrow> jsonl_storage \<Rightarrow> jsonl_call \<Rightarrow> file_system \<times> (session_error + jsonl_storage)" where
  "jsonl_run fs s (CallCreateLane lane at) = jsonl_createLane fs s lane at"
| "jsonl_run fs s (CallMoveLane lane to) = jsonl_moveLane fs s lane to"
| "jsonl_run fs s (CallAppendEntry now p lane) = fs_then (jsonl_appendEntry fs s now p lane) (\<lambda>fs r. (fs, Inr (fst r)))"
| "jsonl_run fs s (CallAppendRecord now n) = fs_then (jsonl_appendRecord fs s now n) (\<lambda>fs r. (fs, Inr (fst r)))"
| "jsonl_run fs s (CallSetName n) = jsonl_setName fs s n"
| "jsonl_run fs s (CallSetLabel i label) = jsonl_setLabel fs s i label"

text \<open>A client that goes on after a call that throws.\<close>

fun run_calls :: "file_system \<Rightarrow> jsonl_storage \<Rightarrow> jsonl_call list \<Rightarrow> file_system \<times> jsonl_storage" where
  "run_calls fs s [] = (fs, s)"
| "run_calls fs s (c # cs) = (case jsonl_run fs s c of
      (fs', Inl e) \<Rightarrow> run_calls fs' s cs
    | (fs', Inr s') \<Rightarrow> run_calls fs' s' cs)"

text \<open>Time stamps that \<^verbatim>\<open>Date.now()\<close> can give, and records of their types.\<close>

fun call_ok :: "jsonl_call \<Rightarrow> bool" where
  "call_ok (CallAppendEntry now p lane) \<longleftrightarrow> safe_time now"
| "call_ok (CallAppendRecord now n) \<longleftrightarrow> safe_time now \<and> record_body_ok (n_body n)"
| "call_ok _ \<longleftrightarrow> True"

text \<open>What a call does: it throws before it writes, or writes one mutation with the next number.\<close>

fun call_mutation :: "session_state \<Rightarrow> jsonl_call \<Rightarrow> session_error + session_mutation" where
  "call_mutation st (CallCreateLane lane at) =
     bind_result (validateNewLane st lane) (\<lambda>_. bind_result (validateTarget st at) (\<lambda>_. Inr (LaneMutation (nextSequence st) lane at)))"
| "call_mutation st (CallMoveLane lane to) =
     bind_result (requireLane st lane) (\<lambda>_. bind_result (validateTarget st to) (\<lambda>_. Inr (LaneMutation (nextSequence st) lane to)))"
| "call_mutation st (CallAppendEntry now p lane) =
     bind_result (requireLane st lane) (\<lambda>parentId. bind_result (validateUnusedId st (p_id p)) (\<lambda>_.
     Inr (EntryMutation (Some lane) \<lparr>e_id = p_id p, e_seq = nextSequence st, e_parentId = parentId, e_timestamp = now, e_body = p_body p\<rparr>)))"
| "call_mutation st (CallAppendRecord now n) =
     bind_result (requireLane st (n_lane n)) (\<lambda>_. bind_result (validateUnusedId st (n_id n)) (\<lambda>_.
     bind_result (findOpenOperations st (n_lane n) (Some (JsInt 1))) (\<lambda>open_ops.
     bind_result (guard_result (\<not> (record_body_type (n_body n) = OperationStartedT \<and> open_ops \<noteq> [])) StorageError) (\<lambda>_.
     Inr (RecordMutation \<lparr>r_id = n_id n, r_seq = nextSequence st, r_lane = n_lane n, r_timestamp = now, r_body = n_body n\<rparr>)))))"
| "call_mutation st (CallSetName n) = Inr (NameMutation (nextSequence st) n)"
| "call_mutation st (CallSetLabel i label) =
     bind_result (validateTarget st (Some i)) (\<lambda>_. Inr (LabelMutation (nextSequence st) i label))"

lemma fs_then_id: "fs_then (fs_then p (\<lambda>fs s'. (fs, Inr (s', x)))) (\<lambda>fs r. (fs, Inr (fst r))) = p"
  by (cases p; cases "snd p") auto

lemma jsonl_run_eq: "jsonl_run fs s c = fs_then (fs, call_mutation (js_state s) c) (\<lambda>fs m. jsonl_write fs s m)"
proof (cases c)
  case (CallAppendEntry now p lane)
  then show ?thesis
    by (cases "requireLane (js_state s) lane"; cases "validateUnusedId (js_state s) (p_id p)")
      (simp_all add: jsonl_appendEntry_def Let_def fs_then_id)
next
  case (CallAppendRecord now n)
  then show ?thesis
    by (cases "requireLane (js_state s) (n_lane n)"; cases "validateUnusedId (js_state s) (n_id n)";
        cases "findOpenOperations (js_state s) (n_lane n) (Some (JsInt 1))")
      (auto simp: jsonl_appendRecord_def Let_def fs_then_id guard_result_def)
qed (auto simp: jsonl_createLane_def jsonl_moveLane_def jsonl_setName_def jsonl_setLabel_def fs_then_def bind_result_def split: sum.splits)

lemma call_mutation_seq: "call_mutation st c = Inr m \<Longrightarrow> mutation_seq m = sequence st + 1"
  by (cases c) (auto simp: bind_result_Inr_iff nextSequence_def)

lemma call_mutation_ok:
  assumes "call_mutation st c = Inr m" "call_ok c" "0 \<le> sequence st" "sequence st < max_safe_integer"
  shows "mutation_ok m"
  using assms by (cases c) (auto simp: bind_result_Inr_iff nextSequence_def safe_seq_def)

text \<open>The file holds the mutations that give the state in memory.\<close>

definition on_disk :: "jsonl_header \<Rightarrow> string \<Rightarrow> session_mutation list \<Rightarrow> file_system \<Rightarrow> jsonl_storage \<Rightarrow> bool" where
  "on_disk h path ms fs s \<longleftrightarrow> fs_faults fs = [] \<and> fs_files fs path = Some (session_file h ms) \<and>
     file_ok h ms (js_state s) \<and> s = loaded_storage fs path h (js_state s) \<and> sequence (js_state s) = int (length ms)"

lemma applyMutation_sequence: "applyMutation st m = Inr st' \<Longrightarrow> sequence st' = sequence st + 1 \<and> mutation_seq m = sequence st + 1"
  by (cases m) (auto split: if_splits)

lemma on_disk_create:
  assumes "jsonl_create fs path h = (fs1, Inr s1)" "fs_faults fs = []" "header_ok h"
  shows "on_disk h path [] fs1 s1"
  using assms
  by (auto simp: jsonl_create_def fs_writeFile_def fs_fileInfo_def on_disk_def session_file_def file_ok_def
      jsonl_new_def loaded_storage_def applyMutations_def) (simp_all add: init_state_def)

lemma on_disk_path: "on_disk h path ms fs s \<Longrightarrow> jm_path (js_metadata s) = path"
  by (metis on_disk_def loaded_storage_def jsonl_storage.select_convs(1) metadataFromHeader_def jsonl_metadata.select_convs(4))

lemma on_disk_write:
  assumes "on_disk h path ms fs s" "mutation_ok m" "jsonl_write fs s m = (fs', Inr s')"
  shows "on_disk h path (ms @ [m]) fs' s'"
proof -
  have fs: "fs_faults fs = []" "fs_files fs path = Some (session_file h ms)" "file_ok h ms (js_state s)"
    "s = loaded_storage fs path h (js_state s)" "sequence (js_state s) = int (length ms)" "jm_path (js_metadata s) = path"
    using assms(1) on_disk_path by (auto simp: on_disk_def)
  from assms(3) obtain st where st: "applyMutation (js_state s) m = Inr st" "s' = s\<lparr>js_state := st\<rparr>" "fs' = written fs s m"
    by (auto simp: jsonl_write_eq fs(1) jsonl_apply_def bind_result_Inr_iff)
  have "file_text fs path = session_file h ms" using fs(2) by (simp add: file_text_def)
  moreover have "s' = loaded_storage fs path h st" using st(2) fs(4) by (metis jsonl_storage.update_convs(2) loaded_storage_def)
  ultimately show ?thesis
    using fs(1-3,5,6) st(1,3) assms(2) applyMutation_sequence [OF st(1)]
    by (auto simp: on_disk_def written_def session_file_snoc file_ok_def applyMutations_def fold_result_append loaded_storage_def)
qed

lemma on_disk_run:
  assumes "on_disk h path ms fs s" "call_ok c" "int (length ms) < max_safe_integer" "jsonl_run fs s c = (fs', Inr s')"
  shows "\<exists>m. on_disk h path (ms @ [m]) fs' s'"
proof -
  from assms(4) obtain m where m: "call_mutation (js_state s) c = Inr m" "jsonl_write fs s m = (fs', Inr s')"
    by (cases "call_mutation (js_state s) c") (auto simp: jsonl_run_eq)
  have "mutation_ok m" by (rule call_mutation_ok [OF m(1) assms(2)]) (use assms(1,3) in \<open>auto simp: on_disk_def\<close>)
  with on_disk_write [OF assms(1) _ m(2)] show ?thesis by blast
qed

lemma on_disk_wf: "on_disk h path ms fs s \<Longrightarrow> session_wf (js_state s)"
  using applyMutations_wf [OF init_state_wf] by (auto simp: on_disk_def file_ok_def)

text \<open>The checks of a call are the ones \<^verbatim>\<open>applyMutation\<close> makes.\<close>

lemma call_accepted:
  assumes "session_wf st" "call_mutation st c = Inr m"
  shows "\<exists>st'. applyMutation st m = Inr st'"
proof -
  have leaf: "parent_exists st leaf" if "js_get (lanes st) lane = Some leaf" for lane leaf
    using assms(1) that
    by (auto simp: parent_exists_def session_wf_def wf_refs_def entry_index_has split: option.splits)
  show ?thesis
    using assms(2) leaf
    by (cases c) (auto simp: bind_result_Inr_iff nextSequence_def requireLane_def validateTarget_def validateUnusedId_def
        parent_exists_def lane_accepts_def js_has_iff_get split: option.splits)
qed

lemma on_disk_refused:
  assumes "on_disk h path ms fs s" "jsonl_run fs s c = (fs', Inl e)"
  shows "fs' = fs"
  using assms call_accepted [OF on_disk_wf [OF assms(1)], of c]
  by (cases "call_mutation (js_state s) c")
    (auto simp: jsonl_run_eq on_disk_def jsonl_write_eq jsonl_apply_def)

lemma on_disk_calls:
  assumes "on_disk h path ms fs s" "list_all call_ok cs" "int (length ms + length cs) \<le> max_safe_integer"
    and "run_calls fs s cs = (fs', s')"
  shows "\<exists>ms'. on_disk h path ms' fs' s' \<and> length ms' \<le> length ms + length cs"
  using assms
proof (induction cs arbitrary: ms fs s)
  case (Cons c cs)
  obtain fs1 r where run: "jsonl_run fs s c = (fs1, r)" by (cases "jsonl_run fs s c")
  show ?case
  proof (cases r)
    case (Inl e)
    then have "fs1 = fs" using on_disk_refused [OF Cons.prems(1)] run by simp
    then have "\<exists>ms'. on_disk h path ms' fs' s' \<and> length ms' \<le> length ms + length cs"
      using Cons.prems run Inl by (intro Cons.IH) auto
    then show ?thesis by auto
  next
    case (Inr s1)
    then obtain m where m: "on_disk h path (ms @ [m]) fs1 s1"
      using on_disk_run [OF Cons.prems(1), of c fs1 s1] Cons.prems(2,3) run by auto
    have "\<exists>ms'. on_disk h path ms' fs' s' \<and> length ms' \<le> length (ms @ [m]) + length cs"
      by (rule Cons.IH [OF m]) (use Cons.prems run Inr in auto)
    then show ?thesis by simp
  qed
qed auto

text \<open>A session from its creation through calls that meet no fault.\<close>

definition session_run :: "file_system \<Rightarrow> string \<Rightarrow> jsonl_header \<Rightarrow> jsonl_call list \<Rightarrow> session_error + file_system \<times> jsonl_storage" where
  "session_run fs path h cs = (case jsonl_create fs path h of
      (fs1, Inl e) \<Rightarrow> Inl e
    | (fs1, Inr s) \<Rightarrow> Inr (run_calls fs1 s cs))"

definition run_ok :: "file_system \<Rightarrow> jsonl_header \<Rightarrow> jsonl_call list \<Rightarrow> bool" where
  "run_ok fs h cs \<longleftrightarrow> fs_faults fs = [] \<and> header_ok h \<and> list_all call_ok cs \<and> int (length cs) < max_safe_integer"

lemma session_run_on_disk:
  assumes "run_ok fs h cs" "session_run fs path h cs = Inr (fs', s')"
  obtains ms where "on_disk h path ms fs' s'" "int (length ms) < max_safe_integer"
proof -
  obtain fs1 s where s: "jsonl_create fs path h = (fs1, Inr s)" "run_calls fs1 s cs = (fs', s')"
    using assms(2) by (auto simp: session_run_def split: prod.splits sum.splits)
  have "on_disk h path [] fs1 s" using assms(1) s(1) by (intro on_disk_create) (auto simp: run_ok_def)
  from on_disk_calls [OF this _ _ s(2)] assms(1) that show ?thesis by (auto simp: run_ok_def)
qed

lemma on_disk_load: "on_disk h path ms fs s \<Longrightarrow> jsonl_load fs path = (fs, Inr s)"
  using jsonl_load_clean [of fs path h ms "js_state s"] by (metis on_disk_def)

section \<open>A write that breaks off\<close>

lemma faulty_write:
  assumes "on_disk h path ms fs s"
  shows "jsonl_write (fs\<lparr>fs_faults := [Fault e w]\<rparr>) s m =
     ((case w of None \<Rightarrow> fs | Some k \<Rightarrow> put_file fs path (Some (session_file h ms @ take k (encodeMutation m)))), Inl (file_error_code e))"
proof -
  have "fs_files fs path = Some (session_file h ms)" "jm_path (js_metadata s) = path" and "fs_faults fs = []"
    using assms on_disk_path [OF assms] by (auto simp: on_disk_def)
  moreover from this have "fs\<lparr>fs_faults := []\<rparr> = fs" by (simp add: no_faults_id)
  ultimately show ?thesis
    by (cases w) (simp_all add: jsonl_write_def appendMutation_def fs_appendFile_def next_fault_def file_text_def)
qed

lemma take_encodeMutation:
  "take k (encodeMutation m) =
     (if k \<le> length (mutation_line m) then take k (mutation_line m) else encodeMutation m)"
  by (auto simp: encodeMutation_def mutation_line_def simp del: JSON_stringify.simps)

lemma torn_prefix:
  assumes "k < length (mutation_line m)"
  shows "parseMutation (take k (mutation_line m)) = Inl NotJson" "no_newline (take k (mutation_line m))"
proof -
  have "JSON_stringify (DObj (mutation_doc m)) = take k (mutation_line m) @ drop k (mutation_line m)"
    by (simp only: mutation_line_def append_take_drop_id)
  then show "parseMutation (take k (mutation_line m)) = Inl NotJson" by (rule parseMutation_torn) (use assms in simp)
  show "no_newline (take k (mutation_line m))"
    using line_no_newline(1) [of m] by (auto simp: no_newline_def dest: in_set_takeD)
qed

text \<open>What is left of a broken-off write loads to the state before or after it.\<close>

lemma broken_write_loads:
  assumes disk: "on_disk h path ms fs s" and ok: "mutation_ok m" and st: "applyMutation (js_state s) m = Inr st"
  shows "\<exists>fs' s' ms'. jsonl_load (put_file fs path (Some (session_file h ms @ take k (encodeMutation m)))) path = (fs', Inr s') \<and>
     on_disk h path ms' fs' s' \<and> (s' = s \<or> s' = s\<lparr>js_state := st\<rparr>)"
proof -
  let ?fs = "put_file fs path (Some (session_file h ms @ take k (encodeMutation m)))"
  have fs: "fs_faults fs = []" "file_ok h ms (js_state s)" "sequence (js_state s) = int (length ms)"
    and s: "s = loaded_storage fs path h (js_state s)"
    using disk by (auto simp: on_disk_def)
  have after: "file_ok h (ms @ [m]) st" "sequence st = int (length (ms @ [m]))"
    using fs(2,3) ok st applyMutation_sequence [OF st] by (auto simp: file_ok_def applyMutations_def fold_result_append)
  have s': "s\<lparr>js_state := st\<rparr> = loaded_storage fs path h st"
    using s by (metis jsonl_storage.update_convs(2) loaded_storage_def)
  consider "k = 0" | "0 < k" "k < length (mutation_line m)" | "k = length (mutation_line m)" | "length (mutation_line m) < k" by linarith
  then show ?thesis
  proof cases
    case 1
    then have "jsonl_load ?fs path = (?fs, Inr s)"
      using jsonl_load_clean [of ?fs path h ms "js_state s"] fs s by simp
    moreover have "on_disk h path ms ?fs s" using 1 fs s by (simp add: on_disk_def)
    ultimately show ?thesis by blast
  next
    case 2
    then have "take k (mutation_line m) \<noteq> []" by auto
    then have "jsonl_load ?fs path = (repaired ?fs path (session_file h ms), Inr s)"
      using jsonl_load_torn [of ?fs path h ms "take k (mutation_line m)" "js_state s"] 2 fs s torn_prefix [OF 2(2)]
      by (simp add: take_encodeMutation)
    moreover have "on_disk h path ms (repaired ?fs path (session_file h ms)) s"
      using fs s by (simp add: on_disk_def repaired_def)
    ultimately show ?thesis by blast
  next
    case 3
    then have "jsonl_load ?fs path = (put_file ?fs path (Some (session_file h (ms @ [m]))), Inr (s\<lparr>js_state := st\<rparr>))"
      using jsonl_load_unterminated [of ?fs path h ms m st] fs after s' by (simp add: take_encodeMutation)
    moreover have "on_disk h path (ms @ [m]) (put_file ?fs path (Some (session_file h (ms @ [m])))) (s\<lparr>js_state := st\<rparr>)"
      using fs after s' by (simp add: on_disk_def)
    ultimately show ?thesis by blast
  next
    case 4
    then have content: "session_file h ms @ take k (encodeMutation m) = session_file h (ms @ [m])"
      by (simp add: take_encodeMutation session_file_snoc)
    then have "jsonl_load ?fs path = (?fs, Inr (s\<lparr>js_state := st\<rparr>))"
      using jsonl_load_clean [of ?fs path h "ms @ [m]" st] fs after s' by simp
    moreover have "on_disk h path (ms @ [m]) ?fs (s\<lparr>js_state := st\<rparr>)" using fs after s' content by (simp add: on_disk_def)
    ultimately show ?thesis by blast
  qed
qed

lemma jsonl_run_result:
  assumes "on_disk h path ms fs s" "call_mutation (js_state s) c = Inr m"
  obtains st where "applyMutation (js_state s) m = Inr st" "snd (jsonl_run fs s c) = Inr (s\<lparr>js_state := st\<rparr>)"
    "fst (jsonl_run fs s c) = put_file fs path (Some (session_file h (ms @ [m])))"
proof -
  from call_accepted [OF on_disk_wf [OF assms(1)] assms(2)] obtain st where st: "applyMutation (js_state s) m = Inr st" by blast
  have "fs_faults fs = []" "file_text fs path = session_file h ms" using assms(1) by (auto simp: on_disk_def file_text_def)
  with st assms(2) on_disk_path [OF assms(1)] that show ?thesis
    by (simp add: jsonl_run_eq jsonl_write_eq jsonl_apply_def written_def session_file_snoc)
qed

section \<open>The properties\<close>

text \<open>
  C10. What is written to a session file is read back: the lines of the file are the header line and one
  line for each mutation, the header line parses to the header and each mutation line to its mutation.\<close>
theorem codec_roundtrip:
  assumes "header_ok h" "list_all mutation_ok ms"
  shows "\<exists>l ls. physical_lines (encodeHeader h @ concat (map encodeMutation ms)) = l # ls \<and>
    parseHeader l = Inr h \<and> map parseMutation ls = map Inr ms"
  using session_lines [of "[]" h ms] assms
  by (auto simp: session_file_def parse_lines list_all_iff)

text \<open>
  C6. A session that is created and written to without faults is on disk as it is in memory: loading its file
  gives back the same storage and does not change the file system, whatever calls were made and refused.\<close>
theorem jsonl_reload:
  assumes "run_ok fs h cs" "session_run fs path h cs = Inr (fs', s')"
  shows "jsonl_load fs' path = (fs', Inr s')"
proof -
  from assms obtain ms where "on_disk h path ms fs' s'" by (rule session_run_on_disk)
  then show ?thesis by (rule on_disk_load)
qed

text \<open>
  C3. When the write of a call breaks off after any number of characters, the call fails, and loading the file
  afterwards gives the storage before the call or the storage the call would have given; the loader leaves a
  file that loads to the same storage without further repair.\<close>
theorem crash_recovery:
  assumes "run_ok fs h cs" "session_run fs path h cs = Inr (fs1, s1)" "call_ok c"
    and "jsonl_run (fs1\<lparr>fs_faults := [Fault e w]\<rparr>) s1 c = (fs2, r)"
  shows "(\<exists>err. r = Inl err) \<and>
    (\<exists>fs3 s3. jsonl_load (fs2\<lparr>fs_faults := []\<rparr>) path = (fs3, Inr s3) \<and> jsonl_load fs3 path = (fs3, Inr s3) \<and>
       (s3 = s1 \<or> snd (jsonl_run fs1 s1 c) = Inr s3))"
proof -
  from assms(1,2) obtain ms where disk: "on_disk h path ms fs1 s1" "int (length ms) < max_safe_integer"
    by (rule session_run_on_disk)
  have faults: "fs1\<lparr>fs_faults := []\<rparr> = fs1"
    using disk(1) by (simp add: on_disk_def no_faults_id)
  show ?thesis
  proof (cases "call_mutation (js_state s1) c")
    case (Inl err)
    then have "fs2\<lparr>fs_faults := []\<rparr> = fs1" "r = Inl err" using assms(4) faults by (auto simp: jsonl_run_eq)
    then show ?thesis using on_disk_load [OF disk(1)] by auto
  next
    case (Inr m)
    have ok: "mutation_ok m"
      by (rule call_mutation_ok [OF Inr assms(3)]) (use disk in \<open>auto simp: on_disk_def\<close>)
    obtain st where st: "applyMutation (js_state s1) m = Inr st" "snd (jsonl_run fs1 s1 c) = Inr (s1\<lparr>js_state := st\<rparr>)"
      using jsonl_run_result [OF disk(1) Inr] by blast
    have run: "fs2 = (case w of None \<Rightarrow> fs1 | Some k \<Rightarrow> put_file fs1 path (Some (session_file h ms @ take k (encodeMutation m))))"
      "r = Inl (file_error_code e)"
      using assms(4) Inr by (auto simp: jsonl_run_eq faulty_write [OF disk(1)])
    have files: "fs2\<lparr>fs_faults := []\<rparr> = fs2" using run(1) disk(1) by (intro no_faults_id) (auto simp: on_disk_def split: option.split)
    have "\<exists>fs3 s3 ms'. jsonl_load fs2 path = (fs3, Inr s3) \<and> on_disk h path ms' fs3 s3 \<and> (s3 = s1 \<or> s3 = s1\<lparr>js_state := st\<rparr>)"
    proof (cases w)
      case None
      then show ?thesis using run(1) disk(1) on_disk_load [OF disk(1)] by auto
    next
      case (Some k)
      then show ?thesis using run(1) broken_write_loads [OF disk(1) ok st(1), of k] by simp
    qed
    then show ?thesis using run(2) files st(2) on_disk_load by metis
  qed
qed

lemma parse_glued: "parseMutation (CHR ''{'' # mutation_line m) = Inl NotJson"
proof -
  obtain r where "mutation_line m = CHR ''{'' # r" using mutation_line_start by blast
  then show ?thesis by (simp add: parseMutation_def parseObject_def JSON_parse_def parse_fuel_def quote_char_neq [symmetric])
qed

text \<open>The file after one character of a failed write, followed by the lines of later writes.\<close>

lemma jsonl_load_glued:
  assumes "fs_faults fs = []" "file_ok h ms st"
    and "fs_files fs path = Some (session_file h ms @ ''{'' @ concat (map encodeMutation (m # ms')))"
  shows "ms' = [] \<Longrightarrow> snd (jsonl_load fs path) = Inr (loaded_storage fs path h st)"
    and "ms' \<noteq> [] \<Longrightarrow> snd (jsonl_load fs path) = Inl (LoadFailed InvalidEntry)"
proof -
  let ?rest = "(CHR ''{'' # mutation_line m) # map mutation_line ms'"
  have "concat (map encodeMutation ms') = terminated (map mutation_line ms')"
    by (induction ms') (simp_all add: terminated_def encodeMutation_def mutation_line_def del: JSON_stringify.simps)
  then have "session_file h ms @ ''{'' @ concat (map encodeMutation (m # ms')) = terminated (header_line h # map mutation_line ms @ ?rest) @ []"
    by (simp add: session_file_terminated terminated_def encodeMutation_def mutation_line_def del: JSON_stringify.simps)
  moreover have "list_all no_newline (header_line h # map mutation_line ms @ ?rest)"
    by (auto simp: list_all_iff line_no_newline)
  ultimately have "physical_lines (session_file h ms @ ''{'' @ concat (map encodeMutation (m # ms'))) = header_line h # map mutation_line ms @ ?rest"
    using physical_lines_terminated [of "header_line h # map mutation_line ms @ ?rest" "[]"] by simp
  note load = jsonl_load_content [OF assms(1,3,2) this]
  show "snd (jsonl_load fs path) = Inr (loaded_storage fs path h st)" if "ms' = []"
    using that assms(1)
    by (simp add: load parse_glued finish_load_def publishFileAtomically_def fs_writeFile_def fs_renameFile_def with_load_error_def
        Let_def loaded_storage_def)
  show "snd (jsonl_load fs path) = Inl (LoadFailed InvalidEntry)" if "ms' \<noteq> []"
    using that by (simp add: load parse_glued)
qed

text \<open>
  C25. An append that fails after one character leaves that character in the file, and the storage stays usable.
  The next call succeeds, but its line continues the broken one: loading the file then gives the storage without
  it, so an acknowledged write is lost, and after one more call the file no longer loads at all.\<close>
theorem failed_append_corrupts:
  assumes "run_ok fs h cs" "session_run fs path h cs = Inr (fs1, s1)" "jsonl_run fs1 s1 c1 = (fsx, Inr sx)"
    and "jsonl_run (fs1\<lparr>fs_faults := [Fault e (Some 1)]\<rparr>) s1 c1 = (fs2, r)"
    and "jsonl_run fs2 s1 c2 = (fs3, Inr s3)" "jsonl_run fs3 s3 c3 = (fs4, Inr s4)"
  shows "r = Inl (file_error_code e) \<and> s3 \<noteq> s1 \<and> snd (jsonl_load fs3 path) = Inr s1 \<and>
    snd (jsonl_load fs4 path) = Inl (LoadFailed InvalidEntry)"
proof -
  from assms(1,2) obtain ms where disk: "on_disk h path ms fs1 s1" by (rule session_run_on_disk)
  note path = on_disk_path [OF disk]
  obtain m1 where m1: "call_mutation (js_state s1) c1 = Inr m1"
    using assms(3) by (cases "call_mutation (js_state s1) c1") (auto simp: jsonl_run_eq)
  obtain m2 where m2: "call_mutation (js_state s1) c2 = Inr m2" "jsonl_write fs2 s1 m2 = (fs3, Inr s3)"
    using assms(5) by (cases "call_mutation (js_state s1) c2") (auto simp: jsonl_run_eq)
  obtain m3 where m3: "jsonl_write fs3 s3 m3 = (fs4, Inr s4)"
    using assms(6) by (cases "call_mutation (js_state s3) c3") (auto simp: jsonl_run_eq)
  have "take 1 (encodeMutation m1) = ''{''" by (simp add: encodeMutation_def)
  then have fs2: "fs2 = put_file fs1 path (Some (session_file h ms @ ''{''))" "r = Inl (file_error_code e)"
    using assms(4) m1 faulty_write [OF disk] by (auto simp: jsonl_run_eq)
  have faults: "fs_faults fs2 = []" using fs2(1) disk by (simp add: on_disk_def)
  from m2(2) obtain st2 where s3: "applyMutation (js_state s1) m2 = Inr st2" "s3 = s1\<lparr>js_state := st2\<rparr>" "fs3 = written fs2 s1 m2"
    by (auto simp: jsonl_write_eq faults jsonl_apply_def bind_result_Inr_iff)
  have fs3: "fs_faults fs3 = []" "fs_files fs3 path = Some (session_file h ms @ ''{'' @ encodeMutation m2)" "fs_mtimeMs fs3 = fs_mtimeMs fs1"
    using faults s3(3) fs2(1) path by (simp_all add: written_def file_text_def)
  from m3 have fs4: "fs_faults fs4 = []" "fs_files fs4 path = Some (session_file h ms @ ''{'' @ encodeMutation m2 @ encodeMutation m3)"
    using fs3 s3(2) path by (auto simp: jsonl_write_eq written_def file_text_def)
  have ok: "file_ok h ms (js_state s1)" "s1 = loaded_storage fs1 path h (js_state s1)" using disk by (auto simp: on_disk_def)
  have "snd (jsonl_load fs3 path) = Inr s1"
    using jsonl_load_glued(1) [of fs3 h ms "js_state s1" path m2 "[]"] fs3 ok by (simp add: loaded_storage_def)
  moreover have "snd (jsonl_load fs4 path) = Inl (LoadFailed InvalidEntry)"
    using jsonl_load_glued(2) [of fs4 h ms "js_state s1" path m2 "[m3]"] fs4 ok(1) by simp
  moreover have "js_state s3 \<noteq> js_state s1" using applyMutation_sequence [OF s3(1)] s3(2) by auto
  ultimately show ?thesis using fs2(2) by auto
qed

section \<open>Forks\<close>

text \<open>Filling the temporary file of a fork leaves every other file alone and, when it succeeds, writes all of it.\<close>

lemma write_all_file:
  assumes "write_all fs s ms = (fs', r)" "jm_path (js_metadata s) = p" "fs_files fs p = Some content"
  shows "(\<forall>q. q \<noteq> p \<longrightarrow> fs_files fs' q = fs_files fs q) \<and>
    (\<forall>s'. r = Inr s' \<longrightarrow> fs_files fs' p = Some (content @ concat (map encodeMutation ms)))"
  using assms
proof (induction ms arbitrary: fs s content)
  case (Cons m ms)
  obtain fs1 r1 where w: "jsonl_write fs s m = (fs1, r1)" by (cases "jsonl_write fs s m")
  have "(\<forall>q. q \<noteq> p \<longrightarrow> fs_files fs1 q = fs_files fs q) \<and>
      (\<forall>s'. r1 = Inr s' \<longrightarrow> jm_path (js_metadata s') = p \<and> fs_files fs1 p = Some (content @ encodeMutation m))"
    using w Cons.prems(2,3)
    by (auto simp: jsonl_write_def appendMutation_def fs_appendFile_def next_fault_def jsonl_apply_def bind_result_Inr_iff file_text_def
        split: list.splits fault.splits option.splits)
  with w Cons.prems Cons.IH [of fs1 _ "content @ encodeMutation m"] show ?case by (cases r1) auto
qed auto

lemma fork_populate:
  assumes "fs_then (jsonl_create fs temp h) (\<lambda>fs target. fs_then (write_all fs target ms) (\<lambda>fs _. (fs, Inr ()))) = (fs', r)"
  shows "q \<noteq> temp \<Longrightarrow> fs_files fs' q = fs_files fs q"
    and "r = Inr u \<Longrightarrow> fs_files fs' temp = Some (session_file h ms)"
proof -
  obtain fs1 r1 where c: "jsonl_create fs temp h = (fs1, r1)" by (cases "jsonl_create fs temp h")
  have create: "(\<forall>q. q \<noteq> temp \<longrightarrow> fs_files fs1 q = fs_files fs q) \<and>
      (\<forall>s. r1 = Inr s \<longrightarrow> jm_path (js_metadata s) = temp \<and> fs_files fs1 temp = Some (encodeHeader h))"
    using c by (auto simp: jsonl_create_def fs_writeFile_def fs_fileInfo_def next_fault_def jsonl_new_def metadataFromHeader_def
        split: list.splits fault.splits option.splits if_splits)
  have "(q \<noteq> temp \<longrightarrow> fs_files fs' q = fs_files fs q) \<and> (r = Inr u \<longrightarrow> fs_files fs' temp = Some (session_file h ms))"
  proof (cases r1)
    case (Inl e)
    then show ?thesis using assms c create by auto
  next
    case (Inr s)
    obtain fs2 r2 where w: "write_all fs1 s ms = (fs2, r2)" by (cases "write_all fs1 s ms")
    from write_all_file [OF w] create Inr assms c w show ?thesis
      by (cases r2) (auto simp: session_file_def)
  qed
  then show "q \<noteq> temp \<Longrightarrow> fs_files fs' q = fs_files fs q" "r = Inr u \<Longrightarrow> fs_files fs' temp = Some (session_file h ms)" by auto
qed

text \<open>Publishing touches the destination only by the rename that ends it.\<close>

lemma publish_atomic:
  assumes pop: "\<And>fs1 r1. populate fs (dest @ ''.tmp'') = (fs1, r1) \<Longrightarrow>
      fs_files fs1 dest = fs_files fs dest \<and> (\<forall>u. r1 = Inr u \<longrightarrow> fs_files fs1 (dest @ ''.tmp'') = Some content)"
    and run: "publishFileAtomically fs dest populate = (fs', r)"
  shows "(case r of Inl e \<Rightarrow> fs_files fs' dest = fs_files fs dest | Inr u \<Rightarrow> fs_files fs' dest = Some content)"
proof -
  obtain fs1 r1 where p: "populate fs (dest @ ''.tmp'') = (fs1, r1)" by (cases "populate fs (dest @ ''.tmp'')")
  from run pop [OF p] p show ?thesis
    by (cases r1) (auto simp: publishFileAtomically_def Let_def fs_renameFile_def fs_remove_def next_fault_def
        split: list.splits fault.splits)
qed

lemma jsonl_load_clean_files:
  assumes "fs_files fs path = Some (session_file h ms)" "file_ok h ms st" "jsonl_load fs path = (fs', r)"
  shows "fs_files fs' = fs_files fs" "r = Inr s \<Longrightarrow> js_state s = st"
proof -
  have lines: "physical_lines (session_file h ms) = header_line h # map mutation_line ms" using session_lines [of "[]" h ms] by simp
  have "header_ok h" using assms(2) by (simp add: file_ok_def)
  moreover have "load_lines init_state [header_line h] (map mutation_line ms) = Inr (st, None)"
    using load_lines_ok [of ms init_state st "[header_line h]" "[]"] assms(2) by (simp add: file_ok_def)
  ultimately have "fs_files fs' = fs_files fs \<and> (r = Inr s \<longrightarrow> js_state s = st)"
    using assms(1,3)
    by (auto simp: jsonl_load_def fs_readTextFile_def fs_fileInfo_def next_fault_def with_load_error_def lines header_line_not_Nil
        header_error_def parse_lines finish_load_def session_file_ends split: list.splits fault.splits)
  then show "fs_files fs' = fs_files fs" "r = Inr s \<Longrightarrow> js_state s = st" by auto
qed

text \<open>
  C22. A fork is published as a whole or not at all: whatever calls on the file system fail and wherever they break
  off, the destination holds what it held before or the complete file of the fork, and the latter when the fork
  succeeds, whose state is then the one a fork in memory gives.\<close>
theorem fork_atomic:
  assumes "storage_wf (jsonl_view s)" "header_ok h" "createForkMutations (js_state s) opts = Inr ms" "list_all mutation_ok ms"
    and "jsonl_fork fs s path h opts = (fs', r)"
  shows "(fs_files fs' path = fs_files fs path \<or> fs_files fs' path = Some (session_file h ms)) \<and>
    (\<forall>s'. r = Inr s' \<longrightarrow> fs_files fs' path = Some (session_file h ms) \<and>
       memory_fork (jsonl_view s) md opts = Inr \<lparr>ms_metadata = md, ms_state = js_state s'\<rparr>)"
proof -
  have wf: "session_wf (js_state s)" using assms(1) by (simp add: storage_wf_def)
  obtain st where st: "applyMutations init_state ms = Inr st" using fork_replays_wf [OF wf assms(3)] by blast
  have ok: "file_ok h ms st" using assms(2,4) st by (simp add: file_ok_def)
  let ?pop = "\<lambda>fs temp. fs_then (jsonl_create fs temp h) (\<lambda>fs target. fs_then (write_all fs target ms) (\<lambda>fs _. (fs, Inr ())))"
  obtain fs1 r1 where pub: "publishFileAtomically fs path ?pop = (fs1, r1)" by (cases "publishFileAtomically fs path ?pop")
  have files: "case r1 of Inl e \<Rightarrow> fs_files fs1 path = fs_files fs path | Inr u \<Rightarrow> fs_files fs1 path = Some (session_file h ms)"
    by (rule publish_atomic [OF _ pub]) (auto dest: fork_populate)
  show ?thesis
  proof (cases r1)
    case (Inl e)
    then show ?thesis using assms(3,5) pub files by (auto simp: jsonl_fork_def with_load_error_def)
  next
    case (Inr u)
    then have load: "jsonl_load fs1 path = (fs', r)" using assms(3,5) pub by (auto simp: jsonl_fork_def with_load_error_def)
    have file1: "fs_files fs1 path = Some (session_file h ms)" using files Inr by simp
    show ?thesis
      using jsonl_load_clean_files [OF file1 ok load] file1 assms(3) st by (auto simp: memory_fork_def)
  qed
qed

text \<open>
  C29. As long as no file system call fails, each operation of the file-backed storage answers as the operation of
  the in-memory storage does and leaves the same session state behind, errors included.\<close>
theorem jsonl_refines_memory:
  assumes "fs_faults fs = []"
  shows "map_sum id jsonl_view (snd (jsonl_createLane fs s lane at)) = memory_createLane (jsonl_view s) lane at \<and>
    map_sum id jsonl_view (snd (jsonl_moveLane fs s lane at)) = memory_moveLane (jsonl_view s) lane at \<and>
    map_sum id (map_prod jsonl_view id) (snd (jsonl_appendEntry fs s now p lane)) = memory_appendEntry (jsonl_view s) now p lane \<and>
    map_sum id (map_prod jsonl_view id) (snd (jsonl_appendRecord fs s now n)) = memory_appendRecord (jsonl_view s) now n \<and>
    map_sum id jsonl_view (snd (jsonl_setName fs s nm)) = memory_setName (jsonl_view s) nm \<and>
    map_sum id jsonl_view (snd (jsonl_setLabel fs s i l)) = memory_setLabel (jsonl_view s) i l"
  using jsonl_createLane_sim(1) [OF assms] jsonl_moveLane_sim(1) [OF assms] jsonl_appendEntry_sim(1) [OF assms]
    jsonl_appendRecord_sim(1) [OF assms] jsonl_setName_sim(1) [OF assms] jsonl_setLabel_sim(1) [OF assms]
  by blast

section \<open>Instances\<close>

definition example_header :: jsonl_header where
  "example_header = \<lparr>h_id = ''s1'', h_createdAt = 1700000000000, h_cwd = ''/work'', h_parentSessionId = None,
     h_legacyParentSessionPath = None, h_metadata = None\<rparr>"

definition empty_disk :: file_system where
  "empty_disk = \<lparr>fs_files = (\<lambda>_. None), fs_faults = [], fs_mtimeMs = (\<lambda>_. 0)\<rparr>"

definition example_path :: string where
  "example_path = ''s1.jsonl''"

lemma example_header_ok: "header_ok example_header"
  by (simp add: header_ok_def example_header_def safe_time_def max_safe_integer_def)

lemma example_run_ok: "run_ok empty_disk example_header [CallSetName n]"
  by (simp add: run_ok_def example_header_ok empty_disk_def max_safe_integer_def)

lemmas example_run = session_run_def jsonl_create_def fs_writeFile_def fs_fileInfo_def empty_disk_def next_fault_def put_file_def
  jsonl_setName_def jsonl_write_def appendMutation_def fs_appendFile_def jsonl_apply_def jsonl_new_def nextSequence_def
  init_state_def fs_call_def fileResult_def file_text_def

theorem codec_roundtrip_witness:
  "\<exists>l ls. physical_lines (encodeHeader example_header @ concat (map encodeMutation [NameMutation 1 ''draft''])) = l # ls \<and>
    parseHeader l = Inr example_header \<and> map parseMutation ls = map Inr [NameMutation 1 ''draft'']"
  by (rule codec_roundtrip) (simp_all add: example_header_ok safe_seq_def max_safe_integer_def)

lemma example_session:
  "\<exists>fs' s'. session_run empty_disk example_path example_header [CallSetName n] = Inr (fs', s') \<and> name (js_state s') = Some n"
  by (simp add: example_run)

theorem jsonl_reload_witness:
  "\<exists>fs' s'. session_run empty_disk example_path example_header [CallSetName ''draft''] = Inr (fs', s') \<and>
     name (js_state s') = Some ''draft'' \<and> jsonl_load fs' example_path = (fs', Inr s')"
proof -
  obtain fs' s' where run: "session_run empty_disk example_path example_header [CallSetName ''draft''] = Inr (fs', s')"
    "name (js_state s') = Some ''draft''" using example_session by blast
  with jsonl_reload [OF example_run_ok run(1)] show ?thesis by blast
qed

theorem crash_recovery_witness:
  "\<exists>fs1 s1 fs2 err fs3 s3. session_run empty_disk example_path example_header [CallSetName ''draft''] = Inr (fs1, s1) \<and>
     jsonl_run (fs1\<lparr>fs_faults := [Fault FileFailure (Some 5)]\<rparr>) s1 (CallSetName ''final'') = (fs2, Inl err) \<and>
     jsonl_load (fs2\<lparr>fs_faults := []\<rparr>) example_path = (fs3, Inr s3) \<and>
     (s3 = s1 \<or> snd (jsonl_run fs1 s1 (CallSetName ''final'')) = Inr s3)"
proof -
  obtain fs1 s1 where run: "session_run empty_disk example_path example_header [CallSetName ''draft''] = Inr (fs1, s1)"
    using example_session by blast
  obtain fs2 r where fault: "jsonl_run (fs1\<lparr>fs_faults := [Fault FileFailure (Some 5)]\<rparr>) s1 (CallSetName ''final'') = (fs2, r)"
    by (cases "jsonl_run (fs1\<lparr>fs_faults := [Fault FileFailure (Some 5)]\<rparr>) s1 (CallSetName ''final'')")
  from crash_recovery [OF example_run_ok run _ fault] obtain err fs3 s3 where
    "r = Inl err" "jsonl_load (fs2\<lparr>fs_faults := []\<rparr>) example_path = (fs3, Inr s3)"
    "s3 = s1 \<or> snd (jsonl_run fs1 s1 (CallSetName ''final'')) = Inr s3" by auto
  with run fault show ?thesis by blast
qed

lemma example_accepts:
  assumes "fs_faults fs = []"
  obtains fs' s' where "jsonl_run fs s (CallSetName n) = (fs', Inr s')" "fs_faults fs' = []"
  using assms by (simp add: jsonl_setName_def jsonl_write_eq jsonl_apply_def nextSequence_def)

theorem failed_append_corrupts_witness:
  "\<exists>fs1 s1 fs2 r fs3 s3 fs4 s4. session_run empty_disk example_path example_header [CallSetName ''draft''] = Inr (fs1, s1) \<and>
     jsonl_run (fs1\<lparr>fs_faults := [Fault FileFailure (Some 1)]\<rparr>) s1 (CallSetName ''a'') = (fs2, r) \<and>
     jsonl_run fs2 s1 (CallSetName ''b'') = (fs3, Inr s3) \<and> jsonl_run fs3 s3 (CallSetName ''c'') = (fs4, Inr s4) \<and>
     r = Inl StorageError \<and> s3 \<noteq> s1 \<and> snd (jsonl_load fs3 example_path) = Inr s1 \<and>
     snd (jsonl_load fs4 example_path) = Inl (LoadFailed InvalidEntry)"
proof -
  obtain fs1 s1 where run: "session_run empty_disk example_path example_header [CallSetName ''draft''] = Inr (fs1, s1)"
    using example_session by blast
  from session_run_on_disk [OF example_run_ok run] obtain ms where disk: "on_disk example_header example_path ms fs1 s1" by blast
  then have clean: "fs_faults fs1 = []" by (simp add: on_disk_def)
  obtain fsx sx where c1: "jsonl_run fs1 s1 (CallSetName ''a'') = (fsx, Inr sx)" using example_accepts [OF clean] by blast
  obtain fs2 r where fault: "jsonl_run (fs1\<lparr>fs_faults := [Fault FileFailure (Some 1)]\<rparr>) s1 (CallSetName ''a'') = (fs2, r)"
    by (cases "jsonl_run (fs1\<lparr>fs_faults := [Fault FileFailure (Some 1)]\<rparr>) s1 (CallSetName ''a'')")
  have "fs_faults fs2 = []" using fault clean by (auto simp: jsonl_run_eq faulty_write [OF disk] simp del: jsonl_run.simps)
  then obtain fs3 s3 where c2: "jsonl_run fs2 s1 (CallSetName ''b'') = (fs3, Inr s3)" "fs_faults fs3 = []" using example_accepts by blast
  obtain fs4 s4 where c3: "jsonl_run fs3 s3 (CallSetName ''c'') = (fs4, Inr s4)" using example_accepts [OF c2(2)] by blast
  from failed_append_corrupts [OF example_run_ok run c1 fault c2(1) c3] run fault c2(1) c3 show ?thesis by auto
qed

theorem fork_atomic_witness:
  "\<exists>ms. createForkMutations init_state TreeFork = Inr ms \<and>
    (let r = jsonl_fork (empty_disk\<lparr>fs_faults := [NoFault, NoFault, Fault FileFailure (Some 3)]\<rparr>)
       (jsonl_new (metadataFromHeader example_header example_path 0)) ''fork.jsonl'' example_header TreeFork
     in fs_files (fst r) ''fork.jsonl'' = None \<or> fs_files (fst r) ''fork.jsonl'' = Some (session_file example_header ms))"
proof -
  let ?s = "jsonl_new (metadataFromHeader example_header example_path 0)"
  let ?fs = "empty_disk\<lparr>fs_faults := [NoFault, NoFault, Fault FileFailure (Some 3)]\<rparr>"
  obtain fs' r where run: "jsonl_fork ?fs ?s ''fork.jsonl'' example_header TreeFork = (fs', r)"
    by (cases "jsonl_fork ?fs ?s ''fork.jsonl'' example_header TreeFork")
  have wf: "storage_wf (jsonl_view ?s)"
    using memory_new_wf [of "jsonl_getMetadata ?s"] by (simp add: jsonl_view_def memory_new_def jsonl_new_def)
  have "createForkMutations init_state TreeFork = Inr [LaneMutation 1 ''main'' None]" by code_simp
  then obtain ms where ms: "createForkMutations (js_state ?s) TreeFork = Inr ms" "list_all mutation_ok ms"
    by (simp add: jsonl_new_def safe_seq_def max_safe_integer_def)
  from fork_atomic [OF wf example_header_ok ms run] run ms show ?thesis
    by (auto simp: empty_disk_def jsonl_new_def)
qed

theorem jsonl_refines_memory_witness:
  "fs_faults empty_disk = [] \<and>
   map_sum id jsonl_view (snd (jsonl_setName empty_disk (jsonl_new (metadataFromHeader example_header example_path 0)) ''draft'')) =
     memory_setName (jsonl_view (jsonl_new (metadataFromHeader example_header example_path 0))) ''draft''"
  using jsonl_refines_memory [of empty_disk "jsonl_new (metadataFromHeader example_header example_path 0)"] by (simp add: empty_disk_def)

end
