(* ===== verification/Tree_Jsonl_Props.thy ===== *)
theory Tree_Jsonl_Props
  imports Tree_Jsonl Tree_Session_Props Session_Jsonl_Props
begin

text \<open>
  A session file without faults opens to the storage that wrote it; a write that breaks off makes the session unreadable; and the
  storage keeps the contract of a tree session storage under all faults.
\<close>

section \<open>Lines\<close>

definition tree_payload_keys :: "string list" where
  "tree_payload_keys = [''message'', ''thinkingLevel'', ''provider'', ''modelId'', ''activeToolNames'', ''summary'', ''firstKeptEntryId'', ''tokensBefore'',
     ''retainedTail'', ''details'', ''usage'', ''fromHook'', ''fromId'', ''customType'', ''data'', ''content'', ''display'', ''targetId'', ''label'', ''name'']"

lemma tree_body_fields_keys: "k \<notin> set tree_payload_keys \<Longrightarrow> get_field (tree_body_fields b) k = None"
  by (cases b) (auto simp: tree_payload_keys_def)

lemma read_tree_body_fields:
  assumes "\<forall>k \<in> set tree_payload_keys. get_field kvs k = get_field (tree_body_fields b) k"
  shows "read_tree_body (tree_type_text b) kvs = Some b"
  using assms by (cases b) (simp_all add: tree_payload_keys_def read_tree_body_def wire)

definition entry_ok :: "tree_entry \<Rightarrow> bool" where
  "entry_ok e \<longleftrightarrow> te_id e \<noteq> '''' \<and> time_ok (te_timestamp e)"

definition tree_header_ok :: "tree_header \<Rightarrow> bool" where
  "tree_header_ok h \<longleftrightarrow> th_id h \<noteq> '''' \<and> th_cwd h \<noteq> '''' \<and> time_ok (th_timestamp h)"

lemma parseEntryLine_line: "entry_ok e \<Longrightarrow> parseEntryLine (tree_entry_line e) = Inr e"
proof -
  assume ok: "entry_ok e"
  let ?kvs = "tree_entry_fields e"
  have "get_field ?kvs k = get_field (tree_body_fields (te_body e)) k" if "k \<in> set tree_payload_keys" for k
    using that by (auto simp: tree_entry_fields_def tree_payload_keys_def)
  then have body: "read_tree_body (tree_type_text (te_body e)) ?kvs = Some (te_body e)" by (intro read_tree_body_fields) blast
  have base: "get_field ?kvs ''type'' = Some (DStr (tree_type_text (te_body e)))" "get_field ?kvs ''id'' = Some (DStr (te_id e))"
    "get_field ?kvs ''parentId'' = Some (nullable_doc DStr (te_parentId e))" "get_field ?kvs ''timestamp'' = Some (DStr (toISOString (te_timestamp e)))"
    using tree_body_fields_keys [of _ "te_body e"] by (simp_all add: tree_entry_fields_def tree_payload_keys_def)
  have leaf: "tree_type_text (te_body e) = ''leaf'' \<Longrightarrow> req_of (read_nullable read_string) (get_field ?kvs ''targetId'') \<noteq> None"
    by (cases "te_body e") (simp_all add: tree_entry_fields_def wire)
  show ?thesis
    using ok leaf by (simp add: parseEntryLine_def tree_entry_line_def JSON_parse_stringify base body or_fail_def typed_or_def nonempty_string_def
        read_iso_text entry_ok_def wire del: JSON_stringify.simps)
qed

lemma parseHeaderLine_line: "tree_header_ok h \<Longrightarrow> parseHeaderLine (tree_header_line h) = Inr h"
proof -
  assume ok: "tree_header_ok h"
  have json: "(case json_of (json_doc (JObj m)) of JObj m \<Rightarrow> Some m | _ \<Rightarrow> None) = Some m" for m
    unfolding json_of_doc by simp
  show ?thesis
    using ok by (simp add: parseHeaderLine_def tree_header_line_def tree_header_fields_def JSON_parse_stringify or_fail_def typed_or_def
        nonempty_string_def read_iso_text tree_header_ok_def wire json del: JSON_stringify.simps json_doc.simps)
qed

section \<open>Files\<close>

definition tree_session_file :: "tree_header \<Rightarrow> tree_entry list \<Rightarrow> string" where
  "tree_session_file h es = terminated (tree_header_line h # map tree_entry_line es)"

lemma object_text_start: "\<exists>t. JSON_stringify (DObj kvs) = CHR ''{'' # t"
  by simp

lemma object_text_not_blank: "js_trim (CHR ''{'' # t) \<noteq> ''''"
proof
  assume blank: "js_trim (CHR ''{'' # t) = ''''"
  have brace: "\<not> is_js_space CHR ''{''" by code_simp
  then have "dropWhile is_js_space (rev (CHR ''{'' # t)) = []" using blank by (simp add: js_trim_def)
  then have "\<forall>x \<in> set (rev (CHR ''{'' # t)). is_js_space x" unfolding dropWhile_eq_Nil_conv .
  then show False using brace by simp
qed

lemma tree_lines_shown:
  "js_trim (tree_entry_line e) \<noteq> ''''" "js_trim (tree_header_line h) \<noteq> ''''" "no_newline (tree_entry_line e)" "no_newline (tree_header_line h)"
  using object_text_start [of "tree_entry_fields e"] object_text_start [of "tree_header_fields h"] object_text_not_blank stringify_no_newline
  unfolding tree_entry_line_def tree_header_line_def by (auto simp del: JSON_stringify.simps)

lemma split_session_file:
  "no_newline p \<Longrightarrow> split_lines (tree_session_file h es @ p) = tree_header_line h # map tree_entry_line es @ [p]"
  using split_lines_terminated [of "tree_header_line h # map tree_entry_line es" p] tree_lines_shown
  by (simp add: tree_session_file_def list_all_iff)

lemma parse_entry_lines_append:
  "list_all entry_ok es \<Longrightarrow> parse_entry_lines (map tree_entry_line es @ ls) = bind_result (parse_entry_lines ls) (\<lambda>fs. Inr (es @ fs))"
proof (induction es)
  case Nil
  then show ?case by (cases "parse_entry_lines ls") simp_all
next
  case (Cons e es)
  then show ?case by (cases "parse_entry_lines ls") (simp_all add: parseEntryLine_line)
qed

lemma load_session_file:
  assumes "tree_header_ok h" "list_all entry_ok es" "no_newline p"
  shows "loadJsonlStorage (tree_session_file h es @ p) =
    bind_result (if js_trim p = '''' then Inr [] else parse_entry_lines [p]) (\<lambda>fs. Inr (h, es @ fs))"
proof -
  have "filter (\<lambda>l. js_trim l \<noteq> '''') (split_lines (tree_session_file h es @ p)) =
      tree_header_line h # map tree_entry_line es @ (if js_trim p = '''' then [] else [p])"
    using tree_lines_shown by (simp add: split_session_file [OF assms(3)] filter_id_conv)
  then show ?thesis
    using parse_entry_lines_append [OF assms(2), of "if js_trim p = '''' then [] else [p]"]
    by (cases "parse_entry_lines [p]") (auto simp: loadJsonlStorage_def parseHeaderLine_line [OF assms(1)])
qed

text \<open>A storage whose file holds exactly its entries.\<close>

definition in_step :: "tree_file \<Rightarrow> bool" where
  "in_step f \<longleftrightarrow> tree_header_ok (tf_header f) \<and> list_all entry_ok (ts_entries (tf_store f)) \<and> fs_faults (tf_fs f) = [] \<and>
     fs_files (tf_fs f) (tf_path f) = Some (tree_session_file (tf_header f) (ts_entries (tf_store f))) \<and>
     f = new_tree_file (tf_fs f) (tf_path f) (tf_header f) (ts_entries (tf_store f))"

lemma new_tree_file_simps [simp]:
  "tf_fs (new_tree_file fs path h es) = fs" "tf_path (new_tree_file fs path h es) = path" "tf_header (new_tree_file fs path h es) = h"
  "ts_entries (tf_store (new_tree_file fs path h es)) = es"
  by (simp_all add: new_tree_file_def)

lemma open_in_step: "in_step f \<Longrightarrow> tree_file_open (tf_fs f) (tf_path f) = (tf_fs f, Inr f)"
  using load_session_file [of "tf_header f" "ts_entries (tf_store f)" "[]"]
  by (simp add: in_step_def tree_file_open_def fs_readTextFile_def js_trim_def)

lemma file_text_in_step: "in_step f \<Longrightarrow> file_text (tf_fs f) (tf_path f) = tree_session_file (tf_header f) (ts_entries (tf_store f))"
  by (simp add: in_step_def file_text_def)

lemma tree_session_file_snoc: "tree_session_file h (es @ [e]) = tree_session_file h es @ tree_entry_line e @ [line_break]"
  by (simp add: tree_session_file_def terminated_def)

lemma append_line_in_step:
  assumes "in_step f" "entry_ok e"
    and "update (tf_store f) = tf_store (new_tree_file (tf_fs f) (tf_path f) (tf_header f) (ts_entries (tf_store f) @ [e]))"
  shows "in_step (fst (append_line f e update)) \<and> snd (append_line f e update) = Inr ()"
proof -
  let ?fs = "put_file (tf_fs f) (tf_path f) (Some (tree_session_file (tf_header f) (ts_entries (tf_store f) @ [e])))"
  have none: "fs_faults (tf_fs f) = []" using assms(1) by (simp add: in_step_def)
  have call: "fs_appendFile (tf_fs f) (tf_path f) (tree_entry_line e @ [line_break]) = (?fs, Inr ())"
    using none by (simp add: fs_appendFile_def file_text_in_step [OF assms(1)] tree_session_file_snoc)
  have "append_line f e update = (new_tree_file ?fs (tf_path f) (tf_header f) (ts_entries (tf_store f) @ [e]), Inr ())"
    using assms(3) by (simp add: append_line_def call new_tree_file_def)
  then show ?thesis using assms(1,2) by (simp add: in_step_def put_file_def)
qed

lemma store_of_in_step:
  "in_step f \<Longrightarrow> tf_store f = \<lparr>ts_metadata = header_metadata (tf_header f), ts_entries = ts_entries (tf_store f),
     ts_byId = js_map_of (map (\<lambda>e. (te_id e, e)) (ts_entries (tf_store f))), ts_labelsById = buildLabelsById (ts_entries (tf_store f)),
     ts_leafId = foldl (\<lambda>_ e. leafIdAfterEntry e) None (ts_entries (tf_store f))\<rparr>"
proof -
  assume "in_step f"
  then have f: "f = new_tree_file (tf_fs f) (tf_path f) (tf_header f) (ts_entries (tf_store f))" unfolding in_step_def by blast
  show ?thesis using arg_cong [OF f, of tf_store] unfolding new_tree_file_def tree_file.select_convs .
qed

text \<open>Sessions built in a file without faults.\<close>

inductive file_reachable :: "tree_file \<Rightarrow> bool" where
  created: "fs_faults fs = [] \<Longrightarrow> tree_header_ok h \<Longrightarrow> tree_file_create fs path h = (fs', Inr f) \<Longrightarrow> file_reachable f"
| opened: "file_reachable f \<Longrightarrow> tree_file_open (tf_fs f) (tf_path f) = (fs', Inr g) \<Longrightarrow> file_reachable g"
| appended: "file_reachable f \<Longrightarrow> entry_ok e \<Longrightarrow> file_appendEntry f e = (g, r) \<Longrightarrow> file_reachable g"
| moved: "file_reachable f \<Longrightarrow> file_createEntryId f uuid \<noteq> '''' \<Longrightarrow> time_ok now \<Longrightarrow> file_setLeafId f uuid now leaf = (g, r) \<Longrightarrow> file_reachable g"

lemma append_update:
  assumes "in_step f"
  shows "(tree_push (tf_store f) e)\<lparr>ts_labelsById := updateLabelCache (ts_labelsById (tf_store f)) e, ts_leafId := leafIdAfterEntry e\<rparr> =
    tf_store (new_tree_file (tf_fs f) (tf_path f) (tf_header f) (ts_entries (tf_store f) @ [e]))"
  by (subst (1 2) store_of_in_step [OF assms]) (simp add: tree_push_def new_tree_file_def js_map_of_snoc buildLabelsById_def)

lemma leaf_update:
  assumes "in_step f" "te_body e = TreeLeaf leaf"
  shows "(tree_push (tf_store f) e)\<lparr>ts_leafId := leaf\<rparr> =
    tf_store (new_tree_file (tf_fs f) (tf_path f) (tf_header f) (ts_entries (tf_store f) @ [e]))"
  using append_update [OF assms(1), of e] assms(2)
  by (simp add: updateLabelCache_def leafIdAfterEntry_def tree_push_def)

lemma reachable_in_step: "file_reachable f \<Longrightarrow> in_step f"
proof (induction rule: file_reachable.induct)
  case (created fs h path fs' f)
  then show ?case by (auto simp: tree_file_create_def fs_writeFile_def in_step_def tree_session_file_def terminated_def put_file_def)
next
  case (opened f fs' g)
  then show ?case using open_in_step [of f] by simp
next
  case (appended f e g r)
  let ?update = "\<lambda>s. (tree_push s e)\<lparr>ts_labelsById := updateLabelCache (ts_labelsById s) e, ts_leafId := leafIdAfterEntry e\<rparr>"
  have "in_step (fst (append_line f e ?update))"
    using append_line_in_step [where update = ?update, OF appended(4,2)] append_update [OF appended(4), of e] by simp
  then show ?case using appended(3) by (simp add: file_appendEntry_def)
next
  case (moved f uuid now leaf g r)
  show ?case
  proof (cases "leaf \<noteq> None \<and> \<not> js_has (ts_byId (tf_store f)) (the leaf)")
    case True
    then show ?thesis using moved by (simp add: file_setLeafId_def)
  next
    case False
    define e where "e = \<lparr>te_id = file_createEntryId f uuid, te_parentId = ts_leafId (tf_store f), te_timestamp = now, te_body = TreeLeaf leaf\<rparr>"
    have "entry_ok e" using moved by (simp add: e_def entry_ok_def)
    then have "in_step (fst (append_line f e (\<lambda>s. (tree_push s e)\<lparr>ts_leafId := leaf\<rparr>)))"
      using append_line_in_step [where update = "\<lambda>s. (tree_push s e)\<lparr>ts_leafId := leaf\<rparr>", OF moved(5)] leaf_update [OF moved(5), of e leaf]
      by (simp add: e_def)
    moreover have "file_setLeafId f uuid now leaf = append_line f e (\<lambda>s. (tree_push s e)\<lparr>ts_leafId := leaf\<rparr>)"
      using False unfolding file_setLeafId_def e_def Let_def by auto
    ultimately show ?thesis using moved(4) by (metis fst_conv)
  qed
qed

section \<open>Opening a session\<close>

text \<open>
  C15. A session kept in a file without faults opens again to exactly the storage that wrote it, with its entries, their index, the
  labels and the leaf, after any sequence of appends, moves of the leaf and reopenings.
\<close>

theorem tree_file_reopens:
  assumes "file_reachable f"
  shows "tree_file_open (tf_fs f) (tf_path f) = (tf_fs f, Inr f)"
  by (rule open_in_step [OF reachable_in_step [OF assms]])

lemma append_torn:
  assumes "in_step f" "k \<le> length (tree_entry_line e)"
    and "file_appendEntry (f\<lparr>tf_fs := (tf_fs f)\<lparr>fs_faults := [Fault err (Some k)]\<rparr>\<rparr>) e = (g, r)"
  shows "r = Inl (tree_file_error err) \<and> tf_store g = tf_store f \<and> fs_faults (tf_fs g) = [] \<and>
    fs_files (tf_fs g) (tf_path f) = Some (tree_session_file (tf_header f) (ts_entries (tf_store f)) @ take k (tree_entry_line e))"
  using assms by (auto simp: file_appendEntry_def append_line_def fs_appendFile_def next_fault_def put_file_def in_step_def file_text_def)

text \<open>
  C16. A write that breaks off in the middle of its line makes the whole session unreadable: the call reports an error and the
  storage in memory goes on, but the file no longer opens, although everything written before was acknowledged.
\<close>

theorem torn_write_loses_session:
  assumes "file_reachable f" "0 < k" "k < length (tree_entry_line e)"
    and "file_appendEntry (f\<lparr>tf_fs := (tf_fs f)\<lparr>fs_faults := [Fault err (Some k)]\<rparr>\<rparr>) e = (g, r)"
  shows "r = Inl (tree_file_error err) \<and> tf_store g = tf_store f \<and>
    tree_file_open (tf_fs g) (tf_path f) = (tf_fs g, Inl (TreeLoadFailed TreeInvalidEntry))"
proof -
  have f: "in_step f" by (rule reachable_in_step [OF assms(1)])
  let ?p = "take k (tree_entry_line e)"
  obtain t where t: "tree_entry_line e = CHR ''{'' # t" using object_text_start by (auto simp: tree_entry_line_def simp del: JSON_stringify.simps)
  then have p: "?p = CHR ''{'' # take (k - 1) t" using assms(2) by (cases k) auto
  have "tree_entry_line e = ?p @ drop k (tree_entry_line e)" "drop k (tree_entry_line e) \<noteq> []" using assms(3) by simp_all
  then have "JSON_parse ?p = None" unfolding tree_entry_line_def by (rule JSON_parse_torn)
  then have bad: "parse_entry_lines [?p] = Inl (TreeLoadFailed TreeInvalidEntry)" by (simp add: parseEntryLine_def or_fail_def)
  have "no_newline ?p" using tree_lines_shown(3) [of e] by (metis append_take_drop_id no_newline_simps(3))
  then have "loadJsonlStorage (tree_session_file (tf_header f) (ts_entries (tf_store f)) @ ?p) = Inl (TreeLoadFailed TreeInvalidEntry)"
    using load_session_file [of "tf_header f" "ts_entries (tf_store f)" ?p] f bad object_text_not_blank p by (simp add: in_step_def)
  then show ?thesis using append_torn [OF f _ assms(4)] assms(3) by (simp add: tree_file_open_def fs_readTextFile_def)
qed

section \<open>The contract of a storage\<close>

lemma file_reads:
  "file_getLeafId f = tree_getLeafId (tf_store f)" "file_getEntry f = tree_getEntry (tf_store f)"
  "file_createEntryId f uuid = tree_createEntryId (tf_store f) uuid" "file_getPath f = getPathToRootOrCompaction (tf_store f)"
  by (simp_all add: file_getLeafId_def tree_getLeafId_def file_getEntry_def tree_getEntry_def file_createEntryId_def tree_createEntryId_def
      file_getPath_def fun_eq_iff)

text \<open>A write changes the storage in memory as the storage without a file does, or fails and leaves it alone.\<close>

lemma append_line_cases:
  "append_line f e update = (g, r) \<Longrightarrow> r = Inr () \<and> tf_store g = update (tf_store f) \<or> (\<exists>err. r = Inl err) \<and> tf_store g = tf_store f"
  by (auto simp: append_line_def split: prod.splits sum.splits)

lemma file_appendEntry_cases:
  "file_appendEntry f e = (g, r) \<Longrightarrow>
     r = Inr () \<and> tree_appendEntry (tf_store f) e = (tf_store g, Inr ()) \<or> (\<exists>err. r = Inl err) \<and> tf_store g = tf_store f"
  by (auto simp: file_appendEntry_def tree_appendEntry_def dest: append_line_cases)

lemma file_setLeafId_cases:
  assumes "file_setLeafId f uuid now leaf = (g, r)"
  shows "r = Inr () \<and> tree_setLeafId (tf_store f) uuid now leaf = (tf_store g, Inr ()) \<or> (\<exists>err. r = Inl err) \<and> tf_store g = tf_store f"
  using assms by (auto simp: file_setLeafId_def tree_setLeafId_def file_reads Let_def dest!: append_line_cases split: if_splits)

interpretation jsonl_tree: tree_store file_tree_ops "\<lambda>f. tree_wf (tf_store f)"
proof (unfold_locales, goal_cases)
  case (1 f)
  then show ?case using mem.leaf_known by (simp add: file_tree_ops_def file_reads memory_tree_ops_def)
next
  case (2 f i e)
  then show ?case using mem.entry_id by (simp add: file_tree_ops_def file_reads memory_tree_ops_def)
next
  case (3 f uuid)
  then show ?case using mem.new_id by (simp add: file_tree_ops_def file_reads memory_tree_ops_def)
next
  case (4 f e g u)
  then have step: "tree_appendEntry (tf_store f) e = (tf_store g, Inr ())"
    using file_appendEntry_cases [of f e g "Inr u"] by (simp add: file_tree_ops_def)
  then show ?case
    using 4 mem.append_done [of "tf_store f" e "tf_store g"] by (simp add: file_tree_ops_def file_reads memory_tree_ops_def)
next
  case (5 f e g err)
  then show ?case using file_appendEntry_cases [of f e g "Inl err"] by (simp add: file_tree_ops_def file_reads)
next
  case (6 f uuid now leaf g u)
  then have step: "tree_setLeafId (tf_store f) uuid now leaf = (tf_store g, Inr ())"
    using file_setLeafId_cases [of f uuid now leaf g "Inr u"] by (simp add: file_tree_ops_def)
  then show ?case
    using 6 mem.set_leaf_done [of "tf_store f" uuid now leaf "tf_store g"] by (simp add: file_tree_ops_def file_reads memory_tree_ops_def)
next
  case (7 f uuid now leaf g err)
  then show ?case using file_setLeafId_cases [of f uuid now leaf g "Inl err"] by (simp add: file_tree_ops_def file_reads)
next
  case (8 f)
  then show ?case using mem.path_none by (simp add: file_tree_ops_def file_reads memory_tree_ops_def)
next
  case (9 f i e)
  then show ?case using mem.path_some by (simp add: file_tree_ops_def file_reads memory_tree_ops_def)
next
  case (10 f i)
  then show ?case using mem.path_missing by (simp add: file_tree_ops_def file_reads memory_tree_ops_def)
qed

section \<open>Instances\<close>

definition file_demo_header :: tree_header where
  "file_demo_header = \<lparr>th_id = ''session'', th_timestamp = 0, th_cwd = ''work'', th_parentSession = None, th_metadata = None\<rparr>"

definition file_demo_fs :: file_system where
  "file_demo_fs = \<lparr>fs_files = (\<lambda>_. None), fs_faults = [], fs_mtimeMs = (\<lambda>_. 0)\<rparr>"

text \<open>A new session file, and the same with one entry.\<close>

definition file_demo_empty :: tree_file where
  "file_demo_empty = new_tree_file (put_file file_demo_fs ''path'' (Some (tree_header_line file_demo_header @ [line_break]))) ''path'' file_demo_header []"

definition file_demo :: tree_file where
  "file_demo = fst (file_appendEntry file_demo_empty tree_demo_entry)"

lemma demo_times: "time_ok 0" "time_ok 5"
  by code_simp+

lemma file_demo_empty_reachable: "file_reachable file_demo_empty"
proof (rule file_reachable.created)
  show "fs_faults file_demo_fs = []" by (simp add: file_demo_fs_def)
  show "tree_header_ok file_demo_header" by (simp add: tree_header_ok_def file_demo_header_def demo_times)
  show "tree_file_create file_demo_fs ''path'' file_demo_header = (tf_fs file_demo_empty, Inr file_demo_empty)"
    by (simp add: tree_file_create_def fs_writeFile_def file_demo_empty_def file_demo_fs_def)
qed

lemma tree_demo_entry_ok: "entry_ok tree_demo_entry"
  by (simp add: entry_ok_def tree_demo_entry_def demo_times)

lemma file_demo_reachable: "file_reachable file_demo"
  by (rule file_reachable.appended [OF file_demo_empty_reachable tree_demo_entry_ok]) (simp add: file_demo_def prod_eq_iff)

theorem tree_file_reopens_witness: "tree_file_open (tf_fs file_demo) (tf_path file_demo) = (tf_fs file_demo, Inr file_demo)"
  by (rule tree_file_reopens [OF file_demo_reachable])

lemma tree_demo_line_long: "1 < length (tree_entry_line tree_demo_entry)"
  by (simp add: tree_entry_line_def)

theorem torn_write_loses_session_witness:
  "\<exists>g r. file_appendEntry (file_demo\<lparr>tf_fs := (tf_fs file_demo)\<lparr>fs_faults := [Fault FileFailure (Some 1)]\<rparr>\<rparr>) tree_demo_entry = (g, r) \<and>
     tree_file_open (tf_fs g) (tf_path file_demo) = (tf_fs g, Inl (TreeLoadFailed TreeInvalidEntry))"
proof -
  obtain g r where run: "file_appendEntry (file_demo\<lparr>tf_fs := (tf_fs file_demo)\<lparr>fs_faults := [Fault FileFailure (Some 1)]\<rparr>\<rparr>) tree_demo_entry = (g, r)"
    by force
  then show ?thesis using torn_write_loses_session [OF file_demo_reachable _ tree_demo_line_long run] by simp
qed

end
