(* ===== verification/Harness_Journal_Props.thy ===== *)
theory Harness_Journal_Props
  imports Harness_Journal Tree_Jsonl_Props
begin

text \<open>
  What the journal promises over any log and under all write errors: recovery closes what was left open, a running journal holds everything
  that its log shows as open, and an operation leaves nothing open; and the two states from which a harness does not recover.
  The lemmas are proved for a storage whose entries grow by appends (\<open>tree_log\<close>), which both storages are.
\<close>

section \<open>Fields of records\<close>

lemma json_member_object [simp]:
  "json_member (json_object []) k = None"
  "json_member (json_object ((a, v) # kvs)) k = (if a = k \<and> v \<noteq> None then v else json_member (json_object kvs) k)"
  by (auto simp: json_object_def List.map_filter_def)

lemma record_json_fields:
  "isJournalRecord (Some (record_json i r))" "record_operation (record_json i r) = i"
  by (cases r; simp add: isJournalRecord_def record_base_def tool_members_def record_operation_def)+

lemma record_is_object: "isJournalRecord (Some r) \<Longrightarrow> \<exists>m. r = JObj m"
  by (cases r) (auto simp: isJournalRecord_def)

section \<open>What a log leaves open\<close>

text \<open>A key is left open when a record starts it and no later record ends it.\<close>

definition left_open :: "('r \<Rightarrow> 'k option) \<Rightarrow> ('r \<Rightarrow> 'k option) \<Rightarrow> 'r list \<Rightarrow> 'k \<Rightarrow> bool" where
  "left_open starts ends rcs k \<longleftrightarrow>
     (\<exists>i < length rcs. starts (rcs ! i) = Some k \<and> (\<forall>j. i < j \<and> j < length rcs \<longrightarrow> ends (rcs ! j) \<noteq> Some k))"

lemma left_open_Nil [simp]: "\<not> left_open starts ends [] k"
  by (simp add: left_open_def)

lemma left_open_snoc:
  "left_open starts ends (rcs @ [r]) k \<longleftrightarrow> starts r = Some k \<or> left_open starts ends rcs k \<and> ends r \<noteq> Some k"
proof -
  have "left_open starts ends rcs k \<and> ends r \<noteq> Some k \<longleftrightarrow>
     (\<exists>i < length rcs. starts ((rcs @ [r]) ! i) = Some k \<and> (\<forall>j. i < j \<and> j < Suc (length rcs) \<longrightarrow> ends ((rcs @ [r]) ! j) \<noteq> Some k))"
    by (auto simp: left_open_def nth_append less_Suc_eq)
  moreover have "starts r = Some k \<longleftrightarrow>
     (\<exists>i. i = length rcs \<and> starts ((rcs @ [r]) ! i) = Some k \<and> (\<forall>j. i < j \<and> j < Suc (length rcs) \<longrightarrow> ends ((rcs @ [r]) ! j) \<noteq> Some k))"
    by auto
  ultimately show ?thesis unfolding left_open_def [of starts ends "rcs @ [r]"] by (auto simp: less_Suc_eq)
qed

text \<open>Records that start nothing close the keys they end.\<close>

lemma left_open_closing:
  "\<forall>r \<in> set rs. starts r = None \<Longrightarrow>
     left_open starts ends (rcs @ rs) k \<longleftrightarrow> left_open starts ends rcs k \<and> (\<forall>r \<in> set rs. ends r \<noteq> Some k)"
proof (induction rs rule: rev_induct)
  case (snoc r rs)
  then show ?case using left_open_snoc [of starts ends "rcs @ rs" r k] by auto
qed simp

definition operation_start :: "json \<Rightarrow> string option" where
  "operation_start r = (if record_event r = ''operation_started'' then Some (record_operation r) else None)"

definition operation_end :: "json \<Rightarrow> string option" where
  "operation_end r = (if record_event r \<in> {''operation_finished'', ''operation_interrupted''} then Some (record_operation r) else None)"

definition turn_start :: "json \<Rightarrow> json option option" where
  "turn_start r = (if record_event r = ''turn_started'' then Some (json_member r ''turnId'') else None)"

definition turn_end :: "json \<Rightarrow> json option option" where
  "turn_end r = (if record_event r \<in> {''turn_finished'', ''turn_interrupted''} then Some (json_member r ''turnId'') else None)"

definition tool_start :: "json \<Rightarrow> json option option" where
  "tool_start r = (if record_event r = ''tool_started'' then Some (json_member r ''toolCallId'') else None)"

definition tool_end :: "json \<Rightarrow> json option option" where
  "tool_end r = (if record_event r \<in> {''tool_finished'', ''tool_interrupted''} then Some (json_member r ''toolCallId'') else None)"

lemmas start_end = operation_start_def operation_end_def turn_start_def turn_end_def tool_start_def tool_end_def

definition left_operations :: "json list \<Rightarrow> string set" where
  "left_operations rcs = {k. left_open operation_start operation_end rcs k}"

definition left_turns :: "json list \<Rightarrow> json option set" where
  "left_turns rcs = {k. left_open turn_start turn_end rcs k}"

definition left_tools :: "json list \<Rightarrow> json option set" where
  "left_tools rcs = {k. left_open tool_start tool_end rcs k}"

lemmas open_sets = left_operations_def left_turns_def left_tools_def

definition nothing_open :: "json list \<Rightarrow> bool" where
  "nothing_open rcs \<longleftrightarrow> left_operations rcs = {} \<and> left_turns rcs = {} \<and> left_tools rcs = {}"

lemma open_snoc:
  "left_operations (rcs @ [r]) = (left_operations rcs - {k. operation_end r = Some k}) \<union> {k. operation_start r = Some k}"
  "left_turns (rcs @ [r]) = (left_turns rcs - {k. turn_end r = Some k}) \<union> {k. turn_start r = Some k}"
  "left_tools (rcs @ [r]) = (left_tools rcs - {k. tool_end r = Some k}) \<union> {k. tool_start r = Some k}"
  by (auto simp: open_sets left_open_snoc)

section \<open>The scan\<close>

lemma scan_log_snoc: "scan_log (rcs @ [r]) = scan_record (scan_log rcs) r"
  by (simp add: scan_log_def)

lemma scan_log_Nil [simp]: "scan_log [] = \<lparr>rs_operations = [], rs_turns = [], rs_tools = []\<rparr>"
  by (simp add: scan_log_def)

lemma scan_maps_ok: "js_map_ok (rs_operations (scan_log rcs))" "js_map_ok (rs_turns (scan_log rcs))" "js_map_ok (rs_tools (scan_log rcs))"
  by (induction rcs rule: rev_induct) (simp_all add: scan_log_snoc scan_record_def Let_def js_map_ok_Nil)

lemma js_has_delete: "js_map_ok m \<Longrightarrow> js_has (js_delete m k) k' \<longleftrightarrow> k' \<noteq> k \<and> js_has m k'"
  by (simp add: js_has_iff_get js_get_delete)

lemma keys_has: "fst ` set m = {k. js_has m k}"
  by (auto simp: js_has_def)

lemma scan_keys:
  "fst ` set (rs_operations (scan_log rcs)) = left_operations rcs"
  "fst ` set (rs_turns (scan_log rcs)) = left_turns rcs"
  "fst ` set (rs_tools (scan_log rcs)) = left_tools rcs"
proof (induction rcs rule: rev_induct)
  case Nil
  { case 1 show ?case by (simp add: open_sets) next case 2 show ?case by (simp add: open_sets) next case 3 show ?case by (simp add: open_sets) }
next
  case (snoc r rcs)
  note step = scan_log_snoc scan_record_def Let_def open_snoc start_end js_has_delete scan_maps_ok
  {
    case 1
    show ?case using snoc(1) by (auto simp: step keys_has)
  next
    case 2
    show ?case using snoc(2) by (auto simp: step keys_has)
  next
    case 3
    show ?case using snoc(3) by (auto simp: step keys_has)
  }
qed

lemma scan_counts:
  "length (rs_operations (scan_log rcs)) = card (left_operations rcs)"
  "length (rs_turns (scan_log rcs)) = card (left_turns rcs)"
  "length (rs_tools (scan_log rcs)) = card (left_tools rcs)"
  using scan_maps_ok [of rcs] scan_keys [of rcs] by (metis js_map_ok_def distinct_card length_map set_map)+

lemma set_js_set: "set (js_set m k v) \<subseteq> insert (k, v) (set m)"
  by (induction m k v rule: js_set.induct) auto

lemma scan_tools: "(k, t) \<in> set (rs_tools (scan_log rcs)) \<Longrightarrow> t \<in> set rcs \<and> json_member t ''toolCallId'' = k"
proof (induction rcs rule: rev_induct)
  case (snoc r rcs)
  have "(k, t) \<in> insert (json_member r ''toolCallId'', r) (set (rs_tools (scan_log rcs)))"
    using snoc.prems set_js_set [of "rs_tools (scan_log rcs)" "json_member r ''toolCallId''" r]
      set_js_delete [of "rs_tools (scan_log rcs)" "json_member r ''toolCallId''"]
    by (auto simp: scan_log_snoc scan_record_def Let_def split: if_splits)
  then show ?case using snoc.IH by auto
qed simp

section \<open>The records of a recovery\<close>

lemma tool_cut_off_fields:
  assumes "isJournalRecord (Some t)"
  shows "isJournalRecord (Some (tool_cut_off t))" "record_event (tool_cut_off t) = ''tool_interrupted''"
    and "json_member (tool_cut_off t) ''toolCallId'' = json_member t ''toolCallId''"
  using assms record_is_object [OF assms] by (auto simp: isJournalRecord_def record_event_def)

lemma turn_cut_off_fields:
  "isJournalRecord (Some (turn_cut_off (k, i)))" "record_event (turn_cut_off (k, i)) = ''turn_interrupted''"
  "json_member (turn_cut_off (k, i)) ''turnId'' = k"
  by (simp_all add: turn_cut_off_def record_base_def isJournalRecord_def record_event_def)

lemma operation_cut_off_fields:
  "isJournalRecord (Some (operation_cut_off (i, op)))" "record_event (operation_cut_off (i, op)) = ''operation_interrupted''"
  "record_operation (operation_cut_off (i, op)) = i"
  by (simp_all add: operation_cut_off_def record_base_def isJournalRecord_def record_event_def record_operation_def)

definition journal_log_ok :: "json list \<Rightarrow> bool" where
  "journal_log_ok rcs \<longleftrightarrow> (\<forall>r \<in> set rcs. isJournalRecord (Some r))"

lemma recovery_records_ok:
  assumes "journal_log_ok rcs" "r \<in> set (recovery_records (scan_log rcs))"
  shows "isJournalRecord (Some r)" "operation_start r = None" "turn_start r = None" "tool_start r = None"
  using assms scan_tools [of _ _ rcs]
  by (auto simp: recovery_records_def journal_log_ok_def start_end tool_cut_off_fields turn_cut_off_fields operation_cut_off_fields)

lemma recovered_nothing_open:
  assumes "journal_log_ok rcs"
  shows "nothing_open (rcs @ recovery_records (scan_log rcs))"
proof -
  let ?rs = "recovery_records (scan_log rcs)"
  have tool: "\<exists>r \<in> set ?rs. tool_end r = Some k" if k: "k \<in> left_tools rcs" for k
  proof -
    obtain t where t: "(k, t) \<in> set (rs_tools (scan_log rcs))" using k by (auto simp: scan_keys(3) [symmetric])
    have "tool_cut_off t \<in> set ?rs" using image_eqI [OF _ t, of _ "tool_cut_off \<circ> snd"] by (simp add: recovery_records_def)
    moreover have "tool_end (tool_cut_off t) = Some k"
      using scan_tools [OF t] assms by (simp add: tool_end_def journal_log_ok_def tool_cut_off_fields)
    ultimately show ?thesis by blast
  qed
  have turn: "\<exists>r \<in> set ?rs. turn_end r = Some k" if k: "k \<in> left_turns rcs" for k
  proof -
    obtain i where "(k, i) \<in> set (rs_turns (scan_log rcs))" using k by (auto simp: scan_keys(2) [symmetric])
    then have "turn_cut_off (k, i) \<in> set ?rs" by (simp add: recovery_records_def)
    moreover have "turn_end (turn_cut_off (k, i)) = Some k" by (simp add: turn_end_def turn_cut_off_fields)
    ultimately show ?thesis by blast
  qed
  have operation: "\<exists>r \<in> set ?rs. operation_end r = Some k" if k: "k \<in> left_operations rcs" for k
  proof -
    obtain op where "(k, op) \<in> set (rs_operations (scan_log rcs))" using k by (auto simp: scan_keys(1) [symmetric])
    then have "operation_cut_off (k, op) \<in> set ?rs" by (simp add: recovery_records_def)
    moreover have "operation_end (operation_cut_off (k, op)) = Some k" by (simp add: operation_end_def operation_cut_off_fields)
    ultimately show ?thesis by blast
  qed
  have none: "\<forall>r \<in> set ?rs. operation_start r = None" "\<forall>r \<in> set ?rs. turn_start r = None" "\<forall>r \<in> set ?rs. tool_start r = None"
    using recovery_records_ok [OF assms] by blast+
  show ?thesis
    using tool turn operation by (auto simp: nothing_open_def open_sets left_open_closing none)
qed

section \<open>Storages as logs\<close>

lemma record_json_start:
  "operation_start (record_json i r) = (case r of OperationStarted _ \<Rightarrow> Some i | _ \<Rightarrow> None)"
  "turn_start (record_json i r) = (case r of TurnStarted t \<Rightarrow> Some (Some (JStr t)) | _ \<Rightarrow> None)"
  "tool_start (record_json i r) = (case r of ToolStarted t \<Rightarrow> Some (Some (JStr (at_toolCallId t))) | _ \<Rightarrow> None)"
  by (cases r; simp add: start_end record_event_def record_operation_def record_base_def tool_members_def)+

lemma record_json_end:
  "operation_end (record_json i r) = (case r of OperationFinished _ _ _ \<Rightarrow> Some i | OperationInterrupted _ _ _ \<Rightarrow> Some i | _ \<Rightarrow> None)"
  "turn_end (record_json i r) = (case r of TurnFinished t _ \<Rightarrow> Some (Some (JStr t)) | TurnInterrupted t _ \<Rightarrow> Some (Some (JStr t)) | _ \<Rightarrow> None)"
  "tool_end (record_json i r) = (case r of ToolFinished t _ \<Rightarrow> Some (Some (JStr (at_toolCallId t)))
     | ToolInterrupted t _ \<Rightarrow> Some (Some (JStr (at_toolCallId t))) | _ \<Rightarrow> None)"
  by (cases r; simp add: start_end record_event_def record_operation_def record_base_def tool_members_def)+

lemmas record_json_keys = record_json_start record_json_end

definition journal_log :: "'s tree_ops \<Rightarrow> 's journal \<Rightarrow> json list" where
  "journal_log ops j = map je_record (journal_entries ops (jn_session j))"

lemma journal_log_is_ok: "journal_log_ok (journal_log ops j)"
  by (auto simp: journal_log_ok_def journal_log_def journal_entries_def List.map_filter_def toJournalEntry_def isJournalRecord_def
      split: tree_body.splits option.splits if_splits)

definition same_work :: "'s journal \<Rightarrow> 's journal \<Rightarrow> bool" where
  "same_work j j' \<longleftrightarrow> jn_recovery j' = jn_recovery j \<and> jn_operation j' = jn_operation j \<and> jn_turn j' = jn_turn j \<and> jn_tools j' = jn_tools j"

lemma same_work_refl [simp]: "same_work j j"
  by (simp add: same_work_def)

lemma same_work_trans: "same_work a b \<Longrightarrow> same_work b c \<Longrightarrow> same_work a c"
  by (simp add: same_work_def)

locale tree_log =
  fixes ops :: "'s tree_ops"
    and ready :: "'s \<Rightarrow> bool"
  assumes entries_appended: "to_appendEntry ops s e = (s', Inr u) \<Longrightarrow> to_getEntries ops s' = to_getEntries ops s @ [e]"
    and entries_kept: "to_appendEntry ops s e = (s', Inl err) \<Longrightarrow> to_getEntries ops s' = to_getEntries ops s"
    and ready_leaf: "ready s \<Longrightarrow> \<exists>leaf. to_getLeafId ops s = Inr leaf"
    and ready_append: "ready s \<Longrightarrow> \<not> is_leaf_body (te_body e) \<Longrightarrow> \<exists>s'. to_appendEntry ops s e = (s', Inr ()) \<and> ready s'"
begin

lemma append_log:
  assumes "isJournalRecord (Some r)" "journal_append ops vals j r = (j', out)"
  shows "journal_log ops j' = journal_log ops j @ (if out = Inr () then [r] else []) \<and> same_work j j'"
proof -
  have entry: "map je_record (List.map_filter toJournalEntry (es @ [\<lparr>te_id = i, te_parentId = p, te_timestamp = t, te_body = TreeCustom journal_type (Some r)\<rparr>]))
      = map je_record (List.map_filter toJournalEntry es) @ [r]" for es i p t
    using assms(1) by (simp add: List.map_filter_def toJournalEntry_def)
  show ?thesis
    using assms(2) entries_appended entries_kept
    by (auto simp: journal_append_def session_appendCustomEntry_def append_below_leaf_def Let_def st_then_def journal_log_def journal_entries_def
        entry same_work_def split: prod.splits sum.splits)
qed

lemma append_records_log:
  assumes "\<forall>r \<in> set rs. isJournalRecord (Some r)" "append_records ops vals j rs = (j', out)"
  shows "\<exists>k \<le> length rs. journal_log ops j' = journal_log ops j @ take k rs \<and> (out = Inr () \<longrightarrow> k = length rs) \<and> same_work j j'"
  using assms
proof (induction rs arbitrary: j)
  case (Cons r rs)
  obtain j1 out1 where step: "journal_append ops vals j r = (j1, out1)" by force
  have log: "journal_log ops j1 = journal_log ops j @ (if out1 = Inr () then [r] else [])" "same_work j j1"
    using append_log [OF _ step] Cons.prems(1) by auto
  show ?case
  proof (cases out1)
    case (Inl e)
    then show ?thesis using Cons.prems(2) step log by (intro exI [of _ 0]) auto
  next
    case (Inr u)
    then have "append_records ops vals j1 rs = (j', out)" using Cons.prems(2) step by simp
    then obtain k where k: "k \<le> length rs" "journal_log ops j' = journal_log ops j1 @ take k rs" "out = Inr () \<longrightarrow> k = length rs" "same_work j1 j'"
      using Cons.IH [of j1] Cons.prems(1) by auto
    then show ?thesis using log Inr same_work_trans by (intro exI [of _ "Suc k"]) auto
  qed
qed simp

lemma append_ready:
  assumes "ready (jn_session j)"
  shows "\<exists>j'. journal_append ops vals j r = (j', Inr ()) \<and> ready (jn_session j')"
proof -
  obtain leaf where leaf: "to_getLeafId ops (jn_session j) = Inr leaf" using ready_leaf [OF assms] by blast
  let ?e = "\<lparr>te_id = to_createEntryId ops (jn_session j) (su_uuid vals (jn_calls j)), te_parentId = leaf,
    te_timestamp = su_now vals (jn_calls j), te_body = TreeCustom journal_type (Some r)\<rparr>"
  obtain s' where "to_appendEntry ops (jn_session j) ?e = (s', Inr ())" "ready s'" using ready_append [OF assms, of ?e] by auto
  then show ?thesis by (simp add: journal_append_def session_appendCustomEntry_def append_below_leaf_def Let_def leaf)
qed

lemma append_records_ready: "ready (jn_session j) \<Longrightarrow> \<exists>j'. append_records ops vals j rs = (j', Inr ())"
proof (induction rs arbitrary: j)
  case (Cons r rs)
  then show ?case using append_ready [OF Cons.prems, of vals r] by auto
qed simp

text \<open>A recovery appends its records, all of them when it succeeds; afterwards nothing is open.\<close>

lemma recovery_effect:
  assumes "recoverUnfinishedWork ops vals j = (j', r)"
  shows "(\<exists>k. journal_log ops j' = journal_log ops j @ take k (recovery_records (scan_log (journal_log ops j)))) \<and>
    (ready (jn_session j) \<longrightarrow> (\<exists>res. r = Inr res)) \<and>
    (\<forall>res. r = Inr res \<longrightarrow> nothing_open (journal_log ops j') \<and> rr_operations res = card (left_operations (journal_log ops j)) \<and>
       rr_turns res = card (left_turns (journal_log ops j)) \<and> rr_tools res = card (left_tools (journal_log ops j)))"
proof -
  let ?rs = "recovery_records (scan_log (journal_log ops j))"
  obtain j1 out where run: "append_records ops vals j ?rs = (j1, out)" by force
  obtain k where k: "journal_log ops j1 = journal_log ops j @ take k ?rs" "out = Inr () \<longrightarrow> k = length ?rs"
    using append_records_log [OF _ run] recovery_records_ok(1) [OF journal_log_is_ok] by blast
  have ready: "ready (jn_session j) \<Longrightarrow> out = Inr ()" using append_records_ready [of j vals ?rs] run by auto
  have "j' = j1" using assms run by (cases out) (auto simp: recoverUnfinishedWork_def journal_log_def [symmetric] Let_def)
  then have log: "\<exists>k. journal_log ops j' = journal_log ops j @ take k ?rs" using k(1) by blast
  have "out = Inr () \<Longrightarrow> nothing_open (journal_log ops j1)" using recovered_nothing_open [OF journal_log_is_ok, of ops j] k by simp
  then show ?thesis
    using assms run log ready scan_counts [of "journal_log ops j"]
    by (cases out) (auto simp: recoverUnfinishedWork_def journal_log_def [symmetric] Let_def)
qed

end

section \<open>A running journal\<close>

text \<open>
  What the harness does between the start and the end of an operation: events of the loop, and session changes that are no journal
  records. No turn starts while another is open in memory. The loop keeps to this within a run; what can break it is a turn of
  \<^verbatim>\<open>skill\<close> or \<^verbatim>\<open>promptFromTemplate\<close>, which are not journaled, after the end of a turn and then the
  interruption of its operation could not be written (\<open>second_turn_forgets_first\<close>).
\<close>

inductive journal_work :: "'s tree_ops \<Rightarrow> journal_supply \<Rightarrow> 's journal \<Rightarrow> 's journal \<Rightarrow> bool" for ops vals where
  no_work: "journal_work ops vals j j"
| work_event: "journal_work ops vals j j1 \<Longrightarrow> event = TurnStart \<longrightarrow> jn_turn j1 = None \<Longrightarrow> recordAgentEvent ops vals event j1 = (j2, r) \<Longrightarrow>
    journal_work ops vals j j2"
| work_session: "journal_work ops vals j j1 \<Longrightarrow> journal_log ops (j1\<lparr>jn_session := s\<rparr>) = journal_log ops j1 \<Longrightarrow>
    journal_work ops vals j (j1\<lparr>jn_session := s, jn_calls := n\<rparr>)"

text \<open>All states of the journal of one harness, from its recovery on.\<close>

inductive journal_reachable :: "'s tree_ops \<Rightarrow> journal_supply \<Rightarrow> 's journal \<Rightarrow> bool" for ops vals where
  recovered: "recover ops vals (new_journal s) = (j, Inr res) \<Longrightarrow> journal_reachable ops vals j"
| began: "journal_reachable ops vals j \<Longrightarrow> beginOperation ops vals op j = (j', r) \<Longrightarrow> journal_reachable ops vals j'"
| worked: "journal_reachable ops vals j \<Longrightarrow> journal_work ops vals j j' \<Longrightarrow> journal_reachable ops vals j'"
| finished: "journal_reachable ops vals j \<Longrightarrow> finishOperation ops vals out err j = (j', r) \<Longrightarrow> journal_reachable ops vals j'"
| interrupted: "journal_reachable ops vals j \<Longrightarrow> interruptOperation ops vals e j = (j', r) \<Longrightarrow> journal_reachable ops vals j'"

definition active_operations :: "'s journal \<Rightarrow> string set" where
  "active_operations j = (case jn_operation j of None \<Rightarrow> {} | Some (i, _) \<Rightarrow> {i})"

definition active_turns :: "'s journal \<Rightarrow> json option set" where
  "active_turns j = (case jn_turn j of None \<Rightarrow> {} | Some t \<Rightarrow> {Some (JStr t)})"

definition active_tools :: "'s journal \<Rightarrow> json option set" where
  "active_tools j = {Some (JStr c) |c. js_has (jn_tools j) c}"

definition supply_ok :: "journal_supply \<Rightarrow> bool" where
  "supply_ok vals \<longleftrightarrow> (\<forall>n i. su_uuid vals n i \<noteq> '''')"

definition journal_shape :: "'s journal \<Rightarrow> bool" where
  "journal_shape j \<longleftrightarrow> (\<exists>res. jn_recovery j = Some (Inr res)) \<and> (jn_operation j = None \<longrightarrow> jn_turn j = None \<and> jn_tools j = []) \<and>
     jn_turn j \<noteq> Some '''' \<and> js_map_ok (jn_tools j) \<and> (\<forall>(c, t) \<in> set (jn_tools j). at_toolCallId t = c)"

definition log_covered :: "json list \<Rightarrow> 's journal \<Rightarrow> bool" where
  "log_covered rcs j \<longleftrightarrow> left_operations rcs \<subseteq> active_operations j \<and> left_turns rcs \<subseteq> active_turns j \<and> left_tools rcs \<subseteq> active_tools j"

declare record_json.simps [simp del]

definition starts_within :: "json \<Rightarrow> 's journal \<Rightarrow> bool" where
  "starts_within r j \<longleftrightarrow> (\<forall>k. operation_start r = Some k \<longrightarrow> k \<in> active_operations j) \<and>
     (\<forall>k. turn_start r = Some k \<longrightarrow> k \<in> active_turns j) \<and> (\<forall>k. tool_start r = Some k \<longrightarrow> k \<in> active_tools j)"

definition starts_nothing :: "json \<Rightarrow> bool" where
  "starts_nothing r \<longleftrightarrow> operation_start r = None \<and> turn_start r = None \<and> tool_start r = None"

lemma same_work_active:
  "same_work j j' \<Longrightarrow> active_operations j' = active_operations j" "same_work j j' \<Longrightarrow> active_turns j' = active_turns j"
  "same_work j j' \<Longrightarrow> active_tools j' = active_tools j" "same_work j j' \<Longrightarrow> journal_shape j' = journal_shape j"
  "same_work j j' \<Longrightarrow> log_covered rcs j' = log_covered rcs j"
  by (simp_all add: same_work_def active_operations_def active_turns_def active_tools_def journal_shape_def log_covered_def)

lemma covered_snoc: "log_covered rcs j \<Longrightarrow> starts_within r j \<Longrightarrow> log_covered (rcs @ [r]) j"
  by (auto simp: log_covered_def open_snoc starts_within_def)

lemma closed_subset:
  assumes "\<forall>r \<in> set rs. starts_nothing r"
  shows "left_operations (rcs @ rs) = left_operations rcs - {k. \<exists>r \<in> set rs. operation_end r = Some k}"
    and "left_turns (rcs @ rs) = left_turns rcs - {k. \<exists>r \<in> set rs. turn_end r = Some k}"
    and "left_tools (rcs @ rs) = left_tools rcs - {k. \<exists>r \<in> set rs. tool_end r = Some k}"
  using assms by (auto simp: open_sets starts_nothing_def left_open_closing)

lemma covered_closing: "log_covered rcs j \<Longrightarrow> \<forall>r \<in> set rs. starts_nothing r \<Longrightarrow> log_covered (rcs @ rs) j"
  by (auto simp: log_covered_def closed_subset)

lemma nothing_open_covered: "nothing_open rcs \<Longrightarrow> log_covered rcs j"
  by (simp add: nothing_open_def log_covered_def)

lemma journal_log_update [simp]:
  "journal_log ops (j\<lparr>jn_turn := x\<rparr>) = journal_log ops j" "journal_log ops (j\<lparr>jn_tools := y\<rparr>) = journal_log ops j"
  "journal_log ops (j\<lparr>jn_operation := z\<rparr>) = journal_log ops j" "journal_log ops (j\<lparr>jn_calls := n\<rparr>) = journal_log ops j"
  "journal_log ops (j\<lparr>jn_recovery := r\<rparr>) = journal_log ops j"
  by (simp_all add: journal_log_def)

context tree_log
begin

definition journal_ok :: "'s journal \<Rightarrow> bool" where
  "journal_ok j \<longleftrightarrow> journal_shape j \<and> log_covered (journal_log ops j) j"

lemma append_ok:
  assumes "journal_ok j" "isJournalRecord (Some r)" "starts_within r j" "journal_append ops vals j r = (j', out)"
  shows "journal_ok j' \<and> same_work j j' \<and> (out = Inr () \<longrightarrow> journal_log ops j' = journal_log ops j @ [r])"
proof -
  have step: "journal_log ops j' = journal_log ops j @ (if out = Inr () then [r] else [])" "same_work j j'"
    using append_log [OF assms(2,4)] by simp_all
  then show ?thesis using assms(1,3) covered_snoc by (auto simp: journal_ok_def same_work_active)
qed

lemma idle_nothing_open: "journal_ok j \<Longrightarrow> jn_operation j = None \<Longrightarrow> nothing_open (journal_log ops j)"
  by (auto simp: journal_ok_def journal_shape_def log_covered_def nothing_open_def active_operations_def active_turns_def active_tools_def)

lemma begin_ok:
  assumes "journal_ok j" "beginOperation ops vals op j = (j', r)"
  shows "journal_ok j' \<and> (r = Inr () \<longrightarrow> (\<exists>i. jn_operation j' = Some (i, op)))"
proof -
  obtain res where res: "recover ops vals j = (j, Inr res)" using assms(1) by (auto simp: recover_def journal_ok_def journal_shape_def)
  show ?thesis
  proof (cases "jn_operation j = None")
    case True
    let ?i = "su_uuid vals (jn_calls j) 0"
    let ?j = "j\<lparr>jn_calls := Suc (jn_calls j), jn_operation := Some (?i, op)\<rparr>"
    have run: "journal_append ops vals ?j (record_json ?i (OperationStarted op)) = (j', r)"
      using assms(2) res True by (simp add: beginOperation_def take_uuid_def)
    have log: "journal_log ops ?j = journal_log ops j" by (simp add: journal_log_def)
    have "journal_ok ?j"
      using assms(1) idle_nothing_open [OF assms(1) True] True
      unfolding journal_ok_def log by (auto simp: journal_shape_def nothing_open_covered)
    moreover have "starts_within (record_json ?i (OperationStarted op)) ?j"
      by (simp add: starts_within_def record_json_keys active_operations_def)
    ultimately show ?thesis using append_ok [OF _ _ _ run] record_json_fields(1) by (auto simp: same_work_def)
  next
    case False
    then show ?thesis using assms res by (auto simp: beginOperation_def)
  qed
qed

lemma finish_children_ok:
  assumes "journal_ok j" "jn_operation j = Some (i, op)" "finishOpenChildren ops vals why j = (j', r)"
  shows "journal_ok j' \<and> jn_operation j' = Some (i, op) \<and> (r = Inr () \<longrightarrow> jn_turn j' = None \<and> jn_tools j' = [])"
proof -
  let ?rs = "map (\<lambda>(_, t). record_json i (ToolInterrupted t why)) (jn_tools j)"
  obtain j1 out where run: "append_records ops vals j ?rs = (j1, out)" by force
  have closing: "\<forall>r \<in> set ?rs. starts_nothing r" "\<forall>r \<in> set ?rs. isJournalRecord (Some r)"
    by (auto simp: starts_nothing_def record_json_keys record_json_fields)
  obtain k where k: "journal_log ops j1 = journal_log ops j @ take k ?rs" "out = Inr () \<longrightarrow> k = length ?rs" "same_work j j1"
    using append_records_log [OF closing(2) run] by blast
  have cov: "log_covered (journal_log ops j1) j"
    using covered_closing [of "journal_log ops j" j "take k ?rs"] closing(1) assms(1) set_take_subset by (fastforce simp: k(1) journal_ok_def)
  have j1: "journal_ok j1" using assms(1) k(3) cov by (simp add: journal_ok_def same_work_active)
  show ?thesis
  proof (cases out)
    case (Inl e)
    then show ?thesis using assms(2,3) run j1 k(3) by (auto simp: finishOpenChildren_def requireActiveOperation_def same_work_def)
  next
    case (Inr u)
    have all: "take k ?rs = ?rs" using k(2) Inr by simp
    have "left_tools (journal_log ops j) \<subseteq> {k. \<exists>r \<in> set ?rs. tool_end r = Some k}"
    proof
      fix x assume "x \<in> left_tools (journal_log ops j)"
      then have "x \<in> active_tools j" using assms(1) by (auto simp: journal_ok_def log_covered_def)
      then obtain c t where "x = Some (JStr c)" and t: "(c, t) \<in> set (jn_tools j)" by (auto simp: active_tools_def js_has_def)
      moreover have "at_toolCallId t = c" using assms(1) t by (auto simp: journal_ok_def journal_shape_def)
      ultimately show "x \<in> {k. \<exists>r \<in> set ?rs. tool_end r = Some k}" using t by (force simp: record_json_keys)
    qed
    then have tools: "left_tools (journal_log ops j1) = {}" using closed_subset(3) [OF closing(1)] by (auto simp: k(1) all)
    let ?j2 = "j1\<lparr>jn_tools := []\<rparr>"
    have j2: "journal_ok ?j2" "jn_operation ?j2 = Some (i, op)" "jn_turn ?j2 = jn_turn j" "journal_log ops ?j2 = journal_log ops j1"
      using j1 tools k(3) assms(2)
      by (auto simp: journal_ok_def journal_shape_def log_covered_def journal_log_def active_operations_def active_turns_def js_map_ok_Nil same_work_def)
    show ?thesis
    proof (cases "jn_turn j")
      case None
      then have "j' = ?j2" "r = Inr ()"
        using assms(2,3) run Inr j2(3) by (auto simp: finishOpenChildren_def requireActiveOperation_def truthy_def)
      then show ?thesis using j2 None by simp
    next
      case (Some t)
      then have t: "truthy (jn_turn ?j2)" using assms(1) j2(3) by (simp add: truthy_def journal_ok_def journal_shape_def)
      let ?r = "record_json i (TurnInterrupted t why)"
      obtain j3 out3 where run3: "journal_append ops vals ?j2 ?r = (j3, out3)" by force
      have j3: "journal_ok j3" "same_work ?j2 j3" "out3 = Inr () \<longrightarrow> journal_log ops j3 = journal_log ops ?j2 @ [?r]"
        using append_ok [OF j2(1) _ _ run3] by (auto simp: record_json_fields starts_within_def record_json_keys)
      have "journal_ok (j3\<lparr>jn_turn := None\<rparr>)" if ok: "out3 = Inr ()"
      proof -
        have "left_turns (journal_log ops ?j2) \<subseteq> {Some (JStr t)}" using j2(1,3) Some by (simp add: journal_ok_def log_covered_def active_turns_def)
        then have none: "left_turns (journal_log ops j3) = {}" using j3(3) ok by (auto simp: open_snoc record_json_keys)
        have "log_covered (journal_log ops j3) (j3\<lparr>jn_turn := None\<rparr>)"
          using j3(1) none by (simp add: journal_ok_def log_covered_def active_operations_def active_tools_def)
        then show ?thesis using j3(1) by (simp add: journal_ok_def journal_shape_def)
      qed
      then show ?thesis
        using assms(2,3) run Inr t run3 j3 j2 Some
        by (cases out3) (auto simp: finishOpenChildren_def requireActiveOperation_def same_work_def)
    qed
  qed
qed

end

context tree_log
begin

lemma end_operation_ok:
  assumes "journal_ok j" "jn_operation j = Some (i, op)" "jn_turn j = None" "jn_tools j = []"
    and "isJournalRecord (Some r)" "operation_end r = Some i" "starts_nothing r" "journal_append ops vals j r = (j', out)"
  shows "journal_ok j' \<and> same_work j j' \<and>
    (out = Inr () \<longrightarrow> journal_ok (j'\<lparr>jn_operation := None\<rparr>) \<and> journal_log ops j' = journal_log ops j @ [r])"
proof -
  have j': "journal_ok j'" "same_work j j'" "out = Inr () \<longrightarrow> journal_log ops j' = journal_log ops j @ [r]"
    using append_ok [OF assms(1,5) _ assms(8)] assms(7) by (auto simp: starts_within_def starts_nothing_def)
  have "left_operations (journal_log ops j) \<subseteq> {i}" using assms(1,2) by (simp add: journal_ok_def log_covered_def active_operations_def)
  then have "out = Inr () \<Longrightarrow> left_operations (journal_log ops j') = {}"
    using j'(3) assms(6,7) by (auto simp: open_snoc starts_nothing_def)
  then have "out = Inr () \<Longrightarrow> log_covered (journal_log ops j') (j'\<lparr>jn_operation := None\<rparr>)"
    using j'(1) by (simp add: journal_ok_def log_covered_def active_turns_def active_tools_def)
  then show ?thesis using j' assms(3,4) by (auto simp: journal_ok_def journal_shape_def same_work_def)
qed

lemma finish_ok:
  assumes "journal_ok j" "finishOperation ops vals out err j = (j', r)"
  shows "journal_ok j' \<and> (r = Inr () \<longrightarrow> jn_operation j' = None \<and>
      (\<exists>rcs i op. jn_operation j = Some (i, op) \<and> journal_log ops j' = rcs @ [record_json i (OperationFinished op out err)])) \<and>
    (r \<noteq> Inr () \<longrightarrow> jn_operation j' = jn_operation j)"
proof (cases "jn_operation j")
  case None
  then show ?thesis using assms by (auto simp: finishOperation_def requireActiveOperation_def)
next
  case (Some a)
  obtain i op where a: "a = (i, op)" by (cases a)
  obtain j1 r1 where c: "finishOpenChildren ops vals OperationFailed j = (j1, r1)" by force
  note children = finish_children_ok [OF assms(1) Some [unfolded a] c]
  let ?r = "record_json i (OperationFinished op out err)"
  obtain j2 r2 where ap: "journal_append ops vals j1 ?r = (j2, r2)" by force
  have "operation_end ?r = Some i" "starts_nothing ?r" by (simp_all add: record_json_keys starts_nothing_def)
  then show ?thesis
    using assms(2) Some a c children ap end_operation_ok [of j1 i op ?r vals j2 r2] record_json_fields(1)
    by (cases r1; cases r2) (auto simp: finishOperation_def requireActiveOperation_def same_work_def)
qed

lemma interrupt_ok:
  assumes "journal_ok j" "interruptOperation ops vals e j = (j', r)"
  shows "journal_ok j' \<and> (r = Inr () \<longrightarrow> jn_operation j' = None \<and>
      (\<exists>rcs i op. jn_operation j = Some (i, op) \<and> journal_log ops j' = rcs @ [record_json i (OperationInterrupted op OperationFailed (Some e))])) \<and>
    (r \<noteq> Inr () \<longrightarrow> jn_operation j' = jn_operation j)"
proof (cases "jn_operation j")
  case None
  then show ?thesis using assms by (auto simp: interruptOperation_def requireActiveOperation_def)
next
  case (Some a)
  obtain i op where a: "a = (i, op)" by (cases a)
  obtain j1 r1 where c: "finishOpenChildren ops vals OperationFailed j = (j1, r1)" by force
  note children = finish_children_ok [OF assms(1) Some [unfolded a] c]
  let ?r = "record_json i (OperationInterrupted op OperationFailed (Some e))"
  obtain j2 r2 where ap: "journal_append ops vals j1 ?r = (j2, r2)" by force
  have "operation_end ?r = Some i" "starts_nothing ?r" by (simp_all add: record_json_keys starts_nothing_def)
  then show ?thesis
    using assms(2) Some a c children ap end_operation_ok [of j1 i op ?r vals j2 r2] record_json_fields(1)
    by (cases r1; cases r2) (auto simp: interruptOperation_def requireActiveOperation_def same_work_def)
qed

text \<open>The events that the journal records.\<close>

lemma turn_start_ok:
  assumes "journal_ok j" "supply_ok vals" "jn_operation j = Some (i, op)" "jn_turn j = None"
    and "recordAgentEvent ops vals TurnStart j = (j', r)"
  shows "journal_ok j' \<and> jn_operation j' = jn_operation j"
proof -
  let ?t = "su_uuid vals (jn_calls j) 0"
  let ?j = "j\<lparr>jn_calls := Suc (jn_calls j), jn_turn := Some ?t\<rparr>"
  have run: "journal_append ops vals ?j (record_json i (TurnStarted ?t)) = (j', r)"
    using assms(3,5) by (simp add: recordAgentEvent_def take_uuid_def)
  have "left_turns (journal_log ops j) = {}" using assms(1,4) by (simp add: journal_ok_def log_covered_def active_turns_def)
  then have "log_covered (journal_log ops j) ?j"
    using assms(1) by (simp add: journal_ok_def log_covered_def active_operations_def active_tools_def)
  then have "journal_ok ?j" using assms(1-3) by (auto simp: journal_ok_def journal_shape_def supply_ok_def)
  moreover have "starts_within (record_json i (TurnStarted ?t)) ?j" by (simp add: starts_within_def record_json_keys active_turns_def)
  ultimately show ?thesis using append_ok [OF _ _ _ run] record_json_fields(1) by (auto simp: same_work_def)
qed

lemma turn_end_ok:
  assumes "journal_ok j" "jn_operation j = Some (i, op)" "recordAgentEvent ops vals (TurnEnd m results) j = (j', r)"
  shows "journal_ok j' \<and> jn_operation j' = jn_operation j"
proof (cases "jn_turn j")
  case None
  then show ?thesis using assms by (simp add: recordAgentEvent_def truthy_def)
next
  case (Some t)
  let ?r = "record_json i (TurnFinished t (outcomeFromMessage m))"
  obtain j1 out where run: "journal_append ops vals j ?r = (j1, out)" by force
  have j1: "journal_ok j1" "same_work j j1" "out = Inr () \<longrightarrow> journal_log ops j1 = journal_log ops j @ [?r]"
    using append_ok [OF assms(1) _ _ run] by (auto simp: record_json_fields starts_within_def record_json_keys)
  have "left_turns (journal_log ops j) \<subseteq> {Some (JStr t)}" using assms(1) Some by (simp add: journal_ok_def log_covered_def active_turns_def)
  then have "out = Inr () \<Longrightarrow> left_turns (journal_log ops j1) = {}" using j1(3) by (auto simp: open_snoc record_json_keys)
  then have "out = Inr () \<Longrightarrow> log_covered (journal_log ops j1) (j1\<lparr>jn_turn := None\<rparr>)"
    using j1(1) by (simp add: journal_ok_def log_covered_def active_operations_def active_tools_def)
  then have "out = Inr () \<Longrightarrow> journal_ok (j1\<lparr>jn_turn := None\<rparr>)" using j1(1) by (simp add: journal_ok_def journal_shape_def)
  moreover have "truthy (jn_turn j)" using assms(1) Some by (simp add: truthy_def journal_ok_def journal_shape_def)
  ultimately show ?thesis using assms(2,3) Some run j1 by (cases out) (auto simp: recordAgentEvent_def same_work_def)
qed

lemma tool_start_ok:
  assumes "journal_ok j" "jn_operation j = Some (i, op)" "recordAgentEvent ops vals (ToolExecutionStart c n args) j = (j', r)"
  shows "journal_ok j' \<and> jn_operation j' = jn_operation j"
proof (cases "truthy (jn_turn j)")
  case False
  then show ?thesis using assms by (simp add: recordAgentEvent_def)
next
  case True
  let ?t = "\<lparr>at_turnId = the (jn_turn j), at_toolCallId = c, at_toolName = n\<rparr>"
  let ?j = "j\<lparr>jn_tools := js_set (jn_tools j) c ?t\<rparr>"
  have run: "journal_append ops vals ?j (record_json i (ToolStarted ?t)) = (j', r)"
    using assms(2,3) True by (simp add: recordAgentEvent_def Let_def)
  have "log_covered (journal_log ops j) ?j"
    using assms(1) by (auto simp: journal_ok_def log_covered_def active_operations_def active_turns_def active_tools_def)
  then have "journal_ok ?j"
    using assms(1,2) set_js_set [of "jn_tools j" c ?t] by (auto simp: journal_ok_def journal_shape_def)
  moreover have "starts_within (record_json i (ToolStarted ?t)) ?j" by (simp add: starts_within_def record_json_keys active_tools_def)
  ultimately show ?thesis using append_ok [OF _ _ _ run] record_json_fields(1) by (auto simp: same_work_def)
qed

lemma tool_end_ok:
  assumes "journal_ok j" "jn_operation j = Some (i, op)" "recordAgentEvent ops vals (ToolExecutionEnd c n result isError) j = (j', r)"
  shows "journal_ok j' \<and> jn_operation j' = jn_operation j"
proof (cases "js_get (jn_tools j) c")
  case None
  then show ?thesis using assms by (simp add: recordAgentEvent_def)
next
  case (Some t)
  have t: "at_toolCallId t = c" using assms(1) js_get_in_set [OF Some] by (auto simp: journal_ok_def journal_shape_def)
  let ?r = "record_json i (ToolFinished t isError)"
  obtain j1 out where run: "journal_append ops vals j ?r = (j1, out)" by force
  have j1: "journal_ok j1" "same_work j j1" "out = Inr () \<longrightarrow> journal_log ops j1 = journal_log ops j @ [?r]"
    using append_ok [OF assms(1) _ _ run] by (auto simp: record_json_fields starts_within_def record_json_keys)
  have ok: "js_map_ok (jn_tools j1)" using j1(1) by (simp add: journal_ok_def journal_shape_def)
  have "left_tools (journal_log ops j) \<subseteq> active_tools j1"
    using assms(1) same_work_active(3) [OF j1(2)] by (simp add: journal_ok_def log_covered_def)
  then have "out = Inr () \<Longrightarrow> left_tools (journal_log ops j1) \<subseteq> active_tools (j1\<lparr>jn_tools := js_delete (jn_tools j1) c\<rparr>)"
    using j1(3) by (auto simp: open_snoc record_json_keys t active_tools_def js_has_delete [OF ok])
  then have "out = Inr () \<Longrightarrow> log_covered (journal_log ops j1) (j1\<lparr>jn_tools := js_delete (jn_tools j1) c\<rparr>)"
    using j1(1) by (simp add: journal_ok_def log_covered_def active_operations_def active_turns_def)
  then have "out = Inr () \<Longrightarrow> journal_ok (j1\<lparr>jn_tools := js_delete (jn_tools j1) c\<rparr>)"
    using j1(1,2) assms(2) set_js_delete [of "jn_tools j1" c] by (auto simp: journal_ok_def journal_shape_def same_work_def)
  then show ?thesis using assms(2,3) Some run j1 by (cases out) (auto simp: recordAgentEvent_def same_work_def)
qed

lemma event_ok:
  assumes "journal_ok j" "supply_ok vals" "event = TurnStart \<longrightarrow> jn_turn j = None" "recordAgentEvent ops vals event j = (j', r)"
  shows "journal_ok j' \<and> jn_operation j' = jn_operation j"
proof (cases "jn_operation j")
  case None
  then show ?thesis using assms by (simp add: recordAgentEvent_def)
next
  case (Some a)
  obtain i op where a: "a = (i, op)" by (cases a)
  note active = Some [unfolded a]
  consider "event = TurnStart" | m rs where "event = TurnEnd m rs" | c n x where "event = ToolExecutionStart c n x"
    | c n x b where "event = ToolExecutionEnd c n x b"
    | "recordAgentEvent ops vals event j = (j, Inr ())"
    by (cases event) (auto simp: recordAgentEvent_def active)
  then show ?thesis
  proof cases
    case 1
    then show ?thesis using turn_start_ok [OF assms(1,2) active] assms(3,4) by simp
  next
    case 2
    then show ?thesis using turn_end_ok [OF assms(1) active] assms(4) by blast
  next
    case 3
    then show ?thesis using tool_start_ok [OF assms(1) active] assms(4) by blast
  next
    case 4
    then show ?thesis using tool_end_ok [OF assms(1) active] assms(4) by blast
  next
    case 5
    then show ?thesis using assms(1,4) by simp
  qed
qed

lemma work_ok: "journal_work ops vals j j' \<Longrightarrow> supply_ok vals \<Longrightarrow> journal_ok j \<Longrightarrow> journal_ok j' \<and> jn_operation j' = jn_operation j"
proof (induction rule: journal_work.induct)
  case (work_event j j1 event j2 r)
  then show ?case using event_ok [OF _ _ work_event(2,3)] by simp
next
  case (work_session j j1 s n)
  have same: "same_work j1 (j1\<lparr>jn_session := s, jn_calls := n\<rparr>)" by (simp add: same_work_def)
  have j1: "journal_ok j1" "jn_operation j1 = jn_operation j" using work_session.IH work_session.prems by simp_all
  have log: "journal_log ops (j1\<lparr>jn_session := s, jn_calls := n\<rparr>) = journal_log ops j1"
    using work_session.hyps(2) by (simp add: journal_log_def)
  have "journal_ok (j1\<lparr>jn_session := s, jn_calls := n\<rparr>)"
    using j1(1) unfolding journal_ok_def log same_work_active(4) [OF same] same_work_active(5) [OF same] .
  then show ?case using j1(2) by simp
qed simp

lemma reachable_ok: "journal_reachable ops vals j \<Longrightarrow> supply_ok vals \<Longrightarrow> journal_ok j"
proof (induction rule: journal_reachable.induct)
  case (recovered s j res)
  obtain j1 r where run: "recoverUnfinishedWork ops vals (new_journal s) = (j1, r)" by force
  then have j: "j = j1\<lparr>jn_recovery := Some (Inr res)\<rparr>" "r = Inr res" using recovered by (auto simp: recover_def new_journal_def)
  let ?rs = "recovery_records (scan_log (journal_log ops (new_journal s)))"
  obtain j2 out where ap: "append_records ops vals (new_journal s) ?rs = (j2, out)" by force
  have "same_work (new_journal s) j2" using append_records_log [OF _ ap] recovery_records_ok(1) [OF journal_log_is_ok] by blast
  moreover have "j2 = j1" using run ap by (cases out) (auto simp: recoverUnfinishedWork_def journal_log_def [symmetric] Let_def)
  moreover have "nothing_open (journal_log ops j1)" using recovery_effect [OF run] j(2) by blast
  ultimately show ?case
    by (simp add: journal_ok_def journal_shape_def j(1) nothing_open_covered same_work_def new_journal_def js_map_ok_Nil)
next
  case (began j op j' r)
  then show ?case using begin_ok [OF _ began(2)] by simp
next
  case (worked j j')
  then show ?case using work_ok [OF worked(2)] by simp
next
  case (finished j out err j' r)
  then show ?case using finish_ok [OF _ finished(2)] by simp
next
  case (interrupted j e j' r)
  then show ?case using interrupt_ok [OF _ interrupted(2)] by simp
qed

end

section \<open>Operations from start to end\<close>

text \<open>The record that closes an operation, if its result says that one was written.\<close>

definition closing_record :: "('x + journal_error \<Rightarrow> thrown_error) \<Rightarrow> harness_operation \<Rightarrow> ('a \<Rightarrow> operation_outcome)
    \<Rightarrow> 'x harness_failure + 'a \<Rightarrow> journal_record option" where
  "closing_record thrown op outcome r = (case r of
      Inr result \<Rightarrow> Some (OperationFinished op (outcome result) None)
    | Inl (WorkFailed x) \<Rightarrow> Some (OperationInterrupted op OperationFailed (Some (thrown (Inl x))))
    | Inl (FinishFailed e) \<Rightarrow> Some (OperationInterrupted op OperationFailed (Some (thrown (Inr e))))
    | _ \<Rightarrow> None)"

context tree_log
begin

lemma interrupt_with_ok:
  assumes "journal_ok j" "jn_operation j = Some (i, op)" "interrupt_with ops vals thrown j err = (j', r)"
  shows "journal_ok j' \<and> (\<forall>rec. closing_record thrown op outcome r = Some rec \<longrightarrow>
    jn_operation j' = None \<and> (\<exists>rcs. journal_log ops j' = rcs @ [record_json i rec]))"
proof -
  obtain j1 r1 where run: "interruptOperation ops vals (thrown err) j = (j1, r1)" by force
  show ?thesis
    using assms(2,3) run interrupt_ok [OF assms(1) run]
    by (cases r1; cases err) (auto simp: interrupt_with_def closing_record_def)
qed

lemma run_closed:
  assumes "journal_ok j" "supply_ok vals" "\<forall>j1 j2 r2. beginOperation ops vals op j = (j1, Inr ()) \<longrightarrow> work j1 = Some (j2, r2) \<longrightarrow> journal_work ops vals j1 j2"
    and "runJournaledOperation ops vals thrown op work outcome j = Some (j', r)"
  shows "journal_ok j' \<and> (\<forall>rec. closing_record thrown op outcome r = Some rec \<longrightarrow>
    jn_operation j' = None \<and> (\<exists>rcs i. journal_log ops j' = rcs @ [record_json i rec]))"
proof -
  obtain j1 r1 where start: "beginOperation ops vals op j = (j1, r1)" by force
  note began = begin_ok [OF assms(1) start]
  show ?thesis
  proof (cases r1)
    case (Inl e)
    then show ?thesis using assms(4) start began by (auto simp: runJournaledOperation_def closing_record_def)
  next
    case (Inr u)
    then obtain i where i: "jn_operation j1 = Some (i, op)" using began by auto
    obtain j2 r2 where work: "work j1 = Some (j2, r2)" using assms(4) start Inr by (cases "work j1") (auto simp: runJournaledOperation_def)
    have j2: "journal_ok j2" "jn_operation j2 = Some (i, op)"
      using work_ok [OF assms(3) [rule_format, OF _ work] assms(2)] began start Inr i by auto
    show ?thesis
    proof (cases r2)
      case (Inl x)
      then have "interrupt_with ops vals thrown j2 (Inl x) = (j', r)" using assms(4) start Inr work by (auto simp: runJournaledOperation_def)
      then show ?thesis using interrupt_with_ok [OF j2] by blast
    next
      case result: (Inr a)
      obtain j3 r3 where fin: "finishOperation ops vals (outcome a) None j2 = (j3, r3)" by force
      note ended = finish_ok [OF j2(1) fin]
      show ?thesis
      proof (cases r3)
        case (Inl e)
        then have "interrupt_with ops vals thrown j3 (Inr e) = (j', r)"
          using assms(4) start Inr work result fin Inl by (auto simp: runJournaledOperation_def)
        moreover have "journal_ok j3" "jn_operation j3 = Some (i, op)" using ended Inl j2(2) by auto
        ultimately show ?thesis using interrupt_with_ok by blast
      next
        case fine: (Inr v)
        then have "j' = j3" "r = Inr a" using assms(4) start Inr work result fin fine by (auto simp: runJournaledOperation_def)
        then show ?thesis using ended fine j2(2) by (auto simp: closing_record_def)
      qed
    qed
  qed
qed

text \<open>Without write errors the journal adds no error of its own.\<close>

lemma append_records_all_ready:
  "ready (jn_session j) \<Longrightarrow> \<exists>j'. append_records ops vals j rs = (j', Inr ()) \<and> ready (jn_session j')"
proof (induction rs arbitrary: j)
  case (Cons r rs)
  then show ?case using append_ready [OF Cons.prems, of vals r] by auto
qed simp

lemma begin_ready:
  assumes "journal_ok j" "jn_operation j = None" "ready (jn_session j)"
  shows "\<exists>j'. beginOperation ops vals op j = (j', Inr ()) \<and> ready (jn_session j')"
proof -
  obtain res where "recover ops vals j = (j, Inr res)" using assms(1) by (auto simp: recover_def journal_ok_def journal_shape_def)
  then show ?thesis using assms(2,3) by (auto simp: beginOperation_def take_uuid_def intro: append_ready)
qed

lemma children_ready:
  assumes "jn_operation j = Some (i, op)" "ready (jn_session j)"
  shows "\<exists>j'. finishOpenChildren ops vals why j = (j', Inr ()) \<and> ready (jn_session j')"
proof -
  let ?rs = "map (\<lambda>(_, t). record_json i (ToolInterrupted t why)) (jn_tools j)"
  obtain j1 where j1: "append_records ops vals j ?rs = (j1, Inr ())" "ready (jn_session j1)"
    using append_records_all_ready [OF assms(2)] by blast
  let ?j2 = "j1\<lparr>jn_tools := []\<rparr>"
  obtain j3 where j3: "journal_append ops vals ?j2 (record_json i (TurnInterrupted (the (jn_turn j1)) why)) = (j3, Inr ())" "ready (jn_session j3)"
    using append_ready [of ?j2 vals] j1(2) by auto
  show ?thesis
    using assms(1) j1 j3 by (cases "truthy (jn_turn j1)") (auto simp: finishOpenChildren_def requireActiveOperation_def)
qed

lemma finish_ready:
  assumes "journal_ok j" "jn_operation j = Some (i, op)" "ready (jn_session j)"
  shows "\<exists>j'. finishOperation ops vals out err j = (j', Inr ())" "\<exists>j'. interruptOperation ops vals e j = (j', Inr ())"
proof -
  obtain j1 where j1: "finishOpenChildren ops vals OperationFailed j = (j1, Inr ())" "ready (jn_session j1)"
    using children_ready [OF assms(2,3)] by blast
  show "\<exists>j'. finishOperation ops vals out err j = (j', Inr ())"
    using append_ready [OF j1(2), of vals "record_json i (OperationFinished op out err)"] j1 assms(2)
    by (auto simp: finishOperation_def requireActiveOperation_def)
  show "\<exists>j'. interruptOperation ops vals e j = (j', Inr ())"
    using append_ready [OF j1(2), of vals "record_json i (OperationInterrupted op OperationFailed (Some e))"] j1 assms(2)
    by (auto simp: interruptOperation_def requireActiveOperation_def)
qed

lemma run_ready:
  assumes "journal_ok j" "supply_ok vals" "\<forall>j1 j2 r2. beginOperation ops vals op j = (j1, Inr ()) \<longrightarrow> work j1 = Some (j2, r2) \<longrightarrow> journal_work ops vals j1 j2"
    and "\<forall>j1 j2 r2. beginOperation ops vals op j = (j1, Inr ()) \<longrightarrow> work j1 = Some (j2, r2) \<longrightarrow> ready (jn_session j1) \<longrightarrow> ready (jn_session j2)"
    and "jn_operation j = None" "ready (jn_session j)" "runJournaledOperation ops vals thrown op work outcome j = Some (j', r)"
  shows "(\<exists>a. r = Inr a) \<or> (\<exists>x. r = Inl (WorkFailed x))"
proof -
  obtain j1 where start: "beginOperation ops vals op j = (j1, Inr ())" "ready (jn_session j1)"
    using begin_ready [OF assms(1,5,6)] by blast
  obtain i where i: "jn_operation j1 = Some (i, op)" "journal_ok j1" using begin_ok [OF assms(1) start(1)] by auto
  obtain j2 r2 where work: "work j1 = Some (j2, r2)" using assms(7) start by (cases "work j1") (auto simp: runJournaledOperation_def)
  have j2: "journal_ok j2" "jn_operation j2 = Some (i, op)" "ready (jn_session j2)"
    using work_ok [OF assms(3) [rule_format, OF start(1) work] assms(2)] assms(4) [rule_format, OF start(1) work] start(2) i by auto
  show ?thesis
  proof (cases r2)
    case (Inl x)
    obtain j3 where "interruptOperation ops vals (thrown (Inl x)) j2 = (j3, Inr ())" using finish_ready(2) [OF j2] by blast
    then show ?thesis using assms(7) start work Inl by (auto simp: runJournaledOperation_def interrupt_with_def)
  next
    case (Inr a)
    obtain j3 where "finishOperation ops vals (outcome a) None j2 = (j3, Inr ())" using finish_ready(1) [OF j2] by blast
    then show ?thesis using assms(7) start work Inr by (auto simp: runJournaledOperation_def)
  qed
qed

text \<open>An operation that is still held after a failed start keeps every later one from starting.\<close>

lemma held_blocks:
  assumes "journal_ok j" "jn_operation j \<noteq> None"
  shows "runJournaledOperation ops vals thrown op work outcome j = Some (j, Inl (BeginFailed JournalInvalidState))"
proof -
  obtain res where "recover ops vals j = (j, Inr res)" using assms(1) by (auto simp: recover_def journal_ok_def journal_shape_def)
  then show ?thesis using assms(2) by (simp add: runJournaledOperation_def beginOperation_def)
qed

end

text \<open>A failed recovery is never tried again.\<close>

lemma failed_recovery_kept:
  assumes "recover ops vals j = (j', Inl e)"
  shows "runJournaledOperation ops vals' thrown op work outcome (j'\<lparr>jn_session := s\<rparr>) =
    Some (j'\<lparr>jn_session := s\<rparr>, Inl (BeginFailed e))"
proof -
  have "jn_recovery j' = Some (Inl e)" using assms by (auto simp: recover_def split: option.splits prod.splits)
  then have "recover ops vals' (j'\<lparr>jn_session := s\<rparr>) = (j'\<lparr>jn_session := s\<rparr>, Inl e)" by (simp add: recover_def)
  then show ?thesis by (simp add: runJournaledOperation_def beginOperation_def)
qed

section \<open>Both storages are logs\<close>

definition leaf_known :: "tree_storage \<Rightarrow> bool" where
  "leaf_known s \<longleftrightarrow> (\<forall>i. ts_leafId s = Some i \<longrightarrow> js_has (ts_byId s) i)"

lemma leaf_known_get: "leaf_known s \<Longrightarrow> tree_getLeafId s = Inr (ts_leafId s)"
  by (cases "ts_leafId s") (auto simp: leaf_known_def tree_getLeafId_def)

lemma leaf_known_append: "\<not> is_leaf_body (te_body e) \<Longrightarrow> leaf_known (fst (tree_appendEntry s e))"
  by (cases "te_body e") (auto simp: leaf_known_def tree_appendEntry_def tree_push_def leafIdAfterEntry_def)

lemma tree_getEntries_all: "tree_getEntries s None None = ts_entries s"
  by (simp add: tree_getEntries_def js_slice_def slice_bound_def)

interpretation memory_log: tree_log memory_tree_ops leaf_known
proof (unfold_locales, goal_cases)
  case (4 s e)
  then show ?case using leaf_known_append [of e s] by (simp add: memory_tree_ops_def tree_appendEntry_def)
qed (auto simp: memory_tree_ops_def tree_getEntries_all leaf_known_get tree_appendEntry_def tree_push_def)

definition file_ready :: "tree_file \<Rightarrow> bool" where
  "file_ready f \<longleftrightarrow> fs_faults (tf_fs f) = [] \<and> leaf_known (tf_store f)"

lemma file_append_ready:
  assumes "file_ready f" "\<not> is_leaf_body (te_body e)"
  shows "\<exists>g. file_appendEntry f e = (g, Inr ()) \<and> file_ready g"
  using assms leaf_known_append [of e "tf_store f"]
  by (auto simp: file_ready_def file_appendEntry_def append_line_def fs_appendFile_def next_fault_def put_file_def tree_appendEntry_def)

interpretation file_log: tree_log file_tree_ops file_ready
proof (unfold_locales, goal_cases)
  case (1 f e g u)
  then have "tree_appendEntry (tf_store f) e = (tf_store g, Inr ())" using file_appendEntry_cases [of f e g "Inr u"] by (simp add: file_tree_ops_def)
  then have "tf_store g = fst (tree_appendEntry (tf_store f) e)" by simp
  then have "ts_entries (tf_store g) = ts_entries (tf_store f) @ [e]" by (simp add: tree_appendEntry_def tree_push_def)
  then show ?case by (simp add: file_tree_ops_def file_getEntries_def tree_getEntries_all)
next
  case (2 f e g err)
  then show ?case using file_appendEntry_cases [of f e g "Inl err"] by (simp add: file_tree_ops_def file_getEntries_def tree_getEntries_all)
next
  case (3 f)
  then show ?case by (simp add: file_tree_ops_def file_reads file_ready_def leaf_known_get)
next
  case (4 f e)
  then show ?case using file_append_ready by (simp add: file_tree_ops_def)
qed

section \<open>Properties\<close>

text \<open>
  C17. Whatever a session file contains, recovery appends a part of the records that interrupt the operations, turns and tool calls left
  open, all of them unless a write fails; then nothing is open and the counts of its result are the numbers of items closed.
\<close>

theorem recovery_closes_log:
  assumes "recoverUnfinishedWork file_tree_ops vals j = (j', r)"
  shows "(\<exists>k. journal_log file_tree_ops j' =
        journal_log file_tree_ops j @ take k (recovery_records (scan_log (journal_log file_tree_ops j)))) \<and>
    (file_ready (jn_session j) \<longrightarrow> (\<exists>res. r = Inr res)) \<and>
    (\<forall>res. r = Inr res \<longrightarrow> nothing_open (journal_log file_tree_ops j') \<and>
       rr_operations res = card (left_operations (journal_log file_tree_ops j)) \<and>
       rr_turns res = card (left_turns (journal_log file_tree_ops j)) \<and> rr_tools res = card (left_tools (journal_log file_tree_ops j)))"
  by (rule file_log.recovery_effect [OF assms])

text \<open>
  A turn that starts while another is open in memory takes its place there: the log still shows the first one as open, and the
  journal no longer holds it.
\<close>

lemma second_turn_forgets_first:
  assumes "jn_operation j = Some (i, op)" "jn_turn j = Some t" "Some (JStr t) \<in> left_turns (journal_log file_tree_ops j)"
    and "su_uuid vals (jn_calls j) 0 \<noteq> t" "recordAgentEvent file_tree_ops vals TurnStart j = (j', Inr ())"
  shows "Some (JStr t) \<in> left_turns (journal_log file_tree_ops j')" "\<not> log_covered (journal_log file_tree_ops j') j'"
proof -
  let ?u = "su_uuid vals (jn_calls j) 0"
  let ?j = "j\<lparr>jn_calls := Suc (jn_calls j), jn_turn := Some ?u\<rparr>"
  have run: "journal_append file_tree_ops vals ?j (record_json i (TurnStarted ?u)) = (j', Inr ())"
    using assms(1,5) by (simp add: recordAgentEvent_def take_uuid_def)
  have "journal_log file_tree_ops j' = journal_log file_tree_ops j @ [record_json i (TurnStarted ?u)]" "same_work ?j j'"
    using file_log.append_log [OF _ run] by (simp_all add: record_json_fields journal_log_def)
  then show "Some (JStr t) \<in> left_turns (journal_log file_tree_ops j')" "\<not> log_covered (journal_log file_tree_ops j') j'"
    using assms(3,4) by (auto simp: open_snoc record_json_keys log_covered_def active_turns_def same_work_def)
qed

text \<open>
  C19. From its recovery on, whatever writes fail, a journal holds in memory every operation, turn and tool call that its log shows as
  open, as long as no turn starts while another is open in memory (\<open>journal_work\<close>); so when no operation is active nothing
  is open in the log.
\<close>

theorem journal_covers_log:
  assumes "journal_reachable file_tree_ops vals j" "supply_ok vals"
  shows "log_covered (journal_log file_tree_ops j) j \<and> (jn_operation j = None \<longrightarrow> nothing_open (journal_log file_tree_ops j))"
  using file_log.reachable_ok [OF assms] file_log.idle_nothing_open by (auto simp: file_log.journal_ok_def)

text \<open>
  C18. An operation of the harness that started and whose end could be written leaves nothing open, and the last record of the log is its
  end: finished with its outcome when the work returned, interrupted with the error otherwise. Without write errors this is every
  operation. (The work is that of \<open>journal_work\<close>: no turn starts in it while another is open in memory.)
\<close>

theorem journaled_operation_closed:
  assumes "journal_reachable file_tree_ops vals j" "supply_ok vals" "\<forall>j j' r. work j = Some (j', r) \<longrightarrow> journal_work file_tree_ops vals j j'"
    and "runJournaledOperation file_tree_ops vals thrown op work outcome j = Some (j', r)"
  shows "(\<forall>rec. closing_record thrown op outcome r = Some rec \<longrightarrow> jn_operation j' = None \<and> nothing_open (journal_log file_tree_ops j') \<and>
      (\<exists>rcs i. journal_log file_tree_ops j' = rcs @ [record_json i rec])) \<and>
    (jn_operation j = None \<and> file_ready (jn_session j) \<and> (\<forall>j j' r. work j = Some (j', r) \<longrightarrow> file_ready (jn_session j) \<longrightarrow> file_ready (jn_session j')) \<longrightarrow>
      closing_record thrown op outcome r \<noteq> None)"
proof -
  have ok: "file_log.journal_ok j" by (rule file_log.reachable_ok [OF assms(1,2)])
  have closes: "closing_record thrown op outcome r \<noteq> None" if idle: "jn_operation j = None" and ready: "file_ready (jn_session j)"
    and keep: "\<forall>j j' r. work j = Some (j', r) \<longrightarrow> file_ready (jn_session j) \<longrightarrow> file_ready (jn_session j')"
  proof -
    have "(\<exists>a. r = Inr a) \<or> (\<exists>x. r = Inl (WorkFailed x))"
      by (rule file_log.run_ready [OF ok assms(2) _ _ idle ready assms(4)]) (use assms(3) keep in blast)+
    then show ?thesis by (auto simp: closing_record_def)
  qed
  have ended: "file_log.journal_ok j'" "closing_record thrown op outcome r = Some rec \<Longrightarrow>
      jn_operation j' = None \<and> (\<exists>rcs i. journal_log file_tree_ops j' = rcs @ [record_json i rec])" for rec
    using file_log.run_closed [OF ok assms(2) _ assms(4)] assms(3) by blast+
  have "jn_operation j' = None \<Longrightarrow> nothing_open (journal_log file_tree_ops j')" by (rule file_log.idle_nothing_open [OF ended(1)])
  then show ?thesis using ended(2) closes by (intro conjI allI impI) auto
qed

text \<open>
  C20. When the record of the start of an operation cannot be written, the operation fails, and all later ones too although every write
  would succeed again: the journal goes on holding the operation that never started.
\<close>

theorem failed_start_blocks_harness:
  assumes "journal_reachable file_tree_ops vals j" "supply_ok vals" "jn_operation j = None"
    and "fs_faults (tf_fs (jn_session j)) = [Fault err chars]" "file_getLeafId (jn_session j) = Inr leaf"
    and "runJournaledOperation file_tree_ops vals thrown op work outcome j = Some (j', r)"
  shows "r = Inl (BeginFailed (JournalStorage (tree_file_error err))) \<and> fs_faults (tf_fs (jn_session j')) = [] \<and>
    (\<forall>j'' thrown' op' work' outcome'. journal_work file_tree_ops vals j' j'' \<longrightarrow>
       runJournaledOperation file_tree_ops vals thrown' op' work' outcome' j'' = Some (j'', Inl (BeginFailed JournalInvalidState)))"
proof -
  have ok: "file_log.journal_ok j" by (rule file_log.reachable_ok [OF assms(1,2)])
  obtain res where res: "recover file_tree_ops vals j = (j, Inr res)"
    using ok by (auto simp: recover_def file_log.journal_ok_def journal_shape_def)
  obtain j1 r1 where start: "beginOperation file_tree_ops vals op j = (j1, r1)" by force
  have failed: "r1 = Inl (JournalStorage (tree_file_error err))" "fs_faults (tf_fs (jn_session j1)) = []" "jn_operation j1 \<noteq> None"
    using start res assms(3-5)
    by (auto simp: beginOperation_def take_uuid_def journal_append_def session_appendCustomEntry_def append_below_leaf_def Let_def
        file_tree_ops_def file_appendEntry_def append_line_def fs_appendFile_def next_fault_def put_file_def split: option.splits)
  have j': "j' = j1" "r = Inl (BeginFailed (JournalStorage (tree_file_error err)))"
    using assms(6) start failed(1) by (auto simp: runJournaledOperation_def)
  have "runJournaledOperation file_tree_ops vals thrown' op' work' outcome' j'' = Some (j'', Inl (BeginFailed JournalInvalidState))"
    if "journal_work file_tree_ops vals j' j''" for j'' thrown' op' and work' :: "tree_file journal \<Rightarrow> (tree_file journal \<times> ('c + 'd)) option" and outcome'
    using file_log.work_ok [OF that assms(2)] file_log.begin_ok [OF ok start] failed(3) j'(1) file_log.held_blocks [of j''] by simp
  then show ?thesis using failed(2) j' by blast
qed

section \<open>Instances\<close>

definition demo_vals :: journal_supply where
  "demo_vals = \<lparr>su_uuid = (\<lambda>n i. replicate (Suc n) (CHR ''u'')), su_now = int\<rparr>"

lemma demo_vals_ok: "supply_ok demo_vals"
  by (simp add: supply_ok_def demo_vals_def)

text \<open>The journal of a new session, and the same after the start of an operation, as a stopped process leaves it.\<close>

definition demo_journal :: "tree_file journal" where
  "demo_journal = fst (recover file_tree_ops demo_vals (new_journal file_demo_empty))"

definition demo_started :: "tree_file journal" where
  "demo_started = fst (beginOperation file_tree_ops demo_vals PromptOperation demo_journal)"

lemma demo_empty_entries: "to_getEntries file_tree_ops file_demo_empty = []"
  by (simp add: file_tree_ops_def file_getEntries_def tree_getEntries_all file_demo_empty_def new_tree_file_def)

lemma demo_recovered:
  "recover file_tree_ops demo_vals (new_journal file_demo_empty) =
     (demo_journal, Inr \<lparr>rr_operations = 0, rr_turns = 0, rr_tools = 0\<rparr>)"
  "demo_journal = (new_journal file_demo_empty)\<lparr>jn_recovery := Some (Inr \<lparr>rr_operations = 0, rr_turns = 0, rr_tools = 0\<rparr>)\<rparr>"
  by (simp_all add: demo_journal_def recover_def new_journal_def recoverUnfinishedWork_def journal_entries_def demo_empty_entries
      List.map_filter_def recovery_records_def)

lemma demo_journal_reachable: "journal_reachable file_tree_ops demo_vals demo_journal"
  by (rule journal_reachable.recovered [OF demo_recovered(1)])

lemma demo_empty_ready: "file_ready file_demo_empty"
  by (simp add: file_ready_def leaf_known_def file_demo_empty_def new_tree_file_def file_demo_fs_def put_file_def)

lemma demo_journal_ready: "file_ready (jn_session demo_journal)" "jn_operation demo_journal = None" "jn_turn demo_journal = None"
  by (simp_all add: demo_recovered(2) new_journal_def demo_empty_ready)

lemma demo_empty_log: "jn_session j = file_demo_empty \<Longrightarrow> journal_log file_tree_ops j = []"
  by (simp add: journal_log_def journal_entries_def demo_empty_entries List.map_filter_def)

lemma demo_started_log: "\<exists>i. journal_log file_tree_ops demo_started = [record_json i (OperationStarted PromptOperation)]"
proof -
  have ok: "file_log.journal_ok demo_journal" by (rule file_log.reachable_ok [OF demo_journal_reachable demo_vals_ok])
  obtain j where "beginOperation file_tree_ops demo_vals PromptOperation demo_journal = (j, Inr ())"
    using file_log.begin_ready [OF ok] demo_journal_ready by blast
  then show ?thesis
    using file_log.append_log [OF record_json_fields(1)]
    by (auto simp: demo_started_def beginOperation_def take_uuid_def recover_def demo_recovered(2) new_journal_def demo_empty_log)
qed

theorem recovery_closes_log_witness:
  "left_operations (journal_log file_tree_ops demo_started) \<noteq> {} \<and>
   (\<exists>k. journal_log file_tree_ops (fst (recoverUnfinishedWork file_tree_ops demo_vals demo_started)) =
     journal_log file_tree_ops demo_started @ take k (recovery_records (scan_log (journal_log file_tree_ops demo_started))))"
proof -
  obtain i where "journal_log file_tree_ops demo_started = [record_json i (OperationStarted PromptOperation)]" using demo_started_log by blast
  then have "left_operations (journal_log file_tree_ops demo_started) = {i}"
    using open_snoc(1) [of "[]" "record_json i (OperationStarted PromptOperation)"] by (simp add: record_json_keys open_sets)
  then show ?thesis using recovery_closes_log [OF prod.collapse [symmetric], of demo_vals demo_started] by simp
qed

theorem journal_covers_log_witness: "nothing_open (journal_log file_tree_ops demo_journal)"
  using journal_covers_log [OF demo_journal_reachable demo_vals_ok] demo_journal_ready(2) by simp

text \<open>Work that leaves a turn open.\<close>

definition demo_work :: "tree_file journal \<Rightarrow> (tree_file journal \<times> (unit + unit)) option" where
  "demo_work j = Some (if jn_turn j = None then fst (recordAgentEvent file_tree_ops demo_vals TurnStart j) else j, Inr ())"

lemma demo_work_is_work: "demo_work j = Some (j', r) \<Longrightarrow> journal_work file_tree_ops demo_vals j j'"
  using work_event [OF no_work, of TurnStart j file_tree_ops demo_vals] no_work by (auto simp: demo_work_def prod_eq_iff)

lemma demo_work_ready: "demo_work j = Some (j', r) \<Longrightarrow> file_ready (jn_session j) \<Longrightarrow> file_ready (jn_session j')"
proof -
  assume work: "demo_work j = Some (j', r)" and ready: "file_ready (jn_session j)"
  show ?thesis
  proof (cases "jn_operation j")
    case (Some a)
    let ?t = "su_uuid demo_vals (jn_calls j) 0"
    obtain i op where a: "a = (i, op)" by (cases a)
    obtain j1 where "journal_append file_tree_ops demo_vals (j\<lparr>jn_calls := Suc (jn_calls j), jn_turn := Some ?t\<rparr>) (record_json i (TurnStarted ?t)) = (j1, Inr ())"
      "file_ready (jn_session j1)"
      using file_log.append_ready [of "j\<lparr>jn_calls := Suc (jn_calls j), jn_turn := Some ?t\<rparr>"] ready by auto
    then show ?thesis using work ready Some a by (auto simp: demo_work_def recordAgentEvent_def take_uuid_def split: if_splits)
  qed (use work ready in \<open>auto simp: demo_work_def recordAgentEvent_def split: if_splits\<close>)
qed

definition demo_thrown :: "unit + journal_error \<Rightarrow> thrown_error" where
  "demo_thrown e = \<lparr>er_name = ''Error'', er_message = ''failed'', er_code = None\<rparr>"

lemma demo_run_returns: "\<exists>j' r. runJournaledOperation file_tree_ops demo_vals demo_thrown op demo_work outcome j = Some (j', r)"
  by (auto simp: runJournaledOperation_def demo_work_def split: prod.splits sum.splits)

theorem journaled_operation_closed_witness:
  "\<exists>j' r rec. runJournaledOperation file_tree_ops demo_vals demo_thrown PromptOperation demo_work (\<lambda>_. SuccessOutcome) demo_journal = Some (j', r) \<and>
     jn_operation j' = None \<and> nothing_open (journal_log file_tree_ops j') \<and> (\<exists>rcs i. journal_log file_tree_ops j' = rcs @ [record_json i rec])"
proof -
  obtain j' r where run: "runJournaledOperation file_tree_ops demo_vals demo_thrown PromptOperation demo_work (\<lambda>_. SuccessOutcome) demo_journal = Some (j', r)"
    using demo_run_returns by blast
  have "\<forall>j j' r. demo_work j = Some (j', r) \<longrightarrow> journal_work file_tree_ops demo_vals j j'" using demo_work_is_work by blast
  note closed = journaled_operation_closed [OF demo_journal_reachable demo_vals_ok this run]
  then obtain rec where "closing_record demo_thrown PromptOperation (\<lambda>_. SuccessOutcome) r = Some rec"
    using demo_journal_ready demo_work_ready by blast
  then show ?thesis using closed run by auto
qed

text \<open>The journal when the disk is full for one write.\<close>

definition demo_full :: "tree_file journal" where
  "demo_full = fst (recover file_tree_ops demo_vals (new_journal (file_demo_empty\<lparr>tf_fs := (tf_fs file_demo_empty)\<lparr>fs_faults := [Fault FileFailure None]\<rparr>\<rparr>)))"

lemma demo_full_recovered:
  "recover file_tree_ops demo_vals (new_journal (file_demo_empty\<lparr>tf_fs := (tf_fs file_demo_empty)\<lparr>fs_faults := [Fault FileFailure None]\<rparr>\<rparr>)) =
     (demo_full, Inr \<lparr>rr_operations = 0, rr_turns = 0, rr_tools = 0\<rparr>)"
  "jn_operation demo_full = None" "jn_session demo_full = file_demo_empty\<lparr>tf_fs := (tf_fs file_demo_empty)\<lparr>fs_faults := [Fault FileFailure None]\<rparr>\<rparr>"
  using demo_empty_entries
  by (simp_all add: demo_full_def recover_def new_journal_def recoverUnfinishedWork_def journal_entries_def file_tree_ops_def file_getEntries_def
      List.map_filter_def recovery_records_def)

theorem failed_start_blocks_harness_witness:
  "\<exists>j'. runJournaledOperation file_tree_ops demo_vals demo_thrown PromptOperation demo_work (\<lambda>_. SuccessOutcome) demo_full =
       Some (j', Inl (BeginFailed (JournalStorage TreeStorageFailure))) \<and>
     runJournaledOperation file_tree_ops demo_vals demo_thrown PromptOperation demo_work (\<lambda>_. SuccessOutcome) j' =
       Some (j', Inl (BeginFailed JournalInvalidState))"
proof -
  obtain j' r where run: "runJournaledOperation file_tree_ops demo_vals demo_thrown PromptOperation demo_work (\<lambda>_. SuccessOutcome) demo_full = Some (j', r)"
    using demo_run_returns by blast
  have leaf: "file_getLeafId (jn_session demo_full) = Inr None"
    by (simp add: demo_full_recovered(3) file_getLeafId_def file_demo_empty_def new_tree_file_def)
  have faults: "fs_faults (tf_fs (jn_session demo_full)) = [Fault FileFailure None]" by (simp add: demo_full_recovered(3))
  show ?thesis
    using failed_start_blocks_harness [OF journal_reachable.recovered [OF demo_full_recovered(1)] demo_vals_ok demo_full_recovered(2) faults leaf run] run
      no_work
    by fastforce
qed

end
