(* ===== verification/Turn_Lease.thy ===== *)
theory Turn_Lease
  imports Recode_Prelude
begin

text \<open>
  \<^verbatim>\<open>SessionTurnLeaseRegistry\<close> of \<^verbatim>\<open>packages/orchestrator/src/turn-lease.ts\<close>, which serialises the
  turns that write to one session. Lease, token and waiter objects are compared by identity
  and shared between the map, the queues, timers and callers (after a rebind two session
  ids lead to the same lease), so each kind lives in an explicit store and is named by its
  address.

  \<open>now\<close> is the last reading of the clock that an operation makes, the only one that stays
  visible; \<open>capability\<close> is the text of the random bytes. A pending promise is the waiter's
  outcome, a timer is the step \<open>lease_timeout\<close>, which may happen at any moment after its
  waiter exists.
\<close>

section \<open>Objects\<close>

record lease_token =
  lt_sessionId :: string
  lt_ownerId :: string
  lt_generation :: int
  lt_capability :: string
  lt_released :: bool

datatype waiter_outcome = StillWaiting | Resolved | Rejected

record lease_waiter =
  lw_token :: nat
  lw_settled :: bool
  lw_outcome :: waiter_outcome
  lw_lease :: nat \<comment> \<open>the lease in the closure of its timer\<close>

record session_lease =
  sl_holder :: "nat option"
  sl_waiters :: "nat list"
  sl_lastUsed :: int

record lease_registry =
  reg_leases :: "(string, nat) js_map"
  reg_objects :: "session_lease list"
  reg_tokens :: "lease_token list"
  reg_waiters :: "lease_waiter list"
  reg_maxEntries :: nat

datatype lease_error = BadIdentity | BadGeneration | BadTimeout | BadMaxEntries

definition registry_new :: "int \<Rightarrow> js_double option \<Rightarrow> lease_error + lease_registry" where
  "registry_new maxEntries defaultTimeoutMs =
     bind_result (guard_result (1 \<le> maxEntries \<and> maxEntries < 2 ^ 53) BadMaxEntries) (\<lambda>_.
     bind_result (guard_result (case defaultTimeoutMs of Some ms \<Rightarrow> 0 \<le> mantissa ms | None \<Rightarrow> False) BadTimeout) (\<lambda>_.
     Inr \<lparr>reg_leases = [], reg_objects = [], reg_tokens = [], reg_waiters = [], reg_maxEntries = nat maxEntries\<rparr>))"

definition boundedIdentity :: "string \<Rightarrow> lease_error + unit" where
  "boundedIdentity v = guard_result (v \<noteq> '''' \<and> length v \<le> 512) BadIdentity"

abbreviation lease_at :: "lease_registry \<Rightarrow> nat \<Rightarrow> session_lease" where
  "lease_at r a \<equiv> reg_objects r ! a"

abbreviation token_at :: "lease_registry \<Rightarrow> nat \<Rightarrow> lease_token" where
  "token_at r t \<equiv> reg_tokens r ! t"

abbreviation waiter_at :: "lease_registry \<Rightarrow> nat \<Rightarrow> lease_waiter" where
  "waiter_at r w \<equiv> reg_waiters r ! w"

section \<open>Operations\<close>

definition lease_idle :: "lease_registry \<Rightarrow> nat \<Rightarrow> bool" where
  "lease_idle r a \<longleftrightarrow> sl_holder (lease_at r a) = None \<and>
     \<not> (\<exists>w \<in> set (sl_waiters (lease_at r a)). \<not> lw_settled (waiter_at r w))"

definition evictIdle :: "lease_registry \<Rightarrow> lease_registry" where
  "evictIdle r =
     (let overflow = length (reg_leases r) + 1 - reg_maxEntries r in
      if length (reg_leases r) + 1 \<le> reg_maxEntries r then r
      else let idle = sort_key (\<lambda>(_, a). sl_lastUsed (lease_at r a)) (filter (\<lambda>(_, a). lease_idle r a) (reg_leases r))
           in r\<lparr>reg_leases := foldl (\<lambda>m (k, _). js_delete m k) (reg_leases r) (take overflow idle)\<rparr>)"

definition getOrCreate :: "lease_registry \<Rightarrow> int \<Rightarrow> string \<Rightarrow> lease_registry \<times> nat" where
  "getOrCreate r now sessionId = (case js_get (reg_leases r) sessionId of
      Some a \<Rightarrow> (r\<lparr>reg_objects := (reg_objects r)[a := (lease_at r a)\<lparr>sl_lastUsed := now\<rparr>]\<rparr>, a)
    | None \<Rightarrow>
        let r' = evictIdle r; a = length (reg_objects r')
        in (r'\<lparr>reg_objects := reg_objects r' @ [\<lparr>sl_holder = None, sl_waiters = [], sl_lastUsed = now\<rparr>],
               reg_leases := js_set (reg_leases r') sessionId a\<rparr>, a))"

datatype acquired = Granted nat | Queued nat

text \<open>The address a token gets, and the branch taken: the lease at once, or a place in its queue.\<close>

definition grant_or_queue :: "lease_registry \<Rightarrow> int \<Rightarrow> nat \<Rightarrow> lease_token \<Rightarrow> lease_registry \<times> acquired" where
  "grant_or_queue r now a token =
     (let t = length (reg_tokens r); w = length (reg_waiters r); lease = lease_at r a in
      if sl_holder lease = None
      then (r\<lparr>reg_tokens := reg_tokens r @ [token],
              reg_objects := (reg_objects r)[a := lease\<lparr>sl_holder := Some t, sl_lastUsed := now\<rparr>]\<rparr>, Granted t)
      else (r\<lparr>reg_tokens := reg_tokens r @ [token],
              reg_waiters := reg_waiters r @
                [\<lparr>lw_token = t, lw_settled = False, lw_outcome = StillWaiting, lw_lease = a\<rparr>],
              reg_objects := (reg_objects r)[a := lease\<lparr>sl_waiters := sl_waiters lease @ [w]\<rparr>]\<rparr>, Queued w))"

definition lease_acquire :: "lease_registry \<Rightarrow> int \<Rightarrow> string \<Rightarrow> string \<Rightarrow> string \<Rightarrow> js_num \<Rightarrow> js_double option
    \<Rightarrow> lease_error + lease_registry \<times> acquired" where
  "lease_acquire r now capability sessionId ownerId generation timeoutMs =
     bind_result (boundedIdentity sessionId) (\<lambda>_.
     bind_result (boundedIdentity ownerId) (\<lambda>_.
     bind_result (case generation of
         JsInt g \<Rightarrow> if 1 \<le> g \<and> g < 2 ^ 53 then Inr g else Inl BadGeneration
       | JsNonInt \<Rightarrow> Inl BadGeneration) (\<lambda>g.
     bind_result (guard_result (case timeoutMs of Some ms \<Rightarrow> 0 \<le> mantissa ms | None \<Rightarrow> False) BadTimeout) (\<lambda>_.
     let token = \<lparr>lt_sessionId = sessionId, lt_ownerId = ownerId, lt_generation = g,
                  lt_capability = capability, lt_released = False\<rparr>;
         (r', a) = getOrCreate r now sessionId
     in Inr (grant_or_queue r' now a token)))))"

text \<open>The callback of a waiter's timer.\<close>

definition lease_timeout :: "lease_registry \<Rightarrow> nat \<Rightarrow> lease_registry" where
  "lease_timeout r w =
     (let waiter = waiter_at r w; a = lw_lease waiter; lease = lease_at r a in
      if lw_settled waiter then r
      else r\<lparr>reg_waiters := (reg_waiters r)[w := waiter\<lparr>lw_settled := True, lw_outcome := Rejected\<rparr>],
             reg_objects := (reg_objects r)[a := lease\<lparr>sl_waiters := remove1 w (sl_waiters lease)\<rparr>]\<rparr>)"

text \<open>The loop of \<^verbatim>\<open>grantNext\<close>: settled waiters are shifted out and skipped.\<close>

fun skip_settled :: "lease_waiter list \<Rightarrow> nat list \<Rightarrow> nat list" where
  "skip_settled ws [] = []"
| "skip_settled ws (w # queue) = (if lw_settled (ws ! w) then skip_settled ws queue else w # queue)"

definition grantNext :: "lease_registry \<Rightarrow> int \<Rightarrow> nat \<Rightarrow> lease_registry" where
  "grantNext r now a =
     (let lease = lease_at r a in
      case skip_settled (reg_waiters r) (sl_waiters lease) of
        [] \<Rightarrow> r\<lparr>reg_objects := (reg_objects r)[a := lease\<lparr>sl_waiters := []\<rparr>]\<rparr>
      | w # queue \<Rightarrow>
          r\<lparr>reg_waiters := (reg_waiters r)[w := (waiter_at r w)\<lparr>lw_settled := True, lw_outcome := Resolved\<rparr>],
            reg_objects := (reg_objects r)[a := lease\<lparr>sl_waiters := queue,
              sl_holder := Some (lw_token (waiter_at r w)), sl_lastUsed := now\<rparr>]\<rparr>)"

definition lease_release :: "lease_registry \<Rightarrow> int \<Rightarrow> nat option \<Rightarrow> lease_registry \<times> bool" where
  "lease_release r now token = (case token of
      None \<Rightarrow> (r, False)
    | Some t \<Rightarrow>
        if lt_released (token_at r t) then (r, False)
        else let r1 = r\<lparr>reg_tokens := (reg_tokens r)[t := (token_at r t)\<lparr>lt_released := True\<rparr>]\<rparr> in
          (case js_get (reg_leases r1) (lt_sessionId (token_at r1 t)) of
             None \<Rightarrow> (r1, False)
           | Some a \<Rightarrow>
               if sl_holder (lease_at r1 a) \<noteq> Some t then (r1, False)
               else (grantNext (r1\<lparr>reg_objects := (reg_objects r1)[a :=
                       (lease_at r1 a)\<lparr>sl_holder := None, sl_lastUsed := now\<rparr>]\<rparr>) now a, True)))"

definition rebind_refused :: "lease_registry \<Rightarrow> nat \<Rightarrow> string \<Rightarrow> bool" where
  "rebind_refused r a newSessionId = (case js_get (reg_leases r) newSessionId of
      None \<Rightarrow> False
    | Some target \<Rightarrow> target \<noteq> a \<and> \<not> lease_idle r target)"

definition lease_rebind :: "lease_registry \<Rightarrow> int \<Rightarrow> nat option \<Rightarrow> string \<Rightarrow> lease_error + lease_registry \<times> bool" where
  "lease_rebind r now token newSessionId = (case token of
      None \<Rightarrow> Inr (r, False)
    | Some t \<Rightarrow>
        if lt_released (token_at r t) \<or> newSessionId = '''' \<or> newSessionId = lt_sessionId (token_at r t)
        then Inr (r, False)
        else bind_result (boundedIdentity newSessionId) (\<lambda>_. Inr
          (case js_get (reg_leases r) (lt_sessionId (token_at r t)) of
             None \<Rightarrow> (r, False)
           | Some a \<Rightarrow>
               if sl_holder (lease_at r a) \<noteq> Some t then (r, False)
               else if rebind_refused r a newSessionId then (r, False)
               else (r\<lparr>reg_leases := js_set (reg_leases r) newSessionId a,
                       reg_objects := (reg_objects r)[a := (lease_at r a)\<lparr>sl_lastUsed := now\<rparr>],
                       reg_tokens := (reg_tokens r)[t := (token_at r t)\<lparr>lt_sessionId := newSessionId\<rparr>]\<rparr>, True))))"

section \<open>Runs\<close>

text \<open>
  A caller has a token once \<^verbatim>\<open>acquire\<close> has returned it: at once, or when its waiter is
  resolved. A token whose waiter is still queued or timed out was never given out.
\<close>

definition given_out :: "lease_registry \<Rightarrow> nat \<Rightarrow> bool" where
  "given_out r t \<longleftrightarrow> t < length (reg_tokens r) \<and>
     (\<forall>w < length (reg_waiters r). lw_token (waiter_at r w) = t \<longrightarrow> lw_outcome (waiter_at r w) = Resolved)"

definition live_token :: "lease_registry \<Rightarrow> nat \<Rightarrow> bool" where
  "live_token r t \<longleftrightarrow> given_out r t \<and> \<not> lt_released (token_at r t)"

inductive lease_step :: "lease_registry \<Rightarrow> lease_registry \<Rightarrow> bool" where
  step_acquire: "lease_acquire r now cap s owner g ms = Inr (r', res) \<Longrightarrow> lease_step r r'"
| step_timeout: "w < length (reg_waiters r) \<Longrightarrow> lease_step r (lease_timeout r w)"
| step_release: "given_out r t \<Longrightarrow> lease_release r now (Some t) = (r', ok) \<Longrightarrow> lease_step r r'"
| step_rebind: "given_out r t \<Longrightarrow> lease_rebind r now (Some t) s = Inr (r', ok) \<Longrightarrow> lease_step r r'"

inductive lease_reachable :: "lease_registry \<Rightarrow> bool" where
  reach_new: "registry_new m d = Inr r \<Longrightarrow> lease_reachable r"
| reach_step: "lease_reachable r \<Longrightarrow> lease_step r r' \<Longrightarrow> lease_reachable r'"

section \<open>The invariant\<close>

text \<open>A token that holds or waits for a lease: it exists, is not released, and its session id leads there.\<close>

definition bound_to :: "lease_registry \<Rightarrow> nat \<Rightarrow> nat \<Rightarrow> bool" where
  "bound_to r a t \<longleftrightarrow> t < length (reg_tokens r) \<and> \<not> lt_released (token_at r t) \<and>
     js_get (reg_leases r) (lt_sessionId (token_at r t)) = Some a"

definition lease_ok :: "lease_registry \<Rightarrow> nat \<Rightarrow> bool" where
  "lease_ok r a \<longleftrightarrow>
     (sl_holder (lease_at r a) = None \<longrightarrow> sl_waiters (lease_at r a) = []) \<and>
     distinct (sl_waiters (lease_at r a)) \<and>
     (\<forall>w \<in> set (sl_waiters (lease_at r a)). w < length (reg_waiters r) \<and> lw_lease (waiter_at r w) = a \<and>
        lw_outcome (waiter_at r w) = StillWaiting \<and> bound_to r a (lw_token (waiter_at r w))) \<and>
     (\<forall>t. sl_holder (lease_at r a) = Some t \<longrightarrow> bound_to r a t \<and> given_out r t)"

definition waiter_ok :: "lease_registry \<Rightarrow> nat \<Rightarrow> bool" where
  "waiter_ok r w \<longleftrightarrow> lw_token (waiter_at r w) < length (reg_tokens r) \<and>
     lw_lease (waiter_at r w) < length (reg_objects r) \<and>
     (lw_settled (waiter_at r w) \<longleftrightarrow> lw_outcome (waiter_at r w) \<noteq> StillWaiting) \<and>
     (lw_outcome (waiter_at r w) = StillWaiting \<longrightarrow> w \<in> set (sl_waiters (lease_at r (lw_lease (waiter_at r w)))))"

definition registry_inv :: "lease_registry \<Rightarrow> bool" where
  "registry_inv r \<longleftrightarrow> js_map_ok (reg_leases r) \<and>
     (\<forall>k a. js_get (reg_leases r) k = Some a \<longrightarrow> a < length (reg_objects r)) \<and>
     (\<forall>a < length (reg_objects r). lease_ok r a) \<and>
     (\<forall>w < length (reg_waiters r). waiter_ok r w) \<and>
     distinct (map lw_token (reg_waiters r)) \<and>
     (\<forall>t. live_token r t \<longrightarrow> (\<exists>a. js_get (reg_leases r) (lt_sessionId (token_at r t)) = Some a \<and>
        sl_holder (lease_at r a) = Some t))"


lemma registry_invD:
  assumes "registry_inv r"
  shows "js_map_ok (reg_leases r)"
    and "js_get (reg_leases r) k = Some a \<Longrightarrow> a < length (reg_objects r)"
    and "a < length (reg_objects r) \<Longrightarrow> lease_ok r a"
    and "w < length (reg_waiters r) \<Longrightarrow> waiter_ok r w"
    and "distinct (map lw_token (reg_waiters r))"
    and "live_token r t \<Longrightarrow> \<exists>a. js_get (reg_leases r) (lt_sessionId (token_at r t)) = Some a \<and>
        sl_holder (lease_at r a) = Some t"
  using assms by (auto simp: registry_inv_def)

lemma touch_fields [simp]:
  "sl_holder (xs[a := (xs ! a)\<lparr>sl_lastUsed := now\<rparr>] ! b) = sl_holder (xs ! b)"
  "sl_waiters (xs[a := (xs ! a)\<lparr>sl_lastUsed := now\<rparr>] ! b) = sl_waiters (xs ! b)"
  by (rule nth_update_field; simp)+

lemma registry_inv_touch:
  "registry_inv (r\<lparr>reg_objects := (reg_objects r)[a := (lease_at r a)\<lparr>sl_lastUsed := now\<rparr>]\<rparr>) \<longleftrightarrow> registry_inv r"
  by (simp add: registry_inv_def lease_ok_def waiter_ok_def bound_to_def given_out_def live_token_def)

lemma held_not_idle:
  assumes "lease_ok r a" "sl_holder (lease_at r a) \<noteq> None \<or> sl_waiters (lease_at r a) \<noteq> []"
  shows "\<not> lease_idle r a"
  using assms by (auto simp: lease_ok_def lease_idle_def)

section \<open>Eviction only drops idle leases\<close>

lemma get_delete_all:
  "js_map_ok m \<Longrightarrow> js_map_ok (foldl (\<lambda>m (k, _). js_delete m k) m dels) \<and>
   js_get (foldl (\<lambda>m (k, _). js_delete m k) m dels) k = (if k \<in> fst ` set dels then None else js_get m k)"
proof (induction dels arbitrary: m)
  case (Cons d dels)
  then show ?case by (cases d) (auto simp: js_get_delete)
qed simp

lemma evictIdle_eq: "evictIdle r = r\<lparr>reg_leases := reg_leases (evictIdle r)\<rparr>"
  by (simp add: evictIdle_def Let_def)

lemma evictIdle_get:
  assumes "js_map_ok (reg_leases r)"
  shows "js_map_ok (reg_leases (evictIdle r))"
    and "js_get (reg_leases (evictIdle r)) k = js_get (reg_leases r) k \<or>
      js_get (reg_leases (evictIdle r)) k = None \<and> (\<exists>a. js_get (reg_leases r) k = Some a \<and> lease_idle r a)"
proof -
  show "js_map_ok (reg_leases (evictIdle r))"
    using assms by (simp add: evictIdle_def Let_def get_delete_all)
  define idle where "idle = take (length (reg_leases r) + 1 - reg_maxEntries r)
    (sort_key (\<lambda>(_, a). sl_lastUsed (lease_at r a)) (filter (\<lambda>(_, a). lease_idle r a) (reg_leases r)))"
  have "\<exists>a. js_get (reg_leases r) k = Some a \<and> lease_idle r a" if "k \<in> fst ` set idle"
  proof -
    from that obtain a where "(k, a) \<in> set idle" by force
    then have "(k, a) \<in> set (filter (\<lambda>(_, a). lease_idle r a) (reg_leases r))"
      unfolding idle_def by (metis in_set_takeD set_sort_key)
    then show ?thesis using js_get_of_set [OF assms] by auto
  qed
  then show "js_get (reg_leases (evictIdle r)) k = js_get (reg_leases r) k \<or>
      js_get (reg_leases (evictIdle r)) k = None \<and> (\<exists>a. js_get (reg_leases r) k = Some a \<and> lease_idle r a)"
    using get_delete_all [OF assms, of idle k] by (auto simp: evictIdle_def Let_def idle_def)
qed

lemma registry_inv_shrink:
  assumes inv: "registry_inv r" and m: "js_map_ok m"
    and get: "\<And>k. js_get m k = js_get (reg_leases r) k \<or>
      js_get m k = None \<and> (\<exists>a. js_get (reg_leases r) k = Some a \<and> lease_idle r a)"
  shows "registry_inv (r\<lparr>reg_leases := m\<rparr>)"
proof -
  note D = registry_invD [OF inv]
  have keep: "js_get m k = Some a"
    if "js_get (reg_leases r) k = Some a" "sl_holder (lease_at r a) \<noteq> None \<or> sl_waiters (lease_at r a) \<noteq> []" for k a
    using get [of k] that held_not_idle [OF D(3) [OF D(2) [OF that(1)]] that(2)] by auto
  have "lease_ok (r\<lparr>reg_leases := m\<rparr>) a" if "a < length (reg_objects r)" for a
    using D(3) [OF that] keep by (auto simp: lease_ok_def bound_to_def given_out_def)
  moreover have "\<exists>a. js_get m (lt_sessionId (token_at r t)) = Some a \<and> sl_holder (lease_at r a) = Some t"
    if "live_token r t" for t using D(6) [OF that] keep by fastforce
  moreover have "js_get m k = Some a \<Longrightarrow> a < length (reg_objects r)" for k a
    using get [of k] D(2) by auto
  ultimately show ?thesis
    using inv m by (simp add: registry_inv_def waiter_ok_def given_out_def live_token_def)
qed

lemma registry_inv_evict: "registry_inv r \<Longrightarrow> registry_inv (evictIdle r)"
  by (subst evictIdle_eq, rule registry_inv_shrink) (simp_all add: evictIdle_get registry_invD(1))

section \<open>Acquire\<close>

lemma registry_inv_fresh:
  assumes inv: "registry_inv r" and "js_get (reg_leases r) s = None"
  shows "registry_inv (r\<lparr>reg_objects := reg_objects r @ [\<lparr>sl_holder = None, sl_waiters = [], sl_lastUsed = now\<rparr>],
    reg_leases := js_set (reg_leases r) s (length (reg_objects r))\<rparr>)" (is "registry_inv ?r'")
proof -
  note D = registry_invD [OF inv]
  have bound: "bound_to r a t \<Longrightarrow> bound_to ?r' a t" for a t using assms(2) by (auto simp: bound_to_def)
  have "lease_ok ?r' a" if "a < length (reg_objects ?r')" for a
  proof (cases "a = length (reg_objects r)")
    case False
    with that have "a < length (reg_objects r)" by simp
    with D(3) [OF this] bound show ?thesis by (simp add: lease_ok_def given_out_def nth_append)
  qed (simp add: lease_ok_def)
  moreover have "waiter_ok ?r' w" if "w < length (reg_waiters r)" for w
    using D(4) [OF that] by (simp add: waiter_ok_def nth_append less_Suc_eq)
  moreover have "\<exists>a. js_get (reg_leases ?r') (lt_sessionId (token_at r t)) = Some a \<and> sl_holder (lease_at ?r' a) = Some t"
    if "live_token r t" for t
    using D(6) [OF that] D(2) assms(2) by (fastforce simp: nth_append)
  ultimately show ?thesis
    using D by (auto simp: registry_inv_def given_out_def live_token_def less_Suc_eq)
qed

lemma getOrCreate_inv:
  assumes "registry_inv r" "getOrCreate r now s = (r', a)"
  shows "registry_inv r'" "js_get (reg_leases r') s = Some a"
proof -
  have "js_get (reg_leases (evictIdle r)) s = None" if "js_get (reg_leases r) s = None"
    using that evictIdle_get(2) [OF registry_invD(1) [OF assms(1)], of s] by auto
  then show "registry_inv r'"
    using assms registry_inv_fresh [OF registry_inv_evict [OF assms(1)]]
    by (auto simp: getOrCreate_def Let_def registry_inv_touch split: option.splits)
  show "js_get (reg_leases r') s = Some a"
    using assms(2) by (auto simp: getOrCreate_def Let_def split: option.splits)
qed

text \<open>Adding a token, and possibly a waiter for it, disturbs no other token.\<close>

lemma registry_inv_grant:
  assumes inv: "registry_inv r" and a: "js_get (reg_leases r) (lt_sessionId token) = Some a"
    and free: "sl_holder (lease_at r a) = None" and new: "\<not> lt_released token"
  shows "registry_inv (r\<lparr>reg_tokens := reg_tokens r @ [token],
    reg_objects := (reg_objects r)[a := (lease_at r a)\<lparr>sl_holder := Some (length (reg_tokens r)), sl_lastUsed := now\<rparr>]\<rparr>)"
    (is "registry_inv ?r'")
proof -
  note D = registry_invD [OF inv]
  have al: "a < length (reg_objects r)" using D(2) a .
  have wt: "w < length (reg_waiters r) \<Longrightarrow> lw_token (waiter_at r w) < length (reg_tokens r)" for w
    using D(4) by (auto simp: waiter_ok_def)
  have bound: "bound_to r b t \<Longrightarrow> bound_to ?r' b t" for b t by (auto simp: bound_to_def nth_append)
  have given: "given_out r t \<Longrightarrow> given_out ?r' t" for t by (auto simp: given_out_def)
  have given_new: "given_out ?r' (length (reg_tokens r))" using wt by (fastforce simp: given_out_def)
  have "lease_ok ?r' b" if "b < length (reg_objects r)" for b
  proof (cases "b = a")
    case True
    have "sl_waiters (lease_at r a) = []" using D(3) [OF al] free by (simp add: lease_ok_def)
    then show ?thesis using True al a new given_new by (simp add: lease_ok_def bound_to_def nth_append)
  next
    case False
    then show ?thesis using D(3) [OF that] bound given by (auto simp: lease_ok_def)
  qed
  moreover have "waiter_ok ?r' w" if "w < length (reg_waiters r)" for w
    using D(4) [OF that] al D(3) [OF al] free wt [OF that]
    by (cases "lw_lease (waiter_at r w) = a") (auto simp: waiter_ok_def lease_ok_def)
  moreover have "\<exists>b. js_get (reg_leases ?r') (lt_sessionId (token_at ?r' t)) = Some b \<and> sl_holder (lease_at ?r' b) = Some t"
    if "live_token ?r' t" for t
  proof (cases "t = length (reg_tokens r)")
    case False
    with that have "live_token r t" by (auto simp: live_token_def given_out_def nth_append)
    with D(6) obtain b where b: "js_get (reg_leases r) (lt_sessionId (token_at r t)) = Some b" "sl_holder (lease_at r b) = Some t"
      by blast
    then have "b \<noteq> a" using free by auto
    moreover have "t < length (reg_tokens r)" using \<open>live_token r t\<close> by (simp add: live_token_def given_out_def)
    ultimately show ?thesis using b by (simp add: nth_append)
  qed (use a al in simp)
  ultimately show ?thesis using D(1,2,5) by (simp add: registry_inv_def)
qed

lemma registry_inv_queue:
  assumes inv: "registry_inv r" and a: "js_get (reg_leases r) (lt_sessionId token) = Some a"
    and held: "sl_holder (lease_at r a) \<noteq> None" and new: "\<not> lt_released token"
  shows "registry_inv (r\<lparr>reg_tokens := reg_tokens r @ [token],
    reg_waiters := reg_waiters r @
      [\<lparr>lw_token = length (reg_tokens r), lw_settled = False, lw_outcome = StillWaiting, lw_lease = a\<rparr>],
    reg_objects := (reg_objects r)[a := (lease_at r a)\<lparr>sl_waiters := sl_waiters (lease_at r a) @ [length (reg_waiters r)]\<rparr>]\<rparr>)"
    (is "registry_inv ?r'")
proof -
  note D = registry_invD [OF inv]
  have al: "a < length (reg_objects r)" using D(2) a .
  have wt: "w < length (reg_waiters r) \<Longrightarrow> lw_token (waiter_at r w) < length (reg_tokens r)" for w
    using D(4) by (auto simp: waiter_ok_def)
  have bound: "bound_to r b t \<Longrightarrow> bound_to ?r' b t" for b t by (auto simp: bound_to_def nth_append)
  have given: "given_out ?r' t \<longleftrightarrow> given_out r t" for t
    using wt by (auto simp: given_out_def nth_append less_Suc_eq)
  have "lease_ok ?r' b" if "b < length (reg_objects r)" for b
  proof (cases "b = a")
    case True
    have "distinct (sl_waiters (lease_at r a) @ [length (reg_waiters r)])"
      using D(3) [OF al] by (auto simp: lease_ok_def)
    then show ?thesis
      using D(3) [OF al] True al held new a bound
      by (auto simp: lease_ok_def given nth_append) (auto simp: bound_to_def)
  next
    case False
    then show ?thesis using D(3) [OF that] bound by (auto simp: lease_ok_def given nth_append)
  qed
  moreover have "waiter_ok ?r' w" if "w < length (reg_waiters ?r')" for w
  proof (cases "w = length (reg_waiters r)")
    case False
    with that have w: "w < length (reg_waiters r)" by simp
    then show ?thesis
      using D(4) [OF w] al by (cases "lw_lease (waiter_at r w) = a") (auto simp: waiter_ok_def nth_append)
  qed (use al in \<open>simp add: waiter_ok_def\<close>)
  moreover have "\<exists>b. js_get (reg_leases ?r') (lt_sessionId (token_at ?r' t)) = Some b \<and> sl_holder (lease_at ?r' b) = Some t"
    if "live_token ?r' t" for t
  proof -
    have t: "t < length (reg_tokens r)" using that given by (auto simp: live_token_def given_out_def)
    then have "live_token r t" using that by (simp add: live_token_def given nth_append)
    with D(6) obtain b where "js_get (reg_leases r) (lt_sessionId (token_at r t)) = Some b" "sl_holder (lease_at r b) = Some t"
      by blast
    then show ?thesis using t al by (cases "b = a") (auto simp: nth_append)
  qed
  moreover have "distinct (map lw_token (reg_waiters ?r'))"
    using D(5) wt by (force simp: in_set_conv_nth)
  ultimately show ?thesis using D(1,2) by (simp add: registry_inv_def)
qed

lemma lease_acquire_inv:
  assumes "registry_inv r" "lease_acquire r now cap s owner g ms = Inr (r', res)"
  shows "registry_inv r'"
proof -
  obtain r1 a where r1: "getOrCreate r now s = (r1, a)" by fastforce
  with assms(2) obtain gen where
    r': "grant_or_queue r1 now a \<lparr>lt_sessionId = s, lt_ownerId = owner, lt_generation = gen,
        lt_capability = cap, lt_released = False\<rparr> = (r', res)"
    by (auto simp: lease_acquire_def bind_result_Inr_iff Let_def)
  note inv1 = getOrCreate_inv [OF assms(1) r1]
  show ?thesis
  proof (cases "sl_holder (lease_at r1 a) = None")
    case True
    then show ?thesis
      using r' registry_inv_grant [OF inv1(1), of "\<lparr>lt_sessionId = s, lt_ownerId = owner, lt_generation = gen,
        lt_capability = cap, lt_released = False\<rparr>" a now] inv1(2)
      by (auto simp: grant_or_queue_def Let_def)
  next
    case False
    then show ?thesis
      using r' registry_inv_queue [OF inv1(1), of "\<lparr>lt_sessionId = s, lt_ownerId = owner, lt_generation = gen,
        lt_capability = cap, lt_released = False\<rparr>" a] inv1(2)
      by (auto simp: grant_or_queue_def Let_def)
  qed
qed

section \<open>Timeouts\<close>

lemma lease_timeout_inv:
  assumes inv: "registry_inv r" and w: "w < length (reg_waiters r)"
  shows "registry_inv (lease_timeout r w)"
proof (cases "lw_settled (waiter_at r w)")
  case True
  then show ?thesis using inv by (simp add: lease_timeout_def)
next
  case False
  note D = registry_invD [OF inv]
  define a where "a = lw_lease (waiter_at r w)"
  let ?r' = "r\<lparr>reg_waiters := (reg_waiters r)[w := (waiter_at r w)\<lparr>lw_settled := True, lw_outcome := Rejected\<rparr>],
    reg_objects := (reg_objects r)[a := (lease_at r a)\<lparr>sl_waiters := remove1 w (sl_waiters (lease_at r a))\<rparr>]\<rparr>"
  have r': "lease_timeout r w = ?r'" using False by (simp add: lease_timeout_def a_def Let_def)
  have queued: "lw_outcome (waiter_at r w) = StillWaiting" "w \<in> set (sl_waiters (lease_at r a))" "a < length (reg_objects r)"
    using D(4) [OF w] False by (auto simp: waiter_ok_def a_def)
  have tok: "lw_token (waiter_at ?r' v) = lw_token (waiter_at r v)" for v by (simp add: nth_update_field)
  have lease: "lw_lease (waiter_at ?r' v) = lw_lease (waiter_at r v)" for v by (simp add: nth_update_field)
  have holder: "sl_holder (lease_at ?r' b) = sl_holder (lease_at r b)" for b by (simp add: nth_update_field)
  have given: "given_out ?r' t \<longleftrightarrow> given_out r t" for t
    using queued(1) w by (auto simp: given_out_def tok nth_list_update split: if_splits)
  have bound: "bound_to ?r' b t \<longleftrightarrow> bound_to r b t" for b t by (simp add: bound_to_def)
  have out: "lw_outcome (waiter_at ?r' v) = (if v = w then Rejected else lw_outcome (waiter_at r v))"
    and settled: "lw_settled (waiter_at ?r' v) \<longleftrightarrow> v = w \<or> lw_settled (waiter_at r v)" for v
    using w by (auto simp: nth_list_update)
  have queue: "set (sl_waiters (lease_at ?r' b)) = set (sl_waiters (lease_at r b)) - {w}" "distinct (sl_waiters (lease_at ?r' b))"
    if "b < length (reg_objects r)" for b
  proof -
    have dist: "distinct (sl_waiters (lease_at r b))" and own: "b \<noteq> a \<Longrightarrow> w \<notin> set (sl_waiters (lease_at r b))"
      using D(3) [OF that] by (auto simp: lease_ok_def a_def)
    have at: "sl_waiters (lease_at ?r' b) = (if b = a then remove1 w (sl_waiters (lease_at r b)) else sl_waiters (lease_at r b))"
      using queued(3) by simp
    show "set (sl_waiters (lease_at ?r' b)) = set (sl_waiters (lease_at r b)) - {w}"
      unfolding at using dist own by (cases "b = a") (simp_all add: set_remove1_eq)
    show "distinct (sl_waiters (lease_at ?r' b))" unfolding at using dist by (auto simp: distinct_remove1)
  qed
  have "lease_ok ?r' b" if "b < length (reg_objects r)" for b
  proof -
    have "sl_holder (lease_at r b) = None \<Longrightarrow> sl_waiters (lease_at ?r' b) = []"
      using D(3) [OF that] queue(1) [OF that] by (auto simp: lease_ok_def)
    then show ?thesis
      using D(3) [OF that] queue [OF that] unfolding lease_ok_def given bound tok lease out holder
      by auto
  qed
  moreover have "waiter_ok ?r' v" if "v < length (reg_waiters r)" for v
    using D(4) [OF that] queue(1) [of "lw_lease (waiter_at r v)"] unfolding waiter_ok_def tok lease out settled
    by auto
  moreover have "map lw_token (reg_waiters ?r') = map lw_token (reg_waiters r)"
    using tok by (simp add: list_eq_iff_nth_eq)
  moreover have "\<exists>b. js_get (reg_leases ?r') (lt_sessionId (token_at ?r' t)) = Some b \<and> sl_holder (lease_at ?r' b) = Some t"
    if "live_token ?r' t" for t
    using that D(6) [of t] holder by (auto simp: live_token_def given)
  ultimately show ?thesis using D(1,2,5) unfolding r' by (simp add: registry_inv_def)
qed

section \<open>Release\<close>

lemma skip_settled_id: "(\<And>w. w \<in> set ws \<Longrightarrow> \<not> lw_settled (store ! w)) \<Longrightarrow> skip_settled store ws = ws"
  by (cases ws) auto

lemma live_token_holder:
  assumes "registry_inv r" "live_token r t"
  obtains a where "js_get (reg_leases r) (lt_sessionId (token_at r t)) = Some a" "a < length (reg_objects r)"
    "sl_holder (lease_at r a) = Some t"
  using registry_invD(2,6) [OF assms(1)] assms(2) by blast

lemma queue_unsettled:
  assumes "registry_inv r" "a < length (reg_objects r)" "w \<in> set (sl_waiters (lease_at r a))"
  shows "w < length (reg_waiters r) \<and> \<not> lw_settled (waiter_at r w)"
  using registry_invD(3) [OF assms(1,2)] registry_invD(4) [OF assms(1), of w] assms(3)
  by (auto simp: lease_ok_def waiter_ok_def)

text \<open>What releasing a live token does: the lease passes to the oldest waiter, if there is one.\<close>

definition released_to :: "lease_registry \<Rightarrow> int \<Rightarrow> nat \<Rightarrow> nat \<Rightarrow> lease_registry" where
  "released_to r now a t =
     (let r1 = r\<lparr>reg_tokens := (reg_tokens r)[t := (token_at r t)\<lparr>lt_released := True\<rparr>]\<rparr> in
      case sl_waiters (lease_at r a) of
        [] \<Rightarrow> r1\<lparr>reg_objects := (reg_objects r)[a := (lease_at r a)\<lparr>sl_holder := None, sl_lastUsed := now, sl_waiters := []\<rparr>]\<rparr>
      | w # queue \<Rightarrow>
          r1\<lparr>reg_waiters := (reg_waiters r)[w := (waiter_at r w)\<lparr>lw_settled := True, lw_outcome := Resolved\<rparr>],
             reg_objects := (reg_objects r)[a := (lease_at r a)\<lparr>sl_waiters := queue,
               sl_holder := Some (lw_token (waiter_at r w)), sl_lastUsed := now\<rparr>]\<rparr>)"

lemma lease_release_live:
  assumes inv: "registry_inv r" and live: "live_token r t"
    and a: "js_get (reg_leases r) (lt_sessionId (token_at r t)) = Some a"
  shows "lease_release r now (Some t) = (released_to r now a t, True)"
proof -
  obtain a' where a': "a' = a" "a < length (reg_objects r)" "sl_holder (lease_at r a) = Some t"
    using live_token_holder [OF inv live] a by auto
  have t: "t < length (reg_tokens r)" "\<not> lt_released (token_at r t)"
    using live by (auto simp: live_token_def given_out_def)
  have skip: "skip_settled (reg_waiters r) (sl_waiters (lease_at r a)) = sl_waiters (lease_at r a)"
    by (rule skip_settled_id) (use queue_unsettled [OF inv a'(2)] in auto)
  show ?thesis
  proof (cases "sl_waiters (lease_at r a)")
    case Nil
    then show ?thesis
      using a a' t skip by (simp add: lease_release_def Let_def grantNext_def released_to_def)
  next
    case (Cons w queue)
    then show ?thesis
      using a a' t skip by (simp add: lease_release_def Let_def grantNext_def released_to_def)
  qed
qed

text \<open>The release of a live token, for both shapes of the queue.\<close>

lemma released_to_inv:
  assumes inv: "registry_inv r" and live: "live_token r t"
    and a: "js_get (reg_leases r) (lt_sessionId (token_at r t)) = Some a"
  shows "registry_inv (released_to r now a t)" (is "registry_inv ?r'")
proof -
  note D = registry_invD [OF inv]
  have al: "a < length (reg_objects r)" and hold: "sl_holder (lease_at r a) = Some t"
    using live_token_holder [OF inv live] a by auto
  have t: "t < length (reg_tokens r)" "given_out r t" using live by (auto simp: live_token_def given_out_def)
  note ok = D(3) [OF al, unfolded lease_ok_def]
  define next_w where "next_w = (case sl_waiters (lease_at r a) of [] \<Rightarrow> None | w # _ \<Rightarrow> Some w)"
  have nw: "w < length (reg_waiters r)" "lw_outcome (waiter_at r w) = StillWaiting" "bound_to r a (lw_token (waiter_at r w))"
    if "next_w = Some w" for w
    using that ok by (auto simp: next_w_def split: list.splits)
  have fields: "reg_leases ?r' = reg_leases r" "length (reg_objects ?r') = length (reg_objects r)"
      "length (reg_waiters ?r') = length (reg_waiters r)" "length (reg_tokens ?r') = length (reg_tokens r)"
    by (simp_all add: released_to_def Let_def split: list.splits)
  have sid: "lt_sessionId (token_at ?r' u) = lt_sessionId (token_at r u)"
    and rel: "lt_released (token_at ?r' u) \<longleftrightarrow> u = t \<or> lt_released (token_at r u)" for u
    using t by (simp_all add: released_to_def Let_def nth_list_update split: list.splits)
  have tok: "lw_token (waiter_at ?r' v) = lw_token (waiter_at r v)"
    and lease: "lw_lease (waiter_at ?r' v) = lw_lease (waiter_at r v)" for v
    by (simp_all add: released_to_def Let_def nth_update_field split: list.splits)
  have out: "lw_outcome (waiter_at ?r' v) = (if next_w = Some v then Resolved else lw_outcome (waiter_at r v))"
    and settled: "lw_settled (waiter_at ?r' v) \<longleftrightarrow> next_w = Some v \<or> lw_settled (waiter_at r v)" for v
    using nw(1) by (auto simp: released_to_def Let_def next_w_def nth_list_update split: list.splits)
  have other: "b \<noteq> a \<Longrightarrow> lease_at ?r' b = lease_at r b" for b
    by (simp add: released_to_def Let_def split: list.splits)
  have at_a: "sl_holder (lease_at ?r' a) = map_option (\<lambda>w. lw_token (waiter_at r w)) next_w"
      "sl_waiters (lease_at ?r' a) = tl (sl_waiters (lease_at r a))"
    using al by (simp_all add: released_to_def Let_def next_w_def split: list.splits)
  have inj: "v = w" if "v < length (reg_waiters r)" "w < length (reg_waiters r)"
      "lw_token (waiter_at r v) = lw_token (waiter_at r w)" for v w
    using D(5) that by (simp add: distinct_conv_nth) (metis length_map nth_map)
  have fresh_holder: "lw_token (waiter_at r w) \<noteq> t" if "next_w = Some w" for w
    using nw [OF that] t(2) by (auto simp: given_out_def)
  have given: "given_out ?r' u \<longleftrightarrow> given_out r u \<or> (\<exists>w. next_w = Some w \<and> u = lw_token (waiter_at r w))" for u
  proof -
    have "given_out ?r' u \<longleftrightarrow> u < length (reg_tokens r) \<and>
        (\<forall>v < length (reg_waiters r). lw_token (waiter_at r v) = u \<longrightarrow> next_w = Some v \<or> lw_outcome (waiter_at r v) = Resolved)"
      unfolding given_out_def fields tok out by auto
    also have "\<dots> \<longleftrightarrow> given_out r u \<or> (\<exists>w. next_w = Some w \<and> u = lw_token (waiter_at r w))"
      using nw(1,3) inj unfolding given_out_def bound_to_def by (cases next_w) blast+
    finally show ?thesis .
  qed
  have bound: "bound_to r b u \<Longrightarrow> u \<noteq> t \<Longrightarrow> bound_to ?r' b u" for b u
    by (simp add: bound_to_def fields sid rel)
  have waiting: "lw_token (waiter_at r v) \<noteq> t" if "v < length (reg_waiters r)" "lw_outcome (waiter_at r v) = StillWaiting" for v
    using that t(2) by (auto simp: given_out_def)
  have "lease_ok ?r' b" if b: "b < length (reg_objects r)" for b
  proof (cases "b = a")
    case True
    have "distinct (sl_waiters (lease_at r a))" using ok by blast
    then have tl: "distinct (tl (sl_waiters (lease_at r a)))" "v \<in> set (tl (sl_waiters (lease_at r a))) \<Longrightarrow>
        v \<in> set (sl_waiters (lease_at r a)) \<and> next_w \<noteq> Some v" for v
      by (cases "sl_waiters (lease_at r a)"; auto simp: next_w_def)+
    have none: "next_w = None \<Longrightarrow> sl_waiters (lease_at r a) = []" by (simp add: next_w_def split: list.splits)
    show ?thesis
      unfolding True lease_ok_def at_a fields lease out tok
      using tl none ok bound waiting given nw(3) fresh_holder by auto
  next
    case False
    have "u \<noteq> t" if "sl_holder (lease_at r b) = Some u" for u
      using that D(3) [OF b] a False by (auto simp: lease_ok_def bound_to_def)
    moreover have "next_w \<noteq> Some v" if "v \<in> set (sl_waiters (lease_at r b))" for v
      using that D(3) [OF b] ok False by (auto simp: lease_ok_def next_w_def split: list.splits)
    ultimately show ?thesis
      unfolding lease_ok_def other [OF False] fields lease out tok
      using D(3) [OF b] bound waiting given by (auto simp: lease_ok_def)
  qed
  moreover have "waiter_ok ?r' v" if v: "v < length (reg_waiters r)" for v
  proof -
    have "v \<in> set (sl_waiters (lease_at ?r' (lw_lease (waiter_at r v))))"
      if "next_w \<noteq> Some v" "lw_outcome (waiter_at r v) = StillWaiting"
      using D(4) [OF v] that other at_a
      by (cases "lw_lease (waiter_at r v) = a"; cases "sl_waiters (lease_at r a)") (auto simp: waiter_ok_def next_w_def)
    then show ?thesis
      using D(4) [OF v] nw(2) unfolding waiter_ok_def tok lease out settled fields by auto
  qed
  moreover have "map lw_token (reg_waiters ?r') = map lw_token (reg_waiters r)"
    using tok fields by (simp add: list_eq_iff_nth_eq)
  moreover have "\<exists>b. js_get (reg_leases ?r') (lt_sessionId (token_at ?r' u)) = Some b \<and> sl_holder (lease_at ?r' b) = Some u"
    if u: "live_token ?r' u" for u
  proof (cases "\<exists>w. next_w = Some w \<and> u = lw_token (waiter_at r w)")
    case True
    then show ?thesis using nw(3) by (auto simp: fields sid at_a bound_to_def)
  next
    case False
    with u have "live_token r u" "u \<noteq> t" by (auto simp: live_token_def given rel)
    with D(6) obtain b where b: "js_get (reg_leases r) (lt_sessionId (token_at r u)) = Some b" "sl_holder (lease_at r b) = Some u"
      by blast
    moreover from this hold \<open>u \<noteq> t\<close> have "b \<noteq> a" by auto
    ultimately show ?thesis using other by (auto simp: fields sid)
  qed
  ultimately show ?thesis using D(1,2,5) by (simp add: registry_inv_def fields)
qed

lemma lease_release_inv:
  assumes inv: "registry_inv r" and "given_out r t" "lease_release r now (Some t) = (r', ok)"
  shows "registry_inv r'"
proof (cases "live_token r t")
  case True
  with registry_invD(6) [OF inv] obtain a where a: "js_get (reg_leases r) (lt_sessionId (token_at r t)) = Some a" by blast
  then show ?thesis
    using lease_release_live [OF inv True a, of now] released_to_inv [OF inv True a, of now] assms(3) by simp
next
  case False
  with assms(2) have "lt_released (token_at r t)" by (simp add: live_token_def)
  then show ?thesis using inv assms(3) by (simp add: lease_release_def)
qed

section \<open>Rebind\<close>

lemma lease_rebind_inv:
  assumes inv: "registry_inv r" and "given_out r t" and rebind: "lease_rebind r now (Some t) s = Inr (r', ok)"
  shows "registry_inv r'"
proof (cases ok)
  case False
  then have "r' = r"
    using rebind by (auto simp: lease_rebind_def bind_result_Inr_iff split: if_splits option.splits)
  then show ?thesis using inv by simp
next
  case True
  with rebind obtain a where a: "js_get (reg_leases r) (lt_sessionId (token_at r t)) = Some a"
      "sl_holder (lease_at r a) = Some t" "\<not> lt_released (token_at r t)" "\<not> rebind_refused r a s"
    and r': "r' = r\<lparr>reg_leases := js_set (reg_leases r) s a,
                     reg_objects := (reg_objects r)[a := (lease_at r a)\<lparr>sl_lastUsed := now\<rparr>],
                     reg_tokens := (reg_tokens r)[t := (token_at r t)\<lparr>lt_sessionId := s\<rparr>]\<rparr>"
    by (auto simp: lease_rebind_def bind_result_Inr_iff split: if_splits option.splits)
  let ?r1 = "r\<lparr>reg_leases := js_set (reg_leases r) s a, reg_tokens := (reg_tokens r)[t := (token_at r t)\<lparr>lt_sessionId := s\<rparr>]\<rparr>"
  note D = registry_invD [OF inv]
  have al: "a < length (reg_objects r)" using D(2) a(1) .
  have t: "t < length (reg_tokens r)" using assms(2) by (simp add: given_out_def)
  have sid: "lt_sessionId (token_at ?r1 u) = (if u = t then s else lt_sessionId (token_at r u))"
    and rel: "lt_released (token_at ?r1 u) = lt_released (token_at r u)" for u
    using t by (auto simp: nth_list_update)
  have given: "given_out ?r1 u = given_out r u" for u by (simp add: given_out_def)
  have keep: "js_get (js_set (reg_leases r) s a) k = Some b"
    if "js_get (reg_leases r) k = Some b" "sl_holder (lease_at r b) \<noteq> None \<or> sl_waiters (lease_at r b) \<noteq> []" for k b
    using that a(4) held_not_idle [OF D(3) [OF D(2) [OF that(1)]] that(2)] by (auto simp: rebind_refused_def)
  have holder_t: "b = a" if "sl_holder (lease_at r b) = Some t" "b < length (reg_objects r)" for b
    using D(3) [OF that(2)] that(1) a(1) by (auto simp: lease_ok_def bound_to_def)
  have bound: "bound_to ?r1 b u" if "bound_to r b u" "sl_holder (lease_at r b) \<noteq> None \<or> sl_waiters (lease_at r b) \<noteq> []"
      "u = t \<Longrightarrow> b = a" for b u
  proof -
    have "js_get (js_set (reg_leases r) s a) (lt_sessionId (token_at r u)) = Some b"
      using that(1,2) by (intro keep) (auto simp: bound_to_def)
    then show ?thesis using that(1,3) unfolding bound_to_def sid rel by auto
  qed
  have "lease_ok ?r1 b" if b: "b < length (reg_objects r)" for b
  proof -
    have w: "lw_token (waiter_at r w) \<noteq> t" if "w \<in> set (sl_waiters (lease_at r b))" for w
      using that D(3) [OF b] assms(2) by (auto simp: lease_ok_def given_out_def)
    show ?thesis
      using D(3) [OF b] bound w holder_t [OF _ b] unfolding lease_ok_def given by (auto; fastforce)
  qed
  moreover have "\<exists>b. js_get (reg_leases ?r1) (lt_sessionId (token_at ?r1 u)) = Some b \<and> sl_holder (lease_at r b) = Some u"
    if u: "live_token ?r1 u" for u
  proof (cases "u = t")
    case False
    from u have "live_token r u" unfolding live_token_def given rel by simp
    with D(6) obtain b where "js_get (reg_leases r) (lt_sessionId (token_at r u)) = Some b" "sl_holder (lease_at r b) = Some u"
      by blast
    then show ?thesis using keep False unfolding sid by auto
  qed (use a sid in auto)
  ultimately have "registry_inv ?r1"
    using D al by (auto simp: registry_inv_def waiter_ok_def)
  moreover have "r' = ?r1\<lparr>reg_objects := (reg_objects ?r1)[a := (lease_at ?r1 a)\<lparr>sl_lastUsed := now\<rparr>]\<rparr>"
    using r' by simp
  ultimately show ?thesis using registry_inv_touch [of ?r1 a now] by simp
qed

lemma registry_new_inv: "registry_new m d = Inr r \<Longrightarrow> registry_inv r"
  by (auto simp: registry_new_def bind_result_Inr_iff registry_inv_def live_token_def given_out_def)

lemma lease_step_inv: "lease_step r r' \<Longrightarrow> registry_inv r \<Longrightarrow> registry_inv r'"
  by (induction rule: lease_step.induct)
    (auto intro: lease_acquire_inv lease_timeout_inv lease_release_inv lease_rebind_inv)

lemma lease_reachable_inv: "lease_reachable r \<Longrightarrow> registry_inv r"
  by (induction rule: lease_reachable.induct) (auto intro: registry_new_inv lease_step_inv)

section \<open>What callers can rely on\<close>

text \<open>
  A run for the examples below: owner \<^verbatim>\<open>a\<close> takes session \<^verbatim>\<open>s\<close>, owner \<^verbatim>\<open>b\<close> queues for it,
  and owner \<^verbatim>\<open>c\<close> takes session \<^verbatim>\<open>u\<close>.
\<close>

definition demo_token :: "string \<Rightarrow> string \<Rightarrow> lease_token" where
  "demo_token s owner = \<lparr>lt_sessionId = s, lt_ownerId = owner, lt_generation = 1, lt_capability = ''k'', lt_released = False\<rparr>"

definition lease_demo :: lease_registry where
  "lease_demo = \<lparr>reg_leases = [(''s'', 0), (''u'', 1)],
     reg_objects = [\<lparr>sl_holder = Some 0, sl_waiters = [0], sl_lastUsed = 2\<rparr>, \<lparr>sl_holder = Some 2, sl_waiters = [], sl_lastUsed = 3\<rparr>],
     reg_tokens = [demo_token ''s'' ''a'', demo_token ''s'' ''b'', demo_token ''u'' ''c''],
     reg_waiters = [\<lparr>lw_token = 1, lw_settled = False, lw_outcome = StillWaiting, lw_lease = 0\<rparr>],
     reg_maxEntries = 2\<rparr>"

lemmas lease_run_defs = registry_new_def lease_acquire_def boundedIdentity_def getOrCreate_def grant_or_queue_def
  evictIdle_def Let_def

lemma lease_demo_reachable: "lease_reachable lease_demo"
proof -
  obtain r0 where r0: "registry_new 2 (Some (Dec 0 0)) = Inr r0" by (simp add: registry_new_def)
  obtain r1 x where r1: "lease_acquire r0 1 ''k'' ''s'' ''a'' (JsInt 1) (Some (Dec 5 0)) = Inr (r1, x)"
    using r0 by (auto simp: lease_run_defs)
  obtain r2 y where r2: "lease_acquire r1 2 ''k'' ''s'' ''b'' (JsInt 1) (Some (Dec 5 0)) = Inr (r2, y)"
    using r0 r1 by (auto simp: lease_run_defs)
  obtain r3 z where r3: "lease_acquire r2 3 ''k'' ''u'' ''c'' (JsInt 1) (Some (Dec 5 0)) = Inr (r3, z)"
    using r0 r1 r2 by (auto simp: lease_run_defs)
  have "r3 = lease_demo"
    using r0 r1 r2 r3 by (auto simp: lease_run_defs lease_demo_def demo_token_def)
  moreover have "lease_reachable r3"
    using r0 r1 r2 r3 by (meson reach_new reach_step step_acquire)
  ultimately show ?thesis by simp
qed

lemma lease_demo_live: "live_token lease_demo 0 \<and> live_token lease_demo 2"
  by (simp add: live_token_def given_out_def lease_demo_def demo_token_def)

text \<open>
  C7. At most one turn at a time for a session: in every state that calls and timers can
  lead to, two different tokens that callers hold and have not released are for
  different sessions.
\<close>

theorem turn_exclusive:
  assumes "lease_reachable r" "live_token r t" "live_token r u" "t \<noteq> u"
  shows "lt_sessionId (token_at r t) \<noteq> lt_sessionId (token_at r u)"
  using registry_invD(6) [OF lease_reachable_inv [OF assms(1)] assms(2)]
    registry_invD(6) [OF lease_reachable_inv [OF assms(1)] assms(3)] assms(4) by auto

theorem turn_exclusive_witness: "lt_sessionId (token_at lease_demo 0) \<noteq> lt_sessionId (token_at lease_demo 2)"
  using turn_exclusive [OF lease_demo_reachable, of 0 2] lease_demo_live by simp

text \<open>
  Releasing a token that is held always succeeds and passes the lease to the caller
  that has waited longest, or leaves it free when nobody waits.
\<close>

lemma release_hands_over:
  assumes "lease_reachable r" "live_token r t"
  shows "\<exists>r' a. lease_release r now (Some t) = (r', True) \<and>
     js_get (reg_leases r) (lt_sessionId (token_at r t)) = Some a \<and> \<not> live_token r' t \<and>
     (case sl_waiters (lease_at r a) of
        [] \<Rightarrow> sl_holder (lease_at r' a) = None
      | w # queue \<Rightarrow> sl_holder (lease_at r' a) = Some (lw_token (waiter_at r w)) \<and>
          live_token r' (lw_token (waiter_at r w)) \<and> sl_waiters (lease_at r' a) = queue)"
proof -
  note inv = lease_reachable_inv [OF assms(1)]
  obtain a where a: "js_get (reg_leases r) (lt_sessionId (token_at r t)) = Some a" "a < length (reg_objects r)"
    using live_token_holder [OF inv assms(2)] by blast
  have t: "t < length (reg_tokens r)" using assms(2) by (simp add: live_token_def given_out_def)
  let ?r' = "released_to r now a t"
  have dead: "\<not> live_token ?r' t" using t by (simp add: live_token_def released_to_def Let_def split: list.splits)
  have "lease_ok ?r' a"
    using released_to_inv [OF inv assms(2) a(1)] a(2) registry_invD(3)
    by (auto simp: released_to_def Let_def split: list.splits)
  then have "case sl_waiters (lease_at r a) of
        [] \<Rightarrow> sl_holder (lease_at ?r' a) = None
      | w # queue \<Rightarrow> sl_holder (lease_at ?r' a) = Some (lw_token (waiter_at r w)) \<and>
          live_token ?r' (lw_token (waiter_at r w)) \<and> sl_waiters (lease_at ?r' a) = queue"
    using a(2) by (auto simp: released_to_def Let_def lease_ok_def bound_to_def live_token_def split: list.splits)
  then show ?thesis using lease_release_live [OF inv assms(2) a(1)] a(1) dead by blast
qed

text \<open>
  Nobody waits for a free lease: while a caller's promise is pending, it is queued on
  a lease whose holder is a token that a caller has and has not released, so that a
  release (or its own timeout) is still to come.
\<close>

lemma waiter_has_live_holder:
  assumes "lease_reachable r" "w < length (reg_waiters r)" "lw_outcome (waiter_at r w) = StillWaiting"
  shows "\<exists>t. sl_holder (lease_at r (lw_lease (waiter_at r w))) = Some t \<and> live_token r t \<and>
     w \<in> set (sl_waiters (lease_at r (lw_lease (waiter_at r w))))"
proof -
  note D = registry_invD [OF lease_reachable_inv [OF assms(1)]]
  have a: "lw_lease (waiter_at r w) < length (reg_objects r)" "w \<in> set (sl_waiters (lease_at r (lw_lease (waiter_at r w))))"
    using D(4) [OF assms(2)] assms(3) by (simp_all add: waiter_ok_def)
  note ok = D(3) [OF a(1), unfolded lease_ok_def]
  have "sl_waiters (lease_at r (lw_lease (waiter_at r w))) \<noteq> []" using a(2) by auto
  with conjunct1 [OF ok] obtain t where t: "sl_holder (lease_at r (lw_lease (waiter_at r w))) = Some t" by blast
  then have "bound_to r (lw_lease (waiter_at r w)) t \<and> given_out r t" using ok by blast
  then have "live_token r t" by (simp add: live_token_def bound_to_def)
  with t a(2) show ?thesis by blast
qed

end
