(* ===== verification/Completion_Queue.thy ===== *)
theory Completion_Queue
  imports Recode_Prelude
begin

text \<open>
  \<^verbatim>\<open>MaestroCompletionQueue\<close> of \<^verbatim>\<open>packages/orchestrator/src/completion-queue.ts\<close>, with the record types
  of \<^verbatim>\<open>packages/orchestrator/src/types.ts\<close>: results of finished children, kept until their parent
  acknowledges them. Every method loads the records, works on the loaded copies and saves
  them, so the state is the list that was saved last; a storage returns what it was given.
  A method can save and then throw, so results are a state and a value or an error.

  A time stamp in a record is the instant \<^verbatim>\<open>Date.parse\<close> reads from it or a text it cannot
  read, which compares as NaN does.
\<close>

section \<open>Records\<close>

datatype timestamp = Stamp int | BadStamp string

datatype completion_terminal_state =
  SUCCEEDED | FAILED | INTERRUPTED | CANCELLED | UnsupportedTerminal string

datatype delivery_state = PendingDelivery | ClaimedDelivery | AcknowledgedDelivery

record completion_record =
  cr_id :: string
  cr_parentInstanceId :: "string option"
  cr_parentSessionId :: "string option"
  cr_childInstanceId :: string
  cr_childSessionId :: "string option"
  cr_terminalState :: completion_terminal_state
  cr_summary :: "string option"
  cr_resultHash :: string
  cr_completedAt :: timestamp
  cr_createdAt :: timestamp
  cr_deliveryState :: delivery_state
  cr_claimOwner :: "string option"
  cr_claimGeneration :: int
  cr_claimedAt :: "timestamp option"
  cr_acknowledgedAt :: "timestamp option"

record enqueue_input =
  ei_parentInstanceId :: "string option"
  ei_parentSessionId :: "string option"
  ei_childInstanceId :: string
  ei_childSessionId :: "string option"
  ei_terminalState :: completion_terminal_state
  ei_summary :: "string option"
  ei_resultHash :: string
  ei_completedAt :: timestamp

record parent_identity =
  pi_instanceId :: "string option"
  pi_sessionId :: "string option"

record completion_claim =
  cc_record :: completion_record
  cc_owner :: string
  cc_generation :: int

record queue_options =
  qo_claimLeaseMs :: int
  qo_retentionMs :: int
  qo_maxEntries :: nat

datatype queue_error =
  QueueIdentity | QueueParentRequired | QueueTerminalState | QueueHash | QueueTimestamp |
  QueueConflict | QueueCapacity | QueueLimit | QueueOption

definition queue_new :: "int \<Rightarrow> int \<Rightarrow> int \<Rightarrow> queue_error + queue_options" where
  "queue_new claimLeaseMs retentionMs maxEntries =
     bind_result (guard_result (0 \<le> claimLeaseMs \<and> 0 \<le> retentionMs) QueueOption) (\<lambda>_.
     bind_result (guard_result (1 \<le> maxEntries \<and> maxEntries \<le> 1024) QueueOption) (\<lambda>_.
     Inr \<lparr>qo_claimLeaseMs = claimLeaseMs, qo_retentionMs = retentionMs, qo_maxEntries = nat maxEntries\<rparr>))"

section \<open>Checks\<close>

definition requireBoundedIdentity :: "string option \<Rightarrow> bool \<Rightarrow> queue_error + unit" where
  "requireBoundedIdentity v required = (case v of
      None \<Rightarrow> guard_result (\<not> required) QueueIdentity
    | Some s \<Rightarrow> guard_result (s \<noteq> '''' \<and> length s \<le> 512) QueueIdentity)"

definition matchesParent :: "completion_record \<Rightarrow> parent_identity \<Rightarrow> bool" where
  "matchesParent r parent \<longleftrightarrow>
     (if cr_parentInstanceId r \<noteq> None then cr_parentInstanceId r = pi_instanceId parent
      else cr_parentSessionId r = pi_sessionId parent)"

definition is_sha256 :: "string \<Rightarrow> bool" where
  "is_sha256 h \<longleftrightarrow> length h = 64 \<and> list_all (\<lambda>c. c \<in> set ''abcdef0123456789'') h"

definition validateInput :: "enqueue_input \<Rightarrow> queue_error + unit" where
  "validateInput i =
     bind_result (requireBoundedIdentity (ei_parentInstanceId i) False) (\<lambda>_.
     bind_result (requireBoundedIdentity (ei_parentSessionId i) False) (\<lambda>_.
     bind_result (guard_result (truthy (ei_parentInstanceId i) \<or> truthy (ei_parentSessionId i)) QueueParentRequired) (\<lambda>_.
     bind_result (requireBoundedIdentity (Some (ei_childInstanceId i)) True) (\<lambda>_.
     bind_result (requireBoundedIdentity (ei_childSessionId i) False) (\<lambda>_.
     bind_result (guard_result (ei_terminalState i \<in> {SUCCEEDED, FAILED, INTERRUPTED, CANCELLED}) QueueTerminalState) (\<lambda>_.
     bind_result (guard_result (is_sha256 (ei_resultHash i)) QueueHash) (\<lambda>_.
     guard_result (case ei_completedAt i of Stamp _ \<Rightarrow> True | BadStamp _ \<Rightarrow> False) QueueTimestamp)))))))"

section \<open>Operations\<close>

type_synonym queue_state = "completion_record list"

text \<open>\<^verbatim>\<open>Date.parse(s) >= bound\<close>\<close>

definition stamp_ge :: "timestamp \<Rightarrow> int \<Rightarrow> bool" where
  "stamp_ge s bound \<longleftrightarrow> (case s of Stamp t \<Rightarrow> bound \<le> t | BadStamp _ \<Rightarrow> False)"

definition retained :: "queue_options \<Rightarrow> int \<Rightarrow> completion_record \<Rightarrow> bool" where
  "retained opts now r \<longleftrightarrow> cr_deliveryState r \<noteq> AcknowledgedDelivery \<or> cr_acknowledgedAt r = None \<or>
     (case cr_acknowledgedAt r of None \<Rightarrow> True | Some s \<Rightarrow> stamp_ge s (now - qo_retentionMs opts))"

text \<open>The filtered records are saved when they differ in number, which makes them the state either way.\<close>

definition cleanupAcknowledged :: "queue_options \<Rightarrow> int \<Rightarrow> queue_state \<Rightarrow> queue_state" where
  "cleanupAcknowledged opts now records = filter (retained opts now) records"

definition max_summary_chars :: nat where
  "max_summary_chars = 4000"

definition bounded_summary :: "string option \<Rightarrow> string option" where
  "bounded_summary s = (case s of
      None \<Rightarrow> None
    | Some t \<Rightarrow> let cut = take max_summary_chars (js_trim t) in if cut = '''' then None else Some cut)"

definition completion_of :: "enqueue_input \<Rightarrow> string \<Rightarrow> int \<Rightarrow> completion_record" where
  "completion_of i uuid createdAt = \<lparr>cr_id = uuid, cr_parentInstanceId = ei_parentInstanceId i,
     cr_parentSessionId = ei_parentSessionId i, cr_childInstanceId = ei_childInstanceId i,
     cr_childSessionId = ei_childSessionId i, cr_terminalState = ei_terminalState i,
     cr_summary = bounded_summary (ei_summary i), cr_resultHash = ei_resultHash i,
     cr_completedAt = ei_completedAt i, cr_createdAt = Stamp createdAt,
     cr_deliveryState = PendingDelivery, cr_claimOwner = None, cr_claimGeneration = 0,
     cr_claimedAt = None, cr_acknowledgedAt = None\<rparr>"

definition unacknowledged :: "completion_record \<Rightarrow> bool" where
  "unacknowledged r \<longleftrightarrow> cr_deliveryState r \<noteq> AcknowledgedDelivery"

definition conflicts :: "completion_record \<Rightarrow> enqueue_input \<Rightarrow> bool" where
  "conflicts r i \<longleftrightarrow> cr_resultHash r \<noteq> ei_resultHash i \<or>
     cr_parentInstanceId r \<noteq> ei_parentInstanceId i \<or> cr_parentSessionId r \<noteq> ei_parentSessionId i"

text \<open>\<open>now\<close> is the clock's reading for the clean-up, \<open>createdAt\<close> the later one for the record.\<close>

definition queue_enqueue :: "queue_options \<Rightarrow> int \<Rightarrow> int \<Rightarrow> string \<Rightarrow> enqueue_input \<Rightarrow> queue_state
    \<Rightarrow> queue_state \<times> (queue_error + completion_record)" where
  "queue_enqueue opts now createdAt uuid i st = (case validateInput i of
      Inl e \<Rightarrow> (st, Inl e)
    | Inr _ \<Rightarrow>
        let records = cleanupAcknowledged opts now st in
        (case find (\<lambda>r. cr_childInstanceId r = ei_childInstanceId i) records of
           Some existing \<Rightarrow> if conflicts existing i then (records, Inl QueueConflict) else (records, Inr existing)
         | None \<Rightarrow>
             let records' = (if length records \<ge> qo_maxEntries opts then filter unacknowledged records else records) in
             if length records' \<ge> qo_maxEntries opts then (records', Inl QueueCapacity)
             else let r = completion_of i uuid createdAt in (records' @ [r], Inr r)))"

text \<open>A record that somebody else holds a claim on whose lease has not run out.\<close>

definition held_by_other :: "queue_options \<Rightarrow> int \<Rightarrow> string \<Rightarrow> completion_record \<Rightarrow> bool" where
  "held_by_other opts now owner r \<longleftrightarrow> cr_deliveryState r = ClaimedDelivery \<and> cr_claimOwner r \<noteq> Some owner \<and>
     (case cr_claimedAt r of Some (Stamp t) \<Rightarrow> t + qo_claimLeaseMs opts > now | _ \<Rightarrow> False)"

definition claimed_by :: "string \<Rightarrow> int \<Rightarrow> completion_record \<Rightarrow> completion_record" where
  "claimed_by owner now r = r\<lparr>cr_deliveryState := ClaimedDelivery, cr_claimOwner := Some owner,
     cr_claimGeneration := cr_claimGeneration r + 1, cr_claimedAt := Some (Stamp now), cr_acknowledgedAt := None\<rparr>"

fun claim_loop :: "queue_options \<Rightarrow> int \<Rightarrow> parent_identity \<Rightarrow> string \<Rightarrow> int \<Rightarrow> completion_claim list \<Rightarrow> queue_state
    \<Rightarrow> queue_state \<times> completion_claim list" where
  "claim_loop opts now parent owner limit claims [] = ([], claims)"
| "claim_loop opts now parent owner limit claims (r # rs) =
     (if int (length claims) \<ge> limit \<or> \<not> matchesParent r parent \<or> cr_deliveryState r = AcknowledgedDelivery \<or>
         held_by_other opts now owner r
      then let (rs', cs) = claim_loop opts now parent owner limit claims rs in (r # rs', cs)
      else let r' = claimed_by owner now r;
               claim = \<lparr>cc_record = r', cc_owner = owner, cc_generation = cr_claimGeneration r'\<rparr>;
               (rs', cs) = claim_loop opts now parent owner limit (claims @ [claim]) rs
           in (r' # rs', cs))"

definition queue_claim :: "queue_options \<Rightarrow> int \<Rightarrow> parent_identity \<Rightarrow> string \<Rightarrow> js_num \<Rightarrow> queue_state
    \<Rightarrow> queue_state \<times> (queue_error + completion_claim list)" where
  "queue_claim opts now parent owner limit st =
     (case bind_result (requireBoundedIdentity (pi_instanceId parent) False) (\<lambda>_.
           bind_result (requireBoundedIdentity (pi_sessionId parent) False) (\<lambda>_.
           bind_result (guard_result (truthy (pi_instanceId parent) \<or> truthy (pi_sessionId parent)) QueueParentRequired) (\<lambda>_.
           bind_result (requireBoundedIdentity (Some owner) True) (\<lambda>_.
           case limit of
             JsInt n \<Rightarrow> if 1 \<le> n \<and> n \<le> 64 then Inr n else Inl QueueLimit
           | JsNonInt \<Rightarrow> Inl QueueLimit)))) of
        Inl e \<Rightarrow> (st, Inl e)
      | Inr n \<Rightarrow>
          let (records, claims) = claim_loop opts now parent owner n [] (cleanupAcknowledged opts now st)
          in (records, Inr claims))"

text \<open>\<^verbatim>\<open>records.find(...)\<close> and an assignment to the fields of what it returns.\<close>

fun update_first :: "('a \<Rightarrow> bool) \<Rightarrow> ('a \<Rightarrow> 'a) \<Rightarrow> 'a list \<Rightarrow> 'a list" where
  "update_first p f [] = []"
| "update_first p f (x # xs) = (if p x then f x # xs else x # update_first p f xs)"

definition queue_acknowledge :: "int \<Rightarrow> completion_claim \<Rightarrow> queue_state \<Rightarrow> queue_state \<times> bool" where
  "queue_acknowledge now c st =
     (let same = (\<lambda>r. cr_id r = cr_id (cc_record c)) in
      case find same st of
        None \<Rightarrow> (st, False)
      | Some r \<Rightarrow>
          if cr_claimOwner r \<noteq> Some (cc_owner c) \<or> cr_claimGeneration r \<noteq> cc_generation c then (st, False)
          else if cr_deliveryState r = AcknowledgedDelivery then (st, True)
          else if cr_deliveryState r \<noteq> ClaimedDelivery then (st, False)
          else (update_first same (\<lambda>r. r\<lparr>cr_deliveryState := AcknowledgedDelivery,
                  cr_acknowledgedAt := Some (Stamp now)\<rparr>) st, True))"

definition queue_release :: "completion_claim \<Rightarrow> queue_state \<Rightarrow> queue_state \<times> bool" where
  "queue_release c st =
     (let same = (\<lambda>r. cr_id r = cr_id (cc_record c)) in
      case find same st of
        None \<Rightarrow> (st, False)
      | Some r \<Rightarrow>
          if cr_deliveryState r \<noteq> ClaimedDelivery \<or> cr_claimOwner r \<noteq> Some (cc_owner c) \<or>
             cr_claimGeneration r \<noteq> cc_generation c then (st, False)
          else (update_first same (\<lambda>r. r\<lparr>cr_deliveryState := PendingDelivery, cr_claimOwner := None,
                  cr_claimedAt := None\<rparr>) st, True))"

definition queue_list :: "queue_options \<Rightarrow> int \<Rightarrow> parent_identity option \<Rightarrow> queue_state \<Rightarrow> queue_state \<times> completion_record list" where
  "queue_list opts now parent st =
     (let records = cleanupAcknowledged opts now st
      in (records, filter (\<lambda>r. case parent of None \<Rightarrow> True | Some p \<Rightarrow> matchesParent r p) records))"

section \<open>Runs\<close>

text \<open>
  The queue over time, with the set of ids that were ever given out: \<^verbatim>\<open>randomUUID()\<close> returns a
  new id every time.
\<close>

inductive queue_step :: "queue_options \<Rightarrow> queue_state \<times> string set \<Rightarrow> queue_state \<times> string set \<Rightarrow> bool" for opts where
  qs_enqueue: "uuid \<notin> used \<Longrightarrow> queue_enqueue opts now created uuid i st = (st', res) \<Longrightarrow>
     queue_step opts (st, used) (st', insert uuid used)"
| qs_claim: "queue_claim opts now parent owner limit st = (st', cs) \<Longrightarrow> queue_step opts (st, used) (st', used)"
| qs_acknowledge: "queue_acknowledge now c st = (st', ok) \<Longrightarrow> queue_step opts (st, used) (st', used)"
| qs_release: "queue_release c st = (st', ok) \<Longrightarrow> queue_step opts (st, used) (st', used)"
| qs_list: "queue_list opts now parent st = (st', rs) \<Longrightarrow> queue_step opts (st, used) (st', used)"

inductive queue_reachable :: "queue_options \<Rightarrow> queue_state \<times> string set \<Rightarrow> bool" for opts where
  qr_empty: "queue_reachable opts ([], {})"
| qr_step: "queue_reachable opts q \<Longrightarrow> queue_step opts q q' \<Longrightarrow> queue_reachable opts q'"

text \<open>What a record is about, without its delivery fields, and how delivery moves a record on.\<close>

definition completion_content :: "completion_record \<Rightarrow> completion_record" where
  "completion_content r = r\<lparr>cr_deliveryState := PendingDelivery, cr_claimOwner := None, cr_claimGeneration := 0,
     cr_claimedAt := None, cr_acknowledgedAt := None\<rparr>"

definition moves_on :: "completion_record \<Rightarrow> completion_record \<Rightarrow> bool" where
  "moves_on r r' \<longleftrightarrow> completion_content r' = completion_content r \<and> cr_claimGeneration r \<le> cr_claimGeneration r'"

lemma moves_on_refl [simp]: "moves_on r r"
  by (simp add: moves_on_def)

lemma content_fields:
  assumes "completion_content r' = completion_content r"
  shows "cr_id r' = cr_id r" "cr_childInstanceId r' = cr_childInstanceId r"
proof -
  have "cr_id (completion_content r') = cr_id (completion_content r)"
    "cr_childInstanceId (completion_content r') = cr_childInstanceId (completion_content r)" using assms by simp_all
  then show "cr_id r' = cr_id r" "cr_childInstanceId r' = cr_childInstanceId r" by (simp_all add: completion_content_def)
qed

lemma moves_on_id: "moves_on r r' \<Longrightarrow> cr_id r' = cr_id r \<and> cr_childInstanceId r' = cr_childInstanceId r"
  using content_fields [of r' r] by (simp add: moves_on_def)

text \<open>The records a claim may take.\<close>

definition claimable :: "queue_options \<Rightarrow> int \<Rightarrow> parent_identity \<Rightarrow> string \<Rightarrow> completion_record \<Rightarrow> bool" where
  "claimable opts now parent owner r \<longleftrightarrow> matchesParent r parent \<and> unacknowledged r \<and> \<not> held_by_other opts now owner r"

lemma claimed_by_moves [simp]: "moves_on r (claimed_by owner now r)"
  by (simp add: moves_on_def claimed_by_def completion_content_def)

lemma claim_loop_spec:
  assumes "claim_loop opts now parent owner limit claims rs = (rs', cs)"
  shows "list_all2 (\<lambda>r r'. r' = r \<or> claimable opts now parent owner r \<and> r' = claimed_by owner now r) rs rs' \<and>
    (\<forall>c \<in> set cs - set claims. \<exists>r \<in> set rs. claimable opts now parent owner r \<and> cc_record c = claimed_by owner now r \<and>
       cc_record c \<in> set rs' \<and> cc_owner c = owner \<and> cc_generation c = cr_claimGeneration (cc_record c)) \<and>
    set claims \<subseteq> set cs"
  using assms
proof (induction rs arbitrary: claims rs' cs)
  case (Cons r rs)
  show ?case
  proof (cases "int (length claims) \<ge> limit \<or> \<not> matchesParent r parent \<or> cr_deliveryState r = AcknowledgedDelivery \<or>
         held_by_other opts now owner r")
    case True
    obtain ts us where ts: "claim_loop opts now parent owner limit claims rs = (ts, us)" by fastforce
    with True Cons.prems have "rs' = r # ts" "cs = us" by simp_all
    then show ?thesis using Cons.IH [OF ts] by auto
  next
    case False
    let ?c = "\<lparr>cc_record = claimed_by owner now r, cc_owner = owner, cc_generation = cr_claimGeneration (claimed_by owner now r)\<rparr>"
    obtain ts us where ts: "claim_loop opts now parent owner limit (claims @ [?c]) rs = (ts, us)" by fastforce
    with False Cons.prems have eq: "rs' = claimed_by owner now r # ts" "cs = us" by (simp_all add: Let_def)
    have ok: "claimable opts now parent owner r" using False by (auto simp: claimable_def unacknowledged_def)
    note IH = Cons.IH [OF ts]
    have "\<exists>q \<in> set (r # rs). claimable opts now parent owner q \<and> cc_record c = claimed_by owner now q \<and>
        cc_record c \<in> set rs' \<and> cc_owner c = owner \<and> cc_generation c = cr_claimGeneration (cc_record c)"
      if "c \<in> set cs - set claims" for c
    proof (cases "c = ?c")
      case False
      with that eq have "c \<in> set us - set (claims @ [?c])" by simp
      with IH eq show ?thesis by (metis list.set_intros(2))
    qed (use ok eq in simp)
    then show ?thesis using IH eq ok by simp
  qed
qed simp

lemma queue_claim_cases:
  assumes "queue_claim opts now parent owner limit st = (st', Inr cs)"
  obtains n where "claim_loop opts now parent owner n [] (cleanupAcknowledged opts now st) = (st', cs)"
  using assms by (auto simp: queue_claim_def split: sum.splits prod.splits)

lemma update_first_moves:
  "(\<And>r. moves_on r (f r)) \<Longrightarrow> list_all2 moves_on rs (update_first p f rs)"
  by (induction rs) (auto simp: list_all2_refl)

lemma cleanup_subset: "set (cleanupAcknowledged opts now st) \<subseteq> set st"
  by (auto simp: cleanupAcknowledged_def)

lemma cleanup_keeps: "r \<in> set st \<Longrightarrow> unacknowledged r \<Longrightarrow> r \<in> set (cleanupAcknowledged opts now st)"
  by (simp add: cleanupAcknowledged_def retained_def unacknowledged_def)

text \<open>
  Every operation filters the records, keeping the unacknowledged ones in place, moves
  those it keeps on, and adds at most one new record at the end.
\<close>

definition evolves :: "queue_state \<Rightarrow> queue_state \<Rightarrow> bool" where
  "evolves st st' \<longleftrightarrow> (\<exists>p. (\<forall>r \<in> set st. unacknowledged r \<longrightarrow> p r) \<and> list_all2 moves_on (filter p st) st')"

lemma evolves_filter: "(\<And>r. unacknowledged r \<Longrightarrow> p r) \<Longrightarrow> evolves st (filter p st)"
  unfolding evolves_def by (intro exI [of _ p]) (auto simp: list_all2_refl)

lemma evolves_moves: "list_all2 moves_on st st' \<Longrightarrow> evolves st st'"
  unfolding evolves_def by (intro exI [of _ "\<lambda>_. True"]) simp

lemma evolves_cleanup: "evolves st (cleanupAcknowledged opts now st)"
  unfolding cleanupAcknowledged_def by (rule evolves_filter) (simp add: retained_def unacknowledged_def)

lemma evolves_cleanup_moves:
  "list_all2 moves_on (cleanupAcknowledged opts now st) st' \<Longrightarrow> evolves st st'"
  unfolding evolves_def cleanupAcknowledged_def
  by (intro exI [of _ "retained opts now"]) (simp add: retained_def unacknowledged_def)

lemma queue_enqueue_evolves:
  assumes "queue_enqueue opts now created uuid i st = (st', res)"
  shows "evolves st st' \<or> (\<exists>st0. evolves st st0 \<and> st' = st0 @ [completion_of i uuid created] \<and>
    ei_childInstanceId i \<notin> cr_childInstanceId ` set st0 \<and> length st0 < qo_maxEntries opts)"
proof -
  let ?rs = "cleanupAcknowledged opts now st"
  have drop: "evolves st (filter unacknowledged ?rs)"
    unfolding cleanupAcknowledged_def filter_filter
    by (rule evolves_filter) (simp add: retained_def unacknowledged_def)
  have same: "evolves st st" by (rule evolves_moves) (simp add: list_all2_refl)
  show ?thesis
    using assms drop same evolves_cleanup [of st opts now]
    by (fastforce simp: queue_enqueue_def Let_def find_None_iff split: sum.splits option.splits if_splits)
qed

lemma queue_claim_evolves:
  assumes "queue_claim opts now parent owner limit st = (st', res)"
  shows "evolves st st'"
proof (cases res)
  case (Inl e)
  then have "st' = st" using assms by (auto simp: queue_claim_def split: sum.splits prod.splits)
  then show ?thesis by (auto intro: evolves_moves simp: list_all2_refl)
next
  case (Inr cs)
  with assms obtain n where "claim_loop opts now parent owner n [] (cleanupAcknowledged opts now st) = (st', cs)"
    by (blast elim: queue_claim_cases)
  then have "list_all2 moves_on (cleanupAcknowledged opts now st) st'"
    using claim_loop_spec by (fastforce elim: list_all2_mono)
  then show ?thesis by (rule evolves_cleanup_moves)
qed

lemma queue_step_evolves:
  assumes "queue_step opts (st, used) (st', used')"
  shows "evolves st st' \<and> used' \<supseteq> used \<or>
    (\<exists>st0 uuid i created. evolves st st0 \<and> st' = st0 @ [completion_of i uuid created] \<and> uuid \<notin> used \<and>
       used' = insert uuid used \<and> ei_childInstanceId i \<notin> cr_childInstanceId ` set st0 \<and> length st0 < qo_maxEntries opts)"
  using assms
proof (cases rule: queue_step.cases)
  case (qs_enqueue uuid now created i res)
  then show ?thesis using queue_enqueue_evolves [OF qs_enqueue(3)] by blast
next
  case (qs_claim now parent owner limit cs)
  then show ?thesis using queue_claim_evolves by blast
next
  case (qs_acknowledge now c ok)
  then have "list_all2 moves_on st st'"
    by (auto simp: queue_acknowledge_def Let_def list_all2_refl split: option.splits if_splits
        intro!: update_first_moves simp: moves_on_def completion_content_def)
  then show ?thesis using qs_acknowledge evolves_moves by blast
next
  case (qs_release c ok)
  then have "list_all2 moves_on st st'"
    by (auto simp: queue_release_def Let_def list_all2_refl split: option.splits if_splits
        intro!: update_first_moves simp: moves_on_def completion_content_def)
  then show ?thesis using qs_release evolves_moves by blast
next
  case (qs_list now parent rs)
  then show ?thesis using evolves_cleanup by (auto simp: queue_list_def Let_def)
qed

section \<open>Invariant and fencing\<close>

fun queue_inv :: "queue_options \<Rightarrow> queue_state \<times> string set \<Rightarrow> bool" where
  "queue_inv opts (st, used) \<longleftrightarrow> distinct (map cr_id st) \<and> cr_id ` set st \<subseteq> used \<and>
     distinct (map cr_childInstanceId st) \<and> length st \<le> qo_maxEntries opts"

lemma moves_on_maps:
  "list_all2 moves_on xs ys \<Longrightarrow> map cr_id ys = map cr_id xs \<and> map cr_childInstanceId ys = map cr_childInstanceId xs"
  by (induction rule: list_all2_induct) (auto dest: moves_on_id)

lemma evolves_origin: "evolves st st' \<Longrightarrow> r' \<in> set st' \<Longrightarrow> \<exists>r \<in> set st. moves_on r r'"
  unfolding evolves_def by (auto simp: list_all2_conv_all_nth in_set_conv_nth) (metis filter_is_subset nth_mem subsetD)

lemma evolves_keeps: "evolves st st' \<Longrightarrow> r \<in> set st \<Longrightarrow> unacknowledged r \<Longrightarrow> \<exists>r' \<in> set st'. moves_on r r'"
proof -
  assume "evolves st st'" "r \<in> set st" "unacknowledged r"
  then obtain p where p: "r \<in> set (filter p st)" "list_all2 moves_on (filter p st) st'" by (auto simp: evolves_def)
  then show ?thesis by (metis in_set_conv_nth list_all2_conv_all_nth)
qed

lemma evolves_inv:
  assumes "queue_inv opts (st, used)" "evolves st st'" "used \<subseteq> used'"
  shows "queue_inv opts (st', used')"
proof -
  obtain p where p: "list_all2 moves_on (filter p st) st'" using assms(2) by (auto simp: evolves_def)
  have "cr_id ` set st' \<subseteq> used"
    using assms(1) evolves_origin [OF assms(2)] by (fastforce dest: moves_on_id)
  moreover have "length st' \<le> length st" using list_all2_lengthD [OF p] length_filter_le [of p st] by simp
  ultimately show ?thesis
    using assms(1,3) moves_on_maps [OF p] by (auto simp: distinct_map_filter)
qed

lemma queue_step_inv: "queue_step opts q q' \<Longrightarrow> queue_inv opts q \<Longrightarrow> queue_inv opts q'"
proof -
  assume step: "queue_step opts q q'" and inv: "queue_inv opts q"
  obtain st used st' used' where q: "q = (st, used)" "q' = (st', used')" by (cases q; cases q') auto
  from queue_step_evolves [OF step [unfolded q]] show ?thesis
  proof
    assume "evolves st st' \<and> used' \<supseteq> used"
    then show ?thesis using inv q evolves_inv by blast
  next
    assume "\<exists>st0 uuid i created. evolves st st0 \<and> st' = st0 @ [completion_of i uuid created] \<and> uuid \<notin> used \<and>
       used' = insert uuid used \<and> ei_childInstanceId i \<notin> cr_childInstanceId ` set st0 \<and> length st0 < qo_maxEntries opts"
    then obtain st0 uuid i created where st0: "evolves st st0" "st' = st0 @ [completion_of i uuid created]" "uuid \<notin> used"
      "used' = insert uuid used" "ei_childInstanceId i \<notin> cr_childInstanceId ` set st0" "length st0 < qo_maxEntries opts" by blast
    have "queue_inv opts (st0, used)" using inv [unfolded q(1)] st0(1) by (rule evolves_inv) simp
    then show ?thesis using st0 q(2) by (auto simp: completion_of_def)
  qed
qed

lemma queue_reachable_inv: "queue_reachable opts q \<Longrightarrow> queue_inv opts q"
  by (induction rule: queue_reachable.induct) (auto intro: queue_step_inv)

text \<open>The generation of an id that was given out never falls below what it once reached.\<close>

definition generation_from :: "int \<Rightarrow> string \<Rightarrow> queue_state \<Rightarrow> bool" where
  "generation_from g k st \<longleftrightarrow> (\<forall>r \<in> set st. cr_id r = k \<longrightarrow> g \<le> cr_claimGeneration r)"

lemma generation_from_evolves: "evolves st st' \<Longrightarrow> generation_from g k st \<Longrightarrow> generation_from g k st'"
  unfolding generation_from_def
  by (metis evolves_origin moves_on_def moves_on_id order_trans)

lemma generation_from_step:
  assumes "queue_step opts (st, used) (st', used')" "generation_from g k st" "k \<in> used"
  shows "generation_from g k st' \<and> k \<in> used'"
  using queue_step_evolves [OF assms(1)]
proof
  assume "evolves st st' \<and> used' \<supseteq> used"
  then show ?thesis using assms generation_from_evolves by blast
next
  assume "\<exists>st0 uuid i created. evolves st st0 \<and> st' = st0 @ [completion_of i uuid created] \<and> uuid \<notin> used \<and>
     used' = insert uuid used \<and> ei_childInstanceId i \<notin> cr_childInstanceId ` set st0 \<and> length st0 < qo_maxEntries opts"
  then obtain st0 uuid i created where st0: "evolves st st0" "st' = st0 @ [completion_of i uuid created]" "uuid \<notin> used"
    "used' = insert uuid used" by blast
  have "generation_from g k st0" using st0(1) assms(2) by (rule generation_from_evolves)
  then show ?thesis using st0 assms(3) by (auto simp: generation_from_def completion_of_def)
qed

lemma generation_from_steps:
  assumes "(queue_step opts)\<^sup>*\<^sup>* q q'" "generation_from g k (fst q)" "k \<in> snd q"
  shows "generation_from g k (fst q') \<and> k \<in> snd q'"
  using assms
proof (induction rule: rtranclp_induct)
  case (step y z)
  then show ?case using generation_from_step [of opts "fst y" "snd y" "fst z" "snd z" g k] by simp
qed simp

lemma claim_generation:
  assumes inv: "queue_inv opts (st, used)" and ok: "queue_claim opts now parent owner limit st = (st', Inr cs)" "c \<in> set cs"
  shows "\<exists>r \<in> set st. cr_id (cc_record c) = cr_id r \<and> cc_generation c = cr_claimGeneration r + 1 \<and>
      claimable opts now parent owner r"
    and "generation_from (cc_generation c) (cr_id (cc_record c)) st'" and "cr_id (cc_record c) \<in> used"
proof -
  obtain n where loop: "claim_loop opts now parent owner n [] (cleanupAcknowledged opts now st) = (st', cs)"
    using ok(1) by (rule queue_claim_cases)
  note spec = claim_loop_spec [OF loop]
  then obtain r where r: "r \<in> set (cleanupAcknowledged opts now st)" "cc_record c = claimed_by owner now r"
    "cc_record c \<in> set st'" "cc_generation c = cr_claimGeneration (cc_record c)" "claimable opts now parent owner r"
    using ok(2) by auto
  show "\<exists>r \<in> set st. cr_id (cc_record c) = cr_id r \<and> cc_generation c = cr_claimGeneration r + 1 \<and>
      claimable opts now parent owner r"
    using r cleanup_subset by (fastforce simp: claimed_by_def)
  then show "cr_id (cc_record c) \<in> used" using inv by auto
  have "queue_inv opts (st', used)" using inv queue_claim_evolves [OF ok(1)] by (rule evolves_inv) simp
  then have "r' = cc_record c" if "r' \<in> set st'" "cr_id r' = cr_id (cc_record c)" for r'
    using that r(3) by (auto simp: distinct_map dest: inj_onD)
  then show "generation_from (cc_generation c) (cr_id (cc_record c)) st'"
    using r(4) by (auto simp: generation_from_def)
qed

lemma stale_generation:
  assumes "generation_from g (cr_id (cc_record c)) st" "cc_generation c < g"
  shows "queue_acknowledge now c st = (st, False) \<and> queue_release c st = (st, False)"
proof (cases "find (\<lambda>r. cr_id r = cr_id (cc_record c)) st")
  case (Some r)
  then have "r \<in> set st" "cr_id r = cr_id (cc_record c)" by (auto simp: find_Some_iff)
  then have "cr_claimGeneration r \<noteq> cc_generation c" using assms by (auto simp: generation_from_def)
  then show ?thesis using Some by (simp add: queue_acknowledge_def queue_release_def Let_def)
qed (simp add: queue_acknowledge_def queue_release_def Let_def)

section \<open>What parents and children can rely on\<close>

definition demo_input :: enqueue_input where
  "demo_input = \<lparr>ei_parentInstanceId = Some ''p'', ei_parentSessionId = None, ei_childInstanceId = ''c'',
     ei_childSessionId = None, ei_terminalState = SUCCEEDED, ei_summary = Some '' done '',
     ei_resultHash = replicate 64 CHR ''0'', ei_completedAt = Stamp 5\<rparr>"

definition demo_parent :: parent_identity where
  "demo_parent = \<lparr>pi_instanceId = Some ''p'', pi_sessionId = None\<rparr>"

definition demo_queue_options :: queue_options where
  "demo_queue_options = \<lparr>qo_claimLeaseMs = 100, qo_retentionMs = 1000, qo_maxEntries = 4\<rparr>"

definition demo_claimed :: "string \<Rightarrow> int \<Rightarrow> int \<Rightarrow> completion_record" where
  "demo_claimed owner g at = (completion_of demo_input ''id1'' 6)\<lparr>cr_deliveryState := ClaimedDelivery,
     cr_claimOwner := Some owner, cr_claimGeneration := g, cr_claimedAt := Some (Stamp at)\<rparr>"

definition demo_claim :: "string \<Rightarrow> int \<Rightarrow> int \<Rightarrow> completion_claim" where
  "demo_claim owner g at = \<lparr>cc_record = demo_claimed owner g at, cc_owner = owner, cc_generation = g\<rparr>"

lemmas demo_queue_defs = demo_input_def demo_parent_def demo_queue_options_def demo_claimed_def demo_claim_def

lemma demo_enqueue:
  "queue_enqueue demo_queue_options 6 6 ''id1'' demo_input [] =
     ([completion_of demo_input ''id1'' 6], Inr (completion_of demo_input ''id1'' 6))"
  by (simp add: queue_enqueue_def demo_queue_defs validateInput_def requireBoundedIdentity_def truthy_def
      is_sha256_def list_all_iff cleanupAcknowledged_def Let_def)

lemma demo_enqueue_reachable: "queue_reachable demo_queue_options ([completion_of demo_input ''id1'' 6], {''id1''})"
proof -
  have "queue_step demo_queue_options ([], {}) ([completion_of demo_input ''id1'' 6], {''id1''})"
    using qs_enqueue [OF _ demo_enqueue, of "{}"] by simp
  then show ?thesis using qr_empty qr_step by blast
qed

lemmas queue_claim_run = queue_claim_def requireBoundedIdentity_def truthy_def cleanupAcknowledged_def retained_def
  matchesParent_def held_by_other_def claimed_by_def completion_of_def Let_def

lemma demo_first_claim:
  "queue_claim demo_queue_options 10 demo_parent ''x'' (JsInt 16) [completion_of demo_input ''id1'' 6] =
     ([demo_claimed ''x'' 1 10], Inr [demo_claim ''x'' 1 10])"
  by (simp add: queue_claim_run demo_queue_defs)

lemma demo_second_claim:
  "queue_claim demo_queue_options 200 demo_parent ''y'' (JsInt 16) [demo_claimed ''x'' 1 10] =
     ([demo_claimed ''y'' 2 200], Inr [demo_claim ''y'' 2 200])"
  by (simp add: queue_claim_run demo_queue_defs)

text \<open>
  C8. Claims are fenced: once a record has been claimed again, whoever made the earlier
  claim can neither acknowledge nor release it, whatever has happened before, between and
  after the two claims.
\<close>

theorem stale_claim_rejected:
  assumes "queue_reachable opts (st, used)"
    and "queue_claim opts t1 p1 o1 l1 st = (st1, Inr cs1)" "c1 \<in> set cs1"
    and "(queue_step opts)\<^sup>*\<^sup>* (st1, used) (st2, used2)"
    and "queue_claim opts t2 p2 o2 l2 st2 = (st3, Inr cs2)" "c2 \<in> set cs2"
    and "cr_id (cc_record c2) = cr_id (cc_record c1)"
    and "(queue_step opts)\<^sup>*\<^sup>* (st3, used2) (st4, used4)"
  shows "queue_acknowledge now c1 st4 = (st4, False) \<and> queue_release c1 st4 = (st4, False)"
proof -
  have inv: "queue_inv opts (st, used)" using assms(1) by (rule queue_reachable_inv)
  note g1 = claim_generation [OF inv assms(2,3)]
  have g2: "generation_from (cc_generation c1) (cr_id (cc_record c1)) st2 \<and> cr_id (cc_record c1) \<in> used2"
    using generation_from_steps [OF assms(4)] g1(2,3) by simp
  have "queue_inv opts (st1, used)"
    using inv queue_claim_evolves [OF assms(2)] by (rule evolves_inv) simp
  with assms(4) have inv2: "queue_inv opts (st2, used2)"
    by (induction rule: rtranclp_induct) (auto intro: queue_step_inv)
  note g3 = claim_generation [OF inv2 assms(5,6)]
  then have less: "cc_generation c1 < cc_generation c2" using g2 assms(7) by (fastforce simp: generation_from_def)
  have "generation_from (cc_generation c2) (cr_id (cc_record c1)) st4"
    using generation_from_steps [OF assms(8)] g3(2,3) assms(7) by simp
  then show ?thesis using less by (rule stale_generation)
qed

theorem stale_claim_rejected_witness:
  "queue_acknowledge 300 (demo_claim ''x'' 1 10) [demo_claimed ''y'' 2 200] = ([demo_claimed ''y'' 2 200], False)"
  using stale_claim_rejected [OF demo_enqueue_reachable demo_first_claim _ rtranclp.rtrancl_refl demo_second_claim _ _
      rtranclp.rtrancl_refl, of "demo_claim ''x'' 1 10" "demo_claim ''y'' 2 200" 300]
  by (simp add: demo_claim_def demo_claimed_def)

text \<open>
  C26. No completion is lost before it is acknowledged: whatever operation runs, a record
  that is not acknowledged is in the queue afterwards, with the same content and a
  generation that has not gone back.
\<close>

theorem completion_not_lost:
  assumes "queue_step opts (st, used) (st', used')" "r \<in> set st" "unacknowledged r"
  shows "\<exists>r' \<in> set st'. completion_content r' = completion_content r \<and> cr_claimGeneration r \<le> cr_claimGeneration r'"
proof -
  have "\<exists>st0. evolves st st0 \<and> set st0 \<subseteq> set st'"
    using queue_step_evolves [OF assms(1)] by (metis order_refl set_append sup_ge1)
  then obtain st0 where "evolves st st0" "set st0 \<subseteq> set st'" by blast
  then show ?thesis using evolves_keeps [OF _ assms(2,3)] by (fastforce simp: moves_on_def)
qed

theorem completion_not_lost_witness:
  "\<exists>r' \<in> set [demo_claimed ''y'' 2 200]. completion_content r' = completion_content (demo_claimed ''x'' 1 10) \<and>
     cr_claimGeneration (demo_claimed ''x'' 1 10) \<le> cr_claimGeneration r'"
  by (rule completion_not_lost [OF qs_claim [OF demo_second_claim]])
    (simp_all add: unacknowledged_def demo_claimed_def)

text \<open>
  The queue holds at most one completion for a child and never more than its maximal
  number of records.
\<close>

lemma queue_bounded:
  assumes "queue_reachable opts (st, used)"
  shows "distinct (map cr_childInstanceId st) \<and> distinct (map cr_id st) \<and> length st \<le> qo_maxEntries opts"
  using queue_reachable_inv [OF assms] by simp

text \<open>
  A claim is exclusive while its lease lasts: until then nobody but its owner is given
  a claim on the same record.
\<close>

lemma claim_exclusive:
  assumes "queue_reachable opts (st, used)" "r \<in> set st"
    and "cr_deliveryState r = ClaimedDelivery" "cr_claimOwner r = Some o1" "cr_claimedAt r = Some (Stamp t1)"
    and "o2 \<noteq> o1" "t2 < t1 + qo_claimLeaseMs opts" "queue_claim opts t2 parent o2 limit st = (st', Inr cs)" "c \<in> set cs"
  shows "cr_id (cc_record c) \<noteq> cr_id r"
proof
  assume same: "cr_id (cc_record c) = cr_id r"
  have inv: "queue_inv opts (st, used)" using assms(1) by (rule queue_reachable_inv)
  obtain q where q: "q \<in> set st" "cr_id (cc_record c) = cr_id q" "claimable opts t2 parent o2 q"
    using claim_generation(1) [OF inv assms(8,9)] by blast
  then have "q = r" using inv assms(2) same by (auto simp: distinct_map dest: inj_onD)
  then show False using q(3) assms(3-7) by (simp add: claimable_def held_by_other_def)
qed

lemma demo_claimed_reachable: "queue_reachable demo_queue_options ([demo_claimed ''x'' 1 10], {''id1''})"
  using demo_enqueue_reachable qs_claim [OF demo_first_claim] by (rule qr_step)

definition demo_input2 :: enqueue_input where
  "demo_input2 = demo_input\<lparr>ei_childInstanceId := ''d''\<rparr>"

definition demo_two :: queue_state where
  "demo_two = [demo_claimed ''x'' 1 10, completion_of demo_input2 ''id2'' 11]"

lemma demo_two_reachable: "queue_reachable demo_queue_options (demo_two, {''id2'', ''id1''})"
proof -
  have "queue_enqueue demo_queue_options 11 11 ''id2'' demo_input2 [demo_claimed ''x'' 1 10] =
      (demo_two, Inr (completion_of demo_input2 ''id2'' 11))"
    by (simp add: queue_enqueue_def demo_two_def demo_input2_def demo_queue_defs validateInput_def
        requireBoundedIdentity_def truthy_def is_sha256_def list_all_iff cleanupAcknowledged_def retained_def
        completion_of_def Let_def)
  then show ?thesis using qr_step [OF demo_claimed_reachable qs_enqueue, of "''id2''"] by simp
qed

lemma find_filter_same: "find p xs = Some x \<Longrightarrow> q x \<Longrightarrow> find p (filter q xs) = Some x"
  by (induction xs) (auto split: if_splits)

lemma find_snoc: "find p xs = None \<Longrightarrow> find p (xs @ [x]) = (if p x then Some x else None)"
  by (induction xs) (auto split: if_splits)

lemma find_filter_None: "find p xs = None \<Longrightarrow> find p (filter q xs) = None"
  by (auto simp: find_None_iff)

text \<open>
  Handing in a completion twice is harmless: while the first record is unacknowledged,
  the same input returns the same record and adds nothing.
\<close>

lemma enqueue_idempotent:
  assumes "queue_enqueue opts now created uuid i st = (st', Inr r)" "unacknowledged r"
  shows "queue_enqueue opts now2 created2 uuid2 i st' = (cleanupAcknowledged opts now2 st', Inr r)"
proof -
  let ?p = "\<lambda>r. cr_childInstanceId r = ei_childInstanceId i"
  have valid: "validateInput i = Inr ()" using assms(1) by (auto simp: queue_enqueue_def split: sum.splits)
  have "find ?p st' = Some r \<and> \<not> conflicts r i"
    using assms(1) valid
    by (auto simp: queue_enqueue_def Let_def conflicts_def find_snoc find_filter_None completion_of_def
        split: option.splits if_splits)
  then have "find ?p (cleanupAcknowledged opts now2 st') = Some r" "\<not> conflicts r i"
    using assms(2) by (auto simp: cleanupAcknowledged_def retained_def unacknowledged_def intro!: find_filter_same)
  then show ?thesis using valid by (simp add: queue_enqueue_def Let_def)
qed

end
