(* ===== verification/Lifecycle_Contract.thy ===== *)
theory Lifecycle_Contract
  imports Completion_Queue
begin

text \<open>
  \<^verbatim>\<open>packages/orchestrator/src/lifecycle-contract.ts\<close>: the states of a launched instance, the legal
  transitions between them, and the records that cross the lifecycle boundary.
\<close>

section \<open>States\<close>

datatype lifecycle_state =
  LcPending | LcStarting | LcRunning | LcWaitingInput | LcSucceeded | LcFailed | LcInterrupted |
  LcCancelRequested | LcCancelled | LcUnknown

datatype maestro_terminal = TSucceeded | TFailed | TInterrupted | TCancelled

fun state_of_terminal :: "maestro_terminal \<Rightarrow> lifecycle_state" where
  "state_of_terminal TSucceeded = LcSucceeded"
| "state_of_terminal TFailed = LcFailed"
| "state_of_terminal TInterrupted = LcInterrupted"
| "state_of_terminal TCancelled = LcCancelled"

fun completion_state_of :: "maestro_terminal \<Rightarrow> completion_terminal_state" where
  "completion_state_of TSucceeded = SUCCEEDED"
| "completion_state_of TFailed = FAILED"
| "completion_state_of TInterrupted = INTERRUPTED"
| "completion_state_of TCancelled = CANCELLED"

fun state_name :: "lifecycle_state \<Rightarrow> string" where
  "state_name LcPending = ''PENDING''"
| "state_name LcStarting = ''STARTING''"
| "state_name LcRunning = ''RUNNING''"
| "state_name LcWaitingInput = ''WAITING_INPUT''"
| "state_name LcSucceeded = ''SUCCEEDED''"
| "state_name LcFailed = ''FAILED''"
| "state_name LcInterrupted = ''INTERRUPTED''"
| "state_name LcCancelRequested = ''CANCEL_REQUESTED''"
| "state_name LcCancelled = ''CANCELLED''"
| "state_name LcUnknown = ''UNKNOWN''"

definition isMaestroTerminalState :: "lifecycle_state \<Rightarrow> bool" where
  "isMaestroTerminalState s \<longleftrightarrow> s \<in> {LcSucceeded, LcFailed, LcInterrupted, LcCancelled}"

fun legal_transitions :: "lifecycle_state \<Rightarrow> lifecycle_state set" where
  "legal_transitions LcPending = {LcStarting, LcCancelRequested, LcFailed}"
| "legal_transitions LcStarting = {LcRunning, LcWaitingInput, LcCancelRequested, LcFailed, LcInterrupted}"
| "legal_transitions LcRunning = {LcWaitingInput, LcCancelRequested, LcSucceeded, LcFailed, LcInterrupted}"
| "legal_transitions LcWaitingInput = {LcRunning, LcCancelRequested, LcSucceeded, LcFailed, LcInterrupted}"
| "legal_transitions LcCancelRequested = {LcSucceeded, LcCancelled, LcFailed, LcInterrupted}"
| "legal_transitions _ = {}"

definition isLegalMaestroTransition :: "lifecycle_state \<Rightarrow> lifecycle_state \<Rightarrow> bool" where
  "isLegalMaestroTransition from to \<longleftrightarrow>
     (if from = LcUnknown \<or> to = LcUnknown then False else to \<in> legal_transitions from)"

section \<open>Records\<close>

datatype lifecycle_kind = WorkerKind | FullSessionKind

datatype workspace_access = ReadOnlyAccess | WriteAccess

text \<open>
  A launch request. Its metadata counts only by the bytes of its JSON text, \<open>None\<close> when it
  cannot be serialised.
\<close>

record launch_request =
  rq_kind :: lifecycle_kind
  rq_goal :: string
  rq_context :: "string option"
  rq_role :: string
  rq_cwd :: string
  rq_workspaceAccess :: workspace_access
  rq_parentInstanceId :: "string option"
  rq_parentSessionId :: "string option"
  rq_correlationId :: "string option"
  rq_metadataBytes :: "nat option"

record maestro_handle =
  mh_contractVersion :: int
  mh_instanceId :: string
  mh_kind :: lifecycle_kind
  mh_parentInstanceId :: "string option"
  mh_parentSessionId :: "string option"
  mh_correlationId :: "string option"
  mh_createdAt :: timestamp
  mh_capability :: string

record process_identity =
  pr_pid :: js_num
  pr_startReceipt :: string

record runtime_identity =
  ri_cwd :: string
  ri_worktreeIdentity :: "string option"
  ri_process :: "process_identity option"
  ri_sessionId :: "string option"
  ri_sessionFile :: "string option"

record progress_snapshot =
  ps_message :: "string option"
  ps_outputTail :: "string option"

datatype handoff_state = NotRequired | HandoffQueued | HandoffFailed

record maestro_result =
  mr_handle :: maestro_handle
  mr_terminalState :: lifecycle_state
  mr_ready :: bool
  mr_summary :: "string option"
  mr_startedAt :: "timestamp option"
  mr_completedAt :: "timestamp option"
  mr_errorClassification :: "string option"
  mr_errorMessage :: "string option"
  mr_resultHash :: "string option"
  mr_handoffState :: "handoff_state option"
  mr_handoffDiagnostic :: "string option"

record maestro_status =
  st_handle :: maestro_handle
  st_state :: lifecycle_state
  st_updatedAt :: timestamp
  st_startedAt :: "timestamp option"
  st_completedAt :: "timestamp option"
  st_ownerGeneration :: int
  st_runtime :: runtime_identity
  st_progress :: "progress_snapshot option"
  st_diagnostic :: "string option"

record terminal_status =
  ts_handle :: maestro_handle
  ts_state :: lifecycle_state
  ts_completed :: bool
  ts_timedOut :: bool
  ts_diagnostic :: "string option"

record cancel_result =
  ca_accepted :: bool
  ca_alreadyTerminal :: bool
  ca_unknownHandle :: bool
  ca_unsupported :: bool
  ca_staleOwner :: bool
  ca_state :: lifecycle_state

record attachment =
  at_instanceId :: string
  at_ownerId :: string
  at_ownerGeneration :: int
  at_capability :: string

record detach_result =
  de_detached :: bool
  de_stale :: bool
  de_state :: lifecycle_state

record lifecycle_event =
  le_instanceId :: string
  le_state :: lifecycle_state
  le_updatedAt :: timestamp
  le_progress :: "progress_snapshot option"

datatype lifecycle_error =
  DuplicateCorrelation | InvalidHandle | InvalidRequest | InvalidTransition | OwnerAttached | StaleAttachment

section \<open>Facts\<close>

lemma terminal_state_of [simp]: "isMaestroTerminalState (state_of_terminal t)"
  by (cases t) (simp_all add: isMaestroTerminalState_def)

lemma terminal_no_exit: "isMaestroTerminalState s \<Longrightarrow> \<not> isLegalMaestroTransition s s'"
  by (auto simp: isMaestroTerminalState_def isLegalMaestroTransition_def)

lemma failed_always_legal:
  "\<not> isMaestroTerminalState s \<Longrightarrow> s \<noteq> LcUnknown \<Longrightarrow> isLegalMaestroTransition s LcFailed"
  by (cases s) (simp_all add: isMaestroTerminalState_def isLegalMaestroTransition_def)

lemma legal_not_unknown: "isLegalMaestroTransition s s' \<Longrightarrow> s' \<noteq> LcUnknown \<and> s \<noteq> LcUnknown"
  by (auto simp: isLegalMaestroTransition_def split: if_splits)

lemma cancel_request_legal:
  "\<not> isMaestroTerminalState s \<Longrightarrow> s \<noteq> LcUnknown \<Longrightarrow> s \<noteq> LcCancelRequested \<Longrightarrow>
   isLegalMaestroTransition s LcCancelRequested"
  by (cases s) (simp_all add: isMaestroTerminalState_def isLegalMaestroTransition_def)

lemma terminal_iff_no_transition:
  "s \<noteq> LcUnknown \<Longrightarrow> isMaestroTerminalState s \<longleftrightarrow> \<not> (\<exists>s'. isLegalMaestroTransition s s')"
  using terminal_no_exit failed_always_legal by blast

end
