(* ===== verification/Lifecycle_Service.thy ===== *)
theory Lifecycle_Service
  imports Lifecycle_Contract
begin

text \<open>
  \<^verbatim>\<open>MaestroLifecycleService\<close> of \<^verbatim>\<open>packages/orchestrator/src/lifecycle-service.ts\<close>. Pending calls keep
  a reference to their record after it has left the map, so records live in a store and are
  named by their address. An asynchronous method is split at its \<^verbatim>\<open>await\<close>s into steps that
  run without interruption; what an adapter does in between (the completion it returns or the
  error it throws, whether it accepts a cancellation) is an argument of the next step.

  The clock is read once for each step. A listener sees the events of its record in
  \<open>sv_events\<close>; what listeners do is not modelled. \<open>digest\<close> stands for the SHA-256 of the JSON
  text of a result.
\<close>

section \<open>State\<close>

record lifecycle_adapter =
  ad_cancel :: bool \<comment> \<open>whether the optional methods are there\<close>
  ad_stop :: bool
  ad_reconnect :: bool

record lifecycle_record =
  lr_handle :: maestro_handle
  lr_request :: launch_request
  lr_adapter :: lifecycle_adapter
  lr_state :: lifecycle_state
  lr_updatedAt :: timestamp
  lr_startedAt :: "timestamp option"
  lr_completedAt :: "timestamp option"
  lr_ownerGeneration :: int
  lr_owner :: "attachment option"
  lr_runtime :: runtime_identity
  lr_progress :: "progress_snapshot option"
  lr_result :: "maestro_result option"
  lr_resolved :: bool \<comment> \<open>whether \<^verbatim>\<open>completion\<close> is resolved\<close>
  lr_subscribers :: "nat list"

record lifecycle_service =
  sv_adapters :: "(lifecycle_kind \<times> lifecycle_adapter) list"
  sv_objects :: "lifecycle_record list"
  sv_records :: "(string, nat) js_map"
  sv_correlations :: "(string, string) js_map"
  sv_terminalRetentionMs :: int
  sv_queue :: "(queue_options \<times> queue_state) option"
  sv_events :: "(nat \<times> lifecycle_event) list"

record lifecycle_completion =
  co_state :: maestro_terminal
  co_summary :: "string option"
  co_errorClassification :: "string option"
  co_errorMessage :: "string option"
  co_resultHash :: "string option"
  co_handoffState :: "handoff_state option"
  co_handoffDiagnostic :: "string option"

definition bare_completion :: "maestro_terminal \<Rightarrow> string option \<Rightarrow> lifecycle_completion" where
  "bare_completion t summary = \<lparr>co_state = t, co_summary = summary, co_errorClassification = None,
     co_errorMessage = None, co_resultHash = None, co_handoffState = None, co_handoffDiagnostic = None\<rparr>"

abbreviation record_at :: "lifecycle_service \<Rightarrow> nat \<Rightarrow> lifecycle_record" where
  "record_at sv a \<equiv> sv_objects sv ! a"

definition set_record :: "lifecycle_service \<Rightarrow> nat \<Rightarrow> lifecycle_record \<Rightarrow> lifecycle_service" where
  "set_record sv a r = sv\<lparr>sv_objects := (sv_objects sv)[a := r]\<rparr>"

fun no_duplicate_kinds :: "(lifecycle_kind \<times> lifecycle_adapter) list \<Rightarrow> bool" where
  "no_duplicate_kinds [] = True"
| "no_duplicate_kinds ((k, _) # as) \<longleftrightarrow> \<not> js_has as k \<and> no_duplicate_kinds as"

definition service_new :: "(lifecycle_kind \<times> lifecycle_adapter) list \<Rightarrow> int \<Rightarrow> (queue_options \<times> queue_state) option
    \<Rightarrow> lifecycle_error + lifecycle_service" where
  "service_new adapters retention queue =
     bind_result (guard_result (no_duplicate_kinds adapters) InvalidRequest) (\<lambda>_.
     bind_result (guard_result (0 \<le> retention) InvalidRequest) (\<lambda>_.
     Inr \<lparr>sv_adapters = adapters, sv_objects = [], sv_records = [], sv_correlations = [],
          sv_terminalRetentionMs = retention, sv_queue = queue, sv_events = []\<rparr>))"

section \<open>Helpers\<close>

definition bounded :: "string option \<Rightarrow> nat \<Rightarrow> string option" where
  "bounded v n = map_option (take n) v"

definition max_result_chars :: nat where "max_result_chars = 32000"
definition max_progress_chars :: nat where "max_progress_chars = 4096"

definition identity_ok :: "string option \<Rightarrow> nat \<Rightarrow> bool" where
  "identity_ok v n = (case v of None \<Rightarrow> True | Some s \<Rightarrow> s \<noteq> '''' \<and> length s \<le> n)"

definition process_ok :: "process_identity \<Rightarrow> bool" where
  "process_ok p \<longleftrightarrow> (case pr_pid p of JsInt n \<Rightarrow> 0 < n \<and> n < 2 ^ 53 | JsNonInt \<Rightarrow> False) \<and>
     pr_startReceipt p \<noteq> '''' \<and> length (pr_startReceipt p) \<le> 1024"

definition normalizeRuntime :: "runtime_identity \<Rightarrow> lifecycle_kind \<Rightarrow> lifecycle_error + runtime_identity" where
  "normalizeRuntime ri kind =
     bind_result (guard_result (ri_cwd ri \<noteq> '''' \<and> length (ri_cwd ri) \<le> 4096) InvalidRequest) (\<lambda>_.
     bind_result (guard_result (identity_ok (ri_worktreeIdentity ri) 512 \<and> identity_ok (ri_sessionId ri) 512 \<and>
       identity_ok (ri_sessionFile ri) 4096) InvalidRequest) (\<lambda>_.
     bind_result (guard_result (\<not> (kind = FullSessionKind \<and> (ri_process ri = None \<or> \<not> truthy (ri_sessionId ri)))) InvalidRequest) (\<lambda>_.
     bind_result (guard_result (case ri_process ri of None \<Rightarrow> True | Some p \<Rightarrow> process_ok p) InvalidRequest) (\<lambda>_.
     Inr ri))))"

definition hasValidHandleShape :: "maestro_handle \<Rightarrow> bool" where
  "hasValidHandleShape h \<longleftrightarrow> mh_contractVersion h = 1 \<and> mh_instanceId h \<noteq> '''' \<and>
     (case mh_createdAt h of Stamp _ \<Rightarrow> True | BadStamp _ \<Rightarrow> False) \<and> 32 \<le> length (mh_capability h)"

definition capabilitiesEqual :: "string \<Rightarrow> string \<Rightarrow> bool" where
  "capabilitiesEqual l r \<longleftrightarrow> l = r"

definition normalizeCompletionState :: "lifecycle_state \<Rightarrow> maestro_terminal \<Rightarrow> maestro_terminal" where
  "normalizeCompletionState current completed =
     (if current = LcCancelRequested \<and> completed = TInterrupted then TCancelled else completed)"

definition validateLaunchRequest :: "launch_request \<Rightarrow> lifecycle_error + unit" where
  "validateLaunchRequest q =
     bind_result (guard_result (js_trim (rq_goal q) \<noteq> '''' \<and> length (rq_goal q) \<le> 16000) InvalidRequest) (\<lambda>_.
     bind_result (guard_result (case rq_context q of None \<Rightarrow> True | Some c \<Rightarrow> length c \<le> 32000) InvalidRequest) (\<lambda>_.
     bind_result (guard_result (js_trim (rq_role q) \<noteq> '''' \<and> length (rq_role q) \<le> 128) InvalidRequest) (\<lambda>_.
     bind_result (guard_result (rq_cwd q \<noteq> '''' \<and> length (rq_cwd q) \<le> 4096) InvalidRequest) (\<lambda>_.
     bind_result (guard_result (\<not> (rq_kind q = WorkerKind \<and> rq_workspaceAccess q \<noteq> ReadOnlyAccess)) InvalidRequest) (\<lambda>_.
     bind_result (guard_result (identity_ok (rq_parentInstanceId q) 512 \<and> identity_ok (rq_parentSessionId q) 512 \<and>
       identity_ok (rq_correlationId q) 512) InvalidRequest) (\<lambda>_.
     guard_result (case rq_metadataBytes q of None \<Rightarrow> False | Some n \<Rightarrow> n \<le> 8192) InvalidRequest))))))"

definition or_empty :: "string option \<Rightarrow> string" where
  "or_empty s = (case s of None \<Rightarrow> '''' | Some t \<Rightarrow> t)"

definition correlationKey :: "launch_request \<Rightarrow> string" where
  "correlationKey q = or_empty (rq_parentInstanceId q) @ [CHR 0x00] @ or_empty (rq_parentSessionId q) @ [CHR 0x00] @
     or_empty (rq_correlationId q)"

definition unknownHandle :: "int \<Rightarrow> maestro_handle" where
  "unknownHandle now = \<lparr>mh_contractVersion = 1, mh_instanceId = ''unknown'', mh_kind = FullSessionKind,
     mh_parentInstanceId = None, mh_parentSessionId = None, mh_correlationId = None, mh_createdAt = Stamp now,
     mh_capability = concat (replicate 5 ''unknown'')\<rparr>"

section \<open>Retention and lookup\<close>

definition record_expired :: "lifecycle_service \<Rightarrow> int \<Rightarrow> nat \<Rightarrow> bool" where
  "record_expired sv now a = (case lr_completedAt (record_at sv a) of
      None \<Rightarrow> False
    | Some s \<Rightarrow> \<not> stamp_ge s (now - sv_terminalRetentionMs sv))"

definition forget :: "lifecycle_service \<Rightarrow> string \<times> nat \<Rightarrow> lifecycle_service" where
  "forget sv entry = (case entry of (instanceId, a) \<Rightarrow>
     sv\<lparr>sv_records := js_delete (sv_records sv) instanceId,
        sv_correlations := (if truthy (mh_correlationId (lr_handle (record_at sv a)))
          then js_delete (sv_correlations sv) (correlationKey (lr_request (record_at sv a)))
          else sv_correlations sv)\<rparr>)"

definition cleanupExpired :: "lifecycle_service \<Rightarrow> int \<Rightarrow> lifecycle_service" where
  "cleanupExpired sv now = foldl forget sv (filter (\<lambda>(_, a). record_expired sv now a) (sv_records sv))"

definition handle_matches :: "maestro_handle \<Rightarrow> maestro_handle \<Rightarrow> bool" where
  "handle_matches own given \<longleftrightarrow> capabilitiesEqual (mh_capability own) (mh_capability given) \<and>
     mh_contractVersion own = mh_contractVersion given \<and> mh_kind own = mh_kind given \<and>
     mh_createdAt own = mh_createdAt given \<and> mh_parentInstanceId own = mh_parentInstanceId given \<and>
     mh_parentSessionId own = mh_parentSessionId given \<and> mh_correlationId own = mh_correlationId given"

text \<open>The lookup in the map as it is after the clean-up.\<close>

definition find_in :: "lifecycle_service \<Rightarrow> maestro_handle \<Rightarrow> nat option" where
  "find_in sv h =
     (if \<not> hasValidHandleShape h then None
      else case js_get (sv_records sv) (mh_instanceId h) of
        None \<Rightarrow> None
      | Some a \<Rightarrow> if handle_matches (lr_handle (record_at sv a)) h then Some a else None)"

definition findRecord :: "lifecycle_service \<Rightarrow> int \<Rightarrow> maestro_handle \<Rightarrow> lifecycle_service \<times> nat option" where
  "findRecord sv now h = (let sv' = cleanupExpired sv now in (sv', find_in sv' h))"

section \<open>Transitions\<close>

definition lifecycle_emit :: "lifecycle_service \<Rightarrow> nat \<Rightarrow> lifecycle_service" where
  "lifecycle_emit sv a = (let r = record_at sv a;
       e = \<lparr>le_instanceId = mh_instanceId (lr_handle r), le_state = lr_state r, le_updatedAt = lr_updatedAt r,
            le_progress = lr_progress r\<rparr>
     in sv\<lparr>sv_events := sv_events sv @ map (\<lambda>l. (l, e)) (lr_subscribers r)\<rparr>)"

text \<open>The state is unchanged when a transition throws.\<close>

definition lifecycle_transition :: "lifecycle_service \<Rightarrow> int \<Rightarrow> nat \<Rightarrow> lifecycle_state \<Rightarrow> lifecycle_service \<times> (lifecycle_error + unit)" where
  "lifecycle_transition sv now a s =
     (let r = record_at sv a in
      if \<not> isLegalMaestroTransition (lr_state r) s then (sv, Inl InvalidTransition)
      else (lifecycle_emit (set_record sv a (r\<lparr>lr_state := s, lr_updatedAt := Stamp now,
              lr_startedAt := (if s = LcRunning \<and> lr_startedAt r = None then Some (Stamp now) else lr_startedAt r)\<rparr>)) a,
            Inr ()))"

record control_updates =
  cu_runtime :: "runtime_identity option"
  cu_progress :: "progress_snapshot option"

definition applyUpdates :: "lifecycle_service \<Rightarrow> int \<Rightarrow> nat \<Rightarrow> control_updates option \<Rightarrow> lifecycle_service \<times> (lifecycle_error + unit)" where
  "applyUpdates sv now a updates = (case updates of
      None \<Rightarrow> (sv, Inr ())
    | Some u \<Rightarrow>
        let r = record_at sv a in
        (case (case cu_runtime u of
                 None \<Rightarrow> Inr (lr_runtime r)
               | Some ri \<Rightarrow> normalizeRuntime ri (mh_kind (lr_handle r))) of
           Inl e \<Rightarrow> (sv, Inl e)
         | Inr runtime \<Rightarrow>
             (lifecycle_emit (set_record sv a (r\<lparr>lr_runtime := runtime,
                lr_progress := (case cu_progress u of
                    None \<Rightarrow> lr_progress r
                  | Some p \<Rightarrow> Some \<lparr>ps_message = bounded (ps_message p) max_progress_chars,
                                   ps_outputTail = bounded (ps_outputTail p) max_result_chars\<rparr>),
                lr_updatedAt := Stamp now\<rparr>)) a, Inr ())))"

section \<open>Completion\<close>

text \<open>What a step takes from outside: the clock, a fresh id for the queue, and the text of a queue error.\<close>

record step_env =
  en_now :: int
  en_uuid :: string
  en_queueError :: "queue_error \<Rightarrow> string"

definition result_of :: "(maestro_result \<Rightarrow> string) \<Rightarrow> lifecycle_record \<Rightarrow> lifecycle_completion \<Rightarrow> timestamp \<Rightarrow> maestro_result" where
  "result_of digest r c at =
     (let unhashed = \<lparr>mr_handle = lr_handle r, mr_terminalState = state_of_terminal (co_state c), mr_ready = True,
            mr_summary = bounded (co_summary c) max_result_chars, mr_startedAt = lr_startedAt r,
            mr_completedAt = Some at, mr_errorClassification = bounded (co_errorClassification c) 256,
            mr_errorMessage = bounded (co_errorMessage c) max_result_chars, mr_resultHash = None,
            mr_handoffState = None, mr_handoffDiagnostic = None\<rparr>
      in unhashed\<lparr>
           mr_resultHash := Some (case co_resultHash c of Some h \<Rightarrow> h | None \<Rightarrow> digest unhashed),
           mr_handoffState := Some (case co_handoffState c of Some h \<Rightarrow> h | None \<Rightarrow> NotRequired),
           mr_handoffDiagnostic := bounded (co_handoffDiagnostic c) max_result_chars\<rparr>)"

definition handoff_input :: "lifecycle_record \<Rightarrow> lifecycle_completion \<Rightarrow> timestamp \<Rightarrow> string \<Rightarrow> enqueue_input" where
  "handoff_input r c at resultHash = \<lparr>ei_parentInstanceId = mh_parentInstanceId (lr_handle r),
     ei_parentSessionId = mh_parentSessionId (lr_handle r), ei_childInstanceId = mh_instanceId (lr_handle r),
     ei_childSessionId = ri_sessionId (lr_runtime r), ei_terminalState = completion_state_of (co_state c),
     ei_summary = (case co_summary c of Some s \<Rightarrow> Some s | None \<Rightarrow> co_errorMessage c),
     ei_resultHash = resultHash, ei_completedAt = at\<rparr>"

definition set_handoff :: "lifecycle_record \<Rightarrow> handoff_state \<Rightarrow> string option \<Rightarrow> lifecycle_record" where
  "set_handoff r h diagnostic = r\<lparr>lr_result := map_option (\<lambda>res. res\<lparr>mr_handoffState := Some h,
     mr_handoffDiagnostic := (case diagnostic of None \<Rightarrow> mr_handoffDiagnostic res | Some d \<Rightarrow> Some d)\<rparr>) (lr_result r)\<rparr>"

definition hand_off :: "step_env \<Rightarrow> lifecycle_service \<Rightarrow> nat \<Rightarrow> lifecycle_completion \<Rightarrow> string \<Rightarrow> lifecycle_service" where
  "hand_off env sv a c resultHash =
     (let r = record_at sv a in
      if (truthy (mh_parentInstanceId (lr_handle r)) \<or> truthy (mh_parentSessionId (lr_handle r))) \<and> co_handoffState c = None
      then (case sv_queue sv of
              None \<Rightarrow> set_record sv a (set_handoff r HandoffFailed (Some ''COMPLETION_QUEUE_UNAVAILABLE''))
            | Some (opts, q) \<Rightarrow>
                (case queue_enqueue opts (en_now env) (en_now env) (en_uuid env)
                        (handoff_input r c (Stamp (en_now env)) resultHash) q of
                   (q', Inr _) \<Rightarrow> set_record (sv\<lparr>sv_queue := Some (opts, q')\<rparr>) a (set_handoff r HandoffQueued None)
                 | (q', Inl e) \<Rightarrow> set_record (sv\<lparr>sv_queue := Some (opts, q')\<rparr>) a (set_handoff r HandoffFailed
                     (bounded (Some (''COMPLETION_ENQUEUE_FAILED: '' @ en_queueError env e)) max_result_chars))))
      else sv)"

text \<open>The fields set before a transition that throws stay set.\<close>

definition lifecycle_complete :: "(maestro_result \<Rightarrow> string) \<Rightarrow> step_env \<Rightarrow> lifecycle_service \<Rightarrow> nat \<Rightarrow> lifecycle_completion
    \<Rightarrow> lifecycle_service \<times> (lifecycle_error + unit)" where
  "lifecycle_complete digest env sv a c =
     (let r = record_at sv a; at = Stamp (en_now env); result = result_of digest r c at;
          sv1 = set_record sv a (r\<lparr>lr_completedAt := Some at, lr_result := Some result\<rparr>)
      in case lifecycle_transition sv1 (en_now env) a (state_of_terminal (co_state c)) of
           (sv2, Inl e) \<Rightarrow> (sv2, Inl e)
         | (sv2, Inr _) \<Rightarrow>
             let sv3 = hand_off env sv2 a c (case mr_resultHash result of Some h \<Rightarrow> h | None \<Rightarrow> '''')
             in (set_record sv3 a ((record_at sv3 a)\<lparr>lr_resolved := True\<rparr>), Inr ()))"

section \<open>Operations\<close>

definition lifecycle_launch :: "lifecycle_service \<Rightarrow> int \<Rightarrow> string \<Rightarrow> string \<Rightarrow> launch_request \<Rightarrow> string option
    \<Rightarrow> lifecycle_service \<times> (lifecycle_error + maestro_handle)" where
  "lifecycle_launch sv now uuid capability q instanceId =
     (case bind_result (validateLaunchRequest q) (\<lambda>_. guard_result (identity_ok instanceId 512) InvalidRequest) of
        Inl e \<Rightarrow> (sv, Inl e)
      | Inr _ \<Rightarrow>
          let sv1 = cleanupExpired sv now; key = correlationKey q;
              i = (case instanceId of Some i \<Rightarrow> i | None \<Rightarrow> uuid) in
          (case js_get (sv_adapters sv1) (rq_kind q) of
             None \<Rightarrow> (sv1, Inl InvalidRequest)
           | Some adapter \<Rightarrow>
               if truthy (rq_correlationId q) \<and> js_has (sv_correlations sv1) key then (sv1, Inl DuplicateCorrelation)
               else if js_has (sv_records sv1) i then (sv1, Inl InvalidRequest)
               else let handle = \<lparr>mh_contractVersion = 1, mh_instanceId = i, mh_kind = rq_kind q,
                          mh_parentInstanceId = rq_parentInstanceId q, mh_parentSessionId = rq_parentSessionId q,
                          mh_correlationId = rq_correlationId q, mh_createdAt = Stamp now, mh_capability = capability\<rparr>;
                        r = \<lparr>lr_handle = handle, lr_request = q, lr_adapter = adapter, lr_state = LcPending,
                          lr_updatedAt = Stamp now, lr_startedAt = None, lr_completedAt = None, lr_ownerGeneration = 0,
                          lr_owner = None,
                          lr_runtime = \<lparr>ri_cwd = rq_cwd q, ri_worktreeIdentity = None, ri_process = None,
                            ri_sessionId = None, ri_sessionFile = None\<rparr>,
                          lr_progress = None, lr_result = None, lr_resolved = False, lr_subscribers = []\<rparr>
                    in (sv1\<lparr>sv_objects := sv_objects sv1 @ [r],
                            sv_records := js_set (sv_records sv1) i (length (sv_objects sv1)),
                            sv_correlations := (if truthy (rq_correlationId q) then js_set (sv_correlations sv1) key i
                              else sv_correlations sv1)\<rparr>, Inr handle)))"

definition snapshot :: "lifecycle_record \<Rightarrow> maestro_status" where
  "snapshot r = \<lparr>st_handle = lr_handle r, st_state = lr_state r, st_updatedAt = lr_updatedAt r,
     st_startedAt = lr_startedAt r, st_completedAt = lr_completedAt r, st_ownerGeneration = lr_ownerGeneration r,
     st_runtime = lr_runtime r, st_progress = lr_progress r, st_diagnostic = None\<rparr>"

definition lifecycle_status :: "lifecycle_service \<Rightarrow> int \<Rightarrow> maestro_handle \<Rightarrow> lifecycle_service \<times> maestro_status" where
  "lifecycle_status sv now h = (case findRecord sv now h of
      (sv', None) \<Rightarrow> (sv', \<lparr>st_handle = (if hasValidHandleShape h then h else unknownHandle now), st_state = LcUnknown,
        st_updatedAt = Stamp now, st_startedAt = None, st_completedAt = None, st_ownerGeneration = 0,
        st_runtime = \<lparr>ri_cwd = '''', ri_worktreeIdentity = None, ri_process = None, ri_sessionId = None, ri_sessionFile = None\<rparr>,
        st_progress = None, st_diagnostic = Some ''UNKNOWN_HANDLE''\<rparr>)
    | (sv', Some a) \<Rightarrow> (sv', snapshot (record_at sv' a)))"

definition lifecycle_setWaitingInput :: "lifecycle_service \<Rightarrow> int \<Rightarrow> maestro_handle \<Rightarrow> bool
    \<Rightarrow> lifecycle_service \<times> (lifecycle_error + maestro_status)" where
  "lifecycle_setWaitingInput sv now h waiting = (case findRecord sv now h of
      (sv', None) \<Rightarrow> (sv', Inl InvalidHandle)
    | (sv', Some a) \<Rightarrow>
        let s = lr_state (record_at sv' a); target = (if waiting then LcWaitingInput else LcRunning) in
        if isMaestroTerminalState s \<or> s = LcCancelRequested \<or> s = LcPending \<or> s = LcStarting
        then (sv', Inr (snapshot (record_at sv' a)))
        else (case (if s \<noteq> target then lifecycle_transition sv' now a target else (sv', Inr ())) of
                (sv'', Inl e) \<Rightarrow> (sv'', Inl e)
              | (sv'', Inr _) \<Rightarrow> (sv'', Inr (snapshot (record_at sv'' a)))))"

definition cancel_answer :: "bool \<Rightarrow> bool \<Rightarrow> bool \<Rightarrow> bool \<Rightarrow> bool \<Rightarrow> lifecycle_state \<Rightarrow> cancel_result" where
  "cancel_answer accepted terminal unknown unsupported stale s =
     \<lparr>ca_accepted = accepted, ca_alreadyTerminal = terminal, ca_unknownHandle = unknown,
      ca_unsupported = unsupported, ca_staleOwner = stale, ca_state = s\<rparr>"

datatype cancel_progress = CancelAnswered cancel_result | CancelAsksAdapter nat

text \<open>\<^verbatim>\<open>cancel\<close> up to its \<^verbatim>\<open>await\<close>, and from there on with the adapter's answer.\<close>

definition lifecycle_cancel :: "lifecycle_service \<Rightarrow> int \<Rightarrow> maestro_handle \<Rightarrow> lifecycle_service \<times> (lifecycle_error + cancel_progress)" where
  "lifecycle_cancel sv now h = (case findRecord sv now h of
      (sv', None) \<Rightarrow> (sv', Inr (CancelAnswered (cancel_answer False False True False False LcUnknown)))
    | (sv', Some a) \<Rightarrow>
        let s = lr_state (record_at sv' a) in
        if isMaestroTerminalState s then (sv', Inr (CancelAnswered (cancel_answer False True False False False s)))
        else if s = LcPending
        then (case lifecycle_transition sv' now a LcCancelRequested of
                (sv'', Inl e) \<Rightarrow> (sv'', Inl e)
              | (sv'', Inr _) \<Rightarrow> (sv'', Inr (CancelAnswered
                  (cancel_answer True False False False False (lr_state (record_at sv'' a))))))
        else if \<not> ad_cancel (lr_adapter (record_at sv' a))
        then (sv', Inr (CancelAnswered (cancel_answer False False False True False s)))
        else (sv', Inr (CancelAsksAdapter a)))"

definition lifecycle_cancel_resume :: "lifecycle_service \<Rightarrow> int \<Rightarrow> nat \<Rightarrow> bool \<Rightarrow> lifecycle_service \<times> (lifecycle_error + cancel_result)" where
  "lifecycle_cancel_resume sv now a accepted =
     (let s = lr_state (record_at sv a) in
      case (if accepted \<and> \<not> isMaestroTerminalState s \<and> s \<noteq> LcCancelRequested
            then lifecycle_transition sv now a LcCancelRequested else (sv, Inr ())) of
        (sv', Inl e) \<Rightarrow> (sv', Inl e)
      | (sv', Inr _) \<Rightarrow> (sv', Inr (cancel_answer accepted (isMaestroTerminalState (lr_state (record_at sv' a))) False
          (\<not> accepted) False (lr_state (record_at sv' a)))))"

definition owns :: "lifecycle_record \<Rightarrow> attachment \<Rightarrow> bool" where
  "owns r at = (case lr_owner r of
      None \<Rightarrow> False
    | Some own \<Rightarrow> at_ownerId own = at_ownerId at \<and> at_ownerGeneration own = at_ownerGeneration at \<and>
        capabilitiesEqual (at_capability own) (at_capability at))"

definition lifecycle_cancelAttached :: "lifecycle_service \<Rightarrow> int \<Rightarrow> maestro_handle \<Rightarrow> attachment
    \<Rightarrow> lifecycle_service \<times> (lifecycle_error + cancel_progress)" where
  "lifecycle_cancelAttached sv now h at = (case findRecord sv now h of
      (sv', None) \<Rightarrow> (sv', Inr (CancelAnswered (cancel_answer False False True False False LcUnknown)))
    | (sv', Some a) \<Rightarrow>
        let r = record_at sv' a in
        if \<not> owns r at \<or> map_option at_instanceId (lr_owner r) \<noteq> Some (at_instanceId at)
        then (sv', Inr (CancelAnswered (cancel_answer False False False False True (lr_state r))))
        else lifecycle_cancel sv' now h)"

definition lifecycle_result :: "lifecycle_service \<Rightarrow> int \<Rightarrow> maestro_handle \<Rightarrow> lifecycle_service \<times> maestro_result" where
  "lifecycle_result sv now h =
     (let pending = (\<lambda>handle s why. \<lparr>mr_handle = handle, mr_terminalState = s, mr_ready = False, mr_summary = None,
            mr_startedAt = None, mr_completedAt = None, mr_errorClassification = Some why, mr_errorMessage = None,
            mr_resultHash = None, mr_handoffState = None, mr_handoffDiagnostic = None\<rparr>)
      in case findRecord sv now h of
           (sv', None) \<Rightarrow> (sv', pending (if hasValidHandleShape h then h else unknownHandle now) LcUnknown ''UNKNOWN_HANDLE'')
         | (sv', Some a) \<Rightarrow> (sv', case lr_result (record_at sv' a) of
               Some res \<Rightarrow> res
             | None \<Rightarrow> pending (lr_handle (record_at sv' a)) (lr_state (record_at sv' a)) ''NOT_READY''))"

definition lifecycle_attach :: "lifecycle_service \<Rightarrow> int \<Rightarrow> string \<Rightarrow> maestro_handle \<Rightarrow> string
    \<Rightarrow> lifecycle_service \<times> (lifecycle_error + attachment)" where
  "lifecycle_attach sv now capability h ownerId = (case findRecord sv now h of
      (sv', None) \<Rightarrow> (sv', Inl InvalidHandle)
    | (sv', Some a) \<Rightarrow>
        let r = record_at sv' a in
        if ownerId = '''' \<or> 512 < length ownerId then (sv', Inl InvalidRequest)
        else if lr_owner r \<noteq> None then (sv', Inl OwnerAttached)
        else let own = \<lparr>at_instanceId = mh_instanceId (lr_handle r), at_ownerId = ownerId,
                   at_ownerGeneration = lr_ownerGeneration r + 1, at_capability = capability\<rparr>
             in (set_record sv' a (r\<lparr>lr_ownerGeneration := lr_ownerGeneration r + 1, lr_owner := Some own\<rparr>), Inr own))"

definition lifecycle_detach :: "lifecycle_service \<Rightarrow> int \<Rightarrow> attachment \<Rightarrow> lifecycle_service \<times> detach_result" where
  "lifecycle_detach sv now at =
     (let sv' = cleanupExpired sv now in
      case js_get (sv_records sv') (at_instanceId at) of
        None \<Rightarrow> (sv', \<lparr>de_detached = False, de_stale = True, de_state = LcUnknown\<rparr>)
      | Some a \<Rightarrow>
          let r = record_at sv' a in
          if \<not> owns r at then (sv', \<lparr>de_detached = False, de_stale = True, de_state = lr_state r\<rparr>)
          else (set_record sv' a (r\<lparr>lr_owner := None\<rparr>), \<lparr>de_detached = True, de_stale = False, de_state = lr_state r\<rparr>))"

definition lifecycle_subscribe :: "lifecycle_service \<Rightarrow> int \<Rightarrow> maestro_handle \<Rightarrow> nat \<Rightarrow> lifecycle_service \<times> (lifecycle_error + nat)" where
  "lifecycle_subscribe sv now h listener = (case findRecord sv now h of
      (sv', None) \<Rightarrow> (sv', Inl InvalidHandle)
    | (sv', Some a) \<Rightarrow>
        let r = record_at sv' a in
        (set_record sv' a (r\<lparr>lr_subscribers := (if listener \<in> set (lr_subscribers r) then lr_subscribers r
           else lr_subscribers r @ [listener])\<rparr>), Inr a))"

definition lifecycle_unsubscribe :: "lifecycle_service \<Rightarrow> nat \<Rightarrow> nat \<Rightarrow> lifecycle_service" where
  "lifecycle_unsubscribe sv a listener =
     (let r = record_at sv a in set_record sv a (r\<lparr>lr_subscribers := removeAll listener (lr_subscribers r)\<rparr>))"

definition terminalStatus :: "int \<Rightarrow> maestro_handle \<Rightarrow> lifecycle_state \<Rightarrow> bool \<Rightarrow> bool \<Rightarrow> string option \<Rightarrow> terminal_status" where
  "terminalStatus now h s completed timedOut diagnostic =
     \<lparr>ts_handle = (if hasValidHandleShape h then h else unknownHandle now), ts_state = s, ts_completed = completed,
      ts_timedOut = timedOut, ts_diagnostic = diagnostic\<rparr>"

text \<open>\<^verbatim>\<open>stop\<close> up to its \<^verbatim>\<open>await\<close> of the adapter, and from there on.\<close>

datatype stop_progress = StopAnswered terminal_status | StopAsksAdapter nat

definition lifecycle_stop :: "lifecycle_service \<Rightarrow> int \<Rightarrow> maestro_handle \<Rightarrow> lifecycle_service \<times> (lifecycle_error + stop_progress)" where
  "lifecycle_stop sv now h = (case findRecord sv now h of
      (sv', None) \<Rightarrow> (sv', Inr (StopAnswered (terminalStatus now h LcUnknown True False (Some ''UNKNOWN_HANDLE''))))
    | (sv', Some a) \<Rightarrow>
        let r = record_at sv' a in
        if isMaestroTerminalState (lr_state r)
        then (sv', Inr (StopAnswered (terminalStatus now (lr_handle r) (lr_state r) True False None)))
        else (case (if lr_state r \<noteq> LcCancelRequested then lifecycle_transition sv' now a LcCancelRequested else (sv', Inr ())) of
                (sv'', Inl e) \<Rightarrow> (sv'', Inl e)
              | (sv'', Inr _) \<Rightarrow> (sv'', Inr (StopAsksAdapter a))))"

definition lifecycle_stop_resume :: "(maestro_result \<Rightarrow> string) \<Rightarrow> step_env \<Rightarrow> lifecycle_service \<Rightarrow> nat
    \<Rightarrow> lifecycle_service \<times> (lifecycle_error + terminal_status)" where
  "lifecycle_stop_resume digest env sv a =
     (case (if isMaestroTerminalState (lr_state (record_at sv a)) then (sv, Inr ())
            else lifecycle_complete digest env sv a (bare_completion TCancelled (Some ''Stopped by Maestro''))) of
        (sv', Inl e) \<Rightarrow> (sv', Inl e)
      | (sv', Inr _) \<Rightarrow> (sv', Inr (terminalStatus (en_now env) (lr_handle (record_at sv' a)) (lr_state (record_at sv' a)) True False None)))"

text \<open>
  \<^verbatim>\<open>wait\<close>: an answer at once, or after its record's completion or the timeout, whichever comes
  first; \<^verbatim>\<open>reconnect\<close> up to the call of the adapter.
\<close>

datatype wait_progress = WaitAnswered terminal_status | WaitsFor nat

definition lifecycle_wait :: "lifecycle_service \<Rightarrow> int \<Rightarrow> maestro_handle \<Rightarrow> js_double option option
    \<Rightarrow> lifecycle_service \<times> (lifecycle_error + wait_progress)" where
  "lifecycle_wait sv now h timeoutMs = (case findRecord sv now h of
      (sv', None) \<Rightarrow> (sv', Inr (WaitAnswered (terminalStatus now h LcUnknown True False (Some ''UNKNOWN_HANDLE''))))
    | (sv', Some a) \<Rightarrow>
        let r = record_at sv' a in
        if (case timeoutMs of None \<Rightarrow> False | Some None \<Rightarrow> True | Some (Some ms) \<Rightarrow> mantissa ms < 0)
        then (sv', Inl InvalidRequest)
        else if isMaestroTerminalState (lr_state r)
        then (sv', Inr (WaitAnswered (terminalStatus now (lr_handle r) (lr_state r) True False None)))
        else (sv', Inr (WaitsFor a)))"

definition lifecycle_wait_resume :: "lifecycle_service \<Rightarrow> int \<Rightarrow> nat \<Rightarrow> bool \<Rightarrow> terminal_status" where
  "lifecycle_wait_resume sv now a completed =
     (let r = record_at sv a in
      if \<not> completed then terminalStatus now (lr_handle r) (lr_state r) False True None
      else terminalStatus now (lr_handle r) (lr_state r) (isMaestroTerminalState (lr_state r)) False None)"

datatype reconnect_progress = ReconnectAnswered bool lifecycle_state "string option" | ReconnectAsksAdapter maestro_handle maestro_status

definition lifecycle_reconnect :: "lifecycle_service \<Rightarrow> int \<Rightarrow> maestro_handle \<Rightarrow> lifecycle_service \<times> reconnect_progress" where
  "lifecycle_reconnect sv now h = (case findRecord sv now h of
      (sv', None) \<Rightarrow> (sv', ReconnectAnswered False LcUnknown (Some ''RECONNECT_UNAVAILABLE''))
    | (sv', Some a) \<Rightarrow>
        let r = record_at sv' a in
        if \<not> ad_reconnect (lr_adapter r) then (sv', ReconnectAnswered False (lr_state r) (Some ''RECONNECT_UNSUPPORTED''))
        else (sv', ReconnectAsksAdapter (lr_handle r) (snapshot r)))"

section \<open>Running a launch\<close>

text \<open>The catch clause of \<^verbatim>\<open>runLaunch\<close>, for an error with this name and message.\<close>

definition launch_failed :: "(maestro_result \<Rightarrow> string) \<Rightarrow> step_env \<Rightarrow> lifecycle_service \<Rightarrow> nat \<Rightarrow> string \<Rightarrow> string
    \<Rightarrow> lifecycle_service \<times> (lifecycle_error + unit)" where
  "launch_failed digest env sv a errorName message =
     (if isMaestroTerminalState (lr_state (record_at sv a)) then (sv, Inr ())
      else lifecycle_complete digest env sv a ((bare_completion TFailed None)\<lparr>co_errorClassification := Some errorName,
             co_errorMessage := Some message\<rparr>))"

definition transition_message :: "lifecycle_state \<Rightarrow> lifecycle_state \<Rightarrow> string" where
  "transition_message from to = ''Illegal lifecycle transition: '' @ state_name from @ '' -> '' @ state_name to"

text \<open>\<^verbatim>\<open>runLaunch\<close> until the adapter is called; the flag tells whether it is.\<close>

definition launch_begin :: "(maestro_result \<Rightarrow> string) \<Rightarrow> step_env \<Rightarrow> lifecycle_service \<Rightarrow> nat
    \<Rightarrow> lifecycle_service \<times> (lifecycle_error + bool)" where
  "launch_begin digest env sv a =
     (let s = lr_state (record_at sv a) in
      if isMaestroTerminalState s then (sv, Inr False)
      else if s = LcCancelRequested
      then (case lifecycle_complete digest env sv a (bare_completion TCancelled (Some ''Cancelled before launch'')) of
              (sv', Inl e) \<Rightarrow> (sv', Inl e) | (sv', Inr _) \<Rightarrow> (sv', Inr False))
      else if s = LcPending
      then (case lifecycle_transition sv (en_now env) a LcStarting of
              (sv', Inl e) \<Rightarrow>
                (case launch_failed digest env sv' a ''MaestroLifecycleError'' (transition_message s LcStarting) of
                   (sv'', Inl e') \<Rightarrow> (sv'', Inl e') | (sv'', Inr _) \<Rightarrow> (sv'', Inr False))
            | (sv', Inr _) \<Rightarrow> (sv', Inr True))
      else (sv, Inr True))"

text \<open>The control object's methods; an error goes to the adapter that called them.\<close>

definition control_transition :: "lifecycle_service \<Rightarrow> int \<Rightarrow> nat \<Rightarrow> bool \<Rightarrow> control_updates option
    \<Rightarrow> lifecycle_service \<times> (lifecycle_error + unit)" where
  "control_transition sv now a waiting updates =
     (let target = (if waiting then LcWaitingInput else LcRunning) in
      if isMaestroTerminalState (lr_state (record_at sv a)) then (sv, Inr ())
      else case applyUpdates sv now a updates of
             (sv', Inl e) \<Rightarrow> (sv', Inl e)
           | (sv', Inr _) \<Rightarrow>
               if lr_state (record_at sv' a) \<noteq> target then lifecycle_transition sv' now a target else (sv', Inr ()))"

definition control_update :: "lifecycle_service \<Rightarrow> int \<Rightarrow> nat \<Rightarrow> control_updates \<Rightarrow> lifecycle_service \<times> (lifecycle_error + unit)" where
  "control_update sv now a updates =
     (if isMaestroTerminalState (lr_state (record_at sv a)) then (sv, Inr ()) else applyUpdates sv now a (Some updates))"

text \<open>The rest of \<^verbatim>\<open>runLaunch\<close> after the adapter's promise is fulfilled.\<close>

definition launch_finish :: "(maestro_result \<Rightarrow> string) \<Rightarrow> step_env \<Rightarrow> lifecycle_service \<Rightarrow> nat \<Rightarrow> lifecycle_completion
    \<Rightarrow> lifecycle_service \<times> (lifecycle_error + unit)" where
  "launch_finish digest env sv a c =
     (if isMaestroTerminalState (lr_state (record_at sv a)) then (sv, Inr ())
      else case (if lr_state (record_at sv a) = LcStarting then lifecycle_transition sv (en_now env) a LcRunning else (sv, Inr ())) of
        (sv1, Inl _) \<Rightarrow> launch_failed digest env sv1 a ''MaestroLifecycleError''
            (transition_message (lr_state (record_at sv1 a)) LcRunning)
      | (sv1, Inr _) \<Rightarrow>
          let t = normalizeCompletionState (lr_state (record_at sv1 a)) (co_state c) in
          (case lifecycle_complete digest env sv1 a (c\<lparr>co_state := t\<rparr>) of
             (sv2, Inl _) \<Rightarrow> launch_failed digest env sv2 a ''MaestroLifecycleError''
                 (transition_message (lr_state (record_at sv1 a)) (state_of_terminal t))
           | (sv2, Inr _) \<Rightarrow> (sv2, Inr ())))"

end
