(* ===== verification/Lifecycle_Props.thy ===== *)
theory Lifecycle_Props
  imports Lifecycle_Service
begin

text \<open>
  The lifecycle service over time: every step of it, the invariant of its records, that
  states move along legal transitions only and stop at a terminal one, that every launch
  ends, and what a finished child hands to its parent's completion queue.
\<close>

section \<open>Steps\<close>

inductive lifecycle_step :: "(maestro_result \<Rightarrow> string) \<Rightarrow> lifecycle_service \<Rightarrow> lifecycle_service \<Rightarrow> bool" for digest where
  ls_launch: "lifecycle_launch sv now uuid cap q i = (sv', res) \<Longrightarrow> lifecycle_step digest sv sv'"
| ls_begin: "a < length (sv_objects sv) \<Longrightarrow> launch_begin digest env sv a = (sv', r1) \<Longrightarrow> lifecycle_step digest sv sv'"
| ls_control: "a < length (sv_objects sv) \<Longrightarrow> control_transition sv now a w u = (sv', r2) \<Longrightarrow> lifecycle_step digest sv sv'"
| ls_update: "a < length (sv_objects sv) \<Longrightarrow> control_update sv now a u2 = (sv', r3) \<Longrightarrow> lifecycle_step digest sv sv'"
| ls_finish: "a < length (sv_objects sv) \<Longrightarrow> launch_finish digest env sv a c = (sv', r4) \<Longrightarrow> lifecycle_step digest sv sv'"
| ls_failed: "a < length (sv_objects sv) \<Longrightarrow> launch_failed digest env sv a n m = (sv', r5) \<Longrightarrow> lifecycle_step digest sv sv'"
| ls_status: "lifecycle_status sv now h = (sv', r6) \<Longrightarrow> lifecycle_step digest sv sv'"
| ls_result: "lifecycle_result sv now h = (sv', r7) \<Longrightarrow> lifecycle_step digest sv sv'"
| ls_waiting: "lifecycle_setWaitingInput sv now h w = (sv', r8) \<Longrightarrow> lifecycle_step digest sv sv'"
| ls_cancel: "lifecycle_cancel sv now h = (sv', r9) \<Longrightarrow> lifecycle_step digest sv sv'"
| ls_cancel_attached: "lifecycle_cancelAttached sv now h at = (sv', r9) \<Longrightarrow> lifecycle_step digest sv sv'"
| ls_cancel_resume: "a < length (sv_objects sv) \<Longrightarrow> lifecycle_cancel_resume sv now a acc = (sv', r10) \<Longrightarrow>
    lifecycle_step digest sv sv'"
| ls_attach: "lifecycle_attach sv now cap h ow = (sv', r11) \<Longrightarrow> lifecycle_step digest sv sv'"
| ls_detach: "lifecycle_detach sv now at = (sv', r12) \<Longrightarrow> lifecycle_step digest sv sv'"
| ls_subscribe: "lifecycle_subscribe sv now h l = (sv', r13) \<Longrightarrow> lifecycle_step digest sv sv'"
| ls_unsubscribe: "lifecycle_step digest sv (lifecycle_unsubscribe sv a l)"
| ls_stop: "lifecycle_stop sv now h = (sv', r14) \<Longrightarrow> lifecycle_step digest sv sv'"
| ls_stop_resume: "a < length (sv_objects sv) \<Longrightarrow> lr_state (record_at sv a) \<in> {LcCancelRequested} \<union> Collect isMaestroTerminalState \<Longrightarrow>
    lifecycle_stop_resume digest env sv a = (sv', r15) \<Longrightarrow> lifecycle_step digest sv sv'"
| ls_wait: "lifecycle_wait sv now h t = (sv', r16) \<Longrightarrow> lifecycle_step digest sv sv'"
| ls_reconnect: "lifecycle_reconnect sv now h = (sv', r17) \<Longrightarrow> lifecycle_step digest sv sv'"

inductive lifecycle_reachable :: "(maestro_result \<Rightarrow> string) \<Rightarrow> lifecycle_service \<Rightarrow> bool" for digest where
  lc_new: "service_new adapters retention queue = Inr sv \<Longrightarrow> lifecycle_reachable digest sv"
| lc_step: "lifecycle_reachable digest sv \<Longrightarrow> lifecycle_step digest sv sv' \<Longrightarrow> lifecycle_reachable digest sv'"

section \<open>The invariant of a record and how records advance\<close>

definition lifecycle_record_ok :: "lifecycle_record \<Rightarrow> bool" where
  "lifecycle_record_ok r \<longleftrightarrow> lr_state r \<noteq> LcUnknown \<and>
     (lr_completedAt r \<noteq> None \<longleftrightarrow> isMaestroTerminalState (lr_state r)) \<and>
     (lr_resolved r \<longleftrightarrow> isMaestroTerminalState (lr_state r)) \<and>
     (case lr_owner r of None \<Rightarrow> True | Some own \<Rightarrow> at_ownerGeneration own = lr_ownerGeneration r) \<and>
     (case lr_result r of
        None \<Rightarrow> \<not> isMaestroTerminalState (lr_state r)
      | Some res \<Rightarrow> isMaestroTerminalState (lr_state r) \<and> mr_terminalState res = lr_state r \<and> mr_ready res \<and>
          mr_handle res = lr_handle r)"

definition advances :: "lifecycle_record \<Rightarrow> lifecycle_record \<Rightarrow> bool" where
  "advances r r' \<longleftrightarrow> isLegalMaestroTransition\<^sup>*\<^sup>* (lr_state r) (lr_state r') \<and> lr_handle r' = lr_handle r \<and>
     (isMaestroTerminalState (lr_state r) \<longrightarrow> lr_result r' = lr_result r \<and> lr_completedAt r' = lr_completedAt r) \<and>
     lr_ownerGeneration r \<le> lr_ownerGeneration r' \<and> (lifecycle_record_ok r \<longrightarrow> lifecycle_record_ok r')"

lemma terminal_stays: "isLegalMaestroTransition\<^sup>*\<^sup>* s s' \<Longrightarrow> isMaestroTerminalState s \<Longrightarrow> s' = s"
  by (metis converse_rtranclpE terminal_no_exit)

lemma advances_refl [simp]: "advances r r"
  by (simp add: advances_def)

lemma advances_trans:
  assumes "advances r r'" "advances r' r''"
  shows "advances r r''"
proof -
  have "isLegalMaestroTransition\<^sup>*\<^sup>* (lr_state r) (lr_state r'')" using assms by (auto simp: advances_def)
  moreover have "isMaestroTerminalState (lr_state r) \<Longrightarrow> isMaestroTerminalState (lr_state r')"
    using assms(1) terminal_stays by (fastforce simp: advances_def)
  ultimately show ?thesis using assms by (auto simp: advances_def)
qed

definition objects_advance :: "lifecycle_record list \<Rightarrow> lifecycle_record list \<Rightarrow> bool" where
  "objects_advance xs ys \<longleftrightarrow> length xs \<le> length ys \<and> (\<forall>b < length xs. advances (xs ! b) (ys ! b)) \<and>
     (\<forall>b. length xs \<le> b \<and> b < length ys \<longrightarrow> lifecycle_record_ok (ys ! b))"

lemma objects_advance_refl [simp]: "objects_advance xs xs"
  by (auto simp: objects_advance_def)

lemma objects_advance_trans:
  assumes "objects_advance xs ys" "objects_advance ys zs"
  shows "objects_advance xs zs"
proof -
  have "lifecycle_record_ok (zs ! b)" if b: "length xs \<le> b" "b < length zs" for b
  proof (cases "b < length ys")
    case True
    then have "lifecycle_record_ok (ys ! b)" "advances (ys ! b) (zs ! b)" using assms b by (auto simp: objects_advance_def)
    then show ?thesis by (simp add: advances_def)
  next
    case False
    then show ?thesis using assms(2) b by (auto simp: objects_advance_def)
  qed
  then show ?thesis
    using assms by (auto simp: objects_advance_def intro: advances_trans)
qed

lemma objects_advance_update: "(a < length xs \<Longrightarrow> advances (xs ! a) r) \<Longrightarrow> objects_advance xs (xs[a := r])"
  by (cases "a < length xs") (auto simp: objects_advance_def nth_list_update list_update_beyond)

text \<open>Changes of a record that its invariant does not look at.\<close>

lemma advances_frame:
  assumes "lr_state r' = lr_state r" "lr_handle r' = lr_handle r" "lr_result r' = lr_result r"
    "lr_completedAt r' = lr_completedAt r" "lr_resolved r' = lr_resolved r" "lr_ownerGeneration r \<le> lr_ownerGeneration r'"
    and "lr_owner r' = lr_owner r \<and> lr_ownerGeneration r' = lr_ownerGeneration r \<or>
      (\<forall>own. lr_owner r' = Some own \<longrightarrow> at_ownerGeneration own = lr_ownerGeneration r')"
  shows "advances r r'"
  unfolding advances_def lifecycle_record_ok_def assms(1-5) using assms(6,7) by (auto split: option.splits)

section \<open>Primitives\<close>

lemma lifecycle_emit_objects [simp]: "sv_objects (lifecycle_emit sv a) = sv_objects sv"
  by (simp add: lifecycle_emit_def Let_def)

lemma set_record_objects [simp]: "sv_objects (set_record sv a r) = (sv_objects sv)[a := r]"
  by (simp add: set_record_def)

lemma cleanupExpired_objects [simp]: "sv_objects (cleanupExpired sv now) = sv_objects sv"
proof -
  have "sv_objects (foldl forget s es) = sv_objects s" for s es
    by (induction es arbitrary: s) (auto simp: forget_def split: prod.splits)
  then show ?thesis by (simp add: cleanupExpired_def)
qed

lemma findRecord_objects: "findRecord sv now h = (sv', x) \<Longrightarrow> sv_objects sv' = sv_objects sv"
  by (auto simp: findRecord_def Let_def)

definition moved :: "lifecycle_record \<Rightarrow> int \<Rightarrow> lifecycle_state \<Rightarrow> lifecycle_record" where
  "moved r now s = r\<lparr>lr_state := s, lr_updatedAt := Stamp now,
     lr_startedAt := (if s = LcRunning \<and> lr_startedAt r = None then Some (Stamp now) else lr_startedAt r)\<rparr>"

lemma lifecycle_transition_cases:
  "lifecycle_transition sv now a s = (if isLegalMaestroTransition (lr_state (record_at sv a)) s
     then (lifecycle_emit (set_record sv a (moved (record_at sv a) now s)) a, Inr ()) else (sv, Inl InvalidTransition))"
  by (simp add: lifecycle_transition_def moved_def Let_def)

lemma advances_moved:
  assumes "isLegalMaestroTransition (lr_state r) s" "\<not> isMaestroTerminalState s"
  shows "advances r (moved r now s)"
  using assms terminal_no_exit [of "lr_state r"] legal_not_unknown
  by (auto simp: advances_def moved_def lifecycle_record_ok_def split: option.splits)

lemma transition_advances:
  assumes "lifecycle_transition sv now a s = (sv', res)" "\<not> isMaestroTerminalState s"
  shows "objects_advance (sv_objects sv) (sv_objects sv')"
  using assms advances_moved
  by (auto simp: lifecycle_transition_cases intro!: objects_advance_update split: if_splits)

lemma applyUpdates_advances:
  assumes "applyUpdates sv now a u = (sv', res)"
  shows "objects_advance (sv_objects sv) (sv_objects sv') \<and> lr_state (record_at sv' a) = lr_state (record_at sv a)"
  using assms
  by (auto simp: applyUpdates_def Let_def nth_update_field [where f = lr_state] split: option.splits sum.splits
      intro!: objects_advance_update advances_frame)

section \<open>Completion\<close>

lemma hand_off_effect:
  "\<exists>f. sv_objects (hand_off env sv a c h) =
      (sv_objects sv)[a := (record_at sv a)\<lparr>lr_result := map_option f (lr_result (record_at sv a))\<rparr>] \<and>
    (\<forall>res. mr_terminalState (f res) = mr_terminalState res \<and> mr_ready (f res) = mr_ready res \<and> mr_handle (f res) = mr_handle res)"
proof -
  have keep: "(sv_objects sv)[a := (record_at sv a)\<lparr>lr_result := map_option id (lr_result (record_at sv a))\<rparr>] = sv_objects sv"
    by (simp add: option.map_id)
  show ?thesis
  proof (cases "(truthy (mh_parentInstanceId (lr_handle (record_at sv a))) \<or>
      truthy (mh_parentSessionId (lr_handle (record_at sv a)))) \<and> co_handoffState c = None")
    case False
    then have "sv_objects (hand_off env sv a c h) = sv_objects sv" by (auto simp: hand_off_def Let_def)
    then show ?thesis using keep by (metis id_apply)
  next
    case True
    have "\<exists>hs d. sv_objects (hand_off env sv a c h) = (sv_objects sv)[a := set_handoff (record_at sv a) hs d]"
    proof (cases "sv_queue sv")
      case (Some p)
      obtain opts q where p: "p = (opts, q)" by (cases p)
      obtain q' x where "queue_enqueue opts (en_now env) (en_now env) (en_uuid env)
          (handoff_input (record_at sv a) c (Stamp (en_now env)) h) q = (q', x)" by fastforce
      with True Some p show ?thesis by (cases x) (auto simp: hand_off_def Let_def)
    qed (use True in \<open>auto simp: hand_off_def Let_def\<close>)
    then obtain hs d where "sv_objects (hand_off env sv a c h) = (sv_objects sv)[a := set_handoff (record_at sv a) hs d]"
      by blast
    then show ?thesis
      by (intro exI [of _ "\<lambda>res. res\<lparr>mr_handoffState := Some hs,
        mr_handoffDiagnostic := (case d of None \<Rightarrow> mr_handoffDiagnostic res | Some d \<Rightarrow> Some d)\<rparr>"]) (simp add: set_handoff_def)
  qed
qed

text \<open>The record that a completion to a legal state leaves.\<close>

definition completed_as :: "lifecycle_record \<Rightarrow> maestro_terminal \<Rightarrow> lifecycle_record \<Rightarrow> bool" where
  "completed_as r t r' \<longleftrightarrow> lr_state r' = state_of_terminal t \<and> lr_resolved r' \<and> lr_completedAt r' \<noteq> None \<and>
     lr_handle r' = lr_handle r \<and> lr_ownerGeneration r' = lr_ownerGeneration r \<and> lr_owner r' = lr_owner r \<and>
     (\<exists>res. lr_result r' = Some res \<and> mr_terminalState res = state_of_terminal t \<and> mr_ready res \<and> mr_handle res = lr_handle r)"

lemma completed_as_advances:
  assumes "completed_as r t r'" "isLegalMaestroTransition (lr_state r) (state_of_terminal t)"
  shows "advances r r'"
proof -
  have "state_of_terminal t \<noteq> LcUnknown" by (cases t) simp_all
  then show ?thesis
    using assms terminal_no_exit [of "lr_state r" "state_of_terminal t"]
    by (auto simp: completed_as_def advances_def lifecycle_record_ok_def split: option.splits)
qed

lemma result_of_fields [simp]:
  "mr_terminalState (result_of digest r c at) = state_of_terminal (co_state c)"
  "mr_ready (result_of digest r c at)" "mr_handle (result_of digest r c at) = lr_handle r"
  by (simp_all add: result_of_def Let_def)

lemma complete_legal:
  assumes a: "a < length (sv_objects sv)"
    and legal: "isLegalMaestroTransition (lr_state (record_at sv a)) (state_of_terminal (co_state c))"
  shows "\<exists>sv' r'. lifecycle_complete digest env sv a c = (sv', Inr ()) \<and>
    sv_objects sv' = (sv_objects sv)[a := r'] \<and> completed_as (record_at sv a) (co_state c) r'"
proof -
  define r where "r = record_at sv a"
  define res where "res = result_of digest r c (Stamp (en_now env))"
  define m where "m = moved (r\<lparr>lr_completedAt := Some (Stamp (en_now env)), lr_result := Some res\<rparr>) (en_now env) (state_of_terminal (co_state c))"
  define sv1 where "sv1 = set_record sv a (r\<lparr>lr_completedAt := Some (Stamp (en_now env)), lr_result := Some res\<rparr>)"
  define sv2 where "sv2 = lifecycle_emit (set_record sv1 a m) a"
  define sv3 where "sv3 = hand_off env sv2 a c (case mr_resultHash res of Some h \<Rightarrow> h | None \<Rightarrow> [])"
  have at1: "record_at sv1 a = r\<lparr>lr_completedAt := Some (Stamp (en_now env)), lr_result := Some res\<rparr>" using a by (simp add: sv1_def)
  have trans: "lifecycle_transition sv1 (en_now env) a (state_of_terminal (co_state c)) = (sv2, Inr ())"
    using legal by (simp add: lifecycle_transition_cases at1 m_def sv2_def r_def)
  have eq: "lifecycle_complete digest env sv a c = (set_record sv3 a ((record_at sv3 a)\<lparr>lr_resolved := True\<rparr>), Inr ())"
    unfolding lifecycle_complete_def Let_def r_def [symmetric] res_def [symmetric] sv1_def [symmetric] trans
    by (simp add: sv3_def)
  have objs2: "sv_objects sv2 = (sv_objects sv)[a := m]" by (simp add: sv2_def sv1_def)
  obtain f where f: "sv_objects sv3 = (sv_objects sv2)[a := (record_at sv2 a)\<lparr>lr_result := map_option f (lr_result (record_at sv2 a))\<rparr>]"
      "\<forall>res. mr_terminalState (f res) = mr_terminalState res \<and> mr_ready (f res) = mr_ready res \<and> mr_handle (f res) = mr_handle res"
    using hand_off_effect [of env sv2 a c] unfolding sv3_def by blast
  define r' where "r' = m\<lparr>lr_result := map_option f (lr_result m), lr_resolved := True\<rparr>"
  have "sv_objects (set_record sv3 a ((record_at sv3 a)\<lparr>lr_resolved := True\<rparr>)) = (sv_objects sv)[a := r']"
    using a by (simp add: f(1) objs2 r'_def)
  moreover have "completed_as r (co_state c) r'" using f(2) by (simp add: completed_as_def r'_def m_def moved_def res_def)
  ultimately show ?thesis using eq unfolding r_def by blast
qed

lemma complete_illegal:
  assumes "a < length (sv_objects sv)"
    and "\<not> isLegalMaestroTransition (lr_state (record_at sv a)) (state_of_terminal (co_state c))"
  shows "\<exists>sv' at res. lifecycle_complete digest env sv a c = (sv', Inl InvalidTransition) \<and>
    sv_objects sv' = (sv_objects sv)[a := (record_at sv a)\<lparr>lr_completedAt := at, lr_result := res\<rparr>]"
proof -
  have "lifecycle_complete digest env sv a c = (set_record sv a ((record_at sv a)\<lparr>lr_completedAt := Some (Stamp (en_now env)),
      lr_result := Some (result_of digest (record_at sv a) c (Stamp (en_now env)))\<rparr>), Inl InvalidTransition)"
    using assms by (simp add: lifecycle_complete_def lifecycle_transition_cases Let_def)
  then show ?thesis by (metis set_record_objects)
qed

lemma complete_advances:
  assumes "a < length (sv_objects sv)" "isLegalMaestroTransition (lr_state (record_at sv a)) (state_of_terminal (co_state c))"
    and "lifecycle_complete digest env sv a c = (sv', res)"
  shows "objects_advance (sv_objects sv) (sv_objects sv')"
  using complete_legal [OF assms(1,2), of digest env] assms(2,3) completed_as_advances
  by (auto intro!: objects_advance_update)

text \<open>The catch clause completes any record that is not terminal, whatever it was marked with before.\<close>

lemma launch_failed_completes:
  assumes "a < length (sv_objects sv)" "\<not> isMaestroTerminalState (lr_state (record_at sv a))" "lr_state (record_at sv a) \<noteq> LcUnknown"
  shows "\<exists>sv' r'. launch_failed digest env sv a n m = (sv', Inr ()) \<and>
    sv_objects sv' = (sv_objects sv)[a := r'] \<and> completed_as (record_at sv a) TFailed r'"
  using complete_legal [of a sv "(bare_completion TFailed None)\<lparr>co_errorClassification := Some n, co_errorMessage := Some m\<rparr>" digest env]
    failed_always_legal [OF assms(2,3)] assms
  by (simp add: launch_failed_def bare_completion_def)

text \<open>
  A launch that the adapter finishes, on a record that is not terminal: the completion if its
  state is legal, the catch clause otherwise. \<open>r0\<close> is the record after a launch that never
  reported to be running is moved to \<^verbatim>\<open>RUNNING\<close>.
\<close>

lemma launch_finish_cases:
  assumes a: "a < length (sv_objects sv)" and open_state: "\<not> isMaestroTerminalState (lr_state (record_at sv a))"
    and known: "lr_state (record_at sv a) \<noteq> LcUnknown"
  obtains r0 where "advances (record_at sv a) r0" "\<not> isMaestroTerminalState (lr_state r0)" "lr_state r0 \<noteq> LcUnknown"
    "(\<exists>sv1 t. sv_objects sv1 = (sv_objects sv)[a := r0] \<and> isLegalMaestroTransition (lr_state r0) (state_of_terminal t) \<and>
        launch_finish digest env sv a c = lifecycle_complete digest env sv1 a (c\<lparr>co_state := t\<rparr>)) \<or>
     (\<exists>sv2 at res n m. sv_objects sv2 = (sv_objects sv)[a := r0\<lparr>lr_completedAt := at, lr_result := res\<rparr>] \<and>
        launch_finish digest env sv a c = launch_failed digest env sv2 a n m)"
proof -
  define sv1 where "sv1 = (if lr_state (record_at sv a) = LcStarting
    then lifecycle_emit (set_record sv a (moved (record_at sv a) (en_now env) LcRunning)) a else sv)"
  define r0 where "r0 = record_at sv1 a"
  have starting: "(if lr_state (record_at sv a) = LcStarting then lifecycle_transition sv (en_now env) a LcRunning else (sv, Inr ())) =
      (sv1, Inr ())"
    by (simp add: sv1_def lifecycle_transition_cases isLegalMaestroTransition_def)
  have objs1: "sv_objects sv1 = (sv_objects sv)[a := r0]" "a < length (sv_objects sv1)"
    using a by (simp_all add: sv1_def r0_def)
  have adv: "advances (record_at sv a) r0"
    using a advances_moved [of "record_at sv a" LcRunning "en_now env"]
    by (auto simp: r0_def sv1_def isLegalMaestroTransition_def isMaestroTerminalState_def)
  have r0_open: "\<not> isMaestroTerminalState (lr_state r0)" "lr_state r0 \<noteq> LcUnknown"
    using a open_state known by (auto simp: r0_def sv1_def moved_def isMaestroTerminalState_def)
  define t where "t = normalizeCompletionState (lr_state r0) (co_state c)"
  show ?thesis
  proof (cases "isLegalMaestroTransition (lr_state r0) (state_of_terminal t)")
    case True
    then obtain sv' where "lifecycle_complete digest env sv1 a (c\<lparr>co_state := t\<rparr>) = (sv', Inr ())"
      using complete_legal [OF objs1(2), of "c\<lparr>co_state := t\<rparr>" digest env] by (auto simp: r0_def)
    then have "launch_finish digest env sv a c = lifecycle_complete digest env sv1 a (c\<lparr>co_state := t\<rparr>)"
      using open_state starting by (simp add: launch_finish_def Let_def t_def r0_def)
    then show ?thesis using that [OF adv r0_open] objs1(1) True by blast
  next
    case False
    with complete_illegal [OF objs1(2), of "c\<lparr>co_state := t\<rparr>" digest env]
    obtain sv2 at res where err: "lifecycle_complete digest env sv1 a (c\<lparr>co_state := t\<rparr>) = (sv2, Inl InvalidTransition)"
        "sv_objects sv2 = (sv_objects sv1)[a := r0\<lparr>lr_completedAt := at, lr_result := res\<rparr>]"
      by (auto simp: r0_def)
    have "launch_finish digest env sv a c = launch_failed digest env sv2 a ''MaestroLifecycleError''
          (transition_message (lr_state r0) (state_of_terminal t))"
      using open_state starting err(1) by (simp add: launch_finish_def Let_def t_def r0_def)
    moreover have "sv_objects sv2 = (sv_objects sv)[a := r0\<lparr>lr_completedAt := at, lr_result := res\<rparr>]"
      using err(2) objs1(1) by simp
    ultimately show ?thesis using that [OF adv r0_open] by blast
  qed
qed

lemma launch_finish_completes:
  assumes a: "a < length (sv_objects sv)" and open_state: "\<not> isMaestroTerminalState (lr_state (record_at sv a))"
    and known: "lr_state (record_at sv a) \<noteq> LcUnknown"
  shows "\<exists>sv' r0 t r'. launch_finish digest env sv a c = (sv', Inr ()) \<and> advances (record_at sv a) r0 \<and>
    isLegalMaestroTransition (lr_state r0) (state_of_terminal t) \<and>
    sv_objects sv' = (sv_objects sv)[a := r'] \<and> completed_as r0 t r'"
proof (rule launch_finish_cases [OF assms, of digest env c], elim disjE exE conjE)
  fix r0 sv1 t
  assume r0: "advances (record_at sv a) r0" and objs: "sv_objects sv1 = (sv_objects sv)[a := r0]"
    and legal: "isLegalMaestroTransition (lr_state r0) (state_of_terminal t)"
    and eq: "launch_finish digest env sv a c = lifecycle_complete digest env sv1 a (c\<lparr>co_state := t\<rparr>)"
  have "a < length (sv_objects sv1)" "record_at sv1 a = r0" using a objs by simp_all
  then show ?thesis
    using complete_legal [of a sv1 "c\<lparr>co_state := t\<rparr>" digest env] legal r0 objs eq by auto
next
  fix r0 sv2 at res n m
  assume r0: "advances (record_at sv a) r0" "\<not> isMaestroTerminalState (lr_state r0)" "lr_state r0 \<noteq> LcUnknown"
    and objs: "sv_objects sv2 = (sv_objects sv)[a := r0\<lparr>lr_completedAt := at, lr_result := res\<rparr>]"
    and eq: "launch_finish digest env sv a c = launch_failed digest env sv2 a n m"
  have at2: "a < length (sv_objects sv2)" "record_at sv2 a = r0\<lparr>lr_completedAt := at, lr_result := res\<rparr>" using a objs by simp_all
  obtain sv' r' where fin: "launch_failed digest env sv2 a n m = (sv', Inr ())"
      "sv_objects sv' = (sv_objects sv2)[a := r']" "completed_as (record_at sv2 a) TFailed r'"
    using launch_failed_completes [OF at2(1), of digest env n m] r0 at2(2) by auto
  have "completed_as r0 TFailed r'" using fin(3) at2(2) by (simp add: completed_as_def)
  moreover have "isLegalMaestroTransition (lr_state r0) (state_of_terminal TFailed)"
    using failed_always_legal [OF r0(2,3)] by simp
  moreover have "sv_objects sv' = (sv_objects sv)[a := r']" using fin(2) objs by simp
  ultimately show ?thesis using r0(1) fin(1) eq by metis
qed

section \<open>Every step advances the records\<close>

definition lifecycle_ok :: "lifecycle_service \<Rightarrow> bool" where
  "lifecycle_ok sv \<longleftrightarrow> (\<forall>r \<in> set (sv_objects sv). lifecycle_record_ok r)"

lemma lifecycle_ok_at: "lifecycle_ok sv \<Longrightarrow> a < length (sv_objects sv) \<Longrightarrow> lifecycle_record_ok (record_at sv a)"
  by (simp add: lifecycle_ok_def)

lemma objects_advance_ok: "lifecycle_ok sv \<Longrightarrow> objects_advance (sv_objects sv) (sv_objects sv') \<Longrightarrow> lifecycle_ok sv'"
  unfolding lifecycle_ok_def objects_advance_def advances_def
  by (metis in_set_conv_nth leI)

lemma known_state: "lifecycle_ok sv \<Longrightarrow> a < length (sv_objects sv) \<Longrightarrow> lr_state (record_at sv a) \<noteq> LcUnknown"
  using lifecycle_ok_at lifecycle_record_ok_def by blast

lemma not_terminal_simps [simp]:
  "\<not> isMaestroTerminalState LcPending" "\<not> isMaestroTerminalState LcStarting" "\<not> isMaestroTerminalState LcRunning"
  "\<not> isMaestroTerminalState LcWaitingInput" "\<not> isMaestroTerminalState LcCancelRequested" "\<not> isMaestroTerminalState LcUnknown"
  by (simp_all add: isMaestroTerminalState_def)

lemma launch_advances:
  assumes "lifecycle_launch sv now uuid cap q i = (sv', res)"
  shows "objects_advance (sv_objects sv) (sv_objects sv')"
proof -
  have "objects_advance xs (xs @ [r])" if "lifecycle_record_ok r" for xs r
    using that by (auto simp: objects_advance_def nth_append)
  then show ?thesis
    using assms
    by (auto simp: lifecycle_launch_def Let_def lifecycle_record_ok_def split: sum.splits option.splits if_splits)
qed

lemma launch_begin_advances:
  assumes ok: "lifecycle_ok sv" and a: "a < length (sv_objects sv)" and eq: "launch_begin digest env sv a = (sv', res)"
  shows "objects_advance (sv_objects sv) (sv_objects sv')"
proof -
  have "objects_advance (sv_objects sv) (sv_objects sv')" if "lr_state (record_at sv a) = LcCancelRequested"
  proof -
    obtain sv1 x where c: "lifecycle_complete digest env sv a (bare_completion TCancelled (Some ''Cancelled before launch'')) = (sv1, x)"
      by fastforce
    have "sv' = sv1" using eq that c by (auto simp: launch_begin_def Let_def split: sum.splits)
    then show ?thesis
      using complete_advances [OF a _ c] that by (simp add: bare_completion_def isLegalMaestroTransition_def)
  qed
  moreover have "objects_advance (sv_objects sv) (sv_objects sv')" if "lr_state (record_at sv a) = LcPending"
    using eq that advances_moved [of "record_at sv a" LcStarting "en_now env"]
    by (auto simp: launch_begin_def Let_def lifecycle_transition_cases isLegalMaestroTransition_def intro!: objects_advance_update)
  ultimately show ?thesis
    using eq by (auto simp: launch_begin_def Let_def split: if_splits)
qed

lemma control_transition_advances:
  assumes "control_transition sv now a w u = (sv', res)"
  shows "objects_advance (sv_objects sv) (sv_objects sv')"
proof -
  obtain sv1 x where u: "applyUpdates sv now a u = (sv1, x)" by fastforce
  note adv = applyUpdates_advances [OF u]
  have "objects_advance (sv_objects sv1) (sv_objects sv')"
    if "lifecycle_transition sv1 now a (if w then LcWaitingInput else LcRunning) = (sv', res)"
    by (rule transition_advances [OF that]) simp
  then show ?thesis
    using assms u adv objects_advance_trans by (auto simp: control_transition_def Let_def split: if_splits sum.splits)
qed

lemma control_update_advances:
  "control_update sv now a u = (sv', res) \<Longrightarrow> objects_advance (sv_objects sv) (sv_objects sv')"
  using applyUpdates_advances by (fastforce simp: control_update_def split: if_splits)

lemma launch_finish_advances:
  assumes "lifecycle_ok sv" "a < length (sv_objects sv)" "launch_finish digest env sv a c = (sv', res)"
  shows "objects_advance (sv_objects sv) (sv_objects sv')"
proof (cases "isMaestroTerminalState (lr_state (record_at sv a))")
  case True
  then show ?thesis using assms(3) by (simp add: launch_finish_def)
next
  case False
  obtain r0 t r' where "advances (record_at sv a) r0" "isLegalMaestroTransition (lr_state r0) (state_of_terminal t)"
    "sv_objects sv' = (sv_objects sv)[a := r']" "completed_as r0 t r'"
    using launch_finish_completes [OF assms(2) False known_state [OF assms(1,2)], of digest env c] assms(3) by auto
  moreover from this have "advances (record_at sv a) r'" using advances_trans completed_as_advances by blast
  ultimately show ?thesis by (auto intro!: objects_advance_update)
qed

lemma launch_failed_advances:
  assumes "lifecycle_ok sv" "a < length (sv_objects sv)" "launch_failed digest env sv a n m = (sv', res)"
  shows "objects_advance (sv_objects sv) (sv_objects sv')"
proof (cases "isMaestroTerminalState (lr_state (record_at sv a))")
  case True
  then show ?thesis using assms(3) by (simp add: launch_failed_def)
next
  case False
  obtain r' where "sv_objects sv' = (sv_objects sv)[a := r']" "completed_as (record_at sv a) TFailed r'"
    using launch_failed_completes [OF assms(2) False known_state [OF assms(1,2)], of digest env n m] assms(3) by auto
  then show ?thesis
    using failed_always_legal [OF False known_state [OF assms(1,2)]]
    by (auto intro!: objects_advance_update completed_as_advances)
qed

lemma waiting_advances:
  assumes "lifecycle_setWaitingInput sv now h w = (sv', res)"
  shows "objects_advance (sv_objects sv) (sv_objects sv')"
proof -
  obtain sv1 x where f: "findRecord sv now h = (sv1, x)" by fastforce
  note objs = findRecord_objects [OF f]
  show ?thesis
  proof (cases x)
    case (Some a)
    obtain sv2 y where t: "lifecycle_transition sv1 now a (if w then LcWaitingInput else LcRunning) = (sv2, y)" by fastforce
    have "objects_advance (sv_objects sv1) (sv_objects sv2)" by (rule transition_advances [OF t]) simp
    then show ?thesis
      using assms f objs Some t by (auto simp: lifecycle_setWaitingInput_def Let_def split: if_splits sum.splits)
  qed (use assms f objs in \<open>auto simp: lifecycle_setWaitingInput_def\<close>)
qed

lemma cancel_advances:
  assumes "lifecycle_cancel sv now h = (sv', res)"
  shows "objects_advance (sv_objects sv) (sv_objects sv')"
proof -
  obtain sv1 x where f: "findRecord sv now h = (sv1, x)" by fastforce
  note objs = findRecord_objects [OF f]
  show ?thesis
  proof (cases x)
    case (Some a)
    obtain sv2 y where t: "lifecycle_transition sv1 now a LcCancelRequested = (sv2, y)" by fastforce
    have "objects_advance (sv_objects sv1) (sv_objects sv2)" by (rule transition_advances [OF t]) simp
    then show ?thesis
      using assms f objs Some t by (auto simp: lifecycle_cancel_def Let_def split: if_splits sum.splits)
  qed (use assms f objs in \<open>auto simp: lifecycle_cancel_def\<close>)
qed

lemma cancel_attached_advances:
  assumes "lifecycle_cancelAttached sv now h at = (sv', res)"
  shows "objects_advance (sv_objects sv) (sv_objects sv')"
proof -
  obtain sv1 x where f: "findRecord sv now h = (sv1, x)" by fastforce
  note objs = findRecord_objects [OF f]
  show ?thesis
    using assms f objs cancel_advances [of sv1 now h sv' res]
    by (cases x) (auto simp: lifecycle_cancelAttached_def Let_def split: if_splits)
qed

lemma cancel_resume_advances:
  assumes "lifecycle_cancel_resume sv now a acc = (sv', res)"
  shows "objects_advance (sv_objects sv) (sv_objects sv')"
proof -
  obtain sv2 y where t: "lifecycle_transition sv now a LcCancelRequested = (sv2, y)" by fastforce
  have "objects_advance (sv_objects sv) (sv_objects sv2)" by (rule transition_advances [OF t]) simp
  then show ?thesis
    using assms t by (auto simp: lifecycle_cancel_resume_def Let_def split: if_splits sum.splits)
qed

lemma stop_advances:
  assumes "lifecycle_stop sv now h = (sv', res)"
  shows "objects_advance (sv_objects sv) (sv_objects sv')"
proof -
  obtain sv1 x where f: "findRecord sv now h = (sv1, x)" by fastforce
  note objs = findRecord_objects [OF f]
  show ?thesis
  proof (cases x)
    case (Some a)
    obtain sv2 y where t: "lifecycle_transition sv1 now a LcCancelRequested = (sv2, y)" by fastforce
    have "objects_advance (sv_objects sv1) (sv_objects sv2)" by (rule transition_advances [OF t]) simp
    then show ?thesis
      using assms f objs Some t by (auto simp: lifecycle_stop_def Let_def split: if_splits sum.splits)
  qed (use assms f objs in \<open>auto simp: lifecycle_stop_def\<close>)
qed

lemma stop_resume_advances:
  assumes a: "a < length (sv_objects sv)" and s: "lr_state (record_at sv a) = LcCancelRequested \<or> isMaestroTerminalState (lr_state (record_at sv a))"
    and eq: "lifecycle_stop_resume digest env sv a = (sv', res)"
  shows "objects_advance (sv_objects sv) (sv_objects sv')"
proof (cases "isMaestroTerminalState (lr_state (record_at sv a))")
  case True
  then show ?thesis using eq by (simp add: lifecycle_stop_resume_def)
next
  case False
  obtain sv1 x where c: "lifecycle_complete digest env sv a (bare_completion TCancelled (Some ''Stopped by Maestro'')) = (sv1, x)"
    by fastforce
  have "sv' = sv1" using eq False c by (auto simp: lifecycle_stop_resume_def split: sum.splits)
  then show ?thesis
    using complete_advances [OF a _ c] s False by (simp add: bare_completion_def isLegalMaestroTransition_def)
qed

lemma owner_advances:
  "lifecycle_attach sv now cap h ow = (sv', r1) \<Longrightarrow> objects_advance (sv_objects sv) (sv_objects sv')"
  "lifecycle_detach sv now at = (sv', r2) \<Longrightarrow> objects_advance (sv_objects sv) (sv_objects sv')"
  "lifecycle_subscribe sv now h l = (sv', r3) \<Longrightarrow> objects_advance (sv_objects sv) (sv_objects sv')"
  "objects_advance (sv_objects sv) (sv_objects (lifecycle_unsubscribe sv a l))"
  by (auto simp: lifecycle_attach_def lifecycle_detach_def lifecycle_subscribe_def lifecycle_unsubscribe_def Let_def
      findRecord_def split: option.splits if_splits intro!: objects_advance_update advances_frame)

lemma reading_objects:
  "lifecycle_status sv now h = (sv', r1) \<Longrightarrow> sv_objects sv' = sv_objects sv"
  "lifecycle_result sv now h = (sv', r2) \<Longrightarrow> sv_objects sv' = sv_objects sv"
  "lifecycle_wait sv now h t = (sv', r3) \<Longrightarrow> sv_objects sv' = sv_objects sv"
  "lifecycle_reconnect sv now h = (sv', r4) \<Longrightarrow> sv_objects sv' = sv_objects sv"
  by (auto simp: lifecycle_status_def lifecycle_result_def lifecycle_wait_def lifecycle_reconnect_def findRecord_def Let_def
      split: option.splits if_splits)

lemmas operation_advances = launch_advances launch_begin_advances control_transition_advances control_update_advances
  launch_finish_advances launch_failed_advances waiting_advances cancel_advances cancel_attached_advances
  cancel_resume_advances owner_advances stop_advances stop_resume_advances

lemma lifecycle_step_advances:
  assumes "lifecycle_step digest sv sv'" "lifecycle_ok sv"
  shows "objects_advance (sv_objects sv) (sv_objects sv')"
  using assms by (cases rule: lifecycle_step.cases) (auto intro: operation_advances dest: reading_objects)

lemma lifecycle_reachable_ok: "lifecycle_reachable digest sv \<Longrightarrow> lifecycle_ok sv"
proof (induction rule: lifecycle_reachable.induct)
  case (lc_new adapters retention queue sv)
  then show ?case by (auto simp: service_new_def bind_result_Inr_iff lifecycle_ok_def)
next
  case (lc_step sv sv')
  then show ?case using lifecycle_step_advances objects_advance_ok by blast
qed

section \<open>The map leads into the store\<close>

text \<open>Apart from a launch, an operation only removes entries from the map of records.\<close>

lemma emit_records [simp]: "sv_records (lifecycle_emit sv a) = sv_records sv"
  by (simp add: lifecycle_emit_def Let_def)

lemma set_record_records [simp]: "sv_records (set_record sv a r) = sv_records sv"
  by (simp add: set_record_def)

lemma cleanupExpired_records: "set (sv_records (cleanupExpired sv now)) \<subseteq> set (sv_records sv)"
proof -
  have "set (sv_records (foldl forget s es)) \<subseteq> set (sv_records s)" for s es
  proof (induction es arbitrary: s)
    case (Cons e es)
    then show ?case using set_js_delete by (fastforce simp: forget_def split: prod.splits)
  qed simp
  then show ?thesis by (simp add: cleanupExpired_def)
qed

lemma transition_records: "lifecycle_transition sv now a s = (sv', res) \<Longrightarrow> sv_records sv' = sv_records sv"
  by (auto simp: lifecycle_transition_cases split: if_splits)

lemma applyUpdates_records: "applyUpdates sv now a u = (sv', res) \<Longrightarrow> sv_records sv' = sv_records sv"
  by (auto simp: applyUpdates_def Let_def split: option.splits sum.splits)

lemma hand_off_records: "sv_records (hand_off env sv a c h) = sv_records sv"
  by (simp add: hand_off_def Let_def split: option.splits prod.splits sum.splits)

lemma complete_records: "lifecycle_complete digest env sv a c = (sv', res) \<Longrightarrow> sv_records sv' = sv_records sv"
  by (auto simp: lifecycle_complete_def Let_def hand_off_records dest!: transition_records split: prod.splits sum.splits)

lemma failed_records: "launch_failed digest env sv a n m = (sv', res) \<Longrightarrow> sv_records sv' = sv_records sv"
  by (auto simp: launch_failed_def dest: complete_records split: if_splits)

lemma begin_records: "launch_begin digest env sv a = (sv', res) \<Longrightarrow> sv_records sv' = sv_records sv"
  by (auto simp: launch_begin_def Let_def dest!: complete_records transition_records failed_records
      split: if_splits prod.splits sum.splits)

lemma finish_records: "launch_finish digest env sv a c = (sv', res) \<Longrightarrow> sv_records sv' = sv_records sv"
  by (auto simp: launch_finish_def Let_def dest!: complete_records transition_records failed_records
      split: if_splits prod.splits sum.splits)

lemma control_records:
  "control_transition sv now a w u = (sv', res) \<Longrightarrow> sv_records sv' = sv_records sv"
  "control_update sv now a u2 = (sv', res2) \<Longrightarrow> sv_records sv' = sv_records sv"
  "lifecycle_cancel_resume sv now a acc = (sv', res3) \<Longrightarrow> sv_records sv' = sv_records sv"
  "lifecycle_stop_resume digest env sv a = (sv', res4) \<Longrightarrow> sv_records sv' = sv_records sv"
  by (auto simp: control_transition_def control_update_def lifecycle_cancel_resume_def lifecycle_stop_resume_def Let_def
      dest!: complete_records transition_records applyUpdates_records split: if_splits prod.splits sum.splits)

lemma findRecord_records: "findRecord sv now h = (sv', x) \<Longrightarrow> set (sv_records sv') \<subseteq> set (sv_records sv)"
  using cleanupExpired_records by (auto simp: findRecord_def Let_def)

lemma lookup_records:
  assumes "findRecord sv now h = (sv1, x)"
  shows "lifecycle_status sv now h = (sv', r1) \<Longrightarrow> sv_records sv' = sv_records sv1"
    "lifecycle_result sv now h = (sv', r2) \<Longrightarrow> sv_records sv' = sv_records sv1"
    "lifecycle_wait sv now h t = (sv', r3) \<Longrightarrow> sv_records sv' = sv_records sv1"
    "lifecycle_reconnect sv now h = (sv', r4) \<Longrightarrow> sv_records sv' = sv_records sv1"
    "lifecycle_setWaitingInput sv now h w = (sv', r5) \<Longrightarrow> sv_records sv' = sv_records sv1"
    "lifecycle_cancel sv now h = (sv', r6) \<Longrightarrow> sv_records sv' = sv_records sv1"
    "lifecycle_stop sv now h = (sv', r7) \<Longrightarrow> sv_records sv' = sv_records sv1"
    "lifecycle_attach sv now cap h ow = (sv', r8) \<Longrightarrow> sv_records sv' = sv_records sv1"
    "lifecycle_subscribe sv now h l = (sv', r9) \<Longrightarrow> sv_records sv' = sv_records sv1"
  using assms
  by (auto simp: lifecycle_status_def lifecycle_result_def lifecycle_wait_def lifecycle_reconnect_def
      lifecycle_setWaitingInput_def lifecycle_cancel_def lifecycle_stop_def lifecycle_attach_def lifecycle_subscribe_def Let_def
      dest!: transition_records split: option.splits if_splits prod.splits sum.splits)

lemma cancel_attached_records:
  assumes "lifecycle_cancelAttached sv now h at = (sv', res)"
  shows "set (sv_records sv') \<subseteq> set (sv_records sv)"
proof -
  obtain sv1 x where f: "findRecord sv now h = (sv1, x)" by fastforce
  obtain sv2 y where f2: "findRecord sv1 now h = (sv2, y)" by fastforce
  have "lifecycle_cancel sv1 now h = (sv', res) \<Longrightarrow> sv_records sv' = sv_records sv2" by (rule lookup_records(6) [OF f2])
  then show ?thesis
    using assms f findRecord_records [OF f] findRecord_records [OF f2]
    by (cases x) (auto simp: lifecycle_cancelAttached_def Let_def split: if_splits)
qed

definition map_in_store :: "lifecycle_service \<Rightarrow> bool" where
  "map_in_store sv \<longleftrightarrow> (\<forall>(k, a) \<in> set (sv_records sv). a < length (sv_objects sv))"

lemma map_in_store_shrink:
  assumes "map_in_store sv" "set (sv_records sv') \<subseteq> set (sv_records sv)" "objects_advance (sv_objects sv) (sv_objects sv')"
  shows "map_in_store sv'"
  using assms by (fastforce simp: map_in_store_def objects_advance_def)

lemma launch_map_in_store:
  assumes "map_in_store sv" "lifecycle_launch sv now uuid cap q i = (sv', res)"
  shows "map_in_store sv'"
proof -
  have clean: "map_in_store (cleanupExpired sv now)"
    using assms(1) by (rule map_in_store_shrink) (simp_all add: cleanupExpired_records)
  have set: "set (js_set m k v) \<subseteq> insert (k, v) (set m)" for m :: "(string, nat) js_map" and k v
    by (induction m k v rule: js_set.induct) auto
  have "case p of (k, a) \<Rightarrow> a < Suc (length (sv_objects sv))"
    if "p \<in> set (js_set (sv_records (cleanupExpired sv now)) k (length (sv_objects sv)))" for p k
    using subsetD [OF set that] clean by (auto simp: map_in_store_def)
  then show ?thesis
    using assms clean
    by (auto simp: lifecycle_launch_def Let_def map_in_store_def split: sum.splits option.splits if_splits)
qed

lemma lifecycle_step_map:
  assumes "lifecycle_step digest sv sv'" "lifecycle_ok sv" "map_in_store sv"
  shows "map_in_store sv'"
proof -
  note adv = lifecycle_step_advances [OF assms(1,2)]
  have find: "\<exists>sv1 x. findRecord sv now h = (sv1, x)" for now h by fastforce
  have "set (sv_records sv') \<subseteq> set (sv_records sv)" if "\<nexists>now uuid cap q i res. lifecycle_launch sv now uuid cap q i = (sv', res)"
    using assms(1)
  proof (cases rule: lifecycle_step.cases)
    case (ls_detach now at r12)
    then show ?thesis
      using cleanupExpired_records [of sv now] by (auto simp: lifecycle_detach_def Let_def split: option.splits if_splits)
  qed (use that find findRecord_records in \<open>auto simp: lifecycle_unsubscribe_def Let_def
      dest: begin_records finish_records failed_records control_records cancel_attached_records lookup_records\<close>;
      metis (no_types, lifting) find findRecord_records lookup_records subsetD)+
  then show ?thesis
    using launch_map_in_store [OF assms(3)] map_in_store_shrink [OF assms(3) _ adv] by blast
qed

lemma lifecycle_reachable_map: "lifecycle_reachable digest sv \<Longrightarrow> map_in_store sv"
proof (induction rule: lifecycle_reachable.induct)
  case (lc_new adapters retention queue sv)
  then show ?case by (auto simp: service_new_def bind_result_Inr_iff map_in_store_def)
next
  case (lc_step sv sv')
  then show ?case using lifecycle_step_map lifecycle_reachable_ok by blast
qed

lemma find_in_store:
  assumes "lifecycle_reachable digest sv" "find_in (cleanupExpired sv now) h = Some a"
  shows "a < length (sv_objects sv)"
proof -
  have "(mh_instanceId h, a) \<in> set (sv_records (cleanupExpired sv now))"
    using assms(2) by (auto simp: find_in_def dest: js_get_in_set split: if_splits option.splits)
  then have "(mh_instanceId h, a) \<in> set (sv_records sv)" using cleanupExpired_records by blast
  then show ?thesis using lifecycle_reachable_map [OF assms(1)] by (auto simp: map_in_store_def)
qed

section \<open>Runs\<close>

lemma lifecycle_run:
  assumes "(lifecycle_step digest)\<^sup>*\<^sup>* sv sv'" "lifecycle_ok sv"
  shows "lifecycle_ok sv' \<and> objects_advance (sv_objects sv) (sv_objects sv')"
  using assms
proof (induction rule: rtranclp_induct)
  case (step y z)
  then have "objects_advance (sv_objects y) (sv_objects z)" by (blast intro: lifecycle_step_advances)
  then show ?case using step objects_advance_ok objects_advance_trans by blast
qed simp

lemma lifecycle_run_at:
  assumes "(lifecycle_step digest)\<^sup>*\<^sup>* sv sv'" "lifecycle_ok sv" "a < length (sv_objects sv)"
  shows "advances (record_at sv a) (record_at sv' a) \<and> a < length (sv_objects sv')"
  using lifecycle_run [OF assms(1,2)] assms(3) by (auto simp: objects_advance_def)

text \<open>A request for a cancellation leads to a terminal state only, so a stop that resumes finds one of these.\<close>

lemma cancel_requested_stays:
  "isLegalMaestroTransition\<^sup>*\<^sup>* LcCancelRequested s \<Longrightarrow> s = LcCancelRequested \<or> isMaestroTerminalState s"
proof (induction rule: rtranclp_induct)
  case (step y z)
  then show ?case
    using terminal_no_exit [of y z]
    by (auto simp: isLegalMaestroTransition_def isMaestroTerminalState_def split: if_splits)
qed simp

section \<open>An example run\<close>

definition demo_request :: launch_request where
  "demo_request = \<lparr>rq_kind = WorkerKind, rq_goal = ''g'', rq_context = None, rq_role = ''r'', rq_cwd = ''/'',
     rq_workspaceAccess = ReadOnlyAccess, rq_parentInstanceId = Some ''p'', rq_parentSessionId = None,
     rq_correlationId = None, rq_metadataBytes = Some 2\<rparr>"

definition demo_service :: lifecycle_service where
  "demo_service = \<lparr>sv_adapters = [(WorkerKind, \<lparr>ad_cancel = True, ad_stop = True, ad_reconnect = False\<rparr>)],
     sv_objects = [], sv_records = [], sv_correlations = [], sv_terminalRetentionMs = 1000,
     sv_queue = Some (demo_queue_options, []), sv_events = []\<rparr>"

definition demo_launched :: lifecycle_service where
  "demo_launched = fst (lifecycle_launch demo_service 1 ''i'' (replicate 32 CHR ''k'') demo_request None)"

definition demo_env :: step_env where
  "demo_env = \<lparr>en_now = 7, en_uuid = ''q1'', en_queueError = (\<lambda>_. ''e'')\<rparr>"

definition demo_digest :: "maestro_result \<Rightarrow> string" where
  "demo_digest res = replicate 64 CHR ''0''"

definition demo_handle :: maestro_handle where
  "demo_handle = \<lparr>mh_contractVersion = 1, mh_instanceId = ''i'', mh_kind = WorkerKind, mh_parentInstanceId = Some ''p'',
     mh_parentSessionId = None, mh_correlationId = None, mh_createdAt = Stamp 1, mh_capability = replicate 32 CHR ''k''\<rparr>"

definition demo_record :: lifecycle_record where
  "demo_record = \<lparr>lr_handle = demo_handle, lr_request = demo_request,
     lr_adapter = \<lparr>ad_cancel = True, ad_stop = True, ad_reconnect = False\<rparr>, lr_state = LcPending, lr_updatedAt = Stamp 1,
     lr_startedAt = None, lr_completedAt = None, lr_ownerGeneration = 0, lr_owner = None,
     lr_runtime = \<lparr>ri_cwd = ''/'', ri_worktreeIdentity = None, ri_process = None, ri_sessionId = None, ri_sessionFile = None\<rparr>,
     lr_progress = None, lr_result = None, lr_resolved = False, lr_subscribers = []\<rparr>"

lemma demo_launched_eq:
  "demo_launched = demo_service\<lparr>sv_objects := [demo_record], sv_records := [(''i'', 0)]\<rparr>"
  by (simp add: demo_launched_def lifecycle_launch_def validateLaunchRequest_def demo_request_def identity_ok_def
      cleanupExpired_def demo_service_def truthy_def Let_def js_trim_def is_js_space_def demo_record_def demo_handle_def)

lemma demo_launched_reachable: "lifecycle_reachable digest demo_launched"
proof -
  have "service_new (sv_adapters demo_service) 1000 (sv_queue demo_service) = Inr demo_service"
    by (simp add: service_new_def demo_service_def)
  then have "lifecycle_reachable digest demo_service" by (rule lc_new)
  moreover have "lifecycle_step digest demo_service demo_launched"
    by (rule ls_launch [where now = 1 and uuid = "''i''"]) (simp add: demo_launched_def prod_eq_iff)
  ultimately show ?thesis by (rule lc_step)
qed

lemma demo_launched_simps [simp]: "length (sv_objects demo_launched) = 1" "record_at demo_launched 0 = demo_record"
  by (simp_all add: demo_launched_eq)

section \<open>What callers can rely on\<close>

text \<open>
  C5. A launch always ends: whatever completion the adapter returns, legal for the record's
  state or not, and whatever error it throws, the rest of \<^verbatim>\<open>runLaunch\<close> does not throw and
  leaves the record in a terminal state, with its result and with the waiters released.
\<close>

theorem launch_always_ends:
  assumes "lifecycle_reachable digest sv" "a < length (sv_objects sv)"
  shows "(\<exists>sv'. launch_finish digest env sv a c = (sv', Inr ()) \<and> isMaestroTerminalState (lr_state (record_at sv' a)) \<and>
      lr_resolved (record_at sv' a) \<and> lr_result (record_at sv' a) \<noteq> None) \<and>
    (\<exists>sv'. launch_failed digest env sv a n m = (sv', Inr ()) \<and> isMaestroTerminalState (lr_state (record_at sv' a)) \<and>
      lr_resolved (record_at sv' a) \<and> lr_result (record_at sv' a) \<noteq> None)"
proof (cases "isMaestroTerminalState (lr_state (record_at sv a))")
  case True
  have "lifecycle_record_ok (record_at sv a)" using lifecycle_reachable_ok [OF assms(1)] assms(2) by (rule lifecycle_ok_at)
  then show ?thesis
    using True by (auto simp: launch_finish_def launch_failed_def lifecycle_record_ok_def split: option.splits)
next
  case False
  note known = known_state [OF lifecycle_reachable_ok [OF assms(1)] assms(2)]
  show ?thesis
    using launch_finish_completes [OF assms(2) False known, of digest env c]
      launch_failed_completes [OF assms(2) False known, of digest env n m] assms(2)
    unfolding completed_as_def by (metis nth_list_update_eq option.simps(3) terminal_state_of)
qed

theorem launch_always_ends_witness:
  "\<exists>sv'. launch_finish demo_digest demo_env demo_launched 0 (bare_completion TCancelled None) = (sv', Inr ()) \<and>
     isMaestroTerminalState (lr_state (record_at sv' 0))"
  using launch_always_ends [OF demo_launched_reachable, of 0 demo_digest demo_env "bare_completion TCancelled None" "[]" "[]"]
  by auto

text \<open>
  C23. Only legal transitions, and a terminal state is final: over any run of the service a
  record moves along legal transitions, and once it is terminal neither its state nor its
  result nor its completion time changes.
\<close>

theorem lifecycle_final:
  assumes "lifecycle_reachable digest sv" "(lifecycle_step digest)\<^sup>*\<^sup>* sv sv'" "a < length (sv_objects sv)"
  shows "isLegalMaestroTransition\<^sup>*\<^sup>* (lr_state (record_at sv a)) (lr_state (record_at sv' a)) \<and>
    (isMaestroTerminalState (lr_state (record_at sv a)) \<longrightarrow>
       lr_state (record_at sv' a) = lr_state (record_at sv a) \<and> lr_result (record_at sv' a) = lr_result (record_at sv a) \<and>
       lr_completedAt (record_at sv' a) = lr_completedAt (record_at sv a))"
  using lifecycle_run_at [OF assms(2) lifecycle_reachable_ok [OF assms(1)] assms(3)] terminal_stays
  by (auto simp: advances_def)

theorem lifecycle_final_witness:
  "isLegalMaestroTransition\<^sup>*\<^sup>* LcPending (lr_state (record_at (fst (launch_finish demo_digest demo_env demo_launched 0
      (bare_completion TFailed None))) 0))"
proof -
  have "lifecycle_step demo_digest demo_launched (fst (launch_finish demo_digest demo_env demo_launched 0 (bare_completion TFailed None)))"
    by (rule ls_finish [where a = 0 and env = demo_env and c = "bare_completion TFailed None"]) (simp_all add: prod_eq_iff)
  then show ?thesis
    using lifecycle_final [OF demo_launched_reachable r_into_rtranclp, of demo_digest _ 0] by (simp add: demo_record_def)
qed

text \<open>
  What a caller reads is consistent: a record has a result exactly when its state is
  terminal, the result names that state and the record's own handle, and the promise that
  \<^verbatim>\<open>wait\<close> awaits is resolved exactly then.
\<close>

lemma result_iff_terminal:
  assumes "lifecycle_reachable digest sv" "r \<in> set (sv_objects sv)"
  shows "(lr_result r \<noteq> None \<longleftrightarrow> isMaestroTerminalState (lr_state r)) \<and> (lr_resolved r \<longleftrightarrow> isMaestroTerminalState (lr_state r)) \<and>
    (case lr_result r of None \<Rightarrow> True
       | Some res \<Rightarrow> mr_ready res \<and> mr_terminalState res = lr_state r \<and> mr_handle res = lr_handle r)"
proof -
  have "lifecycle_record_ok r" using lifecycle_reachable_ok [OF assms(1)] assms(2) by (simp add: lifecycle_ok_def)
  then show ?thesis by (cases "lr_result r") (simp_all add: lifecycle_record_ok_def)
qed

text \<open>
  A launch that is cancelled before it starts never reaches its adapter: when \<^verbatim>\<open>cancel\<close>
  accepts at once, the pending \<^verbatim>\<open>runLaunch\<close> completes the record as cancelled without calling
  the adapter.
\<close>

lemma cancelled_before_launch:
  assumes "lifecycle_reachable digest sv" "lifecycle_cancel sv now h = (sv1, Inr (CancelAnswered answer))" "ca_accepted answer"
  shows "\<exists>a sv2. find_in (cleanupExpired sv now) h = Some a \<and> launch_begin digest env sv1 a = (sv2, Inr False) \<and>
    lr_state (record_at sv2 a) = LcCancelled"
proof -
  obtain svc x where f: "findRecord sv now h = (svc, x)" by fastforce
  then have svc: "svc = cleanupExpired sv now" "x = find_in (cleanupExpired sv now) h" by (auto simp: findRecord_def Let_def)
  obtain a where a: "x = Some a" using assms(2,3) f by (cases x) (auto simp: lifecycle_cancel_def cancel_answer_def)
  have pend: "lr_state (record_at svc a) = LcPending"
    using assms(2,3) f a by (auto simp: lifecycle_cancel_def cancel_answer_def Let_def split: if_splits)
  then have sv1: "sv1 = lifecycle_emit (set_record svc a (moved (record_at svc a) now LcCancelRequested)) a"
    using assms(2) f a by (simp add: lifecycle_cancel_def lifecycle_transition_cases isLegalMaestroTransition_def Let_def)
  have "a < length (sv_objects sv)" using find_in_store [OF assms(1)] svc(2) a by simp
  then have at1: "lr_state (record_at sv1 a) = LcCancelRequested" "a < length (sv_objects sv1)"
    by (simp_all add: sv1 svc moved_def)
  then have legal: "isLegalMaestroTransition (lr_state (record_at sv1 a))
      (state_of_terminal (co_state (bare_completion TCancelled (Some ''Cancelled before launch''))))"
    by (simp add: bare_completion_def isLegalMaestroTransition_def)
  obtain sv2 r' where c: "lifecycle_complete digest env sv1 a (bare_completion TCancelled (Some ''Cancelled before launch'')) = (sv2, Inr ())"
      "sv_objects sv2 = (sv_objects sv1)[a := r']" "completed_as (record_at sv1 a) TCancelled r'"
    using complete_legal [OF at1(2) legal, of digest env] by (auto simp: bare_completion_def)
  have "launch_begin digest env sv1 a = (sv2, Inr False)" using at1(1) c(1) by (simp add: launch_begin_def)
  moreover have "lr_state (record_at sv2 a) = LcCancelled" using c(2,3) at1(2) by (simp add: completed_as_def)
  ultimately show ?thesis using svc a by blast
qed

lemma attach_effect:
  assumes "lifecycle_reachable digest sv" "lifecycle_attach sv now cap h ow = (sv1, Inr at)"
    and "find_in (cleanupExpired sv now) h = Some a"
  shows "a < length (sv_objects sv)" "at_ownerGeneration at = lr_ownerGeneration (record_at sv a) + 1"
    "lr_ownerGeneration (record_at sv1 a) = at_ownerGeneration at" "lifecycle_step digest sv sv1" "a < length (sv_objects sv1)"
proof -
  show a: "a < length (sv_objects sv)" using find_in_store [OF assms(1,3)] .
  show "lifecycle_step digest sv sv1" using assms(2) by (rule ls_attach)
  show "at_ownerGeneration at = lr_ownerGeneration (record_at sv a) + 1"
    "lr_ownerGeneration (record_at sv1 a) = at_ownerGeneration at" "a < length (sv_objects sv1)"
    using assms(2,3) a by (auto simp: lifecycle_attach_def findRecord_def Let_def split: if_splits)
qed

text \<open>
  Ownership is fenced: after a later attachment of the same record, an earlier one no
  longer counts as its owner, so that it can neither detach nor cancel, whatever happens
  before, between and after the two.
\<close>

lemma old_owner_fenced:
  assumes reach: "lifecycle_reachable digest sv"
    and first: "lifecycle_attach sv t1 cap1 h o1 = (sv1, Inr at1)" "find_in (cleanupExpired sv t1) h = Some a"
    and between: "(lifecycle_step digest)\<^sup>*\<^sup>* sv1 sv2"
    and second: "lifecycle_attach sv2 t2 cap2 h2 o2 = (sv3, Inr at2)" "find_in (cleanupExpired sv2 t2) h2 = Some a"
    and later: "(lifecycle_step digest)\<^sup>*\<^sup>* sv3 sv4"
  shows "\<not> owns (record_at sv4 a) at1"
proof
  assume own: "owns (record_at sv4 a) at1"
  note e1 = attach_effect [OF reach first]
  have r1: "lifecycle_reachable digest sv1" using reach e1(4) by (rule lc_step)
  have r2: "lifecycle_reachable digest sv2" using between r1 by (induction rule: rtranclp_induct) (auto intro: lc_step)
  note e2 = attach_effect [OF r2 second]
  have r3: "lifecycle_reachable digest sv3" using r2 e2(4) by (rule lc_step)
  have "at_ownerGeneration at1 < at_ownerGeneration at2"
    using lifecycle_run_at [OF between lifecycle_reachable_ok [OF r1] e1(5)] e1(3) e2(2) by (simp add: advances_def)
  also have "\<dots> \<le> lr_ownerGeneration (record_at sv4 a)"
    using lifecycle_run_at [OF later lifecycle_reachable_ok [OF r3] e2(5)] e2(3) by (simp add: advances_def)
  finally have "at_ownerGeneration at1 \<noteq> lr_ownerGeneration (record_at sv4 a)" by simp
  moreover have "lifecycle_record_ok (record_at sv4 a)"
    using lifecycle_run [OF later lifecycle_reachable_ok [OF r3]] lifecycle_run_at [OF later lifecycle_reachable_ok [OF r3] e2(5)]
    by (auto intro: lifecycle_ok_at)
  ultimately show False using own by (auto simp: owns_def lifecycle_record_ok_def split: option.splits)
qed

definition demo_attachment :: "int \<Rightarrow> attachment" where
  "demo_attachment g = \<lparr>at_instanceId = ''i'', at_ownerId = ''w'', at_ownerGeneration = g, at_capability = ''c''\<rparr>"

definition demo_owned :: "int \<Rightarrow> attachment option \<Rightarrow> lifecycle_service" where
  "demo_owned g own = demo_launched\<lparr>sv_objects := [demo_record\<lparr>lr_ownerGeneration := g, lr_owner := own\<rparr>]\<rparr>"

lemma demo_owned_lookup: "cleanupExpired (demo_owned g own) t = demo_owned g own" "find_in (demo_owned g own) demo_handle = Some 0"
  by (simp_all add: cleanupExpired_def record_expired_def find_in_def demo_owned_def demo_launched_eq hasValidHandleShape_def
      handle_matches_def capabilitiesEqual_def demo_record_def demo_handle_def)

lemma demo_owned_start: "demo_owned 0 None = demo_launched"
  by (simp add: demo_owned_def demo_launched_eq demo_record_def)

lemma demo_attach:
  "lifecycle_attach (demo_owned g None) t ''c'' demo_handle ''w'' = (demo_owned (g + 1) (Some (demo_attachment (g + 1))), Inr (demo_attachment (g + 1)))"
  by (simp add: lifecycle_attach_def findRecord_def Let_def demo_owned_lookup)
    (simp add: demo_owned_def set_record_def demo_attachment_def demo_record_def demo_handle_def demo_launched_eq)

lemma demo_detach:
  "lifecycle_detach (demo_owned g (Some (demo_attachment g))) t (demo_attachment g) =
     (demo_owned g None, \<lparr>de_detached = True, de_stale = False, de_state = LcPending\<rparr>)"
  unfolding lifecycle_detach_def Let_def demo_owned_lookup
  by (simp add: demo_owned_def set_record_def demo_attachment_def demo_record_def demo_launched_eq owns_def capabilitiesEqual_def)

lemma queue_enqueue_holds:
  assumes "queue_enqueue opts now created uuid i q = (q', Inr r)"
  shows "r \<in> set q' \<and> cr_childInstanceId r = ei_childInstanceId i \<and> cr_resultHash r = ei_resultHash i"
  using assms
  by (auto simp: queue_enqueue_def Let_def conflicts_def completion_of_def find_Some_iff
      split: sum.splits option.splits if_splits)

definition has_parent :: "lifecycle_record \<Rightarrow> bool" where
  "has_parent r \<longleftrightarrow> truthy (mh_parentInstanceId (lr_handle r)) \<or> truthy (mh_parentSessionId (lr_handle r))"

text \<open>The two outcomes of a hand-off, for the record of a child and the state of the service after it.\<close>

definition handed_off :: "lifecycle_service \<Rightarrow> nat \<Rightarrow> bool" where
  "handed_off sv a \<longleftrightarrow> (\<exists>res. lr_result (record_at sv a) = Some res \<and>
     (mr_handoffState res = Some HandoffFailed \<or>
      mr_handoffState res = Some HandoffQueued \<and>
        (\<exists>opts q r. sv_queue sv = Some (opts, q) \<and> r \<in> set q \<and>
           cr_childInstanceId r = mh_instanceId (lr_handle (record_at sv a)) \<and> Some (cr_resultHash r) = mr_resultHash res)))"

lemma hand_off_outcome:
  assumes a: "a < length (sv_objects sv)" and parent: "has_parent (record_at sv a)" "co_handoffState c = None"
    and res: "lr_result (record_at sv a) = Some res" "mr_resultHash res = Some h"
  shows "handed_off (hand_off env sv a c h) a"
proof (cases "sv_queue sv")
  case None
  then have "hand_off env sv a c h = set_record sv a (set_handoff (record_at sv a) HandoffFailed (Some ''COMPLETION_QUEUE_UNAVAILABLE''))"
    using parent by (simp add: hand_off_def has_parent_def Let_def)
  then show ?thesis using a res by (simp add: handed_off_def set_handoff_def)
next
  case (Some p)
  obtain opts q where p: "p = (opts, q)" by (cases p)
  obtain q' x where enq: "queue_enqueue opts (en_now env) (en_now env) (en_uuid env)
      (handoff_input (record_at sv a) c (Stamp (en_now env)) h) q = (q', x)" by fastforce
  show ?thesis
  proof (cases x)
    case (Inl e)
    then obtain d where "hand_off env sv a c h =
        set_record (sv\<lparr>sv_queue := Some (opts, q')\<rparr>) a (set_handoff (record_at sv a) HandoffFailed d)"
      using parent Some p enq by (simp add: hand_off_def has_parent_def Let_def)
    then show ?thesis using a res by (simp add: handed_off_def set_handoff_def)
  next
    case (Inr r)
    then have "hand_off env sv a c h =
        set_record (sv\<lparr>sv_queue := Some (opts, q')\<rparr>) a (set_handoff (record_at sv a) HandoffQueued None)"
      using parent Some p enq by (simp add: hand_off_def has_parent_def Let_def)
    moreover have "r \<in> set q' \<and> cr_childInstanceId r = mh_instanceId (lr_handle (record_at sv a)) \<and> cr_resultHash r = h"
      using queue_enqueue_holds [OF enq [unfolded Inr]] by (simp add: handoff_input_def)
    ultimately show ?thesis using a res by (auto simp: handed_off_def set_handoff_def set_record_def)
  qed
qed

lemma complete_hands_off:
  assumes a: "a < length (sv_objects sv)"
    and legal: "isLegalMaestroTransition (lr_state (record_at sv a)) (state_of_terminal (co_state c))"
    and parent: "has_parent (record_at sv a)" "co_handoffState c = None"
    and eq: "lifecycle_complete digest env sv a c = (sv', x)"
  shows "handed_off sv' a"
proof -
  define r where "r = record_at sv a"
  define res where "res = result_of digest r c (Stamp (en_now env))"
  obtain h where h: "mr_resultHash res = Some h" by (simp add: res_def result_of_def Let_def)
  define sv1 where "sv1 = set_record sv a (r\<lparr>lr_completedAt := Some (Stamp (en_now env)), lr_result := Some res\<rparr>)"
  obtain sv2 where trans: "lifecycle_transition sv1 (en_now env) a (state_of_terminal (co_state c)) = (sv2, Inr ())"
    and at2: "a < length (sv_objects sv2)" "lr_result (record_at sv2 a) = Some res" "lr_handle (record_at sv2 a) = lr_handle r"
    using legal a by (simp add: lifecycle_transition_cases sv1_def r_def moved_def)
  define sv3 where "sv3 = hand_off env sv2 a c h"
  have "handed_off sv3 a"
    unfolding sv3_def using parent at2(3) by (intro hand_off_outcome [OF at2(1) _ _ at2(2) h]) (simp_all add: has_parent_def r_def)
  moreover have "sv' = set_record sv3 a ((record_at sv3 a)\<lparr>lr_resolved := True\<rparr>)"
    using eq unfolding lifecycle_complete_def Let_def r_def [symmetric] res_def [symmetric] sv1_def [symmetric] trans
    by (simp add: sv3_def h)
  moreover have "a < length (sv_objects sv3)"
    using hand_off_effect [of env sv2 a c h] at2(1) by (auto simp: sv3_def)
  ultimately show ?thesis by (simp add: handed_off_def set_record_def)
qed

lemma failed_hands_off:
  assumes "a < length (sv_objects sv)" "\<not> isMaestroTerminalState (lr_state (record_at sv a))" "lr_state (record_at sv a) \<noteq> LcUnknown"
    and "has_parent (record_at sv a)"
  shows "handed_off (fst (launch_failed digest env sv a n m)) a"
proof -
  let ?c = "(bare_completion TFailed None)\<lparr>co_errorClassification := Some n, co_errorMessage := Some m\<rparr>"
  have fields: "co_state ?c = TFailed" "co_handoffState ?c = None" by (simp_all add: bare_completion_def)
  have "launch_failed digest env sv a n m = lifecycle_complete digest env sv a ?c"
    using assms(2) by (simp add: launch_failed_def)
  moreover have "isLegalMaestroTransition (lr_state (record_at sv a)) (state_of_terminal (co_state ?c))"
    unfolding fields using failed_always_legal [OF assms(2,3)] by simp
  ultimately show ?thesis
    using complete_hands_off [OF assms(1) _ assms(4) fields(2)] by (metis prod.collapse)
qed

text \<open>
  C27. A finished child is handed to its parent: when the launch of an instance with a parent
  ends, by a completion that leaves the hand-off to the service (one without a hand-off state of its own, which full
  sessions always set) or by an error, the result
  says either that the hand-off failed, or that it is queued, and then the completion queue
  holds a record for this child with the hash of this result.
\<close>

theorem finished_child_handed_off:
  assumes "lifecycle_reachable digest sv" "a < length (sv_objects sv)" "\<not> isMaestroTerminalState (lr_state (record_at sv a))"
    and "has_parent (record_at sv a)" "co_handoffState c = None"
  shows "handed_off (fst (launch_finish digest env sv a c)) a \<and> handed_off (fst (launch_failed digest env sv a n m)) a"
proof
  note known = known_state [OF lifecycle_reachable_ok [OF assms(1)] assms(2)]
  show "handed_off (fst (launch_failed digest env sv a n m)) a" by (rule failed_hands_off [OF assms(2,3) known assms(4)])
  show "handed_off (fst (launch_finish digest env sv a c)) a"
  proof (rule launch_finish_cases [OF assms(2,3) known, of digest env c], elim disjE exE conjE)
    fix r0 sv1 t
    assume "advances (record_at sv a) r0" "sv_objects sv1 = (sv_objects sv)[a := r0]"
      "isLegalMaestroTransition (lr_state r0) (state_of_terminal t)"
      "launch_finish digest env sv a c = lifecycle_complete digest env sv1 a (c\<lparr>co_state := t\<rparr>)"
    then show ?thesis
      using complete_hands_off [of a sv1 "c\<lparr>co_state := t\<rparr>" digest env] assms(2,4,5)
      by (simp add: has_parent_def advances_def) (metis prod.collapse)
  next
    fix r0 sv2 at res n m
    assume "advances (record_at sv a) r0" "\<not> isMaestroTerminalState (lr_state r0)" "lr_state r0 \<noteq> LcUnknown"
      "sv_objects sv2 = (sv_objects sv)[a := r0\<lparr>lr_completedAt := at, lr_result := res\<rparr>]"
      "launch_finish digest env sv a c = launch_failed digest env sv2 a n m"
    then show ?thesis
      using failed_hands_off [of a sv2 digest env n m] assms(2,4) by (simp add: has_parent_def advances_def)
  qed
qed

theorem finished_child_handed_off_witness:
  "handed_off (fst (launch_finish demo_digest demo_env demo_launched 0 (bare_completion TFailed (Some ''s'')))) 0"
  using finished_child_handed_off [OF demo_launched_reachable, of 0 "bare_completion TFailed (Some ''s'')"]
  by (simp add: demo_record_def demo_handle_def has_parent_def truthy_def bare_completion_def)

end
