(* ===== verification/Agent_Loop_Props.thy ===== *)
theory Agent_Loop_Props
  imports Agent_Loop "HOL-Library.Sublist"
begin

text \<open>
  What a run of the agent loop emits and returns, for any behaviour of the model, the tools and
  the hooks: its events are bracketed and balanced, they announce exactly the messages that
  the run returns, tool results answer the calls in order, a response cut off by the token
  limit runs no tool, and the number of turns is bounded by the budget.
\<close>

section \<open>Observations on events\<close>

fun ended_of :: "agent_event \<Rightarrow> agent_message list" where
  "ended_of (MessageEnd m) = [m]"
| "ended_of _ = []"

definition ended :: "agent_event list \<Rightarrow> agent_message list" where
  "ended es = concat (map ended_of es)"

lemma ended_simps [simp]: "ended [] = []" "ended (es @ es') = ended es @ ended es'" "ended (e # es) = ended_of e @ ended es"
  by (simp_all add: ended_def)

fun structural :: "agent_event \<Rightarrow> bool" where
  "structural AgentStart = True"
| "structural (AgentEnd _) = True"
| "structural FollowUpStart = True"
| "structural TurnStart = True"
| "structural (TurnEnd _ _) = True"
| "structural _ = False"

text \<open>
  The protocol of the events as an automaton: a run opens, its turns follow one another with
  a follow-up mark between two of them at most, messages and tool events only occur in
  a turn, and the run closes once. The number counts the turns that have ended.
\<close>

datatype phase = Unopened | Between nat | FollowingUp nat | InTurn nat | Closed nat | Broken

fun phase_step :: "phase \<Rightarrow> agent_event \<Rightarrow> phase" where
  "phase_step Unopened AgentStart = Between 0"
| "phase_step (Between n) TurnStart = InTurn n"
| "phase_step (Between n) FollowUpStart = FollowingUp n"
| "phase_step (Between n) (AgentEnd _) = Closed n"
| "phase_step (FollowingUp n) TurnStart = InTurn n"
| "phase_step (InTurn n) (TurnEnd _ _) = Between (Suc n)"
| "phase_step (InTurn n) e = (if structural e then Broken else InTurn n)"
| "phase_step _ _ = Broken"

definition phase :: "agent_event list \<Rightarrow> phase" where
  "phase es = foldl phase_step Unopened es"

lemma phase_simps [simp]: "phase [] = Unopened" "phase (es @ es') = foldl phase_step (phase es) es'"
  by (simp_all add: phase_def)

lemma phase_step_inside [simp]: "\<not> structural e \<Longrightarrow> phase_step (InTurn n) e = InTurn n"
  by (cases e) auto

definition stays :: "'w loop_state \<Rightarrow> 'w loop_state \<Rightarrow> bool" where
  "stays s s' \<longleftrightarrow> (\<forall>n. phase (ls_events s) = InTurn n \<longrightarrow> phase (ls_events s') = InTurn n)"

text \<open>A stretch of a run that announces some messages and leaves turns, context and new messages alone.\<close>

definition announces :: "agent_message list \<Rightarrow> 'w loop_state \<Rightarrow> 'w loop_state \<Rightarrow> bool" where
  "announces ms s s' \<longleftrightarrow> ended (ls_events s') = ended (ls_events s) @ ms \<and>
     stays s s' \<and> ls_new s' = ls_new s \<and> ls_context s' = ls_context s"

lemma announces_refl [simp]: "announces [] s s"
  by (simp add: announces_def stays_def)

lemma announces_trans: "announces ms s s' \<Longrightarrow> announces ms' s' s'' \<Longrightarrow> announces (ms @ ms') s s''"
  by (simp add: announces_def stays_def)

lemma announces_trans_quiet: "announces [] s s' \<Longrightarrow> announces ms s' s'' \<Longrightarrow> announces ms s s''"
  using announces_trans by fastforce

definition quiet :: "('w, 'a) loop \<Rightarrow> bool" where
  "quiet m \<longleftrightarrow> (\<forall>s. announces [] s (snd (run_state m s)))"

lemma quietD: "quiet m \<Longrightarrow> run_state m s = (a, s') \<Longrightarrow> announces [] s s'"
  unfolding quiet_def by (metis snd_conv)

lemma quiet_return [simp]: "quiet (State_Monad.return a)"
  by (simp add: quiet_def)

lemma quiet_bind [intro]:
  assumes "quiet m" "\<And>a. quiet (f a)"
  shows "quiet (State_Monad.bind m f)"
proof -
  have "announces [] s (snd (run_state (State_Monad.bind m f) s))" for s
  proof -
    obtain a s1 where m: "run_state m s = (a, s1)" by fastforce
    then have "announces [] s s1" using assms(1) by (auto dest: quietD)
    moreover have "announces [] s1 (snd (run_state (f a) s1))" using assms(2) [of a] by (simp add: quiet_def)
    ultimately show ?thesis using m announces_trans_quiet by auto
  qed
  then show ?thesis by (simp add: quiet_def)
qed

lemma quiet_emit [simp]: "\<not> structural e \<Longrightarrow> ended_of e = [] \<Longrightarrow> quiet (emit e)"
  by (simp add: quiet_def emit_def announces_def stays_def)

lemma quiet_call_out [simp]: "quiet (call_out f)"
  by (simp add: quiet_def call_out_def announces_def stays_def split: prod.splits)

lemma quiet_read [simp]: "quiet (read_world f)" "quiet get_context"
  by (simp_all add: quiet_def read_world_def get_context_def)

lemma quiet_for_each: "(\<And>x. quiet (f x)) \<Longrightarrow> quiet (for_each f xs)"
  by (induction xs) auto

section \<open>Tool calls\<close>

lemma quiet_tool_events [simp]: "quiet (emit_start c)" "quiet (emitToolExecutionEnd f)" "quiet (createToolResultMessage env f)"
  by (auto simp: emit_start_def emitToolExecutionEnd_def createToolResultMessage_def)

lemma quiet_prepareToolCall [simp]: "quiet (prepareToolCall env am c)"
  unfolding prepareToolCall_def by (auto split: option.splits sum.splits intro!: quiet_bind)

lemma quiet_run_prepared [simp]: "quiet (run_prepared env am p)"
  unfolding run_prepared_def executePreparedToolCall_def finalizeExecutedToolCall_def
  by (auto split: option.splits prod.splits intro!: quiet_bind quiet_for_each)

lemma quiet_parallel_prepare [simp]: "quiet (parallel_prepare env am cs)"
  by (induction cs) (auto split: preparation.splits simp: Let_def intro!: quiet_bind)

lemma quiet_run_pending [simp]: "quiet (run_pending env am es is)"
  by (induction "is") (auto split: call_entry.splits intro!: quiet_bind)

text \<open>The call that a preparation or an execution is about never changes.\<close>

lemma prepared_call_same:
  assumes "run_state (prepareToolCall env am c) s = (PreparedCall p, s')"
  shows "pc_toolCall p = c"
  using assms
  by (auto simp: prepareToolCall_def aborted_call_def blocked_call_def split: option.splits sum.splits prod.splits if_splits)

lemma run_prepared_same: "run_state (run_prepared env am p) s = (f, s') \<Longrightarrow> fin_toolCall f = pc_toolCall p"
  by (auto simp: run_prepared_def finalizeExecutedToolCall_def split: option.splits prod.splits sum.splits)

lemma tool_result_of_fields [simp]:
  "tr_toolCallId (tool_result_of f now) = tc_id (fin_toolCall f)" "tr_toolName (tool_result_of f now) = tc_name (fin_toolCall f)"
  "tr_isError (tool_result_of f now) = fin_isError f"
  by (simp_all add: tool_result_of_def)

lemma emitToolResultMessage_announces:
  "run_state (emitToolResultMessage m) s = (u, s') \<Longrightarrow> announces [ToolResultMessage m] s s'"
  by (auto simp: emitToolResultMessage_def emit_def announces_def stays_def)

text \<open>Results that answer calls: one for each, in their order, with the call's id and name.\<close>

definition answers :: "tool_call list \<Rightarrow> tool_result_message list \<Rightarrow> bool" where
  "answers cs ms \<longleftrightarrow> list_all2 (\<lambda>c m. tr_toolCallId m = tc_id c \<and> tr_toolName m = tc_name c) cs ms"

lemma answers_simps [simp]: "answers [] []"
  "answers (c # cs) (m # ms) \<longleftrightarrow> tr_toolCallId m = tc_id c \<and> tr_toolName m = tc_name c \<and> answers cs ms"
  by (simp_all add: answers_def)

lemma truncated_calls:
  assumes "run_state (failToolCallsFromTruncatedMessage env cs) s = (ms, s')"
  shows "announces (map ToolResultMessage ms) s s' \<and> answers cs ms \<and> list_all tr_isError ms \<and> ls_world s' = ls_world s"
  using assms
proof (induction cs arbitrary: ms s)
  case (Cons c cs)
  let ?f = "\<lparr>fin_toolCall = c, fin_result = createErrorToolResult (truncated_text (tc_name c)), fin_isError = True\<rparr>"
  let ?m = "tool_result_of ?f (ev_now env (ls_world s))"
  from Cons.prems obtain rest s1 where
    st: "run_state (failToolCallsFromTruncatedMessage env cs) s1 = (rest, s')" "ms = ?m # rest"
      "announces [ToolResultMessage ?m] s s1" "ls_world s1 = ls_world s"
    by (auto simp: emit_start_def emit_def emitToolExecutionEnd_def createToolResultMessage_def read_world_def
        emitToolResultMessage_def announces_def stays_def Let_def split: prod.splits)
  then show ?case using Cons.IH [OF st(1)] announces_trans [OF st(3)] by fastforce
qed simp

text \<open>One call of the sequential mode, up to the check of the abort signal.\<close>

definition sequential_call :: "'w agent_env \<Rightarrow> assistant_message \<Rightarrow> tool_call \<Rightarrow> ('w, finalized_call \<times> tool_result_message) loop" where
  "sequential_call env am c = do {
     emit_start c;
     preparation \<leftarrow> prepareToolCall env am c;
     f \<leftarrow> (case preparation of
        ImmediateCall result isError \<Rightarrow> State_Monad.return \<lparr>fin_toolCall = c, fin_result = result, fin_isError = isError\<rparr>
      | PreparedCall p \<Rightarrow> run_prepared env am p);
     emitToolExecutionEnd f;
     m \<leftarrow> createToolResultMessage env f;
     emitToolResultMessage m;
     State_Monad.return (f, m) }"

lemma sequential_calls_Cons:
  "sequential_calls env am (c # cs) = do {
     fm \<leftarrow> sequential_call env am c;
     aborted \<leftarrow> read_world (ev_aborted env);
     rest \<leftarrow> (if aborted then State_Monad.return [] else sequential_calls env am cs);
     State_Monad.return (fm # rest) }"
  by (simp add: sequential_call_def)

lemma sequential_call_spec:
  assumes "run_state (sequential_call env am c) s = (fm, s')"
  shows "announces [ToolResultMessage (snd fm)] s s' \<and> tr_toolCallId (snd fm) = tc_id c \<and> tr_toolName (snd fm) = tc_name c"
proof -
  obtain f m where fm: "fm = (f, m)" by (cases fm)
  let ?run = "\<lambda>prep. (case prep of
        ImmediateCall result isError \<Rightarrow> State_Monad.return \<lparr>fin_toolCall = c, fin_result = result, fin_isError = isError\<rparr>
      | PreparedCall p \<Rightarrow> run_prepared env am p)"
  from assms fm obtain u1 s1 prep s2 s3 u2 s4 s5 u3 where
    st: "run_state (emit_start c) s = (u1, s1)" "run_state (prepareToolCall env am c) s1 = (prep, s2)"
      "run_state (?run prep) s2 = (f, s3)" "run_state (emitToolExecutionEnd f) s3 = (u2, s4)"
      "run_state (createToolResultMessage env f) s4 = (m, s5)" "run_state (emitToolResultMessage m) s5 = (u3, s')"
    by (auto simp: sequential_call_def split: prod.splits)
  have "announces [] s2 s3" using st(3) by (cases prep) (auto dest: quietD [OF quiet_run_prepared])
  then have "announces [] s s5"
    using quietD [OF _ st(1)] quietD [OF _ st(2)] quietD [OF _ st(4)] quietD [OF _ st(5)]
    by (simp add: announces_def stays_def)
  then have "announces [ToolResultMessage m] s s'"
    using emitToolResultMessage_announces [OF st(6)] by (rule announces_trans_quiet)
  moreover have "fin_toolCall f = c"
    using st(2,3) prepared_call_same run_prepared_same by (cases prep) fastforce+
  moreover have "m = tool_result_of f (ev_now env (ls_world s4))"
    using st(5) by (auto simp: createToolResultMessage_def read_world_def)
  ultimately show ?thesis by (simp add: fm)
qed

text \<open>A batch answers a prefix of the calls, all of them unless the run is aborted on the way.\<close>

definition answers_prefix :: "'w agent_env \<Rightarrow> tool_call list \<Rightarrow> tool_result_message list \<Rightarrow> bool" where
  "answers_prefix env cs ms \<longleftrightarrow> (\<exists>k. answers (take k cs) ms) \<and> (ms = [] \<longrightarrow> cs = []) \<and>
     ((\<forall>w. \<not> ev_aborted env w) \<longrightarrow> answers cs ms)"

lemma sequential_calls_spec:
  assumes "run_state (sequential_calls env am cs) s = (fms, s')"
  shows "announces (map ToolResultMessage (map snd fms)) s s' \<and> answers_prefix env cs (map snd fms)"
  using assms
proof (induction cs arbitrary: fms s)
  case (Cons c cs)
  from Cons.prems obtain fm s1 rest where
    st: "run_state (sequential_call env am c) s = (fm, s1)"
      "run_state (if ev_aborted env (ls_world s1) then State_Monad.return [] else sequential_calls env am cs) s1 = (rest, s')"
      "fms = fm # rest"
    unfolding sequential_calls_Cons by (auto simp: read_world_def simp del: sequential_calls.simps split: prod.splits)
  note one = sequential_call_spec [OF st(1)]
  show ?case
  proof (cases "ev_aborted env (ls_world s1)")
    case True
    then have "rest = []" "s' = s1" using st(2) by simp_all
    moreover have "answers (take 1 (c # cs)) [snd fm]" using one by simp
    ultimately show ?thesis using one st(3) True by (auto simp: answers_prefix_def simp del: take_Suc_Cons)
  next
    case False
    then have IH: "announces (map ToolResultMessage (map snd rest)) s1 s'" "answers_prefix env cs (map snd rest)"
      using Cons.IH st(2) by simp_all
    then obtain k where "answers (take k cs) (map snd rest)" by (auto simp: answers_prefix_def)
    then have "answers (take (Suc k) (c # cs)) (map snd fms)" using one st(3) by simp
    then have "\<exists>k. answers (take k (c # cs)) (map snd fms)" by blast
    then have "answers_prefix env (c # cs) (map snd fms)"
      using IH(2) one st(3) by (simp add: answers_prefix_def del: take_Suc_Cons)
    then show ?thesis using announces_trans [OF conjunct1 [OF one] IH(1)] st(3) by simp
  qed
qed (simp add: answers_prefix_def exI [of _ 0])

subsection \<open>Concurrent calls\<close>

definition entry_call :: "'w call_entry \<Rightarrow> tool_call" where
  "entry_call e = (case e of FinishedEntry f \<Rightarrow> fin_toolCall f | PendingEntry p \<Rightarrow> pc_toolCall p)"

lemma parallel_prepare_spec:
  assumes "run_state (parallel_prepare env am cs) s = (es, s')"
  shows "(\<exists>k. map entry_call es = take k cs) \<and> (es = [] \<longrightarrow> cs = []) \<and>
    ((\<forall>w. \<not> ev_aborted env w) \<longrightarrow> map entry_call es = cs)"
  using assms
proof (induction cs arbitrary: es s)
  case (Cons c cs)
  let ?entry = "\<lambda>prep. (case prep of
        ImmediateCall result isError \<Rightarrow> do {
          let f = \<lparr>fin_toolCall = c, fin_result = result, fin_isError = isError\<rparr>;
          emitToolExecutionEnd f;
          State_Monad.return (FinishedEntry f) }
      | PreparedCall p \<Rightarrow> State_Monad.return (PendingEntry p))"
  from Cons.prems obtain u s1 prep s2 e s3 rest where
    st: "run_state (emit_start c) s = (u, s1)" "run_state (prepareToolCall env am c) s1 = (prep, s2)"
      "run_state (?entry prep) s2 = (e, s3)"
      "run_state (if ev_aborted env (ls_world s3) then State_Monad.return [] else parallel_prepare env am cs) s3 = (rest, s')"
      "es = e # rest"
    by (auto simp: read_world_def split: prod.splits)
  have e: "entry_call e = c"
    using st(2,3) prepared_call_same by (cases prep) (fastforce simp: entry_call_def Let_def split: prod.splits)+
  show ?case
  proof (cases "ev_aborted env (ls_world s3)")
    case True
    then have "rest = []" using st(4) by simp
    then have "map entry_call es = take 1 (c # cs)" using st(5) e by simp
    then show ?thesis using st(5) True by blast
  next
    case False
    then have IH: "\<exists>k. map entry_call rest = take k cs" "(\<forall>w. \<not> ev_aborted env w) \<longrightarrow> map entry_call rest = cs"
      using Cons.IH st(4) by simp_all
    then obtain k where "map entry_call es = take (Suc k) (c # cs)" using st(5) e by auto
    then show ?thesis using IH(2) st(5) e by (metis list.simps(3,9))
  qed
qed (simp add: exI [of _ 0])

lemma run_pending_spec:
  assumes "run_state (run_pending env am es is) s = (fin, s')" "i \<in> set is" "es ! i = PendingEntry p"
  shows "\<exists>f. map_of fin i = Some f \<and> fin_toolCall f = pc_toolCall p"
  using assms
proof (induction "is" arbitrary: fin s)
  case (Cons j js)
  show ?case
  proof (cases "es ! j")
    case (FinishedEntry g)
    then show ?thesis using Cons by auto
  next
    case (PendingEntry q)
    with Cons.prems(1) obtain f s1 u s2 rest where
      st: "run_state (run_prepared env am q) s = (f, s1)" "run_state (emitToolExecutionEnd f) s1 = (u, s2)"
        "run_state (run_pending env am es js) s2 = (rest, s')" "fin = (j, f) # rest"
      by (auto split: prod.splits)
    show ?thesis
    proof (cases "i = j")
      case True
      then show ?thesis using st(1,4) PendingEntry Cons.prems(3) run_prepared_same by fastforce
    next
      case False
      then show ?thesis using Cons.IH [OF st(3)] Cons.prems(2,3) st(4) by simp
    qed
  qed
qed simp

lemma ordered_calls_same:
  assumes "run_state (run_pending env am es (completion_order es sched)) s = (fin, s')"
  shows "map fin_toolCall (ordered_calls es fin) = map entry_call es"
proof -
  have "fin_toolCall (case es ! i of FinishedEntry f \<Rightarrow> f | PendingEntry p \<Rightarrow> the (map_of fin i)) = entry_call (es ! i)"
    if "i < length es" for i
  proof (cases "es ! i")
    case (PendingEntry p)
    then have "i \<in> set (completion_order es sched)" using that by (auto simp: completion_order_def pending_indices_def)
    then show ?thesis using run_pending_spec [OF assms _ PendingEntry] PendingEntry by (auto simp: entry_call_def)
  qed (simp add: entry_call_def)
  then show ?thesis by (auto simp: ordered_calls_def intro!: nth_equalityI)
qed

lemma report_results_spec:
  assumes "run_state (report_results env fs) s = (ms, s')"
  shows "announces (map ToolResultMessage ms) s s' \<and> answers (map fin_toolCall fs) ms"
  using assms
proof (induction fs arbitrary: ms s)
  case (Cons f fs)
  then obtain m s1 u s2 rest where
    st: "run_state (createToolResultMessage env f) s = (m, s1)" "run_state (emitToolResultMessage m) s1 = (u, s2)"
      "run_state (report_results env fs) s2 = (rest, s')" "ms = m # rest"
    by (auto split: prod.splits)
  have "announces [ToolResultMessage m] s s2"
    using quietD [OF _ st(1)] emitToolResultMessage_announces [OF st(2)] announces_trans_quiet by auto
  moreover note Cons.IH [OF st(3)]
  moreover have "m = tool_result_of f (ev_now env (ls_world s))"
    using st(1) by (auto simp: createToolResultMessage_def read_world_def)
  ultimately show ?case using announces_trans [of "[ToolResultMessage m]"] st(4) by fastforce
qed simp

lemma parallel_spec:
  assumes "run_state (executeToolCallsParallel env am cs) s = (batch, s')"
  shows "announces (map ToolResultMessage (tb_messages batch)) s s' \<and> answers_prefix env cs (tb_messages batch)"
proof -
  from assms obtain es s1 fin s2 ms where
    st: "run_state (parallel_prepare env am cs) s = (es, s1)"
      "run_state (run_pending env am es (completion_order es (ev_schedule env (ls_world s1)))) s1 = (fin, s2)"
      "run_state (report_results env (ordered_calls es fin)) s2 = (ms, s')" "tb_messages batch = ms"
    by (auto simp: executeToolCallsParallel_def read_world_def Let_def split: prod.splits)
  note prep = parallel_prepare_spec [OF st(1)]
  have rep: "announces (map ToolResultMessage ms) s2 s'" "answers (map entry_call es) ms"
    using report_results_spec [OF st(3)] ordered_calls_same [OF st(2)] by simp_all
  have "announces (map ToolResultMessage ms) s s'"
    using quietD [OF _ st(1)] quietD [OF _ st(2)] rep(1) by (simp add: announces_def stays_def)
  moreover have "ms = [] \<longrightarrow> cs = []" using rep(2) prep by (auto simp: answers_def)
  moreover have "\<exists>k. answers (take k cs) ms" using prep rep(2) by metis
  moreover have "(\<forall>w. \<not> ev_aborted env w) \<longrightarrow> answers cs ms" using prep rep(2) by metis
  ultimately show ?thesis using st(4) by (simp add: answers_prefix_def)
qed

lemma executeToolCalls_spec:
  assumes "run_state (executeToolCalls env cfg am) s = (batch, s')"
  shows "announces (map ToolResultMessage (tb_messages batch)) s s' \<and>
    answers_prefix env (tool_calls_of (am_content am)) (tb_messages batch)"
proof -
  have "announces (map ToolResultMessage (tb_messages batch)) s s' \<and>
      answers_prefix env (tool_calls_of (am_content am)) (tb_messages batch)"
    if "run_state (executeToolCallsSequential env am (tool_calls_of (am_content am))) s = (batch, s')"
  proof -
    from that obtain fms where "run_state (sequential_calls env am (tool_calls_of (am_content am))) s = (fms, s')"
      "tb_messages batch = map snd fms"
      by (auto simp: executeToolCallsSequential_def split: prod.splits)
    then show ?thesis using sequential_calls_spec by metis
  qed
  then show ?thesis
    using assms parallel_spec [of env am "tool_calls_of (am_content am)" s batch s']
    by (auto simp: executeToolCalls_def get_context_def Let_def split: if_splits)
qed

section \<open>Responses\<close>

text \<open>A response is announced once, complete, at its end; the new messages are not touched.\<close>

definition responds :: "assistant_message \<Rightarrow> 'w loop_state \<Rightarrow> 'w loop_state \<Rightarrow> bool" where
  "responds m s s' \<longleftrightarrow> ended (ls_events s') = ended (ls_events s) @ [AssistantMessage m] \<and> stays s s' \<and> ls_new s' = ls_new s"

definition start_events :: "stream_event list \<Rightarrow> nat" where
  "start_events evs = length (filter (\<lambda>e. case e of StreamStart _ \<Rightarrow> True | _ \<Rightarrow> False) evs)"

lemmas loop_primitives = emit_def push_context_def replace_last_def set_messages_def push_new_def get_context_def
  read_world_def call_out_def

lemma finish_stream_spec:
  assumes "run_state (finish_stream added final) s = (m, s')"
  shows "m = final \<and> responds m s s' \<and>
    ac_messages (ls_context s') = (if added then butlast else id) (ac_messages (ls_context s)) @ [AssistantMessage m]"
  using assms
  by (auto simp: finish_stream_def loop_primitives responds_def stays_def split: if_splits)

lemma stream_loop_responds:
  assumes "run_state (stream_loop final added evs) s = (m, s')"
  shows "responds m s s'"
  using assms
proof (induction final added evs arbitrary: s rule: stream_loop.induct)
  case (1 final added)
  then show ?case using finish_stream_spec by (metis stream_loop.simps(1))
next
  case (2 final added p evs)
  from 2(2) obtain s1 where st: "run_state (stream_loop final True evs) s1 = (m, s')"
    "ended (ls_events s1) = ended (ls_events s)" "stays s s1" "ls_new s1 = ls_new s"
    by (auto simp: loop_primitives stays_def)
  then show ?case using 2(1) [OF st(1)] by (simp add: responds_def stays_def)
next
  case (3 final added p evs)
  from 3(2) obtain s1 where st: "run_state (stream_loop final added evs) s1 = (m, s')"
    "ended (ls_events s1) = ended (ls_events s)" "stays s s1" "ls_new s1 = ls_new s"
    by (cases added) (auto simp: loop_primitives stays_def)
  then show ?case using 3(1) [OF st(1)] by (simp add: responds_def stays_def)
next
  case (4 final added evs)
  then show ?case using finish_stream_spec by (metis stream_loop.simps(4))
qed

lemma stream_loop_context:
  assumes "run_state (stream_loop final added evs) s = (m, s')"
    "start_events evs + (if added then 1 else 0) \<le> 1" "added \<longrightarrow> ac_messages (ls_context s) \<noteq> []"
  shows "ac_messages (ls_context s') = (if added then butlast else id) (ac_messages (ls_context s)) @ [AssistantMessage m]"
  using assms
proof (induction final added evs arbitrary: s rule: stream_loop.induct)
  case (1 final added)
  then show ?case using finish_stream_spec by (metis stream_loop.simps(1))
next
  case (2 final added p evs)
  then have na: "\<not> added" by (auto simp: start_events_def split: if_splits)
  from 2(2) obtain s1 where st: "run_state (stream_loop final True evs) s1 = (m, s')"
    "ac_messages (ls_context s1) = ac_messages (ls_context s) @ [AssistantMessage p]"
    by (auto simp: loop_primitives)
  then show ?case using 2(1) [OF st(1)] 2(3) na by (simp add: start_events_def)
next
  case (3 final added p evs)
  from 3(2,4) obtain s1 where st: "run_state (stream_loop final added evs) s1 = (m, s')"
    "if added then ac_messages (ls_context s1) = butlast (ac_messages (ls_context s)) @ [AssistantMessage p]
     else ac_messages (ls_context s1) = ac_messages (ls_context s)"
    by (cases added) (auto simp: loop_primitives)
  then show ?case using 3(1) [OF st(1)] 3(3) by (auto simp: start_events_def split: if_splits)
next
  case (4 final added evs)
  then show ?case using finish_stream_spec by (metis stream_loop.simps(4))
qed

text \<open>Streams that start their response at most once, as the stream contract has it.\<close>

definition single_start :: "'w agent_env \<Rightarrow> bool" where
  "single_start env \<longleftrightarrow> (\<forall>w r. start_events (fst (fst (ev_stream env w r))) \<le> 1)"

lemma streamAssistantResponse_spec:
  assumes "run_state (streamAssistantResponse env cfg) s = (m, s')"
  shows "responds m s s'"
    and "single_start env \<Longrightarrow> ac_messages (ls_context s') = ac_messages (ls_context s) @ [AssistantMessage m]"
proof -
  from assms obtain ctx sa ms sb llm sc key sd evs final s1 req where
    pre: "run_state get_context s = (ctx, sa)" "run_state (call_out (\<lambda>w. ev_transform env w (ac_messages ctx))) sa = (ms, sb)"
      "run_state (call_out (\<lambda>w. ev_convert env w ms)) sb = (llm, sc)"
      "run_state (call_out (\<lambda>w. ev_getApiKey env w (mo_provider (cfg_model cfg)))) sc = (key, sd)"
      "run_state (call_out (\<lambda>w. ev_stream env w req)) sd = ((evs, final), s1)"
      "run_state (stream_loop final False evs) s1 = (m, s')"
    by (auto simp: streamAssistantResponse_def split: prod.splits)
  have "announces [] s s1"
    using quietD [OF _ pre(1)] quietD [OF _ pre(2)] quietD [OF _ pre(3)] quietD [OF _ pre(4)] quietD [OF _ pre(5)]
    by (simp add: announces_def stays_def)
  moreover have "evs = fst (fst (ev_stream env (ls_world sd) req))"
    using pre(5) by (auto simp: call_out_def split: prod.splits)
  ultimately obtain w r where st: "run_state (stream_loop final False evs) s1 = (m, s')"
    "announces [] s s1" "evs = fst (fst (ev_stream env w r))"
    using pre(6) by blast
  show "responds m s s'" using stream_loop_responds [OF st(1)] st(2) by (simp add: responds_def announces_def stays_def)
  show "ac_messages (ls_context s') = ac_messages (ls_context s) @ [AssistantMessage m]" if "single_start env"
  proof -
    have "start_events evs \<le> 1" using that st(3) by (simp add: single_start_def)
    then show ?thesis using stream_loop_context [OF st(1)] st(2) by (simp add: announces_def)
  qed
qed

section \<open>Turns\<close>

text \<open>Messages that are announced, returned and added to the context alike.\<close>

definition delivers :: "agent_message list \<Rightarrow> 'w loop_state \<Rightarrow> 'w loop_state \<Rightarrow> bool" where
  "delivers ms s s' \<longleftrightarrow> ended (ls_events s') = ended (ls_events s) @ ms \<and> stays s s' \<and> ls_new s' = ls_new s @ ms \<and>
     ac_messages (ls_context s') = ac_messages (ls_context s) @ ms"

lemma delivers_refl [simp]: "delivers [] s s"
  by (simp add: delivers_def stays_def)

lemma delivers_trans: "delivers ms s s' \<Longrightarrow> delivers ms' s' s'' \<Longrightarrow> delivers (ms @ ms') s s''"
  by (simp add: delivers_def stays_def)

definition announcement :: "agent_message list \<Rightarrow> agent_event list" where
  "announcement ms = concat (map (\<lambda>m. [MessageStart m, MessageEnd m]) ms)"

lemma announcement_simps [simp]: "announcement [] = []"
  "announcement (m # ms) = MessageStart m # MessageEnd m # announcement ms"
  by (simp_all add: announcement_def)

lemma ended_announcement [simp]: "ended (announcement ms) = ms"
  by (induction ms) simp_all

lemma phase_announcement [simp]: "foldl phase_step (InTurn n) (announcement ms) = InTurn n"
  by (induction ms) simp_all

lemma announce_all: "run_state (for_each announce ms) s = ((), s\<lparr>ls_events := ls_events s @ announcement ms\<rparr>)"
  by (induction ms arbitrary: s) (simp_all add: announce_def emit_def)

lemma inject_all:
  "run_state (for_each (\<lambda>m. do { announce m; push_context m; push_new m }) ms) s
   = ((), s\<lparr>ls_events := ls_events s @ announcement ms,
        ls_context := (ls_context s)\<lparr>ac_messages := ac_messages (ls_context s) @ ms\<rparr>, ls_new := ls_new s @ ms\<rparr>)"
  by (induction ms arbitrary: s) (simp_all add: announce_def loop_primitives)

lemma push_results:
  "run_state (for_each (\<lambda>r. do { push_context (ToolResultMessage r); push_new (ToolResultMessage r) }) rs) s
   = ((), s\<lparr>ls_context := (ls_context s)\<lparr>ac_messages := ac_messages (ls_context s) @ map ToolResultMessage rs\<rparr>,
        ls_new := ls_new s @ map ToolResultMessage rs\<rparr>)"
  by (induction rs arbitrary: s) (simp_all add: loop_primitives)

lemma announced_then_pushed:
  assumes "announces (map ToolResultMessage rs) s s1"
    "s' = s1\<lparr>ls_context := (ls_context s1)\<lparr>ac_messages := ac_messages (ls_context s1) @ map ToolResultMessage rs\<rparr>,
       ls_new := ls_new s1 @ map ToolResultMessage rs\<rparr>"
  shows "delivers (map ToolResultMessage rs) s s'"
  using assms by (simp add: announces_def delivers_def stays_def)

lemma run_tools_spec:
  assumes "run_state (run_tools env cfg m) s = ((rs, hasMore), s')"
  shows "delivers (map ToolResultMessage rs) s s'"
    and "answers_prefix env (tool_calls_of (am_content m)) rs"
    and "am_stopReason m = LengthStop \<Longrightarrow>
      answers (tool_calls_of (am_content m)) rs \<and> list_all tr_isError rs \<and> ls_world s' = ls_world s"
proof -
  let ?cs = "tool_calls_of (am_content m)"
  have "delivers (map ToolResultMessage rs) s s' \<and> answers_prefix env ?cs rs \<and>
      (am_stopReason m = LengthStop \<longrightarrow> answers ?cs rs \<and> list_all tr_isError rs \<and> ls_world s' = ls_world s)"
  proof (cases "?cs = []")
    case True
    then show ?thesis using assms by (simp add: run_tools_def answers_prefix_def exI [of _ 0])
  next
    case ne: False
    show ?thesis
    proof (cases "am_stopReason m = LengthStop")
      case True
      then obtain ms s1 where st: "run_state (failToolCallsFromTruncatedMessage env ?cs) s = (ms, s1)" "rs = ms"
        "s' = s1\<lparr>ls_context := (ls_context s1)\<lparr>ac_messages := ac_messages (ls_context s1) @ map ToolResultMessage ms\<rparr>,
           ls_new := ls_new s1 @ map ToolResultMessage ms\<rparr>"
        using assms ne by (auto simp: run_tools_def Let_def push_results split: prod.splits)
      note spec = truncated_calls [OF st(1)]
      then have all: "answers ?cs rs" using st(2) by simp
      then have "\<exists>k. answers (take k ?cs) rs" by (intro exI [of _ "length ?cs"]) simp
      then have "answers_prefix env ?cs rs" using all by (auto simp: answers_prefix_def answers_def)
      then show ?thesis using spec st announced_then_pushed [of rs s s1] by simp
    next
      case False
      then obtain batch s1 where st: "run_state (executeToolCalls env cfg m) s = (batch, s1)" "rs = tb_messages batch"
        "s' = s1\<lparr>ls_context := (ls_context s1)\<lparr>ac_messages := ac_messages (ls_context s1) @ map ToolResultMessage (tb_messages batch)\<rparr>,
           ls_new := ls_new s1 @ map ToolResultMessage (tb_messages batch)\<rparr>"
        using assms ne by (auto simp: run_tools_def Let_def push_results split: prod.splits)
      then show ?thesis using executeToolCalls_spec [OF st(1)] announced_then_pushed [of rs s s1] False by simp
    qed
  qed
  then show "delivers (map ToolResultMessage rs) s s'" "answers_prefix env ?cs rs"
    "am_stopReason m = LengthStop \<Longrightarrow> answers ?cs rs \<and> list_all tr_isError rs \<and> ls_world s' = ls_world s"
    by simp_all
qed

text \<open>
  The hypothesis under which the context only grows by the run's messages: streams start their
  response at most once and \<^verbatim>\<open>prepareNextTurn\<close> does not replace the context.
\<close>

definition keeps_context :: "'w agent_env \<Rightarrow> bool" where
  "keeps_context env \<longleftrightarrow> single_start env \<and>
     (\<forall>w r u. fst (ev_prepareNextTurn env w r) = Some u \<longrightarrow> tu_context u = None)"

definition tracks :: "'w agent_env \<Rightarrow> agent_message list \<Rightarrow> agent_message list \<Rightarrow> 'w loop_state \<Rightarrow> bool" where
  "tracks env base ps s \<longleftrightarrow> ended (ls_events s) = ls_new s \<and> prefix ps (ls_new s) \<and>
     (keeps_context env \<longrightarrow> ac_messages (ls_context s) = base @ ls_new s)"

lemma tracks_delivers: "tracks env base ps s \<Longrightarrow> delivers ms s s' \<Longrightarrow> tracks env base ps s'"
  by (simp add: tracks_def delivers_def)

lemma tracks_announces: "tracks env base ps s \<Longrightarrow> announces [] s s' \<Longrightarrow> tracks env base ps s'"
  by (simp add: tracks_def announces_def)

lemma stays_phase:
  "announces ms s s' \<Longrightarrow> phase (ls_events s) = InTurn n \<Longrightarrow> phase (ls_events s') = InTurn n"
  "delivers ms s s' \<Longrightarrow> phase (ls_events s) = InTurn n \<Longrightarrow> phase (ls_events s') = InTurn n"
  "responds m s s' \<Longrightarrow> phase (ls_events s) = InTurn n \<Longrightarrow> phase (ls_events s') = InTurn n"
  by (simp_all add: announces_def delivers_def responds_def stays_def)

text \<open>A state in which a run has closed, and reports the messages it returns.\<close>

definition closed_after :: "nat \<Rightarrow> 'w loop_state \<Rightarrow> bool" where
  "closed_after n s \<longleftrightarrow> phase (ls_events s) = Closed n \<and> last_opt (ls_events s) = Some (AgentEnd (ls_new s))"

lemma finish_run_spec:
  assumes "phase (ls_events s) = Between n" "tracks env base ps s"
  shows "closed_after n (snd (run_state finish_run s)) \<and> tracks env base ps (snd (run_state finish_run s))"
  using assms by (simp add: finish_run_def closed_after_def tracks_def)

lemma stream_tracks:
  assumes "run_state (streamAssistantResponse env cfg) s = (m, s1)" "run_state (push_new (AssistantMessage m)) s1 = (u, s2)"
    "tracks env base ps s" "phase (ls_events s) = InTurn n"
  shows "tracks env base ps s2 \<and> phase (ls_events s2) = InTurn n"
proof -
  note resp = streamAssistantResponse_spec [OF assms(1)]
  have "phase (ls_events s1) = InTurn n" using stays_phase(3) [OF resp(1)] assms(4) by simp
  then show ?thesis using resp assms(2,3) by (auto simp: push_new_def tracks_def responds_def keeps_context_def)
qed

text \<open>What comes after the end of a turn: the hooks, and the messages typed meanwhile.\<close>

definition turn_hooks :: "'w agent_env \<Rightarrow> loop_config \<Rightarrow> assistant_message \<Rightarrow> tool_result_message list \<Rightarrow> bool \<Rightarrow> ('w, turn_outcome) loop" where
  "turn_hooks env cfg m results hasMore = do {
     report \<leftarrow> turn_report_of m results;
     u \<leftarrow> call_out (\<lambda>w. ev_prepareNextTurn env w report);
     cfg' \<leftarrow> apply_update cfg u;
     report' \<leftarrow> turn_report_of m results;
     stop \<leftarrow> call_out (\<lambda>w. ev_shouldStop env w report');
     (if stop then do { finish_run; State_Monad.return TurnStops }
      else do {
        pending \<leftarrow> call_out (ev_steering env);
        State_Monad.return (TurnContinues cfg' hasMore pending) }) }"

lemma run_turn_eq:
  "run_turn env cfg = do {
     m \<leftarrow> streamAssistantResponse env cfg;
     push_new (AssistantMessage m);
     (if am_stopReason m = ErrorStop \<or> am_stopReason m = AbortedStop
      then do { emit (TurnEnd m []); finish_run; State_Monad.return TurnStops }
      else do {
        (results, hasMore) \<leftarrow> run_tools env cfg m;
        emit (TurnEnd m results);
        turn_hooks env cfg m results hasMore }) }"
  unfolding run_turn_def turn_hooks_def by (rule refl)

lemma apply_update_spec:
  assumes "run_state (apply_update cfg u) s = (cfg', s')" "tracks env base ps s" "\<forall>t. u = Some t \<longrightarrow> keeps_context env \<longrightarrow> tu_context t = None"
  shows "tracks env base ps s' \<and> ls_events s' = ls_events s"
  using assms by (auto simp: apply_update_def tracks_def split: option.splits)

definition turn_ended :: "'w agent_env \<Rightarrow> agent_message list \<Rightarrow> agent_message list \<Rightarrow> nat \<Rightarrow> turn_outcome \<Rightarrow> 'w loop_state \<Rightarrow> bool" where
  "turn_ended env base ps n out s \<longleftrightarrow> tracks env base ps s \<and>
     (case out of TurnStops \<Rightarrow> closed_after n s | TurnContinues _ _ _ \<Rightarrow> phase (ls_events s) = Between n)"

lemma turn_hooks_spec:
  assumes "run_state (turn_hooks env cfg m rs hasMore) s = (out, s')" "tracks env base ps s" "phase (ls_events s) = Between n"
  shows "turn_ended env base ps n out s'"
proof -
  from assms(1) obtain s1 u s2 cfg' s3 stop s4 rep rep' where
    st: "run_state (turn_report_of m rs) s = (rep, s)" "run_state (call_out (\<lambda>w. ev_prepareNextTurn env w rep)) s = (u, s1)"
      "run_state (apply_update cfg u) s1 = (cfg', s2)" "run_state (turn_report_of m rs) s2 = (rep', s2)"
      "run_state (call_out (\<lambda>w. ev_shouldStop env w rep')) s2 = (stop, s3)"
      "run_state (if stop then do { finish_run; State_Monad.return TurnStops }
        else do { pending \<leftarrow> call_out (ev_steering env); State_Monad.return (TurnContinues cfg' hasMore pending) }) s3 = (out, s')"
    by (auto simp: turn_hooks_def turn_report_of_def split: prod.splits)
  have "fst (ev_prepareNextTurn env (ls_world s) rep) = u" using st(2) by (auto simp: call_out_def split: prod.splits)
  then have "\<forall>t. u = Some t \<longrightarrow> keeps_context env \<longrightarrow> tu_context t = None" by (auto simp: keeps_context_def)
  moreover have "tracks env base ps s1" "ls_events s1 = ls_events s" 
    using st(2) assms(2) by (auto simp: call_out_def tracks_def split: prod.splits)
  ultimately have "tracks env base ps s2" "ls_events s2 = ls_events s" using apply_update_spec [OF st(3)] by auto
  then have s3: "tracks env base ps s3" "phase (ls_events s3) = Between n"
    using st(5) assms(3) by (auto simp: call_out_def tracks_def split: prod.splits)
  show ?thesis
  proof (cases stop)
    case True
    then show ?thesis using st(6) finish_run_spec [OF s3(2,1)] by (auto simp: turn_ended_def split: prod.splits)
  next
    case False
    then show ?thesis using st(6) s3 by (auto simp: turn_ended_def call_out_def tracks_def split: prod.splits)
  qed
qed

lemma emit_turn_end:
  assumes "run_state (emit (TurnEnd m rs)) s = (u, s')" "tracks env base ps s" "phase (ls_events s) = InTurn n"
  shows "tracks env base ps s' \<and> phase (ls_events s') = Between (Suc n)"
  using assms by (auto simp: emit_def tracks_def)

lemma run_turn_spec:
  assumes "run_state (run_turn env cfg) s = (out, s')" "tracks env base ps s" "phase (ls_events s) = InTurn n"
  shows "turn_ended env base ps (Suc n) out s'"
proof -
  obtain m s1 where s1: "run_state (streamAssistantResponse env cfg) s = (m, s1)" using prod.exhaust by blast
  obtain u s2 where s2: "run_state (push_new (AssistantMessage m)) s1 = (u, s2)" using prod.exhaust by blast
  note tr = stream_tracks [OF s1 s2 assms(2,3)]
  show ?thesis
  proof (cases "am_stopReason m = ErrorStop \<or> am_stopReason m = AbortedStop")
    case True
    obtain u' s3 where s3: "run_state (emit (TurnEnd m [])) s2 = (u', s3)" using prod.exhaust by blast
    have "out = TurnStops \<and> s' = snd (run_state finish_run s3)"
      using assms(1) s1 s2 s3 True by (auto simp: run_turn_eq split: prod.splits)
    then show ?thesis
      using emit_turn_end [OF s3 conjunct1 [OF tr] conjunct2 [OF tr]] finish_run_spec [of s3 "Suc n" env base ps]
      by (simp add: turn_ended_def)
  next
    case False
    then obtain rs hasMore s3 u' s4 where st: "run_state (run_tools env cfg m) s2 = ((rs, hasMore), s3)"
      "run_state (emit (TurnEnd m rs)) s3 = (u', s4)" "run_state (turn_hooks env cfg m rs hasMore) s4 = (out, s')"
      using assms(1) s1 s2 by (auto simp: run_turn_eq split: prod.splits)
    note del = run_tools_spec(1) [OF st(1)]
    have "tracks env base ps s4" "phase (ls_events s4) = Between (Suc n)"
      using emit_turn_end [OF st(2)] tracks_delivers [OF _ del] stays_phase(2) [OF del] tr by blast+
    then show ?thesis using turn_hooks_spec [OF st(3)] by simp
  qed
qed

section \<open>Runs\<close>

lemma open_turn_spec:
  assumes "run_state (open_turn first pending) s = (u, s')" "tracks env base ps s"
    "if first then phase (ls_events s) = InTurn n else phase (ls_events s) \<in> {Between n, FollowingUp n}"
  shows "tracks env base ps s' \<and> phase (ls_events s') = InTurn n"
  using assms by (cases first) (auto simp: open_turn_def inject_all emit_def tracks_def)

lemma exhausted_turn_spec:
  assumes "tracks env base ps s" "phase (ls_events s) = InTurn n" "s' = snd (run_state (exhausted_turn env cfg b) s)"
  shows "tracks env base ps s' \<and> closed_after (Suc n) s'"
  using assms
  by (auto simp: exhausted_turn_def finish_run_def announce_def loop_primitives Let_def tracks_def closed_after_def last_opt_def)

lemma budget_consume_remaining:
  "budget_consume b = (True, b') \<Longrightarrow> nat (budget_remaining b) = Suc (nat (budget_remaining b'))"
  by (auto simp: budget_consume_def budget_remaining_def split: if_splits)

text \<open>A run that has closed after at least one and at most \<open>b + 1\<close> more turns.\<close>

definition closes_within :: "'w agent_env \<Rightarrow> agent_message list \<Rightarrow> agent_message list \<Rightarrow> nat \<Rightarrow> nat \<Rightarrow> 'w loop_state \<Rightarrow> bool" where
  "closes_within env base ps n b s \<longleftrightarrow> tracks env base ps s \<and> (\<exists>k. n < k \<and> k \<le> n + b + 1 \<and> closed_after k s)"

lemma closes_within_next: "closes_within env base ps (Suc n) b s \<Longrightarrow> closes_within env base ps n (Suc b) s"
  unfolding closes_within_def by (metis Suc_lessD add_Suc_shift)

lemma closes_within_now: "tracks env base ps s \<Longrightarrow> closed_after (Suc n) s \<Longrightarrow> closes_within env base ps n b s"
  unfolding closes_within_def by (metis le_add1 add.commute lessI plus_1_eq_Suc add_le_mono1)

lemma run_loop_spec:
  assumes "tracks env base ps s"
    "if first then phase (ls_events s) = InTurn n else phase (ls_events s) \<in> {Between n, FollowingUp n}"
  shows "closes_within env base ps n (nat (budget_remaining budget)) (run_loop env cfg budget first pending s)"
  using assms
proof (induction "nat (budget_remaining budget)" arbitrary: cfg budget first pending s n rule: less_induct)
  case less
  let ?s' = "run_loop env cfg budget first pending s"
  obtain u s1 where s1: "run_state (open_turn first pending) s = (u, s1)" using prod.exhaust by blast
  note tr1 = open_turn_spec [OF s1 less.prems]
  obtain ok budget' where bc: "budget_consume budget = (ok, budget')" by fastforce
  show ?case
  proof (cases ok)
    case False
    then have "?s' = snd (run_state (exhausted_turn env cfg budget) s1)"
      using s1 bc by (subst run_loop.simps) simp
    then have "tracks env base ps ?s' \<and> closed_after (Suc n) ?s'" using exhausted_turn_spec tr1 by blast
    then show ?thesis by (simp add: closes_within_now)
  next
    case True
    then have rem: "nat (budget_remaining budget) = Suc (nat (budget_remaining budget'))"
      using bc budget_consume_remaining by simp
    obtain out s2 where s2: "run_state (run_turn env cfg) s1 = (out, s2)" by fastforce
    note tr2 = run_turn_spec [OF s2 conjunct1 [OF tr1] conjunct2 [OF tr1]]
    show ?thesis
    proof (cases out)
      case TurnStops
      then have "?s' = s2" using s1 bc True s2 by (subst run_loop.simps) simp
      then show ?thesis using tr2 TurnStops by (simp add: turn_ended_def closes_within_now)
    next
      case (TurnContinues cfg' hasMore pending')
      then have t2: "tracks env base ps s2" "phase (ls_events s2) = Between (Suc n)" using tr2 by (auto simp: turn_ended_def)
      obtain fu s3 where s3: "run_state (call_out (ev_followUp env)) s2 = (fu, s3)" by fastforce
      then have t3: "tracks env base ps s3" "phase (ls_events s3) = Between (Suc n)"
        using t2 by (auto simp: call_out_def tracks_def split: prod.splits)
      let ?s4 = "snd (run_state (emit FollowUpStart) s3)"
      have t4: "tracks env base ps ?s4" "phase (ls_events ?s4) = FollowingUp (Suc n)"
        using t3 by (auto simp: emit_def tracks_def)
      have s': "?s' = (if hasMore \<or> pending' \<noteq> [] then run_loop env cfg' budget' False pending' s2
          else if fu \<noteq> [] then run_loop env cfg' budget' False fu ?s4 else snd (run_state finish_run s3))"
        using s1 bc True s2 s3 TurnContinues by (subst run_loop.simps) simp
      consider "hasMore \<or> pending' \<noteq> []" | "\<not> (hasMore \<or> pending' \<noteq> [])" "fu \<noteq> []" | "\<not> (hasMore \<or> pending' \<noteq> [])" "fu = []"
        by blast
      then show ?thesis
      proof cases
        case 1
        then show ?thesis
          using less.hyps [of budget' s2 False "Suc n" cfg' pending'] s' t2 rem by (simp add: closes_within_next)
      next
        case 2
        then show ?thesis
          using less.hyps [of budget' ?s4 False "Suc n" cfg' fu] s' t4 rem by (simp add: closes_within_next)
      next
        case 3
        then show ?thesis using s' finish_run_spec [OF t3(2,1)] by (simp add: closes_within_now)
      qed
    qed
  qed
qed

text \<open>The bookkeeping of a run: what it announces, where its messages are, and that it closes in time.\<close>

lemma runLoop_spec:
  assumes "tracks env base ps s" "phase (ls_events s) = InTurn 0"
  shows "closes_within env base ps 0 (nat (budget_remaining b)) (runLoop env cfg b s)"
proof -
  obtain pending s' where st: "run_state (call_out (ev_steering env)) s = (pending, s')" by fastforce
  then have "tracks env base ps s'" "phase (ls_events s') = InTurn 0"
    using assms by (auto simp: call_out_def tracks_def split: prod.splits)
  then show ?thesis using run_loop_spec [of env base ps s' True 0 b cfg pending] st by (simp add: runLoop_def)
qed

lemma runAgentLoop_spec:
  assumes "run_budget budget maxIterations = Inr b"
  shows "\<exists>s. runAgentLoop env cfg budget maxIterations w prompts context = (s, Inr (ls_new s)) \<and>
    closes_within env (ac_messages context) prompts 0 (nat (budget_remaining b)) s"
proof -
  let ?s0 = "start_state w (context\<lparr>ac_messages := ac_messages context @ prompts\<rparr>) prompts"
  let ?s1 = "?s0\<lparr>ls_events := [AgentStart, TurnStart] @ announcement prompts\<rparr>"
  have "snd (run_state (do { emit AgentStart; emit TurnStart; for_each announce prompts }) ?s0) = ?s1"
    by (simp add: emit_def announce_all start_state_def)
  then have "runAgentLoop env cfg budget maxIterations w prompts context
      = (runLoop env cfg b ?s1, Inr (ls_new (runLoop env cfg b ?s1)))"
    using assms by (simp add: runAgentLoop_def Let_def)
  moreover have "tracks env (ac_messages context) prompts ?s1" by (simp add: tracks_def start_state_def)
  moreover have "phase (ls_events ?s1) = InTurn 0" by (simp add: phase_def)
  ultimately show ?thesis using runLoop_spec by blast
qed

lemma runAgentLoopContinue_spec:
  assumes "run_budget budget maxIterations = Inr b" "last_opt (ac_messages context) = Some m" "role_of m \<noteq> AssistantRole"
  shows "\<exists>s. runAgentLoopContinue env cfg budget maxIterations w context = (s, Inr (ls_new s)) \<and>
    closes_within env (ac_messages context) [] 0 (nat (budget_remaining b)) s"
proof -
  let ?s1 = "(start_state w context [])\<lparr>ls_events := [AgentStart, TurnStart]\<rparr>"
  have "snd (run_state (do { emit AgentStart; emit TurnStart }) (start_state w context [])) = ?s1"
    by (simp add: emit_def start_state_def)
  then have "runAgentLoopContinue env cfg budget maxIterations w context
      = (runLoop env cfg b ?s1, Inr (ls_new (runLoop env cfg b ?s1)))"
    using assms by (simp add: runAgentLoopContinue_def Let_def)
  moreover have "tracks env (ac_messages context) [] ?s1" by (simp add: tracks_def start_state_def)
  moreover have "phase (ls_events ?s1) = InTurn 0" by (simp add: phase_def)
  ultimately show ?thesis using runLoop_spec by blast
qed

section \<open>Properties\<close>

text \<open>An environment with one tool, whose model asks for it once and then answers.\<close>

definition demo_config :: loop_config where
  "demo_config = \<lparr>cfg_model = \<lparr>mo_api = ''api'', mo_provider = ''p'', mo_id = ''m''\<rparr>, cfg_reasoning = None,
     cfg_apiKey = None, cfg_sequential = False\<rparr>"

definition demo_call :: tool_call where
  "demo_call = \<lparr>tc_id = ''c1'', tc_name = ''echo'', tc_arguments = JStr ''x'', tc_thoughtSignature = None, tc_namespace = None\<rparr>"

definition demo_reply :: "assistant_block list \<Rightarrow> stop_reason \<Rightarrow> assistant_message" where
  "demo_reply blocks stop = (exhausted_message demo_config \<lparr>maxTotal = 1, usedTotal = 1\<rparr> 0)
     \<lparr>am_content := blocks, am_stopReason := stop, am_errorMessage := None\<rparr>"

definition demo_tool :: "nat agent_tool" where
  "demo_tool = \<lparr>tool_name = ''echo'', tool_sequential = False, tool_prepareArguments = None, tool_validate = Inr,
     tool_execute = (\<lambda>w i args. (([], Inr \<lparr>tres_content = Some [TextContent ''ok'' None], tres_details = None,
       tres_usage = None, tres_addedToolNames = None, tres_terminate = None\<rparr>), w + 1))\<rparr>"

definition demo_env :: "nat agent_env" where
  "demo_env = \<lparr>ev_steering = Pair [], ev_followUp = Pair [], ev_transform = (\<lambda>w ms. (ms, w)), ev_convert = (\<lambda>w ms. (ms, w)),
     ev_getApiKey = (\<lambda>w p. (None, w)),
     ev_stream = (\<lambda>w r. let m = (if w = 0 then demo_reply [ToolCallContent demo_call] ToolUseStop
        else demo_reply [AssistantText ''done'' None] Stop) in (([StreamStart m, StreamPart m, StreamEnd], m), w + 1)),
     ev_before = None, ev_after = None, ev_prepareNextTurn = (\<lambda>w r. (None, w)), ev_shouldStop = (\<lambda>w r. (False, w)),
     ev_aborted = (\<lambda>w. False), ev_now = int, ev_schedule = (\<lambda>w. [])\<rparr>"

definition demo_context :: "nat agent_context" where
  "demo_context = \<lparr>ac_systemPrompt = ''be brief'', ac_messages = [UserMessage (PlainContent ''old'') 0], ac_tools = Some [demo_tool]\<rparr>"

lemma demo_keeps_context: "keeps_context demo_env"
  by (simp add: keeps_context_def single_start_def demo_env_def start_events_def Let_def)

lemma default_budget: "run_budget None None = Inr \<lparr>maxTotal = 500, usedTotal = 0\<rparr>"
  by (simp add: run_budget_def budget_new_def default_max_iterations_def)

text \<open>
  C2. A run of the agent loop always ends, whatever the model, the tools and the hooks do, and its
  events follow the protocol: the run opens once, turns follow one another, messages and tool
  events occur in a turn only, and the run closes. At least one turn ends, and at most one
  more than the budget has calls of the model left.
\<close>

theorem run_protocol:
  assumes "run_budget budget maxIterations = Inr b"
  shows "\<exists>s msgs turns. runAgentLoop env cfg budget maxIterations w prompts context = (s, Inr msgs) \<and>
    phase (ls_events s) = Closed turns \<and> 1 \<le> turns \<and> turns \<le> nat (budget_remaining b) + 1"
proof -
  obtain s k where "runAgentLoop env cfg budget maxIterations w prompts context = (s, Inr (ls_new s))"
    "closed_after k s" "0 < k" "k \<le> nat (budget_remaining b) + 1"
    using runAgentLoop_spec [OF assms] by (fastforce simp: closes_within_def)
  then show ?thesis unfolding closed_after_def by (metis Suc_leI One_nat_def)
qed

theorem run_protocol_witness:
  "\<exists>s msgs turns. runAgentLoop demo_env demo_config None None 0 [UserMessage (PlainContent ''hi'') 1] demo_context = (s, Inr msgs) \<and>
    phase (ls_events s) = Closed turns \<and> 1 \<le> turns \<and> turns \<le> 501"
  using run_protocol [OF default_budget, of demo_env demo_config 0 "[UserMessage (PlainContent ''hi'') 1]" demo_context]
  by (simp add: budget_remaining_def)

text \<open>
  The messages that a run returns are those that it announced as complete, in that order, with
  the prompts first; the closing event carries the same messages.
\<close>

lemma run_reports_messages:
  assumes "run_budget budget maxIterations = Inr b"
  shows "\<exists>s msgs. runAgentLoop env cfg budget maxIterations w prompts context = (s, Inr msgs) \<and>
    ended (ls_events s) = msgs \<and> prefix prompts msgs \<and> last_opt (ls_events s) = Some (AgentEnd msgs)"
  using runAgentLoop_spec [OF assms, of env cfg w prompts "context"]
  by (auto simp: closes_within_def tracks_def closed_after_def)

text \<open>
  Unless \<^verbatim>\<open>prepareNextTurn\<close> replaces the context or a stream starts its response twice, a run
  leaves in the context the messages it found there followed by the messages it returns: partial
  responses are replaced and none of them stays.
\<close>

lemma run_extends_context:
  assumes "keeps_context env" "run_budget budget maxIterations = Inr b"
  shows "\<exists>s msgs. runAgentLoop env cfg budget maxIterations w prompts context = (s, Inr msgs) \<and>
    ac_messages (ls_context s) = ac_messages context @ msgs"
  using runAgentLoop_spec [OF assms(2), of env cfg w prompts "context"] assms(1)
  by (auto simp: closes_within_def tracks_def)

text \<open>
  C24. The tool calls of a response are answered in their order, whether they run one after the
  other or concurrently: the results carry the ids and names of a prefix of the calls, one result
  at least, and one for every call when the run is not aborted. The results are the messages announced.
\<close>

theorem tool_calls_answered:
  assumes "run_state (executeToolCalls env cfg am) s = (batch, s')"
  shows "answers_prefix env (tool_calls_of (am_content am)) (tb_messages batch) \<and>
    ended (ls_events s') = ended (ls_events s) @ map ToolResultMessage (tb_messages batch) \<and>
    ls_context s' = ls_context s \<and> ls_new s' = ls_new s"
  using executeToolCalls_spec [OF assms] by (simp add: announces_def)

definition demo_state :: "nat loop_state" where
  "demo_state = start_state 1 demo_context []"

theorem tool_calls_answered_witness:
  "answers [demo_call] (tb_messages (fst (run_state (executeToolCalls demo_env demo_config
     (demo_reply [ToolCallContent demo_call] ToolUseStop)) demo_state)))"
proof -
  have "answers_prefix demo_env (tool_calls_of (am_content (demo_reply [ToolCallContent demo_call] ToolUseStop)))
     (tb_messages (fst (run_state (executeToolCalls demo_env demo_config (demo_reply [ToolCallContent demo_call] ToolUseStop)) demo_state)))"
    using tool_calls_answered [OF prod.collapse [symmetric]] by blast
  then show ?thesis by (simp add: answers_prefix_def demo_reply_def demo_env_def)
qed

text \<open>
  A response that the output limit cut off runs no tool: every one of its calls is answered, in
  order, with an error, nothing outside the loop is called, and the results are announced,
  returned and added to the context.
\<close>

lemma truncated_response_runs_nothing:
  assumes "am_stopReason m = LengthStop" "run_state (run_tools env cfg m) s = ((rs, hasMore), s')"
  shows "answers (tool_calls_of (am_content m)) rs \<and> list_all tr_isError rs \<and> ls_world s' = ls_world s \<and>
    delivers (map ToolResultMessage rs) s s'"
  using run_tools_spec [OF assms(2)] assms(1) by simp

text \<open>
  Continuing a conversation is refused, before any event and any call, exactly when there is
  nothing to continue or the last message is the assistant's; otherwise, with a valid budget, the
  run closes and returns the messages it announced.
\<close>

lemma continue_guarded:
  assumes "run_budget budget maxIterations = Inr b"
  shows "(case last_opt (ac_messages context) of
      None \<Rightarrow> runAgentLoopContinue env cfg budget maxIterations w context = (start_state w context [], Inl NothingToContinue)
    | Some m \<Rightarrow>
        if role_of m = AssistantRole
        then runAgentLoopContinue env cfg budget maxIterations w context = (start_state w context [], Inl ContinueFromAssistant)
        else \<exists>s msgs turns. runAgentLoopContinue env cfg budget maxIterations w context = (s, Inr msgs) \<and>
          phase (ls_events s) = Closed turns \<and> turns \<le> nat (budget_remaining b) + 1 \<and> ended (ls_events s) = msgs)"
proof (cases "last_opt (ac_messages context)")
  case (Some m)
  show ?thesis
  proof (cases "role_of m = AssistantRole")
    case False
    obtain s k where "runAgentLoopContinue env cfg budget maxIterations w context = (s, Inr (ls_new s))"
      "closed_after k s" "k \<le> nat (budget_remaining b) + 1" "ended (ls_events s) = ls_new s"
      using runAgentLoopContinue_spec [OF assms Some False] by (fastforce simp: closes_within_def tracks_def)
    then show ?thesis using Some False by (auto simp: closed_after_def)
  qed (simp add: Some runAgentLoopContinue_def Let_def)
qed (simp add: runAgentLoopContinue_def Let_def)

end
