(* ===== verification/Truncate.thy ===== *)
theory Truncate
  imports Recode_Prelude "HOL-Library.Word"
begin

text \<open>
  \<^verbatim>\<open>packages/agent/src/harness/utils/truncate.ts\<close>: tool output cut to a number of lines and of UTF-8 bytes, from
  its head or from its tail. Strings are lists of 16-bit code units, as in JavaScript, because the code measures and cuts
  surrogate pairs.

  \<^verbatim>\<open>Buffer.byteLength\<close> of the runtime, when there is one, is the argument \<open>buffer\<close>; what the code relies on is that it
  gives the length in UTF-8 (\<open>buffer_ok\<close>). Without it the code counts itself. Limits are integers; the
  \<open>TypeError\<close> for the missing first line of an empty text, which only a negative limit can cause, is an error value.
\<close>

section \<open>Code units\<close>

type_synonym code_unit = "16 word"

type_synonym text16 = "code_unit list"

definition newline16 :: code_unit where "newline16 = 10"

definition is_high :: "code_unit \<Rightarrow> bool" where
  "is_high c \<longleftrightarrow> 0xd800 \<le> c \<and> c \<le> 0xdbff"

definition is_low :: "code_unit \<Rightarrow> bool" where
  "is_low c \<longleftrightarrow> 0xdc00 \<le> c \<and> c \<le> 0xdfff"

definition ascii16 :: "string \<Rightarrow> text16" where
  "ascii16 s = map of_char s"

text \<open>The number of bytes of a unit that is not the first of a pair.\<close>

definition unit_bytes :: "code_unit \<Rightarrow> nat" where
  "unit_bytes c = (if c \<le> 0x7f then 1 else if c \<le> 0x7ff then 2 else 3)"

section \<open>Counting bytes\<close>

text \<open>The length in UTF-8: four bytes for a surrogate pair, three for the replacement of an unpaired surrogate.\<close>

fun utf8_bytes :: "text16 \<Rightarrow> nat" where
  "utf8_bytes [] = 0"
| "utf8_bytes [c] = unit_bytes c"
| "utf8_bytes (c # d # s) = (if is_high c \<and> is_low d then 4 + utf8_bytes s else unit_bytes c + utf8_bytes (d # s))"

text \<open>The loop of \<^verbatim>\<open>utf8ByteLength\<close>, from an index on.\<close>

fun count_bytes :: "text16 \<Rightarrow> nat \<Rightarrow> nat" where
  "count_bytes [] bytes = bytes"
| "count_bytes (c # s) bytes =
     (if c \<le> 0x7f then count_bytes s (bytes + 1)
      else if c \<le> 0x7ff then count_bytes s (bytes + 2)
      else if is_high c then
        (case s of
           [] \<Rightarrow> count_bytes s (bytes + 3)
         | d # s' \<Rightarrow> if is_low d then count_bytes s' (bytes + 4) else count_bytes s (bytes + 3))
      else count_bytes s (bytes + 3))"

definition utf8ByteLength :: "(text16 \<Rightarrow> nat) option \<Rightarrow> text16 \<Rightarrow> nat" where
  "utf8ByteLength buffer content = (case buffer of
      Some byteLength \<Rightarrow> byteLength content
    | None \<Rightarrow>
        (let firstNonAscii = length (takeWhile (\<lambda>c. c \<le> 0x7f) content) in
         if firstNonAscii = length content then length content
         else count_bytes (drop firstNonAscii content) firstNonAscii))"

definition buffer_ok :: "(text16 \<Rightarrow> nat) option \<Rightarrow> bool" where
  "buffer_ok buffer \<longleftrightarrow> (\<forall>byteLength. buffer = Some byteLength \<longrightarrow> (\<forall>s. byteLength s = utf8_bytes s))"

section \<open>Lines\<close>

fun split_nl :: "text16 \<Rightarrow> text16 list" where
  "split_nl [] = [[]]"
| "split_nl (c # s) = (if c = newline16 then [] # split_nl s else (c # hd (split_nl s)) # tl (split_nl s))"

fun join_nl :: "text16 list \<Rightarrow> text16" where
  "join_nl [] = []"
| "join_nl [l] = l"
| "join_nl (l # ls) = l @ newline16 # join_nl ls"

definition splitLinesForCounting :: "text16 \<Rightarrow> text16 list" where
  "splitLinesForCounting content =
     (if content = [] then [] else let ls = split_nl content in if last content = newline16 then butlast ls else ls)"

section \<open>Unpaired surrogates\<close>

definition replacement_char :: code_unit where "replacement_char = 0xfffd"

fun replaceUnpairedSurrogates :: "text16 \<Rightarrow> text16" where
  "replaceUnpairedSurrogates [] = []"
| "replaceUnpairedSurrogates [c] = (if is_high c \<or> is_low c then [replacement_char] else [c])"
| "replaceUnpairedSurrogates (c # d # s) =
     (if is_high c then
        (if is_low d then c # d # replaceUnpairedSurrogates s else replacement_char # replaceUnpairedSurrogates (d # s))
      else if is_low c then replacement_char # replaceUnpairedSurrogates (d # s)
      else c # replaceUnpairedSurrogates (d # s))"

text \<open>
  The loop of \<^verbatim>\<open>truncateStringToBytesFromEnd\<close> over the units from the end: how many units are kept, and whether an unpaired
  surrogate is among them.
\<close>

fun end_units :: "int \<Rightarrow> int \<Rightarrow> text16 \<Rightarrow> nat \<times> bool" where
  "end_units maxBytes out [] = (0, False)"
| "end_units maxBytes out [c] =
     (if is_high c \<or> is_low c then (if out + 3 > maxBytes then (0, False) else (1, True))
      else if out + int (unit_bytes c) > maxBytes then (0, False) else (1, False))"
| "end_units maxBytes out (c # p # rest) =
     (if is_low c \<and> is_high p then
        (if out + 4 > maxBytes then (0, False) else map_prod (\<lambda>n. n + 2) id (end_units maxBytes (out + 4) rest))
      else if is_high c \<or> is_low c then
        (if out + 3 > maxBytes then (0, False) else map_prod Suc (\<lambda>_. True) (end_units maxBytes (out + 3) (p # rest)))
      else if out + int (unit_bytes c) > maxBytes then (0, False)
      else map_prod Suc id (end_units maxBytes (out + int (unit_bytes c)) (p # rest)))"

definition truncateStringToBytesFromEnd :: "text16 \<Rightarrow> int \<Rightarrow> text16" where
  "truncateStringToBytesFromEnd str maxBytes =
     (if maxBytes \<le> 0 then []
      else case end_units maxBytes 0 (rev str) of (kept, needsReplacement) \<Rightarrow>
        (let output = drop (length str - kept) str
         in if needsReplacement then replaceUnpairedSurrogates output else output))"

section \<open>Truncation\<close>

datatype limit = LineLimit | ByteLimit

record truncation_result =
  tn_content :: text16
  tn_truncated :: bool
  tn_truncatedBy :: "limit option"
  tn_totalLines :: nat
  tn_totalBytes :: nat
  tn_outputLines :: nat
  tn_outputBytes :: nat
  tn_lastLinePartial :: bool
  tn_firstLineExceedsLimit :: bool
  tn_maxLines :: int
  tn_maxBytes :: int

record truncation_options =
  to_maxLines :: "int option"
  to_maxBytes :: "int option"

datatype truncation_error = TruncationTypeError

definition DEFAULT_MAX_LINES :: int where "DEFAULT_MAX_LINES = 2000"
definition DEFAULT_MAX_BYTES :: int where "DEFAULT_MAX_BYTES = 50 * 1024"
definition GREP_MAX_LINE_LENGTH :: nat where "GREP_MAX_LINE_LENGTH = 500"

definition max_lines :: "truncation_options \<Rightarrow> int" where
  "max_lines opts = (case to_maxLines opts of None \<Rightarrow> DEFAULT_MAX_LINES | Some n \<Rightarrow> n)"

definition max_bytes :: "truncation_options \<Rightarrow> int" where
  "max_bytes opts = (case to_maxBytes opts of None \<Rightarrow> DEFAULT_MAX_BYTES | Some n \<Rightarrow> n)"

text \<open>The result for a text within both limits, and the fields that all results share.\<close>

definition untruncated :: "(text16 \<Rightarrow> nat) option \<Rightarrow> text16 \<Rightarrow> truncation_options \<Rightarrow> truncation_result" where
  "untruncated buffer content opts =
     (let totalBytes = utf8ByteLength buffer content; totalLines = length (splitLinesForCounting content)
      in \<lparr>tn_content = content, tn_truncated = False, tn_truncatedBy = None, tn_totalLines = totalLines, tn_totalBytes = totalBytes,
          tn_outputLines = totalLines, tn_outputBytes = totalBytes, tn_lastLinePartial = False, tn_firstLineExceedsLimit = False,
          tn_maxLines = max_lines opts, tn_maxBytes = max_bytes opts\<rparr>)"

text \<open>The lines from the head that fit, and their bytes: \<open>i\<close> lines and \<open>bytes\<close> bytes are already taken. The flag reports the byte limit.\<close>

fun head_lines :: "(text16 \<Rightarrow> nat) option \<Rightarrow> int \<Rightarrow> int \<Rightarrow> nat \<Rightarrow> nat \<Rightarrow> text16 list \<Rightarrow> text16 list \<times> nat \<times> bool" where
  "head_lines buffer maxLines maxBytes i bytes [] = ([], bytes, False)"
| "head_lines buffer maxLines maxBytes i bytes (l # ls) =
     (if \<not> int i < maxLines then ([], bytes, False)
      else
        let lineBytes = utf8ByteLength buffer l + (if i > 0 then 1 else 0) in
        if int (bytes + lineBytes) > maxBytes then ([], bytes, True)
        else case head_lines buffer maxLines maxBytes (Suc i) (bytes + lineBytes) ls of
          (kept, sumBytes, hit) \<Rightarrow> (l # kept, sumBytes, hit))"

definition limit_of :: "int \<Rightarrow> int \<Rightarrow> nat \<Rightarrow> nat \<Rightarrow> bool \<Rightarrow> limit" where
  "limit_of maxLines maxBytes outputLines outputBytes hit =
     (if int outputLines \<ge> maxLines \<and> int outputBytes \<le> maxBytes then LineLimit else if hit then ByteLimit else LineLimit)"

definition truncateHead :: "(text16 \<Rightarrow> nat) option \<Rightarrow> text16 \<Rightarrow> truncation_options \<Rightarrow> truncation_error + truncation_result" where
  "truncateHead buffer content opts =
     (let maxLines = max_lines opts; maxBytes = max_bytes opts; whole = untruncated buffer content opts;
          ls = splitLinesForCounting content
      in if int (tn_totalLines whole) \<le> maxLines \<and> int (tn_totalBytes whole) \<le> maxBytes then Inr whole
         else if ls = [] then Inl TruncationTypeError
         else if int (utf8ByteLength buffer (hd ls)) > maxBytes then
           Inr (whole\<lparr>tn_content := [], tn_truncated := True, tn_truncatedBy := Some ByteLimit, tn_outputLines := 0,
             tn_outputBytes := 0, tn_firstLineExceedsLimit := True\<rparr>)
         else case head_lines buffer maxLines maxBytes 0 0 ls of (kept, bytes, hit) \<Rightarrow>
           Inr (whole\<lparr>tn_content := join_nl kept, tn_truncated := True,
             tn_truncatedBy := Some (limit_of maxLines maxBytes (length kept) bytes hit),
             tn_outputLines := length kept, tn_outputBytes := utf8ByteLength buffer (join_nl kept)\<rparr>))"

text \<open>
  The lines from the tail, given last line first, in front of those already taken. The flags report the byte limit and that the
  last line was cut.
\<close>

fun tail_lines :: "(text16 \<Rightarrow> nat) option \<Rightarrow> int \<Rightarrow> int \<Rightarrow> text16 list \<Rightarrow> nat \<Rightarrow> text16 list \<Rightarrow> text16 list \<times> nat \<times> bool \<times> bool" where
  "tail_lines buffer maxLines maxBytes taken bytes [] = (taken, bytes, False, False)"
| "tail_lines buffer maxLines maxBytes taken bytes (l # ls) =
     (if \<not> int (length taken) < maxLines then (taken, bytes, False, False)
      else
        let lineBytes = utf8ByteLength buffer l + (if length taken > 0 then 1 else 0) in
        if int (bytes + lineBytes) > maxBytes then
          (if taken = [] then
             (let cut = truncateStringToBytesFromEnd l maxBytes in ([cut], utf8ByteLength buffer cut, True, True))
           else (taken, bytes, True, False))
        else tail_lines buffer maxLines maxBytes (l # taken) (bytes + lineBytes) ls)"

definition truncateTail :: "(text16 \<Rightarrow> nat) option \<Rightarrow> text16 \<Rightarrow> truncation_options \<Rightarrow> truncation_result" where
  "truncateTail buffer content opts =
     (let maxLines = max_lines opts; maxBytes = max_bytes opts; whole = untruncated buffer content opts;
          ls = splitLinesForCounting content
      in if int (tn_totalLines whole) \<le> maxLines \<and> int (tn_totalBytes whole) \<le> maxBytes then whole
         else case tail_lines buffer maxLines maxBytes [] 0 (rev ls) of (kept, bytes, hit, partial) \<Rightarrow>
           whole\<lparr>tn_content := join_nl kept, tn_truncated := True,
             tn_truncatedBy := Some (limit_of maxLines maxBytes (length kept) bytes hit),
             tn_outputLines := length kept, tn_outputBytes := utf8ByteLength buffer (join_nl kept), tn_lastLinePartial := partial\<rparr>)"

definition truncateLine :: "text16 \<Rightarrow> nat option \<Rightarrow> text16 \<times> bool" where
  "truncateLine line maxChars =
     (let n = (case maxChars of None \<Rightarrow> GREP_MAX_LINE_LENGTH | Some k \<Rightarrow> k)
      in if length line \<le> n then (line, False) else (take n line @ ascii16 ''... [truncated]'', True))"

text \<open>\<^verbatim>\<open>toFixed(1)\<close> of a number of bytes divided by a power of two, which is exact: tenths, rounded half up.\<close>

definition tenths :: "nat \<Rightarrow> nat \<Rightarrow> string" where
  "tenths n unit = (let t = (20 * n + unit) div (2 * unit) in dec_of_nat (t div 10) @ ''.'' @ dec_of_nat (t mod 10))"

definition formatSize :: "nat \<Rightarrow> string" where
  "formatSize bytes =
     (if bytes < 1024 then dec_of_nat bytes @ ''B''
      else if bytes < 1024 * 1024 then tenths bytes 1024 @ ''KB''
      else tenths bytes (1024 * 1024) @ ''MB'')"

end
