(* ===== verification/Edit_Diff.thy ===== *)
theory Edit_Diff
  imports Truncate "HOL-Library.Multiset"
begin

text \<open>
  \<^verbatim>\<open>packages/agent/src/harness/tools/edit-diff.ts\<close>: replacing texts in a file, exactly or after a normalisation that forgives
  trailing white space and typographic quotes, dashes and spaces, and the diff shown for the change. Strings are code units.

  The Unicode tables behind \<^verbatim>\<open>normalize("NFKC")\<close> are the argument \<open>nfkc\<close>; the parts found by \<^verbatim>\<open>diffLines\<close> of the package
  \<^verbatim>\<open>diff\<close> are an argument of \<open>generateDiffString\<close>. Errors keep the numbers that their messages print.
\<close>

section \<open>Searching\<close>

fun starts_with :: "text16 \<Rightarrow> text16 \<Rightarrow> bool" where
  "starts_with [] s = True"
| "starts_with (p # ps) [] = False"
| "starts_with (p # ps) (c # s) = (p = c \<and> starts_with ps s)"

text \<open>\<^verbatim>\<open>indexOf\<close>, and the number of separators that \<^verbatim>\<open>split\<close> finds: from the left, without overlaps.\<close>

fun index_of :: "text16 \<Rightarrow> text16 \<Rightarrow> nat option" where
  "index_of p s = (if starts_with p s then Some 0 else case s of [] \<Rightarrow> None | c # s' \<Rightarrow> map_option Suc (index_of p s'))"

declare index_of.simps [simp del]

function count_splits :: "text16 \<Rightarrow> text16 \<Rightarrow> nat" where
  "count_splits p [] = 0"
| "count_splits p (c # s) =
     (if p \<noteq> [] \<and> starts_with p (c # s) then Suc (count_splits p (drop (length p) (c # s))) else count_splits p s)"
  by pat_completeness auto
termination by (relation "measure (\<lambda>(p, s). length s)") auto

text \<open>\<^verbatim>\<open>content.split(sep).length - 1\<close>; an empty separator splits between all units, and an empty text into no pieces.\<close>

definition split_count :: "text16 \<Rightarrow> text16 \<Rightarrow> int" where
  "split_count p s = (if p = [] then int (length s) - 1 else int (count_splits p s))"

section \<open>Line endings and normalisation\<close>

datatype line_ending = CRLF | LF

definition carriage16 :: code_unit where "carriage16 = 13"

definition detectLineEnding :: "text16 \<Rightarrow> line_ending" where
  "detectLineEnding content = (case (index_of [newline16] content, index_of [carriage16, newline16] content) of
      (None, _) \<Rightarrow> LF
    | (Some lf, None) \<Rightarrow> LF
    | (Some lf, Some crlf) \<Rightarrow> if crlf < lf then CRLF else LF)"

fun crlf_to_lf :: "text16 \<Rightarrow> text16" where
  "crlf_to_lf (c # d # s) = (if c = carriage16 \<and> d = newline16 then newline16 # crlf_to_lf s else c # crlf_to_lf (d # s))"
| "crlf_to_lf s = s"

definition normalizeToLF :: "text16 \<Rightarrow> text16" where
  "normalizeToLF text = map (\<lambda>c. if c = carriage16 then newline16 else c) (crlf_to_lf text)"

definition restoreLineEndings :: "text16 \<Rightarrow> line_ending \<Rightarrow> text16" where
  "restoreLineEndings text ending =
     (if ending = CRLF then concat (map (\<lambda>c. if c = newline16 then [carriage16, newline16] else [c]) text) else text)"

text \<open>The white space and line ends that \<^verbatim>\<open>trimEnd\<close> removes.\<close>

definition is_space16 :: "code_unit \<Rightarrow> bool" where
  "is_space16 c \<longleftrightarrow> c \<in> set [9, 10, 11, 12, 13, 0x20, 0xa0, 0x1680, 0x2028, 0x2029, 0x202f, 0x205f, 0x3000, 0xfeff] \<or>
     0x2000 \<le> c \<and> c \<le> 0x200a"

definition trim_end16 :: "text16 \<Rightarrow> text16" where
  "trim_end16 s = rev (dropWhile is_space16 (rev s))"

definition fold_single :: "code_unit \<Rightarrow> code_unit" where
  "fold_single c = (if c \<in> set [0x2018, 0x2019, 0x201a, 0x201b] then 0x27 else c)"

definition fold_double :: "code_unit \<Rightarrow> code_unit" where
  "fold_double c = (if c \<in> set [0x201c, 0x201d, 0x201e, 0x201f] then 0x22 else c)"

definition fold_dash :: "code_unit \<Rightarrow> code_unit" where
  "fold_dash c = (if c \<in> set [0x2010, 0x2011, 0x2012, 0x2013, 0x2014, 0x2015, 0x2212] then 0x2d else c)"

definition fold_space :: "code_unit \<Rightarrow> code_unit" where
  "fold_space c = (if c \<in> set [0xa0, 0x202f, 0x205f, 0x3000] \<or> 0x2002 \<le> c \<and> c \<le> 0x200a then 0x20 else c)"

definition normalizeForFuzzyMatch :: "(text16 \<Rightarrow> text16) \<Rightarrow> text16 \<Rightarrow> text16" where
  "normalizeForFuzzyMatch nfkc text =
     map fold_space (map fold_dash (map fold_double (map fold_single (join_nl (map trim_end16 (split_nl (nfkc text)))))))"

definition stripBom :: "text16 \<Rightarrow> text16 \<times> text16" where
  "stripBom content = (if starts_with [0xfeff] content then ([0xfeff], drop 1 content) else ([], content))"

section \<open>Replacements\<close>

text \<open>\<^verbatim>\<open>content.match(/[^\n]*\n|[^\n]+/g) ?? []\<close>\<close>

fun splitLinesWithEndings :: "text16 \<Rightarrow> text16 list" where
  "splitLinesWithEndings [] = []"
| "splitLinesWithEndings (c # s) =
     (if c = newline16 then [c] # splitLinesWithEndings s
      else case splitLinesWithEndings s of [] \<Rightarrow> [[c]] | l # ls \<Rightarrow> (c # l) # ls)"

record line_span =
  ls_start :: nat
  ls_end :: nat

record matched_edit =
  me_editIndex :: nat
  me_matchIndex :: nat
  me_matchLength :: nat
  me_newText :: text16

datatype edit_error =
    EmptyOldText nat nat
  | NotFound nat nat
  | Duplicate nat nat int
  | Overlap nat nat
  | NoChange nat
  | OutsideBase
  | LineCountDiffers

fun line_spans :: "nat \<Rightarrow> text16 list \<Rightarrow> line_span list" where
  "line_spans offset [] = []"
| "line_spans offset (l # ls) = \<lparr>ls_start = offset, ls_end = offset + length l\<rparr> # line_spans (offset + length l) ls"

definition getLineSpans :: "text16 \<Rightarrow> line_span list" where
  "getLineSpans content = line_spans 0 (splitLinesWithEndings content)"

text \<open>The two loops of \<^verbatim>\<open>getReplacementLineRange\<close>: the first line that holds the start, and the first from there on that reaches the end.\<close>

fun find_start :: "nat \<Rightarrow> nat \<Rightarrow> line_span list \<Rightarrow> nat option" where
  "find_start pos i [] = None"
| "find_start pos i (l # ls) = (if ls_start l \<le> pos \<and> pos < ls_end l then Some i else find_start pos (Suc i) ls)"

fun find_end :: "nat \<Rightarrow> nat \<Rightarrow> line_span list \<Rightarrow> nat option" where
  "find_end pos i [] = None"
| "find_end pos i (l # ls) = (if ls_end l < pos then find_end pos (Suc i) ls else Some i)"

definition getReplacementLineRange :: "line_span list \<Rightarrow> matched_edit \<Rightarrow> edit_error + (nat \<times> nat)" where
  "getReplacementLineRange ls r =
     (case find_start (me_matchIndex r) 0 ls of
        None \<Rightarrow> Inl OutsideBase
      | Some startLine \<Rightarrow>
          (case find_end (me_matchIndex r + me_matchLength r) startLine (drop startLine ls) of
             None \<Rightarrow> Inl OutsideBase
           | Some endLine \<Rightarrow> Inr (startLine, Suc endLine)))"

text \<open>One step of \<^verbatim>\<open>applyReplacements\<close>, and its loop from the last replacement to the first.\<close>

definition replace_at :: "text16 \<Rightarrow> int \<Rightarrow> nat \<Rightarrow> text16 \<Rightarrow> text16" where
  "replace_at s i n newText = take (nat i) s @ newText @ drop (nat (i + int n)) s"

fun applyReplacements :: "text16 \<Rightarrow> matched_edit list \<Rightarrow> nat \<Rightarrow> text16" where
  "applyReplacements content [] offset = content"
| "applyReplacements content (r # rs) offset =
     replace_at (applyReplacements content rs offset) (int (me_matchIndex r) - int offset) (me_matchLength r) (me_newText r)"

record line_group =
  lg_startLine :: nat
  lg_endLine :: nat
  lg_replacements :: "matched_edit list"

text \<open>The groups are built with the current one at the end of the list.\<close>

definition add_to_groups :: "line_group list \<Rightarrow> nat \<times> nat \<Rightarrow> matched_edit \<Rightarrow> line_group list" where
  "add_to_groups groups lineRange r =
     (case lineRange of (startLine, endLine) \<Rightarrow>
        if groups \<noteq> [] \<and> startLine < lg_endLine (last groups) then
          butlast groups @ [(last groups)\<lparr>lg_endLine := max (lg_endLine (last groups)) endLine,
            lg_replacements := lg_replacements (last groups) @ [r]\<rparr>]
        else groups @ [\<lparr>lg_startLine = startLine, lg_endLine = endLine, lg_replacements = [r]\<rparr>])"

fun group_replacements :: "line_span list \<Rightarrow> line_group list \<Rightarrow> matched_edit list \<Rightarrow> edit_error + line_group list" where
  "group_replacements baseLines groups [] = Inr groups"
| "group_replacements baseLines groups (r # rs) =
     bind_result (getReplacementLineRange baseLines r) (\<lambda>lineRange. group_replacements baseLines (add_to_groups groups lineRange r) rs)"

fun overlay_groups :: "text16 list \<Rightarrow> text16 \<Rightarrow> line_span list \<Rightarrow> nat \<Rightarrow> line_group list \<Rightarrow> text16" where
  "overlay_groups originalLines baseContent baseLines i [] = concat (drop i originalLines)"
| "overlay_groups originalLines baseContent baseLines i (g # gs) =
     (let groupStartOffset = ls_start (baseLines ! lg_startLine g);
          groupEndOffset = ls_end (baseLines ! (lg_endLine g - 1))
      in concat (take (lg_startLine g - i) (drop i originalLines)) @
         applyReplacements (take (groupEndOffset - groupStartOffset) (drop groupStartOffset baseContent)) (lg_replacements g) groupStartOffset @
         overlay_groups originalLines baseContent baseLines (lg_endLine g) gs)"

definition applyReplacementsPreservingUnchangedLines :: "text16 \<Rightarrow> text16 \<Rightarrow> matched_edit list \<Rightarrow> edit_error + text16" where
  "applyReplacementsPreservingUnchangedLines originalContent baseContent replacements =
     (let originalLines = splitLinesWithEndings originalContent; baseLines = getLineSpans baseContent in
      if length originalLines \<noteq> length baseLines then Inl LineCountDiffers
      else bind_result (group_replacements baseLines [] (sort_key me_matchIndex replacements)) (\<lambda>groups.
        Inr (overlay_groups originalLines baseContent baseLines 0 groups)))"

section \<open>Applying edits\<close>

record fuzzy_match =
  fm_found :: bool
  fm_index :: int
  fm_matchLength :: nat
  fm_usedFuzzyMatch :: bool
  fm_contentForReplacement :: text16

record text_edit =
  ed_oldText :: text16
  ed_newText :: text16

record applied_edits =
  ae_baseContent :: text16
  ae_newContent :: text16

definition fuzzyFindText :: "(text16 \<Rightarrow> text16) \<Rightarrow> text16 \<Rightarrow> text16 \<Rightarrow> fuzzy_match" where
  "fuzzyFindText nfkc content oldText =
     (case index_of oldText content of
        Some exactIndex \<Rightarrow> \<lparr>fm_found = True, fm_index = int exactIndex, fm_matchLength = length oldText,
          fm_usedFuzzyMatch = False, fm_contentForReplacement = content\<rparr>
      | None \<Rightarrow>
          (let fuzzyContent = normalizeForFuzzyMatch nfkc content; fuzzyOldText = normalizeForFuzzyMatch nfkc oldText in
           case index_of fuzzyOldText fuzzyContent of
             None \<Rightarrow> \<lparr>fm_found = False, fm_index = -1, fm_matchLength = 0, fm_usedFuzzyMatch = False, fm_contentForReplacement = content\<rparr>
           | Some fuzzyIndex \<Rightarrow> \<lparr>fm_found = True, fm_index = int fuzzyIndex, fm_matchLength = length fuzzyOldText,
               fm_usedFuzzyMatch = True, fm_contentForReplacement = fuzzyContent\<rparr>))"

definition countOccurrences :: "(text16 \<Rightarrow> text16) \<Rightarrow> text16 \<Rightarrow> text16 \<Rightarrow> int" where
  "countOccurrences nfkc content oldText =
     split_count (normalizeForFuzzyMatch nfkc oldText) (normalizeForFuzzyMatch nfkc content)"

definition normalized_edit :: "text_edit \<Rightarrow> text_edit" where
  "normalized_edit e = \<lparr>ed_oldText = normalizeToLF (ed_oldText e), ed_newText = normalizeToLF (ed_newText e)\<rparr>"

text \<open>The loops over the edits: the check for empty texts, and the matching of each edit. \<open>n\<close> is the number of edits.\<close>

fun check_old_texts :: "nat \<Rightarrow> nat \<Rightarrow> text_edit list \<Rightarrow> edit_error + unit" where
  "check_old_texts n i [] = Inr ()"
| "check_old_texts n i (e # es) = (if ed_oldText e = [] then Inl (EmptyOldText i n) else check_old_texts n (Suc i) es)"

fun match_edits :: "(text16 \<Rightarrow> text16) \<Rightarrow> text16 \<Rightarrow> nat \<Rightarrow> nat \<Rightarrow> text_edit list \<Rightarrow> edit_error + matched_edit list" where
  "match_edits nfkc base n i [] = Inr []"
| "match_edits nfkc base n i (e # es) =
     (let m = fuzzyFindText nfkc base (ed_oldText e); occurrences = countOccurrences nfkc base (ed_oldText e) in
      if \<not> fm_found m then Inl (NotFound i n)
      else if occurrences > 1 then Inl (Duplicate i n occurrences)
      else bind_result (match_edits nfkc base n (Suc i) es) (\<lambda>rest.
        Inr (\<lparr>me_editIndex = i, me_matchIndex = nat (fm_index m), me_matchLength = fm_matchLength m, me_newText = ed_newText e\<rparr> # rest)))"

fun check_overlaps :: "matched_edit list \<Rightarrow> edit_error + unit" where
  "check_overlaps (p # c # rest) =
     (if me_matchIndex p + me_matchLength p > me_matchIndex c then Inl (Overlap (me_editIndex p) (me_editIndex c))
      else check_overlaps (c # rest))"
| "check_overlaps _ = Inr ()"

definition applyEditsToNormalizedContent :: "(text16 \<Rightarrow> text16) \<Rightarrow> text16 \<Rightarrow> text_edit list \<Rightarrow> edit_error + applied_edits" where
  "applyEditsToNormalizedContent nfkc normalizedContent edits =
     (let normalizedEdits = map normalized_edit edits; n = length edits in
      bind_result (check_old_texts n 0 normalizedEdits) (\<lambda>_.
        let usedFuzzyMatch = list_ex (\<lambda>e. fm_usedFuzzyMatch (fuzzyFindText nfkc normalizedContent (ed_oldText e))) normalizedEdits;
            base = (if usedFuzzyMatch then normalizeForFuzzyMatch nfkc normalizedContent else normalizedContent)
        in bind_result (match_edits nfkc base n 0 normalizedEdits) (\<lambda>matched.
             let matchedEdits = sort_key me_matchIndex matched in
             bind_result (check_overlaps matchedEdits) (\<lambda>_.
             bind_result (if usedFuzzyMatch then applyReplacementsPreservingUnchangedLines normalizedContent base matchedEdits
                          else Inr (applyReplacements base matchedEdits 0)) (\<lambda>newContent.
             if normalizedContent = newContent then Inl (NoChange n)
             else Inr \<lparr>ae_baseContent = normalizedContent, ae_newContent = newContent\<rparr>)))))"

section \<open>The displayed diff\<close>

record diff_part =
  dp_value :: text16
  dp_added :: bool
  dp_removed :: bool

datatype diff_row = AddedRow nat text16 | RemovedRow nat text16 | ContextRow nat text16 | GapRow

record diff_state =
  df_output :: "diff_row list"
  df_old :: nat
  df_new :: nat
  df_lastWasChange :: bool
  df_firstChanged :: "nat option"

definition raw_lines :: "diff_part \<Rightarrow> text16 list" where
  "raw_lines part = (let raw = split_nl (dp_value part) in if last raw = [] then butlast raw else raw)"

text \<open>One line of a changed part, of a context, and lines left out.\<close>

definition show_change :: "bool \<Rightarrow> text16 \<Rightarrow> diff_state \<Rightarrow> diff_state" where
  "show_change added line st =
     (if added then st\<lparr>df_output := df_output st @ [AddedRow (df_new st) line], df_new := df_new st + 1\<rparr>
      else st\<lparr>df_output := df_output st @ [RemovedRow (df_old st) line], df_old := df_old st + 1\<rparr>)"

definition show_context :: "text16 \<Rightarrow> diff_state \<Rightarrow> diff_state" where
  "show_context line st =
     st\<lparr>df_output := df_output st @ [ContextRow (df_old st) line], df_old := df_old st + 1, df_new := df_new st + 1\<rparr>"

definition skip_lines :: "nat \<Rightarrow> diff_state \<Rightarrow> diff_state" where
  "skip_lines k st = st\<lparr>df_old := df_old st + k, df_new := df_new st + k\<rparr>"

definition show_gap :: "nat \<Rightarrow> diff_state \<Rightarrow> diff_state" where
  "show_gap k st = skip_lines k (st\<lparr>df_output := df_output st @ [GapRow]\<rparr>)"

definition show_part :: "nat \<Rightarrow> bool \<Rightarrow> diff_part \<Rightarrow> diff_state \<Rightarrow> diff_state" where
  "show_part contextLines nextPartIsChange part st =
     (let raw = raw_lines part in
      if dp_added part \<or> dp_removed part then
        (let st1 = (if df_firstChanged st = None then st\<lparr>df_firstChanged := Some (df_new st)\<rparr> else st)
         in (fold (show_change (dp_added part)) raw st1)\<lparr>df_lastWasChange := True\<rparr>)
      else
        (let shown =
           (if df_lastWasChange st \<and> nextPartIsChange then
              (if length raw \<le> contextLines * 2 then fold show_context raw st
               else
                 let leadingLines = take contextLines raw; trailingLines = drop (length raw - contextLines) raw;
                     skippedLines = length raw - length leadingLines - length trailingLines
                 in fold show_context trailingLines (show_gap skippedLines (fold show_context leadingLines st)))
            else if df_lastWasChange st then
              (let shownLines = take contextLines raw; skippedLines = length raw - length shownLines;
                   st1 = fold show_context shownLines st
               in if skippedLines > 0 then show_gap skippedLines st1 else st1)
            else if nextPartIsChange then
              (let skippedLines = length raw - contextLines;
                   st1 = (if skippedLines > 0 then show_gap skippedLines st else st)
               in fold show_context (drop skippedLines raw) st1)
            else skip_lines (length raw) st)
         in shown\<lparr>df_lastWasChange := False\<rparr>))"

fun show_parts :: "nat \<Rightarrow> diff_part list \<Rightarrow> diff_state \<Rightarrow> diff_state" where
  "show_parts contextLines [] st = st"
| "show_parts contextLines (p # ps) st =
     show_parts contextLines ps (show_part contextLines (case ps of [] \<Rightarrow> False | q # _ \<Rightarrow> dp_added q \<or> dp_removed q) p st)"

definition pad_start :: "nat \<Rightarrow> text16 \<Rightarrow> text16" where
  "pad_start width s = replicate (width - length s) 0x20 @ s"

definition line_number :: "nat \<Rightarrow> nat \<Rightarrow> text16" where
  "line_number width n = pad_start width (ascii16 (dec_of_nat n))"

fun render_row :: "nat \<Rightarrow> diff_row \<Rightarrow> text16" where
  "render_row width (AddedRow n line) = ascii16 ''+'' @ line_number width n @ ascii16 '' '' @ line"
| "render_row width (RemovedRow n line) = ascii16 ''-'' @ line_number width n @ ascii16 '' '' @ line"
| "render_row width (ContextRow n line) = ascii16 '' '' @ line_number width n @ ascii16 '' '' @ line"
| "render_row width GapRow = ascii16 '' '' @ pad_start width [] @ ascii16 '' ...''"

definition generateDiffString :: "diff_part list \<Rightarrow> text16 \<Rightarrow> text16 \<Rightarrow> nat \<Rightarrow> text16 \<times> nat option" where
  "generateDiffString parts oldContent newContent contextLines =
     (let lineNumWidth = length (dec_of_nat (max (length (split_nl oldContent)) (length (split_nl newContent))));
          st = show_parts contextLines parts
            \<lparr>df_output = [], df_old = 1, df_new = 1, df_lastWasChange = False, df_firstChanged = None\<rparr>
      in (join_nl (map (render_row lineNumWidth) (df_output st)), df_firstChanged st))"

section \<open>The edit tool\<close>

text \<open>
  \<^verbatim>\<open>packages/agent/src/harness/tools/edit.ts\<close>: the calls of the environment are arguments, as the answers they give: the kind of
  the path, the text read, and whether the text can be written. \<open>aborted\<close> tells whether the signal is aborted at the four places where the
  code looks at it. The result is the file after the call and the outcome.
\<close>

datatype file_kind = FileKind | SymlinkKind | DirectoryKind | OtherKind

datatype tool_error =
    NoEdits
  | EditAborted
  | EditAccess string
  | NotAFile
  | EditFailed edit_error

record edit_env =
  ee_info :: "string + file_kind"
  ee_read :: "string + text16"
  ee_write :: "string + unit"
  ee_aborted :: "nat \<Rightarrow> bool"

definition edited_text :: "(text16 \<Rightarrow> text16) \<Rightarrow> text16 \<Rightarrow> text_edit list \<Rightarrow> edit_error + applied_edits \<times> text16" where
  "edited_text nfkc file edits =
     (case stripBom file of (bom, content) \<Rightarrow>
        bind_result (applyEditsToNormalizedContent nfkc (normalizeToLF content) edits) (\<lambda>applied.
          Inr (applied, bom @ restoreLineEndings (ae_newContent applied) (detectLineEnding content))))"

definition edit_execute :: "(text16 \<Rightarrow> text16) \<Rightarrow> edit_env \<Rightarrow> text_edit list \<Rightarrow> text16 option \<times> (tool_error + applied_edits)" where
  "edit_execute nfkc env edits =
     (if edits = [] then (None, Inl NoEdits)
      else if ee_aborted env 0 then (None, Inl EditAborted)
      else case ee_info env of
        Inl code \<Rightarrow> (None, Inl (EditAccess code))
      | Inr kind \<Rightarrow>
          if kind \<noteq> FileKind \<and> kind \<noteq> SymlinkKind then (None, Inl NotAFile)
          else case ee_read env of
            Inl code \<Rightarrow> (None, Inl (EditAccess code))
          | Inr file \<Rightarrow>
              if ee_aborted env 1 then (None, Inl EditAborted)
              else case edited_text nfkc file edits of
                Inl e \<Rightarrow> (None, Inl (EditFailed e))
              | Inr (applied, finalContent) \<Rightarrow>
                  if ee_aborted env 2 then (None, Inl EditAborted)
                  else case ee_write env of
                    Inl code \<Rightarrow> (None, Inl (EditAccess code))
                  | Inr _ \<Rightarrow> (Some finalContent, if ee_aborted env 3 then Inl EditAborted else Inr applied))"

end
