(* ===== verification/Truncate_Props.thy ===== *)
theory Truncate_Props
  imports Truncate
begin

text \<open>
  The two ways of counting bytes agree, and truncated output keeps its promises: whole lines, within both limits, as many as fit,
  and never half a surrogate pair.
\<close>

section \<open>Bytes\<close>

lemma surrogate_simps [simp]:
  "is_high c \<Longrightarrow> \<not> is_low c" "is_low c \<Longrightarrow> \<not> is_high c" "\<not> is_high newline16" "\<not> is_low newline16" "unit_bytes newline16 = 1"
  "\<not> is_high replacement_char" "\<not> is_low replacement_char" "unit_bytes replacement_char = 3"
  by (auto simp: is_high_def is_low_def newline16_def replacement_char_def unit_bytes_def) (simp_all add: word_le_nat_alt)

lemma unit_bytes_surrogate: "is_high c \<or> is_low c \<Longrightarrow> unit_bytes c = 3"
  by (auto simp: is_high_def is_low_def unit_bytes_def word_le_nat_alt)

lemma unit_bytes_le: "unit_bytes c \<le> 3"
  by (simp add: unit_bytes_def)

lemma utf8_bytes_append:
  "a = [] \<or> b = [] \<or> \<not> (is_high (last a) \<and> is_low (hd b)) \<Longrightarrow> utf8_bytes (a @ b) = utf8_bytes a + utf8_bytes b"
proof (induction a rule: utf8_bytes.induct)
  case (2 c)
  then show ?case by (cases b) auto
next
  case (3 c d s)
  then show ?case by (cases "is_high c \<and> is_low d"; cases s) auto
qed simp

lemma utf8_bytes_line: "utf8_bytes (a @ newline16 # b) = utf8_bytes a + 1 + utf8_bytes b"
  using utf8_bytes_append [of a "newline16 # b"] utf8_bytes_append [of "[newline16]" b] by simp

lemma count_bytes_eq: "count_bytes s n = n + utf8_bytes s"
proof (induction s n rule: count_bytes.induct)
  case (2 c s bytes)
  have ascii: "c \<le> 0x7ff \<Longrightarrow> \<not> is_high c" by (auto simp: is_high_def word_le_nat_alt)
  have plain: "\<not> is_high c \<Longrightarrow> utf8_bytes (c # s) = unit_bytes c + utf8_bytes s" by (cases s) auto
  have small: "c \<le> 0x7f \<Longrightarrow> c \<le> 0x7ff" by (simp add: word_le_nat_alt)
  show ?case
  proof (cases "is_high c")
    case True
    then have big: "\<not> c \<le> 0x7ff" "\<not> c \<le> 0x7f" using ascii small by auto
    show ?thesis
    proof (cases s)
      case Nil
      then show ?thesis using 2 True big unit_bytes_surrogate by simp
    next
      case (Cons d s')
      then show ?thesis using 2 True big unit_bytes_surrogate [of c] by auto
    qed
  next
    case False
    then show ?thesis using 2 plain small by (auto simp: unit_bytes_def)
  qed
qed simp

lemma utf8_bytes_ascii: "\<forall>c \<in> set s. c \<le> 0x7f \<Longrightarrow> utf8_bytes s = length s"
proof (induction s rule: utf8_bytes.induct)
  case (3 c d s)
  then have "\<not> is_high c" by (auto simp: is_high_def word_le_nat_alt)
  then show ?case using 3 by (simp add: unit_bytes_def)
qed (simp_all add: unit_bytes_def)

lemma utf8ByteLength_eq:
  assumes "buffer_ok buffer"
  shows "utf8ByteLength buffer s = utf8_bytes s"
proof (cases buffer)
  case (Some f)
  then show ?thesis using assms by (simp add: utf8ByteLength_def buffer_ok_def)
next
  case None
  let ?a = "takeWhile (\<lambda>c. c \<le> 0x7f) s" and ?b = "dropWhile (\<lambda>c. c \<le> 0x7f) s"
  have s: "?a @ ?b = s" by simp
  have ascii: "utf8_bytes ?a = length ?a" by (rule utf8_bytes_ascii) (auto dest: set_takeWhileD)
  have drop: "drop (length ?a) s = ?b" by (simp add: dropWhile_eq_drop)
  have high: "?a = [] \<or> \<not> is_high (last ?a)"
  proof (cases "?a = []")
    case False
    then have "last ?a \<le> 0x7f" using last_in_set [of ?a] by (blast dest: set_takeWhileD)
    then show ?thesis by (auto simp: is_high_def word_le_nat_alt)
  qed simp
  have "utf8_bytes s = length ?a + utf8_bytes ?b"
    using utf8_bytes_append [of ?a ?b] high ascii s by auto
  moreover have "length ?a = length s \<Longrightarrow> ?b = []" using arg_cong [OF s, of length] by (simp del: takeWhile_dropWhile_id)
  ultimately show ?thesis
    by (cases "length ?a = length s") (simp_all add: utf8ByteLength_def None Let_def drop count_bytes_eq)
qed

section \<open>Lines\<close>

lemma split_nl_not_Nil [simp]: "split_nl s \<noteq> []"
  by (cases s) simp_all

lemma join_nl_Cons: "ls \<noteq> [] \<Longrightarrow> join_nl (l # ls) = l @ newline16 # join_nl ls"
  by (cases ls) simp_all

lemma join_split [simp]: "join_nl (split_nl s) = s"
proof (induction s)
  case (Cons c s)
  show ?case
  proof (cases "tl (split_nl s) = []")
    case True
    then have "split_nl s = [hd (split_nl s)]" by (metis list.exhaust_sel split_nl_not_Nil)
    then show ?thesis using Cons True by (metis join_nl.simps(2) join_nl_Cons split_nl.simps(2) append_Nil list.discI split_nl_not_Nil)
  next
    case False
    then show ?thesis using Cons by (metis append_Cons append_Nil hd_Cons_tl join_nl_Cons split_nl.simps(2) split_nl_not_Nil)
  qed
qed simp

lemma join_nl_append: "a \<noteq> [] \<Longrightarrow> b \<noteq> [] \<Longrightarrow> join_nl (a @ b) = join_nl a @ newline16 # join_nl b"
proof (induction a)
  case (Cons l a)
  then show ?case by (cases "a = []") (auto simp: join_nl_Cons)
qed simp

lemma last_split_nl: "s \<noteq> [] \<Longrightarrow> last s = newline16 \<Longrightarrow> last (split_nl s) = []"
proof (induction s)
  case (Cons c s)
  show ?case
  proof (cases "s = []")
    case True
    then show ?thesis using Cons.prems by simp
  next
    case False
    then have ih: "last (split_nl s) = []" using Cons by simp
    then show ?thesis
    proof (cases "c = newline16")
      case False
      have "tl (split_nl s) \<noteq> []"
      proof
        assume t: "tl (split_nl s) = []"
        then have "split_nl s = [[]]" using ih by (metis last_ConsL list.exhaust_sel split_nl_not_Nil)
        then have "s = []" using join_split [of s] by simp
        then show False using \<open>s \<noteq> []\<close> by simp
      qed
      then show ?thesis using False ih by (simp add: last_tl)
    qed simp
  qed
qed simp

lemma split_join:
  "ls \<noteq> [] \<Longrightarrow> \<forall>l \<in> set ls. newline16 \<notin> set l \<Longrightarrow> split_nl (join_nl ls) = ls"
proof (induction ls rule: join_nl.induct)
  case (2 l)
  then have "newline16 \<notin> set l" by simp
  then show ?case by (induction l) auto
next
  case (3 l k ls)
  then have "newline16 \<notin> set l" by simp
  then have "split_nl (l @ newline16 # join_nl (k # ls)) = l # split_nl (join_nl (k # ls))" by (induction l) auto
  then show ?case using 3 by simp
qed simp

lemma split_no_newline: "l \<in> set (split_nl s) \<Longrightarrow> newline16 \<notin> set l"
proof (induction s arbitrary: l)
  case (Cons c s)
  show ?case
  proof (cases "c = newline16")
    case False
    then consider "l = c # hd (split_nl s)" | "l \<in> set (tl (split_nl s))" using Cons.prems by auto
    then show ?thesis
    proof cases
      case 1
      then show ?thesis using Cons.IH [of "hd (split_nl s)"] False by simp
    next
      case 2
      then show ?thesis using Cons.IH list.set_sel(2) split_nl_not_Nil by metis
    qed
  qed (use Cons in auto)
qed simp

lemma split_nl_append: "split_nl (s @ newline16 # t) = split_nl s @ split_nl t"
proof (induction s)
  case (Cons c s)
  then show ?case by (cases "split_nl s") auto
qed simp

text \<open>The counted lines, joined again, are the text without its last line break.\<close>

lemma join_counted: "content = join_nl (splitLinesForCounting content) \<or> content = join_nl (splitLinesForCounting content) @ [newline16]"
proof (cases "content \<noteq> [] \<and> last content = newline16")
  case True
  then have split: "split_nl content = butlast (split_nl content) @ [[]]"
    using last_split_nl [of content] append_butlast_last_id [OF split_nl_not_Nil [of content]] by simp
  show ?thesis
  proof (cases "butlast (split_nl content) = []")
    case True
    then have "content = []" using split join_split [of content] by (metis append_Nil join_nl.simps(2))
    then show ?thesis by (simp add: splitLinesForCounting_def)
  next
    case False
    then have "content = join_nl (butlast (split_nl content)) @ [newline16]"
      using join_nl_append [of "butlast (split_nl content)" "[[]]"] split join_split [of content] by simp
    then show ?thesis using True by (simp add: splitLinesForCounting_def Let_def)
  qed
qed (auto simp: splitLinesForCounting_def Let_def)

lemma utf8_bytes_join: "ls \<noteq> [] \<Longrightarrow> utf8_bytes (join_nl (ls @ [l])) = utf8_bytes (join_nl ls) + (utf8_bytes l + 1)"
  by (simp add: join_nl_append utf8_bytes_line)

lemma utf8_bytes_join_Cons: "ls \<noteq> [] \<Longrightarrow> utf8_bytes (join_nl (l # ls)) = utf8_bytes l + 1 + utf8_bytes (join_nl ls)"
  by (simp add: join_nl_Cons utf8_bytes_line)

section \<open>Head\<close>

text \<open>The head loop takes the longest run of whole lines that keeps both limits, after the lines \<open>pre\<close> already taken.\<close>

lemma line_bytes_step:
  "buffer_ok buffer \<Longrightarrow>
   utf8_bytes (join_nl pre) + (utf8ByteLength buffer l + (if length pre > 0 then 1 else 0)) = utf8_bytes (join_nl (pre @ [l]))"
  by (cases "pre = []") (simp_all add: utf8ByteLength_eq utf8_bytes_join)

lemma head_lines_spec:
  assumes "buffer_ok buffer"
    and "head_lines buffer maxLines maxBytes (length pre) (utf8_bytes (join_nl pre)) ls = (kept, bytes, hit)"
    and "int (length pre) \<le> maxLines" "int (utf8_bytes (join_nl pre)) \<le> maxBytes"
  shows "\<exists>k \<le> length ls. kept = take k ls \<and> bytes = utf8_bytes (join_nl (pre @ kept)) \<and>
    int (length pre + k) \<le> maxLines \<and> int bytes \<le> maxBytes \<and>
    (k < length ls \<longrightarrow> (if hit then int (utf8_bytes (join_nl (pre @ take (Suc k) ls))) > maxBytes else int (length pre + k) = maxLines)) \<and>
    (k = length ls \<longrightarrow> \<not> hit)"
  using assms(2-)
proof (induction ls arbitrary: pre kept)
  case (Cons l ls)
  let ?bytes = "utf8_bytes (join_nl pre) + (utf8ByteLength buffer l + (if length pre > 0 then 1 else 0))"
  note step = line_bytes_step [OF assms(1), of pre l]
  consider (lines) "\<not> int (length pre) < maxLines" | (bytes) "int (length pre) < maxLines" "int ?bytes > maxBytes"
    | (fits) "int (length pre) < maxLines" "int ?bytes \<le> maxBytes" by linarith
  then show ?case
  proof cases
    case lines
    then show ?thesis using Cons.prems by (intro exI [of _ 0]) auto
  next
    case bytes
    then show ?thesis using Cons.prems step by (intro exI [of _ 0]) (auto simp: Let_def)
  next
    case fits
    obtain kept' bytes' hit' where
      rest: "head_lines buffer maxLines maxBytes (length (pre @ [l])) (utf8_bytes (join_nl (pre @ [l]))) ls = (kept', bytes', hit')"
      using prod_cases3 by blast
    then have eq: "kept = l # kept'" "bytes = bytes'" "hit = hit'"
      using Cons.prems(1) fits unfolding head_lines.simps Let_def step by auto
    obtain k where "k \<le> length ls" "kept' = take k ls" "bytes' = utf8_bytes (join_nl ((pre @ [l]) @ kept'))"
      "int (length (pre @ [l]) + k) \<le> maxLines" "int bytes' \<le> maxBytes"
      "k < length ls \<longrightarrow> (if hit' then int (utf8_bytes (join_nl ((pre @ [l]) @ take (Suc k) ls))) > maxBytes
         else int (length (pre @ [l]) + k) = maxLines)" "k = length ls \<longrightarrow> \<not> hit'"
      using Cons.IH [OF rest [folded eq(2,3)]] fits eq unfolding step by auto
    then show ?thesis unfolding eq by (intro exI [of _ "Suc k"]) auto
  qed
qed auto

section \<open>Cutting a line\<close>

lemma replaceUnpairedSurrogates_append:
  "a = [] \<or> b = [] \<or> \<not> (is_high (last a) \<and> is_low (hd b)) \<Longrightarrow>
   replaceUnpairedSurrogates (a @ b) = replaceUnpairedSurrogates a @ replaceUnpairedSurrogates b"
proof (induction a rule: replaceUnpairedSurrogates.induct)
  case (2 c)
  then show ?case by (cases b) auto
next
  case (3 c d s)
  then show ?case by (cases "is_high c \<and> is_low d"; cases s) auto
qed simp

lemma utf8_bytes_replaced [simp]: "utf8_bytes (replaceUnpairedSurrogates s) = utf8_bytes s"
proof (induction s rule: replaceUnpairedSurrogates.induct)
  case (3 c d s)
  have plain: "\<not> (is_high x \<and> is_low (hd t)) \<Longrightarrow> t \<noteq> [] \<Longrightarrow> utf8_bytes (x # t) = unit_bytes x + utf8_bytes t" for x t
    by (cases t) auto
  have ne: "replaceUnpairedSurrogates (d # s) \<noteq> []" by (cases s) auto
  have hd: "is_low (hd (replaceUnpairedSurrogates (d # s))) \<Longrightarrow> False"
    by (cases s) (auto split: if_splits)
  show ?case using 3 unit_bytes_surrogate plain [OF _ ne] hd by auto
qed (auto simp: unit_bytes_surrogate)

text \<open>
  The units kept from the end, last unit first: they weigh at most what is left of the limit, do not start inside a pair, and
  contain an unpaired surrogate only when the flag says so.
\<close>

lemma end_units_spec:
  assumes "end_units maxBytes out xs = (n, f)" "out \<le> maxBytes"
  shows "n \<le> length xs \<and> out + int (utf8_bytes (rev (take n xs))) \<le> maxBytes \<and>
    (0 < n \<longrightarrow> n < length xs \<longrightarrow> \<not> (is_low (xs ! (n - 1)) \<and> is_high (xs ! n))) \<and>
    (\<not> f \<longrightarrow> replaceUnpairedSurrogates (rev (take n xs)) = rev (take n xs)) \<and>
    (n < length xs \<longrightarrow> maxBytes < out + int (utf8_bytes (rev (take n xs))) + 4)"
  using assms
proof (induction maxBytes out xs arbitrary: n f rule: end_units.induct)
  case (2 maxBytes out c)
  then show ?case using unit_bytes_le [of c] by (auto simp: unit_bytes_surrogate split: if_splits)
next
  case (3 maxBytes out c p rest)
  show ?case
  proof (cases "is_low c \<and> is_high p")
    case True
    show ?thesis
    proof (cases "out + 4 > maxBytes")
      case False
      obtain m g where r: "end_units maxBytes (out + 4) rest = (m, g)" by force
      then have n: "n = m + 2" "f = g" using 3(4) True False by auto
      have ih: "m \<le> length rest" "out + 4 + int (utf8_bytes (rev (take m rest))) \<le> maxBytes"
        "0 < m \<longrightarrow> m < length rest \<longrightarrow> \<not> (is_low (rest ! (m - 1)) \<and> is_high (rest ! m))"
        "\<not> g \<longrightarrow> replaceUnpairedSurrogates (rev (take m rest)) = rev (take m rest)"
        "m < length rest \<longrightarrow> maxBytes < out + 4 + int (utf8_bytes (rev (take m rest))) + 4"
        using 3(1) [OF True False r] False by auto
      have a: "utf8_bytes (rev (take m rest) @ [p, c]) = utf8_bytes (rev (take m rest)) + 4"
        "replaceUnpairedSurrogates (rev (take m rest) @ [p, c]) = replaceUnpairedSurrogates (rev (take m rest)) @ [p, c]"
        using True by (simp_all add: utf8_bytes_append replaceUnpairedSurrogates_append)
      show ?thesis unfolding n using ih a True by (cases m) (auto simp: nth_Cons')
    qed (use 3 True in auto)
  next
    case False
    define w where "w = (if is_high c \<or> is_low c then 3 else int (unit_bytes c))"
    have w: "w = int (unit_bytes c)" by (auto simp: w_def unit_bytes_surrogate)
    show ?thesis
    proof (cases "out + w > maxBytes")
      case True
      then show ?thesis using 3 False unit_bytes_le [of c] by (auto simp: w_def split: if_splits)
    next
      case fits: False
      obtain m g where r: "end_units maxBytes (out + w) (p # rest) = (m, g)" by force
      have n: "n = Suc m" "f = (g \<or> is_high c \<or> is_low c)" using 3(4) False fits r by (auto simp: w_def split: if_splits)
      have ih: "m \<le> Suc (length rest)" "out + w + int (utf8_bytes (rev (take m (p # rest)))) \<le> maxBytes"
        "0 < m \<longrightarrow> m < Suc (length rest) \<longrightarrow> \<not> (is_low ((p # rest) ! (m - 1)) \<and> is_high ((p # rest) ! m))"
        "\<not> g \<longrightarrow> replaceUnpairedSurrogates (rev (take m (p # rest))) = rev (take m (p # rest))"
        "m < Suc (length rest) \<longrightarrow> maxBytes < out + w + int (utf8_bytes (rev (take m (p # rest)))) + 4"
        using 3(2) [of m g] 3(3) [of m g] False fits r by (auto simp: w_def split: if_splits)
      have b: "rev (take m (p # rest)) = [] \<or> \<not> (is_high (last (rev (take m (p # rest)))) \<and> is_low c)"
        using False by (cases m) auto
      have a: "utf8_bytes (rev (take m (p # rest)) @ [c]) = utf8_bytes (rev (take m (p # rest))) + unit_bytes c"
        "replaceUnpairedSurrogates (rev (take m (p # rest)) @ [c]) = replaceUnpairedSurrogates (rev (take m (p # rest))) @
          (if is_high c \<or> is_low c then [replacement_char] else [c])"
        using b utf8_bytes_append [of "rev (take m (p # rest))" "[c]"]
          replaceUnpairedSurrogates_append [of "rev (take m (p # rest))" "[c]"] by auto
      show ?thesis unfolding n take_Suc_Cons rev.simps a using ih False by (cases m) (auto simp: w nth_Cons')
    qed
  qed
qed simp

text \<open>A line cut from its end: a suffix that does not start inside a pair, with replacements, at most three bytes short of the limit.\<close>

lemma truncateStringToBytesFromEnd_spec:
  assumes "0 \<le> maxBytes" "maxBytes < int (utf8_bytes str)"
  shows "\<exists>u v. str = u @ v \<and> u \<noteq> [] \<and> truncateStringToBytesFromEnd str maxBytes = replaceUnpairedSurrogates v \<and>
    (v \<noteq> [] \<longrightarrow> \<not> (is_high (last u) \<and> is_low (hd v))) \<and>
    int (utf8_bytes v) \<le> maxBytes \<and> maxBytes < int (utf8_bytes v) + 4"
proof (cases "maxBytes = 0")
  case True
  then show ?thesis using assms by (intro exI [of _ str] exI [of _ "[]"]) (auto simp: truncateStringToBytesFromEnd_def)
next
  case False
  obtain n f where e: "end_units maxBytes 0 (rev str) = (n, f)" by force
  note spec = end_units_spec [OF e assms(1)]
  define u v where "u = take (length str - n) str" and "v = drop (length str - n) str"
  have v: "rev (take n (rev str)) = v" by (simp add: v_def take_rev)
  have len: "n < length str"
  proof (rule ccontr)
    assume "\<not> n < length str"
    then have "v = str" by (simp add: v_def)
    then show False using spec v assms(2) by simp
  qed
  have parts: "str = u @ v" and "u \<noteq> []" using len by (auto simp: u_def v_def)
  have "truncateStringToBytesFromEnd str maxBytes = replaceUnpairedSurrogates v"
    using False assms(1) e spec v by (auto simp: truncateStringToBytesFromEnd_def v_def Let_def)
  moreover have "v \<noteq> [] \<longrightarrow> \<not> (is_high (last u) \<and> is_low (hd v))"
  proof
    assume "v \<noteq> []"
    then have n: "0 < n" using len by (auto simp: v_def)
    have "rev str ! (n - 1) = hd v" using n len by (simp add: v_def rev_nth hd_drop_conv_nth)
    moreover have "rev str ! n = last u" using len by (simp add: last_conv_nth [OF \<open>u \<noteq> []\<close>]) (simp add: u_def rev_nth)
    ultimately show "\<not> (is_high (last u) \<and> is_low (hd v))" using spec n len by auto
  qed
  ultimately show ?thesis using spec v len parts \<open>u \<noteq> []\<close> by auto
qed

section \<open>Tail\<close>

lemma line_bytes_step_front:
  "buffer_ok buffer \<Longrightarrow>
   utf8_bytes (join_nl ls) + (utf8ByteLength buffer l + (if length ls > 0 then 1 else 0)) = utf8_bytes (join_nl (l # ls))"
  by (cases "ls = []") (simp_all add: utf8ByteLength_eq utf8_bytes_join_Cons)

text \<open>The tail loop, after the lines \<open>taken\<close>: the longest run of whole lines in front of them, or the end of a line that does not fit alone.\<close>

lemma tail_lines_spec:
  assumes "buffer_ok buffer"
    and "tail_lines buffer maxLines maxBytes taken (utf8_bytes (join_nl taken)) ls = (kept, bytes, hit, part)"
    and "int (length taken) \<le> maxLines" "int (utf8_bytes (join_nl taken)) \<le> maxBytes"
  shows "if part then taken = [] \<and> 0 < maxLines \<and> ls \<noteq> [] \<and> maxBytes < int (utf8_bytes (hd ls)) \<and>
      kept = [truncateStringToBytesFromEnd (hd ls) maxBytes]
    else \<exists>k \<le> length ls. kept = rev (take k ls) @ taken \<and>
      int (length kept) \<le> maxLines \<and> int (utf8_bytes (join_nl kept)) \<le> maxBytes \<and>
      (k < length ls \<longrightarrow> int (length kept) = maxLines \<or> maxBytes < int (utf8_bytes (join_nl (ls ! k # kept))))"
  using assms(2-)
proof (induction ls arbitrary: taken)
  case (Cons l ls)
  let ?bytes = "utf8_bytes (join_nl taken) + (utf8ByteLength buffer l + (if length taken > 0 then 1 else 0))"
  note step = line_bytes_step_front [OF assms(1), of taken l]
  consider (lines) "\<not> int (length taken) < maxLines" | (bytes) "int (length taken) < maxLines" "int ?bytes > maxBytes"
    | (fits) "int (length taken) < maxLines" "int ?bytes \<le> maxBytes" by linarith
  then show ?case
  proof cases
    case lines
    then show ?thesis using Cons.prems by auto
  next
    case bytes
    then show ?thesis using Cons.prems step by (cases "taken = []") (auto simp: Let_def)
  next
    case fits
    have rest: "tail_lines buffer maxLines maxBytes (l # taken) (utf8_bytes (join_nl (l # taken))) ls = (kept, bytes, hit, part)"
      using Cons.prems(1) fits unfolding tail_lines.simps Let_def step by auto
    have "\<not> part" "\<exists>k \<le> length ls. kept = rev (take k ls) @ l # taken \<and>
      int (length kept) \<le> maxLines \<and> int (utf8_bytes (join_nl kept)) \<le> maxBytes \<and>
      (k < length ls \<longrightarrow> int (length kept) = maxLines \<or> maxBytes < int (utf8_bytes (join_nl (ls ! k # kept))))"
      using Cons.IH [OF rest] fits unfolding step by (auto split: if_splits)
    then obtain k where "\<not> part" "k \<le> length ls" "kept = rev (take k ls) @ l # taken"
      "int (length kept) \<le> maxLines" "int (utf8_bytes (join_nl kept)) \<le> maxBytes"
      "k < length ls \<longrightarrow> int (length kept) = maxLines \<or> maxBytes < int (utf8_bytes (join_nl (ls ! k # kept)))" by blast
    then show ?thesis by (auto intro!: exI [of _ "Suc k"])
  qed
qed auto

section \<open>What truncation promises\<close>

text \<open>A run of lines keeps both limits; the longest such run from the head, and from the tail.\<close>

definition within_limits :: "truncation_options \<Rightarrow> text16 list \<Rightarrow> bool" where
  "within_limits opts ls \<longleftrightarrow> int (length ls) \<le> max_lines opts \<and> int (utf8_bytes (join_nl ls)) \<le> max_bytes opts"

definition longest_head :: "truncation_options \<Rightarrow> text16 list \<Rightarrow> text16 list \<Rightarrow> bool" where
  "longest_head opts ls kept \<longleftrightarrow>
     (\<exists>k \<le> length ls. kept = take k ls \<and> within_limits opts kept \<and> (k < length ls \<longrightarrow> \<not> within_limits opts (take (Suc k) ls)))"

definition longest_tail :: "truncation_options \<Rightarrow> text16 list \<Rightarrow> text16 list \<Rightarrow> bool" where
  "longest_tail opts ls kept \<longleftrightarrow>
     (\<exists>k \<le> length ls. kept = drop k ls \<and> within_limits opts kept \<and> (0 < k \<longrightarrow> \<not> within_limits opts (drop (k - 1) ls)))"

lemma counted_empty: "splitLinesForCounting content = [] \<Longrightarrow> content = []"
proof (rule ccontr)
  assume none: "splitLinesForCounting content = []" and c: "content \<noteq> []"
  then have "content = [newline16]" using join_counted [of content] by auto
  then show False using none by (simp add: splitLinesForCounting_def)
qed

lemma untruncated_simps [simp]:
  "tn_totalLines (untruncated buffer content opts) = length (splitLinesForCounting content)"
  "tn_totalBytes (untruncated buffer content opts) = utf8ByteLength buffer content"
  "tn_firstLineExceedsLimit (untruncated buffer content opts) = False"
  "tn_content (untruncated buffer content opts) = content" "tn_truncated (untruncated buffer content opts) = False"
  by (simp_all add: untruncated_def Let_def)

lemma truncateHead_fits:
  assumes "buffer_ok buffer" "int (length (splitLinesForCounting content)) \<le> max_lines opts" "int (utf8_bytes content) \<le> max_bytes opts"
  shows "truncateHead buffer content opts = Inr (untruncated buffer content opts)"
  using assms(2,3) by (simp add: truncateHead_def Let_def utf8ByteLength_eq [OF assms(1)])

lemma truncateHead_cut:
  assumes "buffer_ok buffer" "0 \<le> max_lines opts" "0 \<le> max_bytes opts"
    and over: "\<not> (int (length (splitLinesForCounting content)) \<le> max_lines opts \<and> int (utf8_bytes content) \<le> max_bytes opts)"
  obtains r kept where "truncateHead buffer content opts = Inr r" "longest_head opts (splitLinesForCounting content) kept" "tn_truncated r"
    "tn_content r = join_nl kept" "tn_outputLines r = length kept" "tn_outputBytes r = utf8_bytes (join_nl kept)"
    "tn_firstLineExceedsLimit r = (max_bytes opts < int (utf8_bytes (hd (splitLinesForCounting content))))"
proof -
  let ?ls = "splitLinesForCounting content"
  note bytes = utf8ByteLength_eq [OF assms(1)]
  have ne: "?ls \<noteq> []" using counted_empty [of content] over assms by auto
  show thesis
  proof (cases "max_bytes opts < int (utf8_bytes (hd ?ls))")
    case True
    then have "longest_head opts ?ls []"
      using ne assms by (auto simp: longest_head_def within_limits_def neq_Nil_conv intro!: exI [of _ 0])
    then show thesis using that [of _ "[]"] True over ne by (simp add: truncateHead_def Let_def bytes)
  next
    case False
    obtain kept sumBytes hit where h: "head_lines buffer (max_lines opts) (max_bytes opts) 0 0 ?ls = (kept, sumBytes, hit)"
      using prod_cases3 by blast
    have "longest_head opts ?ls kept"
      using head_lines_spec [OF assms(1), of "max_lines opts" "max_bytes opts" "[]" ?ls kept sumBytes hit] h assms
      by (auto simp: longest_head_def within_limits_def split: if_splits)
    then show thesis using that [of _ kept] False over ne h by (simp add: truncateHead_def Let_def bytes)
  qed
qed

text \<open>
  Output truncated from its head, for limits that are not negative, never raises an error. A text within both limits is
  returned as it is. Otherwise the result is the longest run of whole lines from the start that keeps both limits, with its true
  counts of lines and bytes, and it is empty with the flag \<^verbatim>\<open>firstLineExceedsLimit\<close> exactly when the first line alone is too
  long. This holds with the byte count of the runtime and with the loop that replaces it.
\<close>

lemma truncate_head_longest:
  assumes "buffer_ok buffer" "0 \<le> max_lines opts" "0 \<le> max_bytes opts"
  shows "\<exists>r. truncateHead buffer content opts = Inr r \<and>
    (if int (length (splitLinesForCounting content)) \<le> max_lines opts \<and> int (utf8_bytes content) \<le> max_bytes opts
     then tn_content r = content \<and> \<not> tn_truncated r
     else \<exists>kept. longest_head opts (splitLinesForCounting content) kept \<and> tn_truncated r \<and>
       tn_content r = join_nl kept \<and> tn_outputLines r = length kept \<and> tn_outputBytes r = utf8_bytes (join_nl kept) \<and>
       tn_firstLineExceedsLimit r = (max_bytes opts < int (utf8_bytes (hd (splitLinesForCounting content)))))"
proof (cases "int (length (splitLinesForCounting content)) \<le> max_lines opts \<and> int (utf8_bytes content) \<le> max_bytes opts")
  case True
  then show ?thesis using truncateHead_fits [OF assms(1)] by auto
next
  case False
  then show ?thesis by (rule truncateHead_cut [OF assms]) (use False in auto)
qed

text \<open>
  C38. Output truncated from its tail, for limits that are not negative: a text within both limits is returned as it is;
  otherwise the result is the longest run of whole lines at the end that keeps both limits, except that when lines may be shown and
  the last one alone exceeds the byte limit it is the end of that line, and exactly then the result says that its last line is partial. The cut never separates a surrogate pair, an unpaired surrogate becomes the replacement
  character, and the piece uses the byte limit up to three bytes.
\<close>

theorem truncate_tail_longest:
  assumes "buffer_ok buffer" "0 \<le> max_lines opts" "0 \<le> max_bytes opts"
    and r_def: "r = truncateTail buffer content opts" and ls_def: "ls = splitLinesForCounting content"
  shows "if int (length ls) \<le> max_lines opts \<and> int (utf8_bytes content) \<le> max_bytes opts
    then tn_content r = content \<and> \<not> tn_truncated r
    else tn_truncated r \<and> tn_outputBytes r = utf8_bytes (tn_content r) \<and>
      (tn_lastLinePartial r \<longleftrightarrow> 0 < max_lines opts \<and> ls \<noteq> [] \<and> max_bytes opts < int (utf8_bytes (last ls))) \<and>
      (if 0 < max_lines opts \<and> ls \<noteq> [] \<and> max_bytes opts < int (utf8_bytes (last ls))
       then tn_outputLines r = 1 \<and> (\<exists>u v. last ls = u @ v \<and> tn_content r = replaceUnpairedSurrogates v \<and>
            (v \<noteq> [] \<longrightarrow> \<not> (is_high (last u) \<and> is_low (hd v))) \<and>
            int (tn_outputBytes r) \<le> max_bytes opts \<and> max_bytes opts < int (tn_outputBytes r) + 4)
       else \<exists>kept. longest_tail opts ls kept \<and> tn_content r = join_nl kept \<and> tn_outputLines r = length kept)"
proof (cases "int (length ls) \<le> max_lines opts \<and> int (utf8_bytes content) \<le> max_bytes opts")
  case True
  then show ?thesis by (simp add: r_def ls_def truncateTail_def Let_def utf8ByteLength_eq [OF assms(1)])
next
  case False
  obtain kept sumBytes hit part where
    t: "tail_lines buffer (max_lines opts) (max_bytes opts) [] 0 (rev ls) = (kept, sumBytes, hit, part)"
    using prod_cases4 by blast
  have r: "r = (untruncated buffer content opts)\<lparr>tn_content := join_nl kept, tn_truncated := True,
      tn_truncatedBy := Some (limit_of (max_lines opts) (max_bytes opts) (length kept) sumBytes hit),
      tn_outputLines := length kept, tn_outputBytes := utf8ByteLength buffer (join_nl kept), tn_lastLinePartial := part\<rparr>"
    using False t by (auto simp: r_def ls_def truncateTail_def Let_def utf8ByteLength_eq [OF assms(1)])
  note spec = tail_lines_spec [OF assms(1), of "max_lines opts" "max_bytes opts" "[]" "rev ls" kept sumBytes hit part]
  have overlong: "part" if "0 < max_lines opts" "ls \<noteq> []" "max_bytes opts < int (utf8_bytes (last ls))"
    using t that by (cases ls rule: rev_cases) (simp_all add: utf8ByteLength_eq [OF assms(1)] Let_def)
  show ?thesis
  proof (cases part)
    case True
    then have p: "0 < max_lines opts" "ls \<noteq> []" "max_bytes opts < int (utf8_bytes (last ls))"
      "kept = [truncateStringToBytesFromEnd (last ls) (max_bytes opts)]"
      using spec t assms(2,3) by (auto simp: hd_rev)
    obtain u v where uv: "last ls = u @ v" "truncateStringToBytesFromEnd (last ls) (max_bytes opts) = replaceUnpairedSurrogates v"
      "v \<noteq> [] \<longrightarrow> \<not> (is_high (last u) \<and> is_low (hd v))" "int (utf8_bytes v) \<le> max_bytes opts"
      "max_bytes opts < int (utf8_bytes v) + 4"
      using truncateStringToBytesFromEnd_spec [OF assms(3) p(3)] by blast
    have out: "tn_content r = replaceUnpairedSurrogates v" "tn_outputBytes r = utf8_bytes v" "tn_truncated r" "tn_lastLinePartial r" "tn_outputLines r = 1"
      using p(4) uv(2) True by (simp_all add: r utf8ByteLength_eq [OF assms(1)])
    have "\<exists>u v. last ls = u @ v \<and> tn_content r = replaceUnpairedSurrogates v \<and>
            (v \<noteq> [] \<longrightarrow> \<not> (is_high (last u) \<and> is_low (hd v))) \<and>
            int (tn_outputBytes r) \<le> max_bytes opts \<and> max_bytes opts < int (tn_outputBytes r) + 4"
      using uv out by metis
    then show ?thesis using p False out by simp
  next
    case part: False
    then obtain k where k: "k \<le> length ls" "kept = rev (take k (rev ls))" "int (length kept) \<le> max_lines opts"
      "int (utf8_bytes (join_nl kept)) \<le> max_bytes opts"
      "k < length ls \<longrightarrow> int (length kept) = max_lines opts \<or> max_bytes opts < int (utf8_bytes (join_nl (rev ls ! k # kept)))"
      using spec t assms(2,3) by (fastforce simp del: rev_take)
    have kept: "kept = drop (length ls - k) ls" using k(2) by (simp add: take_rev)
    have "k < length ls \<Longrightarrow> drop (length ls - k - 1) ls = rev ls ! k # kept"
      using Cons_nth_drop_Suc [of "length ls - Suc k" ls] unfolding kept by (simp add: rev_nth Suc_diff_Suc)
    then have "longest_tail opts ls kept"
      using k kept by (auto simp: longest_tail_def within_limits_def intro!: exI [of _ "length ls - k"])
    moreover have "\<not> (0 < max_lines opts \<and> ls \<noteq> [] \<and> max_bytes opts < int (utf8_bytes (last ls)))" using overlong part by blast
    ultimately show ?thesis using part False by (auto simp: r utf8ByteLength_eq [OF assms(1)])
  qed
qed

theorem truncate_tail_longest_witness:
  "\<exists>u v. ascii16 ''abcde'' = u @ v \<and>
     tn_content (truncateTail None (ascii16 ''x'' @ newline16 # ascii16 ''abcde'') \<lparr>to_maxLines = None, to_maxBytes = Some 3\<rparr>) =
       replaceUnpairedSurrogates v"
proof -
  let ?text = "ascii16 ''x'' @ newline16 # ascii16 ''abcde''" and ?opts = "\<lparr>to_maxLines = None, to_maxBytes = Some 3\<rparr>"
  have l: "splitLinesForCounting ?text = [ascii16 ''x'', ascii16 ''abcde'']" by code_simp
  have b: "\<not> int (utf8_bytes ?text) \<le> 3" by code_simp
  have part: "3 < int (utf8_bytes (ascii16 ''abcde''))" by code_simp
  show ?thesis
    using truncate_tail_longest [of None ?opts _ ?text, OF _ _ _ refl l [symmetric]] b part
    by (auto simp: buffer_ok_def max_lines_def max_bytes_def DEFAULT_MAX_LINES_def split: if_splits)
qed

text \<open>
  When only the line break at the very end exceeds the byte limit, the head loop takes every line and never meets the limit, so
  the result blames the lines although the text has fewer lines than allowed.
\<close>

lemma byte_limit_reported_as_lines:
  "map_sum id tn_truncatedBy (truncateHead None (ascii16 ''a'' @ [newline16]) \<lparr>to_maxLines = Some 10, to_maxBytes = Some 1\<rparr>) = Inr (Some LineLimit)"
  by code_simp

text \<open>
  Counting UTF-8 bytes in the loop gives the same length as the encoding: one, two or three bytes for a code unit, four for
  a surrogate pair and three for an unpaired surrogate, which a replacement character also takes. The length of lines joined by line breaks is the sum of theirs plus the breaks.
\<close>

lemma utf8_count_exact:
  "utf8ByteLength None s = utf8_bytes s \<and> utf8ByteLength None (replaceUnpairedSurrogates s) = utf8_bytes s \<and>
   utf8ByteLength None (a @ newline16 # b) = utf8ByteLength None a + 1 + utf8ByteLength None b"
  by (simp add: utf8ByteLength_eq buffer_ok_def utf8_bytes_line)

end
