(* ===== verification/Edit_Diff_Props.thy ===== *)
theory Edit_Diff_Props
  imports Edit_Diff Truncate_Props
begin

text \<open>
  Edits replace disjoint pieces of a text and nothing else; edits matched through the normalised text rewrite the lines they touch
  and copy the others from the original; the displayed diff numbers its lines correctly.
\<close>

section \<open>Searching\<close>

lemma starts_with_iff: "starts_with p s \<longleftrightarrow> take (length p) s = p"
  by (induction p s rule: starts_with.induct) auto

lemma index_of_Some:
  "index_of p s = Some i \<Longrightarrow> take (length p) (drop i s) = p \<and> i + length p \<le> length s \<and> (\<forall>j < i. \<not> starts_with p (drop j s))"
proof (induction p s arbitrary: i rule: index_of.induct)
  case (1 p s)
  show ?case
  proof (cases "starts_with p s")
    case True
    then have "i = 0" using 1(2) by (simp add: index_of.simps [of p s])
    then show ?thesis using True by (auto simp: starts_with_iff dest: arg_cong [of _ _ length])
  next
    case False
    then obtain c s' k where s: "s = c # s'" "index_of p s' = Some k" "i = Suc k"
      using 1(2) by (auto simp: index_of.simps [of p s] split: list.splits)
    show ?thesis using 1(1) [OF False s(1) s(2)] False s by (auto simp: less_Suc_eq_0_disj)
  qed
qed

lemma index_of_None: "index_of p s = None \<Longrightarrow> i \<le> length s \<Longrightarrow> \<not> starts_with p (drop i s)"
proof (induction p s arbitrary: i rule: index_of.induct)
  case (1 p s)
  then have no: "\<not> starts_with p s" by (auto simp: index_of.simps [of p s] split: if_splits)
  show ?case
  proof (cases s)
    case (Cons c s')
    then have "index_of p s' = None" using 1(2) no index_of.simps [of p s] by simp
    then show ?thesis using 1(1) [OF no Cons] 1(3) no Cons by (cases i) auto
  qed (use no in simp)
qed

section \<open>Replacing pieces\<close>

text \<open>Replacements in ascending order without overlaps, between two positions, and their effect read from left to right.\<close>

fun fits_in :: "nat \<Rightarrow> matched_edit list \<Rightarrow> nat \<Rightarrow> bool" where
  "fits_in pos [] n = (pos \<le> n)"
| "fits_in pos (r # rs) n = (pos \<le> me_matchIndex r \<and> fits_in (me_matchIndex r + me_matchLength r) rs n)"

fun splice_from :: "nat \<Rightarrow> text16 \<Rightarrow> matched_edit list \<Rightarrow> text16" where
  "splice_from pos s [] = s"
| "splice_from pos s (r # rs) =
     take (me_matchIndex r - pos) s @ me_newText r @
     splice_from (me_matchIndex r + me_matchLength r) (drop (me_matchIndex r + me_matchLength r - pos) s) rs"

lemma fits_in_le: "fits_in pos rs n \<Longrightarrow> pos \<le> n"
  by (induction pos rs n rule: fits_in.induct) auto

lemma fits_in_front: "fits_in pos rs n \<Longrightarrow> p \<le> pos \<Longrightarrow> fits_in p rs n"
  by (cases rs) auto

lemma fits_in_mono: "fits_in pos rs m \<Longrightarrow> m \<le> n \<Longrightarrow> fits_in pos rs n"
  by (induction pos rs m rule: fits_in.induct) auto

lemma fits_in_append: "fits_in pos (rs @ qs) n \<longleftrightarrow> (\<exists>m. fits_in pos rs m \<and> fits_in m qs n)"
proof (induction rs arbitrary: pos)
  case Nil
  have "fits_in pos qs n \<longleftrightarrow> (\<exists>m \<ge> pos. fits_in m qs n)" by (cases qs) (auto intro: order_trans)
  then show ?case by auto
qed auto

lemma fits_in_snoc: "fits_in pos (rs @ [r]) n \<longleftrightarrow> fits_in pos rs (me_matchIndex r) \<and> me_matchIndex r + me_matchLength r \<le> n"
  by (auto simp: fits_in_append intro: fits_in_mono)

text \<open>Replacing from the last to the first, as the code does, is reading from left to right.\<close>

lemma applyReplacements_splice:
  "fits_in pos rs (offset + length content) \<Longrightarrow> offset \<le> pos \<Longrightarrow>
   applyReplacements content rs offset = take (pos - offset) content @ splice_from pos (drop (pos - offset) content) rs"
proof (induction rs arbitrary: pos)
  case (Cons r rs)
  let ?i = "me_matchIndex r - offset" and ?n = "me_matchLength r"
  have le: "pos \<le> me_matchIndex r" "?i + ?n \<le> length content" "offset \<le> me_matchIndex r"
    using Cons.prems fits_in_le [of "me_matchIndex r + ?n" rs "offset + length content"] by auto
  have ih: "applyReplacements content rs offset =
      take (?i + ?n) content @ splice_from (me_matchIndex r + ?n) (drop (?i + ?n) content) rs"
    using Cons.IH [of "me_matchIndex r + ?n"] Cons.prems le by simp
  have "applyReplacements content (r # rs) offset =
      take ?i content @ me_newText r @ splice_from (me_matchIndex r + ?n) (drop (?i + ?n) content) rs"
    using le by (simp add: replace_at_def ih nat_diff_distrib' nat_add_distrib min_def flip: int_plus of_nat_diff)
  moreover have "take ?i content = take (pos - offset) content @ take (me_matchIndex r - pos) (drop (pos - offset) content)"
    using le Cons.prems(2) by (simp flip: take_add)
  ultimately show ?case using le Cons.prems(2) by (simp add: add.commute)
qed simp

lemma splice_skip:
  "fits_in m rs n \<Longrightarrow> p \<le> m \<Longrightarrow> splice_from p s rs = take (m - p) s @ splice_from m (drop (m - p) s) rs"
proof (cases rs)
  case (Cons r rs')
  assume f: "fits_in m rs n" and p: "p \<le> m"
  then have "m \<le> me_matchIndex r" using Cons by simp
  then show ?thesis using p Cons take_add [of "m - p" "me_matchIndex r - m" s] by (simp add: add.commute)
qed simp

lemma splice_append:
  "fits_in p rs m \<Longrightarrow> fits_in m qs n \<Longrightarrow> splice_from p s (rs @ qs) = splice_from p (take (m - p) s) rs @ splice_from m (drop (m - p) s) qs"
proof (induction rs arbitrary: p s)
  case Nil
  then show ?case using splice_skip [of m qs n p s] by simp
next
  case (Cons r rs)
  let ?e = "me_matchIndex r + me_matchLength r"
  have le: "p \<le> me_matchIndex r" "?e \<le> m" using Cons.prems fits_in_le [of ?e rs m] by auto
  show ?case using Cons.IH [of ?e "drop (?e - p) s"] Cons.prems le by (simp add: min_def drop_take add.commute)
qed

section \<open>Lines touched by a replacement\<close>

lemma concat_lines [simp]: "concat (splitLinesWithEndings s) = s"
  by (induction s) (auto split: list.splits)

definition line_start :: "text16 list \<Rightarrow> nat \<Rightarrow> nat" where
  "line_start L k = length (concat (take k L))"

lemma line_start_mono: "i \<le> j \<Longrightarrow> line_start L i \<le> line_start L j"
proof -
  assume "i \<le> j"
  then have "take j L = take i L @ take (j - i) (drop i L)" using take_add [of i "j - i" L] by simp
  then show ?thesis by (simp add: line_start_def)
qed

lemma line_start_all: "length L \<le> k \<Longrightarrow> line_start L k = length (concat L)"
  by (simp add: line_start_def)

lemma line_spans_nth:
  "k < length L \<Longrightarrow> line_spans off L ! k = \<lparr>ls_start = off + line_start L k, ls_end = off + line_start L (Suc k)\<rparr>"
proof (induction L arbitrary: off k)
  case (Cons l L)
  then show ?case by (cases k) (auto simp: line_start_def)
qed simp

lemma line_spans_length [simp]: "length (line_spans off L) = length L"
  by (induction L arbitrary: off) auto

lemma find_start_Some:
  "find_start pos i ls = Some j \<Longrightarrow> i \<le> j \<and> j - i < length ls \<and> ls_start (ls ! (j - i)) \<le> pos \<and> pos < ls_end (ls ! (j - i))"
proof (induction ls arbitrary: i)
  case (Cons l ls)
  show ?case
  proof (cases "ls_start l \<le> pos \<and> pos < ls_end l")
    case False
    then have "find_start pos (Suc i) ls = Some j" using Cons.prems by (auto split: if_splits)
    from Cons.IH [OF this] show ?thesis by (auto simp: Suc_diff_le nth_Cons' Suc_le_eq)
  qed (use Cons.prems in auto)
qed simp

lemma find_end_Some:
  "find_end pos i ls = Some j \<Longrightarrow> i \<le> j \<and> j - i < length ls \<and> pos \<le> ls_end (ls ! (j - i)) \<and>
     (\<forall>k. i \<le> k \<longrightarrow> k < j \<longrightarrow> ls_end (ls ! (k - i)) < pos)"
proof (induction ls arbitrary: i)
  case (Cons l ls)
  show ?case
  proof (cases "ls_end l < pos")
    case True
    then have ih: "Suc i \<le> j" "j - Suc i < length ls" "pos \<le> ls_end (ls ! (j - Suc i))"
        "\<forall>k. Suc i \<le> k \<longrightarrow> k < j \<longrightarrow> ls_end (ls ! (k - Suc i)) < pos"
      using Cons.IH [of "Suc i"] Cons.prems by auto
    have "ls_end ((l # ls) ! (k - i)) < pos" if "i \<le> k" "k < j" for k
      using that True ih(4) by (cases "k = i") (auto simp: nth_Cons')
    then show ?thesis using ih True by (auto simp: nth_Cons' Suc_le_eq)
  qed (use Cons.prems in auto)
qed simp

definition touches :: "text16 list \<Rightarrow> nat \<Rightarrow> matched_edit \<Rightarrow> bool" where
  "touches L k r \<longleftrightarrow> me_matchIndex r < line_start L (Suc k) \<and>
     (line_start L k \<le> me_matchIndex r \<or> line_start L k < me_matchIndex r + me_matchLength r)"

lemma getReplacementLineRange_Inr:
  assumes "getReplacementLineRange (line_spans 0 L) r = Inr (a, b)"
  shows "a < b \<and> b \<le> length L \<and> line_start L a \<le> me_matchIndex r \<and> me_matchIndex r + me_matchLength r \<le> line_start L b \<and>
    (\<forall>k. a \<le> k \<longrightarrow> k < b \<longrightarrow> touches L k r)"
proof -
  obtain e where f: "find_start (me_matchIndex r) 0 (line_spans 0 L) = Some a"
      "find_end (me_matchIndex r + me_matchLength r) a (drop a (line_spans 0 L)) = Some e" "b = Suc e"
    using assms by (auto simp: getReplacementLineRange_def split: option.splits)
  have a: "a < length L" "line_start L a \<le> me_matchIndex r" "me_matchIndex r < line_start L (Suc a)"
    using find_start_Some [OF f(1)] by (auto simp: line_spans_nth)
  note e' = find_end_Some [OF f(2)]
  have e: "a \<le> e" "e < length L" using e' a by auto
  then have "me_matchIndex r + me_matchLength r \<le> line_start L b" using e' f(3) a by (auto simp: line_spans_nth)
  moreover have inner: "line_start L (Suc k) < me_matchIndex r + me_matchLength r" if "a \<le> k" "k < e" for k
    using e' that e by (auto simp: line_spans_nth)
  have "touches L k r" if k: "a \<le> k" "k < b" for k
  proof (cases "k = a")
    case True
    then show ?thesis using a by (simp add: touches_def)
  next
    case False
    then have "line_start L k < me_matchIndex r + me_matchLength r" using inner [of "k - 1"] k f(3) by simp
    moreover have "line_start L (Suc a) \<le> line_start L (Suc k)" using k by (simp add: line_start_mono)
    ultimately show ?thesis using a by (simp add: touches_def)
  qed
  ultimately show ?thesis using a e f(3) by auto
qed

section \<open>Groups of lines\<close>

definition group_ok :: "text16 list \<Rightarrow> line_group \<Rightarrow> bool" where
  "group_ok L g \<longleftrightarrow> lg_startLine g < lg_endLine g \<and> lg_endLine g \<le> length L \<and>
     fits_in (line_start L (lg_startLine g)) (lg_replacements g) (line_start L (lg_endLine g)) \<and>
     (\<forall>k. lg_startLine g \<le> k \<longrightarrow> k < lg_endLine g \<longrightarrow> (\<exists>r \<in> set (lg_replacements g). touches L k r))"

fun groups_ok :: "text16 list \<Rightarrow> nat \<Rightarrow> line_group list \<Rightarrow> bool" where
  "groups_ok L i [] = True"
| "groups_ok L i (g # gs) = (i \<le> lg_startLine g \<and> group_ok L g \<and> groups_ok L (lg_endLine g) gs)"

lemma groups_ok_snoc:
  "groups_ok L i (gs @ [g]) \<longleftrightarrow>
     groups_ok L i gs \<and> (if gs = [] then i else lg_endLine (last gs)) \<le> lg_startLine g \<and> group_ok L g"
  by (induction gs arbitrary: i) auto

text \<open>The groups built so far, when the last replacement ended at \<open>q\<close>.\<close>

definition groups_upto :: "text16 list \<Rightarrow> line_group list \<Rightarrow> nat \<Rightarrow> bool" where
  "groups_upto L gs q \<longleftrightarrow> groups_ok L 0 gs \<and>
     (gs \<noteq> [] \<longrightarrow> fits_in (line_start L (lg_startLine (last gs))) (lg_replacements (last gs)) q)"

lemma add_to_groups_ok:
  assumes "groups_upto L gs q" "q \<le> me_matchIndex r" "getReplacementLineRange (line_spans 0 L) r = Inr (a, b)"
  shows "groups_upto L (add_to_groups gs (a, b) r) (me_matchIndex r + me_matchLength r) \<and>
    concat (map lg_replacements (add_to_groups gs (a, b) r)) = concat (map lg_replacements gs) @ [r]"
proof (cases "gs \<noteq> [] \<and> a < lg_endLine (last gs)")
  case True
  then obtain gs' g where gs: "gs = gs' @ [g]" by (metis rev_exhaust)
  note range = getReplacementLineRange_Inr [OF assms(3)]
  let ?g = "g\<lparr>lg_endLine := max (lg_endLine g) b, lg_replacements := lg_replacements g @ [r]\<rparr>"
  have ok: "groups_ok L 0 gs'" "(if gs' = [] then 0 else lg_endLine (last gs')) \<le> lg_startLine g" "group_ok L g"
    "fits_in (line_start L (lg_startLine g)) (lg_replacements g) q"
    using assms(1) by (auto simp: groups_upto_def gs groups_ok_snoc)
  have fit: "fits_in (line_start L (lg_startLine g)) (lg_replacements g @ [r]) (me_matchIndex r + me_matchLength r)"
    using fits_in_mono [OF ok(4) assms(2)] by (simp add: fits_in_snoc)
  have "me_matchIndex r + me_matchLength r \<le> line_start L (max (lg_endLine g) b)"
    using range line_start_mono [of b "max (lg_endLine g) b" L] by simp
  then have "group_ok L ?g"
    using ok(3) range fits_in_mono [OF fit] True gs by (auto simp: group_ok_def)
  then have "groups_upto L (gs' @ [?g]) (me_matchIndex r + me_matchLength r)"
    using ok fit by (simp add: groups_upto_def groups_ok_snoc)
  then show ?thesis using True gs by (simp add: add_to_groups_def)
next
  case False
  note range = getReplacementLineRange_Inr [OF assms(3)]
  have "group_ok L \<lparr>lg_startLine = a, lg_endLine = b, lg_replacements = [r]\<rparr>" using range by (auto simp: group_ok_def)
  then show ?thesis
    using assms(1) False range by (auto simp: groups_upto_def groups_ok_snoc add_to_groups_def)
qed

lemma group_replacements_ok:
  "group_replacements (line_spans 0 L) gs rs = Inr gs' \<Longrightarrow> groups_upto L gs q \<Longrightarrow> fits_in q rs n \<Longrightarrow>
   groups_ok L 0 gs' \<and> concat (map lg_replacements gs') = concat (map lg_replacements gs) @ rs"
proof (induction rs arbitrary: gs q)
  case (Cons r rs)
  obtain a b where range: "getReplacementLineRange (line_spans 0 L) r = Inr (a, b)"
    and rest: "group_replacements (line_spans 0 L) (add_to_groups gs (a, b) r) rs = Inr gs'"
    using Cons.prems(1) by (auto simp: bind_result_Inr_iff)
  have q: "q \<le> me_matchIndex r" "fits_in (me_matchIndex r + me_matchLength r) rs n" using Cons.prems(3) by auto
  note step = add_to_groups_ok [OF Cons.prems(2) q(1) range]
  show ?case using Cons.IH [OF rest conjunct1 [OF step] q(2)] step by simp
qed (simp add: groups_upto_def)

text \<open>
  The text made of blocks of new text, each in place of the lines from \<open>s\<close> to \<open>e\<close>, and of the other lines of \<open>L\<close>.
\<close>

fun assemble :: "text16 list \<Rightarrow> nat \<Rightarrow> (nat \<times> nat \<times> text16) list \<Rightarrow> text16" where
  "assemble L i [] = concat (drop i L)"
| "assemble L i ((s, e, t) # bs) = concat (take (s - i) (drop i L)) @ t @ assemble L e bs"

fun blocks_ok :: "text16 list \<Rightarrow> matched_edit list \<Rightarrow> nat \<Rightarrow> (nat \<times> nat \<times> text16) list \<Rightarrow> bool" where
  "blocks_ok L rs i [] = True"
| "blocks_ok L rs i ((s, e, t) # bs) = (i \<le> s \<and> s < e \<and> e \<le> length L \<and>
     (\<forall>k. s \<le> k \<longrightarrow> k < e \<longrightarrow> (\<exists>r \<in> set rs. touches L k r)) \<and> blocks_ok L rs e bs)"

definition block_of :: "text16 list \<Rightarrow> line_group \<Rightarrow> nat \<times> nat \<times> text16" where
  "block_of L g = (lg_startLine g, lg_endLine g, splice_from (line_start L (lg_startLine g))
     (concat (take (lg_endLine g - lg_startLine g) (drop (lg_startLine g) L))) (lg_replacements g))"

lemma drop_line_start: "drop (line_start L i) (concat L) = concat (drop i L)"
proof -
  have "concat L = concat (take i L) @ concat (drop i L)" by (simp flip: concat_append)
  then show ?thesis by (simp add: line_start_def)
qed

lemma take_line_start: "i \<le> j \<Longrightarrow> take (line_start L j - line_start L i) (concat (drop i L)) = concat (take (j - i) (drop i L))"
proof -
  assume "i \<le> j"
  then have "take j L = take i L @ take (j - i) (drop i L)" using take_add [of i "j - i" L] by simp
  then have "line_start L j - line_start L i = length (concat (take (j - i) (drop i L)))" by (simp add: line_start_def)
  moreover have "concat (drop i L) = concat (take (j - i) (drop i L)) @ concat (drop (j - i) (drop i L))"
    using append_take_drop_id [of "j - i" "drop i L"] by (metis concat_append)
  ultimately show ?thesis by simp
qed

lemma overlay_blocks:
  "groups_ok L i gs \<Longrightarrow> overlay_groups K (concat L) (line_spans 0 L) i gs = assemble K i (map (block_of L) gs)"
proof (induction gs arbitrary: i)
  case (Cons g gs)
  let ?s = "lg_startLine g" and ?e = "lg_endLine g"
  have g: "?s < ?e" "?e \<le> length L" "fits_in (line_start L ?s) (lg_replacements g) (line_start L ?e)"
    using Cons.prems by (auto simp: group_ok_def)
  let ?t = "concat (take (?e - ?s) (drop ?s L))"
  have slice: "take (line_start L ?e - line_start L ?s) (drop (line_start L ?s) (concat L)) = ?t"
    using take_line_start [of ?s ?e L] g by (simp add: drop_line_start)
  then have len: "line_start L ?s + length ?t = line_start L ?e"
    using line_start_mono [of ?s ?e L] line_start_mono [of ?e "length L" L] g by (auto simp: line_start_all dest!: arg_cong [of _ _ length])
  have "applyReplacements ?t (lg_replacements g) (line_start L ?s) = splice_from (line_start L ?s) ?t (lg_replacements g)"
    using applyReplacements_splice [of "line_start L ?s" "lg_replacements g" "line_start L ?s" ?t] g len by simp
  then show ?case using Cons g slice by (simp add: line_spans_nth block_of_def)
qed simp

lemma blocks_of_groups:
  "groups_ok L i gs \<Longrightarrow> set (concat (map lg_replacements gs)) \<subseteq> set rs \<Longrightarrow> blocks_ok L rs i (map (block_of L) gs)"
proof (induction gs arbitrary: i)
  case (Cons g gs)
  have "\<exists>r \<in> set rs. touches L k r" if "lg_startLine g \<le> k" "k < lg_endLine g" for k
    using Cons.prems that unfolding groups_ok.simps group_ok_def by fastforce
  then show ?case using Cons by (auto simp: block_of_def group_ok_def)
qed simp

text \<open>Put into the lines of the base itself, the blocks are the replacements.\<close>

lemma assemble_base:
  "groups_ok L i gs \<Longrightarrow>
   assemble L i (map (block_of L) gs) = splice_from (line_start L i) (concat (drop i L)) (concat (map lg_replacements gs)) \<and>
   fits_in (line_start L i) (concat (map lg_replacements gs)) (length (concat L))"
proof (induction gs arbitrary: i)
  case Nil
  then show ?case using line_start_mono [of i "max i (length L)" L] by (simp add: line_start_all)
next
  case (Cons g gs)
  let ?s = "lg_startLine g" and ?e = "lg_endLine g" and ?rs = "lg_replacements g" and ?qs = "concat (map lg_replacements gs)"
  have g: "i \<le> ?s" "?s < ?e" "fits_in (line_start L ?s) ?rs (line_start L ?e)" "groups_ok L ?e gs"
    using Cons.prems by (auto simp: group_ok_def)
  note ih = Cons.IH [OF g(4)]
  have i: "line_start L i \<le> line_start L ?s" using g(1) by (rule line_start_mono)
  have all: "fits_in (line_start L ?s) (?rs @ ?qs) (length (concat L))" using g(3) ih by (auto simp: fits_in_append)
  then have fit: "fits_in (line_start L i) (?rs @ ?qs) (length (concat L))"
    using i fits_in_front by blast
  have "splice_from (line_start L i) (concat (drop i L)) (?rs @ ?qs) =
      take (line_start L ?s - line_start L i) (concat (drop i L)) @
      splice_from (line_start L ?s) (drop (line_start L ?s - line_start L i) (concat (drop i L))) (?rs @ ?qs)"
    by (rule splice_skip [OF all i])
  moreover have "drop (line_start L ?s - line_start L i) (concat (drop i L)) = concat (drop ?s L)"
    using i by (simp flip: drop_line_start)
  moreover have "splice_from (line_start L ?s) (concat (drop ?s L)) (?rs @ ?qs) =
      splice_from (line_start L ?s) (concat (take (?e - ?s) (drop ?s L))) ?rs @ splice_from (line_start L ?e) (concat (drop ?e L)) ?qs"
    using splice_append [OF g(3) conjunct2 [OF ih], of "concat (drop ?s L)"] take_line_start [of ?s ?e L] g(2)
      line_start_mono [of ?s ?e L] by (simp flip: drop_line_start)
  ultimately show ?case using ih fit take_line_start [OF g(1), of L] by (simp add: block_of_def)
qed

section \<open>Edits\<close>

lemma check_overlaps_fits:
  "check_overlaps rs = Inr () \<Longrightarrow> (\<And>r. rs \<noteq> [] \<Longrightarrow> pos \<le> me_matchIndex (hd rs)) \<Longrightarrow> \<exists>n. fits_in pos rs n"
proof (induction rs arbitrary: pos rule: check_overlaps.induct)
  case (1 p c rest)
  then have "me_matchIndex p + me_matchLength p \<le> me_matchIndex c" "check_overlaps (c # rest) = Inr ()"
    by (auto split: if_splits)
  then show ?case using 1(1) [of "me_matchIndex p + me_matchLength p"] 1(3) by auto
qed auto

lemma fits_in_bound: "fits_in pos rs m \<Longrightarrow> pos \<le> n \<Longrightarrow> \<forall>r \<in> set rs. me_matchIndex r + me_matchLength r \<le> n \<Longrightarrow> fits_in pos rs n"
  by (induction pos rs m rule: fits_in.induct) auto

definition uses_fuzzy :: "(text16 \<Rightarrow> text16) \<Rightarrow> text16 \<Rightarrow> text_edit list \<Rightarrow> bool" where
  "uses_fuzzy nfkc content edits \<longleftrightarrow>
     (\<exists>e \<in> set edits. fm_usedFuzzyMatch (fuzzyFindText nfkc content (normalizeToLF (ed_oldText e))))"

lemma uses_fuzzy_list_ex:
  "list_ex (\<lambda>e. fm_usedFuzzyMatch (fuzzyFindText nfkc content (ed_oldText e))) (map normalized_edit edits) = uses_fuzzy nfkc content edits"
  by (auto simp: uses_fuzzy_def list_ex_iff normalized_edit_def)

text \<open>What a successful call has checked.\<close>

lemma applyEdits_Inr:
  assumes "applyEditsToNormalizedContent nfkc content edits = Inr res"
    and "base = (if uses_fuzzy nfkc content edits then normalizeForFuzzyMatch nfkc content else content)"
  obtains matched n where "match_edits nfkc base (length edits) 0 (map normalized_edit edits) = Inr matched"
    "fits_in 0 (sort_key me_matchIndex matched) n" "ae_baseContent res = content" "ae_newContent res \<noteq> content"
    "(if uses_fuzzy nfkc content edits then applyReplacementsPreservingUnchangedLines content base (sort_key me_matchIndex matched)
      else Inr (applyReplacements base (sort_key me_matchIndex matched) 0)) = Inr (ae_newContent res)"
proof -
  obtain matched new where m: "match_edits nfkc base (length edits) 0 (map normalized_edit edits) = Inr matched"
    "check_overlaps (sort_key me_matchIndex matched) = Inr ()"
    "(if uses_fuzzy nfkc content edits then applyReplacementsPreservingUnchangedLines content base (sort_key me_matchIndex matched)
      else Inr (applyReplacements base (sort_key me_matchIndex matched) 0)) = Inr new"
    "content \<noteq> new" "res = \<lparr>ae_baseContent = content, ae_newContent = new\<rparr>"
    using assms(1) unfolding applyEditsToNormalizedContent_def Let_def uses_fuzzy_list_ex bind_result_Inr_iff assms(2) [symmetric]
    by (auto split: if_splits)
  obtain n where "fits_in 0 (sort_key me_matchIndex matched) n"
    using check_overlaps_fits [OF m(2), of 0] by auto
  then show thesis using that [of matched n] m by simp
qed

text \<open>
  C34. Edits that need the normalised text: a successful call rewrites blocks of lines and copies all other lines, with every
  character, from the original text. Every line of a block is touched by a replacement, and the same blocks put into the normalised
  text are exactly the replacements made there. Nothing is assumed about the normalisation.
\<close>

theorem fuzzy_edit_keeps_lines:
  assumes "applyEditsToNormalizedContent nfkc content edits = Inr res" "uses_fuzzy nfkc content edits"
    and "base = normalizeForFuzzyMatch nfkc content"
  shows "\<exists>matched blocks. match_edits nfkc base (length edits) 0 (map normalized_edit edits) = Inr matched \<and>
    blocks_ok (splitLinesWithEndings base) matched 0 blocks \<and>
    length (splitLinesWithEndings content) = length (splitLinesWithEndings base) \<and>
    ae_newContent res = assemble (splitLinesWithEndings content) 0 blocks \<and>
    applyReplacements base (sort_key me_matchIndex matched) 0 = assemble (splitLinesWithEndings base) 0 blocks"
proof -
  let ?L = "splitLinesWithEndings base"
  have b: "base = (if uses_fuzzy nfkc content edits then normalizeForFuzzyMatch nfkc content else content)"
    using assms(2,3) by simp
  obtain matched n where
    m: "match_edits nfkc base (length edits) 0 (map normalized_edit edits) = Inr matched"
    and fit: "fits_in 0 (sort_key me_matchIndex matched) n"
    and new: "(if uses_fuzzy nfkc content edits then applyReplacementsPreservingUnchangedLines content base (sort_key me_matchIndex matched)
      else Inr (applyReplacements base (sort_key me_matchIndex matched) 0)) = Inr (ae_newContent res)"
    by (rule applyEdits_Inr [OF assms(1) b])
  let ?rs = "sort_key me_matchIndex matched"
  obtain groups where g: "length (splitLinesWithEndings content) = length ?L"
    "group_replacements (line_spans 0 ?L) [] ?rs = Inr groups"
    "ae_newContent res = overlay_groups (splitLinesWithEndings content) (concat ?L) (line_spans 0 ?L) 0 groups"
    using new assms(2) by (auto simp: applyReplacementsPreservingUnchangedLines_def getLineSpans_def Let_def bind_result_Inr_iff
        sort_key_id_if_sorted split: if_splits)
  have ok: "groups_ok ?L 0 groups" "concat (map lg_replacements groups) = ?rs"
    using group_replacements_ok [OF g(2) _ fit] by (auto simp: groups_upto_def)
  have base: "applyReplacements base ?rs 0 = splice_from 0 base ?rs"
    using applyReplacements_splice [of 0 ?rs 0 base] assemble_base [OF ok(1)] ok(2) by (simp add: line_start_def)
  show ?thesis
    using m blocks_of_groups [OF ok(1), of matched] ok(2) g assemble_base [OF ok(1)] base
    by (intro exI [of _ matched] exI [of _ "map (block_of ?L) groups"])
      (auto simp: overlay_blocks [OF ok(1), unfolded concat_lines] line_start_def)
qed

text \<open>Pieces between gaps.\<close>

fun weave :: "text16 list \<Rightarrow> text16 list \<Rightarrow> text16" where
  "weave (g # gs) (p # ps) = g @ p @ weave gs ps"
| "weave (g # gs) [] = g"
| "weave [] ps = []"

definition matches_edit :: "text16 \<Rightarrow> matched_edit \<Rightarrow> text_edit \<Rightarrow> bool" where
  "matches_edit content m e \<longleftrightarrow> take (me_matchLength m) (drop (me_matchIndex m) content) = ed_oldText e \<and>
     me_matchIndex m + me_matchLength m \<le> length content \<and> me_newText m = ed_newText e"

lemma match_edits_exact:
  "match_edits nfkc content n i es = Inr matched \<Longrightarrow>
   \<forall>e \<in> set es. \<not> fm_usedFuzzyMatch (fuzzyFindText nfkc content (ed_oldText e)) \<Longrightarrow> list_all2 (matches_edit content) matched es"
proof (induction es arbitrary: i matched)
  case (Cons e es)
  obtain rest where m: "fm_found (fuzzyFindText nfkc content (ed_oldText e))" "match_edits nfkc content n (Suc i) es = Inr rest"
    "matched = \<lparr>me_editIndex = i, me_matchIndex = nat (fm_index (fuzzyFindText nfkc content (ed_oldText e))),
      me_matchLength = fm_matchLength (fuzzyFindText nfkc content (ed_oldText e)), me_newText = ed_newText e\<rparr> # rest"
    using Cons.prems(1) by (auto simp: Let_def bind_result_Inr_iff split: if_splits)
  obtain k where "index_of (ed_oldText e) content = Some k"
    using m(1) Cons.prems(2) by (auto simp: fuzzyFindText_def Let_def split: option.splits)
  then have "matches_edit content (hd matched) e"
    using index_of_Some [of "ed_oldText e" content k] m(3) by (simp add: fuzzyFindText_def matches_edit_def)
  then show ?case using Cons.IH [OF m(2)] Cons.prems(2) m(3) by simp
qed simp

lemma splice_weave:
  "list_all2 (matches_edit content) ms es \<Longrightarrow> fits_in p ms (length content) \<Longrightarrow>
   \<exists>gaps. length gaps = Suc (length es) \<and> drop p content = weave gaps (map ed_oldText es) \<and>
     splice_from p (drop p content) ms = weave gaps (map ed_newText es)"
proof (induction ms es arbitrary: p rule: list_all2_induct)
  case Nil
  show ?case by (intro exI [of _ "[drop p content]"]) simp
next
  case (Cons m ms e es)
  let ?i = "me_matchIndex m" and ?j = "me_matchIndex m + me_matchLength m"
  obtain gaps where g: "length gaps = Suc (length es)" "drop ?j content = weave gaps (map ed_oldText es)"
    "splice_from ?j (drop ?j content) ms = weave gaps (map ed_newText es)"
    using Cons.IH [of ?j] Cons.prems by auto
  have p: "p \<le> ?i" using Cons.prems by simp
  have "drop p content = take (?i - p) (drop p content) @ drop ?i content"
    using append_take_drop_id [of "?i - p" "drop p content"] p by simp
  also have "drop ?i content = ed_oldText e @ drop ?j content"
    using append_take_drop_id [of "me_matchLength m" "drop ?i content"] Cons.hyps by (simp add: matches_edit_def add.commute)
  finally show ?case using g p Cons.hyps
    by (intro exI [of _ "take (?i - p) (drop p content) # gaps"]) (simp add: matches_edit_def)
qed

text \<open>
  C35. Edits that match exactly: a successful call replaces every old text by its new text, each at one place, the places
  disjoint, and keeps everything between them; the order of the edits in the call does not matter, and the content changes.
\<close>

theorem exact_edit_replaces:
  assumes "applyEditsToNormalizedContent nfkc content edits = Inr res" "\<not> uses_fuzzy nfkc content edits"
  shows "\<exists>es gaps. mset es = mset (map normalized_edit edits) \<and> length gaps = Suc (length es) \<and>
    content = weave gaps (map ed_oldText es) \<and> ae_newContent res = weave gaps (map ed_newText es) \<and> ae_newContent res \<noteq> content"
proof -
  have b: "content = (if uses_fuzzy nfkc content edits then normalizeForFuzzyMatch nfkc content else content)"
    using assms(2) by simp
  obtain matched n where
    m: "match_edits nfkc content (length edits) 0 (map normalized_edit edits) = Inr matched"
    and fit: "fits_in 0 (sort_key me_matchIndex matched) n" and changed: "ae_newContent res \<noteq> content"
    and new: "(if uses_fuzzy nfkc content edits
      then applyReplacementsPreservingUnchangedLines content content (sort_key me_matchIndex matched)
      else Inr (applyReplacements content (sort_key me_matchIndex matched) 0)) = Inr (ae_newContent res)"
    by (rule applyEdits_Inr [OF assms(1) b])
  have all: "list_all2 (matches_edit content) matched (map normalized_edit edits)"
    by (rule match_edits_exact [OF m]) (use assms(2) in \<open>auto simp: uses_fuzzy_def normalized_edit_def\<close>)
  obtain es where es: "list_all2 (matches_edit content) (sort_key me_matchIndex matched) es" "mset es = mset (map normalized_edit edits)"
    using list_all2_reorder_left_invariance [OF all mset_sort] by blast
  have "\<forall>r \<in> set (sort_key me_matchIndex matched). me_matchIndex r + me_matchLength r \<le> length content"
    using all by (auto simp: list_all2_conv_all_nth in_set_conv_nth matches_edit_def)
  then have fits: "fits_in 0 (sort_key me_matchIndex matched) (length content)" using fits_in_bound [OF fit] by simp
  have "ae_newContent res = splice_from 0 content (sort_key me_matchIndex matched)"
    using applyReplacements_splice [of 0 _ 0 content] fits new assms(2) by simp
  then show ?thesis using splice_weave [OF es(1) fits] es(2) changed by auto
qed

section \<open>A last line of white space\<close>

lemma length_lines: "length (splitLinesWithEndings s) = length (split_nl s) - (if last (split_nl s) = [] then 1 else 0)"
proof (induction s)
  case (Cons c s)
  obtain l ls where sp: "split_nl s = l # ls" by (cases "split_nl s") auto
  have none: "splitLinesWithEndings s = [] \<Longrightarrow> s = []" using concat_lines [of s] by auto
  show ?case
  proof (cases "c = newline16")
    case True
    then show ?thesis using Cons sp by (cases ls) auto
  next
    case False
    show ?thesis
    proof (cases "splitLinesWithEndings s")
      case Nil
      then show ?thesis using False none by auto
    next
      case (Cons k ks)
      have "ls = [] \<Longrightarrow> l \<noteq> []" using join_split [of s] sp Cons by auto
      then show ?thesis using False Cons \<open>length _ = _\<close> sp by (cases ls) (auto split: if_splits)
    qed
  qed
qed simp

lemma split_map: "(\<And>c. f c = newline16 \<longleftrightarrow> c = newline16) \<Longrightarrow> split_nl (map f s) = map (map f) (split_nl s)"
proof (induction s)
  case (Cons c s)
  then show ?case by (simp add: hd_map map_tl)
qed simp

lemma fold_newline [simp]:
  "fold_single c = newline16 \<longleftrightarrow> c = newline16" "fold_double c = newline16 \<longleftrightarrow> c = newline16"
  "fold_dash c = newline16 \<longleftrightarrow> c = newline16" "fold_space c = newline16 \<longleftrightarrow> c = newline16"
  by (auto simp: fold_single_def fold_double_def fold_dash_def fold_space_def newline16_def word_le_nat_alt)

lemma split_normalized:
  "split_nl (normalizeForFuzzyMatch nfkc s) =
     map (\<lambda>l. map fold_space (map fold_dash (map fold_double (map fold_single (trim_end16 l))))) (split_nl (nfkc s))"
proof -
  have "newline16 \<notin> set (trim_end16 l)" if "l \<in> set (split_nl (nfkc s))" for l
    using split_no_newline [OF that] by (auto simp: trim_end16_def dest: set_dropWhileD)
  then have "split_nl (join_nl (map trim_end16 (split_nl (nfkc s)))) = map trim_end16 (split_nl (nfkc s))"
    by (intro split_join) auto
  then show ?thesis by (simp add: normalizeForFuzzyMatch_def split_map)
qed

lemma last_split_append: "newline16 \<notin> set ws \<Longrightarrow> last (split_nl (a @ newline16 # ws)) = ws"
proof (induction a)
  case Nil
  then have "split_nl ws = [ws]" using split_join [of "[ws]"] by simp
  then show ?case by simp
next
  case (Cons c a)
  have "tl (split_nl (a @ newline16 # ws)) \<noteq> []"
  proof
    assume "tl (split_nl (a @ newline16 # ws)) = []"
    then have one: "split_nl (a @ newline16 # ws) = [hd (split_nl (a @ newline16 # ws))]" by (metis list.exhaust_sel split_nl_not_Nil)
    then have "a @ newline16 # ws = hd (split_nl (a @ newline16 # ws))" by (metis join_nl.simps(2) join_split)
    moreover have "newline16 \<notin> set (hd (split_nl (a @ newline16 # ws)))" by (rule split_no_newline [of _ "a @ newline16 # ws"]) simp
    ultimately show False by (metis in_set_conv_decomp)
  qed
  then show ?case using Cons by (auto simp: last_tl)
qed

text \<open>
  In a text that ends with a line of white space and no line break, no edit that needs the normalised text is ever made: the
  white space disappears from the normalised text and with it the last line, so that the two texts have different numbers of
  lines. The text is one that the Unicode normalisation leaves alone.
\<close>

lemma blank_last_line_blocks_fuzzy_edits:
  assumes "content = a @ newline16 # ws" "ws \<noteq> []" "\<forall>c \<in> set ws. is_space16 c \<and> c \<noteq> newline16"
    and "nfkc content = content" "uses_fuzzy nfkc content edits"
  shows "\<exists>e. applyEditsToNormalizedContent nfkc content edits = Inl e"
proof (rule ccontr)
  assume "\<nexists>e. applyEditsToNormalizedContent nfkc content edits = Inl e"
  then obtain res where res: "applyEditsToNormalizedContent nfkc content edits = Inr res"
    by (cases "applyEditsToNormalizedContent nfkc content edits") auto
  let ?base = "normalizeForFuzzyMatch nfkc content"
  have b: "?base = (if uses_fuzzy nfkc content edits then normalizeForFuzzyMatch nfkc content else content)" using assms(5) by simp
  obtain matched n where "(if uses_fuzzy nfkc content edits
      then applyReplacementsPreservingUnchangedLines content ?base (sort_key me_matchIndex matched)
      else Inr (applyReplacements ?base (sort_key me_matchIndex matched) 0)) = Inr (ae_newContent res)"
    by (rule applyEdits_Inr [OF res b])
  then have same: "length (splitLinesWithEndings content) = length (splitLinesWithEndings ?base)"
    using assms(5) by (auto simp: applyReplacementsPreservingUnchangedLines_def getLineSpans_def Let_def split: if_splits)
  have last: "last (split_nl content) = ws" unfolding assms(1) by (rule last_split_append) (use assms(3) in blast)
  moreover have "trim_end16 ws = []" using assms(3) by (simp add: trim_end16_def dropWhile_eq_Nil_conv)
  ultimately have "last (split_nl ?base) = []" using assms(4) by (simp add: split_normalized last_map)
  moreover have "length (split_nl ?base) = length (split_nl content)" using assms(4) by (simp add: split_normalized)
  ultimately show False using same last assms(2) unfolding length_lines by (cases "length (split_nl content)") auto
qed

section \<open>Examples\<close>

definition edit_of :: "string \<Rightarrow> string \<Rightarrow> text_edit" where
  "edit_of old new = \<lparr>ed_oldText = ascii16 old, ed_newText = ascii16 new\<rparr>"

theorem exact_edit_replaces_witness:
  "\<exists>es gaps. mset es = mset [edit_of ''b'' ''x'', edit_of ''a'' ''y''] \<and> ascii16 ''abc'' = weave gaps (map ed_oldText es) \<and>
     ascii16 ''yxc'' = weave gaps (map ed_newText es)"
proof -
  have run: "applyEditsToNormalizedContent id (ascii16 ''abc'') [edit_of ''b'' ''x'', edit_of ''a'' ''y''] =
      Inr \<lparr>ae_baseContent = ascii16 ''abc'', ae_newContent = ascii16 ''yxc''\<rparr>" by code_simp
  have exact: "\<not> uses_fuzzy id (ascii16 ''abc'') [edit_of ''b'' ''x'', edit_of ''a'' ''y'']" by code_simp
  have norm: "map normalized_edit [edit_of ''b'' ''x'', edit_of ''a'' ''y''] = [edit_of ''b'' ''x'', edit_of ''a'' ''y'']" by code_simp
  show ?thesis using exact_edit_replaces [OF run exact] unfolding norm by auto
qed

definition smart_text :: "text16 \<Rightarrow> text16" where
  "smart_text end_text = ascii16 ''a '' @ [newline16, 0x201c] @ ascii16 ''b'' @ [0x201d, newline16] @ end_text"

theorem fuzzy_edit_keeps_lines_witness:
  "\<exists>blocks. ascii16 ''a '' @ [newline16] @ ascii16 ''c'' @ [newline16] = assemble [ascii16 ''a '' @ [newline16], [0x201c] @ ascii16 ''b'' @ [0x201d, newline16]] 0 blocks"
proof -
  let ?edits = "[\<lparr>ed_oldText = [0x22] @ ascii16 ''b'' @ [0x22], ed_newText = ascii16 ''c''\<rparr>]"
  have run: "applyEditsToNormalizedContent id (smart_text []) ?edits =
      Inr \<lparr>ae_baseContent = smart_text [], ae_newContent = ascii16 ''a '' @ [newline16] @ ascii16 ''c'' @ [newline16]\<rparr>" by code_simp
  have fuzzy: "uses_fuzzy id (smart_text []) ?edits" by code_simp
  have ls: "splitLinesWithEndings (smart_text []) = [ascii16 ''a '' @ [newline16], [0x201c] @ ascii16 ''b'' @ [0x201d, newline16]]" by code_simp
  show ?thesis using fuzzy_edit_keeps_lines [OF run fuzzy refl] unfolding ls by auto
qed

text \<open>
  An old text must be unique, but occurrences are counted without overlaps: in \<open>aaa\<close> the text \<open>aa\<close> occurs twice and is
  replaced at its first place. And an old text of white space only, which is nowhere in a short text, is taken as found at the start.
\<close>

lemma overlapping_occurrences_accepted:
  "applyEditsToNormalizedContent id (ascii16 ''aaa'') [edit_of ''aa'' ''b''] =
     Inr \<lparr>ae_baseContent = ascii16 ''aaa'', ae_newContent = ascii16 ''ba''\<rparr>"
  by code_simp

lemma absent_white_space_inserted:
  "applyEditsToNormalizedContent id (ascii16 ''a'') [edit_of '' '' ''x''] =
     Inr \<lparr>ae_baseContent = ascii16 ''a'', ae_newContent = ascii16 ''xa''\<rparr>"
  by code_simp

section \<open>Line endings\<close>

lemma crlf_to_lf_id: "carriage16 \<notin> set t \<Longrightarrow> crlf_to_lf t = t"
  by (induction t rule: crlf_to_lf.induct) auto

lemma newline_not_carriage [simp]: "newline16 \<noteq> carriage16" "carriage16 \<noteq> newline16"
  by (simp_all add: newline16_def carriage16_def)

lemma normalize_restored:
  assumes "carriage16 \<notin> set t"
  shows "normalizeToLF (restoreLineEndings t ending) = t"
proof -
  have clean: "map (\<lambda>c. if c = carriage16 then newline16 else c) t = t" by (rule map_idI) (use assms in auto)
  have "crlf_to_lf (concat (map (\<lambda>c. if c = newline16 then [carriage16, newline16] else [c]) t)) = t"
    using assms
  proof (induction t)
    case (Cons c t)
    then show ?case by (cases "concat (map (\<lambda>c. if c = newline16 then [carriage16, newline16] else [c]) t)") auto
  qed simp
  then show ?thesis using crlf_to_lf_id [OF assms] clean by (auto simp: normalizeToLF_def restoreLineEndings_def)
qed

lemma index_of_crlf:
  assumes "carriage16 \<notin> set t" "newline16 \<in> set t"
  shows "\<exists>k. index_of [carriage16, newline16] (restoreLineEndings t CRLF) = Some k \<and> index_of [newline16] (restoreLineEndings t CRLF) = Some (Suc k)"
  using assms
proof (induction t)
  case (Cons c t)
  show ?case
  proof (cases "c = newline16")
    case True
    then show ?thesis by (simp add: restoreLineEndings_def index_of.simps)
  next
    case False
    then obtain k where k: "index_of [carriage16, newline16] (restoreLineEndings t CRLF) = Some k"
      "index_of [newline16] (restoreLineEndings t CRLF) = Some (Suc k)" using Cons by auto
    have "restoreLineEndings (c # t) CRLF = c # restoreLineEndings t CRLF" using False by (simp add: restoreLineEndings_def)
    then show ?thesis using k False Cons.prems(1) by (auto simp: index_of.simps [of _ "c # _"])
  qed
qed simp

lemma index_of_lf_only: "carriage16 \<notin> set t \<Longrightarrow> index_of [carriage16, newline16] t = None"
proof (induction t)
  case (Cons c t)
  then have "\<not> starts_with [carriage16, newline16] (c # t)" by auto
  then show ?case using Cons by (simp add: index_of.simps [of _ "c # t"])
qed (simp add: index_of.simps)

lemma detect_restored:
  assumes "carriage16 \<notin> set t" "ending = LF \<or> newline16 \<in> set t"
  shows "detectLineEnding (restoreLineEndings t ending) = ending"
proof (cases ending)
  case CRLF
  then show ?thesis using index_of_crlf [OF assms(1)] assms(2) by (auto simp: detectLineEnding_def)
next
  case LF
  then show ?thesis using index_of_lf_only [OF assms(1)]
    by (auto simp: detectLineEnding_def restoreLineEndings_def split: option.splits)
qed

text \<open>
  C36. A file whose line endings are all LF or all CRLF keeps them, and its byte order mark: what the edit tool writes is the edited
  text with the line endings and the mark put back, and an edit that fails in the text fails in the file. (No other carriage return
  may occur in the file: see \<open>lone_returns_rewritten\<close>.)
\<close>

theorem edit_keeps_line_endings:
  assumes "carriage16 \<notin> set t" "ending = LF \<or> newline16 \<in> set t"
    and "bom = [0xfeff] \<or> bom = [] \<and> \<not> starts_with [0xfeff] t"
  shows "edited_text nfkc (bom @ restoreLineEndings t ending) edits =
    map_sum id (\<lambda>applied. (applied, bom @ restoreLineEndings (ae_newContent applied) ending)) (applyEditsToNormalizedContent nfkc t edits)"
proof -
  have "starts_with [0xfeff] (restoreLineEndings t ending) \<longleftrightarrow> starts_with [0xfeff] t"
    by (cases t) (auto simp: restoreLineEndings_def newline16_def carriage16_def)
  then have "stripBom (bom @ restoreLineEndings t ending) = (bom, restoreLineEndings t ending)"
    using assms(3) by (auto simp: stripBom_def)
  then show ?thesis
    by (cases "applyEditsToNormalizedContent nfkc t edits")
      (simp_all add: edited_text_def normalize_restored [OF assms(1)] detect_restored [OF assms(1,2)])
qed

theorem edit_keeps_line_endings_witness:
  "edited_text id ([0xfeff] @ restoreLineEndings (ascii16 ''a'' @ newline16 # ascii16 ''b'') CRLF) [edit_of ''b'' ''c''] =
     map_sum id (\<lambda>applied. (applied, [0xfeff] @ restoreLineEndings (ae_newContent applied) CRLF))
       (applyEditsToNormalizedContent id (ascii16 ''a'' @ newline16 # ascii16 ''b'') [edit_of ''b'' ''c''])"
  by (rule edit_keeps_line_endings) code_simp+

text \<open>With mixed line endings the tool rewrites those of lines it does not touch.\<close>

lemma mixed_line_endings_rewritten:
  "map_sum id snd (edited_text id (ascii16 ''a'' @ [carriage16, newline16] @ ascii16 ''b'' @ [newline16] @ ascii16 ''c'') [edit_of ''c'' ''d'']) =
     Inr (ascii16 ''a'' @ [carriage16, newline16] @ ascii16 ''b'' @ [carriage16, newline16] @ ascii16 ''d'')"
  by code_simp

text \<open>A file whose lines end with carriage returns alone comes back with line feeds, those of lines the edit does not touch too.\<close>

lemma lone_returns_rewritten:
  "map_sum id snd (edited_text id (ascii16 ''a'' @ [carriage16] @ ascii16 ''b'' @ [carriage16] @ ascii16 ''c'') [edit_of ''c'' ''d'']) =
     Inr (ascii16 ''a'' @ [newline16] @ ascii16 ''b'' @ [newline16] @ ascii16 ''d'')"
  by code_simp

section \<open>The displayed diff\<close>

definition is_at :: "text16 list \<Rightarrow> nat \<Rightarrow> text16 list \<Rightarrow> bool" where
  "is_at L pos ls \<longleftrightarrow> take (length ls) (drop pos L) = ls"

lemma is_at_Nil [simp]: "is_at L pos []"
  by (simp add: is_at_def)

lemma is_at_append: "is_at L pos (xs @ ys) \<longleftrightarrow> is_at L pos xs \<and> is_at L (pos + length xs) ys"
proof
  assume a: "is_at L pos (xs @ ys)"
  then have eq: "take (length xs) (drop pos L) @ take (length ys) (drop (length xs) (drop pos L)) = xs @ ys"
    by (simp add: is_at_def take_add)
  moreover have "length (take (length xs) (drop pos L)) = length xs"
    using arg_cong [OF a [unfolded is_at_def], of length] by simp
  ultimately show "is_at L pos xs \<and> is_at L (pos + length xs) ys" by (simp add: is_at_def add.commute)
qed (simp add: is_at_def take_add add.commute)

fun row_ok :: "text16 list \<Rightarrow> text16 list \<Rightarrow> diff_row \<Rightarrow> bool" where
  "row_ok old new (AddedRow n line) = (0 < n \<and> n \<le> length new \<and> new ! (n - 1) = line)"
| "row_ok old new (RemovedRow n line) = (0 < n \<and> n \<le> length old \<and> old ! (n - 1) = line)"
| "row_ok old new (ContextRow n line) = (0 < n \<and> n \<le> length old \<and> old ! (n - 1) = line)"
| "row_ok old new GapRow = True"

definition diff_inv :: "text16 list \<Rightarrow> text16 list \<Rightarrow> nat \<Rightarrow> nat \<Rightarrow> diff_state \<Rightarrow> bool" where
  "diff_inv old new i j st \<longleftrightarrow> df_old st = Suc i \<and> df_new st = Suc j \<and> (\<forall>row \<in> set (df_output st). row_ok old new row)"

lemma is_at_ConsD: "is_at L i (x # xs) \<Longrightarrow> i < length L \<and> L ! i = x \<and> is_at L (Suc i) xs"
proof -
  assume a: "is_at L i (x # xs)"
  then have "i < length L" by (auto simp: is_at_def intro: ccontr)
  then show ?thesis using a by (simp add: is_at_def flip: Cons_nth_drop_Suc)
qed

lemma show_context_inv: "diff_inv old new i j st \<Longrightarrow> is_at old i ls \<Longrightarrow> diff_inv old new (i + length ls) (j + length ls) (fold show_context ls st)"
proof (induction ls arbitrary: i j st)
  case (Cons l ls)
  have "diff_inv old new (Suc i) (Suc j) (show_context l st)"
    using Cons.prems(1) is_at_ConsD [OF Cons.prems(2)] by (auto simp: diff_inv_def show_context_def)
  then show ?case using Cons.IH is_at_ConsD [OF Cons.prems(2)] by fastforce
qed simp

lemma show_added_inv: "diff_inv old new i j st \<Longrightarrow> is_at new j ls \<Longrightarrow> diff_inv old new i (j + length ls) (fold (show_change True) ls st)"
proof (induction ls arbitrary: j st)
  case (Cons l ls)
  have "diff_inv old new i (Suc j) (show_change True l st)"
    using Cons.prems(1) is_at_ConsD [OF Cons.prems(2)] by (auto simp: diff_inv_def show_change_def)
  then show ?case using Cons.IH is_at_ConsD [OF Cons.prems(2)] by fastforce
qed simp

lemma show_removed_inv: "diff_inv old new i j st \<Longrightarrow> is_at old i ls \<Longrightarrow> diff_inv old new (i + length ls) j (fold (show_change False) ls st)"
proof (induction ls arbitrary: i st)
  case (Cons l ls)
  have "diff_inv old new (Suc i) j (show_change False l st)"
    using Cons.prems(1) is_at_ConsD [OF Cons.prems(2)] by (auto simp: diff_inv_def show_change_def)
  then show ?case using Cons.IH is_at_ConsD [OF Cons.prems(2)] by fastforce
qed simp

lemma show_gap_inv: "diff_inv old new i j st \<Longrightarrow> diff_inv old new (i + k) (j + k) (show_gap k st)"
  by (auto simp: diff_inv_def show_gap_def skip_lines_def)

lemma skip_inv: "diff_inv old new i j st \<Longrightarrow> diff_inv old new (i + k) (j + k) (skip_lines k st)"
  by (auto simp: diff_inv_def skip_lines_def)

lemma diff_inv_flags [simp]:
  "diff_inv old new i j (st\<lparr>df_lastWasChange := b\<rparr>) = diff_inv old new i j st"
  "diff_inv old new i j (st\<lparr>df_firstChanged := f\<rparr>) = diff_inv old new i j st"
  by (simp_all add: diff_inv_def)

lemma show_common_inv:
  assumes "diff_inv old new i j st" "is_at old i (raw_lines p)" "\<not> dp_added p" "\<not> dp_removed p"
  shows "diff_inv old new (i + length (raw_lines p)) (j + length (raw_lines p)) (show_part c change p st)"
proof -
  let ?raw = "raw_lines p"
  have lead: "is_at old i (take c ?raw)"
    using assms(2) is_at_append [of old i "take c ?raw" "drop c ?raw"] by simp
  have trail: "is_at old (i + (length ?raw - k)) (drop (length ?raw - k) ?raw)" for k
    using assms(2) is_at_append [of old i "take (length ?raw - k) ?raw" "drop (length ?raw - k) ?raw"] by (simp add: min_def split: if_splits)
  show ?thesis
  proof (cases "df_lastWasChange st \<and> change \<and> \<not> length ?raw \<le> c * 2")
    case True
    have "diff_inv old new (i + c + (length ?raw - c - c)) (j + c + (length ?raw - c - c))
        (show_gap (length ?raw - c - c) (fold show_context (take c ?raw) st))"
    proof -
      have "length (take c ?raw) = c" using True by simp
      then show ?thesis using show_gap_inv [OF show_context_inv [OF assms(1) lead], of "length ?raw - c - c"] by metis
    qed
    moreover have "i + c + (length ?raw - c - c) = i + (length ?raw - c)" "j + c + (length ?raw - c - c) = j + (length ?raw - c)"
      using True by auto
    ultimately have "diff_inv old new (i + length ?raw) (j + length ?raw)
        (fold show_context (drop (length ?raw - c) ?raw) (show_gap (length ?raw - c - c) (fold show_context (take c ?raw) st)))"
      using show_context_inv [OF _ trail [of c]] True by fastforce
    then show ?thesis using True assms(3,4) by (simp add: show_part_def Let_def min_def)
  next
    case False
    have lead': "diff_inv old new (i + min (length ?raw) c) (j + min (length ?raw) c) (fold show_context (take c ?raw) st)"
      using show_context_inv [OF assms(1) lead] by simp
    have gap: "diff_inv old new (i + (length ?raw - c)) (j + (length ?raw - c)) (show_gap (length ?raw - c) st)"
      by (rule show_gap_inv [OF assms(1)])
    have "diff_inv old new (i + length ?raw) (j + length ?raw)
        (fold show_context (drop (length ?raw - c) ?raw) (show_gap (length ?raw - c) st))" if "c < length ?raw"
      using show_context_inv [OF gap trail [of c]] that by (simp add: min_def)
    then show ?thesis
      using False assms(3,4) show_context_inv [OF assms(1,2)] lead' show_gap_inv [OF lead', of "length ?raw - c"] skip_inv [OF assms(1)]
      by (auto simp: show_part_def Let_def min_def not_less split: if_splits)
  qed
qed

text \<open>What the parts of \<^verbatim>\<open>diffLines\<close> say: whole lines of both texts in order, each added, removed or common.\<close>

definition whole_lines :: "diff_part list \<Rightarrow> bool" where
  "whole_lines ps \<longleftrightarrow> (\<forall>p \<in> set (butlast ps). dp_value p \<noteq> [] \<and> last (dp_value p) = newline16)"

definition diff_parts_ok :: "diff_part list \<Rightarrow> text16 \<Rightarrow> text16 \<Rightarrow> bool" where
  "diff_parts_ok parts old new \<longleftrightarrow>
     concat (map dp_value (filter (\<lambda>p. \<not> dp_added p) parts)) = old \<and> whole_lines (filter (\<lambda>p. \<not> dp_added p) parts) \<and>
     concat (map dp_value (filter (\<lambda>p. \<not> dp_removed p) parts)) = new \<and> whole_lines (filter (\<lambda>p. \<not> dp_removed p) parts) \<and>
     (\<forall>p \<in> set parts. \<not> (dp_added p \<and> dp_removed p))"

definition raw_of :: "text16 \<Rightarrow> text16 list" where
  "raw_of s = (if last (split_nl s) = [] then butlast (split_nl s) else split_nl s)"

lemma raw_lines_raw_of: "raw_lines p = raw_of (dp_value p)"
  by (simp add: raw_lines_def raw_of_def Let_def)

lemma raw_of_append: "s \<noteq> [] \<Longrightarrow> last s = newline16 \<Longrightarrow> raw_of (s @ t) = raw_of s @ raw_of t"
proof -
  assume "s \<noteq> []" "last s = newline16"
  then obtain u where s: "s = u @ [newline16]" by (metis append_butlast_last_id)
  have "raw_of s = split_nl u" using split_nl_append [of u "[]"] by (simp add: s raw_of_def)
  moreover have "raw_of (s @ t) = split_nl u @ raw_of t" using split_nl_append [of u t] by (simp add: s raw_of_def butlast_append)
  ultimately show ?thesis by simp
qed

lemma raw_of_parts: "whole_lines ps \<Longrightarrow> concat (map raw_lines ps) = raw_of (concat (map dp_value ps))"
proof (induction ps)
  case Nil
  then show ?case by (simp add: raw_of_def)
next
  case (Cons p ps)
  show ?case
  proof (cases "ps = []")
    case False
    then have "dp_value p \<noteq> []" "last (dp_value p) = newline16" "whole_lines ps" using Cons.prems by (auto simp: whole_lines_def)
    then show ?thesis using Cons.IH raw_of_append by (simp add: raw_lines_raw_of)
  qed (simp add: raw_lines_raw_of)
qed

lemma show_parts_inv:
  "diff_inv old new i j st \<Longrightarrow> \<forall>p \<in> set ps. \<not> (dp_added p \<and> dp_removed p) \<Longrightarrow>
   is_at old i (concat (map raw_lines (filter (\<lambda>p. \<not> dp_added p) ps))) \<Longrightarrow>
   is_at new j (concat (map raw_lines (filter (\<lambda>p. \<not> dp_removed p) ps))) \<Longrightarrow>
   \<forall>row \<in> set (df_output (show_parts c ps st)). row_ok old new row"
proof (induction ps arbitrary: i j st)
  case Nil
  then show ?case by (simp add: diff_inv_def)
next
  case (Cons p ps)
  define change where "change = (case ps of [] \<Rightarrow> False | q # _ \<Rightarrow> dp_added q \<or> dp_removed q)"
  let ?n = "length (raw_lines p)"
  have step: "diff_inv old new (if dp_added p then i else i + ?n) (if dp_removed p then j else j + ?n) (show_part c change p st)"
  proof (cases "dp_added p \<or> dp_removed p")
    case False
    then show ?thesis using show_common_inv [of old new i j st p c change] Cons.prems by (simp add: is_at_append)
  next
    case True
    then show ?thesis
      using Cons.prems show_added_inv [of old new i j _ "raw_lines p"] show_removed_inv [of old new i j _ "raw_lines p"]
      by (auto simp: show_part_def Let_def is_at_append)
  qed
  have at: "is_at old (if dp_added p then i else i + ?n) (concat (map raw_lines (filter (\<lambda>p. \<not> dp_added p) ps)))"
    "is_at new (if dp_removed p then j else j + ?n) (concat (map raw_lines (filter (\<lambda>p. \<not> dp_removed p) ps)))"
    using Cons.prems(3,4) by (simp_all add: is_at_append split: if_splits)
  have rest: "\<forall>p \<in> set ps. \<not> (dp_added p \<and> dp_removed p)" using Cons.prems(2) by simp
  show ?case using Cons.IH [OF step rest at] unfolding show_parts.simps change_def .
qed

text \<open>
  The displayed diff is right about line numbers: every added line shows its number and its text in the new content, every
  removed line and every line of context those in the old content, whatever parts of the files are left out.
\<close>

lemma diff_rows_correct:
  assumes "diff_parts_ok parts old new"
    and "row \<in> set (df_output (show_parts contextLines parts
      \<lparr>df_output = [], df_old = 1, df_new = 1, df_lastWasChange = False, df_firstChanged = None\<rparr>))"
  shows "row_ok (split_nl old) (split_nl new) row"
proof -
  let ?st = "\<lparr>df_output = [], df_old = 1, df_new = 1, df_lastWasChange = False, df_firstChanged = None\<rparr>"
  have parts: "\<forall>p \<in> set parts. \<not> (dp_added p \<and> dp_removed p)"
    "concat (map raw_lines (filter (\<lambda>p. \<not> dp_added p) parts)) = raw_of old"
    "concat (map raw_lines (filter (\<lambda>p. \<not> dp_removed p) parts)) = raw_of new"
    using assms(1) by (auto simp: diff_parts_ok_def raw_of_parts)
  have pre: "is_at (split_nl s) 0 (raw_of s)" for s by (simp add: is_at_def raw_of_def butlast_conv_take)
  have "diff_inv (split_nl old) (split_nl new) 0 0 ?st" by (simp add: diff_inv_def)
  from show_parts_inv [OF this parts(1)] show ?thesis using assms(2) pre parts by simp
qed

end
