(* ===== verification/Read_Tool.thy ===== *)
theory Read_Tool
  imports Truncate_Props
begin

text \<open>
  \<^verbatim>\<open>packages/agent/src/harness/tools/read.ts\<close> with \<^verbatim>\<open>image.ts\<close> and \<^verbatim>\<open>path-utils.ts\<close>: reading a file for the model, as lines from an
  offset with a note on how to continue, or as an image.

  \<^verbatim>\<open>TextDecoder\<close> and the Unicode form NFD are arguments (\<open>decode\<close>, \<open>nfd\<close>), as are the image processor and the answers of
  the environment. Offset and limit are integers.
\<close>

section \<open>Images\<close>

type_synonym byte = "8 word"

definition byte_at :: "byte list \<Rightarrow> nat \<Rightarrow> nat" where
  "byte_at b i = (if i < length b then unat (b ! i) else 0)"

definition readUint16LE :: "byte list \<Rightarrow> nat \<Rightarrow> nat" where
  "readUint16LE b i = byte_at b i + byte_at b (i + 1) * 2 ^ 8"

definition readUint32BE :: "byte list \<Rightarrow> nat \<Rightarrow> nat" where
  "readUint32BE b i = byte_at b i * 0x1000000 + byte_at b (i + 1) * 2 ^ 16 + byte_at b (i + 2) * 2 ^ 8 + byte_at b (i + 3)"

definition readUint32LE :: "byte list \<Rightarrow> nat \<Rightarrow> nat" where
  "readUint32LE b i = byte_at b i + byte_at b (i + 1) * 2 ^ 8 + byte_at b (i + 2) * 2 ^ 16 + byte_at b (i + 3) * 0x1000000"

definition startsWith_bytes :: "byte list \<Rightarrow> byte list \<Rightarrow> bool" where
  "startsWith_bytes b p \<longleftrightarrow> length p \<le> length b \<and> (\<forall>i \<in> set [0..<length p]. b ! i = p ! i)"

definition startsWithAscii :: "byte list \<Rightarrow> nat \<Rightarrow> string \<Rightarrow> bool" where
  "startsWithAscii b offset t \<longleftrightarrow> offset + length t \<le> length b \<and> (\<forall>i \<in> set [0..<length t]. b ! (offset + i) = of_char (t ! i))"

definition PNG_SIGNATURE :: "byte list" where
  "PNG_SIGNATURE = [0x89, 0x50, 0x4e, 0x47, 0x0d, 0x0a, 0x1a, 0x0a]"

definition isPng :: "byte list \<Rightarrow> bool" where
  "isPng b \<longleftrightarrow> 16 \<le> length b \<and> readUint32BE b (length PNG_SIGNATURE) = 13 \<and> startsWithAscii b 12 ''IHDR''"

function png_chunks :: "byte list \<Rightarrow> nat \<Rightarrow> bool" where
  "png_chunks b offset =
     (if offset + 8 \<le> length b then
        (if startsWithAscii b (offset + 4) ''acTL'' then True
         else if startsWithAscii b (offset + 4) ''IDAT'' then False
         else let nextOffset = offset + 8 + readUint32BE b offset + 4 in
           if nextOffset \<le> offset \<or> nextOffset > length b then False else png_chunks b nextOffset)
      else False)"
  by pat_completeness auto
termination by (relation "measure (\<lambda>(b, offset). length b - offset)") auto

declare png_chunks.simps [simp del]

definition isAnimatedPng :: "byte list \<Rightarrow> bool" where
  "isAnimatedPng b = png_chunks b (length PNG_SIGNATURE)"

definition isBmp :: "byte list \<Rightarrow> bool" where
  "isBmp b =
     (if length b < 26 then False
      else let declaredFileSize = readUint32LE b 2; pixelDataOffset = readUint32LE b 10; dibHeaderSize = readUint32LE b 14 in
        if declaredFileSize \<noteq> 0 \<and> declaredFileSize < 26 then False
        else if pixelDataOffset < 14 + dibHeaderSize then False
        else if declaredFileSize \<noteq> 0 \<and> pixelDataOffset \<ge> declaredFileSize then False
        else if dibHeaderSize = 12 then readUint16LE b 22 = 1 \<and> readUint16LE b 24 \<in> set [1, 4, 8, 16, 24, 32]
        else if dibHeaderSize \<ge> 40 \<and> dibHeaderSize \<le> 124 then
          (if length b < 30 then False else readUint16LE b 26 = 1 \<and> readUint16LE b 28 \<in> set [1, 4, 8, 16, 24, 32])
        else False)"

definition detectSupportedImageMimeType :: "byte list \<Rightarrow> string option" where
  "detectSupportedImageMimeType b =
     (if startsWith_bytes b [0xff, 0xd8, 0xff] then (if 3 < length b \<and> b ! 3 = 0xf7 then None else Some ''image/jpeg'')
      else if startsWith_bytes b PNG_SIGNATURE then (if isPng b \<and> \<not> isAnimatedPng b then Some ''image/png'' else None)
      else if startsWithAscii b 0 ''GIF'' then Some ''image/gif''
      else if startsWithAscii b 0 ''RIFF'' \<and> startsWithAscii b 8 ''WEBP'' then Some ''image/webp''
      else if startsWithAscii b 0 ''BM'' \<and> isBmp b then Some ''image/bmp''
      else None)"

definition base64_alphabet :: string where
  "base64_alphabet = ''ABCDEFGHIJKLMNOPQRSTUVWXYZabcdefghijklmnopqrstuvwxyz0123456789+/''"

definition base64_char :: "byte \<Rightarrow> char" where
  "base64_char i = base64_alphabet ! unat i"

unbundle bit_operations_syntax

fun encodeBase64 :: "byte list \<Rightarrow> string" where
  "encodeBase64 [] = []"
| "encodeBase64 [a] = [base64_char (drop_bit 2 a), base64_char (push_bit 4 (a AND 0x03) OR drop_bit 4 0), CHR ''='', CHR ''='']"
| "encodeBase64 [a, b] =
     [base64_char (drop_bit 2 a), base64_char (push_bit 4 (a AND 0x03) OR drop_bit 4 b),
      base64_char (push_bit 2 (b AND 0x0f) OR drop_bit 6 0), CHR ''='']"
| "encodeBase64 (a # b # c # rest) =
     [base64_char (drop_bit 2 a), base64_char (push_bit 4 (a AND 0x03) OR drop_bit 4 b),
      base64_char (push_bit 2 (b AND 0x0f) OR drop_bit 6 c), base64_char (c AND 0x3f)] @ encodeBase64 rest"

section \<open>Paths\<close>

definition is_unicode_space :: "code_unit \<Rightarrow> bool" where
  "is_unicode_space c \<longleftrightarrow> c \<in> set [0xa0, 0x202f, 0x205f, 0x3000] \<or> 0x2000 \<le> c \<and> c \<le> 0x200a"

definition normalizeToolPath :: "text16 \<Rightarrow> text16" where
  "normalizeToolPath path =
     (let normalized = map (\<lambda>c. if is_unicode_space c then 0x20 else c) path
      in if normalized \<noteq> [] \<and> hd normalized = 0x40 then tl normalized else normalized)"

text \<open>\<^verbatim>\<open>replace(/ (AM|PM)\./gi, ...)\<close>: the space before AM or PM and a dot becomes a narrow no-break space.\<close>

definition upper16 :: "code_unit \<Rightarrow> code_unit" where
  "upper16 c = (if 0x61 \<le> c \<and> c \<le> 0x7a then c - 0x20 else c)"

fun narrow_am_pm :: "text16 \<Rightarrow> text16" where
  "narrow_am_pm (s # h # m # d # rest) =
     (if s = 0x20 \<and> upper16 h \<in> set [0x41, 0x50] \<and> upper16 m = 0x4d \<and> d = 0x2e
      then 0x202f # h # m # d # narrow_am_pm rest
      else s # narrow_am_pm (h # m # d # rest))"
| "narrow_am_pm s = s"

definition path_variants :: "(text16 \<Rightarrow> text16) \<Rightarrow> text16 \<Rightarrow> text16 list" where
  "path_variants nfd resolved =
     [resolved, narrow_am_pm resolved, nfd resolved, map (\<lambda>c. if c = 0x27 then 0x2019 else c) resolved,
      map (\<lambda>c. if c = 0x27 then 0x2019 else c) (nfd resolved)]"

text \<open>\<open>absolute\<close> and \<open>exists\<close> are the answers of the environment; an error is thrown on.\<close>

definition resolveToolPath :: "(text16 \<Rightarrow> string + text16) \<Rightarrow> text16 \<Rightarrow> string + text16" where
  "resolveToolPath absolute path = absolute (normalizeToolPath path)"

fun first_existing :: "(text16 \<Rightarrow> string + bool) \<Rightarrow> text16 \<Rightarrow> text16 list \<Rightarrow> string + text16" where
  "first_existing fileExists resolved [] = Inr resolved"
| "first_existing fileExists resolved (v # vs) =
     bind_result (fileExists v) (\<lambda>found. if found then Inr v else first_existing fileExists resolved vs)"

definition resolveReadToolPath ::
  "(text16 \<Rightarrow> text16) \<Rightarrow> (text16 \<Rightarrow> string + text16) \<Rightarrow> (text16 \<Rightarrow> string + bool) \<Rightarrow> text16 \<Rightarrow> string + text16" where
  "resolveReadToolPath nfd absolute fileExists path =
     bind_result (resolveToolPath absolute path) (\<lambda>resolved.
       first_existing fileExists resolved (rev (remdups (rev (path_variants nfd resolved)))))"

section \<open>Reading\<close>

datatype read_error = ReadFile string | OffsetBeyondEnd int nat | ReadTypeError truncation_error

datatype read_note =
    NoNote
  | LineTooLong nat text16
  | ShownLines nat nat nat bool nat
  | MoreLines int int

datatype content_item = TextItem text16 | ImageItem text16 text16

definition dec16 :: "nat \<Rightarrow> text16" where
  "dec16 n = ascii16 (dec_of_nat n)"

definition dec16_int :: "int \<Rightarrow> text16" where
  "dec16_int n = ascii16 (dec_of_int n)"

text \<open>\<^verbatim>\<open>slice(start, end)\<close> with a start that is not negative.\<close>

definition slice_js :: "'a list \<Rightarrow> nat \<Rightarrow> int \<Rightarrow> 'a list" where
  "slice_js xs start stop = (let e = (if stop < 0 then max 0 (int (length xs) + stop) else stop) in take (nat e - start) (drop start xs))"

text \<open>The part of \<^verbatim>\<open>execute\<close> after the text is decoded: what is shown, the note below it, and whether the truncation is reported.\<close>

definition read_lines :: "(text16 \<Rightarrow> nat) option \<Rightarrow> text16 \<Rightarrow> int option \<Rightarrow> int option \<Rightarrow>
    read_error + text16 \<times> read_note \<times> truncation_result option" where
  "read_lines buffer textContent offset lim =
     (let allLines = split_nl textContent;
          startLine = (case offset of None \<Rightarrow> 0 | Some k \<Rightarrow> if k = 0 then 0 else nat (max 0 (k - 1)))
      in if startLine \<ge> length allLines then Inl (OffsetBeyondEnd (case offset of None \<Rightarrow> 0 | Some k \<Rightarrow> k) (length allLines))
         else
           let (selectedContent, userLimitedLines) = (case lim of
                 Some l \<Rightarrow> (let endLine = min (int startLine + l) (int (length allLines))
                            in (join_nl (slice_js allLines startLine endLine), Some (endLine - int startLine)))
               | None \<Rightarrow> (join_nl (drop startLine allLines), None))
           in case truncateHead buffer selectedContent \<lparr>to_maxLines = None, to_maxBytes = None\<rparr> of
             Inl e \<Rightarrow> Inl (ReadTypeError e)
           | Inr truncation \<Rightarrow>
               Inr (if tn_firstLineExceedsLimit truncation then
                      ([], LineTooLong (startLine + 1) (ascii16 (formatSize (utf8_bytes (allLines ! startLine)))), Some truncation)
                    else if tn_truncated truncation then
                      (let endLineDisplay = startLine + 1 + tn_outputLines truncation - 1
                       in (tn_content truncation,
                           ShownLines (startLine + 1) endLineDisplay (length allLines) (tn_truncatedBy truncation = Some LineLimit) (endLineDisplay + 1),
                           Some truncation))
                    else case userLimitedLines of
                      None \<Rightarrow> (tn_content truncation, NoNote, None)
                    | Some u \<Rightarrow>
                        if int startLine + u < int (length allLines)
                        then (tn_content truncation, MoreLines (int (length allLines) - (int startLine + u)) (int startLine + u + 1), None)
                        else (tn_content truncation, NoNote, None)))"

fun note_text :: "text16 \<Rightarrow> read_note \<Rightarrow> text16" where
  "note_text path NoNote = []"
| "note_text path (LineTooLong line sz) =
     ascii16 ''[Line '' @ dec16 line @ ascii16 '' is '' @ sz @ ascii16 '', exceeds '' @ ascii16 (formatSize (nat DEFAULT_MAX_BYTES)) @
     ascii16 '' limit. Use bash: sed -n '' @ [0x27] @ dec16 line @ ascii16 ''p'' @ [0x27] @ ascii16 '' '' @ path @
     ascii16 '' | head -c '' @ dec16 (nat DEFAULT_MAX_BYTES) @ ascii16 '']''"
| "note_text path (ShownLines first last_line n by_lines next_offset) =
     [newline16, newline16] @ ascii16 ''[Showing lines '' @ dec16 first @ ascii16 ''-'' @ dec16 last_line @ ascii16 '' of '' @ dec16 n @
     (if by_lines then [] else ascii16 '' ('' @ ascii16 (formatSize (nat DEFAULT_MAX_BYTES)) @ ascii16 '' limit)'') @
     ascii16 ''. Use offset='' @ dec16 next_offset @ ascii16 '' to continue.]''"
| "note_text path (MoreLines remaining next_offset) =
     [newline16, newline16] @ ascii16 ''['' @ dec16_int remaining @ ascii16 '' more lines in file. Use offset='' @ dec16_int next_offset @
     ascii16 '' to continue.]''"

datatype processed_image = ProcessedImage text16 text16 "text16 list" | ProcessFailed text16

definition read_image :: "(byte list \<Rightarrow> string \<Rightarrow> bool \<Rightarrow> processed_image) option \<Rightarrow> bool option \<Rightarrow> byte list \<Rightarrow> string \<Rightarrow> content_item list" where
  "read_image processor autoResize bytes mimeType =
     (case processor of
        Some process \<Rightarrow>
          (case process bytes mimeType (case autoResize of None \<Rightarrow> True | Some b \<Rightarrow> b) of
             ProcessFailed message \<Rightarrow> [TextItem (ascii16 (''Read image file ['' @ mimeType @ '']'') @ [newline16] @ message)]
           | ProcessedImage data mt hints \<Rightarrow>
               [TextItem (ascii16 ''Read image file ['' @ mt @ ascii16 '']'' @ (if hints \<noteq> [] then newline16 # join_nl hints else [])),
                ImageItem data mt])
      | None \<Rightarrow>
          if mimeType = ''image/bmp'' then
            [TextItem (ascii16 ''Read image file [image/bmp]'' @ [newline16] @
               ascii16 ''[Image omitted: configure an imageProcessor to convert BMP images.]'')]
          else [TextItem (ascii16 (''Read image file ['' @ mimeType @ '']'')), ImageItem (ascii16 (encodeBase64 bytes)) (ascii16 mimeType)])"

definition read_execute :: "(text16 \<Rightarrow> nat) option \<Rightarrow> (byte list \<Rightarrow> text16) \<Rightarrow>
    (byte list \<Rightarrow> string \<Rightarrow> bool \<Rightarrow> processed_image) option \<Rightarrow> bool option \<Rightarrow> string + byte list \<Rightarrow> text16 \<Rightarrow> int option \<Rightarrow> int option \<Rightarrow>
    read_error + content_item list \<times> truncation_result option" where
  "read_execute buffer decode processor autoResize file path offset lim =
     (case file of
        Inl e \<Rightarrow> Inl (ReadFile e)
      | Inr bytes \<Rightarrow>
          (case detectSupportedImageMimeType bytes of
             Some mimeType \<Rightarrow> Inr (read_image processor autoResize bytes mimeType, None)
           | None \<Rightarrow> bind_result (read_lines buffer (decode bytes) offset lim) (\<lambda>(shown, n, details).
               Inr ([TextItem (shown @ note_text path n)], details))))"

section \<open>Reading on\<close>

text \<open>Reading a file to its end by following the notes, with the same limit each time: the texts shown.\<close>

fun next_offset :: "read_note \<Rightarrow> int option" where
  "next_offset (ShownLines first last_line n by_lines k) = Some (int k)"
| "next_offset (MoreLines remaining k) = Some k"
| "next_offset _ = None"

fun read_on :: "nat \<Rightarrow> (text16 \<Rightarrow> nat) option \<Rightarrow> text16 \<Rightarrow> int option \<Rightarrow> int option \<Rightarrow> text16 list option" where
  "read_on 0 buffer file offset lim = None"
| "read_on (Suc fuel) buffer file offset lim =
     (case read_lines buffer file offset lim of
        Inl e \<Rightarrow> None
      | Inr (shown, n, _) \<Rightarrow>
          (case next_offset n of
             None \<Rightarrow> Some [shown]
           | Some k \<Rightarrow> map_option (Cons shown) (read_on fuel buffer file (Some k) lim)))"


end
