(* ===== verification/Read_Tool_Props.thy ===== *)
theory Read_Tool_Props
  imports Read_Tool
begin

text \<open>A file can be read to its end by following the notes; images survive their encoding.\<close>

section \<open>Reading on\<close>

abbreviation default_limits :: truncation_options where
  "default_limits \<equiv> \<lparr>to_maxLines = None, to_maxBytes = None\<rparr>"

lemma last_join_nl: "sel \<noteq> [] \<Longrightarrow> last sel \<noteq> [] \<Longrightarrow> join_nl sel \<noteq> [] \<and> last (join_nl sel) = last (last sel)"
proof (induction sel rule: join_nl.induct)
  case (3 l k ls)
  then have "join_nl (k # ls) \<noteq> []" "last (join_nl (k # ls)) = last (last (k # ls))" by auto
  then show ?case by simp
qed auto

text \<open>The counted lines of selected lines are all of them, or all but an empty one at the end.\<close>

lemma counted_join:
  assumes "sel \<noteq> []" "\<forall>l \<in> set sel. newline16 \<notin> set l"
  shows "splitLinesForCounting (join_nl sel) = (if last sel = [] then butlast sel else sel)"
proof (cases "last sel = []")
  case True
  show ?thesis
  proof (cases "butlast sel = []")
    case True
    then have "sel = [[]]" using \<open>last sel = []\<close> assms(1) append_butlast_last_id [of sel] by simp
    then show ?thesis by (simp add: splitLinesForCounting_def)
  next
    case False
    have "sel = butlast sel @ [[]]" using True assms(1) append_butlast_last_id [of sel] by simp
    then have "join_nl sel = join_nl (butlast sel) @ [newline16]" using join_nl_append [OF False, of "[[]]"] by simp
    then show ?thesis using split_join [OF assms] True by (simp add: splitLinesForCounting_def)
  qed
next
  case False
  then have "last (join_nl sel) \<in> set (last sel)" using last_join_nl [OF assms(1)] by simp
  then have "last (join_nl sel) \<noteq> newline16" using assms by auto
  moreover have "join_nl sel \<noteq> []" using assms(1) False by (cases sel rule: join_nl.cases) auto
  ultimately show ?thesis using split_join [OF assms] False by (simp add: splitLinesForCounting_def)
qed

lemma bytes_line_le: "l \<in> set sel \<Longrightarrow> utf8_bytes l \<le> utf8_bytes (join_nl sel)"
  by (induction sel rule: join_nl.induct) (auto simp: utf8_bytes_line)

text \<open>Lines that are not too long are shown all, or at least one of them but not the last.\<close>

lemma truncate_selected:
  assumes "buffer_ok buffer" "sel \<noteq> []" "\<forall>l \<in> set sel. newline16 \<notin> set l" "int (utf8_bytes (hd sel)) \<le> DEFAULT_MAX_BYTES"
  shows "\<exists>r k. truncateHead buffer (join_nl sel) default_limits = Inr r \<and> \<not> tn_firstLineExceedsLimit r \<and>
    tn_content r = join_nl (take k sel) \<and> 0 < k \<and>
    (if tn_truncated r then k < length sel \<and> tn_outputLines r = k else k = length sel)"
proof -
  let ?ls = "splitLinesForCounting (join_nl sel)" and ?o = default_limits
  have limits: "max_lines ?o = 2000" "max_bytes ?o = DEFAULT_MAX_BYTES" "0 \<le> DEFAULT_MAX_BYTES"
    by (simp_all add: max_lines_def max_bytes_def DEFAULT_MAX_LINES_def DEFAULT_MAX_BYTES_def)
  show ?thesis
  proof (cases "int (length ?ls) \<le> max_lines ?o \<and> int (utf8_bytes (join_nl sel)) \<le> max_bytes ?o")
    case True
    then have "truncateHead buffer (join_nl sel) ?o = Inr (untruncated buffer (join_nl sel) ?o)"
      using truncateHead_fits [OF assms(1)] by blast
    then show ?thesis using assms(2) by (auto intro!: exI [of _ "length sel"])
  next
    case False
    obtain r kept where r: "truncateHead buffer (join_nl sel) ?o = Inr r" "longest_head ?o ?ls kept" "tn_truncated r"
      "tn_content r = join_nl kept" "tn_outputLines r = length kept"
      "tn_firstLineExceedsLimit r = (max_bytes ?o < int (utf8_bytes (hd ?ls)))"
      by (rule truncateHead_cut [OF assms(1) _ _ False]) (use limits in auto)
    have counted: "?ls = (if last sel = [] then butlast sel else sel)" by (rule counted_join [OF assms(2,3)])
    have ne: "?ls \<noteq> []" using False limits counted_empty [of "join_nl sel"] by auto
    then have hd: "hd ?ls = hd sel" using counted assms(2) by (cases sel) (auto split: if_splits)
    obtain k where k: "k \<le> length ?ls" "kept = take k ?ls" "within_limits ?o kept" "k < length ?ls \<longrightarrow> \<not> within_limits ?o (take (Suc k) ?ls)"
      using r(2) by (auto simp: longest_head_def)
    have "k \<noteq> 0"
    proof
      assume "k = 0"
      then have "\<not> within_limits ?o [hd ?ls]" using k(4) ne by (cases ?ls) auto
      then show False using assms(4) limits hd by (simp add: within_limits_def)
    qed
    moreover have "k < length sel"
    proof (rule ccontr)
      assume all: "\<not> k < length sel"
      have "last sel \<noteq> []"
      proof
        assume "last sel = []"
        then have "k \<le> length sel - 1" using k(1) counted by simp
        then show False using all assms(2) by (cases sel) auto
      qed
      then have "?ls = sel" "kept = sel" using all k(1,2) counted by auto
      then show False using k(3) False by (simp add: within_limits_def)
    qed
    moreover have "kept = take k sel"
      using k(1,2) counted calculation by (auto simp: butlast_conv_take min_def split: if_splits)
    ultimately show ?thesis using r hd assms(4) limits by (auto intro!: exI [of _ k])
  qed
qed

definition start_line :: "int option \<Rightarrow> nat" where
  "start_line offset = (case offset of None \<Rightarrow> 0 | Some k \<Rightarrow> if k = 0 then 0 else nat (max 0 (k - 1)))"

text \<open>One call shows some lines from the start line on and names the line after them, if there is one.\<close>

lemma read_lines_step:
  assumes "buffer_ok buffer" "start_line offset < length (split_nl file)"
    and "\<forall>l \<in> set (split_nl file). int (utf8_bytes l) \<le> DEFAULT_MAX_BYTES" "\<forall>l. lim = Some l \<longrightarrow> 0 < l"
  shows "\<exists>k n d. read_lines buffer file offset lim = Inr (join_nl (take k (drop (start_line offset) (split_nl file))), n, d) \<and> 0 < k \<and>
    start_line offset + k \<le> length (split_nl file) \<and>
    next_offset n = (if start_line offset + k < length (split_nl file) then Some (int (start_line offset + k + 1)) else None)"
proof -
  let ?all = "split_nl file" and ?s = "start_line offset"
  define m where "m = (case lim of None \<Rightarrow> length ?all - ?s | Some l \<Rightarrow> min (nat l) (length ?all - ?s))"
  define sel where "sel = take m (drop ?s ?all)"
  have m: "0 < m" "?s + m \<le> length ?all" using assms(2,4) by (auto simp: m_def split: option.splits)
  have sel: "sel \<noteq> []" "set sel \<subseteq> set ?all" "length sel = m"
    using m by (auto simp: sel_def dest: in_set_takeD in_set_dropD)
  have chosen: "(case lim of Some l \<Rightarrow> (let endLine = min (int ?s + l) (int (length ?all))
        in (join_nl (slice_js ?all ?s endLine), Some (endLine - int ?s)))
      | None \<Rightarrow> (join_nl (drop ?s ?all), None)) = (join_nl sel, map_option (\<lambda>_. int m) lim)"
  proof (cases lim)
    case None
    then show ?thesis by (simp add: sel_def m_def)
  next
    case (Some l)
    then have l: "0 < l" using assms(4) by simp
    then have "nat (min (int ?s + l) (int (length ?all))) - ?s = m" "min (int ?s + l) (int (length ?all)) - int ?s = int m"
      using Some assms(2) by (auto simp: m_def min_def)
    then show ?thesis using Some l by (simp add: slice_js_def sel_def Let_def)
  qed
  have clean: "\<forall>l \<in> set sel. newline16 \<notin> set l" using sel(2) split_no_newline by blast
  have short: "int (utf8_bytes (hd sel)) \<le> DEFAULT_MAX_BYTES" using list.set_sel(1) [OF sel(1)] sel(2) assms(3) by blast
  obtain r k where r: "truncateHead buffer (join_nl sel) default_limits = Inr r" "\<not> tn_firstLineExceedsLimit r"
    "tn_content r = join_nl (take k sel)" "0 < k" "if tn_truncated r then k < length sel \<and> tn_outputLines r = k else k = length sel"
    using truncate_selected [OF assms(1) sel(1) clean short] by blast
  have shown: "take k sel = take k (drop ?s ?all)" using r(5) sel(3) by (auto simp: sel_def min_def split: if_splits)
  show ?thesis
  proof (cases "tn_truncated r")
    case True
    then show ?thesis using r shown sel(3) m assms(2) chosen
      by (auto simp: read_lines_def Let_def start_line_def [symmetric] intro!: exI [of _ k])
  next
    case False
    then have k: "k = m" using r(5) sel(3) by simp
    show ?thesis
    proof (cases lim)
      case None
      then have "?s + m = length ?all" using m by (simp add: m_def)
      then show ?thesis using False None r shown k m assms(2) chosen
        by (auto simp: read_lines_def Let_def start_line_def [symmetric] intro!: exI [of _ k])
    next
      case (Some l)
      then show ?thesis using False r shown k m assms(2) chosen
        by (auto simp: read_lines_def Let_def start_line_def [symmetric] intro!: exI [of _ k])
    qed
  qed
qed

lemma read_on_join:
  assumes "buffer_ok buffer" "\<forall>l \<in> set (split_nl file). int (utf8_bytes l) \<le> DEFAULT_MAX_BYTES" "\<forall>l. lim = Some l \<longrightarrow> 0 < l"
  shows "start_line offset < length (split_nl file) \<Longrightarrow> length (split_nl file) - start_line offset \<le> fuel \<Longrightarrow>
    \<exists>shown. read_on fuel buffer file offset lim = Some shown \<and> shown \<noteq> [] \<and> join_nl shown = join_nl (drop (start_line offset) (split_nl file))"
proof (induction fuel arbitrary: offset)
  case (Suc fuel)
  let ?all = "split_nl file" and ?s = "start_line offset"
  obtain k n d where k: "read_lines buffer file offset lim = Inr (join_nl (take k (drop ?s ?all)), n, d)" "0 < k" "?s + k \<le> length ?all"
    "next_offset n = (if ?s + k < length ?all then Some (int (?s + k + 1)) else None)"
    using read_lines_step [OF assms(1) Suc.prems(1) assms(2,3)] by blast
  show ?case
  proof (cases "?s + k < length ?all")
    case True
    have start: "start_line (Some (int (?s + k + 1))) = ?s + k" by (simp add: start_line_def)
    have le: "length ?all - (?s + k) \<le> fuel" using True k(2) Suc.prems(2) by linarith
    obtain rest where rest: "read_on fuel buffer file (Some (int (?s + k + 1))) lim = Some rest" "rest \<noteq> []"
      "join_nl rest = join_nl (drop (?s + k) ?all)"
      using Suc.IH [of "Some (int (?s + k + 1))"] True le unfolding start by blast
    have "join_nl (drop ?s ?all) = join_nl (take k (drop ?s ?all)) @ newline16 # join_nl (drop (?s + k) ?all)"
      using join_nl_append [of "take k (drop ?s ?all)" "drop k (drop ?s ?all)", unfolded append_take_drop_id] True k(2) by (simp add: add.commute)
    then show ?thesis using True k rest by (simp add: join_nl_Cons)
  next
    case False
    then show ?thesis using k by simp
  qed
qed simp

text \<open>
  C37. A text file can be read completely, if no line of it is longer than the byte limit and the line limit asked for, if any, is
  positive: a call that shows only a part names the offset of the first line it left out, following these offsets ends after at most
  as many calls as the file has lines, and the texts shown, joined by line breaks, are the file.
\<close>

theorem read_to_the_end:
  assumes "buffer_ok buffer" "\<forall>l \<in> set (split_nl file). int (utf8_bytes l) \<le> DEFAULT_MAX_BYTES" "\<forall>l. lim = Some l \<longrightarrow> 0 < l"
  shows "\<exists>shown. read_on (length (split_nl file)) buffer file None lim = Some shown \<and> join_nl shown = file"
  using read_on_join [OF assms, of None "length (split_nl file)"] by (auto simp: start_line_def)

theorem read_to_the_end_witness:
  "\<exists>shown. read_on 3 None (ascii16 ''a'' @ newline16 # ascii16 ''b'' @ [newline16]) None (Some 1) = Some shown \<and>
     join_nl shown = ascii16 ''a'' @ newline16 # ascii16 ''b'' @ [newline16]"
proof -
  let ?file = "ascii16 ''a'' @ newline16 # ascii16 ''b'' @ [newline16]"
  have "length (split_nl ?file) = 3" "\<forall>l \<in> set (split_nl ?file). int (utf8_bytes l) \<le> DEFAULT_MAX_BYTES" by code_simp+
  then show ?thesis using read_to_the_end [of None ?file "Some 1"] by (simp add: buffer_ok_def)
qed

section \<open>Base64\<close>

text \<open>The alphabet read backwards, and the decoder of the standard.\<close>

unbundle bit_operations_syntax

definition base64_value :: "char \<Rightarrow> byte" where
  "base64_value c = of_nat (length (takeWhile (\<lambda>d. d \<noteq> c) base64_alphabet))"

fun decode_base64 :: "string \<Rightarrow> byte list" where
  "decode_base64 (a # b # c # d # rest) =
     (if d = CHR ''='' then
        (if c = CHR ''='' then [push_bit 2 (base64_value a) OR drop_bit 4 (base64_value b)]
         else [push_bit 2 (base64_value a) OR drop_bit 4 (base64_value b), push_bit 4 (base64_value b) OR drop_bit 2 (base64_value c)])
      else [push_bit 2 (base64_value a) OR drop_bit 4 (base64_value b), push_bit 4 (base64_value b) OR drop_bit 2 (base64_value c),
            push_bit 6 (base64_value c) OR base64_value d] @ decode_base64 rest)"
| "decode_base64 _ = []"

lemma base64_chars: "\<forall>i \<in> set [0..<64]. base64_value (base64_alphabet ! i) = of_nat i \<and> base64_alphabet ! i \<noteq> CHR ''=''"
  by code_simp

lemma base64_value_char: "w < 64 \<Longrightarrow> base64_value (base64_char w) = w \<and> base64_char w \<noteq> CHR ''=''"
proof -
  assume "w < 64"
  then have "unat w < 64" by (simp add: word_less_nat_alt)
  then show ?thesis using base64_chars by (auto simp: base64_char_def)
qed

lemma masks8: "(0x03 :: byte) = mask 2" "(0x0f :: byte) = mask 4" "(0x3f :: byte) = mask 6"
  by (simp_all add: mask_eq_exp_minus_1)

lemma below8: "n < 8 \<Longrightarrow> n = 0 \<or> n = 1 \<or> n = 2 \<or> n = 3 \<or> n = 4 \<or> n = 5 \<or> n = 6 \<or> n = (7 :: nat)"
  by arith

lemma byte_eqI: "(\<And>n. n < 8 \<Longrightarrow> bit v n = bit w n) \<Longrightarrow> v = (w :: byte)"
  by (rule bit_word_eqI) simp

lemmas bit8_simps = bit_simps numeral_2_eq_2 [symmetric] numeral_3_eq_3 [symmetric]

lemma sextets:
  fixes a b c :: byte
  shows "push_bit 2 (drop_bit 2 a) OR drop_bit 4 (push_bit 4 (a AND mask 2) OR drop_bit 4 b) = a"
    "push_bit 4 (push_bit 4 (a AND mask 2) OR drop_bit 4 b) OR drop_bit 2 (push_bit 2 (b AND mask 4) OR drop_bit 6 c) = b"
    "push_bit 6 (push_bit 2 (b AND mask 4) OR drop_bit 6 c) OR (c AND mask 6) = c"
  subgoal by (rule byte_eqI, drule below8) (auto simp: bit8_simps dest: bit_imp_le_length)
  subgoal by (rule byte_eqI, drule below8) (auto simp: bit8_simps dest: bit_imp_le_length)
  subgoal by (rule byte_eqI, drule below8) (auto simp: bit8_simps dest: bit_imp_le_length)
  done

lemma sextet_less: "take_bit 6 w = w \<Longrightarrow> w < (64 :: byte)"
proof -
  assume "take_bit 6 w = w"
  then have "unat w = take_bit 6 (unat w)" by (metis unsigned_take_bit_eq)
  then have "unat w < 2 ^ 6" by (metis take_bit_nat_less_exp)
  then show ?thesis by (simp add: word_less_nat_alt)
qed

lemma sextets_small:
  fixes a b c :: byte
  shows "drop_bit 2 a < 64" "push_bit 4 (a AND mask 2) OR drop_bit 4 b < 64" "push_bit 2 (b AND mask 4) OR drop_bit 6 c < 64" "c AND mask 6 < 64"
  subgoal by (rule sextet_less, rule byte_eqI, drule below8) (auto simp: bit8_simps dest: bit_imp_le_length)
  subgoal by (rule sextet_less, rule byte_eqI, drule below8) (auto simp: bit8_simps dest: bit_imp_le_length)
  subgoal by (rule sextet_less, rule byte_eqI, drule below8) (auto simp: bit8_simps dest: bit_imp_le_length)
  subgoal by (rule sextet_less, rule byte_eqI, drule below8) (auto simp: bit8_simps dest: bit_imp_le_length)
  done

text \<open>
  Decoding what \<^verbatim>\<open>encodeBase64\<close> writes gives the bytes back, for every length of the input.
\<close>

lemma base64_roundtrip: "decode_base64 (encodeBase64 bytes) = bytes"
proof (induction bytes rule: encodeBase64.induct)
  case (2 a)
  then show ?case using base64_value_char [OF sextets_small(1)] base64_value_char [OF sextets_small(2), of a 0] sextets(1) [of a 0]
    by (simp add: masks8)
next
  case (3 a b)
  then show ?case using base64_value_char [OF sextets_small(1)] base64_value_char [OF sextets_small(2)]
      base64_value_char [OF sextets_small(3), of b 0] sextets(1) [of a b] sextets(2) [of a b 0]
    by (simp add: masks8)
next
  case (4 a b c rest)
  then show ?case using base64_value_char [OF sextets_small(1)] base64_value_char [OF sextets_small(2)]
      base64_value_char [OF sextets_small(3)] base64_value_char [OF sextets_small(4)] sextets(1) [of a b] sextets(2) [of a b c] sextets(3) [of b c]
    by (simp add: masks8)
qed simp

end
