(* ===== verification/Spec2Isabelle.thy ===== *)
theory Spec2Isabelle
  imports Session_Props Compaction_Props Harness_Journal_Props Session_Jsonl_Props Session_Repo Turn_Lease Lifecycle_Props Agent_Loop_Props Edit_Diff_Props Read_Tool_Props
begin

text \<open>
  A verification of the core of Recode, a coding-agent harness in TypeScript. Paths below are under
  \<^verbatim>\<open>src/packages\<close>.

  \<^bold>\<open>The program.\<close> A run of the agent (\<^verbatim>\<open>agent/src/agent-loop.ts\<close>) alternates calls of a language model with
  batches of tool calls. Conversations are durable: the v4 session store
  (\<^verbatim>\<open>agent/src/harness/session-v4\<close>) keeps a tree of entries, lanes that point into it, and a log of records
  from which an interrupted run is resumed; the tree sessions of \<^verbatim>\<open>agent/src/harness/session\<close>, which the harness works on today, keep a
  tree with one leaf, which compactions shorten, and the journal of the harness as entries. Its tools read, edit and cut texts. Maestro (\<^verbatim>\<open>orchestrator/src\<close>) launches child instances, serialises
  the turns of a session, and hands the results of children to their parents.

  \<^bold>\<open>Theories and sources.\<close>

  \<^item> \<open>Recode_Prelude\<close>: the result monad (errors as the left of a sum), JavaScript maps with insertion order,
    numbers and JSON values, trimming, decimal printing, and lemmas on lists that the components share.
  \<^item> \<open>Session_Types\<close> (\<^verbatim>\<open>types.ts\<close> and the messages of \<^verbatim>\<open>ai/src/types.ts\<close>), \<open>Session_State\<close> (\<^verbatim>\<open>state.ts\<close>: mutations,
    queries, fork mutations), \<open>Session_State_Inv\<close> (the state invariant, and queries against their
    specifications), \<open>Session_Fork\<close> (replaying a fork).
  \<^item> \<open>Session_Storage\<close>: the \<^verbatim>\<open>SessionStorage\<close> interface as a locale of laws; \<open>Session_Memory\<close> (\<^verbatim>\<open>memory.ts\<close>) the
    in-memory implementation, which interprets it, and the repository over an explicit store.
  \<^item> \<open>Json_Text\<close>, \<open>Json_Roundtrip\<close>: \<^verbatim>\<open>JSON.stringify\<close> and \<^verbatim>\<open>JSON.parse\<close> on texts, and that reading undoes writing, that the
    text of an object has no line break, and that none of its proper prefixes can be read.
  \<^item> \<open>Session_Wire\<close> (the JSON documents of the payload types), \<open>Session_Codec\<close> (\<^verbatim>\<open>jsonl/codec.ts\<close>: header and mutation
    lines), \<open>Session_Jsonl\<close> (\<^verbatim>\<open>jsonl/storage.ts\<close>, \<^verbatim>\<open>jsonl/errors.ts\<close>: the storage in a file, over a file system with
    faults; it interprets the storage locale by a simulation of the storage in memory), \<open>Session_Jsonl_Props\<close>
    (its properties) and \<open>Session_Repo\<close> (\<^verbatim>\<open>jsonl/repo.ts\<close>).
  \<^item> \<open>Session_Json\<close> (the payload check of \<^verbatim>\<open>session.ts\<close> on a heap of objects) and \<open>Session_Facade\<close> (the other
    methods of \<^verbatim>\<open>session.ts\<close>, with their lemmas proved in the storage locale).
  \<^item> \<open>Session_Reducer\<close> (\<^verbatim>\<open>reducer.ts\<close>) and \<open>Session_Reducer_Props\<close>: the validation of a lane's record log against a
    declarative reading of its rules, and the reconstruction of the lane state.
  \<^item> \<open>Session_Context\<close> (\<^verbatim>\<open>context.ts\<close>, \<^verbatim>\<open>harness/messages.ts\<close>): from a branch to the messages of a request.
  \<^item> \<open>Session_Props\<close>: the properties of the session components.
  \<^item> \<open>Tree_Session\<close> (\<^verbatim>\<open>session/memory-storage.ts\<close>, \<^verbatim>\<open>session.ts\<close>, \<^verbatim>\<open>memory-repo.ts\<close>, \<^verbatim>\<open>repo-utils.ts\<close>): entries, the storage in memory, the
    methods of the session over a storage interface, context, forks; \<open>Tree_Session_Props\<close> has the contract of a storage as the locale
    \<open>tree_store\<close>. \<open>Iso_Time\<close> reads back the texts of \<^verbatim>\<open>toISOString\<close>; \<open>Tree_Jsonl\<close> (\<^verbatim>\<open>jsonl-storage.ts\<close>, \<^verbatim>\<open>jsonl-repo.ts\<close>) is the storage in a
    file, on the file system of \<open>Session_Jsonl\<close>, and \<open>Tree_Jsonl_Props\<close> shows that it keeps the contract.
  \<^item> \<open>Harness_Journal\<close> (\<^verbatim>\<open>recode-harness-journal.ts\<close>, \<^verbatim>\<open>runJournaledOperation\<close> of \<^verbatim>\<open>agent-harness.ts\<close>) and \<open>Harness_Journal_Props\<close>, over any
    storage whose entries grow by appends (the locale \<open>tree_log\<close>, interpreted for both storages).
  \<^item> \<open>Compaction\<close> (\<^verbatim>\<open>harness/compaction\<close>) and \<open>Compaction_Props\<close>: token estimates, cut points, what is summarised and retained,
    branch summaries.
  \<^item> \<open>Truncate\<close> (\<^verbatim>\<open>harness/utils/truncate.ts\<close>), \<open>Edit_Diff\<close> (\<^verbatim>\<open>tools/edit-diff.ts\<close>, \<^verbatim>\<open>edit.ts\<close>), \<open>Read_Tool\<close> (\<^verbatim>\<open>tools/read.ts\<close>, \<^verbatim>\<open>image.ts\<close>,
    \<^verbatim>\<open>path-utils.ts\<close>), each with its \<open>_Props\<close>: the tools that cut, edit and read texts.
  \<^item> \<open>Agent_Loop\<close> (\<^verbatim>\<open>agent-loop.ts\<close>, \<^verbatim>\<open>iteration-budget.ts\<close>, parts of \<^verbatim>\<open>types.ts\<close>) and \<open>Agent_Loop_Props\<close>.
  \<^item> \<open>Turn_Lease\<close> (\<^verbatim>\<open>turn-lease.ts\<close>), \<open>Completion_Queue\<close> (\<^verbatim>\<open>completion-queue.ts\<close>), \<open>Lifecycle_Contract\<close>
    (\<^verbatim>\<open>lifecycle-contract.ts\<close>), \<open>Lifecycle_Service\<close> (\<^verbatim>\<open>lifecycle-service.ts\<close>) and \<open>Lifecycle_Props\<close>.

  \<^bold>\<open>What is shown.\<close> Session states that mutations can build are consistent; branch walks end and queries agree
  with their specifications; forks replay; a lane has one open operation at most; lanes are isolated; the record
  log is accepted exactly when the declarative rules hold, and what the reduction reports as started was started
  by exactly one record. A session file loads to the state in memory; after a write that broke off it loads to the
  state before or after that write; a fork is published as a whole or not at all; but a failed append that
  left a part of its line behind costs later writes (\<open>failed_append_corrupts\<close>).

  The branch of a tree session ends and is the chain of ancestors cut at compactions, the cut changes nothing in the context when compactions are nested as those of the harness are, forks keep the
  branch, and a session file opens to the storage that wrote it; but a torn last line loses the session (\<open>torn_write_loses_session\<close>).
  The conversations that a compaction shows to the model and the messages it retains partition the history since the last boundary, and the answers are in its summary; retained messages are dropped by the
  next compaction (\<open>retained_tail_dropped\<close>), and settings before a compaction are forgotten. The journal closes whatever a log leaves open and
  leaves nothing open itself, but one failed write at the start of an operation blocks the harness (\<open>failed_start_blocks_harness\<close>). Cut output is
  the longest that fits; edits replace the matched texts and nothing else; reading on from the offsets that the read tool names shows the whole file.

  A run of the agent ends within its budget for every behaviour of the model, the
  tools and the hooks, its events follow the turn protocol and announce exactly the messages it returns, and tool
  calls are answered in order. A session has one turn at a time; a release hands the lease on. Completions
  are not lost before they are acknowledged and stale claims are fenced. A launched child always reaches a terminal
  state, which is final, and its result is queued for its parent or reported as a failed hand-off.

  \<^bold>\<open>Modelling.\<close> Errors are constructors; their texts are kept only where the program hands them on as data (tool
  results). Times, random ids and capabilities are arguments. Strings are character lists, so lengths
  count characters where JavaScript counts UTF-16 units; in \<open>Truncate\<close>, \<open>Edit_Diff\<close> and \<open>Read_Tool\<close>, where lengths matter, they are lists of
  16-bit code units, and Unicode normalisation, text decoding, the image processor and the parts of a displayed diff are arguments. Token counts are integers; money is an
  unevaluated sum in the order of the additions. An asynchronous operation is split where it awaits, and a step
  relation interleaves the parts; a step of the lifecycle service reads the clock once. Objects whose
  identity matters (leases, tokens, waiters, lifecycle records, storages in a repository, payloads) live in explicit
  stores. The model, the tools, their argument validation and the hooks of the agent loop, the adapters of the
  lifecycle service and the digest of a result are arguments of the definitions. Concurrent tool calls run as
  whole calls in the order of their completion. The budget of a run belongs to that run.

  A file is a string; a fault of the file system is the failure of one call after a given number of characters,
  with the text cut between characters. A session file whose lines pass the checks of the codec
  but hold payloads of other types than TypeScript gives them is outside the model and reported as such
  (\<open>Untyped\<close>, \<open>TreeUntyped\<close>). Number texts are read as the decimals they denote, without rounding to a double. The writes of one
  storage are queued by the code and run one after the other, so each is one step.

  \<^bold>\<open>Where the types of the model are narrower than those of the program.\<close> Messages have the seven roles that the package defines; the
  program lets an extension declare further ones, which \<^verbatim>\<open>convertToLlm\<close> drops (\<open>llm_message\<close>). Payloads of unknown type in tree
  sessions (\<^verbatim>\<open>details\<close>, \<^verbatim>\<open>data\<close>) are JSON values, although these sessions do not check them, and a missing \<^verbatim>\<open>fromHook\<close> is the
  same as false (\<open>tree_body\<close>). The projectors of a session are found by the custom types they were given for, while a JavaScript object
  also answers to the names that every object inherits (\<open>top_entryProjectors\<close>). Turn and tool call ids in a journal that are arrays or
  objects are compared by their contents, where the keys of a \<^verbatim>\<open>Map\<close> compare by identity (\<open>scan_record\<close>); the program writes
  only strings. File names in the stored details of a compaction that are no strings are left out (\<open>detail_files\<close>).

  \<^bold>\<open>Termination and fuel.\<close> The JSON parser uses fuel, twice the length of the text and one, which is shown to
  be enough (\<open>p_value_fuel\<close>), and the reading of a file to its end takes the number of its lines, which is shown to be enough
  (\<open>read_to_the_end\<close>). The v4 branch walk recurses on the entries not yet visited and the agent
  loop on what is left of its budget. The walks up a tree session and the payload check, a loop on an arbitrary object graph, are
  partial functions that are proved to return, the former on every session that its operations can build, the latter on every input.

  \<^bold>\<open>Not modelled.\<close> What is left mostly calls external code or handles streams of events from it: the request side of the harness (its
  hooks, listeners and prompt texts), providers and authentication, the SQLite storage, the command line program with its settings, extensions
  and terminal interface, process supervision, sockets and telemetry. Compaction's requests to the model, shell commands and file
  watching are arguments or left out. \<^verbatim>\<open>PROJECT.json\<close> lists every part with its status.
\<close>

end
